(* ===== verification/GoPrelude.thy ===== *)
theory GoPrelude
  imports Main "HOL-Library.AList"
begin

text \<open>
  Shared vocabulary of the development: the parts of the Go language and its standard
  library that the modelled packages use.

  \<^item> \<open>int64\<close> values are HOL integers; every arithmetic operation writes the two's
    complement wrap-around out (\<open>add64\<close>, \<open>mul64\<close>, ...), and division truncates
    towards zero.
  \<^item> A Go map is an association list. Lookups, inserts and deletes go through the library's
    \<open>map_of\<close>, \<open>AList.update\<close> and \<open>AList.delete\<close>; a map that is ranged over is
    read in list order, which stands for Go's unspecified iteration order (\<open>wf_map\<close>: every
    key once).
  \<^item> A \<open>time.Time\<close> is the number of nanoseconds since Go's zero time, so that the zero
    value is \<open>0\<close>; a \<open>time.Duration\<close> is a number of nanoseconds.
  \<^item> A function that may return a Go error yields \<open>Inl\<close> of the error or \<open>Inr\<close>
    of the result.
\<close>

section \<open>Theorem collections\<close>

named_theorems wf_intros \<open>well-formedness of the maps of the model\<close>
named_theorems i64_simps \<open>wrapping arithmetic in terms of one final wrap\<close>

section \<open>Signed 64-bit arithmetic\<close>

definition wrap64 :: "int \<Rightarrow> int" where
  "wrap64 x = (x + 2 ^ 63) mod 2 ^ 64 - 2 ^ 63"

definition in_i64 :: "int \<Rightarrow> bool" where
  "in_i64 x \<longleftrightarrow> - (2 ^ 63) \<le> x \<and> x < 2 ^ 63"

definition add64 :: "int \<Rightarrow> int \<Rightarrow> int" where
  "add64 a b = wrap64 (a + b)"

definition sub64 :: "int \<Rightarrow> int \<Rightarrow> int" where
  "sub64 a b = wrap64 (a - b)"

definition mul64 :: "int \<Rightarrow> int \<Rightarrow> int" where
  "mul64 a b = wrap64 (a * b)"

definition neg64 :: "int \<Rightarrow> int" where
  "neg64 a = wrap64 (- a)"

text \<open>Go's \<open>/\<close> and \<open>%\<close> truncate towards zero. The divisors of the modelled code
  are non-zero constants, so the run-time panic of a zero divisor does not arise.\<close>

definition quot64 :: "int \<Rightarrow> int \<Rightarrow> int" where
  "quot64 a b = wrap64 (sgn a * sgn b * (\<bar>a\<bar> div \<bar>b\<bar>))"

definition rem64 :: "int \<Rightarrow> int \<Rightarrow> int" where
  "rem64 a b = sgn a * (\<bar>a\<bar> mod \<bar>b\<bar>)"

lemma wrap64_in_i64 [simp]: "in_i64 (wrap64 x)"
  by (simp add: wrap64_def in_i64_def)

lemma wrap64_id: "in_i64 x \<Longrightarrow> wrap64 x = x"
  by (simp add: wrap64_def in_i64_def)

lemma wrap64_wrap64 [simp]: "wrap64 (wrap64 x) = wrap64 x"
  by (simp add: wrap64_id)

lemma wrap64_0 [simp]: "wrap64 0 = 0"
  by (simp add: wrap64_def)

lemma wrap64_eq_iff: "wrap64 x = wrap64 y \<longleftrightarrow> x mod 2 ^ 64 = y mod 2 ^ 64"
proof -
  have "wrap64 x = wrap64 y \<longleftrightarrow> (x + 2 ^ 63) mod 2 ^ 64 = (y + 2 ^ 63) mod 2 ^ 64"
    by (auto simp: wrap64_def)
  also have "\<dots> \<longleftrightarrow> x mod 2 ^ 64 = y mod (2 ^ 64 :: int)"
    by (auto simp: mod_eq_dvd_iff)
  finally show ?thesis .
qed

lemma wrap64_mod [simp]: "wrap64 x mod 2 ^ 64 = x mod 2 ^ 64"
  using wrap64_eq_iff [of "wrap64 x" x] by simp

lemma wrap64_add_l [simp]: "wrap64 (wrap64 x + y) = wrap64 (x + y)"
  by (subst wrap64_eq_iff) (metis mod_add_left_eq wrap64_mod)

lemma wrap64_add_r [simp]: "wrap64 (x + wrap64 y) = wrap64 (x + y)"
  by (metis add.commute wrap64_add_l)

lemma wrap64_minus [simp]: "wrap64 (- wrap64 x) = wrap64 (- x)"
  by (subst wrap64_eq_iff) (metis mod_minus_eq wrap64_mod)

lemma wrap64_diff_l [simp]: "wrap64 (wrap64 x - y) = wrap64 (x - y)"
  using wrap64_add_l [of x "- y"] by simp

lemma wrap64_diff_r [simp]: "wrap64 (x - wrap64 y) = wrap64 (x - y)"
  by (metis diff_conv_add_uminus wrap64_add_r wrap64_minus)

lemma wrap64_add_cong:
  "wrap64 a = wrap64 a' \<Longrightarrow> wrap64 b = wrap64 b' \<Longrightarrow> wrap64 (a + b) = wrap64 (a' + b')"
  by (metis wrap64_add_l wrap64_add_r)

lemma wrap64_replace: "wrap64 (x + (wrap64 y - z) + r) = wrap64 (x + (y - z) + r)"
  using wrap64_add_l [of y "x - z + r"] by (simp add: algebra_simps)

lemma wrap64_eq_0_iff: "wrap64 x = 0 \<longleftrightarrow> 2 ^ 64 dvd x"
  using wrap64_eq_iff [of x 0] by (simp add: mod_eq_0_iff_dvd)

declare add64_def [i64_simps] sub64_def [i64_simps] neg64_def [i64_simps] mul64_def [i64_simps]

lemma in_i64_arith [simp]:
  "in_i64 (add64 a b)" "in_i64 (sub64 a b)" "in_i64 (mul64 a b)" "in_i64 (neg64 a)"
  "in_i64 (quot64 a b)"
  by (simp_all add: i64_simps quot64_def)

lemma add64_id: "in_i64 (a + b) \<Longrightarrow> add64 a b = a + b"
  by (simp add: add64_def wrap64_id)

lemma mul64_id: "in_i64 (a * b) \<Longrightarrow> mul64 a b = a * b"
  by (simp add: mul64_def wrap64_id)

lemma sub64_id: "in_i64 (a - b) \<Longrightarrow> sub64 a b = a - b"
  by (simp add: sub64_def wrap64_id)

lemma neg64_id: "in_i64 (- a) \<Longrightarrow> neg64 a = - a"
  by (simp add: neg64_def wrap64_id)

lemma quot64_nonneg: "0 \<le> a \<Longrightarrow> 0 < b \<Longrightarrow> in_i64 a \<Longrightarrow> quot64 a b = a div b"
proof -
  assume a: "0 \<le> a" "0 < b" "in_i64 a"
  then have "a div b \<le> a" using zdiv_mono2 [of a 1 b] by simp
  moreover have "0 \<le> a div b" using a by (simp add: pos_imp_zdiv_nonneg_iff)
  ultimately have "in_i64 (a div b)" using a by (simp add: in_i64_def)
  then show ?thesis using a by (cases "a = 0") (simp_all add: quot64_def wrap64_id)
qed

text \<open>A credit that the ledger let through did not wrap.\<close>

lemma add64_no_wrap:
  "0 \<le> a \<Longrightarrow> in_i64 a \<Longrightarrow> 0 \<le> b \<Longrightarrow> in_i64 b \<Longrightarrow> 0 \<le> add64 a b \<Longrightarrow> add64 a b = a + b"
proof -
  assume h: "0 \<le> a" "in_i64 a" "0 \<le> b" "in_i64 b" "0 \<le> add64 a b"
  show ?thesis
  proof (cases "a + b < 2 ^ 63")
    case False
    have "(a + b + 2 ^ 63) mod 2 ^ 64 = (a + b - 2 ^ 63) mod 2 ^ 64"
      using mod_add_self2 [of "a + b - 2 ^ 63" "2 ^ 64"] by (simp add: algebra_simps)
    also have "\<dots> = a + b - 2 ^ 63" using h False by (intro mod_pos_pos_trivial) (simp_all add: in_i64_def)
    finally show ?thesis using h False by (simp add: add64_def wrap64_def in_i64_def)
  qed (use h in \<open>simp add: add64_id in_i64_def\<close>)
qed

section \<open>Time\<close>

type_synonym time = int
type_synonym duration = int

definition IsZero :: "time \<Rightarrow> bool" where
  "IsZero t \<longleftrightarrow> t = 0"

definition Before :: "time \<Rightarrow> time \<Rightarrow> bool" where
  "Before t u \<longleftrightarrow> t < u"

definition After :: "time \<Rightarrow> time \<Rightarrow> bool" where
  "After t u \<longleftrightarrow> u < t"

abbreviation second :: duration where "second \<equiv> 1000000000"
abbreviation minute :: duration where "minute \<equiv> 60 * second"
abbreviation hour :: duration where "hour \<equiv> 60 * minute"

lemmas time_defs = IsZero_def Before_def After_def

section \<open>Strings\<close>

text \<open>\<open>strings.HasPrefix\<close> and the decimal printers and parsers that several packages
  carry their own copy of.\<close>

definition HasPrefix :: "string \<Rightarrow> string \<Rightarrow> bool" where
  "HasPrefix s p \<longleftrightarrow> take (length p) s = p"

lemma HasPrefix_append [simp]: "HasPrefix (p @ s) p"
  by (simp add: HasPrefix_def)

lemma HasPrefix_Nil [simp]: "HasPrefix s []"
  by (simp add: HasPrefix_def)

lemma HasPrefix_Cons [simp]:
  "HasPrefix (x # s) (y # p) \<longleftrightarrow> x = y \<and> HasPrefix s p"
  "\<not> HasPrefix [] (y # p)"
  by (auto simp: HasPrefix_def)

definition digit_char :: "nat \<Rightarrow> char" where
  "digit_char d = char_of (48 + d)"

lemma of_char_digit_char: "d < 10 \<Longrightarrow> (of_char (digit_char d) :: nat) = 48 + d"
  by (simp add: digit_char_def)

lemma digit_char_simps [simp]:
  "digit_char 0 = CHR ''0''" "digit_char (Suc 0) = CHR ''1''" "digit_char 1 = CHR ''1''"
  "digit_char 2 = CHR ''2''" "digit_char 3 = CHR ''3''" "digit_char 4 = CHR ''4''"
  "digit_char 5 = CHR ''5''" "digit_char 6 = CHR ''6''" "digit_char 7 = CHR ''7''"
  "digit_char 8 = CHR ''8''" "digit_char 9 = CHR ''9''"
  by (simp_all add: digit_char_def char_of_def bit_0)

text \<open>The digit loop of the \<open>itoa\<close> helpers: \<open>for n > 0 { i--; buf[i] = '0' + n%10; n /= 10 }\<close>,
  with the filled tail of \<open>buf\<close> as accumulator.\<close>

fun itoa_loop :: "nat \<Rightarrow> string \<Rightarrow> string" where
  "itoa_loop n acc = (if n > 0 then itoa_loop (n div 10) (digit_char (n mod 10) # acc) else acc)"

declare itoa_loop.simps [simp del]

lemma itoa_loop_0 [simp]: "itoa_loop 0 acc = acc"
  by (simp add: itoa_loop.simps)

lemma itoa_loop_pos:
  "0 < n \<Longrightarrow> itoa_loop n acc = itoa_loop (n div 10) (digit_char (n mod 10) # acc)"
  by (subst itoa_loop.simps) simp

lemma itoa_loop_append: "itoa_loop n acc = itoa_loop n [] @ acc"
proof (induction n arbitrary: acc rule: less_induct)
  case (less n)
  show ?case
  proof (cases "n > 0")
    case True
    then have "itoa_loop (n div 10) (c # acc) = itoa_loop (n div 10) [] @ c # acc" for c acc
      by (intro less.IH) simp
    with True show ?thesis
      by (simp add: itoa_loop_pos [of n])
  qed simp
qed

text \<open>The digit loop of the \<open>parseUint\<close> helpers over a \<open>uint64\<close> accumulator:
  \<open>n = n*10 + uint64(c-'0')\<close>, failing at the first character that is not a digit.\<close>

fun parse_digits :: "nat \<Rightarrow> string \<Rightarrow> nat option" where
  "parse_digits n [] = Some n"
| "parse_digits n (c # cs) =
     (if (of_char c :: nat) < 48 \<or> 57 < (of_char c :: nat) then None
      else parse_digits ((n * 10 + (of_char c - 48)) mod 2 ^ 64) cs)"

lemma parse_digits_append:
  "parse_digits n (xs @ ys) = Option.bind (parse_digits n xs) (\<lambda>m. parse_digits m ys)"
  by (induction n xs rule: parse_digits.induct) auto

lemma parse_digits_less: "parse_digits n s = Some m \<Longrightarrow> n < 2 ^ 64 \<Longrightarrow> m < 2 ^ 64"
  by (induction n s rule: parse_digits.induct) (auto split: if_splits)

lemma parse_itoa_loop: "n < 2 ^ 64 \<Longrightarrow> parse_digits 0 (itoa_loop n []) = Some n"
proof (induction n rule: less_induct)
  case (less n)
  show ?case
  proof (cases "n > 0")
    case True
    then have IH: "parse_digits 0 (itoa_loop (n div 10) []) = Some (n div 10)"
      using less.prems by (intro less.IH) simp_all
    have d: "n mod 10 < 10" by simp
    have m: "(n div 10 * 10 + n mod 10) mod 2 ^ 64 = n"
      using less.prems by (metis div_mult_mod_eq mod_less)
    have "itoa_loop n [] = itoa_loop (n div 10) [] @ [digit_char (n mod 10)]"
      using True by (metis itoa_loop_append itoa_loop_pos)
    then show ?thesis
      using IH m by (simp add: parse_digits_append of_char_digit_char [OF d])
  qed simp
qed

text \<open>Without a bound: the digits determine the number, so printed counters never collide.\<close>

primrec digits_value :: "nat \<Rightarrow> string \<Rightarrow> nat" where
  "digits_value n [] = n"
| "digits_value n (c # cs) = digits_value (n * 10 + (of_char c - 48)) cs"

lemma digits_value_append: "digits_value n (xs @ ys) = digits_value (digits_value n xs) ys"
  by (induction xs arbitrary: n) auto

lemma digits_value_itoa_loop: "digits_value 0 (itoa_loop n []) = n"
proof (induction n rule: less_induct)
  case (less n)
  show ?case
  proof (cases "n > 0")
    case True
    have d: "n mod 10 < 10" by simp
    have "itoa_loop n [] = itoa_loop (n div 10) [] @ [digit_char (n mod 10)]"
      using True by (metis itoa_loop_append itoa_loop_pos)
    then show ?thesis
      using less.IH [of "n div 10"] True
      by (simp add: digits_value_append of_char_digit_char [OF d])
  qed simp
qed

lemma itoa_loop_inj: "itoa_loop m [] = itoa_loop n [] \<longleftrightarrow> m = n"
  by (metis digits_value_itoa_loop)

lemma itoa_loop_eq_Nil [simp]: "itoa_loop n [] = [] \<longleftrightarrow> n = 0"
  by (metis itoa_loop_0 itoa_loop_inj)

definition lower_ascii :: "char \<Rightarrow> char" where
  "lower_ascii c = (let n = of_char c :: nat in if 65 \<le> n \<and> n \<le> 90 then char_of (n + 32) else c)"

text \<open>\<open>strings.ToLower\<close> on ASCII text (other bytes are kept), and \<open>strings.Contains\<close>.\<close>

definition ToLower :: "string \<Rightarrow> string" where
  "ToLower s = map lower_ascii s"

fun Contains :: "string \<Rightarrow> string \<Rightarrow> bool" where
  "Contains [] sub = (sub = [])"
| "Contains (c # s) sub = (HasPrefix (c # s) sub \<or> Contains s sub)"

section \<open>Go maps as association lists\<close>

text \<open>\<open>wf_map m\<close>: every key once, as in a Go map. \<open>getz m k\<close> is the read \<open>m[k]\<close>
  of a map of numbers, which yields zero for an absent key.\<close>

definition wf_map :: "('k \<times> 'v) list \<Rightarrow> bool" where
  "wf_map m \<longleftrightarrow> distinct (map fst m)"

definition getz :: "('k \<times> int) list \<Rightarrow> 'k \<Rightarrow> int" where
  "getz m k = (case map_of m k of None \<Rightarrow> 0 | Some v \<Rightarrow> v)"

text \<open>\<open>for k, v := range p { m[k] = v }\<close>\<close>

primrec put_all :: "('k \<times> 'v) list \<Rightarrow> ('k \<times> 'v) list \<Rightarrow> ('k \<times> 'v) list" where
  "put_all m [] = m"
| "put_all m (kv # p) = put_all (AList.update (fst kv) (snd kv) m) p"

lemma wf_map_Nil [simp, wf_intros]: "wf_map []"
  by (simp add: wf_map_def)

lemma wf_map_update [simp, wf_intros]: "wf_map m \<Longrightarrow> wf_map (AList.update k v m)"
  by (simp add: wf_map_def distinct_update)

lemma wf_map_delete [simp, wf_intros]: "wf_map m \<Longrightarrow> wf_map (AList.delete k m)"
  by (simp add: wf_map_def distinct_delete)

lemma wf_map_put_all [simp, wf_intros]: "wf_map m \<Longrightarrow> wf_map (put_all m p)"
  by (induction p arbitrary: m) auto

lemma wf_map_Cons [simp]: "wf_map (kv # m) \<longleftrightarrow> fst kv \<notin> fst ` set m \<and> wf_map m"
  by (simp add: wf_map_def)

lemma map_of_update [simp]: "map_of (AList.update k v m) = (map_of m)(k \<mapsto> v)"
  by (rule update_conv')

lemma map_of_del [simp]: "map_of (AList.delete k m) = (map_of m)(k := None)"
  by (rule delete_conv')

lemma map_of_put_all: "wf_map p \<Longrightarrow> map_of (put_all m p) = map_of m ++ map_of p"
  by (induction p arbitrary: m) (auto simp: map_add_def fun_eq_iff dom_map_of_conv_image_fst
      split: option.splits dest: map_of_SomeD intro: rev_image_eqI)

lemma map_of_put_all_update:
  "wf_map p \<Longrightarrow> map_of (put_all m (AList.update k v p)) = (map_of (put_all m p))(k \<mapsto> v)"
  by (simp add: map_of_put_all)

lemma wf_map_ranI: "wf_map m \<Longrightarrow> (k, v) \<in> set m \<longleftrightarrow> map_of m k = Some v"
  by (simp add: wf_map_def)

lemma wf_map_set_eq: "wf_map m \<Longrightarrow> wf_map m' \<Longrightarrow> map_of m = map_of m' \<Longrightarrow> set m = set m'"
  by (auto simp: set_eq_iff wf_map_ranI)

lemma getz_update [simp]: "getz (AList.update k v m) j = (if j = k then v else getz m j)"
  by (simp add: getz_def)

lemma getz_Nil [simp]: "getz [] k = 0"
  by (simp add: getz_def)

text \<open>The sum of the values of the keys with a property, and how an update changes it.\<close>

definition sum_where :: "('k \<Rightarrow> bool) \<Rightarrow> ('k \<times> int) list \<Rightarrow> int" where
  "sum_where P m = (\<Sum>(k, v) \<leftarrow> m. if P k then v else 0)"

lemma sum_where_Nil [simp]: "sum_where P [] = 0"
  by (simp add: sum_where_def)

lemma sum_where_cong:
  assumes "wf_map m" and "wf_map m'" and "map_of m = map_of m'"
  shows "sum_where P m = sum_where P m'"
proof -
  have "distinct m" and "distinct m'"
    using assms by (auto simp: wf_map_def distinct_map)
  then show ?thesis
    using wf_map_set_eq [OF assms]
    by (simp add: sum_where_def sum_list_distinct_conv_sum_set)
qed

lemma sum_where_update:
  "wf_map m \<Longrightarrow>
     sum_where P (AList.update k v m) = sum_where P m + (if P k then v - getz m k else 0)"
  by (induction m) (auto simp: sum_where_def getz_def map_of_eq_None_iff [THEN iffD2])

text \<open>\<open>sums[f(x)] += g(x)\<close> over a list.\<close>

primrec sum_by :: "('x \<Rightarrow> 'k) \<Rightarrow> ('x \<Rightarrow> int) \<Rightarrow> ('k \<times> int) list \<Rightarrow> 'x list \<Rightarrow> ('k \<times> int) list" where
  "sum_by f g m [] = m"
| "sum_by f g m (x # xs) =
     sum_by f g (AList.update (f x) (add64 (getz m (f x)) (g x)) m) xs"

lemma getz_sum_by:
  "getz (sum_by f g m xs) k = (if k \<in> f ` set xs
     then wrap64 (getz m k + (\<Sum>x \<leftarrow> xs. if f x = k then g x else 0)) else getz m k)"
proof (induction xs arbitrary: m)
  case (Cons x xs)
  have z: "(\<Sum>x \<leftarrow> xs. if f x = k then g x else 0) = 0" if "k \<notin> f ` set xs"
    using that by (induction xs) auto
  show ?case
    by (subst sum_by.simps, subst Cons.IH) (use z in \<open>auto simp: add64_def add.assoc\<close>)
qed simp

lemma keys_sum_by: "fst ` set (sum_by f g m xs) = fst ` set m \<union> f ` set xs"
  by (induction xs arbitrary: m) (auto simp: dom_update)

lemma wf_map_sum_by [simp, wf_intros]: "wf_map m \<Longrightarrow> wf_map (sum_by f g m xs)"
  by (induction xs arbitrary: m) auto

end
