(* ===== verification/Ledger.thy ===== *)
theory Ledger
  imports GoPrelude
begin

text \<open>
  The double-entry ledger of package \<open>ledger\<close>: \<open>ledger.go\<close> (entries, transactions,
  errors, account names) and \<open>mem_ledger.go\<close> (\<open>MemLedger\<close>, every method).

  \<open>MemLedger\<close>'s mutex makes every method one atomic step, so a method is a function from
  the ledger (and the wall clock, where the method reads it) to its result and the next
  ledger. A posted \<open>*Transaction\<close> is never written again, so pointers to it are
  modelled by its value. The counter \<open>seq\<close> is a natural number: it counts posted
  transactions and does not come near \<open>2 ^ 63\<close>.
\<close>

section \<open>Accounts, entries, transactions\<close>

type_synonym currency = string
type_synonym account_id = string

definition Coin :: currency where "Coin = ''COIN''"
definition Diamond :: currency where "Diamond = ''DIAMOND''"

definition PlatformRevenueAccount :: account_id where
  "PlatformRevenueAccount = ''platform:revenue''"
definition PlatformLiabilityAccount :: account_id where
  "PlatformLiabilityAccount = ''platform:liability''"
definition PlatformDiamondLiabilityAccount :: account_id where
  "PlatformDiamondLiabilityAccount = ''platform:diamond_liability''"

definition UserCoinsAccount :: "string \<Rightarrow> account_id" where
  "UserCoinsAccount accountID = ''user:'' @ accountID @ '':coins''"
definition UserDiamondsAccount :: "string \<Rightarrow> account_id" where
  "UserDiamondsAccount accountID = ''user:'' @ accountID @ '':diamonds''"

lemmas account_defs = Coin_def Diamond_def PlatformRevenueAccount_def PlatformLiabilityAccount_def
  PlatformDiamondLiabilityAccount_def UserCoinsAccount_def UserDiamondsAccount_def

datatype ledger_error =
    ErrUnbalancedTransaction
  | ErrTransactionEmpty
  | ErrTransactionNotFound
  | ErrAlreadyReversed
  | ErrCannotReverseAReversal
  | InsufficientBalanceError (ib_account: account_id) (ib_currency: currency)
      (ib_required: int) (ib_available: int)
  | StorageError string  \<comment> \<open>any other error of a \<open>Repo\<close>; \<open>MemLedger\<close> never returns one\<close>

definition Shortfall :: "ledger_error \<Rightarrow> int" where
  "Shortfall e = sub64 (ib_required e) (ib_available e)"

record entry =
  e_account :: account_id
  e_amount :: int
  e_currency :: currency

text \<open>Values of \<open>map[string]any\<close>: the ones the code stores, and the \<open>float64\<close> that an
  integer becomes when it has been through \<open>encoding/json\<close>.\<close>

datatype any = AnyString string | AnyInt64 int | AnyFloat64 int

type_synonym metadata = "(string \<times> any) list"

record transaction =
  tx_ID :: string
  tx_Kind :: string
  tx_IdempotencyKey :: string
  tx_Metadata :: metadata
  tx_Entries :: "entry list"
  tx_CreatedAt :: time

record history_item =
  hi_TransactionID :: string
  hi_Kind :: string
  hi_Amount :: int
  hi_Currency :: currency
  hi_Metadata :: metadata
  hi_CreatedAt :: time

section \<open>The in-memory ledger\<close>

type_synonym balance_key = "account_id \<times> currency"

record mem_ledger =
  ml_balances :: "(balance_key \<times> int) list"
  ml_byKey :: "(string \<times> transaction) list"
  ml_byID :: "(string \<times> transaction) list"
  ml_byAcct :: "(account_id \<times> history_item list) list"
  ml_reversalOf :: "(string \<times> string) list"
  ml_seq :: nat

definition NewMemLedger :: mem_ledger where
  "NewMemLedger = \<lparr>ml_balances = [], ml_byKey = [], ml_byID = [], ml_byAcct = [], ml_reversalOf = [], ml_seq = 0\<rparr>"

definition isPlatformAccount :: "account_id \<Rightarrow> bool" where
  "isPlatformAccount accountID \<longleftrightarrow> HasPrefix accountID ''platform:''"

definition itoaLedger :: "int \<Rightarrow> string" where
  "itoaLedger n =
     (if n = 0 then ''0''
      else if n < 0 then ''-'' @ itoa_loop (nat (neg64 n)) []
      else itoa_loop (nat n) [])"

text \<open>The \<open>uint64\<close> result; \<open>None\<close> for \<open>ok = false\<close>.\<close>

definition parseUintLedger :: "string \<Rightarrow> nat option" where
  "parseUintLedger s = (if s = [] then None else parse_digits 0 s)"

definition Balance :: "mem_ledger \<Rightarrow> account_id \<Rightarrow> currency \<Rightarrow> ledger_error + int" where
  "Balance l accountID c = Inr (getz (ml_balances l) (accountID, c))"

subsection \<open>Posting\<close>

text \<open>\<open>"tx-" + itoaLedger(l.seq)\<close>\<close>

definition tx_name :: "nat \<Rightarrow> string" where
  "tx_name n = ''tx-'' @ itoaLedger (int n)"

definition entry_key :: "entry \<Rightarrow> balance_key" where
  "entry_key e = (e_account e, e_currency e)"

text \<open>The validation loop: \<open>proposed\<close> carries the running balances of the accounts the
  transaction touches; the first entry that would drive a user account negative stops it.\<close>

fun propose :: "(balance_key \<times> int) list \<Rightarrow> (balance_key \<times> int) list \<Rightarrow> entry list \<Rightarrow>
    ledger_error + (balance_key \<times> int) list" where
  "propose bal proposed [] = Inr proposed"
| "propose bal proposed (e # es) =
     (let k = entry_key e;
          base = (case map_of proposed k of Some b \<Rightarrow> b | None \<Rightarrow> getz bal k);
          next_bal = add64 base (e_amount e)
      in if next_bal < 0 \<and> \<not> isPlatformAccount (e_account e)
         then Inl (InsufficientBalanceError (e_account e) (e_currency e)
                     (neg64 (e_amount e)) (getz bal k))
         else propose bal (AList.update k next_bal proposed) es)"

definition balanced :: "entry list \<Rightarrow> bool" where
  "balanced es \<longleftrightarrow> list_all (\<lambda>(c, sum). sum = 0) (sum_by e_currency e_amount [] es)"

definition history_of :: "transaction \<Rightarrow> entry \<Rightarrow> history_item" where
  "history_of tx e = \<lparr>hi_TransactionID = tx_ID tx, hi_Kind = tx_Kind tx, hi_Amount = e_amount e,
     hi_Currency = e_currency e, hi_Metadata = tx_Metadata tx, hi_CreatedAt = tx_CreatedAt tx\<rparr>"

primrec add_history :: "transaction \<Rightarrow> (account_id \<times> history_item list) list \<Rightarrow> entry list \<Rightarrow>
    (account_id \<times> history_item list) list" where
  "add_history tx m [] = m"
| "add_history tx m (e # es) =
     add_history tx
       (AList.update (e_account e)
          ((case map_of m (e_account e) of None \<Rightarrow> [] | Some hs \<Rightarrow> hs) @ [history_of tx e]) m) es"

definition postLocked :: "mem_ledger \<Rightarrow> time \<Rightarrow> string \<Rightarrow> string \<Rightarrow> metadata \<Rightarrow> entry list \<Rightarrow>
    (ledger_error + transaction \<times> bool) \<times> mem_ledger" where
  "postLocked l now kind idempotencyKey md entries =
     (case map_of (ml_byKey l) idempotencyKey of
        Some existing \<Rightarrow> (Inr (existing, False), l)
      | None \<Rightarrow>
          if entries = [] then (Inl ErrTransactionEmpty, l)
          else if \<not> balanced entries then (Inl ErrUnbalancedTransaction, l)
          else
            (case propose (ml_balances l) [] entries of
               Inl err \<Rightarrow> (Inl err, l)
             | Inr proposed \<Rightarrow>
                 let n = Suc (ml_seq l);
                     tx = \<lparr>tx_ID = tx_name n, tx_Kind = kind,
                           tx_IdempotencyKey = idempotencyKey, tx_Metadata = md,
                           tx_Entries = entries, tx_CreatedAt = now\<rparr>
                 in (Inr (tx, True),
                     l\<lparr>ml_balances := put_all (ml_balances l) proposed,
                       ml_seq := n,
                       ml_byKey := AList.update idempotencyKey tx (ml_byKey l),
                       ml_byID := AList.update (tx_ID tx) tx (ml_byID l),
                       ml_byAcct := add_history tx (ml_byAcct l) entries\<rparr>)))"

definition PostTransaction :: "mem_ledger \<Rightarrow> time \<Rightarrow> string \<Rightarrow> string \<Rightarrow> metadata \<Rightarrow> entry list \<Rightarrow>
    (ledger_error + transaction \<times> bool) \<times> mem_ledger" where
  "PostTransaction l now kind idempotencyKey md entries =
     postLocked l now kind idempotencyKey md entries"

subsection \<open>Reading\<close>

definition GetTransaction :: "mem_ledger \<Rightarrow> string \<Rightarrow> ledger_error + transaction option" where
  "GetTransaction l idempotencyKey = Inr (map_of (ml_byKey l) idempotencyKey)"

definition GetTransactionByID :: "mem_ledger \<Rightarrow> string \<Rightarrow> ledger_error + transaction" where
  "GetTransactionByID l i =
     (case map_of (ml_byID l) i of None \<Rightarrow> Inl ErrTransactionNotFound | Some tx \<Rightarrow> Inr tx)"

definition ListByKind :: "mem_ledger \<Rightarrow> string \<Rightarrow> time \<Rightarrow> transaction list" where
  "ListByKind l kind since =
     filter (\<lambda>tx. tx_Kind tx = kind \<and> \<not> Before (tx_CreatedAt tx) since) (map snd (ml_byID l))"

definition IntegrityCheck :: "mem_ledger \<Rightarrow> (currency \<times> int) list" where
  "IntegrityCheck l = sum_by (\<lambda>(k, v). snd k) snd [] (ml_balances l)"

text \<open>\<open>History\<close> returns the page and the next cursor. \<open>None\<close> is the run-time panic of
  \<open>rev[start:]\<close> with a negative \<open>start\<close>: \<open>int(n)\<close> of a \<open>uint64\<close> from
  \<open>2 ^ 63\<close> up is negative.\<close>

definition int_of_uint64 :: "nat \<Rightarrow> int" where
  "int_of_uint64 n = wrap64 (int n)"

definition History :: "mem_ledger \<Rightarrow> account_id \<Rightarrow> string \<Rightarrow> int \<Rightarrow> (history_item list \<times> string) option" where
  "History l accountID cursor limit =
     (let lim = (if limit \<le> 0 \<or> 200 < limit then 50 else limit);
          rv = rev (case map_of (ml_byAcct l) accountID of None \<Rightarrow> [] | Some hs \<Rightarrow> hs);
          start0 = (if cursor = [] then 0
                    else case parseUintLedger cursor of None \<Rightarrow> 0 | Some n \<Rightarrow> int_of_uint64 n);
          start = (if int (length rv) < start0 then int (length rv) else start0)
      in if start < 0 then None
         else
           let out = take (nat lim) (drop (nat start) rv);
               nextCursor = (if start + int (length out) < int (length rv)
                             then itoaLedger (start + int (length out)) else [])
           in Some (out, nextCursor))"

subsection \<open>Reversal\<close>

definition reversed_entries :: "entry list \<Rightarrow> entry list" where
  "reversed_entries es = map (\<lambda>e. e\<lparr>e_amount := neg64 (e_amount e)\<rparr>) es"

definition ReverseTransaction :: "mem_ledger \<Rightarrow> time \<Rightarrow> string \<Rightarrow> string \<Rightarrow> string \<Rightarrow>
    (ledger_error + transaction \<times> bool) \<times> mem_ledger" where
  "ReverseTransaction l now originalTxID idempotencyKey reason =
     (case map_of (ml_byKey l) idempotencyKey of
        Some existing \<Rightarrow> (Inr (existing, False), l)
      | None \<Rightarrow>
          (case map_of (ml_byID l) originalTxID of
             None \<Rightarrow> (Inl ErrTransactionNotFound, l)
           | Some original \<Rightarrow>
               if tx_Kind original = ''reversal'' then (Inl ErrCannotReverseAReversal, l)
               else if map_of (ml_reversalOf l) originalTxID \<noteq> None then (Inl ErrAlreadyReversed, l)
               else
                 let entries = reversed_entries (tx_Entries original);
                     md = [(''reversed_transaction_id'', AnyString originalTxID),
                           (''reason'', AnyString reason),
                           (''original_kind'', AnyString (tx_Kind original))]
                 in (case postLocked l now ''reversal'' idempotencyKey md entries of
                       (Inl err, l') \<Rightarrow> (Inl err, l')
                     | (Inr (tx, isNew), l') \<Rightarrow>
                         (Inr (tx, isNew),
                          if isNew then l'\<lparr>ml_reversalOf := AList.update originalTxID (tx_ID tx) (ml_reversalOf l')\<rparr>
                          else l'))))"

subsection \<open>Snapshot and restore\<close>

text \<open>\<open>ledgerSnapshot\<close> is what the JSON text holds; \<open>byKey\<close> is left out on purpose.
  Going through \<open>encoding/json\<close> keeps strings and the typed integer fields, and turns an
  integer inside a \<open>map[string]any\<close> into a \<open>float64\<close> (exact below \<open>2 ^ 53\<close>).
  \<open>Restore\<close>'s own error, a text that is not JSON, is not modelled: its argument is the
  decoded snapshot.\<close>

record ledger_snapshot =
  s_Balances :: "(balance_key \<times> int) list"
  s_ByID :: "(string \<times> transaction) list"
  s_ByAcct :: "(account_id \<times> history_item list) list"
  s_ReversalOf :: "(string \<times> string) list"
  s_Seq :: nat

primrec json_any :: "any \<Rightarrow> any" where
  "json_any (AnyString s) = AnyString s"
| "json_any (AnyInt64 n) = AnyFloat64 n"
| "json_any (AnyFloat64 n) = AnyFloat64 n"

definition json_metadata :: "metadata \<Rightarrow> metadata" where
  "json_metadata md = map (\<lambda>(k, v). (k, json_any v)) md"

definition json_tx :: "transaction \<Rightarrow> transaction" where
  "json_tx tx = tx\<lparr>tx_Metadata := json_metadata (tx_Metadata tx)\<rparr>"

definition json_item :: "history_item \<Rightarrow> history_item" where
  "json_item h = h\<lparr>hi_Metadata := json_metadata (hi_Metadata h)\<rparr>"

definition Snapshot :: "mem_ledger \<Rightarrow> ledger_snapshot" where
  "Snapshot l = \<lparr>s_Balances = ml_balances l,
     s_ByID = map (\<lambda>(k, tx). (k, json_tx tx)) (ml_byID l),
     s_ByAcct = map (\<lambda>(k, hs). (k, map json_item hs)) (ml_byAcct l),
     s_ReversalOf = ml_reversalOf l, s_Seq = ml_seq l\<rparr>"

definition Restore :: "mem_ledger \<Rightarrow> ledger_snapshot \<Rightarrow> mem_ledger" where
  "Restore l s = l\<lparr>ml_balances := put_all [] (s_Balances s), ml_byID := s_ByID s, ml_byAcct := s_ByAcct s,
     ml_reversalOf := s_ReversalOf s, ml_seq := s_Seq s\<rparr>"

section \<open>Sums of entries\<close>

text \<open>What a list of entries adds to one balance, and to one currency over all accounts.\<close>

definition entries_at :: "balance_key \<Rightarrow> entry list \<Rightarrow> int" where
  "entries_at k es = (\<Sum>e \<leftarrow> es. if entry_key e = k then e_amount e else 0)"

definition entries_in :: "currency \<Rightarrow> entry list \<Rightarrow> int" where
  "entries_in c es = (\<Sum>e \<leftarrow> es. if e_currency e = c then e_amount e else 0)"

lemma entries_at_simps [simp]:
  "entries_at k [] = 0"
  "entries_at k (e # es) = (if entry_key e = k then e_amount e else 0) + entries_at k es"
  "entries_at k (es @ fs) = entries_at k es + entries_at k fs"
  by (simp_all add: entries_at_def)

lemma entries_in_simps [simp]:
  "entries_in c [] = 0"
  "entries_in c (e # es) = (if e_currency e = c then e_amount e else 0) + entries_in c es"
  by (simp_all add: entries_in_def)

lemma entries_at_absent: "k \<notin> entry_key ` set es \<Longrightarrow> entries_at k es = 0"
  by (induction es) auto

lemma entries_in_absent: "c \<notin> e_currency ` set es \<Longrightarrow> entries_in c es = 0"
  by (induction es) auto

lemma balanced_iff: "balanced es \<longleftrightarrow> (\<forall>c. wrap64 (entries_in c es) = 0)"
proof -
  let ?m = "sum_by e_currency e_amount [] es"
  have wf: "wf_map ?m" by simp
  have lookup: "map_of ?m c = Some v \<longleftrightarrow> c \<in> e_currency ` set es \<and> v = wrap64 (entries_in c es)" for c v
  proof -
    have g: "getz ?m c = (if c \<in> e_currency ` set es then wrap64 (entries_in c es) else 0)"
      by (simp add: getz_sum_by entries_in_def)
    have k: "map_of ?m c = None \<longleftrightarrow> c \<notin> e_currency ` set es"
      by (simp add: map_of_eq_None_iff keys_sum_by)
    show ?thesis
      using g k by (cases "map_of ?m c") (auto simp: getz_def)
  qed
  have "balanced es \<longleftrightarrow> (\<forall>c v. map_of ?m c = Some v \<longrightarrow> v = 0)"
    by (auto simp: balanced_def list_all_iff wf_map_ranI [OF wf, symmetric])
  also have "\<dots> \<longleftrightarrow> (\<forall>c. wrap64 (entries_in c es) = 0)"
    by (auto simp: lookup entries_in_absent) (metis entries_in_absent wrap64_0)
  finally show ?thesis .
qed

lemma reversed_entries_simps [simp]:
  "reversed_entries [] = []"
  "reversed_entries (e # es) = e\<lparr>e_amount := neg64 (e_amount e)\<rparr> # reversed_entries es"
  "reversed_entries es = [] \<longleftrightarrow> es = []"
  by (simp_all add: reversed_entries_def)

lemma wrap64_neg_add:
  "wrap64 r = wrap64 (- x) \<Longrightarrow> wrap64 ((if b then neg64 a else 0) + r) = wrap64 (- ((if b then a else 0) + x))"
  using wrap64_add_cong [of "if b then neg64 a else 0" "if b then - a else 0" r "- x"]
  by (auto simp: neg64_def)

lemma entries_at_reversed: "wrap64 (entries_at k (reversed_entries es)) = wrap64 (- entries_at k es)"
proof (induction es)
  case (Cons e es)
  then show ?case
    using wrap64_neg_add [OF Cons.IH, of "entry_key e = k" "e_amount e"] by (auto simp: entry_key_def split: if_splits)
qed simp

lemma entries_in_reversed: "wrap64 (entries_in c (reversed_entries es)) = wrap64 (- entries_in c es)"
proof (induction es)
  case (Cons e es)
  then show ?case
    using wrap64_neg_add [OF Cons.IH, of "e_currency e = c" "e_amount e"] by (auto split: if_splits)
qed simp

lemma balanced_reversed: "balanced es \<Longrightarrow> balanced (reversed_entries es)"
  by (simp add: balanced_iff entries_in_reversed wrap64_eq_0_iff)

section \<open>What posting does to the balances\<close>

text \<open>The running balance of the validation loop: \<open>proposed\<close> where the transaction has
  touched the key, the ledger's balance elsewhere.\<close>

definition overlay :: "(balance_key \<times> int) list \<Rightarrow> (balance_key \<times> int) list \<Rightarrow> balance_key \<Rightarrow> int" where
  "overlay bal p k = (case map_of p k of Some b \<Rightarrow> b | None \<Rightarrow> getz bal k)"

lemma overlay_Nil [simp]: "overlay bal [] = getz bal"
  by (simp add: overlay_def fun_eq_iff)

lemma overlay_update [simp]: "overlay bal (AList.update k v p) = (overlay bal p)(k := v)"
  by (simp add: overlay_def fun_eq_iff)

lemma getz_put_all: "wf_map p \<Longrightarrow> getz (put_all bal p) = overlay bal p"
  by (auto simp: fun_eq_iff getz_def overlay_def map_of_put_all map_add_def split: option.splits)

lemma propose_Cons:
  "propose bal p (e # es) =
     (let b = add64 (overlay bal p (entry_key e)) (e_amount e)
      in if b < 0 \<and> \<not> isPlatformAccount (e_account e)
         then Inl (InsufficientBalanceError (e_account e) (e_currency e)
                     (neg64 (e_amount e)) (getz bal (entry_key e)))
         else propose bal (AList.update (entry_key e) b p) es)"
  by (simp add: overlay_def Let_def)

declare propose.simps(2) [simp del]

lemma propose_overlay:
  "propose bal p es = Inr p' \<Longrightarrow> (\<And>k. in_i64 (overlay bal p k)) \<Longrightarrow>
     overlay bal p' k = add64 (overlay bal p k) (entries_at k es)"
proof (induction es arbitrary: p)
  case Nil
  then show ?case by (auto simp: add64_def wrap64_id)
next
  case (Cons e es)
  let ?b = "add64 (overlay bal p (entry_key e)) (e_amount e)"
  have step: "propose bal (AList.update (entry_key e) ?b p) es = Inr p'"
    using Cons.prems(1) by (auto simp: propose_Cons Let_def split: if_splits)
  show ?case
    using Cons.IH [OF step] Cons.prems(2) by (auto simp: add64_def add.assoc)
qed

lemma propose_range:
  "propose bal p es = Inr p' \<Longrightarrow> (\<And>k. in_i64 (overlay bal p k)) \<Longrightarrow> in_i64 (overlay bal p' k)"
  by (simp add: propose_overlay)

lemma propose_nonneg:
  "propose bal p es = Inr p' \<Longrightarrow> (\<And>k. \<not> isPlatformAccount (fst k) \<Longrightarrow> 0 \<le> overlay bal p k) \<Longrightarrow>
     \<not> isPlatformAccount (fst k) \<Longrightarrow> 0 \<le> overlay bal p' k"
proof (induction es arbitrary: p)
  case (Cons e es)
  let ?b = "add64 (overlay bal p (entry_key e)) (e_amount e)"
  have step: "propose bal (AList.update (entry_key e) ?b p) es = Inr p'"
    and b: "?b < 0 \<longrightarrow> isPlatformAccount (e_account e)"
    using Cons.prems(1) by (auto simp: propose_Cons Let_def split: if_splits)
  show ?case
    using b Cons.prems(2) by (intro Cons.IH [OF step] Cons.prems(3)) (auto simp: entry_key_def)
qed simp

lemma propose_wf: "propose bal p es = Inr p' \<Longrightarrow> wf_map p \<Longrightarrow> wf_map p'"
  by (induction es arbitrary: p) (auto simp: propose_Cons Let_def split: if_splits)

lemma propose_sum:
  "propose bal p es = Inr p' \<Longrightarrow> wf_map bal \<Longrightarrow> wf_map p \<Longrightarrow>
     wrap64 (sum_where (\<lambda>k. snd k = c) (put_all bal p')) =
     wrap64 (sum_where (\<lambda>k. snd k = c) (put_all bal p) + entries_in c es)"
proof (induction es arbitrary: p)
  case (Cons e es)
  let ?k = "entry_key e"
  let ?b = "add64 (overlay bal p ?k) (e_amount e)"
  have step: "propose bal (AList.update ?k ?b p) es = Inr p'"
    using Cons.prems(1) by (auto simp: propose_Cons Let_def split: if_splits)
  have "sum_where (\<lambda>k. snd k = c) (put_all bal (AList.update ?k ?b p)) =
      sum_where (\<lambda>k. snd k = c) (AList.update ?k ?b (put_all bal p))"
    using Cons.prems(2,3) by (intro sum_where_cong) (simp_all add: map_of_put_all)
  also have "\<dots> = sum_where (\<lambda>k. snd k = c) (put_all bal p) +
      (if e_currency e = c then ?b - overlay bal p ?k else 0)"
    using Cons.prems(2,3) by (simp add: sum_where_update getz_put_all entry_key_def)
  finally have "wrap64 (sum_where (\<lambda>k. snd k = c) (put_all bal (AList.update ?k ?b p)) + entries_in c es) =
      wrap64 (sum_where (\<lambda>k. snd k = c) (put_all bal p) + entries_in c (e # es))"
    using wrap64_replace [of "sum_where (\<lambda>k. snd k = c) (put_all bal p)"
        "overlay bal p ?k + e_amount e" "overlay bal p ?k" "entries_in c es"]
    by (simp add: add64_def add.assoc)
  with Cons.IH [OF step] Cons.prems(2,3) show ?case by simp
qed simp

section \<open>The invariant of the ledger\<close>

text \<open>\<open>journal l\<close> is the abstract ledger: the posted transactions, oldest first.
  \<open>bal l k\<close> is the materialized balance.\<close>

definition journal :: "mem_ledger \<Rightarrow> transaction list" where
  "journal l = map snd (ml_byID l)"

definition bal :: "mem_ledger \<Rightarrow> balance_key \<Rightarrow> int" where
  "bal l = getz (ml_balances l)"

definition hist :: "mem_ledger \<Rightarrow> account_id \<Rightarrow> history_item list" where
  "hist l a = (case map_of (ml_byAcct l) a of None \<Rightarrow> [] | Some hs \<Rightarrow> hs)"

text \<open>The entries of a journal: what every balance is the sum of.\<close>

definition journal_entries :: "transaction list \<Rightarrow> entry list" where
  "journal_entries ts = concat (map tx_Entries ts)"

definition maps_ok :: "mem_ledger \<Rightarrow> bool" where
  "maps_ok l \<longleftrightarrow> wf_map (ml_balances l) \<and> wf_map (ml_byKey l) \<and> wf_map (ml_byID l) \<and>
     wf_map (ml_reversalOf l)"

definition balances_ok :: "mem_ledger \<Rightarrow> bool" where
  "balances_ok l \<longleftrightarrow> (\<forall>k. in_i64 (bal l k)) \<and> (\<forall>a c. \<not> isPlatformAccount a \<longrightarrow> 0 \<le> bal l (a, c))"

definition zero_sum :: "mem_ledger \<Rightarrow> bool" where
  "zero_sum l \<longleftrightarrow> (\<forall>c. wrap64 (sum_where (\<lambda>k. snd k = c) (ml_balances l)) = 0)"

definition ids_ok :: "mem_ledger \<Rightarrow> bool" where
  "ids_ok l \<longleftrightarrow>
     (\<forall>i t. map_of (ml_byID l) i = Some t \<longrightarrow>
        tx_ID t = i \<and> balanced (tx_Entries t) \<and> tx_Entries t \<noteq> [] \<and>
        (\<exists>n \<le> ml_seq l. i = tx_name n)) \<and>
     (\<forall>k t. map_of (ml_byKey l) k = Some t \<longrightarrow>
        tx_IdempotencyKey t = k \<and> map_of (ml_byID l) (tx_ID t) = Some t)"

definition journal_ok :: "mem_ledger \<Rightarrow> bool" where
  "journal_ok l \<longleftrightarrow> (\<forall>k. bal l k = wrap64 (entries_at k (journal_entries (journal l))))"

definition history_ok :: "mem_ledger \<Rightarrow> bool" where
  "history_ok l \<longleftrightarrow> (\<forall>a. hist l a =
     concat (map (\<lambda>t. map (history_of t) (filter (\<lambda>e. e_account e = a) (tx_Entries t))) (journal l)))"

definition reversals_ok :: "mem_ledger \<Rightarrow> bool" where
  "reversals_ok l \<longleftrightarrow>
     (\<forall>i r. map_of (ml_reversalOf l) i = Some r \<longrightarrow>
        (\<exists>t u. map_of (ml_byID l) i = Some t \<and> map_of (ml_byID l) r = Some u \<and>
           tx_Kind t \<noteq> ''reversal'' \<and> tx_Kind u = ''reversal'' \<and>
           tx_Entries u = reversed_entries (tx_Entries t))) \<and>
     inj_on (map_of (ml_reversalOf l)) (dom (map_of (ml_reversalOf l)))"

definition ledger_inv :: "mem_ledger \<Rightarrow> bool" where
  "ledger_inv l \<longleftrightarrow> maps_ok l \<and> balances_ok l \<and> zero_sum l \<and> ids_ok l \<and> journal_ok l \<and>
     history_ok l \<and> reversals_ok l"

lemmas ledger_inv_defs = ledger_inv_def maps_ok_def balances_ok_def zero_sum_def ids_ok_def
  journal_ok_def history_ok_def reversals_ok_def

lemma itoaLedger_inj: "itoaLedger (int m) = itoaLedger (int n) \<longleftrightarrow> m = n"
proof -
  have "digits_value 0 (itoaLedger (int m)) = m" for m
    by (auto simp: itoaLedger_def digits_value_itoa_loop)
  then show ?thesis by metis
qed

lemma ledger_inv_new: "ledger_inv NewMemLedger"
  by (simp add: ledger_inv_defs NewMemLedger_def bal_def hist_def journal_def journal_entries_def
      in_i64_def)

subsection \<open>A fresh post\<close>

text \<open>\<open>fresh_post l p tx\<close>: the checks of \<open>postLocked\<close> let \<open>tx\<close> through with the proposed
  balances \<open>p\<close>; \<open>posted l p tx\<close> is the ledger then.\<close>

definition fresh_post :: "mem_ledger \<Rightarrow> (balance_key \<times> int) list \<Rightarrow> transaction \<Rightarrow> bool" where
  "fresh_post l p tx \<longleftrightarrow> map_of (ml_byKey l) (tx_IdempotencyKey tx) = None \<and> tx_Entries tx \<noteq> [] \<and>
     balanced (tx_Entries tx) \<and> propose (ml_balances l) [] (tx_Entries tx) = Inr p \<and>
     tx_ID tx = tx_name (Suc (ml_seq l))"

definition posted :: "mem_ledger \<Rightarrow> (balance_key \<times> int) list \<Rightarrow> transaction \<Rightarrow> mem_ledger" where
  "posted l p tx = l\<lparr>ml_balances := put_all (ml_balances l) p, ml_seq := Suc (ml_seq l),
     ml_byKey := AList.update (tx_IdempotencyKey tx) tx (ml_byKey l),
     ml_byID := AList.update (tx_ID tx) tx (ml_byID l),
     ml_byAcct := add_history tx (ml_byAcct l) (tx_Entries tx)\<rparr>"

definition new_tx :: "mem_ledger \<Rightarrow> time \<Rightarrow> string \<Rightarrow> string \<Rightarrow> metadata \<Rightarrow> entry list \<Rightarrow> transaction" where
  "new_tx l now kind key md es = \<lparr>tx_ID = tx_name (Suc (ml_seq l)), tx_Kind = kind,
     tx_IdempotencyKey = key, tx_Metadata = md, tx_Entries = es, tx_CreatedAt = now\<rparr>"

lemma new_tx_simps [simp]:
  "tx_ID (new_tx l now kind key md es) = tx_name (Suc (ml_seq l))"
  "tx_Kind (new_tx l now kind key md es) = kind"
  "tx_IdempotencyKey (new_tx l now kind key md es) = key"
  "tx_Metadata (new_tx l now kind key md es) = md"
  "tx_Entries (new_tx l now kind key md es) = es"
  "tx_CreatedAt (new_tx l now kind key md es) = now"
  by (simp_all add: new_tx_def)

lemma postLocked_cases:
  obtains (replay) t where "map_of (ml_byKey l) key = Some t"
      "postLocked l now kind key md es = (Inr (t, False), l)"
  | (empty) "map_of (ml_byKey l) key = None" "es = []"
      "postLocked l now kind key md es = (Inl ErrTransactionEmpty, l)"
  | (unbalanced) "map_of (ml_byKey l) key = None" "es \<noteq> []" "\<not> balanced es"
      "postLocked l now kind key md es = (Inl ErrUnbalancedTransaction, l)"
  | (short) err where "map_of (ml_byKey l) key = None" "es \<noteq> []" "balanced es"
      "propose (ml_balances l) [] es = Inl err" "postLocked l now kind key md es = (Inl err, l)"
  | (fresh) p where "fresh_post l p (new_tx l now kind key md es)"
      "postLocked l now kind key md es =
         (Inr (new_tx l now kind key md es, True), posted l p (new_tx l now kind key md es))"
proof (cases "map_of (ml_byKey l) key")
  case (Some t)
  then show ?thesis by (intro replay) (simp_all add: postLocked_def)
next
  case None
  note new = None
  show ?thesis
  proof (cases "es = [] \<or> \<not> balanced es")
    case True
    then show ?thesis
      using new empty unbalanced by (cases "es = []") (simp_all add: postLocked_def)
  next
    case False
    show ?thesis
    proof (cases "propose (ml_balances l) [] es")
      case (Inl err)
      then show ?thesis using new False by (intro short) (simp_all add: postLocked_def)
    next
      case (Inr p)
      then show ?thesis using new False
        by (intro fresh) (simp_all add: postLocked_def posted_def Let_def fresh_post_def new_tx_def)
    qed
  qed
qed

lemma hist_add_history:
  "(case map_of (add_history tx m es) a of None \<Rightarrow> [] | Some hs \<Rightarrow> hs) =
     (case map_of m a of None \<Rightarrow> [] | Some hs \<Rightarrow> hs) @ map (history_of tx) (filter (\<lambda>e. e_account e = a) es)"
  by (induction es arbitrary: m) auto

lemma update_new: "map_of m k = None \<Longrightarrow> AList.update k v m = m @ [(k, v)]"
  by (induction m) (auto split: if_splits)

lemma tx_name_inj [simp]: "tx_name m = tx_name n \<longleftrightarrow> m = n"
  by (simp add: tx_name_def itoaLedger_inj)

lemma fresh_id: "ids_ok l \<Longrightarrow> map_of (ml_byID l) (tx_name (Suc (ml_seq l))) = None"
  by (cases "map_of (ml_byID l) (tx_name (Suc (ml_seq l)))") (fastforce simp: ids_ok_def)+

lemma fresh_post_id: "fresh_post l p tx \<Longrightarrow> ids_ok l \<Longrightarrow> map_of (ml_byID l) (tx_ID tx) = None"
  by (simp add: fresh_post_def fresh_id)

lemma journal_posted: "fresh_post l p tx \<Longrightarrow> ids_ok l \<Longrightarrow> journal (posted l p tx) = journal l @ [tx]"
  using fresh_post_id [of l p tx] by (simp add: journal_def posted_def update_new)

lemma journal_entries_append [simp]:
  "journal_entries (ts @ us) = journal_entries ts @ journal_entries us"
  "journal_entries [t] = tx_Entries t" "journal_entries [] = []"
  by (simp_all add: journal_entries_def)

lemma bal_posted:
  "fresh_post l p tx \<Longrightarrow> balances_ok l \<Longrightarrow>
     bal (posted l p tx) k = add64 (bal l k) (entries_at k (tx_Entries tx))"
  using propose_overlay [of "ml_balances l" "[]" "tx_Entries tx" p k]
  by (auto simp: bal_def posted_def fresh_post_def getz_put_all propose_wf balances_ok_def)

lemma balances_ok_posted: "fresh_post l p tx \<Longrightarrow> balances_ok l \<Longrightarrow> balances_ok (posted l p tx)"
proof -
  assume f: "fresh_post l p tx" and b: "balances_ok l"
  have "in_i64 (bal (posted l p tx) k)" for k
    by (simp add: bal_posted [OF f b])
  moreover have "0 \<le> bal (posted l p tx) (a, c)" if "\<not> isPlatformAccount a" for a c
    using propose_nonneg [of "ml_balances l" "[]" "tx_Entries tx" p "(a, c)"] f b that
    by (auto simp: bal_def posted_def fresh_post_def getz_put_all propose_wf balances_ok_def)
  ultimately show ?thesis by (simp add: balances_ok_def)
qed

lemma zero_sum_posted: "fresh_post l p tx \<Longrightarrow> maps_ok l \<Longrightarrow> zero_sum l \<Longrightarrow> zero_sum (posted l p tx)"
  by (auto simp: zero_sum_def fresh_post_def maps_ok_def posted_def balanced_iff propose_sum)
    (metis add_0 wrap64_add_l wrap64_add_r wrap64_0 add_cancel_left_right)

lemma maps_ok_posted: "maps_ok l \<Longrightarrow> maps_ok (posted l p tx)"
  by (simp add: maps_ok_def posted_def)

lemma ids_ok_posted: "fresh_post l p tx \<Longrightarrow> ids_ok l \<Longrightarrow> ids_ok (posted l p tx)"
proof -
  assume f: "fresh_post l p tx" and i: "ids_ok l"
  from fresh_post_id [OF f i] show ?thesis
    using f i by (fastforce simp: ids_ok_def posted_def fresh_post_def intro: le_SucI)
qed

lemma journal_ok_posted:
  "fresh_post l p tx \<Longrightarrow> balances_ok l \<Longrightarrow> ids_ok l \<Longrightarrow> journal_ok l \<Longrightarrow> journal_ok (posted l p tx)"
  by (simp add: journal_ok_def bal_posted journal_posted add64_def)

lemma history_ok_posted:
  "fresh_post l p tx \<Longrightarrow> ids_ok l \<Longrightarrow> history_ok l \<Longrightarrow> history_ok (posted l p tx)"
  by (simp add: history_ok_def journal_posted) (simp add: hist_def posted_def hist_add_history)

lemma reversals_ok_posted:
  "fresh_post l p tx \<Longrightarrow> ids_ok l \<Longrightarrow> reversals_ok l \<Longrightarrow> reversals_ok (posted l p tx)"
  using fresh_post_id [of l p tx] by (fastforce simp: reversals_ok_def posted_def)

lemma ledger_inv_posted: "fresh_post l p tx \<Longrightarrow> ledger_inv l \<Longrightarrow> ledger_inv (posted l p tx)"
  by (simp add: ledger_inv_def maps_ok_posted balances_ok_posted zero_sum_posted ids_ok_posted
      journal_ok_posted history_ok_posted reversals_ok_posted)

lemma ledger_inv_postLocked:
  "ledger_inv l \<Longrightarrow> ledger_inv (snd (postLocked l now kind key md es))"
  by (cases rule: postLocked_cases [of l key now kind md es]) (simp_all add: ledger_inv_posted)

subsection \<open>Reversal\<close>

definition reversal_metadata :: "string \<Rightarrow> string \<Rightarrow> string \<Rightarrow> metadata" where
  "reversal_metadata i reason kind = [(''reversed_transaction_id'', AnyString i),
     (''reason'', AnyString reason), (''original_kind'', AnyString kind)]"

lemma ReverseTransaction_cases:
  obtains (replay) t where "map_of (ml_byKey l) key = Some t"
      "ReverseTransaction l now i key reason = (Inr (t, False), l)"
  | (refused) err where "map_of (ml_byKey l) key = None"
      "ReverseTransaction l now i key reason = (Inl err, l)"
  | (fresh) t p tx where "map_of (ml_byID l) i = Some t" "tx_Kind t \<noteq> ''reversal''"
      "map_of (ml_reversalOf l) i = None" "fresh_post l p tx"
      "tx = new_tx l now ''reversal'' key (reversal_metadata i reason (tx_Kind t))
              (reversed_entries (tx_Entries t))"
      "ReverseTransaction l now i key reason =
         (Inr (tx, True), (posted l p tx)\<lparr>ml_reversalOf := AList.update i (tx_ID tx) (ml_reversalOf l)\<rparr>)"
proof (cases "map_of (ml_byKey l) key")
  case (Some t)
  then show ?thesis by (intro replay) (simp_all add: ReverseTransaction_def)
next
  case None
  note new = None
  show ?thesis
  proof (cases "map_of (ml_byID l) i")
    case None
    then show ?thesis using new by (intro refused) (simp_all add: ReverseTransaction_def)
  next
    case (Some t)
    show ?thesis
    proof (cases "tx_Kind t = ''reversal'' \<or> map_of (ml_reversalOf l) i \<noteq> None")
      case True
      then show ?thesis
        using new Some refused by (cases "tx_Kind t = ''reversal''") (simp_all add: ReverseTransaction_def)
    next
      case False
      let ?es = "reversed_entries (tx_Entries t)"
      let ?md = "reversal_metadata i reason (tx_Kind t)"
      have R: "ReverseTransaction l now i key reason =
          (case postLocked l now ''reversal'' key ?md ?es of
             (Inl err, l') \<Rightarrow> (Inl err, l')
           | (Inr (tx, isNew), l') \<Rightarrow> (Inr (tx, isNew),
               if isNew then l'\<lparr>ml_reversalOf := AList.update i (tx_ID tx) (ml_reversalOf l')\<rparr> else l'))"
        using new Some False by (simp add: ReverseTransaction_def reversal_metadata_def Let_def)
      show ?thesis
      proof (cases rule: postLocked_cases [of l key now "''reversal''" ?md ?es])
        case (fresh p)
        then show ?thesis using that(3) [OF Some _ _ fresh(1) refl] False by (simp add: R posted_def)
      qed (use new in \<open>auto simp: R intro: refused\<close>)
    qed
  qed
qed

lemma reversals_ok_add:
  assumes "reversals_ok l"
    and "map_of (ml_byID l) i = Some t" and "tx_Kind t \<noteq> ''reversal''"
    and "map_of (ml_byID l) r = Some u" and "tx_Kind u = ''reversal''"
    and "tx_Entries u = reversed_entries (tx_Entries t)"
    and unused: "\<And>j. map_of (ml_reversalOf l) j \<noteq> Some r"
  shows "reversals_ok (l\<lparr>ml_reversalOf := AList.update i r (ml_reversalOf l)\<rparr>)"
proof -
  let ?f = "map_of (ml_reversalOf l)"
  have "inj_on ?f (dom ?f)" using assms(1) by (simp add: reversals_ok_def)
  then have "inj_on (?f(i \<mapsto> r)) (dom (?f(i \<mapsto> r)))"
    using unused by (auto simp: inj_on_def)
  moreover have "\<exists>t u. map_of (ml_byID l) j = Some t \<and> map_of (ml_byID l) q = Some u \<and>
      tx_Kind t \<noteq> ''reversal'' \<and> tx_Kind u = ''reversal'' \<and>
      tx_Entries u = reversed_entries (tx_Entries t)"
    if "(?f(i \<mapsto> r)) j = Some q" for j q
    using that assms by (cases "j = i") (simp_all add: reversals_ok_def)
  ultimately show ?thesis by (simp add: reversals_ok_def)
qed

lemma set_reversals_simps:
  "balances_ok (l\<lparr>ml_reversalOf := m\<rparr>) = balances_ok l"
  "zero_sum (l\<lparr>ml_reversalOf := m\<rparr>) = zero_sum l"
  "ids_ok (l\<lparr>ml_reversalOf := m\<rparr>) = ids_ok l"
  "journal_ok (l\<lparr>ml_reversalOf := m\<rparr>) = journal_ok l"
  "history_ok (l\<lparr>ml_reversalOf := m\<rparr>) = history_ok l"
  by (simp_all add: balances_ok_def zero_sum_def ids_ok_def journal_ok_def history_ok_def bal_def
      journal_def hist_def)

lemma ledger_inv_set_reversals:
  "ledger_inv l \<Longrightarrow> wf_map m \<Longrightarrow> reversals_ok (l\<lparr>ml_reversalOf := m\<rparr>) \<Longrightarrow>
     ledger_inv (l\<lparr>ml_reversalOf := m\<rparr>)"
  by (simp add: ledger_inv_def set_reversals_simps maps_ok_def)

lemma ledger_inv_reverse:
  assumes inv: "ledger_inv l"
  shows "ledger_inv (snd (ReverseTransaction l now i key reason))"
proof (cases rule: ReverseTransaction_cases [of l key now i reason])
  case (fresh t p tx)
  let ?l' = "posted l p tx"
  have inv': "ledger_inv ?l'"
    using fresh(4) inv by (rule ledger_inv_posted)
  have new: "map_of (ml_byID l) (tx_ID tx) = None"
    using fresh_post_id [OF fresh(4)] inv by (simp add: ledger_inv_def)
  then have unused: "map_of (ml_reversalOf l) j \<noteq> Some (tx_ID tx)" for j
    using inv by (force simp: ledger_inv_def reversals_ok_def)
  have "reversals_ok (?l'\<lparr>ml_reversalOf := AList.update i (tx_ID tx) (ml_reversalOf ?l')\<rparr>)"
  proof (rule reversals_ok_add)
    show "reversals_ok ?l'" using inv' by (simp add: ledger_inv_def)
    show "map_of (ml_byID ?l') i = Some t" using fresh(1) new by (auto simp: posted_def)
    show "tx_Kind t \<noteq> ''reversal''" by (rule fresh(2))
    show "map_of (ml_byID ?l') (tx_ID tx) = Some tx" by (simp add: posted_def)
  qed (use fresh(5) unused in \<open>simp_all add: posted_def\<close>)
  moreover have "wf_map (ml_reversalOf ?l')" using inv' by (simp add: ledger_inv_def maps_ok_def)
  ultimately show ?thesis
    using ledger_inv_set_reversals [OF inv'] fresh(6) by (simp add: posted_def)
qed (use inv in simp_all)

subsection \<open>Reachable ledgers\<close>

text \<open>The ledgers a process can see: a fresh one, posts and reversals with any arguments, and
  a restart (\<open>NewMemLedger\<close> followed by \<open>Restore\<close> of the last snapshot).\<close>

definition restart :: "mem_ledger \<Rightarrow> mem_ledger" where
  "restart l = Restore NewMemLedger (Snapshot l)"

inductive ledger_step :: "mem_ledger \<Rightarrow> mem_ledger \<Rightarrow> bool" where
  post: "ledger_step l (snd (PostTransaction l now kind key md es))"
| reverse: "ledger_step l (snd (ReverseTransaction l now i key reason))"

inductive_cases ledger_stepE: "ledger_step l l'"

inductive ledger_reachable :: "mem_ledger \<Rightarrow> bool" where
  new: "ledger_reachable NewMemLedger"
| step: "ledger_reachable l \<Longrightarrow> ledger_step l l' \<Longrightarrow> ledger_reachable l'"
| restarted: "ledger_reachable l \<Longrightarrow> ledger_reachable (restart l)"

abbreviation ledger_steps :: "mem_ledger \<Rightarrow> mem_ledger \<Rightarrow> bool" where
  "ledger_steps \<equiv> ledger_step\<^sup>*\<^sup>*"

lemma map_of_snapshot: "map_of (map (\<lambda>(k, v). (k, f v)) m) k = map_option f (map_of m k)"
  by (induction m) auto

lemma keys_snapshot [simp]: "map fst (map (\<lambda>(k, v). (k, f v)) m) = map fst m"
  by (induction m) auto

lemma restart_simps:
  "ml_balances (restart l) = put_all [] (ml_balances l)"
  "ml_byKey (restart l) = []"
  "ml_byID (restart l) = map (\<lambda>(k, tx). (k, json_tx tx)) (ml_byID l)"
  "ml_byAcct (restart l) = map (\<lambda>(k, hs). (k, map json_item hs)) (ml_byAcct l)"
  "ml_reversalOf (restart l) = ml_reversalOf l"
  "ml_seq (restart l) = ml_seq l"
  by (simp_all add: restart_def Restore_def Snapshot_def NewMemLedger_def)

lemma json_tx_simps [simp]:
  "tx_ID (json_tx t) = tx_ID t" "tx_Kind (json_tx t) = tx_Kind t"
  "tx_IdempotencyKey (json_tx t) = tx_IdempotencyKey t" "tx_Entries (json_tx t) = tx_Entries t"
  "tx_CreatedAt (json_tx t) = tx_CreatedAt t" "history_of (json_tx t) = (\<lambda>e. json_item (history_of t e))"
  by (simp_all add: json_tx_def json_item_def history_of_def fun_eq_iff)

lemma journal_restart: "journal (restart l) = map json_tx (journal l)"
  by (auto simp: journal_def restart_simps)

lemma bal_restart: "maps_ok l \<Longrightarrow> bal (restart l) = bal l"
  by (simp add: bal_def restart_simps getz_put_all maps_ok_def)
    (auto simp: overlay_def getz_def fun_eq_iff split: option.split)

lemma hist_restart: "hist (restart l) a = map json_item (hist l a)"
  by (simp add: hist_def restart_simps map_of_snapshot split: option.split)

lemma ledger_inv_restart:
  assumes inv: "ledger_inv l"
  shows "ledger_inv (restart l)"
proof -
  have m: "maps_ok l" using inv by (simp add: ledger_inv_def)
  have "maps_ok (restart l)"
    using m by (simp add: maps_ok_def restart_simps) (simp add: wf_map_def del: map_map)
  moreover have "balances_ok (restart l)"
    using inv m by (simp add: ledger_inv_def balances_ok_def bal_restart)
  moreover have "zero_sum (restart l)"
  proof -
    have "sum_where P (ml_balances (restart l)) = sum_where P (ml_balances l)" for P
      using m by (intro sum_where_cong) (auto simp: restart_simps maps_ok_def map_of_put_all)
    then show ?thesis using inv by (simp add: ledger_inv_def zero_sum_def)
  qed
  moreover have "ids_ok (restart l)"
    using inv by (auto simp: ledger_inv_def ids_ok_def restart_simps map_of_snapshot)
  moreover have "journal_ok (restart l)"
    using inv m by (simp add: ledger_inv_def journal_ok_def bal_restart journal_restart
        journal_entries_def comp_def)
  moreover have "history_ok (restart l)"
    using inv by (simp add: ledger_inv_def history_ok_def hist_restart journal_restart map_concat comp_def)
  moreover have "reversals_ok (restart l)"
    using inv by (fastforce simp: ledger_inv_def reversals_ok_def restart_simps map_of_snapshot)
  ultimately show ?thesis by (simp add: ledger_inv_def)
qed

lemma ledger_step_inv: "ledger_step l l' \<Longrightarrow> ledger_inv l \<Longrightarrow> ledger_inv l'"
  by (erule ledger_stepE) (simp_all add: PostTransaction_def ledger_inv_postLocked ledger_inv_reverse)

lemma ledger_reachable_inv: "ledger_reachable l \<Longrightarrow> ledger_inv l"
  by (induction rule: ledger_reachable.induct) (auto simp: ledger_inv_new ledger_step_inv ledger_inv_restart)

lemma ledger_steps_reachable: "ledger_steps l l' \<Longrightarrow> ledger_reachable l \<Longrightarrow> ledger_reachable l'"
  by (induction rule: rtranclp_induct) (auto intro: ledger_reachable.step)

section \<open>Properties\<close>

subsection \<open>A small ledger for the witnesses\<close>

definition demo_entries :: "entry list" where
  "demo_entries = [\<lparr>e_account = UserCoinsAccount ''a'', e_amount = 30, e_currency = Coin\<rparr>,
     \<lparr>e_account = PlatformLiabilityAccount, e_amount = -30, e_currency = Coin\<rparr>]"

definition demo_ledger :: mem_ledger where
  "demo_ledger = snd (PostTransaction NewMemLedger 7 ''promo'' ''k1'' [] demo_entries)"

lemmas demo_defs = demo_ledger_def demo_entries_def PostTransaction_def postLocked_def
  NewMemLedger_def account_defs balanced_def propose_Cons entry_key_def overlay_def
  isPlatformAccount_def getz_def add64_def wrap64_def tx_name_def itoaLedger_def itoa_loop.simps
  history_of_def Let_def

lemma demo_ledger_eval:
  "ml_balances demo_ledger =
     [((''user:a:coins'', ''COIN''), 30), ((''platform:liability'', ''COIN''), -30)]"
  "ml_seq demo_ledger = 1"
  "map fst (ml_byKey demo_ledger) = [''k1'']" "map fst (ml_byID demo_ledger) = [''tx-1'']"
  "ml_reversalOf demo_ledger = []"
  by (simp_all add: demo_defs)

lemma demo_reachable: "ledger_reachable demo_ledger"
  unfolding demo_ledger_def
  by (rule ledger_reachable.step [OF ledger_reachable.new ledger_step.post])

subsection \<open>The books\<close>

lemma getz_IntegrityCheck: "getz (IntegrityCheck l) c = wrap64 (sum_where (\<lambda>k. snd k = c) (ml_balances l))"
proof -
  have s: "(\<Sum>x \<leftarrow> m. if (case x of (k, v) \<Rightarrow> snd k) = c then snd x else 0) = sum_where (\<lambda>k. snd k = c) m"
    for m :: "(balance_key \<times> int) list"
    by (induction m) (auto simp: sum_where_def)
  have z: "sum_where (\<lambda>k. snd k = c) m = 0" if "c \<notin> (\<lambda>(k, v). snd k) ` set m"
    for m :: "(balance_key \<times> int) list"
    using that by (induction m) (auto simp: sum_where_def)
  show ?thesis
    unfolding IntegrityCheck_def getz_sum_by s using z by auto
qed

lemma IntegrityCheck_zero:
  assumes "ledger_reachable l" and "(c, s) \<in> set (IntegrityCheck l)"
  shows "s = 0"
proof -
  have "wf_map (IntegrityCheck l)" by (simp add: IntegrityCheck_def)
  with assms(2) have "getz (IntegrityCheck l) c = s" by (simp add: getz_def wf_map_ranI)
  with ledger_reachable_inv [OF assms(1)] show ?thesis
    by (simp add: getz_IntegrityCheck ledger_inv_def zero_sum_def)
qed

text \<open>C3: the whole-ledger cross-check never fires. In every reachable ledger (any posts,
  reversals and restarts, with any arguments, however large the amounts), the sum of all
  balances that \<open>IntegrityCheck\<close> computes is zero for every currency.\<close>

theorem integrity_check_zero:
  assumes "ledger_reachable l" and "(c, s) \<in> set (IntegrityCheck l)"
  shows "s = 0"
  using assms by (rule IntegrityCheck_zero)

lemma integrity_check_zero_witness:
  "(''COIN'', 0) \<in> set (IntegrityCheck demo_ledger) \<and> ledger_reachable demo_ledger"
proof -
  have "(''COIN'', 0) \<in> set (IntegrityCheck demo_ledger)"
    by (simp add: IntegrityCheck_def demo_ledger_eval getz_def add64_def wrap64_def)
  moreover from integrity_check_zero [OF demo_reachable this] have "(0::int) = 0" .
  ultimately show ?thesis using demo_reachable by blast
qed



text \<open>C5: the materialized balances and the per-account histories are exactly what the
  append-only journal says. In every reachable ledger a balance is the (wrapped) sum of the
  journal's entries for that account and currency, and an account's history has one item per
  journal entry that touches it, in posting order.\<close>

theorem balances_refine_journal:
  assumes "ledger_reachable l"
  shows "Balance l a c = Inr (wrap64 (entries_at (a, c) (journal_entries (journal l)))) \<and>
    hist l a = concat (map (\<lambda>t. map (history_of t) (filter (\<lambda>e. e_account e = a) (tx_Entries t))) (journal l))"
  using ledger_reachable_inv [OF assms]
  by (auto simp: ledger_inv_def journal_ok_def history_ok_def Balance_def bal_def)

lemma balances_refine_journal_witness:
  "wrap64 (entries_at (''user:a:coins'', ''COIN'') (journal_entries (journal demo_ledger))) = 30"
  using balances_refine_journal [OF demo_reachable, of "''user:a:coins''" "''COIN''"]
  by (simp add: Balance_def demo_ledger_eval getz_def)

subsection \<open>Posting\<close>

text \<open>C6: the contract of \<open>PostTransaction\<close>, on every branch. An error leaves the ledger as
  it was and is the empty, the unbalanced or the insufficient-balance error; a replayed key
  returns the transaction stored under it and changes nothing; a new transaction carries the
  caller's data, is found by its key and its ID, moves every balance by exactly its entries,
  is appended to the journal, and disturbs no other key.\<close>

theorem post_transaction_contract:
  assumes "ledger_reachable l" and "PostTransaction l now kind key md es = (r, l')"
  shows "case r of
      Inl err \<Rightarrow> l' = l \<and> GetTransaction l key = Inr None \<and>
        (err = ErrTransactionEmpty \<and> es = [] \<or> err = ErrUnbalancedTransaction \<and> \<not> balanced es \<or>
         (\<exists>e \<in> set es. \<not> isPlatformAccount (e_account e) \<and>
            err = InsufficientBalanceError (e_account e) (e_currency e) (neg64 (e_amount e))
                    (bal l (entry_key e))))
    | Inr (t, False) \<Rightarrow> l' = l \<and> GetTransaction l key = Inr (Some t)
    | Inr (t, True) \<Rightarrow> GetTransaction l key = Inr None \<and> GetTransaction l' key = Inr (Some t) \<and>
        GetTransactionByID l' (tx_ID t) = Inr t \<and> GetTransactionByID l (tx_ID t) = Inl ErrTransactionNotFound \<and>
        tx_Kind t = kind \<and> tx_Metadata t = md \<and> tx_Entries t = es \<and> tx_CreatedAt t = now \<and>
        es \<noteq> [] \<and> balanced es \<and> journal l' = journal l @ [t] \<and>
        (\<forall>k. bal l' k = add64 (bal l k) (entries_at k es)) \<and>
        (\<forall>k. k \<noteq> key \<longrightarrow> GetTransaction l' k = GetTransaction l k)"
proof -
  have inv: "ledger_inv l" using assms(1) by (rule ledger_reachable_inv)
  have insufficient: "\<exists>e \<in> set es. \<not> isPlatformAccount (e_account e) \<and>
      err = InsufficientBalanceError (e_account e) (e_currency e) (neg64 (e_amount e)) (getz b (entry_key e))"
    if "propose b p es = Inl err" for b p es err
    using that by (induction es arbitrary: p) (fastforce simp: propose_Cons Let_def split: if_splits)+
  show ?thesis
  proof (cases rule: postLocked_cases [of l key now kind md es])
    case (short err)
    then show ?thesis
      using assms(2) insufficient [OF short(4)]
      by (auto simp: PostTransaction_def GetTransaction_def bal_def)
  next
    case (fresh p)
    then show ?thesis
      using assms(2) inv bal_posted [OF fresh(1)] journal_posted [OF fresh(1)] fresh_post_id [OF fresh(1)]
      by (auto simp: PostTransaction_def GetTransaction_def GetTransactionByID_def ledger_inv_def
          fresh_post_def posted_def)
  qed (use assms(2) in \<open>auto simp: PostTransaction_def GetTransaction_def\<close>)
qed

lemma post_transaction_contract_witness:
  "GetTransactionByID demo_ledger ''tx-1'' \<noteq> Inl ErrTransactionNotFound \<and>
   bal demo_ledger (UserCoinsAccount ''a'', Coin) = 30"
proof -
  have "PostTransaction NewMemLedger 7 ''promo'' ''k1'' [] demo_entries =
      (Inr (new_tx NewMemLedger 7 ''promo'' ''k1'' [] demo_entries, True), demo_ledger)"
    by (simp add: demo_defs new_tx_def)
  from post_transaction_contract [OF ledger_reachable.new this] show ?thesis
    by (auto simp: tx_name_def itoaLedger_def itoa_loop.simps NewMemLedger_def bal_def add64_def
        demo_entries_def entry_key_def account_defs wrap64_def)
qed

text \<open>Once a key holds a transaction, every later post and reversal leaves it there.\<close>

lemma ledger_step_byKey:
  "ledger_step l l' \<Longrightarrow> map_of (ml_byKey l) key = Some t \<Longrightarrow> map_of (ml_byKey l') key = Some t"
proof (erule ledger_stepE)
  fix now kind key' md es
  assume "map_of (ml_byKey l) key = Some t" and "l' = snd (PostTransaction l now kind key' md es)"
  then show ?thesis
    by (cases rule: postLocked_cases [of l key' now kind md es])
      (auto simp: PostTransaction_def posted_def fresh_post_def)
next
  fix now i key' reason
  assume "map_of (ml_byKey l) key = Some t" and "l' = snd (ReverseTransaction l now i key' reason)"
  then show ?thesis
    by (cases rule: ReverseTransaction_cases [of l key' now i reason])
      (auto simp: posted_def fresh_post_def)
qed

lemma ledger_steps_byKey:
  "ledger_steps l l' \<Longrightarrow> map_of (ml_byKey l) key = Some t \<Longrightarrow> map_of (ml_byKey l') key = Some t"
  by (induction rule: rtranclp_induct) (auto intro: ledger_step_byKey)

lemma post_stored:
  "PostTransaction l now kind key md es = (Inr (t, b), l') \<Longrightarrow> map_of (ml_byKey l') key = Some t"
  by (cases rule: postLocked_cases [of l key now kind md es])
    (auto simp: PostTransaction_def posted_def)

text \<open>C7: exactly once. After a post under a key has succeeded, then within the same process,
  however many other posts and reversals run in between and whatever the retry's arguments are,
  a retry under that key returns the original transaction as not new and changes nothing.\<close>

theorem post_exactly_once:
  assumes "PostTransaction l now kind key md es = (Inr (t, isNew), l1)"
    and "ledger_steps l1 l2"
  shows "PostTransaction l2 now' kind' key md' es' = (Inr (t, False), l2)"
  using ledger_steps_byKey [OF assms(2) post_stored [OF assms(1)]]
  by (simp add: PostTransaction_def postLocked_def)

lemma post_exactly_once_witness:
  "PostTransaction demo_ledger 9 ''gift'' ''k1'' [] [] =
     (Inr (new_tx NewMemLedger 7 ''promo'' ''k1'' [] demo_entries, False), demo_ledger)"
proof (rule post_exactly_once)
  show "PostTransaction NewMemLedger 7 ''promo'' ''k1'' [] demo_entries =
      (Inr (new_tx NewMemLedger 7 ''promo'' ''k1'' [] demo_entries, True), demo_ledger)"
    by (simp add: demo_defs new_tx_def)
qed simp

subsection \<open>Reversal\<close>

lemma bal_set_reversals [simp]: "bal (l\<lparr>ml_reversalOf := m\<rparr>) = bal l"
  by (simp add: bal_def)

text \<open>Posted transactions and recorded reversals are permanent.\<close>

lemma ledger_step_permanent:
  assumes "ledger_step l l'" and "ledger_inv l"
  shows "map_of (ml_byID l) i = Some t \<Longrightarrow> map_of (ml_byID l') i = Some t"
    and "map_of (ml_reversalOf l) i = Some r \<Longrightarrow> map_of (ml_reversalOf l') i = Some r"
proof -
  have post: "(map_of (ml_byID l) i = Some t \<longrightarrow> map_of (ml_byID (posted l p tx)) i = Some t) \<and>
      ml_reversalOf (posted l p tx) = ml_reversalOf l" if "fresh_post l p tx" for p tx
    using fresh_post_id [OF that] assms(2) by (auto simp: ledger_inv_def posted_def)
  have "(map_of (ml_byID l) i = Some t \<longrightarrow> map_of (ml_byID l') i = Some t) \<and>
      (map_of (ml_reversalOf l) i = Some r \<longrightarrow> map_of (ml_reversalOf l') i = Some r)"
    using assms(1)
  proof (rule ledger_stepE)
    fix now kind key md es
    assume "l' = snd (PostTransaction l now kind key md es)"
    then show ?thesis
      by (cases rule: postLocked_cases [of l key now kind md es]) (auto simp: PostTransaction_def post)
  next
    fix now j key reason
    assume "l' = snd (ReverseTransaction l now j key reason)"
    then show ?thesis
      by (cases rule: ReverseTransaction_cases [of l key now j reason]) (auto simp: post)
  qed
  then show "map_of (ml_byID l) i = Some t \<Longrightarrow> map_of (ml_byID l') i = Some t"
    and "map_of (ml_reversalOf l) i = Some r \<Longrightarrow> map_of (ml_reversalOf l') i = Some r" by simp_all
qed

lemma ledger_steps_permanent:
  assumes "ledger_steps l l'" and "ledger_inv l"
  shows "ledger_inv l' \<and> (map_of (ml_byID l) i = Some t \<longrightarrow> map_of (ml_byID l') i = Some t) \<and>
    (map_of (ml_reversalOf l) j = Some r \<longrightarrow> map_of (ml_reversalOf l') j = Some r)"
  using assms
proof (induction rule: rtranclp_induct)
  case (step l1 l2)
  then show ?case using ledger_step_permanent [OF step.hyps(2)] ledger_step_inv [OF step.hyps(2)] by blast
qed simp

text \<open>C8: the contract of a successful reversal. A new reversal is a transaction of kind
  \<open>reversal\<close>, distinct from the original and appended to the journal; every balance moves
  back by exactly what the original's entries had added; the original is neither edited nor
  removed; and from then on, within the process, no unused key can reverse the original again
  or reverse the reversal.\<close>

theorem reversal_undoes_once:
  assumes "ledger_reachable l"
    and "ReverseTransaction l now i key reason = (Inr (t, True), l1)"
    and "ledger_steps l1 l2" and "GetTransaction l2 key' = Inr None"
  shows "(\<exists>orig. GetTransactionByID l i = Inr orig \<and> GetTransactionByID l2 i = Inr orig \<and>
      tx_Kind t = ''reversal'' \<and> tx_ID t \<noteq> i \<and> journal l1 = journal l @ [t] \<and>
      (\<forall>k. bal l1 k = sub64 (bal l k) (entries_at k (tx_Entries orig)))) \<and>
    ReverseTransaction l2 now' i key' reason' = (Inl ErrAlreadyReversed, l2) \<and>
    ReverseTransaction l2 now' (tx_ID t) key' reason' = (Inl ErrCannotReverseAReversal, l2)"
  using assms(2)
proof (cases rule: ReverseTransaction_cases [of l key now i reason])
  case (fresh o' p tx)
  have inv: "ledger_inv l" using assms(1) by (rule ledger_reachable_inv)
  have tx: "tx = t" and l1: "l1 = (posted l p t)\<lparr>ml_reversalOf := AList.update i (tx_ID t) (ml_reversalOf l)\<rparr>"
    using fresh(6) assms(2) by auto
  have inv1: "ledger_inv l1"
    using ledger_inv_reverse [OF inv, of now i key reason] assms(2) by simp
  have new: "map_of (ml_byID l) (tx_ID t) = None"
    using fresh_post_id [OF fresh(4)] inv tx by (simp add: ledger_inv_def)
  then have "map_of (ml_byID l1) i = Some o'" "map_of (ml_byID l1) (tx_ID t) = Some t"
    "map_of (ml_reversalOf l1) i = Some (tx_ID t)" and ne: "tx_ID t \<noteq> i"
    using fresh(1) by (auto simp: l1 posted_def)
  then have l2: "map_of (ml_byID l2) i = Some o'" "map_of (ml_byID l2) (tx_ID t) = Some t"
    "map_of (ml_reversalOf l2) i = Some (tx_ID t)"
    using ledger_steps_permanent [OF assms(3) inv1] by metis+
  have "bal l1 k = sub64 (bal l k) (entries_at k (tx_Entries o'))" for k
    using bal_posted [OF fresh(4), of k] inv fresh(5)
      wrap64_add_cong [OF refl entries_at_reversed [of k "tx_Entries o'"], of "bal l k"]
    by (simp add: l1 tx ledger_inv_def add64_def sub64_def)
  moreover have "journal l1 = journal l @ [t]"
    using journal_posted [OF fresh(4)] inv by (simp add: l1 tx ledger_inv_def journal_def)
  ultimately show ?thesis
    using fresh(1,2,5) tx ne l2 assms(4)
    by (auto simp: GetTransactionByID_def ReverseTransaction_def GetTransaction_def)
qed auto

lemma reversal_undoes_once_witness:
  "\<exists>t l1. ReverseTransaction demo_ledger 8 ''tx-1'' ''k2'' ''refund'' = (Inr (t, True), l1) \<and>
     bal l1 (UserCoinsAccount ''a'', Coin) = 0 \<and>
     ReverseTransaction l1 9 ''tx-1'' ''k3'' ''again'' = (Inl ErrAlreadyReversed, l1)"
proof -
  obtain t l1 where r: "ReverseTransaction demo_ledger 8 ''tx-1'' ''k2'' ''refund'' = (Inr (t, True), l1)"
    by (simp add: ReverseTransaction_def demo_defs reversed_entries_def neg64_def)
  have "map fst (ml_byKey l1) = [''k1'', ''k2'']" and b: "bal l1 (UserCoinsAccount ''a'', Coin) = 0"
    using r by (auto simp: ReverseTransaction_def demo_defs reversed_entries_def neg64_def bal_def)
  then have "GetTransaction l1 ''k3'' = Inr None"
    by (auto simp: GetTransaction_def map_of_eq_None_iff list.set_map [symmetric] simp del: list.set_map)
  from reversal_undoes_once [OF demo_reachable r rtranclp.rtrancl_refl this] r b show ?thesis by blast
qed

subsection \<open>Restarts\<close>

text \<open>What a restart keeps and what it loses. Balances, the IDs and entries of the journal
  and the reversal records survive \<open>Snapshot\<close> and \<open>Restore\<close>, but no idempotency key
  does: the very request whose key had been used is posted again as new, under the next ID,
  whenever the balances still allow it, so that a client that retries across a restart is
  charged twice.\<close>

theorem restart_forgets_keys:
  assumes "ledger_reachable l" and "GetTransaction l key = Inr (Some t)"
    and "es \<noteq> []" and "balanced es" and "propose (ml_balances (restart l)) [] es = Inr p"
  shows "bal (restart l) = bal l \<and> map tx_ID (journal (restart l)) = map tx_ID (journal l) \<and>
    map tx_Entries (journal (restart l)) = map tx_Entries (journal l) \<and>
    ml_reversalOf (restart l) = ml_reversalOf l \<and>
    fst (PostTransaction l now kind key md es) = Inr (t, False) \<and>
    (\<exists>u l'. PostTransaction (restart l) now kind key md es = (Inr (u, True), l') \<and>
       tx_ID u = tx_name (Suc (ml_seq l)) \<and>
       (\<forall>k. bal l' k = add64 (bal l k) (entries_at k es)))"
proof -
  have inv: "ledger_inv (restart l)"
    using ledger_reachable_inv [OF assms(1)] by (rule ledger_inv_restart)
  have m: "maps_ok l" using ledger_reachable_inv [OF assms(1)] by (simp add: ledger_inv_def)
  let ?u = "new_tx (restart l) now kind key md es"
  have f: "fresh_post (restart l) p ?u"
    using assms(3-5) by (simp add: fresh_post_def restart_simps)
  then have "PostTransaction (restart l) now kind key md es = (Inr (?u, True), posted (restart l) p ?u)"
    by (cases rule: postLocked_cases [of "restart l" key now kind md es])
      (auto simp: PostTransaction_def fresh_post_def)
  moreover have "fst (PostTransaction l now kind key md es) = Inr (t, False)"
    using assms(2) by (simp add: PostTransaction_def postLocked_def GetTransaction_def)
  ultimately show ?thesis
    using bal_posted [OF f] inv bal_restart [OF m]
    by (simp add: journal_restart restart_simps(5,6) ledger_inv_def comp_def)
qed

lemma restart_forgets_keys_witness:
  "\<exists>u l'. PostTransaction (restart demo_ledger) 9 ''promo'' ''k1'' [] demo_entries = (Inr (u, True), l') \<and>
     bal l' (UserCoinsAccount ''a'', Coin) = 60"
proof -
  obtain t where "GetTransaction demo_ledger ''k1'' = Inr (Some t)"
    by (simp add: GetTransaction_def demo_defs)
  moreover obtain p where "propose (ml_balances (restart demo_ledger)) [] demo_entries = Inr p"
    by (simp add: restart_simps demo_ledger_eval demo_entries_def propose_Cons overlay_def
        entry_key_def account_defs getz_def add64_def wrap64_def isPlatformAccount_def)
  ultimately show ?thesis
    using restart_forgets_keys [OF demo_reachable, of "''k1''" t demo_entries p 9 "''promo''" "[]"]
    by (auto simp: demo_entries_def balanced_def entry_key_def account_defs bal_def getz_def
        demo_ledger_eval add64_def wrap64_def)
qed

subsection \<open>Reading the history\<close>

lemma parse_itoaLedger: "n < 2 ^ 64 \<Longrightarrow> parseUintLedger (itoaLedger (int n)) = Some n"
  by (auto simp: parseUintLedger_def itoaLedger_def parse_itoa_loop)

text \<open>A page read with the cursor the server itself hands out.\<close>

definition page_size :: "int \<Rightarrow> nat" where
  "page_size limit = nat (if limit \<le> 0 \<or> 200 < limit then 50 else limit)"

lemma page_size_bounds: "0 < page_size limit" "page_size limit \<le> 200"
  by (auto simp: page_size_def)

lemma History_at:
  assumes "n \<le> length (hist l a)" and "int (length (hist l a)) < 2 ^ 63"
    and "cursor = [] \<and> n = 0 \<or> cursor = itoaLedger (int n)"
  shows "History l a cursor limit =
    Some (take (page_size limit) (drop n (rev (hist l a))),
      if n + page_size limit < length (hist l a) then itoaLedger (int (n + page_size limit)) else [])"
proof -
  have "itoaLedger (int n) \<noteq> []" by (simp add: itoaLedger_def)
  moreover have "n < 2 ^ 64" "int_of_uint64 n = int n"
    using assms(1,2) by (auto simp: int_of_uint64_def wrap64_id in_i64_def)
  ultimately have "(if cursor = [] then 0 else case parseUintLedger cursor of None \<Rightarrow> 0
      | Some m \<Rightarrow> int_of_uint64 m) = int n"
    using assms(3) parse_itoaLedger [of n] by auto
  moreover have "nat (if limit \<le> 0 \<or> 200 < limit then 50 else limit) = page_size limit"
    by (simp add: page_size_def)
  ultimately have H: "History l a cursor limit =
      (let out = take (page_size limit) (drop n (rev (hist l a)))
       in Some (out, if int n + int (length out) < int (length (hist l a))
                     then itoaLedger (int n + int (length out)) else []))"
    using assms(1) by (simp add: History_def hist_def [symmetric] Let_def)
  show ?thesis
    using assms(1) by (cases "n + page_size limit < length (hist l a)") (auto simp: H min_def)
qed

text \<open>A client that follows the cursors until there is none.\<close>

fun read_pages :: "nat \<Rightarrow> mem_ledger \<Rightarrow> account_id \<Rightarrow> string \<Rightarrow> int \<Rightarrow> history_item list option" where
  "read_pages 0 l a cursor limit = None"
| "read_pages (Suc fuel) l a cursor limit =
     (case History l a cursor limit of
        None \<Rightarrow> None
      | Some (page, next_cursor) \<Rightarrow>
          if next_cursor = [] then Some page
          else map_option (\<lambda>rest. page @ rest) (read_pages fuel l a next_cursor limit))"

lemma read_pages_from:
  assumes "int (length (hist l a)) < 2 ^ 63"
  shows "n \<le> length (hist l a) \<Longrightarrow> length (hist l a) < n + fuel \<Longrightarrow>
    cursor = [] \<and> n = 0 \<or> cursor = itoaLedger (int n) \<Longrightarrow>
    read_pages fuel l a cursor limit = Some (drop n (rev (hist l a)))"
proof (induction fuel arbitrary: n cursor)
  case (Suc fuel)
  let ?s = "page_size limit"
  show ?case
  proof (cases "n + ?s < length (hist l a)")
    case True
    have "read_pages fuel l a (itoaLedger (int (n + ?s))) limit = Some (drop (n + ?s) (rev (hist l a)))"
      using True Suc.prems page_size_bounds(1) [of limit] by (intro Suc.IH) auto
    moreover have "itoaLedger (int (n + ?s)) \<noteq> []" by (simp add: itoaLedger_def)
    moreover have "take ?s (drop n xs) @ drop (n + ?s) xs = drop n xs" for xs :: "history_item list"
      by (metis append_take_drop_id drop_drop add.commute)
    ultimately show ?thesis
      using True History_at [OF Suc.prems(1) assms Suc.prems(3), of limit] by simp
  qed (use History_at [OF Suc.prems(1) assms Suc.prems(3), of limit] in simp)
qed simp

text \<open>C9: pagination loses and repeats nothing. Following \<open>History\<close>'s cursors from the empty
  cursor, with any page limit, ends without a panic and yields the account's whole history,
  newest first.\<close>

theorem history_pagination_complete:
  assumes "int (length (hist l a)) < 2 ^ 63" and "length (hist l a) < fuel"
  shows "read_pages fuel l a [] limit = Some (rev (hist l a))"
  using read_pages_from [OF assms(1), of 0 fuel "[]" limit] assms(2) by simp

lemma history_pagination_complete_witness:
  "read_pages 2 demo_ledger (UserCoinsAccount ''a'') [] 1 = Some (rev (hist demo_ledger (UserCoinsAccount ''a'')))"
proof (rule history_pagination_complete)
  have "length (hist demo_ledger (UserCoinsAccount ''a'')) = 1"
    by (simp add: hist_def demo_defs)
  then show "int (length (hist demo_ledger (UserCoinsAccount ''a''))) < 2 ^ 63"
    and "length (hist demo_ledger (UserCoinsAccount ''a'')) < 2" by simp_all
qed

text \<open>\<open>History\<close> panics exactly for a client-supplied cursor whose digits, read modulo
  \<open>2 ^ 64\<close>, denote \<open>2 ^ 63\<close> or more; every other cursor is answered with a page of at most
  200 items.\<close>

theorem history_panic_iff:
  "(History l a cursor limit = None \<longleftrightarrow> (\<exists>n. parseUintLedger cursor = Some n \<and> 2 ^ 63 \<le> n)) \<and>
   (\<nexists>page nxt. History l a cursor limit = Some (page, nxt) \<and> 200 < length page)"
proof -
  have neg: "int_of_uint64 n < 0 \<longleftrightarrow> 2 ^ 63 \<le> n" if "n < 2 ^ 64" for n
  proof (cases "n < 2 ^ 63")
    case True
    then show ?thesis by (simp add: int_of_uint64_def wrap64_id in_i64_def)
  next
    case False
    have "(int n + 2 ^ 63) mod 2 ^ 64 = (int n - 2 ^ 63) mod 2 ^ 64"
      using mod_add_self2 [of "int n - 2 ^ 63" "2 ^ 64"] by (simp add: add.commute)
    also have "\<dots> = int n - 2 ^ 63" using False that by (intro mod_pos_pos_trivial) simp_all
    finally show ?thesis using False that by (simp add: int_of_uint64_def wrap64_def)
  qed
  have lt: "n < 2 ^ 64" if "parseUintLedger cursor = Some n" for n
    using that parse_digits_less [of 0 cursor n] by (simp add: parseUintLedger_def split: if_splits)
  have "History l a cursor limit = None \<longleftrightarrow> (\<exists>n. parseUintLedger cursor = Some n \<and> int_of_uint64 n < 0)"
    by (auto simp: History_def Let_def parseUintLedger_def split: option.splits)
  moreover have "length page \<le> 200" if "History l a cursor limit = Some (page, nxt)" for page nxt
    using that by (auto simp: History_def Let_def split: if_splits option.splits)
  ultimately show ?thesis using neg lt by fastforce
qed

end
