(* ===== verification/Ledger_Repo.thy ===== *)
theory Ledger_Repo
  imports Ledger
begin

text \<open>
  The interface \<open>ledger.Repo\<close> (\<open>ledger/ledger.go\<close>) as the services use it: a record
  of operations on an abstract ledger state \<open>'l\<close>, with its documented laws as the locale
  \<open>ledger_contract\<close> and, for the clients that reverse transactions,
  \<open>ledger_reversal_contract\<close>. The interpretations at the end discharge both for
  \<open>MemLedger\<close> in its reachable states.
\<close>

section \<open>Accounts\<close>

lemma user_not_platform [simp]:
  "\<not> isPlatformAccount (UserCoinsAccount a)" "\<not> isPlatformAccount (UserDiamondsAccount a)"
  by (simp_all add: isPlatformAccount_def account_defs)

lemma platform_accounts [simp]:
  "isPlatformAccount PlatformRevenueAccount" "isPlatformAccount PlatformLiabilityAccount"
  "isPlatformAccount PlatformDiamondLiabilityAccount"
  by (simp_all add: isPlatformAccount_def account_defs)

section \<open>The interface\<close>

record 'l ledger_repo =
  repo_Balance :: "'l \<Rightarrow> account_id \<Rightarrow> currency \<Rightarrow> ledger_error + int"
  repo_PostTransaction :: "'l \<Rightarrow> time \<Rightarrow> string \<Rightarrow> string \<Rightarrow> metadata \<Rightarrow> entry list \<Rightarrow>
    (ledger_error + transaction \<times> bool) \<times> 'l"
  repo_GetTransaction :: "'l \<Rightarrow> string \<Rightarrow> ledger_error + transaction option"
  repo_GetTransactionByID :: "'l \<Rightarrow> string \<Rightarrow> ledger_error + transaction"
  repo_ReverseTransaction :: "'l \<Rightarrow> time \<Rightarrow> string \<Rightarrow> string \<Rightarrow> string \<Rightarrow>
    (ledger_error + transaction \<times> bool) \<times> 'l"

text \<open>\<open>var _ Repo = (*MemLedger)(nil)\<close>\<close>

definition mem_ledger_repo :: "mem_ledger ledger_repo" where
  "mem_ledger_repo = \<lparr>repo_Balance = Balance, repo_PostTransaction = PostTransaction,
     repo_GetTransaction = GetTransaction, repo_GetTransactionByID = GetTransactionByID,
     repo_ReverseTransaction = ReverseTransaction\<rparr>"

text \<open>Where every account of a list of entries is touched once, the list can be applied exactly
  when no single entry overdraws a user account.\<close>

definition affordable :: "(balance_key \<Rightarrow> int) \<Rightarrow> entry list \<Rightarrow> bool" where
  "affordable b es \<longleftrightarrow>
     (\<forall>e \<in> set es. isPlatformAccount (e_account e) \<or> 0 \<le> add64 (b (entry_key e)) (e_amount e))"

definition overdrawn_error :: "(balance_key \<Rightarrow> int) \<Rightarrow> entry \<Rightarrow> ledger_error" where
  "overdrawn_error b e = InsufficientBalanceError (e_account e) (e_currency e)
     (neg64 (e_amount e)) (b (entry_key e))"

locale ledger_contract =
  fixes R :: "'l ledger_repo"
    and ok :: "'l \<Rightarrow> bool"
    and bl :: "'l \<Rightarrow> balance_key \<Rightarrow> int"
    and stored :: "'l \<Rightarrow> string \<Rightarrow> transaction option"
  assumes balance_law: "ok l \<Longrightarrow> repo_Balance R l a c = Inr (bl l (a, c))"
    and range_law: "ok l \<Longrightarrow> in_i64 (bl l k)"
    and nonneg_law: "ok l \<Longrightarrow> \<not> isPlatformAccount a \<Longrightarrow> 0 \<le> bl l (a, c)"
    and get_law: "ok l \<Longrightarrow> repo_GetTransaction R l key = Inr (stored l key)"
    and replay_law: "ok l \<Longrightarrow> stored l key = Some t \<Longrightarrow>
      repo_PostTransaction R l now kind key md es = (Inr (t, False), l)"
    and new_law: "ok l \<Longrightarrow> stored l key = None \<Longrightarrow>
      repo_PostTransaction R l now kind key md es = (Inr (t, b), l') \<Longrightarrow>
      b \<and> ok l' \<and> tx_Kind t = kind \<and> tx_IdempotencyKey t = key \<and> tx_Metadata t = md \<and>
      tx_Entries t = es \<and> tx_CreatedAt t = now \<and> stored l' = (stored l)(key \<mapsto> t) \<and>
      (\<forall>k. bl l' k = add64 (bl l k) (entries_at k es))"
    and error_law: "ok l \<Longrightarrow> repo_PostTransaction R l now kind key md es = (Inl err, l') \<Longrightarrow> l' = l"
    and affordable_law: "ok l \<Longrightarrow> stored l key = None \<Longrightarrow> es \<noteq> [] \<Longrightarrow> balanced es \<Longrightarrow>
      distinct (map entry_key es) \<Longrightarrow> affordable (bl l) es \<Longrightarrow>
      \<exists>t l'. repo_PostTransaction R l now kind key md es = (Inr (t, True), l')"
    and overdrawn_law: "ok l \<Longrightarrow> stored l key = None \<Longrightarrow> balanced (e # es) \<Longrightarrow>
      \<not> isPlatformAccount (e_account e) \<Longrightarrow> add64 (bl l (entry_key e)) (e_amount e) < 0 \<Longrightarrow>
      repo_PostTransaction R l now kind key md (e # es) = (Inl (overdrawn_error (bl l) e), l)"
begin

text \<open>The three outcomes of a post.\<close>

lemma post_cases:
  assumes "ok l"
  obtains (error) err where
      "repo_PostTransaction R l now kind key md es = (Inl err, l)"
  | (replay) t where "stored l key = Some t"
      "repo_PostTransaction R l now kind key md es = (Inr (t, False), l)"
  | (new) t l' where "stored l key = None"
      "repo_PostTransaction R l now kind key md es = (Inr (t, True), l')" "ok l'"
      "tx_Kind t = kind" "tx_IdempotencyKey t = key" "tx_Metadata t = md" "tx_Entries t = es"
      "tx_CreatedAt t = now" "stored l' = (stored l)(key \<mapsto> t)"
      "\<And>k. bl l' k = add64 (bl l k) (entries_at k es)"
proof (cases "repo_PostTransaction R l now kind key md es")
  case (Pair r l')
  show ?thesis
  proof (cases r)
    case (Inl err)
    then show ?thesis using error Pair error_law [OF assms, of now kind key md es err l'] by simp
  next
    case (Inr tb)
    obtain t b where tb: "tb = (t, b)" by (cases tb)
    show ?thesis
    proof (cases "stored l key")
      case None
      then show ?thesis
        using new_law [OF assms None, of now kind md es t b l'] Pair Inr tb new [of t l'] by auto
    next
      case (Some u)
      then show ?thesis using replay_law [OF assms Some] replay by blast
    qed
  qed
qed

text \<open>A post always leaves a good state, and never forgets a key.\<close>

lemma post_ok:
  assumes "ok l" and "repo_PostTransaction R l now kind key md es = (r, l')"
  shows "ok l'"
  using assms by (cases rule: post_cases [OF assms(1), of now kind key md es]) auto

lemma post_keeps:
  assumes "ok l" and "repo_PostTransaction R l now kind key md es = (r, l')" and "stored l k = Some t"
  shows "stored l' k = Some t"
  using assms by (cases rule: post_cases [OF assms(1), of now kind key md es]) auto

lemma post_stores:
  assumes "ok l" and "repo_PostTransaction R l now kind key md es = (Inr (t, b), l')"
  shows "stored l' key = Some t"
  using assms by (cases rule: post_cases [OF assms(1), of now kind key md es]) auto

lemma post_twice:
  assumes "ok l" and "repo_PostTransaction R l now kind key md es = (Inr (t, b), l')"
  shows "repo_PostTransaction R l' now' kind' key md' es' = (Inr (t, False), l')"
  by (rule replay_law [OF post_ok [OF assms] post_stores [OF assms]])

end

locale ledger_reversal_contract = ledger_contract +
  fixes by_id :: "'l \<Rightarrow> string \<Rightarrow> transaction option"
    and reversed :: "'l \<Rightarrow> string \<Rightarrow> bool"
  assumes by_id_law: "ok l \<Longrightarrow> repo_GetTransactionByID R l i =
      (case by_id l i of None \<Rightarrow> Inl ErrTransactionNotFound | Some t \<Rightarrow> Inr t)"
    and stored_by_id: "ok l \<Longrightarrow> stored l key = Some t \<Longrightarrow> by_id l (tx_ID t) = Some t"
    and post_by_id: "ok l \<Longrightarrow> repo_PostTransaction R l now kind key md es = (r, l') \<Longrightarrow>
      by_id l i = Some t \<Longrightarrow> by_id l' i = Some t"
    and post_reversed: "ok l \<Longrightarrow> repo_PostTransaction R l now kind key md es = (r, l') \<Longrightarrow>
      reversed l' = reversed l"
    and new_unreversed: "ok l \<Longrightarrow> repo_PostTransaction R l now kind key md es = (Inr (t, True), l') \<Longrightarrow>
      \<not> reversed l' (tx_ID t)"
    and reverse_replay: "ok l \<Longrightarrow> stored l key = Some t \<Longrightarrow>
      repo_ReverseTransaction R l now i key reason = (Inr (t, False), l)"
    and reverse_error: "ok l \<Longrightarrow> repo_ReverseTransaction R l now i key reason = (Inl err, l') \<Longrightarrow> l' = l"
    and reverse_new: "ok l \<Longrightarrow> stored l key = None \<Longrightarrow>
      repo_ReverseTransaction R l now i key reason = (Inr (t, b), l') \<Longrightarrow>
      b \<and> ok l' \<and> stored l' = (stored l)(key \<mapsto> t) \<and> \<not> reversed l i \<and>
      reversed l' = (reversed l)(i := True) \<and>
      (\<exists>u. by_id l i = Some u \<and> tx_Kind u \<noteq> ''reversal'' \<and>
         (\<forall>k. bl l' k = sub64 (bl l k) (entries_at k (tx_Entries u))))"
    and reverse_succeeds: "ok l \<Longrightarrow> stored l key = None \<Longrightarrow> by_id l i = Some u \<Longrightarrow>
      tx_Kind u \<noteq> ''reversal'' \<Longrightarrow> \<not> reversed l i \<Longrightarrow> distinct (map entry_key (tx_Entries u)) \<Longrightarrow>
      affordable (bl l) (reversed_entries (tx_Entries u)) \<Longrightarrow>
      \<exists>t l'. repo_ReverseTransaction R l now i key reason = (Inr (t, True), l')"
begin

lemma reverse_ok:
  assumes "ok l" and "repo_ReverseTransaction R l now i key reason = (r, l')"
  shows "ok l'"
proof (cases r)
  case (Inl err)
  then show ?thesis using assms reverse_error by blast
next
  case (Inr tb)
  then show ?thesis
    using assms reverse_new [OF assms(1), of key now i reason "fst tb" "snd tb" l']
      reverse_replay [OF assms(1), of key _ now i reason]
    by (cases "stored l key") auto
qed

end

section \<open>The in-memory ledger keeps the contract\<close>

definition tx_by_key :: "mem_ledger \<Rightarrow> string \<Rightarrow> transaction option" where
  "tx_by_key l = map_of (ml_byKey l)"

definition tx_by_id :: "mem_ledger \<Rightarrow> string \<Rightarrow> transaction option" where
  "tx_by_id l = map_of (ml_byID l)"

definition is_reversed :: "mem_ledger \<Rightarrow> string \<Rightarrow> bool" where
  "is_reversed l i \<longleftrightarrow> map_of (ml_reversalOf l) i \<noteq> None"

lemma propose_affordable:
  "distinct (map entry_key es) \<Longrightarrow> \<forall>e \<in> set es. overlay bs p (entry_key e) = getz bs (entry_key e) \<Longrightarrow>
     affordable (getz bs) es \<Longrightarrow> \<exists>p'. propose bs p es = Inr p'"
proof (induction es arbitrary: p)
  case (Cons e es)
  let ?b = "add64 (overlay bs p (entry_key e)) (e_amount e)"
  have "\<forall>f \<in> set es. overlay bs (AList.update (entry_key e) ?b p) (entry_key f) = getz bs (entry_key f)"
    using Cons.prems(1,2) by (auto simp: image_iff)
  then obtain p' where "propose bs (AList.update (entry_key e) ?b p) es = Inr p'"
    using Cons.IH Cons.prems(1,3) by (fastforce simp: affordable_def)
  then show ?case
    using Cons.prems(2,3) by (auto simp: propose_Cons Let_def affordable_def)
qed simp

lemma postLocked_fresh:
  "map_of (ml_byKey l) key = None \<Longrightarrow> es \<noteq> [] \<Longrightarrow> balanced es \<Longrightarrow> distinct (map entry_key es) \<Longrightarrow>
     affordable (bal l) es \<Longrightarrow>
     \<exists>p. postLocked l now kind key md es =
       (Inr (new_tx l now kind key md es, True), posted l p (new_tx l now kind key md es))"
  using propose_affordable [of es "ml_balances l" "[]"]
  by (cases rule: postLocked_cases [of l key now kind md es]) (auto simp: bal_def)

lemmas mem_repo_defs = mem_ledger_repo_def tx_by_key_def tx_by_id_def is_reversed_def

interpretation mem: ledger_contract mem_ledger_repo ledger_inv bal tx_by_key
proof unfold_locales
  fix l :: mem_ledger and now kind key md es t b l'
  assume inv: "ledger_inv l" and new: "tx_by_key l key = None"
    and post: "repo_PostTransaction mem_ledger_repo l now kind key md es = (Inr (t, b), l')"
  show "b \<and> ledger_inv l' \<and> tx_Kind t = kind \<and> tx_IdempotencyKey t = key \<and> tx_Metadata t = md \<and>
      tx_Entries t = es \<and> tx_CreatedAt t = now \<and> tx_by_key l' = (tx_by_key l)(key \<mapsto> t) \<and>
      (\<forall>k. bal l' k = add64 (bal l k) (entries_at k es))"
    using post
  proof (cases rule: postLocked_cases [of l key now kind md es])
    case (fresh p)
    then show ?thesis
      using post ledger_inv_posted [OF fresh(1) inv] bal_posted [OF fresh(1)] inv
      by (auto simp: mem_repo_defs PostTransaction_def posted_def ledger_inv_def)
  qed (use new in \<open>auto simp: mem_repo_defs PostTransaction_def\<close>)
next
  fix l :: mem_ledger and now kind key md es err l'
  assume "repo_PostTransaction mem_ledger_repo l now kind key md es = (Inl err, l')"
  then show "l' = l"
    by (cases rule: postLocked_cases [of l key now kind md es])
      (auto simp: mem_repo_defs PostTransaction_def)
next
  fix l :: mem_ledger and now kind key md es
  assume "tx_by_key l key = None" "es \<noteq> []" "balanced es" "distinct (map entry_key es)"
    "affordable (bal l) es"
  then show "\<exists>t l'. repo_PostTransaction mem_ledger_repo l now kind key md es = (Inr (t, True), l')"
    using postLocked_fresh [of l key es now kind md] by (auto simp: mem_repo_defs PostTransaction_def)
next
  fix l :: mem_ledger and now kind key md e es
  assume "tx_by_key l key = None" "balanced (e # es)" "\<not> isPlatformAccount (e_account e)"
    "add64 (bal l (entry_key e)) (e_amount e) < 0"
  then show "repo_PostTransaction mem_ledger_repo l now kind key md (e # es) =
      (Inl (overdrawn_error (bal l) e), l)"
    by (simp add: mem_repo_defs PostTransaction_def postLocked_def propose_Cons Let_def bal_def
        overdrawn_error_def)
qed (auto simp: mem_repo_defs Balance_def bal_def GetTransaction_def PostTransaction_def
    postLocked_def ledger_inv_def balances_ok_def)

lemma posted_by_id:
  "fresh_post l p tx \<Longrightarrow> ledger_inv l \<Longrightarrow> tx_by_id l i = Some t \<Longrightarrow> tx_by_id (posted l p tx) i = Some t"
  using fresh_post_id [of l p tx] by (auto simp: tx_by_id_def posted_def ledger_inv_def)

lemma is_reversed_posted [simp]: "is_reversed (posted l p tx) = is_reversed l"
  by (simp add: is_reversed_def posted_def fun_eq_iff)

interpretation mem: ledger_reversal_contract mem_ledger_repo ledger_inv bal tx_by_key tx_by_id is_reversed
proof unfold_locales
  fix l :: mem_ledger and now kind key md es r l' i t
  assume inv: "ledger_inv l" and t: "tx_by_id l i = Some t"
    and post: "repo_PostTransaction mem_ledger_repo l now kind key md es = (r, l')"
  show "tx_by_id l' i = Some t"
    using post t
    by (cases rule: postLocked_cases [of l key now kind md es])
      (auto simp: mem_ledger_repo_def PostTransaction_def posted_by_id inv)
next
  fix l :: mem_ledger and now kind key md es r l'
  assume "repo_PostTransaction mem_ledger_repo l now kind key md es = (r, l')"
  then show "is_reversed l' = is_reversed l"
    by (cases rule: postLocked_cases [of l key now kind md es])
      (auto simp: mem_ledger_repo_def PostTransaction_def)
next
  fix l :: mem_ledger and now kind key md es t l'
  assume inv: "ledger_inv l"
    and post: "repo_PostTransaction mem_ledger_repo l now kind key md es = (Inr (t, True), l')"
  show "\<not> is_reversed l' (tx_ID t)"
    using post
  proof (cases rule: postLocked_cases [of l key now kind md es])
    case (fresh p)
    then show ?thesis
      using post fresh_post_id [OF fresh(1)] inv
      by (fastforce simp: mem_ledger_repo_def PostTransaction_def is_reversed_def [of l] ledger_inv_def
          reversals_ok_def)
  qed (auto simp: mem_ledger_repo_def PostTransaction_def)
next
  fix l :: mem_ledger and now i key reason err l'
  assume "repo_ReverseTransaction mem_ledger_repo l now i key reason = (Inl err, l')"
  then show "l' = l"
    by (cases rule: ReverseTransaction_cases [of l key now i reason]) (auto simp: mem_ledger_repo_def)
next
  fix l :: mem_ledger and now i key reason t b l'
  assume inv: "ledger_inv l" and new: "tx_by_key l key = None"
    and rev: "repo_ReverseTransaction mem_ledger_repo l now i key reason = (Inr (t, b), l')"
  show "b \<and> ledger_inv l' \<and> tx_by_key l' = (tx_by_key l)(key \<mapsto> t) \<and> \<not> is_reversed l i \<and>
      is_reversed l' = (is_reversed l)(i := True) \<and>
      (\<exists>u. tx_by_id l i = Some u \<and> tx_Kind u \<noteq> ''reversal'' \<and>
         (\<forall>k. bal l' k = sub64 (bal l k) (entries_at k (tx_Entries u))))"
    using rev
  proof (cases rule: ReverseTransaction_cases [of l key now i reason])
    case (fresh u p tx)
    have "ledger_inv l'" and l': "l' = (posted l p tx)\<lparr>ml_reversalOf := AList.update i (tx_ID tx) (ml_reversalOf l)\<rparr>"
      and "b" "t = tx"
      using ledger_inv_reverse [OF inv, of now i key reason] rev fresh(6) by (auto simp: mem_ledger_repo_def)
    moreover have "bal l' k = sub64 (bal l k) (entries_at k (tx_Entries u))" for k
      using bal_posted [OF fresh(4), of k] inv fresh(5) l'
        wrap64_add_cong [OF refl entries_at_reversed [of k "tx_Entries u"], of "bal l k"]
      by (simp add: ledger_inv_def add64_def sub64_def)
    ultimately show ?thesis
      using fresh(1-3,5) by (auto simp: mem_repo_defs posted_def fun_eq_iff)
  qed (use new in \<open>auto simp: mem_repo_defs\<close>)
next
  fix l :: mem_ledger and now i key reason u
  assume "tx_by_key l key = None" "tx_by_id l i = Some u" "tx_Kind u \<noteq> ''reversal''"
    "\<not> is_reversed l i" and inv: "ledger_inv l" and d: "distinct (map entry_key (tx_Entries u))"
    and a: "affordable (bal l) (reversed_entries (tx_Entries u))"
  then show "\<exists>t l'. repo_ReverseTransaction mem_ledger_repo l now i key reason = (Inr (t, True), l')"
  proof -
    have "tx_Entries u \<noteq> []" "balanced (tx_Entries u)"
      using inv \<open>tx_by_id l i = Some u\<close> by (auto simp: ledger_inv_def ids_ok_def tx_by_id_def)
    moreover have "map entry_key (reversed_entries es) = map entry_key es" for es
      by (induction es) (auto simp: entry_key_def)
    ultimately obtain p where "postLocked l now ''reversal'' key (reversal_metadata i reason (tx_Kind u))
        (reversed_entries (tx_Entries u)) = (Inr (new_tx l now ''reversal'' key
          (reversal_metadata i reason (tx_Kind u)) (reversed_entries (tx_Entries u)), True), p)"
      using postLocked_fresh [of l key "reversed_entries (tx_Entries u)" now "''reversal''"
          "reversal_metadata i reason (tx_Kind u)"] d a \<open>tx_by_key l key = None\<close>
      by (auto simp: balanced_reversed tx_by_key_def)
    then show ?thesis
      using \<open>tx_by_key l key = None\<close> \<open>tx_by_id l i = Some u\<close> \<open>tx_Kind u \<noteq> _\<close> \<open>\<not> is_reversed l i\<close>
      by (simp add: mem_repo_defs ReverseTransaction_def reversal_metadata_def Let_def)
  qed
qed (auto simp: mem_repo_defs GetTransactionByID_def ReverseTransaction_def ledger_inv_def ids_ok_def
    split: option.split)

end
