(* ===== verification/SpendLimits.thy ===== *)
theory SpendLimits
  imports GoPrelude
begin

text \<open>
  Self-set purchase caps (\<open>ledger/spendlimits.go\<close>) and the endpoint that changes them
  (\<open>UpdateSpendLimits\<close> in \<open>ledger/handlers/orders.go\<close>): lowering a cap is
  immediate, raising it waits 48 hours. One clock reading serves a whole operation.
\<close>

section \<open>Data\<close>

record spend_limits =
  sl_AccountID :: string
  sl_DailyCap :: int
  sl_WeeklyCap :: int
  sl_MonthlyCap :: int
  sl_CoolingOff :: bool
  sl_CoolingOffUntil :: time
  sl_PendingDailyCap :: int
  sl_PendingWeeklyCap :: int
  sl_PendingMonthlyCap :: int
  sl_PendingEffectiveAt :: time

definition raiseDelay :: duration where "raiseDelay = 48 * hour"

type_synonym spend_limits_repo = "(string \<times> spend_limits) list"

definition NewMemSpendLimitsRepo :: spend_limits_repo where "NewMemSpendLimitsRepo = []"

text \<open>The zero value of the struct, with the account's ID.\<close>

definition no_limits :: "string \<Rightarrow> spend_limits" where
  "no_limits accountID = \<lparr>sl_AccountID = accountID, sl_DailyCap = 0, sl_WeeklyCap = 0, sl_MonthlyCap = 0,
     sl_CoolingOff = False, sl_CoolingOffUntil = 0, sl_PendingDailyCap = 0, sl_PendingWeeklyCap = 0,
     sl_PendingMonthlyCap = 0, sl_PendingEffectiveAt = 0\<rparr>"

definition GetLimits :: "spend_limits_repo \<Rightarrow> string \<Rightarrow> spend_limits" where
  "GetLimits r accountID = (case map_of r accountID of Some l \<Rightarrow> l | None \<Rightarrow> no_limits accountID)"

definition SetLimits :: "spend_limits_repo \<Rightarrow> spend_limits \<Rightarrow> spend_limits_repo" where
  "SetLimits r limits = AList.update (sl_AccountID limits) limits r"

section \<open>Changing a cap\<close>

definition applyOneCap :: "int \<Rightarrow> int \<Rightarrow> int \<Rightarrow> int \<times> int" where
  "applyOneCap current pending requested =
     (if requested = 0 \<or> requested = current then (current, pending)
      else if current = 0 \<or> requested < current then (requested, 0)
      else (current, requested))"

definition resolvePendingIfDue :: "spend_limits \<Rightarrow> time \<Rightarrow> spend_limits" where
  "resolvePendingIfDue l now =
     (if IsZero (sl_PendingEffectiveAt l) \<or> Before now (sl_PendingEffectiveAt l) then l
      else
        (let l = (if sl_PendingDailyCap l \<noteq> 0
               then l\<lparr>sl_DailyCap := sl_PendingDailyCap l, sl_PendingDailyCap := 0\<rparr> else l);
             l = (if sl_PendingWeeklyCap l \<noteq> 0
               then l\<lparr>sl_WeeklyCap := sl_PendingWeeklyCap l, sl_PendingWeeklyCap := 0\<rparr> else l);
             l = (if sl_PendingMonthlyCap l \<noteq> 0
               then l\<lparr>sl_MonthlyCap := sl_PendingMonthlyCap l, sl_PendingMonthlyCap := 0\<rparr> else l)
         in l\<lparr>sl_PendingEffectiveAt := 0\<rparr>))"

definition ResolvePending :: "spend_limits \<Rightarrow> time \<Rightarrow> spend_limits" where
  "ResolvePending l now = resolvePendingIfDue l now"

definition ApplyCapChange :: "spend_limits \<Rightarrow> int \<Rightarrow> int \<Rightarrow> int \<Rightarrow> time \<Rightarrow> spend_limits" where
  "ApplyCapChange current newDaily newWeekly newMonthly now =
     (let next = resolvePendingIfDue current now;
          d = applyOneCap (sl_DailyCap next) (sl_PendingDailyCap next) newDaily;
          w = applyOneCap (sl_WeeklyCap next) (sl_PendingWeeklyCap next) newWeekly;
          m = applyOneCap (sl_MonthlyCap next) (sl_PendingMonthlyCap next) newMonthly;
          next = next\<lparr>sl_DailyCap := fst d, sl_PendingDailyCap := snd d,
                      sl_WeeklyCap := fst w, sl_PendingWeeklyCap := snd w,
                      sl_MonthlyCap := fst m, sl_PendingMonthlyCap := snd m\<rparr>
      in if sl_PendingDailyCap next \<noteq> 0 \<or> sl_PendingWeeklyCap next \<noteq> 0 \<or> sl_PendingMonthlyCap next \<noteq> 0
         then next\<lparr>sl_PendingEffectiveAt := now + raiseDelay\<rparr>
         else next\<lparr>sl_PendingEffectiveAt := 0\<rparr>)"

text \<open>The decoded body of \<open>PATCH /me/spend-limits\<close>; an absent field is zero or \<open>None\<close>.\<close>

record limits_request =
  lr_DailyCap :: int
  lr_WeeklyCap :: int
  lr_MonthlyCap :: int
  lr_CoolingOff :: "bool option"

definition UpdateSpendLimits :: "spend_limits_repo \<Rightarrow> time \<Rightarrow> string \<Rightarrow> limits_request \<Rightarrow>
    spend_limits \<times> spend_limits_repo" where
  "UpdateSpendLimits r now accountID req =
     (let updated = ApplyCapChange (GetLimits r accountID)
            (lr_DailyCap req) (lr_WeeklyCap req) (lr_MonthlyCap req) now;
          updated = (case lr_CoolingOff req of
              None \<Rightarrow> updated
            | Some True \<Rightarrow> updated\<lparr>sl_CoolingOff := True, sl_CoolingOffUntil := now + 24 * hour\<rparr>
            | Some False \<Rightarrow> updated\<lparr>sl_CoolingOff := False, sl_CoolingOffUntil := 0\<rparr>)
      in (updated, SetLimits r updated))"

definition GetSpendLimits :: "spend_limits_repo \<Rightarrow> time \<Rightarrow> string \<Rightarrow> spend_limits" where
  "GetSpendLimits r now accountID = ResolvePending (GetLimits r accountID) now"

lemmas limits_defs = ResolvePending_def resolvePendingIfDue_def ApplyCapChange_def applyOneCap_def
  Let_def time_defs

section \<open>Raising waits\<close>

text \<open>The three caps, read uniformly.\<close>

datatype cap_period = Daily | Weekly | Monthly

fun cap_of :: "cap_period \<Rightarrow> spend_limits \<Rightarrow> int" where
  "cap_of Daily l = sl_DailyCap l"
| "cap_of Weekly l = sl_WeeklyCap l"
| "cap_of Monthly l = sl_MonthlyCap l"

text \<open>A change, and a run of changes on one row.\<close>

type_synonym cap_change = "time \<times> int \<times> int \<times> int"

primrec apply_changes :: "spend_limits \<Rightarrow> cap_change list \<Rightarrow> spend_limits" where
  "apply_changes l [] = l"
| "apply_changes l (c # cs) =
     apply_changes (ApplyCapChange l (fst (snd c)) (fst (snd (snd c))) (snd (snd (snd c))) (fst c)) cs"

lemma ApplyCapChange_PendingEffectiveAt:
  "sl_PendingEffectiveAt (ApplyCapChange l d w m t) \<in> {0, t + raiseDelay}"
  by (simp add: ApplyCapChange_def Let_def)

text \<open>What is in force just after a change: a requested value below the cap, or the old cap.\<close>

lemma ApplyCapChange_cap:
  "cap_of p (ApplyCapChange l d w m t) =
     (let c = cap_of p (ResolvePending l t); n = (case p of Daily \<Rightarrow> d | Weekly \<Rightarrow> w | Monthly \<Rightarrow> m)
      in if n \<noteq> 0 \<and> (c = 0 \<or> n < c) then n else c)"
  by (cases p) (auto simp: ApplyCapChange_def ResolvePending_def Let_def applyOneCap_def)

lemma resolve_not_due:
  "sl_PendingEffectiveAt l = 0 \<or> now < sl_PendingEffectiveAt l \<Longrightarrow> ResolvePending l now = l"
  by (auto simp: ResolvePending_def resolvePendingIfDue_def time_defs)

lemma caps_fall:
  assumes "\<forall>(t, d, w, m) \<in> set cs. t0 \<le> t \<and> t < t0 + raiseDelay \<and> 0 \<le> d \<and> 0 \<le> w \<and> 0 \<le> m"
    and "sl_PendingEffectiveAt l = 0 \<or> t0 + raiseDelay \<le> sl_PendingEffectiveAt l"
    and "t0 \<le> now" and "now < t0 + raiseDelay" and "0 < cap_of p l"
  shows "0 < cap_of p (ResolvePending (apply_changes l cs) now) \<and>
    cap_of p (ResolvePending (apply_changes l cs) now) \<le> cap_of p l"
  using assms(1,2,5)
proof (induction cs arbitrary: l)
  case Nil
  then have "ResolvePending l now = l" using assms(4) by (intro resolve_not_due) auto
  then show ?case using Nil by simp
next
  case (Cons c cs)
  obtain t d w m where c: "c = (t, d, w, m)" by (cases c)
  have t: "t0 \<le> t" "t < t0 + raiseDelay" "0 \<le> d" "0 \<le> w" "0 \<le> m" using Cons.prems(1) by (auto simp: c)
  let ?l = "ApplyCapChange l d w m t"
  have "ResolvePending l t = l" using Cons.prems(2) t(2) by (intro resolve_not_due) auto
  then have cap: "0 < cap_of p ?l \<and> cap_of p ?l \<le> cap_of p l"
    using Cons.prems(3) t by (cases p) (auto simp: ApplyCapChange_cap Let_def)
  have eff: "sl_PendingEffectiveAt ?l = 0 \<or> t0 + raiseDelay \<le> sl_PendingEffectiveAt ?l"
    using ApplyCapChange_PendingEffectiveAt [of l d w m t] t(1) by auto
  have rest: "\<forall>(t, d, w, m) \<in> set cs. t0 \<le> t \<and> t < t0 + raiseDelay \<and> 0 \<le> d \<and> 0 \<le> w \<and> 0 \<le> m"
    using Cons.prems(1) by simp
  from Cons.IH [OF rest eff] cap show ?case by (auto simp: c)
qed

text \<open>A raised cap really waits 48 hours. Take any row at the moment of a change, with a cap in
  force. Whatever further non-negative changes are requested in the 48 hours after it, the cap in
  force at any moment of those 48 hours is still set and not above the one in force when they
  began: repeated requests cannot shorten the wait.\<close>

theorem raise_waits_48h:
  assumes "0 \<le> d" and "0 \<le> w" and "0 \<le> m"
    and "\<forall>(t, d, w, m) \<in> set cs. t0 \<le> t \<and> t < t0 + raiseDelay \<and> 0 \<le> d \<and> 0 \<le> w \<and> 0 \<le> m"
    and "t0 \<le> now" and "now < t0 + raiseDelay" and "0 < cap_of p (ResolvePending l t0)"
  shows "0 < cap_of p (ResolvePending (apply_changes l ((t0, d, w, m) # cs)) now) \<and>
    cap_of p (ResolvePending (apply_changes l ((t0, d, w, m) # cs)) now) \<le> cap_of p (ResolvePending l t0)"
proof -
  let ?l = "ApplyCapChange l d w m t0"
  have cap: "0 < cap_of p ?l \<and> cap_of p ?l \<le> cap_of p (ResolvePending l t0)"
    using assms(1-3,7) by (cases p) (auto simp: ApplyCapChange_cap Let_def)
  moreover have "sl_PendingEffectiveAt ?l = 0 \<or> t0 + raiseDelay \<le> sl_PendingEffectiveAt ?l"
    using ApplyCapChange_PendingEffectiveAt [of l d w m t0] by auto
  ultimately show ?thesis using caps_fall [OF assms(4) _ assms(5,6), of ?l p] by auto
qed

lemma raise_waits_48h_witness:
  "cap_of Daily (ResolvePending (apply_changes ((no_limits ''u'')\<lparr>sl_DailyCap := 100\<rparr>)
     [(5, 900, 0, 0), (6, 50, 0, 0), (hour, 800, 0, 0)]) (47 * hour)) \<le> 100"
  using raise_waits_48h [of 900 0 0 "[(6, 50, 0, 0), (hour, 800, 0, 0)]" 5 "47 * hour" Daily
      "(no_limits ''u'')\<lparr>sl_DailyCap := 100\<rparr>"]
  by (simp add: no_limits_def raiseDelay_def ResolvePending_def resolvePendingIfDue_def time_defs
      del: apply_changes.simps)

text \<open>A requested change that is not a raise: the code compares, it does not look at the sign.\<close>

lemma negative_request_lowers:
  "n < 0 \<Longrightarrow> 0 \<le> c \<Longrightarrow> applyOneCap c p n = (n, 0)"
  by (simp add: applyOneCap_def)

lemma sl_AccountID_resolve [simp]: "sl_AccountID (resolvePendingIfDue l now) = sl_AccountID l"
  by (simp add: resolvePendingIfDue_def Let_def)

lemma sl_AccountID_change [simp]: "sl_AccountID (ApplyCapChange l d w m now) = sl_AccountID l"
  by (simp add: ApplyCapChange_def Let_def)

lemma UpdateSpendLimits_row:
  assumes "UpdateSpendLimits r now a req = (l, r')" and "\<And>l. map_of r a = Some l \<Longrightarrow> sl_AccountID l = a"
  shows "GetLimits r' a = l \<and> sl_AccountID l = a"
proof -
  have "sl_AccountID (GetLimits r a) = a"
    using assms(2) by (auto simp: GetLimits_def no_limits_def split: option.split)
  then have "sl_AccountID l = a"
    using assms(1) by (auto simp: UpdateSpendLimits_def Let_def split: option.splits bool.splits)
  moreover have "r' = SetLimits r l" using assms(1) by (auto simp: UpdateSpendLimits_def Let_def)
  ultimately show ?thesis by (simp add: GetLimits_def SetLimits_def)
qed

end
