(* ===== verification/Orders.thy ===== *)
theory Orders
  imports Ledger
begin

text \<open>
  Coin-purchase orders (\<open>ledger/order.go\<close>) and their in-memory store
  (\<open>ledger/mem_orders.go\<close>), with the invariant that order IDs are issued once, that the
  token index points to orders that carry the token, and that what an order is for never changes.
\<close>

section \<open>Data\<close>

datatype order_status =
    OrderCreated
  | OrderPendingPayment
  | OrderPaid
  | OrderCrediting
  | OrderCredited
  | OrderFailed
  | OrderRefunded

text \<open>The constants' values, which a client's filter is compared with.\<close>

fun status_string :: "order_status \<Rightarrow> string" where
  "status_string OrderCreated = ''created''"
| "status_string OrderPendingPayment = ''pending_payment''"
| "status_string OrderPaid = ''paid''"
| "status_string OrderCrediting = ''crediting''"
| "status_string OrderCredited = ''credited''"
| "status_string OrderFailed = ''failed''"
| "status_string OrderRefunded = ''refunded''"

definition NonTerminalOrderStatuses :: "order_status list" where
  "NonTerminalOrderStatuses = [OrderPendingPayment, OrderPaid, OrderCrediting]"

record product =
  p_SKU :: string
  p_Coins :: int
  p_PriceMinor :: int
  p_PriceCurrency :: string

definition Products :: "product list" where
  "Products =
     [\<lparr>p_SKU = ''coins_100'', p_Coins = 100, p_PriceMinor = 99, p_PriceCurrency = ''USD''\<rparr>,
      \<lparr>p_SKU = ''coins_500'', p_Coins = 500, p_PriceMinor = 499, p_PriceCurrency = ''USD''\<rparr>,
      \<lparr>p_SKU = ''coins_2000'', p_Coins = 2000, p_PriceMinor = 1999, p_PriceCurrency = ''USD''\<rparr>]"

definition ProductBySKU :: "string \<Rightarrow> product option" where
  "ProductBySKU sku = find (\<lambda>p. p_SKU p = sku) Products"

record order =
  o_ID :: string
  o_AccountID :: string
  o_SKU :: string
  o_Coins :: int
  o_PriceMinor :: int
  o_PriceCurrency :: string
  o_Platform :: string
  o_PurchaseToken :: string
  o_TokenHash :: string
  o_Status :: order_status
  o_StatusReason :: string
  o_LedgerTransactionID :: string
  o_CreatedAt :: time
  o_UpdatedAt :: time

definition PlatformDevStore :: string where "PlatformDevStore = ''dev_store''"
definition PlatformGooglePlay :: string where "PlatformGooglePlay = ''google_play''"
definition PlatformStripe :: string where "PlatformStripe = ''stripe''"

lemmas platform_defs = PlatformDevStore_def PlatformGooglePlay_def PlatformStripe_def

datatype order_error =
    ErrOrderNotFound
  | ErrUnknownSKU
  | ErrTokenAlreadyUsed
  | ErrOrderNotOwned
  | ErrOrderTerminal
  | ErrCoolingOff
  | ErrSpendLimitExceeded
  | OrderInvalidToken  \<comment> \<open>\<open>store.ErrInvalidToken\<close>\<close>
  | OrderStoreError string  \<comment> \<open>any other error of the verifier\<close>
  | OrderLedgerError ledger_error

section \<open>The in-memory store\<close>

record mem_orders =
  mo_byID :: "(string \<times> order) list"
  mo_byToken :: "(string \<times> string) list"
  mo_byAccount :: "(string \<times> string list) list"
  mo_seq :: nat

definition NewMemOrderRepo :: mem_orders where
  "NewMemOrderRepo = \<lparr>mo_byID = [], mo_byToken = [], mo_byAccount = [], mo_seq = 0\<rparr>"

text \<open>\<open>r.byAccount[accountID]\<close>: an absent key reads as the nil slice.\<close>

definition account_ids :: "mem_orders \<Rightarrow> string \<Rightarrow> string list" where
  "account_ids r accountID = (case map_of (mo_byAccount r) accountID of None \<Rightarrow> [] | Some ids \<Rightarrow> ids)"

definition order_name :: "nat \<Rightarrow> string" where
  "order_name n = ''order-'' @ itoaLedger (int n)"

definition MemCreateOrder :: "mem_orders \<Rightarrow> time \<Rightarrow> string \<Rightarrow> string \<Rightarrow> string \<Rightarrow>
    (order_error + order) \<times> mem_orders" where
  "MemCreateOrder r now accountID sku platform =
     (case ProductBySKU sku of
        None \<Rightarrow> (Inl ErrUnknownSKU, r)
      | Some p \<Rightarrow>
          (let platform = (if platform = [] then PlatformDevStore else platform);
               o' = \<lparr>o_ID = order_name (Suc (mo_seq r)), o_AccountID = accountID, o_SKU = sku,
                 o_Coins = p_Coins p, o_PriceMinor = p_PriceMinor p, o_PriceCurrency = p_PriceCurrency p,
                 o_Platform = platform, o_PurchaseToken = [], o_TokenHash = [], o_Status = OrderCreated,
                 o_StatusReason = [], o_LedgerTransactionID = [], o_CreatedAt = now, o_UpdatedAt = now\<rparr>
           in (Inr o', r\<lparr>mo_seq := Suc (mo_seq r),
                 mo_byID := AList.update (o_ID o') o' (mo_byID r),
                 mo_byAccount := AList.update accountID (account_ids r accountID @ [o_ID o']) (mo_byAccount r)\<rparr>)))"

definition MemGetOrder :: "mem_orders \<Rightarrow> string \<Rightarrow> order_error + order" where
  "MemGetOrder r i = (case map_of (mo_byID r) i of None \<Rightarrow> Inl ErrOrderNotFound | Some o' \<Rightarrow> Inr o')"

text \<open>The code dereferences \<open>r.byID[id]\<close> unchecked; the invariant below rules the nil out.\<close>

definition FindByTokenHash :: "mem_orders \<Rightarrow> string \<Rightarrow> order option" where
  "FindByTokenHash r h = Option.bind (map_of (mo_byToken r) h) (map_of (mo_byID r))"

definition MemListOrders :: "mem_orders \<Rightarrow> string \<Rightarrow> string \<Rightarrow> order list" where
  "MemListOrders r accountID status =
     filter (\<lambda>o'. status = [] \<or> status_string (o_Status o') = status)
       (List.map_filter (map_of (mo_byID r)) (account_ids r accountID))"

text \<open>Go ranges over the map in an arbitrary order; here, the order of the association list.\<close>

definition ListNonTerminal :: "mem_orders \<Rightarrow> order list" where
  "ListNonTerminal r = filter (\<lambda>o'. o_Status o' \<in> set NonTerminalOrderStatuses) (map snd (mo_byID r))"

text \<open>\<open>UpdateOrder\<close> stamps the caller's record too, so it is returned.\<close>

definition MemUpdateOrder :: "mem_orders \<Rightarrow> time \<Rightarrow> order \<Rightarrow> (order_error + order) \<times> mem_orders" where
  "MemUpdateOrder r now o' =
     (case map_of (mo_byID r) (o_ID o') of
        None \<Rightarrow> (Inl ErrOrderNotFound, r)
      | Some _ \<Rightarrow>
          (let o' = o'\<lparr>o_UpdatedAt := now\<rparr>
           in (Inr o', r\<lparr>mo_byID := AList.update (o_ID o') o' (mo_byID r),
                mo_byToken := (if o_TokenHash o' \<noteq> [] then AList.update (o_TokenHash o') (o_ID o') (mo_byToken r)
                               else mo_byToken r)\<rparr>)))"

section \<open>What the store keeps\<close>

lemma order_name_inj: "order_name m = order_name n \<longleftrightarrow> m = n"
  by (simp add: order_name_def itoaLedger_inj)

text \<open>The part of an order that is fixed when it is created.\<close>

definition purchase_of :: "order \<Rightarrow> string \<times> string \<times> string \<times> int \<times> int \<times> string \<times> string \<times> time" where
  "purchase_of o' = (o_ID o', o_AccountID o', o_SKU o', o_Coins o', o_PriceMinor o', o_PriceCurrency o',
     o_Platform o', o_CreatedAt o')"

definition order_ok :: "mem_orders \<Rightarrow> string \<Rightarrow> order \<Rightarrow> bool" where
  "order_ok r i o' \<longleftrightarrow> o_ID o' = i \<and> (\<exists>n \<le> mo_seq r. i = order_name n) \<and>
     0 < o_Coins o' \<and> o_Coins o' \<le> 2000 \<and> i \<in> set (account_ids r (o_AccountID o'))"

definition account_ok :: "mem_orders \<Rightarrow> string \<Rightarrow> bool" where
  "account_ok r a \<longleftrightarrow> distinct (account_ids r a) \<and>
     (\<forall>i \<in> set (account_ids r a). \<exists>o'. map_of (mo_byID r) i = Some o' \<and> o_AccountID o' = a)"

definition orders_ok :: "mem_orders \<Rightarrow> bool" where
  "orders_ok r \<longleftrightarrow> wf_map (mo_byID r) \<and> wf_map (mo_byToken r) \<and>
     (\<forall>i o'. map_of (mo_byID r) i = Some o' \<longrightarrow> order_ok r i o') \<and>
     (\<forall>h i. map_of (mo_byToken r) h = Some i \<longrightarrow> map_of (mo_byID r) i \<noteq> None) \<and>
     (\<forall>a. account_ok r a)"

text \<open>\<open>knows r o\<close>: \<open>o\<close> is a copy, current or stale, of an order of the store.\<close>

definition knows :: "mem_orders \<Rightarrow> order \<Rightarrow> bool" where
  "knows r o' \<longleftrightarrow> (\<exists>p. map_of (mo_byID r) (o_ID o') = Some p \<and> purchase_of p = purchase_of o')"

lemma ProductBySKU_coins: "ProductBySKU sku = Some p \<Longrightarrow> 0 < p_Coins p \<and> p_Coins p \<le> 2000"
  by (auto simp: ProductBySKU_def Products_def split: if_splits)

lemma orders_ok_new: "orders_ok NewMemOrderRepo"
  by (simp add: orders_ok_def account_ok_def account_ids_def NewMemOrderRepo_def)

lemma orders_okD:
  assumes "orders_ok r"
  shows "wf_map (mo_byID r)" "wf_map (mo_byToken r)"
    "map_of (mo_byID r) i = Some o' \<Longrightarrow> order_ok r i o'"
    "map_of (mo_byToken r) h = Some i \<Longrightarrow> map_of (mo_byID r) i \<noteq> None"
    "distinct (account_ids r a)"
    "i \<in> set (account_ids r a) \<Longrightarrow> \<exists>o'. map_of (mo_byID r) i = Some o' \<and> o_AccountID o' = a"
  using assms unfolding orders_ok_def account_ok_def by blast+

lemma fresh_order_name:
  assumes "orders_ok r"
  shows "map_of (mo_byID r) (order_name (Suc (mo_seq r))) = None"
proof (rule ccontr)
  assume "map_of (mo_byID r) (order_name (Suc (mo_seq r))) \<noteq> None"
  then obtain q where "map_of (mo_byID r) (order_name (Suc (mo_seq r))) = Some q" by blast
  from orders_okD(3) [OF assms this] show False by (simp add: order_ok_def order_name_inj)
qed

lemma MemCreateOrder_ok:
  assumes inv: "orders_ok r" and c: "MemCreateOrder r now a sku platform = (Inr o', r')"
  shows "orders_ok r'" "map_of (mo_byID r') = (map_of (mo_byID r))(o_ID o' \<mapsto> o')"
    "map_of (mo_byID r) (o_ID o') = None" "mo_byToken r' = mo_byToken r"
    "account_ids r' = (account_ids r)(a := account_ids r a @ [o_ID o'])"
proof -
  let ?n = "order_name (Suc (mo_seq r))"
  obtain p where p: "ProductBySKU sku = Some p" using c by (auto simp: MemCreateOrder_def split: option.splits)
  have o': "o_ID o' = ?n" "o_AccountID o' = a" "o_Coins o' = p_Coins p"
    and r': "r' = r\<lparr>mo_seq := Suc (mo_seq r), mo_byID := AList.update ?n o' (mo_byID r),
       mo_byAccount := AList.update a (account_ids r a @ [?n]) (mo_byAccount r)\<rparr>"
    using c p by (auto simp: MemCreateOrder_def Let_def)
  have new: "map_of (mo_byID r) ?n = None" using fresh_order_name [OF inv] .
  then show "map_of (mo_byID r) (o_ID o') = None" by (simp add: o')
  show byID: "map_of (mo_byID r') = (map_of (mo_byID r))(o_ID o' \<mapsto> o')"
    and tok: "mo_byToken r' = mo_byToken r"
    by (simp_all add: r' o')
  show ids: "account_ids r' = (account_ids r)(a := account_ids r a @ [o_ID o'])"
    by (simp add: account_ids_def r' o' fun_eq_iff)
  have seq: "mo_seq r' = Suc (mo_seq r)" by (simp add: r')
  have "order_ok r' i q" if q: "map_of (mo_byID r') i = Some q" for i q
  proof (cases "i = o_ID o'")
    case True
    then have "q = o'" using q by (simp add: byID)
    then show ?thesis
      using True ProductBySKU_coins [OF p] by (auto simp: order_ok_def seq ids o')
  next
    case False
    then have "order_ok r i q" using q by (intro orders_okD(3) [OF inv]) (simp add: byID)
    then show ?thesis by (auto simp: order_ok_def seq ids intro: le_SucI)
  qed
  moreover have "account_ok r' b" for b
  proof -
    have "i \<noteq> ?n" if "i \<in> set (account_ids r b)" for i b using orders_okD(6) [OF inv that] new by auto
    then show ?thesis
      using orders_okD(5,6) [OF inv] by (auto simp: account_ok_def byID ids o')
  qed
  ultimately show "orders_ok r'"
    using orders_okD(1,2,4) [OF inv] unfolding orders_ok_def by (auto simp: r')
qed

lemma MemUpdateOrder_cases:
  obtains (missing) "map_of (mo_byID r) (o_ID o') = None"
      "MemUpdateOrder r now o' = (Inl ErrOrderNotFound, r)"
  | (stored) r' where "map_of (mo_byID r) (o_ID o') \<noteq> None"
      "MemUpdateOrder r now o' = (Inr (o'\<lparr>o_UpdatedAt := now\<rparr>), r')"
      "map_of (mo_byID r') = (map_of (mo_byID r))(o_ID o' \<mapsto> o'\<lparr>o_UpdatedAt := now\<rparr>)"
      "map_of (mo_byToken r') = (if o_TokenHash o' = [] then map_of (mo_byToken r)
         else (map_of (mo_byToken r))(o_TokenHash o' \<mapsto> o_ID o'))"
      "mo_byAccount r' = mo_byAccount r" "mo_seq r' = mo_seq r"
      "wf_map (mo_byID r) \<longrightarrow> wf_map (mo_byID r')" "wf_map (mo_byToken r) \<longrightarrow> wf_map (mo_byToken r')"
  by (cases "map_of (mo_byID r) (o_ID o')") (auto simp: MemUpdateOrder_def Let_def)

lemma purchase_of_simps [simp]:
  "purchase_of (o'\<lparr>o_UpdatedAt := t\<rparr>) = purchase_of o'"
  "purchase_of (o'\<lparr>o_Status := s\<rparr>) = purchase_of o'"
  "purchase_of (o'\<lparr>o_StatusReason := m\<rparr>) = purchase_of o'"
  "purchase_of (o'\<lparr>o_PurchaseToken := k\<rparr>) = purchase_of o'"
  "purchase_of (o'\<lparr>o_TokenHash := h\<rparr>) = purchase_of o'"
  "purchase_of (o'\<lparr>o_LedgerTransactionID := i\<rparr>) = purchase_of o'"
  by (simp_all add: purchase_of_def)

lemma knows_cong: "purchase_of o1 = purchase_of o2 \<Longrightarrow> knows r o1 = knows r o2"
  by (auto simp: knows_def purchase_of_def)

lemma MemUpdateOrder_ok:
  assumes inv: "orders_ok r" and k: "knows r o'" and u: "MemUpdateOrder r now o' = (res, r')"
  shows "orders_ok r'" "res = Inr (o'\<lparr>o_UpdatedAt := now\<rparr>)"
    "map_of (mo_byID r') = (map_of (mo_byID r))(o_ID o' \<mapsto> o'\<lparr>o_UpdatedAt := now\<rparr>)"
    "account_ids r' = account_ids r"
proof -
  let ?o = "o'\<lparr>o_UpdatedAt := now\<rparr>"
  obtain p where p: "map_of (mo_byID r) (o_ID o') = Some p" "purchase_of p = purchase_of o'"
    using k by (auto simp: knows_def)
  obtain s where s: "MemUpdateOrder r now o' = (Inr ?o, s)"
      "map_of (mo_byID s) = (map_of (mo_byID r))(o_ID o' \<mapsto> ?o)"
      "map_of (mo_byToken s) = (if o_TokenHash o' = [] then map_of (mo_byToken r)
         else (map_of (mo_byToken r))(o_TokenHash o' \<mapsto> o_ID o'))"
      "mo_byAccount s = mo_byAccount r" "mo_seq s = mo_seq r"
      "wf_map (mo_byID r) \<longrightarrow> wf_map (mo_byID s)" "wf_map (mo_byToken r) \<longrightarrow> wf_map (mo_byToken s)"
    using p(1) by (cases rule: MemUpdateOrder_cases [of r o' now]) auto
  have eq: "res = Inr ?o" "r' = s" using s(1) u by simp_all
  show "res = Inr ?o" "map_of (mo_byID r') = (map_of (mo_byID r))(o_ID o' \<mapsto> ?o)"
    using eq s(2) by simp_all
  have ids: "account_ids s = account_ids r" using s(4) by (simp add: account_ids_def fun_eq_iff)
  then show "account_ids r' = account_ids r" by (simp add: eq)
  have "order_ok r' i q" if q: "map_of (mo_byID r') i = Some q" for i q
  proof (cases "i = o_ID o'")
    case True
    then have "order_ok r i p" using p(1) by (intro orders_okD(3) [OF inv]) simp
    then show ?thesis using q p(2) True by (auto simp: order_ok_def ids eq s purchase_of_def)
  next
    case False
    then have "order_ok r i q" using q by (intro orders_okD(3) [OF inv]) (simp add: eq s)
    then show ?thesis by (simp add: order_ok_def ids eq s)
  qed
  moreover have "account_ok r' a" for a
    unfolding account_ok_def eq ids using orders_okD(5,6) [OF inv] p
    by (fastforce simp: s purchase_of_def)
  moreover have "map_of (mo_byToken r') h = Some i \<Longrightarrow> map_of (mo_byID r') i \<noteq> None" for h i
    using orders_okD(4) [OF inv, of h i] p(1) by (auto simp: eq s split: if_splits)
  ultimately show "orders_ok r'"
    using orders_okD(1,2) [OF inv] s(6,7) unfolding orders_ok_def eq by blast
qed

lemma knows_update:
  assumes "knows r o'" and "MemUpdateOrder r now o1 = (res, r')" and "knows r o1"
  shows "knows r' o'"
  using assms(2)
proof (cases rule: MemUpdateOrder_cases [of r o1 now])
  case (stored s)
  then show ?thesis using assms by (auto simp: knows_def purchase_of_def)
qed (use assms in auto)

lemma knows_create:
  "orders_ok r \<Longrightarrow> MemCreateOrder r now a sku platform = (Inr o1, r') \<Longrightarrow> knows r o' \<Longrightarrow> knows r' o'"
  using MemCreateOrder_ok [of r now a sku platform o1 r'] by (auto simp: knows_def)

lemma knows_get: "orders_ok r \<Longrightarrow> map_of (mo_byID r) i = Some o' \<Longrightarrow> knows r o' \<and> o_ID o' = i"
  using orders_okD(3) [of r i o'] by (simp add: knows_def order_ok_def)

text \<open>The token index never hits a missing order: \<open>FindByTokenHash\<close> does not panic.\<close>

lemma FindByTokenHash_no_nil:
  assumes "orders_ok r" and "map_of (mo_byToken r) h = Some i"
  shows "\<exists>o'. FindByTokenHash r h = Some o' \<and> o_ID o' = i"
proof -
  obtain o' where "map_of (mo_byID r) i = Some o'" using orders_okD(4) [OF assms] by blast
  then show ?thesis
    using assms(2) orders_okD(3) [OF assms(1), of i o'] by (simp add: FindByTokenHash_def order_ok_def)
qed

lemma MemListOrders_all:
  assumes "orders_ok r"
  shows "o' \<in> set (MemListOrders r a []) \<longleftrightarrow> map_of (mo_byID r) (o_ID o') = Some o' \<and> o_AccountID o' = a"
proof
  assume "o' \<in> set (MemListOrders r a [])"
  then obtain i where i: "i \<in> set (account_ids r a)" "map_of (mo_byID r) i = Some o'"
    by (auto simp: MemListOrders_def map_filter_def)
  then show "map_of (mo_byID r) (o_ID o') = Some o' \<and> o_AccountID o' = a"
    using orders_okD(3) [OF assms i(2)] orders_okD(6) [OF assms i(1)] by (auto simp: order_ok_def)
next
  assume o': "map_of (mo_byID r) (o_ID o') = Some o' \<and> o_AccountID o' = a"
  then have "o_ID o' \<in> set (account_ids r a)"
    using orders_okD(3) [OF assms, of "o_ID o'" o'] by (auto simp: order_ok_def)
  then show "o' \<in> set (MemListOrders r a [])"
    using o' by (force simp: MemListOrders_def map_filter_def)
qed

end
