(* ===== verification/Stores.thy ===== *)
theory Stores
  imports Orders
begin

text \<open>
  Purchase verification (\<open>ledger/store\<close>): the dispatch by platform, the deterministic
  development verifier, the checks made on Stripe's and Google Play's answers, and the wiring of
  the three in \<open>feed/cmd/api/main.go\<close>. What the stores answer is an argument: the HTTP
  exchange, JSON decoding and the signing of the OAuth assertion are not modelled.
\<close>

section \<open>The interface\<close>

text \<open>The \<open>error\<close> of \<open>Verify\<close>: \<open>Confirmed\<close> is nil.\<close>

datatype verify_outcome =
    Confirmed
  | VerifyPending  \<comment> \<open>\<open>store.ErrPending\<close>\<close>
  | VerifyInvalid  \<comment> \<open>\<open>store.ErrInvalidToken\<close>\<close>
  | VerifyError string

record purchase_expectation =
  pe_OrderID :: string
  pe_PriceMinor :: int
  pe_PriceCurrency :: string
  pe_SKU :: string
  pe_AccountID :: string

type_synonym 'v verifier =
  "'v \<Rightarrow> time \<Rightarrow> string \<Rightarrow> string \<Rightarrow> purchase_expectation \<Rightarrow> verify_outcome \<times> 'v"

definition MultiVerify :: "(string \<times> 'v verifier) list \<Rightarrow> 'v verifier" where
  "MultiVerify byPlatform v now platform purchaseToken expected =
     (case map_of byPlatform platform of
        None \<Rightarrow> (VerifyInvalid, v)
      | Some verify \<Rightarrow> verify v now platform purchaseToken expected)"

section \<open>The development verifier\<close>

type_synonym dev_attempts = "(string \<times> int) list"

definition DevVerify :: "dev_attempts verifier" where
  "DevVerify attempts now platform purchaseToken expected =
     (if HasPrefix purchaseToken ''fail-'' then (VerifyInvalid, attempts)
      else if HasPrefix purchaseToken ''pending-''
      then (let attempts = AList.update purchaseToken (add64 (getz attempts purchaseToken) 1) attempts;
                n = getz attempts purchaseToken
            in if n < 3 then (VerifyPending, attempts) else (Confirmed, attempts))
      else (Confirmed, attempts))"

section \<open>Stripe\<close>

record checkout_session =
  cs_ID :: string
  cs_PaymentStatus :: string
  cs_Status :: string
  cs_AmountTotal :: int
  cs_Currency :: string
  cs_ClientReferenceID :: string

text \<open>What the exchange yields: the request may not build, the transport may fail, and a reply
  has a status code, the error object of a non-200 body and the decoded 200 body.\<close>

datatype stripe_answer =
    StripeNoRequest string
  | StripeNoReply
  | StripeReply int string string "checkout_session option"

text \<open>\<open>strings.EqualFold\<close> on ASCII text, as currency codes are.\<close>

definition EqualFold :: "string \<Rightarrow> string \<Rightarrow> bool" where
  "EqualFold s t \<longleftrightarrow> map lower_ascii s = map lower_ascii t"

definition StripeVerify :: "(string \<Rightarrow> stripe_answer) \<Rightarrow> string \<Rightarrow> string \<Rightarrow> purchase_expectation \<Rightarrow> verify_outcome" where
  "StripeVerify ask platform purchaseToken expected =
     (if platform \<noteq> ''stripe'' then VerifyError ''StripeVerifier cannot verify platform''
      else if purchaseToken = [] then VerifyInvalid
      else
        (case ask (''/v1/checkout/sessions/'' @ purchaseToken) of
           StripeNoRequest err \<Rightarrow> VerifyError err
         | StripeNoReply \<Rightarrow> VerifyPending
         | StripeReply status errType errMessage body \<Rightarrow>
             if status = 404 then VerifyInvalid
             else if status \<noteq> 200
             then (if errType = ''invalid_request_error'' then VerifyInvalid else VerifyError errMessage)
             else
               (case body of
                  None \<Rightarrow> VerifyError ''could not parse stripe response''
                | Some sess \<Rightarrow>
                    if cs_Status sess = ''open'' then VerifyPending
                    else if cs_Status sess = ''expired'' then VerifyInvalid
                    else if cs_PaymentStatus sess \<noteq> ''paid'' \<and> cs_PaymentStatus sess \<noteq> ''no_payment_required''
                    then VerifyInvalid
                    else if cs_ClientReferenceID sess \<noteq> pe_OrderID expected then VerifyInvalid
                    else if cs_AmountTotal sess \<noteq> pe_PriceMinor expected then VerifyInvalid
                    else if \<not> EqualFold (cs_Currency sess) (pe_PriceCurrency expected) then VerifyInvalid
                    else Confirmed)))"

section \<open>Google Play\<close>

record product_purchase =
  pp_PurchaseState :: int
  pp_ProductID :: string
  pp_OrderID :: string
  pp_ObfuscatedExternalAccountId :: string
  pp_AcknowledgementState :: int

datatype play_answer =
    PlayNoRequest string
  | PlayNoReply
  | PlayReply int "product_purchase option"

text \<open>The cached access token and its expiry. A refresh signs an assertion and posts it; what
  comes back is \<open>None\<close> on any failure, else the token and its lifetime in seconds.\<close>

record play_cache =
  pc_accessToken :: string
  pc_expiresAt :: time

definition getAccessToken :: "(play_cache \<Rightarrow> time \<Rightarrow> (string \<times> int) option) \<Rightarrow> play_cache \<Rightarrow> time \<Rightarrow>
    string option \<times> play_cache" where
  "getAccessToken refresh v now =
     (if pc_accessToken v \<noteq> [] \<and> Before now (pc_expiresAt v - minute) then (Some (pc_accessToken v), v)
      else
        (case refresh v now of
           None \<Rightarrow> (None, v)
         | Some (tok, expiresIn) \<Rightarrow>
             (Some tok, \<lparr>pc_accessToken = tok, pc_expiresAt = now + mul64 expiresIn second\<rparr>)))"

definition PlayVerify :: "(play_cache \<Rightarrow> time \<Rightarrow> (string \<times> int) option) \<Rightarrow>
    (string \<Rightarrow> string \<Rightarrow> string \<Rightarrow> play_answer) \<Rightarrow> play_cache verifier" where
  "PlayVerify refresh ask v now platform purchaseToken expected =
     (if platform \<noteq> ''google_play'' then (VerifyError ''GooglePlayVerifier cannot verify platform'', v)
      else if purchaseToken = [] \<or> pe_SKU expected = [] then (VerifyInvalid, v)
      else
        (case getAccessToken refresh v now of
           (None, v') \<Rightarrow> (VerifyPending, v')
         | (Some accessToken, v') \<Rightarrow>
             (case ask accessToken (pe_SKU expected) purchaseToken of
                PlayNoRequest err \<Rightarrow> (VerifyError err, v')
              | PlayNoReply \<Rightarrow> (VerifyPending, v')
              | PlayReply status body \<Rightarrow>
                  if status = 404 then (VerifyInvalid, v')
                  else if status \<noteq> 200 then (VerifyError ''android publisher returned an error'', v')
                  else
                    (case body of
                       None \<Rightarrow> (VerifyError ''could not parse android publisher response'', v')
                     | Some pp \<Rightarrow>
                         if pp_PurchaseState pp = 2 then (VerifyPending, v')
                         else if pp_PurchaseState pp \<noteq> 0 then (VerifyInvalid, v')
                         else if pp_ProductID pp \<noteq> pe_SKU expected then (VerifyInvalid, v')
                         else if pe_AccountID expected \<noteq> [] \<and> pp_ObfuscatedExternalAccountId pp \<noteq> [] \<and>
                           pp_ObfuscatedExternalAccountId pp \<noteq> pe_AccountID expected then (VerifyInvalid, v')
                         else (Confirmed, v')))))"

section \<open>The wiring\<close>

text \<open>The state of the three verifiers the composition root may create, each with its own
  \<open>DevVerifier\<close> where no vendor account is configured.\<close>

record verifier_state =
  vs_dev :: dev_attempts
  vs_devStripe :: dev_attempts
  vs_devPlay :: dev_attempts
  vs_play :: play_cache

text \<open>What the environment configures: Stripe's API behind the secret key, and Play's token
  endpoint and publisher API behind the service account.\<close>

record store_config =
  cfg_stripe :: "(string \<Rightarrow> stripe_answer) option"
  cfg_play :: "((play_cache \<Rightarrow> time \<Rightarrow> (string \<times> int) option) \<times>
    (string \<Rightarrow> string \<Rightarrow> string \<Rightarrow> play_answer)) option"

definition purchase_verifiers :: "store_config \<Rightarrow> (string \<times> verifier_state verifier) list" where
  "purchase_verifiers cfg =
     [(PlatformDevStore, \<lambda>v now pf tok e.
         let (r, a) = DevVerify (vs_dev v) now pf tok e in (r, v\<lparr>vs_dev := a\<rparr>)),
      (PlatformStripe,
         case cfg_stripe cfg of
           Some ask \<Rightarrow> (\<lambda>v now pf tok e. (StripeVerify ask pf tok e, v))
         | None \<Rightarrow> (\<lambda>v now pf tok e.
             let (r, a) = DevVerify (vs_devStripe v) now pf tok e in (r, v\<lparr>vs_devStripe := a\<rparr>))),
      (PlatformGooglePlay,
         case cfg_play cfg of
           Some (refresh, ask) \<Rightarrow> (\<lambda>v now pf tok e.
             let (r, c) = PlayVerify refresh ask (vs_play v) now pf tok e in (r, v\<lparr>vs_play := c\<rparr>))
         | None \<Rightarrow> (\<lambda>v now pf tok e.
             let (r, a) = DevVerify (vs_devPlay v) now pf tok e in (r, v\<lparr>vs_devPlay := a\<rparr>)))]"

definition purchaseVerifier :: "store_config \<Rightarrow> verifier_state verifier" where
  "purchaseVerifier cfg = MultiVerify (purchase_verifiers cfg)"

section \<open>What a confirmation means\<close>

lemma StripeVerify_confirms:
  "StripeVerify ask platform tok e = Confirmed \<longleftrightarrow> platform = ''stripe'' \<and> tok \<noteq> [] \<and>
     (\<exists>et em sess. ask (''/v1/checkout/sessions/'' @ tok) = StripeReply 200 et em (Some sess) \<and>
        cs_Status sess \<notin> {''open'', ''expired''} \<and>
        cs_PaymentStatus sess \<in> {''paid'', ''no_payment_required''} \<and>
        cs_ClientReferenceID sess = pe_OrderID e \<and> cs_AmountTotal sess = pe_PriceMinor e \<and>
        EqualFold (cs_Currency sess) (pe_PriceCurrency e))"
  by (auto simp: StripeVerify_def split: stripe_answer.splits option.splits if_splits)

lemma PlayVerify_confirms:
  assumes "PlayVerify refresh ask v now platform tok e = (Confirmed, v')"
  shows "platform = ''google_play'' \<and> tok \<noteq> [] \<and>
     (\<exists>at pp. ask at (pe_SKU e) tok = PlayReply 200 (Some pp) \<and> pp_PurchaseState pp = 0 \<and>
        pp_ProductID pp = pe_SKU e)"
  using assms by (auto simp: PlayVerify_def split: play_answer.splits option.splits if_splits prod.splits)

text \<open>A pending development token is confirmed by the third attempt.\<close>

lemma DevVerify_third:
  "HasPrefix tok ''pending-'' \<Longrightarrow> \<not> HasPrefix tok ''fail-'' \<Longrightarrow> getz a tok = 2 \<Longrightarrow>
     fst (DevVerify a now pf tok e) = Confirmed"
  by (simp add: DevVerify_def Let_def add64_def wrap64_def)

text \<open>An access token is never used within a minute of its expiry, nor after it.\<close>

lemma getAccessToken_fresh:
  assumes "getAccessToken refresh v now = (Some tok, v')" and "refresh v now = None"
  shows "now < pc_expiresAt v - minute \<and> tok = pc_accessToken v \<and> v' = v"
  using assms by (auto simp: getAccessToken_def time_defs split: if_splits)

text \<open>Platforms without a verifier are refused.\<close>

lemma purchaseVerifier_unknown:
  "pf \<notin> {PlatformDevStore, PlatformStripe, PlatformGooglePlay} \<Longrightarrow>
     purchaseVerifier cfg v now pf tok e = (VerifyInvalid, v)"
  by (simp add: purchaseVerifier_def MultiVerify_def purchase_verifiers_def)

lemma platforms_distinct [simp]:
  "PlatformDevStore \<noteq> PlatformStripe" "PlatformDevStore \<noteq> PlatformGooglePlay"
  "PlatformStripe \<noteq> PlatformGooglePlay" "PlatformStripe \<noteq> PlatformDevStore"
  "PlatformGooglePlay \<noteq> PlatformDevStore" "PlatformGooglePlay \<noteq> PlatformStripe"
  by (simp_all add: platform_defs)

lemma purchaseVerifier_stripe:
  "cfg_stripe cfg = Some ask \<Longrightarrow>
     purchaseVerifier cfg v now PlatformStripe tok e = (StripeVerify ask PlatformStripe tok e, v)"
  by (simp add: purchaseVerifier_def MultiVerify_def purchase_verifiers_def)

lemma purchaseVerifier_dev:
  "\<not> HasPrefix tok ''fail-'' \<Longrightarrow> \<not> HasPrefix tok ''pending-'' \<Longrightarrow>
     purchaseVerifier cfg v now PlatformDevStore tok e = (Confirmed, v)"
  by (simp add: purchaseVerifier_def MultiVerify_def purchase_verifiers_def DevVerify_def)

end
