(* ===== verification/Order_Service.thy ===== *)
theory Order_Service
  imports Ledger_Repo SpendLimits Stores
begin

text \<open>
  The coin-purchase pipeline (\<open>ledger/ordersvc/service.go\<close>) and its recovery worker
  (\<open>ledger/reconciler/reconciler.go\<close>). \<open>advance\<close> is given twice: as the function
  the code computes when nothing else runs, and as a machine that makes one repository, store or
  ledger access per step, so that any number of concurrent, repeated or abandoned calls are
  interleavings of it. \<open>advance_runs\<close> shows that the first is a run of the second.
\<close>

section \<open>The service\<close>

text \<open>\<open>os_hash\<close> is \<open>hashToken\<close>, the hex form of SHA-256; \<open>os_limits\<close> tells
  whether a spend-limit store is wired.\<close>

record ('l, 'v) order_service =
  os_ledger :: "'l ledger_repo"
  os_verify :: "'v verifier"
  os_hash :: "string \<Rightarrow> string"
  os_limits :: bool
  os_onDispute :: bool

record ('l, 'v) order_world =
  ow_orders :: mem_orders
  ow_ledger :: 'l
  ow_verifier :: 'v
  ow_limits :: spend_limits_repo
  ow_createByKey :: "(string \<times> order) list"

subsection \<open>Creating an order\<close>

primrec sum_coins :: "order list \<Rightarrow> time \<Rightarrow> int \<Rightarrow> int" where
  "sum_coins [] since tot = tot"
| "sum_coins (o' # os) since tot =
     sum_coins os since
       (if o_Status o' = OrderFailed \<or> o_Status o' = OrderRefunded then tot
        else if Before (o_CreatedAt o') since then tot
        else add64 tot (o_Coins o'))"

definition coinsPurchasedSince :: "('l, 'v) order_world \<Rightarrow> string \<Rightarrow> time \<Rightarrow> int" where
  "coinsPurchasedSince w accountID since = sum_coins (MemListOrders (ow_orders w) accountID []) since 0"

primrec check_windows :: "('l, 'v) order_world \<Rightarrow> time \<Rightarrow> string \<Rightarrow> int \<Rightarrow> (int \<times> duration) list \<Rightarrow> order_error option" where
  "check_windows w now accountID coins [] = None"
| "check_windows w now accountID coins (win # ws) =
     (if fst win \<le> 0 then check_windows w now accountID coins ws
      else if fst win < add64 (coinsPurchasedSince w accountID (now - snd win)) coins
      then Some ErrSpendLimitExceeded
      else check_windows w now accountID coins ws)"

definition checkSpendLimits :: "('l, 'v) order_service \<Rightarrow> ('l, 'v) order_world \<Rightarrow> time \<Rightarrow> string \<Rightarrow> int \<Rightarrow>
    order_error option" where
  "checkSpendLimits s w now accountID coins =
     (if \<not> os_limits s then None
      else
        (let limits = ResolvePending (GetLimits (ow_limits w) accountID) now
         in if sl_CoolingOff limits \<and> Before now (sl_CoolingOffUntil limits) then Some ErrCoolingOff
            else check_windows w now accountID coins
              [(sl_DailyCap limits, 24 * hour), (sl_WeeklyCap limits, 7 * 24 * hour),
               (sl_MonthlyCap limits, 30 * 24 * hour)]))"

definition CreateOrder :: "('l, 'v) order_service \<Rightarrow> ('l, 'v) order_world \<Rightarrow> time \<Rightarrow> string \<Rightarrow> string \<Rightarrow> string \<Rightarrow> string \<Rightarrow>
    (order_error + order) \<times> ('l, 'v) order_world" where
  "CreateOrder s w now accountID sku platform idempotencyKey =
     (case map_of (ow_createByKey w) idempotencyKey of
        Some existing \<Rightarrow> (Inr existing, w)
      | None \<Rightarrow>
          (case ProductBySKU sku of
             None \<Rightarrow> (Inl ErrUnknownSKU, w)
           | Some product \<Rightarrow>
               (case checkSpendLimits s w now accountID (p_Coins product) of
                  Some err \<Rightarrow> (Inl err, w)
                | None \<Rightarrow>
                    (case MemCreateOrder (ow_orders w) now accountID sku platform of
                       (Inl err, r) \<Rightarrow> (Inl err, w\<lparr>ow_orders := r\<rparr>)
                     | (Inr o', r) \<Rightarrow>
                         (Inr o', w\<lparr>ow_orders := r,
                            ow_createByKey := AList.update idempotencyKey o' (ow_createByKey w)\<rparr>)))))"

definition GetOrder :: "('l, 'v) order_world \<Rightarrow> string \<Rightarrow> string \<Rightarrow> order_error + order" where
  "GetOrder w accountID orderID =
     (case MemGetOrder (ow_orders w) orderID of
        Inl err \<Rightarrow> Inl err
      | Inr o' \<Rightarrow> if o_AccountID o' \<noteq> accountID then Inl ErrOrderNotOwned else Inr o')"

definition ListOrders :: "('l, 'v) order_world \<Rightarrow> string \<Rightarrow> string \<Rightarrow> order list" where
  "ListOrders w accountID status = MemListOrders (ow_orders w) accountID status"

text \<open>The case reference, and the call of the dispute hook.\<close>

definition Dispute :: "('l, 'v) order_service \<Rightarrow> ('l, 'v) order_world \<Rightarrow> string \<Rightarrow> string \<Rightarrow>
    (order_error + string) \<times> (string \<times> string) list" where
  "Dispute s w accountID orderID =
     (case GetOrder w accountID orderID of
        Inl err \<Rightarrow> (Inl err, [])
      | Inr o' \<Rightarrow> (Inr (''ORD-'' @ o_ID o'), if os_onDispute s then [(accountID, o_ID o')] else []))"

subsection \<open>Verify and credit\<close>

definition save_order :: "('l, 'v) order_world \<Rightarrow> time \<Rightarrow> order \<Rightarrow> (order_error + order) \<times> ('l, 'v) order_world" where
  "save_order w now o' = (case MemUpdateOrder (ow_orders w) now o' of (res, r) \<Rightarrow> (res, w\<lparr>ow_orders := r\<rparr>))"

text \<open>\<open>_ = s.orders.UpdateOrder(ctx, order)\<close>: the error is dropped.\<close>

definition save_quietly :: "('l, 'v) order_world \<Rightarrow> time \<Rightarrow> order \<Rightarrow> order \<times> ('l, 'v) order_world" where
  "save_quietly w now o' =
     (case save_order w now o' of (Inl err, w') \<Rightarrow> (o', w') | (Inr saved, w') \<Rightarrow> (saved, w'))"

definition expectation_of :: "order \<Rightarrow> purchase_expectation" where
  "expectation_of o' = \<lparr>pe_OrderID = o_ID o', pe_PriceMinor = o_PriceMinor o',
     pe_PriceCurrency = o_PriceCurrency o', pe_SKU = o_SKU o', pe_AccountID = o_AccountID o'\<rparr>"

definition order_key :: "string \<Rightarrow> string" where
  "order_key i = ''order-'' @ i"

definition purchase_entries :: "order \<Rightarrow> entry list" where
  "purchase_entries o' =
     [\<lparr>e_account = UserCoinsAccount (o_AccountID o'), e_amount = o_Coins o', e_currency = Coin\<rparr>,
      \<lparr>e_account = PlatformLiabilityAccount, e_amount = neg64 (o_Coins o'), e_currency = Coin\<rparr>]"

definition purchase_metadata :: "order \<Rightarrow> metadata" where
  "purchase_metadata o' = [(''order_id'', AnyString (o_ID o')), (''sku'', AnyString (o_SKU o')),
     (''account_id'', AnyString (o_AccountID o'))]"

definition post_purchase :: "('l, 'v) order_service \<Rightarrow> ('l, 'v) order_world \<Rightarrow> time \<Rightarrow> order \<Rightarrow>
    (ledger_error + transaction \<times> bool) \<times> ('l, 'v) order_world" where
  "post_purchase s w now o' =
     (case repo_PostTransaction (os_ledger s) (ow_ledger w) now ''purchase'' (order_key (o_ID o'))
             (purchase_metadata o') (purchase_entries o') of
        (res, l) \<Rightarrow> (res, w\<lparr>ow_ledger := l\<rparr>))"

definition advance_credit :: "('l, 'v) order_service \<Rightarrow> ('l, 'v) order_world \<Rightarrow> time \<Rightarrow> order \<Rightarrow>
    (order_error + order) \<times> ('l, 'v) order_world" where
  "advance_credit s w now o' =
     (if o_Status o' = OrderCrediting
      then (case post_purchase s w now o' of
              (Inl err, w) \<Rightarrow> (Inl (OrderLedgerError err), w)
            | (Inr (tx, isNew), w) \<Rightarrow>
                save_order w now (o'\<lparr>o_Status := OrderCredited, o_StatusReason := ''coins credited'',
                  o_LedgerTransactionID := tx_ID tx\<rparr>))
      else (Inr o', w))"

definition advance_paid :: "('l, 'v) order_service \<Rightarrow> ('l, 'v) order_world \<Rightarrow> time \<Rightarrow> order \<Rightarrow>
    (order_error + order) \<times> ('l, 'v) order_world" where
  "advance_paid s w now o' =
     (if o_Status o' = OrderPaid
      then (case save_order w now (o'\<lparr>o_Status := OrderCrediting\<rparr>) of
              (Inl err, w) \<Rightarrow> (Inl err, w)
            | (Inr o', w) \<Rightarrow> advance_credit s w now o')
      else advance_credit s w now o')"

definition ask_store :: "('l, 'v) order_service \<Rightarrow> ('l, 'v) order_world \<Rightarrow> time \<Rightarrow> order \<Rightarrow> string \<Rightarrow>
    verify_outcome \<times> ('l, 'v) order_world" where
  "ask_store s w now o' tok =
     (case os_verify s (ow_verifier w) now (o_Platform o') tok (expectation_of o') of
        (r, v) \<Rightarrow> (r, w\<lparr>ow_verifier := v\<rparr>))"

text \<open>The message has an em dash, three bytes in UTF-8.\<close>

definition paid_reason :: string where
  "paid_reason = ''payment confirmed '' @ [CHR 0xE2, CHR 0x80, CHR 0x94] @ '' crediting your account''"

definition advance_pending :: "('l, 'v) order_service \<Rightarrow> ('l, 'v) order_world \<Rightarrow> time \<Rightarrow> order \<Rightarrow> string \<Rightarrow>
    (order_error + order) \<times> ('l, 'v) order_world" where
  "advance_pending s w now o' tok =
     (if o_Status o' = OrderPendingPayment
      then (case ask_store s w now o' tok of
              (VerifyPending, w) \<Rightarrow>
                (let (o', w) = save_quietly w now
                       (o'\<lparr>o_StatusReason := ''waiting for the store to confirm payment''\<rparr>)
                 in (Inr o', w))
            | (VerifyInvalid, w) \<Rightarrow>
                (let (o', w) = save_quietly w now
                       (o'\<lparr>o_Status := OrderFailed, o_StatusReason := ''invalid purchase token''\<rparr>)
                 in (Inl OrderInvalidToken, w))
            | (VerifyError err, w) \<Rightarrow> (Inl (OrderStoreError err), w)
            | (Confirmed, w) \<Rightarrow>
                (case save_order w now (o'\<lparr>o_Status := OrderPaid,
                         o_StatusReason := paid_reason\<rparr>) of
                   (Inl err, w) \<Rightarrow> (Inl err, w)
                 | (Inr o', w) \<Rightarrow> advance_paid s w now o'))
      else advance_paid s w now o')"

definition claimed :: "('l, 'v) order_service \<Rightarrow> order \<Rightarrow> string \<Rightarrow> order" where
  "claimed s o' tok = o'\<lparr>o_PurchaseToken := tok, o_TokenHash := os_hash s tok, o_Status := OrderPendingPayment\<rparr>"

definition advance_created :: "('l, 'v) order_service \<Rightarrow> ('l, 'v) order_world \<Rightarrow> time \<Rightarrow> order \<Rightarrow> string \<Rightarrow>
    (order_error + order) \<times> ('l, 'v) order_world" where
  "advance_created s w now o' tok =
     (if o_Status o' = OrderCreated
      then (case save_order w now (claimed s o' tok) of
              (Inl err, w) \<Rightarrow> (Inl err, w)
            | (Inr o', w) \<Rightarrow> advance_pending s w now o' tok)
      else advance_pending s w now o' tok)"

definition token_taken :: "('l, 'v) order_service \<Rightarrow> ('l, 'v) order_world \<Rightarrow> order \<Rightarrow> string \<Rightarrow> bool" where
  "token_taken s w o' tok =
     (case FindByTokenHash (ow_orders w) (os_hash s tok) of
        None \<Rightarrow> False
      | Some existing \<Rightarrow> o_ID existing \<noteq> o_ID o')"

definition used_token :: "order \<Rightarrow> order" where
  "used_token o' = o'\<lparr>o_Status := OrderFailed,
     o_StatusReason := ''purchase token already consumed by another order''\<rparr>"

definition advance :: "('l, 'v) order_service \<Rightarrow> ('l, 'v) order_world \<Rightarrow> time \<Rightarrow> order \<Rightarrow> string \<Rightarrow>
    (order_error + order) \<times> ('l, 'v) order_world" where
  "advance s w now o' purchaseToken =
     (if o_Status o' = OrderCredited then (Inr o', w)
      else if o_Status o' = OrderFailed \<or> o_Status o' = OrderRefunded then (Inl ErrOrderTerminal, w)
      else
        (let tok = (if purchaseToken = [] then o_PurchaseToken o' else purchaseToken)
         in if token_taken s w o' tok
            then (let (o', w) = save_quietly w now (used_token o') in (Inl ErrTokenAlreadyUsed, w))
            else advance_created s w now o' tok))"

definition VerifyOrder :: "('l, 'v) order_service \<Rightarrow> ('l, 'v) order_world \<Rightarrow> time \<Rightarrow> string \<Rightarrow> string \<Rightarrow> string \<Rightarrow>
    (order_error + order) \<times> ('l, 'v) order_world" where
  "VerifyOrder s w now accountID orderID purchaseToken =
     (case MemGetOrder (ow_orders w) orderID of
        Inl err \<Rightarrow> (Inl err, w)
      | Inr o' \<Rightarrow>
          if o_AccountID o' \<noteq> accountID then (Inl ErrOrderNotOwned, w)
          else advance s w now o' purchaseToken)"

subsection \<open>The reconciler\<close>

definition Reconcile :: "('l, 'v) order_service \<Rightarrow> ('l, 'v) order_world \<Rightarrow> time \<Rightarrow> order \<Rightarrow>
    (order_error + order) \<times> ('l, 'v) order_world" where
  "Reconcile s w now o' = advance s w now o' []"

text \<open>The loop of \<open>RunOnce\<close>: an error is logged and the next order is tried.\<close>

primrec reconcile_all :: "('l, 'v) order_service \<Rightarrow> time \<Rightarrow> order list \<Rightarrow> ('l, 'v) order_world \<Rightarrow> ('l, 'v) order_world" where
  "reconcile_all s now [] w = w"
| "reconcile_all s now (o' # os) w = reconcile_all s now os (snd (Reconcile s w now o'))"

definition RunOnce :: "('l, 'v) order_service \<Rightarrow> time \<Rightarrow> ('l, 'v) order_world \<Rightarrow> ('l, 'v) order_world" where
  "RunOnce s now w = reconcile_all s now (ListNonTerminal (ow_orders w)) w"

section \<open>Calls as machines\<close>

text \<open>A call of \<open>advance\<close> between two accesses to shared state: its local copy of the
  order, the token it works with, and the access it makes next.\<close>

datatype advance_pc =
    FindToken
  | MarkUsed
  | Claim
  | AskStore
  | NotePending
  | MarkInvalid
  | MarkPaid
  | MarkCrediting
  | PostCoins
  | MarkCredited string

datatype run =
    Running order string advance_pc
  | Returned "order_error + order"

definition begin_advance :: "order \<Rightarrow> string \<Rightarrow> run" where
  "begin_advance o' purchaseToken =
     (if o_Status o' = OrderCredited then Returned (Inr o')
      else if o_Status o' = OrderFailed \<or> o_Status o' = OrderRefunded then Returned (Inl ErrOrderTerminal)
      else Running o' (if purchaseToken = [] then o_PurchaseToken o' else purchaseToken) FindToken)"

text \<open>The remaining \<open>if order.Status == ...\<close> tests.\<close>

definition dispatch :: "order \<Rightarrow> string \<Rightarrow> run" where
  "dispatch o' tok =
     (case o_Status o' of
        OrderCreated \<Rightarrow> Running o' tok Claim
      | OrderPendingPayment \<Rightarrow> Running o' tok AskStore
      | OrderPaid \<Rightarrow> Running o' tok MarkCrediting
      | OrderCrediting \<Rightarrow> Running o' tok PostCoins
      | _ \<Rightarrow> Returned (Inr o'))"

definition save_then :: "('l, 'v) order_world \<Rightarrow> time \<Rightarrow> order \<Rightarrow> (order \<Rightarrow> run) \<Rightarrow> run \<times> ('l, 'v) order_world" where
  "save_then w now o' k =
     (case save_order w now o' of (Inl err, w) \<Rightarrow> (Returned (Inl err), w) | (Inr o', w) \<Rightarrow> (k o', w))"

fun run_step :: "('l, 'v) order_service \<Rightarrow> time \<Rightarrow> ('l, 'v) order_world \<Rightarrow> run \<Rightarrow> run \<times> ('l, 'v) order_world" where
  "run_step s now w (Returned r) = (Returned r, w)"
| "run_step s now w (Running o' tok FindToken) =
     (if token_taken s w o' tok then (Running (used_token o') tok MarkUsed, w) else (dispatch o' tok, w))"
| "run_step s now w (Running o' tok MarkUsed) =
     (Returned (Inl ErrTokenAlreadyUsed), snd (save_quietly w now o'))"
| "run_step s now w (Running o' tok Claim) =
     save_then w now (claimed s o' tok) (\<lambda>o'. dispatch o' tok)"
| "run_step s now w (Running o' tok AskStore) =
     (case ask_store s w now o' tok of
        (VerifyPending, w) \<Rightarrow>
          (Running (o'\<lparr>o_StatusReason := ''waiting for the store to confirm payment''\<rparr>) tok NotePending, w)
      | (VerifyInvalid, w) \<Rightarrow>
          (Running (o'\<lparr>o_Status := OrderFailed, o_StatusReason := ''invalid purchase token''\<rparr>) tok MarkInvalid, w)
      | (VerifyError err, w) \<Rightarrow> (Returned (Inl (OrderStoreError err)), w)
      | (Confirmed, w) \<Rightarrow> (Running (o'\<lparr>o_Status := OrderPaid, o_StatusReason := paid_reason\<rparr>) tok MarkPaid, w))"
| "run_step s now w (Running o' tok NotePending) =
     (case save_quietly w now o' of (o', w) \<Rightarrow> (Returned (Inr o'), w))"
| "run_step s now w (Running o' tok MarkInvalid) =
     (Returned (Inl OrderInvalidToken), snd (save_quietly w now o'))"
| "run_step s now w (Running o' tok MarkPaid) = save_then w now o' (\<lambda>o'. dispatch o' tok)"
| "run_step s now w (Running o' tok MarkCrediting) =
     save_then w now (o'\<lparr>o_Status := OrderCrediting\<rparr>) (\<lambda>o'. dispatch o' tok)"
| "run_step s now w (Running o' tok PostCoins) =
     (case post_purchase s w now o' of
        (Inl err, w) \<Rightarrow> (Returned (Inl (OrderLedgerError err)), w)
      | (Inr (tx, isNew), w) \<Rightarrow> (Running o' tok (MarkCredited (tx_ID tx)), w))"
| "run_step s now w (Running o' tok (MarkCredited i)) =
     save_then w now (o'\<lparr>o_Status := OrderCredited, o_StatusReason := ''coins credited'',
       o_LedgerTransactionID := i\<rparr>) (\<lambda>o'. Returned (Inr o'))"

primrec run_steps :: "nat \<Rightarrow> ('l, 'v) order_service \<Rightarrow> time \<Rightarrow> run \<times> ('l, 'v) order_world \<Rightarrow> run \<times> ('l, 'v) order_world" where
  "run_steps 0 s now rw = rw"
| "run_steps (Suc n) s now rw = run_steps n s now (run_step s now (snd rw) (fst rw))"

text \<open>The function is the machine run to its end without interruption: seven accesses suffice.\<close>

definition runs_to :: "('l, 'v) order_service \<Rightarrow> time \<Rightarrow> nat \<Rightarrow> run \<times> ('l, 'v) order_world \<Rightarrow>
    (order_error + order) \<times> ('l, 'v) order_world \<Rightarrow> bool" where
  "runs_to s now n rw res \<longleftrightarrow> run_steps n s now rw = (Returned (fst res), snd res)"

lemma run_steps_Returned [simp]: "run_steps n s now (Returned r, w) = (Returned r, w)"
  by (induction n) auto

lemma runs_to_more: "runs_to s now n rw res \<Longrightarrow> n \<le> m \<Longrightarrow> runs_to s now m rw res"
proof (induction n arbitrary: rw m)
  case 0
  then show ?case by (cases rw) (simp add: runs_to_def)
next
  case (Suc n)
  then obtain k where k: "m = Suc k" "n \<le> k" by (cases m) auto
  have "runs_to s now n (run_step s now (snd rw) (fst rw)) res"
    using Suc.prems(1) by (simp add: runs_to_def)
  from Suc.IH [OF this k(2)] show ?case by (simp add: runs_to_def k(1))
qed

lemma save_keeps_status:
  "save_order w now o' = (Inr p, w') \<Longrightarrow> p = o'\<lparr>o_UpdatedAt := now\<rparr>"
  by (auto simp: save_order_def MemUpdateOrder_def Let_def split: prod.splits option.splits)

lemma credit_runs:
  "o_Status o' = OrderCrediting \<or> o_Status o' = OrderCredited \<Longrightarrow>
     runs_to s now 2 (dispatch o' tok, w) (advance_credit s w now o')"
  by (auto simp: runs_to_def numeral_eq_Suc dispatch_def advance_credit_def save_then_def
      split: sum.splits prod.splits)

lemma paid_runs:
  assumes "o_Status o' \<in> {OrderPaid, OrderCrediting}"
  shows "runs_to s now 3 (dispatch o' tok, w) (advance_paid s w now o')"
proof (cases "o_Status o' = OrderPaid")
  case True
  show ?thesis
  proof (cases "save_order w now (o'\<lparr>o_Status := OrderCrediting\<rparr>)")
    case (Pair r w')
    then show ?thesis
      using True credit_runs [of "projr r" s now tok w']
      by (cases r) (auto simp: runs_to_def numeral_eq_Suc dispatch_def advance_paid_def save_then_def
          dest: save_keeps_status)
  qed
next
  case False
  then show ?thesis
    using assms runs_to_more [OF credit_runs [of o' s now tok w], of 3] by (simp add: advance_paid_def)
qed

lemma pending_runs:
  assumes "o_Status o' \<in> {OrderPendingPayment, OrderPaid, OrderCrediting}"
  shows "runs_to s now 5 (dispatch o' tok, w) (advance_pending s w now o' tok)"
proof (cases "o_Status o' = OrderPendingPayment")
  case True
  obtain r w1 where ask: "ask_store s w now o' tok = (r, w1)" by fastforce
  show ?thesis
  proof (cases "r = Confirmed")
    case confirmed: True
    let ?o = "o'\<lparr>o_Status := OrderPaid, o_StatusReason := paid_reason\<rparr>"
    obtain res w2 where sv: "save_order w1 now ?o = (res, w2)" by fastforce
    show ?thesis
    proof (cases res)
      case (Inl err)
      then show ?thesis
        using True ask sv confirmed
        by (simp add: runs_to_def numeral_eq_Suc dispatch_def [of o'] advance_pending_def save_then_def)
    next
      case (Inr p)
      then have "o_Status p = OrderPaid" using sv save_keeps_status by fastforce
      then have "runs_to s now 3 (dispatch p tok, w2) (advance_paid s w2 now p)"
        by (intro paid_runs) simp
      then show ?thesis
        using True ask sv confirmed Inr
        by (simp add: runs_to_def numeral_eq_Suc dispatch_def [of o'] advance_pending_def save_then_def)
    qed
  next
    case False
    then show ?thesis
      using True ask
      by (cases r) (auto simp: runs_to_def numeral_eq_Suc dispatch_def advance_pending_def
          split: prod.splits)
  qed
next
  case False
  then show ?thesis
    using assms runs_to_more [OF paid_runs [of o' s now tok w], of 5] by (auto simp: advance_pending_def)
qed

lemma created_runs:
  assumes "o_Status o' \<in> {OrderCreated, OrderPendingPayment, OrderPaid, OrderCrediting}"
  shows "runs_to s now 6 (dispatch o' tok, w) (advance_created s w now o' tok)"
proof (cases "o_Status o' = OrderCreated")
  case True
  obtain res w2 where sv: "save_order w now (claimed s o' tok) = (res, w2)" by fastforce
  show ?thesis
  proof (cases res)
    case (Inl err)
    then show ?thesis
      using True sv by (simp add: runs_to_def numeral_eq_Suc dispatch_def [of o'] advance_created_def save_then_def)
  next
    case (Inr p)
    then have "o_Status p = OrderPendingPayment"
      using sv save_keeps_status by (fastforce simp: claimed_def)
    then have "runs_to s now 5 (dispatch p tok, w2) (advance_pending s w2 now p tok)"
      by (intro pending_runs) simp
    then show ?thesis
      using True sv Inr by (simp add: runs_to_def numeral_eq_Suc dispatch_def [of o'] advance_created_def save_then_def)
  qed
next
  case False
  then show ?thesis
    using assms runs_to_more [OF pending_runs [of o' s now tok w], of 6] by (auto simp: advance_created_def)
qed

lemma advance_runs:
  "run_steps 7 s now (begin_advance o' tok, w) = (Returned (fst (advance s w now o' tok)), snd (advance s w now o' tok))"
proof (cases "o_Status o' \<in> {OrderCredited, OrderFailed, OrderRefunded}")
  case True
  then show ?thesis by (auto simp: begin_advance_def advance_def)
next
  case False
  then have st: "o_Status o' \<in> {OrderCreated, OrderPendingPayment, OrderPaid, OrderCrediting}"
    by (cases "o_Status o'") auto
  let ?t = "if tok = [] then o_PurchaseToken o' else tok"
  show ?thesis
  proof (cases "token_taken s w o' ?t")
    case True
    then show ?thesis
      using False by (simp add: numeral_eq_Suc begin_advance_def advance_def Let_def split: prod.split)
  next
    case fresh: False
    from created_runs [OF st, of s now ?t w] show ?thesis
      using False fresh by (simp add: runs_to_def numeral_eq_Suc begin_advance_def advance_def Let_def)
  qed
qed

section \<open>All interleavings\<close>

text \<open>The running system: the shared state, the calls in flight and those that returned, and a
  history variable, the orders for which the store has answered yes. A crashed call is one that is
  never stepped again. \<open>other\<close> stands for the rest of the program: any post or reversal
  whose key does not begin with \<open>order-\<close>.\<close>

record ('l, 'v) order_system =
  sy_world :: "('l, 'v) order_world"
  sy_runs :: "run list"
  sy_confirmed :: "string set"

definition confirms :: "('l, 'v) order_service \<Rightarrow> time \<Rightarrow> ('l, 'v) order_world \<Rightarrow> run \<Rightarrow> string set" where
  "confirms s now w r =
     (case r of
        Running o' tok AskStore \<Rightarrow> if fst (ask_store s w now o' tok) = Confirmed then {o_ID o'} else {}
      | _ \<Rightarrow> {})"

inductive order_step :: "('l, 'v) order_service \<Rightarrow> ('l, 'v) order_system \<Rightarrow> ('l, 'v) order_system \<Rightarrow> bool"
  for s :: "('l, 'v) order_service" where
  verify: "MemGetOrder (ow_orders (sy_world y)) i = Inr o' \<Longrightarrow> o_AccountID o' = a \<Longrightarrow>
    order_step s y (y\<lparr>sy_runs := sy_runs y @ [begin_advance o' tok]\<rparr>)"
| reconcile: "order_step s y (y\<lparr>sy_runs := sy_runs y @
    map (\<lambda>o'. begin_advance o' []) (ListNonTerminal (ow_orders (sy_world y)))\<rparr>)"
| run: "i < length (sy_runs y) \<Longrightarrow> run_step s now (sy_world y) (sy_runs y ! i) = (r, w) \<Longrightarrow>
    order_step s y \<lparr>sy_world = w, sy_runs = (sy_runs y)[i := r],
      sy_confirmed = sy_confirmed y \<union> confirms s now (sy_world y) (sy_runs y ! i)\<rparr>"
| create: "CreateOrder s (sy_world y) now a sku platform key = (res, w) \<Longrightarrow>
    order_step s y (y\<lparr>sy_world := w\<rparr>)"
| limits: "order_step s y (y\<lparr>sy_world := (sy_world y)\<lparr>ow_limits :=
    snd (UpdateSpendLimits (ow_limits (sy_world y)) now a req)\<rparr>\<rparr>)"
| other_post: "\<not> HasPrefix key ''order-'' \<Longrightarrow>
    repo_PostTransaction (os_ledger s) (ow_ledger (sy_world y)) now kind key md es = (res, l) \<Longrightarrow>
    order_step s y (y\<lparr>sy_world := (sy_world y)\<lparr>ow_ledger := l\<rparr>\<rparr>)"
| other_reverse: "\<not> HasPrefix key ''order-'' \<Longrightarrow>
    repo_ReverseTransaction (os_ledger s) (ow_ledger (sy_world y)) now i key reason = (res, l) \<Longrightarrow>
    order_step s y (y\<lparr>sy_world := (sy_world y)\<lparr>ow_ledger := l\<rparr>\<rparr>)"

abbreviation order_steps :: "('l, 'v) order_service \<Rightarrow> ('l, 'v) order_system \<Rightarrow> ('l, 'v) order_system \<Rightarrow> bool" where
  "order_steps s \<equiv> (order_step s)\<^sup>*\<^sup>*"

text \<open>The start: no orders, and whatever ledger, limits and verifier state.\<close>

definition order_start :: "'l \<Rightarrow> 'v \<Rightarrow> spend_limits_repo \<Rightarrow> ('l, 'v) order_system" where
  "order_start l v lim = \<lparr>sy_world = \<lparr>ow_orders = NewMemOrderRepo, ow_ledger = l, ow_verifier = v,
     ow_limits = lim, ow_createByKey = []\<rparr>, sy_runs = [], sy_confirmed = {}\<rparr>"

definition past_payment :: "order \<Rightarrow> bool" where
  "past_payment o' \<longleftrightarrow> o_Status o' \<in> {OrderPaid, OrderCrediting, OrderCredited}"

text \<open>What holds of every copy of an order, stored or in flight, given the confirmed orders and the
  ledger's keys.\<close>

definition copy_ok :: "string set \<Rightarrow> (string \<Rightarrow> transaction option) \<Rightarrow> order \<Rightarrow> bool" where
  "copy_ok conf st o' \<longleftrightarrow> (past_payment o' \<longrightarrow> o_ID o' \<in> conf) \<and>
     (o_Status o' = OrderCredited \<longrightarrow>
        (\<exists>t. st (order_key (o_ID o')) = Some t \<and> tx_ID t = o_LedgerTransactionID o'))"

fun run_ok :: "mem_orders \<Rightarrow> string set \<Rightarrow> (string \<Rightarrow> transaction option) \<Rightarrow> run \<Rightarrow> bool" where
  "run_ok r conf st (Returned (Inl err)) = True"
| "run_ok r conf st (Returned (Inr o')) = copy_ok conf st o'"
| "run_ok r conf st (Running o' tok pc) = (knows r o' \<and> copy_ok conf st o' \<and>
     (case pc of
        MarkCrediting \<Rightarrow> past_payment o'
      | PostCoins \<Rightarrow> past_payment o'
      | MarkCredited i \<Rightarrow> past_payment o' \<and> (\<exists>t. st (order_key (o_ID o')) = Some t \<and> tx_ID t = i)
      | _ \<Rightarrow> True))"

definition orders_credited_ok :: "mem_orders \<Rightarrow> string set \<Rightarrow> (string \<Rightarrow> transaction option) \<Rightarrow> bool" where
  "orders_credited_ok r conf st \<longleftrightarrow>
     (\<forall>i o'. map_of (mo_byID r) i = Some o' \<longrightarrow> copy_ok conf st o') \<and>
     (\<forall>i t. st (order_key i) = Some t \<longrightarrow> i \<in> conf \<and>
        (\<exists>o'. map_of (mo_byID r) i = Some o' \<and> tx_Kind t = ''purchase'' \<and> tx_Entries t = purchase_entries o'))"

lemma copy_ok_mono:
  "copy_ok conf st o' \<Longrightarrow> conf \<subseteq> conf' \<Longrightarrow> (\<And>k t. st k = Some t \<Longrightarrow> st' k = Some t) \<Longrightarrow> copy_ok conf' st' o'"
  unfolding copy_ok_def by blast

lemma run_ok_mono:
  assumes "run_ok r conf st x" and "\<And>o'. knows r o' \<Longrightarrow> knows r' o'" and "conf \<subseteq> conf'"
    and "\<And>k t. st k = Some t \<Longrightarrow> st' k = Some t"
  shows "run_ok r' conf' st' x"
proof (cases x)
  case (Running o' tok pc)
  then show ?thesis
    using assms copy_ok_mono [of conf st o' conf' st'] by (cases pc) auto
next
  case (Returned res)
  then show ?thesis
    using assms copy_ok_mono [of conf st _ conf' st'] by (cases res) auto
qed

lemma copy_ok_stamp [simp]: "copy_ok conf st (o'\<lparr>o_UpdatedAt := now\<rparr>) = copy_ok conf st o'"
  by (simp add: copy_ok_def past_payment_def)

lemma knows_stamp [simp]: "knows r (o'\<lparr>o_UpdatedAt := now\<rparr>) = knows r o'"
  by (rule knows_cong) simp

lemma purchase_entries_cong: "purchase_of o1 = purchase_of o2 \<Longrightarrow> purchase_entries o1 = purchase_entries o2"
  by (simp add: purchase_of_def purchase_entries_def)

lemma order_key_prefix: "HasPrefix (order_key i) ''order-''"
  unfolding order_key_def by (rule HasPrefix_append)

lemma order_key_inj: "order_key i = order_key j \<longleftrightarrow> i = j"
  by (simp add: order_key_def)

text \<open>Saving a copy that is in order keeps everything in order.\<close>

lemma save_ok:
  assumes r: "orders_ok r" and c: "orders_credited_ok r conf st" and k: "knows r o'"
    and o': "copy_ok conf st o'" and u: "MemUpdateOrder r now o' = (res, r')"
  shows "orders_ok r' \<and> orders_credited_ok r' conf st \<and> res = Inr (o'\<lparr>o_UpdatedAt := now\<rparr>) \<and>
    (\<forall>p. knows r p \<longrightarrow> knows r' p)"
proof -
  note ok = MemUpdateOrder_ok [OF r k u]
  obtain p where p: "map_of (mo_byID r) (o_ID o') = Some p" "purchase_of p = purchase_of o'"
    using k by (auto simp: knows_def)
  have "copy_ok conf st q" if "map_of (mo_byID r') i = Some q" for i q
    using that c o' ok(3) by (cases "i = o_ID o'") (auto simp: orders_credited_ok_def)
  moreover have "i \<in> conf \<and> (\<exists>q. map_of (mo_byID r') i = Some q \<and> tx_Kind t = ''purchase'' \<and>
      tx_Entries t = purchase_entries q)" if st: "st (order_key i) = Some t" for i t
  proof (cases "i = o_ID o'")
    case True
    obtain q where "map_of (mo_byID r) i = Some q" "i \<in> conf" "tx_Kind t = ''purchase''"
        "tx_Entries t = purchase_entries q"
      using c st unfolding orders_credited_ok_def by blast
    moreover from this(1) have "q = p" using p(1) True by simp
    ultimately have "i \<in> conf" "tx_Kind t = ''purchase''" "tx_Entries t = purchase_entries p" by simp_all
    then show ?thesis
      using p(2) True by (auto simp: ok(3) intro: purchase_entries_cong)
  next
    case False
    then show ?thesis using c st by (auto simp: orders_credited_ok_def ok(3))
  qed
  ultimately show ?thesis
    using ok knows_update [OF _ u k] by (auto simp: orders_credited_ok_def)
qed

context ledger_reversal_contract
begin

text \<open>The invariant of the running system.\<close>

definition system_ok :: "('l, 'v) order_system \<Rightarrow> bool" where
  "system_ok y \<longleftrightarrow>
     (let w = sy_world y; st = stored (ow_ledger w) in
      ok (ow_ledger w) \<and> orders_ok (ow_orders w) \<and>
      orders_credited_ok (ow_orders w) (sy_confirmed y) st \<and>
      (\<forall>x \<in> set (sy_runs y). run_ok (ow_orders w) (sy_confirmed y) st x))"

definition step_ok :: "('l, 'v) order_world \<Rightarrow> ('l, 'v) order_world \<Rightarrow> string set \<Rightarrow> run \<Rightarrow> bool" where
  "step_ok w w' conf x \<longleftrightarrow> ok (ow_ledger w') \<and> orders_ok (ow_orders w') \<and>
     orders_credited_ok (ow_orders w') conf (stored (ow_ledger w')) \<and>
     run_ok (ow_orders w') conf (stored (ow_ledger w')) x \<and>
     (\<forall>p. knows (ow_orders w) p \<longrightarrow> knows (ow_orders w') p) \<and>
     (\<forall>k t. stored (ow_ledger w) k = Some t \<longrightarrow> stored (ow_ledger w') k = Some t)"

lemma orders_credited_mono: "orders_credited_ok r conf st \<Longrightarrow> conf \<subseteq> conf' \<Longrightarrow> orders_credited_ok r conf' st"
  unfolding orders_credited_ok_def using copy_ok_mono [of conf st _ conf' st] by blast

lemma dispatch_ok:
  "knows r o' \<Longrightarrow> copy_ok conf st o' \<Longrightarrow> run_ok r conf st (dispatch o' tok)"
  by (cases "o_Status o'") (simp_all add: dispatch_def past_payment_def)

lemma save_then_ok:
  assumes "ok (ow_ledger w)" and "orders_ok (ow_orders w)"
    and "orders_credited_ok (ow_orders w) conf (stored (ow_ledger w))"
    and "knows (ow_orders w) o'" and "copy_ok conf (stored (ow_ledger w)) o'"
    and "\<And>r p. knows r p \<Longrightarrow> copy_ok conf (stored (ow_ledger w)) p \<Longrightarrow> p = o'\<lparr>o_UpdatedAt := now\<rparr> \<Longrightarrow>
      run_ok r conf (stored (ow_ledger w)) (k p)"
    and "save_then w now o' k = (x, w')"
  shows "step_ok w w' conf x"
proof -
  obtain res r where u: "MemUpdateOrder (ow_orders w) now o' = (res, r)" by fastforce
  note ok = save_ok [OF assms(2-5) u]
  have "run_ok r conf (stored (ow_ledger w)) (k (o'\<lparr>o_UpdatedAt := now\<rparr>))"
    by (rule assms(6)) (use ok assms(4,5) in auto)
  then show ?thesis
    using assms(1,7) ok u by (auto simp: step_ok_def save_then_def save_order_def)
qed

lemma save_quietly_ok:
  assumes "ok (ow_ledger w)" and "orders_ok (ow_orders w)"
    and "orders_credited_ok (ow_orders w) conf (stored (ow_ledger w))"
    and "knows (ow_orders w) o'" and "copy_ok conf (stored (ow_ledger w)) o'"
    and "save_quietly w now o' = (p, w')" and "x = Returned (Inr p) \<or> x = Returned (Inl err)"
  shows "step_ok w w' conf x"
proof -
  obtain res r where u: "MemUpdateOrder (ow_orders w) now o' = (res, r)" by fastforce
  note ok = save_ok [OF assms(2-5) u]
  then show ?thesis
    using assms u by (auto simp: step_ok_def save_quietly_def save_order_def)
qed

end

context ledger_reversal_contract
begin

lemma post_purchase_ok:
  assumes ok: "ok (ow_ledger w)" and R: "os_ledger s = R" and r: "orders_ok (ow_orders w)"
    and c: "orders_credited_ok (ow_orders w) conf (stored (ow_ledger w))"
    and k: "knows (ow_orders w) o'" and o': "copy_ok conf (stored (ow_ledger w)) o'" "past_payment o'"
    and p: "post_purchase s w now o' = (Inr (tx, isNew), w')"
  shows "step_ok w w' conf (Running o' tok (MarkCredited (tx_ID tx)))"
proof -
  let ?key = "order_key (o_ID o')"
  obtain l where post: "repo_PostTransaction R (ow_ledger w) now ''purchase'' ?key (purchase_metadata o')
      (purchase_entries o') = (Inr (tx, isNew), l)" and w': "w' = w\<lparr>ow_ledger := l\<rparr>"
    using p R by (auto simp: post_purchase_def split: prod.splits)
  have conf: "o_ID o' \<in> conf" using o' by (simp add: copy_ok_def)
  have keeps: "stored l k = Some t" if "stored (ow_ledger w) k = Some t" for k t
    using post_keeps [OF ok post that] .
  have st: "stored l ?key = Some tx" by (rule post_stores [OF ok post])
  obtain q where q: "map_of (mo_byID (ow_orders w)) (o_ID o') = Some q" "purchase_of q = purchase_of o'"
    using k by (auto simp: knows_def)
  have old: "stored (ow_ledger w) (order_key i) = Some t \<Longrightarrow> i \<in> conf \<and>
      (\<exists>p. map_of (mo_byID (ow_orders w)) i = Some p \<and> tx_Kind t = ''purchase'' \<and> tx_Entries t = purchase_entries p)" for i t
    using c unfolding orders_credited_ok_def by blast
  have new: "i \<in> conf \<and> (\<exists>p. map_of (mo_byID (ow_orders w)) i = Some p \<and> tx_Kind t = ''purchase'' \<and>
      tx_Entries t = purchase_entries p)" if s: "stored l (order_key i) = Some t" for i t
    using ok
  proof (cases rule: post_cases [of "ow_ledger w" now "''purchase''" ?key "purchase_metadata o'" "purchase_entries o'"])
    case (new u l')
    then have l: "u = tx" "l' = l" using post by simp_all
    show ?thesis
    proof (cases "i = o_ID o'")
      case True
      then have "t = tx" using s st by simp
      then show ?thesis
        using new l True conf q purchase_entries_cong [OF q(2)] by simp
    next
      case False
      then show ?thesis using s new(9) l old [of i t] by (simp add: order_key_inj)
    qed
  next
    case (replay u)
    then show ?thesis using s old [of i t] post by simp
  qed (use post in simp)
  have "orders_credited_ok (ow_orders w) conf (stored l)"
    using c new copy_ok_mono [of conf "stored (ow_ledger w)" _ conf "stored l"] keeps
    unfolding orders_credited_ok_def by blast
  moreover have "copy_ok conf (stored l) o'" using copy_ok_mono [OF o'(1) order_refl] keeps by blast
  ultimately show ?thesis
    using post_ok [OF ok post] r k o'(2) st keeps by (auto simp: step_ok_def w')
qed

lemma ask_store_world: "ask_store s w now o' tok = (r, w') \<Longrightarrow>
    ow_orders w' = ow_orders w \<and> ow_ledger w' = ow_ledger w"
  by (auto simp: ask_store_def split: prod.splits)

lemma run_step_ok:
  assumes ok: "ok (ow_ledger w)" and R: "os_ledger s = R" and r: "orders_ok (ow_orders w)"
    and c: "orders_credited_ok (ow_orders w) conf (stored (ow_ledger w))"
    and x: "run_ok (ow_orders w) conf (stored (ow_ledger w)) x"
    and step: "run_step s now w x = (x', w')"
  shows "step_ok w w' (conf \<union> confirms s now w x) x'"
proof (cases x)
  case (Returned res)
  then have "x' = x" "w' = w" "confirms s now w x = {}" using step Returned by (auto simp: confirms_def)
  then show ?thesis using assms by (simp add: step_ok_def)
next
  case (Running o' tok pc)
  have k: "knows (ow_orders w) o'" and o': "copy_ok conf (stored (ow_ledger w)) o'"
    using x Running by simp_all
  show ?thesis
  proof (cases pc)
    case FindToken
    then show ?thesis
      using step Running ok r c k o' dispatch_ok [OF k o'] knows_cong [of "used_token o'" o']
      by (auto simp: step_ok_def confirms_def used_token_def copy_ok_def past_payment_def split: if_splits)
  next
    case MarkUsed
    obtain p where "save_quietly w now o' = (p, w')"
      using step Running MarkUsed by (cases "save_quietly w now o'") simp
    from save_quietly_ok [OF ok r c k o' this, of x' ErrTokenAlreadyUsed] show ?thesis
      using step Running MarkUsed by (simp add: confirms_def)
  next
    case Claim
    have cl: "knows (ow_orders w) (claimed s o' tok)" "copy_ok conf (stored (ow_ledger w)) (claimed s o' tok)"
      using k knows_cong [of "claimed s o' tok" o'] by (simp_all add: claimed_def copy_ok_def past_payment_def)
    show ?thesis
      using save_then_ok [OF ok r c cl, of now "\<lambda>o'. dispatch o' tok" x' w'] step Running Claim dispatch_ok
      by (simp add: confirms_def)
  next
    case AskStore
    obtain out w1 where ask: "ask_store s w now o' tok = (out, w1)" by fastforce
    note w1 = ask_store_world [OF ask]
    show ?thesis
    proof (cases out)
      case Confirmed
      let ?o = "o'\<lparr>o_Status := OrderPaid, o_StatusReason := paid_reason\<rparr>"
      have "copy_ok (insert (o_ID o') conf) (stored (ow_ledger w)) ?o" by (simp add: copy_ok_def)
      moreover have "knows (ow_orders w) ?o" using k knows_cong [of ?o o'] by simp
      ultimately show ?thesis
        using step Running AskStore ask Confirmed w1 ok r orders_credited_mono [OF c, of "insert (o_ID o') conf"]
        by (auto simp: step_ok_def confirms_def)
    next
      case VerifyPending
      let ?o = "o'\<lparr>o_StatusReason := ''waiting for the store to confirm payment''\<rparr>"
      have "copy_ok conf (stored (ow_ledger w)) ?o" using o' by (simp add: copy_ok_def past_payment_def)
      moreover have "knows (ow_orders w) ?o" using k knows_cong [of ?o o'] by simp
      ultimately show ?thesis
        using step Running AskStore ask VerifyPending w1 ok r c by (auto simp: step_ok_def confirms_def)
    next
      case VerifyInvalid
      let ?o = "o'\<lparr>o_Status := OrderFailed, o_StatusReason := ''invalid purchase token''\<rparr>"
      have "copy_ok conf (stored (ow_ledger w)) ?o" by (simp add: copy_ok_def past_payment_def)
      moreover have "knows (ow_orders w) ?o" using k knows_cong [of ?o o'] by simp
      ultimately show ?thesis
        using step Running AskStore ask VerifyInvalid w1 ok r c by (auto simp: step_ok_def confirms_def)
    next
      case (VerifyError err)
      then show ?thesis
        using step Running AskStore ask w1 ok r c by (auto simp: step_ok_def confirms_def)
    qed
  next
    case NotePending
    obtain p where p: "save_quietly w now o' = (p, w')"
      using step Running NotePending by (cases "save_quietly w now o'") simp
    from save_quietly_ok [OF ok r c k o' this, of x' ErrTokenAlreadyUsed] show ?thesis
      using step Running NotePending p by (simp add: confirms_def)
  next
    case MarkInvalid
    obtain p where "save_quietly w now o' = (p, w')"
      using step Running MarkInvalid by (cases "save_quietly w now o'") simp
    from save_quietly_ok [OF ok r c k o' this, of x' OrderInvalidToken] show ?thesis
      using step Running MarkInvalid by (simp add: confirms_def)
  next
    case MarkPaid
    show ?thesis
      using save_then_ok [OF ok r c k o', of now "\<lambda>o'. dispatch o' tok" x' w'] step Running MarkPaid dispatch_ok
      by (simp add: confirms_def)
  next
    case MarkCrediting
    let ?o = "o'\<lparr>o_Status := OrderCrediting\<rparr>"
    have "past_payment o'" using x Running MarkCrediting by simp
    then have cr: "knows (ow_orders w) ?o" "copy_ok conf (stored (ow_ledger w)) ?o"
      using k o' knows_cong [of ?o o'] by (simp_all add: copy_ok_def)
    show ?thesis
      using save_then_ok [OF ok r c cr, of now "\<lambda>o'. dispatch o' tok" x' w'] step Running MarkCrediting dispatch_ok
      by (simp add: confirms_def)
  next
    case PostCoins
    have pp: "past_payment o'" using x Running PostCoins by simp
    obtain res w1 where p: "post_purchase s w now o' = (res, w1)" by fastforce
    show ?thesis
    proof (cases res)
      case (Inl err)
      then have "w1 = w"
        using p R error_law [OF ok] by (fastforce simp: post_purchase_def split: prod.splits)
      then show ?thesis using step Running PostCoins p Inl ok r c by (auto simp: step_ok_def confirms_def)
    next
      case (Inr tb)
      then show ?thesis
        using step Running PostCoins p post_purchase_ok [OF ok R r c k o' pp, of now "fst tb" "snd tb" w1 tok]
        by (cases tb) (simp add: confirms_def)
    qed
  next
    case (MarkCredited i)
    let ?o = "o'\<lparr>o_Status := OrderCredited, o_StatusReason := ''coins credited'', o_LedgerTransactionID := i\<rparr>"
    have cr: "knows (ow_orders w) ?o" "copy_ok conf (stored (ow_ledger w)) ?o"
      using x k o' Running MarkCredited knows_cong [of ?o o'] by (simp_all add: copy_ok_def)
    show ?thesis
      using save_then_ok [OF ok r c cr, of now "\<lambda>o'. Returned (Inr o')" x' w'] step Running MarkCredited
      by (simp add: confirms_def)
  qed
qed

end

context ledger_reversal_contract
begin

lemma system_ok_runs:
  assumes "system_ok y" and "\<And>x. x \<in> set xs \<Longrightarrow>
    run_ok (ow_orders (sy_world y)) (sy_confirmed y) (stored (ow_ledger (sy_world y))) x"
  shows "system_ok (y\<lparr>sy_runs := sy_runs y @ xs\<rparr>)"
  using assms by (auto simp: system_ok_def Let_def)

lemma begin_ok:
  assumes "orders_ok r" and "orders_credited_ok r conf st" and "map_of (mo_byID r) i = Some o'"
  shows "run_ok r conf st (begin_advance o' tok)"
proof -
  have "copy_ok conf st o'" using assms(2,3) by (auto simp: orders_credited_ok_def)
  then show ?thesis using knows_get [OF assms(1,3)] by (auto simp: begin_advance_def)
qed

lemma system_ok_world:
  assumes y: "system_ok y" and l: "ok (ow_ledger w)" and r: "orders_ok (ow_orders w)"
    and c: "orders_credited_ok (ow_orders w) (sy_confirmed y) (stored (ow_ledger w))"
    and k: "\<And>p. knows (ow_orders (sy_world y)) p \<Longrightarrow> knows (ow_orders w) p"
    and st: "\<And>k t. stored (ow_ledger (sy_world y)) k = Some t \<Longrightarrow> stored (ow_ledger w) k = Some t"
  shows "system_ok (y\<lparr>sy_world := w\<rparr>)"
proof -
  have "run_ok (ow_orders w) (sy_confirmed y) (stored (ow_ledger w)) x" if "x \<in> set (sy_runs y)" for x
    by (rule run_ok_mono [OF _ k subset_refl st]) (use y that in \<open>auto simp: system_ok_def Let_def\<close>)
  then show ?thesis using l r c by (simp add: system_ok_def Let_def)
qed

lemma create_ok:
  assumes "system_ok y" and "CreateOrder s (sy_world y) now a sku platform key = (res, w)"
  shows "system_ok (y\<lparr>sy_world := w\<rparr>)"
proof (cases "ow_orders w = ow_orders (sy_world y) \<and> ow_ledger w = ow_ledger (sy_world y)")
  case True
  then show ?thesis using assms(1) by (simp add: system_ok_def Let_def)
next
  case False
  let ?r = "ow_orders (sy_world y)" and ?st = "stored (ow_ledger (sy_world y))"
  obtain o' r' where c: "MemCreateOrder ?r now a sku platform = (Inr o', r')" "ow_orders w = r'"
      "ow_ledger w = ow_ledger (sy_world y)" "o_Status o' = OrderCreated"
    using assms(2) False
    by (auto simp: CreateOrder_def MemCreateOrder_def Let_def split: option.splits sum.splits prod.splits)
  have inv: "ok (ow_ledger (sy_world y))" "orders_ok ?r" "orders_credited_ok ?r (sy_confirmed y) ?st"
    using assms(1) by (simp_all add: system_ok_def Let_def)
  note ok = MemCreateOrder_ok [OF inv(2) c(1)]
  have "orders_credited_ok r' (sy_confirmed y) ?st"
    unfolding orders_credited_ok_def
  proof (intro conjI allI impI)
    fix i q assume "map_of (mo_byID r') i = Some q"
    then show "copy_ok (sy_confirmed y) ?st q"
      using inv(3) c(4) by (cases "i = o_ID o'") (auto simp: ok orders_credited_ok_def copy_ok_def past_payment_def)
  next
    fix i t assume "?st (order_key i) = Some t"
    then obtain q where q: "i \<in> sy_confirmed y" "map_of (mo_byID ?r) i = Some q" "tx_Kind t = ''purchase''"
        "tx_Entries t = purchase_entries q"
      using inv(3) unfolding orders_credited_ok_def by blast
    then have "map_of (mo_byID r') i = Some q" using ok(3) by (auto simp: ok(2))
    then show "i \<in> sy_confirmed y" "\<exists>o'. map_of (mo_byID r') i = Some o' \<and> tx_Kind t = ''purchase'' \<and>
        tx_Entries t = purchase_entries o'" using q by simp_all
  qed
  then show ?thesis
    using system_ok_world [OF assms(1), of w] inv ok(1) c knows_create [OF inv(2) c(1)] by simp
qed

lemma other_key_ok:
  assumes y: "system_ok y" and l: "ok l" and st: "stored l = stored (ow_ledger (sy_world y)) \<or>
    stored (ow_ledger (sy_world y)) key = None \<and>
    stored l = (stored (ow_ledger (sy_world y)))(key \<mapsto> t)" and key: "\<not> HasPrefix key ''order-''"
  shows "system_ok (y\<lparr>sy_world := (sy_world y)\<lparr>ow_ledger := l\<rparr>\<rparr>)"
proof -
  let ?st = "stored (ow_ledger (sy_world y))"
  have "order_key i \<noteq> key" for i using key order_key_prefix by metis
  then have same: "stored l (order_key i) = ?st (order_key i)" for i using st by auto
  have keep: "?st k = Some u \<Longrightarrow> stored l k = Some u" for k u using st by auto
  have "copy_ok conf (stored l) o' = copy_ok conf ?st o'" for conf o' by (simp add: copy_ok_def same)
  then have "orders_credited_ok (ow_orders (sy_world y)) (sy_confirmed y) (stored l)"
    using y by (simp add: system_ok_def Let_def orders_credited_ok_def same)
  then show ?thesis
    using system_ok_world [OF y, of "(sy_world y)\<lparr>ow_ledger := l\<rparr>"] y l keep
    by (simp add: system_ok_def Let_def)
qed

lemma order_step_ok:
  assumes "order_step s y y'" and "os_ledger s = R" and y: "system_ok y"
  shows "system_ok y'"
  using assms(1)
proof cases
  case (verify i o' a tok)
  let ?r = "ow_orders (sy_world y)"
  have inv: "orders_ok ?r" "orders_credited_ok ?r (sy_confirmed y) (stored (ow_ledger (sy_world y)))"
    using y by (simp_all add: system_ok_def Let_def)
  have "map_of (mo_byID ?r) i = Some o'"
    using verify(2) by (simp add: MemGetOrder_def split: option.splits)
  from begin_ok [OF inv this] have "system_ok (y\<lparr>sy_runs := sy_runs y @ [begin_advance o' tok]\<rparr>)"
    by (intro system_ok_runs [OF y]) simp
  then show ?thesis by (simp only: verify(1))
next
  case reconcile
  let ?r = "ow_orders (sy_world y)"
  have inv: "orders_ok ?r" "orders_credited_ok ?r (sy_confirmed y) (stored (ow_ledger (sy_world y)))"
    using y by (simp_all add: system_ok_def Let_def)
  have "run_ok ?r (sy_confirmed y) (stored (ow_ledger (sy_world y))) x"
    if x: "x \<in> set (map (\<lambda>o'. begin_advance o' []) (ListNonTerminal ?r))" for x
  proof -
    from x obtain i o' where "x = begin_advance o' []" "(i, o') \<in> set (mo_byID ?r)"
      by (auto simp: ListNonTerminal_def)
    moreover from this have "map_of (mo_byID ?r) i = Some o'"
      using orders_okD(1) [OF inv(1)] by (simp add: wf_map_ranI)
    ultimately show ?thesis using begin_ok [OF inv] by simp
  qed
  from system_ok_runs [OF y this] show ?thesis by (simp only: reconcile)
next
  case (run i now r w)
  let ?w = "sy_world y" and ?x = "sy_runs y ! i"
  have inv: "ok (ow_ledger ?w)" "orders_ok (ow_orders ?w)"
      "orders_credited_ok (ow_orders ?w) (sy_confirmed y) (stored (ow_ledger ?w))"
    and runs: "\<And>x. x \<in> set (sy_runs y) \<Longrightarrow> run_ok (ow_orders ?w) (sy_confirmed y) (stored (ow_ledger ?w)) x"
    using y by (simp_all add: system_ok_def Let_def)
  have "step_ok ?w w (sy_confirmed y \<union> confirms s now ?w ?x) r"
    using run_step_ok [OF inv(1) assms(2) inv(2,3) _ run(3)] runs run(2) by simp
  then have new: "ok (ow_ledger w)" "orders_ok (ow_orders w)"
      "orders_credited_ok (ow_orders w) (sy_confirmed y') (stored (ow_ledger w))"
      "run_ok (ow_orders w) (sy_confirmed y') (stored (ow_ledger w)) r"
    and k: "\<And>p. knows (ow_orders ?w) p \<Longrightarrow> knows (ow_orders w) p"
    and st: "\<And>k t. stored (ow_ledger ?w) k = Some t \<Longrightarrow> stored (ow_ledger w) k = Some t"
    using run(1) by (simp_all add: step_ok_def)
  have old: "run_ok (ow_orders w) (sy_confirmed y') (stored (ow_ledger w)) x" if "x \<in> set (sy_runs y)" for x
    by (rule run_ok_mono [OF runs [OF that] k _ st]) (simp_all add: run(1))
  have "sy_runs y' = (sy_runs y)[i := r]" and w: "sy_world y' = w" by (simp_all add: run(1))
  then have "set (sy_runs y') \<subseteq> insert r (set (sy_runs y))"
    using set_update_subset_insert [of "sy_runs y" i r] by simp
  then have "\<forall>x \<in> set (sy_runs y'). run_ok (ow_orders w) (sy_confirmed y') (stored (ow_ledger w)) x"
    using new(4) old by blast
  then show ?thesis using new(1-3) by (simp add: system_ok_def Let_def w)
next
  case (create now a sku platform key res w)
  then show ?thesis using create_ok [OF y] by blast
next
  case (limits now a req)
  then show ?thesis using y by (simp add: system_ok_def Let_def)
next
  case (other_post key now kind md es res l)
  have ok: "ok (ow_ledger (sy_world y))" using y by (simp add: system_ok_def Let_def)
  have "stored l = stored (ow_ledger (sy_world y)) \<or> stored (ow_ledger (sy_world y)) key = None \<and>
      (\<exists>t. stored l = (stored (ow_ledger (sy_world y)))(key \<mapsto> t))"
    using other_post(3) assms(2)
    by (cases rule: post_cases [OF ok, of now kind key md es]) auto
  then show ?thesis
    using other_key_ok [OF y post_ok [OF ok] _ other_post(2)] other_post assms(2) by blast
next
  case (other_reverse key now i reason res l)
  have ok: "ok (ow_ledger (sy_world y))" using y by (simp add: system_ok_def Let_def)
  have "stored l = stored (ow_ledger (sy_world y)) \<or> stored (ow_ledger (sy_world y)) key = None \<and>
      (\<exists>t. stored l = (stored (ow_ledger (sy_world y)))(key \<mapsto> t))"
  proof (cases res)
    case (Inl err)
    then show ?thesis using other_reverse(3) assms(2) reverse_error [OF ok] by blast
  next
    case (Inr tb)
    then show ?thesis
      using other_reverse(3) assms(2) reverse_new [OF ok, of key now i reason "fst tb" "snd tb" l]
        reverse_replay [OF ok, of key _ now i reason]
      by (cases "stored (ow_ledger (sy_world y)) key") auto
  qed
  then show ?thesis
    using other_key_ok [OF y reverse_ok [OF ok] _ other_reverse(2)] other_reverse assms(2) by blast
qed

lemma order_start_ok:
  "ok l \<Longrightarrow> (\<And>k. HasPrefix k ''order-'' \<Longrightarrow> stored l k = None) \<Longrightarrow> system_ok (order_start l v lim)"
  by (simp add: system_ok_def Let_def order_start_def orders_ok_new orders_credited_ok_def order_key_prefix)
    (simp add: NewMemOrderRepo_def)

lemma order_steps_ok:
  "order_steps s y y' \<Longrightarrow> os_ledger s = R \<Longrightarrow> system_ok y \<Longrightarrow> system_ok y'"
  by (induction rule: rtranclp_induct) (auto intro: order_step_ok)

end

section \<open>One call, uninterrupted\<close>

text \<open>\<open>credited w o p w'\<close>: the order \<open>o\<close> has become \<open>p\<close>, credited and stored, its
  coins are posted, and no other order, nor the token index beyond \<open>o\<close>'s own token, changed.\<close>

definition only_order :: "('l, 'v) order_world \<Rightarrow> order \<Rightarrow> ('l, 'v) order_world \<Rightarrow> bool" where
  "only_order w o' w' \<longleftrightarrow> orders_ok (ow_orders w') \<and>
     (\<forall>j. j \<noteq> o_ID o' \<longrightarrow> map_of (mo_byID (ow_orders w')) j = map_of (mo_byID (ow_orders w)) j) \<and>
     (\<forall>h. h \<noteq> o_TokenHash o' \<longrightarrow> map_of (mo_byToken (ow_orders w')) h = map_of (mo_byToken (ow_orders w)) h)"

lemma only_order_trans:
  "only_order w o' w1 \<Longrightarrow> only_order w1 p w2 \<Longrightarrow> o_ID p = o_ID o' \<Longrightarrow> o_TokenHash p = o_TokenHash o' \<Longrightarrow>
     only_order w o' w2"
  by (simp add: only_order_def)

lemma only_order_cong:
  "ow_orders w1 = ow_orders w \<Longrightarrow> o_ID p = o_ID o' \<Longrightarrow> o_TokenHash p = o_TokenHash o' \<Longrightarrow>
     only_order w1 p w2 = only_order w o' w2"
  by (simp add: only_order_def)

lemma save_known:
  assumes "orders_ok (ow_orders w)" and "knows (ow_orders w) o'"
  obtains w' where "save_order w now o' = (Inr (o'\<lparr>o_UpdatedAt := now\<rparr>), w')"
    "ow_ledger w' = ow_ledger w" "ow_verifier w' = ow_verifier w" "only_order w o' w'"
    "map_of (mo_byID (ow_orders w')) (o_ID o') = Some (o'\<lparr>o_UpdatedAt := now\<rparr>)"
    "knows (ow_orders w') (o'\<lparr>o_UpdatedAt := now\<rparr>)"
proof -
  obtain res r where u: "MemUpdateOrder (ow_orders w) now o' = (res, r)" by fastforce
  note ok = MemUpdateOrder_ok [OF assms u]
  have "map_of (mo_byToken r) h = map_of (mo_byToken (ow_orders w)) h" if "h \<noteq> o_TokenHash o'" for h
    using u that by (cases rule: MemUpdateOrder_cases [of "ow_orders w" o' now]) auto
  then show ?thesis
    using that [of "w\<lparr>ow_orders := r\<rparr>"] u ok knows_update [OF assms(2) u assms(2)]
    by (simp add: save_order_def only_order_def)
qed

lemma entries_at_purchase:
  "entries_at k (purchase_entries o') =
     (if k = (UserCoinsAccount (o_AccountID o'), Coin) then o_Coins o' else 0) +
     (if k = (PlatformLiabilityAccount, Coin) then neg64 (o_Coins o') else 0)"
  by (auto simp: entries_at_def purchase_entries_def entry_key_def account_defs)

lemma purchase_entries_fine:
  "purchase_entries o' \<noteq> []" "balanced (purchase_entries o')" "distinct (map entry_key (purchase_entries o'))"
proof -
  have "wrap64 (o_Coins o' + neg64 (o_Coins o')) = 0" by (simp add: neg64_def)
  then show "balanced (purchase_entries o')"
    by (auto simp: balanced_iff purchase_entries_def)
qed (simp_all add: purchase_entries_def entry_key_def account_defs)

context ledger_contract
begin

definition credited :: "('l, 'v) order_world \<Rightarrow> order \<Rightarrow> order \<Rightarrow> ('l, 'v) order_world \<Rightarrow> bool" where
  "credited w o' p w' \<longleftrightarrow> o_Status p = OrderCredited \<and> purchase_of p = purchase_of o' \<and>
     map_of (mo_byID (ow_orders w')) (o_ID o') = Some p \<and> only_order w o' w' \<and> ok (ow_ledger w') \<and>
     (\<exists>t. stored (ow_ledger w') (order_key (o_ID o')) = Some t \<and> tx_ID t = o_LedgerTransactionID p) \<and>
     (if stored (ow_ledger w) (order_key (o_ID o')) = None
      then \<forall>k. bl (ow_ledger w') k = add64 (bl (ow_ledger w) k) (entries_at k (purchase_entries o'))
      else ow_ledger w' = ow_ledger w)"

lemma credited_trans:
  assumes "credited w1 p q w2" and "only_order w o' w1" and "ow_ledger w1 = ow_ledger w"
    and "purchase_of p = purchase_of o'" and "o_TokenHash p = o_TokenHash o'"
  shows "credited w o' q w2"
proof -
  have i: "o_ID p = o_ID o'" using assms(4) by (simp add: purchase_of_def)
  moreover have "only_order w o' w2"
    using only_order_trans [OF assms(2) _ i assms(5)] assms(1) unfolding credited_def by blast
  ultimately show ?thesis
    using assms purchase_entries_cong [OF assms(4)] by (simp add: credited_def)
qed

lemma post_purchase_succeeds:
  assumes ok: "ok (ow_ledger w)" and R: "os_ledger s = R" and c: "0 < o_Coins o'"
    and room: "bl (ow_ledger w) (UserCoinsAccount (o_AccountID o'), Coin) + o_Coins o' < 2 ^ 63"
  shows "\<exists>t b l. post_purchase s w now o' = (Inr (t, b), w\<lparr>ow_ledger := l\<rparr>) \<and> ok l \<and>
    stored l (order_key (o_ID o')) = Some t \<and>
    (if stored (ow_ledger w) (order_key (o_ID o')) = None
     then \<forall>k. bl l k = add64 (bl (ow_ledger w) k) (entries_at k (purchase_entries o'))
     else l = ow_ledger w)"
proof -
  let ?l = "ow_ledger w" and ?key = "order_key (o_ID o')"
  show ?thesis
  proof (cases "stored ?l ?key")
    case (Some t)
    then show ?thesis using replay_law [OF ok Some] ok R by (auto simp: post_purchase_def)
  next
    case None
    let ?b = "bl ?l (UserCoinsAccount (o_AccountID o'), Coin)"
    have "0 \<le> ?b" using ok by (simp add: nonneg_law)
    then have "0 \<le> add64 ?b (o_Coins o')" using c room by (simp add: add64_id in_i64_def)
    then have "affordable (bl ?l) (purchase_entries o')"
      by (simp add: affordable_def purchase_entries_def entry_key_def)
    then obtain t l where post: "repo_PostTransaction R ?l now ''purchase'' ?key (purchase_metadata o')
        (purchase_entries o') = (Inr (t, True), l)"
      using affordable_law [OF ok None purchase_entries_fine] by blast
    then show ?thesis using new_law [OF ok None post] None R by (auto simp: post_purchase_def)
  qed
qed

lemma advance_credit_credits:
  assumes ok: "ok (ow_ledger w)" and R: "os_ledger s = R" and r: "orders_ok (ow_orders w)"
    and k: "knows (ow_orders w) o'" and st: "o_Status o' = OrderCrediting"
    and room: "bl (ow_ledger w) (UserCoinsAccount (o_AccountID o'), Coin) + o_Coins o' < 2 ^ 63"
  shows "\<exists>p w'. advance_credit s w now o' = (Inr p, w') \<and> credited w o' p w'"
proof -
  obtain q where q: "map_of (mo_byID (ow_orders w)) (o_ID o') = Some q" "purchase_of q = purchase_of o'"
    using k by (auto simp: knows_def)
  have c: "0 < o_Coins o'" using orders_okD(3) [OF r q(1)] q(2) by (simp add: order_ok_def purchase_of_def)
  obtain t b l where p: "post_purchase s w now o' = (Inr (t, b), w\<lparr>ow_ledger := l\<rparr>)" and l: "ok l"
      "stored l (order_key (o_ID o')) = Some t"
      "if stored (ow_ledger w) (order_key (o_ID o')) = None
       then \<forall>k. bl l k = add64 (bl (ow_ledger w) k) (entries_at k (purchase_entries o')) else l = ow_ledger w"
    using post_purchase_succeeds [OF ok R c room, of now] by blast
  let ?w = "w\<lparr>ow_ledger := l\<rparr>"
  let ?o = "o'\<lparr>o_Status := OrderCredited, o_StatusReason := ''coins credited'', o_LedgerTransactionID := tx_ID t\<rparr>"
  have k': "knows (ow_orders ?w) ?o" using k knows_cong [of ?o o'] by simp
  have r': "orders_ok (ow_orders ?w)" using r by simp
  obtain w' where w': "save_order ?w now ?o = (Inr (?o\<lparr>o_UpdatedAt := now\<rparr>), w')" "ow_ledger w' = ow_ledger ?w"
      "only_order ?w ?o w'" "map_of (mo_byID (ow_orders w')) (o_ID ?o) = Some (?o\<lparr>o_UpdatedAt := now\<rparr>)"
    using save_known [OF r' k'] by metis
  have "only_order w o' w'" using w'(3) by (simp add: only_order_def)
  then show ?thesis
    using st p w' l by (simp add: advance_credit_def credited_def)
qed

lemma advance_paid_credits:
  assumes ok: "ok (ow_ledger w)" and R: "os_ledger s = R" and r: "orders_ok (ow_orders w)"
    and k: "knows (ow_orders w) o'" and st: "o_Status o' \<in> {OrderPaid, OrderCrediting}"
    and room: "bl (ow_ledger w) (UserCoinsAccount (o_AccountID o'), Coin) + o_Coins o' < 2 ^ 63"
  shows "\<exists>p w'. advance_paid s w now o' = (Inr p, w') \<and> credited w o' p w'"
proof (cases "o_Status o' = OrderPaid")
  case True
  let ?o = "o'\<lparr>o_Status := OrderCrediting\<rparr>"
  have k': "knows (ow_orders w) ?o" using k knows_cong [of ?o o'] by simp
  obtain w1 where w1: "save_order w now ?o = (Inr (?o\<lparr>o_UpdatedAt := now\<rparr>), w1)"
      "ow_ledger w1 = ow_ledger w" "only_order w ?o w1" "knows (ow_orders w1) (?o\<lparr>o_UpdatedAt := now\<rparr>)"
    using save_known [OF r k'] by metis
  have r1: "orders_ok (ow_orders w1)" using w1(3) by (simp add: only_order_def)
  have "\<exists>p w'. advance_credit s w1 now (?o\<lparr>o_UpdatedAt := now\<rparr>) = (Inr p, w') \<and>
      credited w1 (?o\<lparr>o_UpdatedAt := now\<rparr>) p w'"
    by (rule advance_credit_credits [OF _ R r1 w1(4)]) (use ok w1(2) room in simp_all)
  moreover have "only_order w o' w1" using w1(3) by (simp add: only_order_def)
  ultimately show ?thesis
    using True w1(1,2) credited_trans [of w1 "?o\<lparr>o_UpdatedAt := now\<rparr>" _ _ w o']
    by (auto simp: advance_paid_def)
next
  case False
  then show ?thesis
    using st advance_credit_credits [OF ok R r k _ room, of now] by (simp add: advance_paid_def)
qed

lemma advance_pending_credits:
  assumes ok: "ok (ow_ledger w)" and R: "os_ledger s = R" and r: "orders_ok (ow_orders w)"
    and k: "knows (ow_orders w) o'" and st: "o_Status o' \<in> {OrderPendingPayment, OrderPaid, OrderCrediting}"
    and ask: "o_Status o' = OrderPendingPayment \<Longrightarrow> fst (ask_store s w now o' tok) = Confirmed"
    and room: "bl (ow_ledger w) (UserCoinsAccount (o_AccountID o'), Coin) + o_Coins o' < 2 ^ 63"
  shows "\<exists>p w'. advance_pending s w now o' tok = (Inr p, w') \<and> credited w o' p w'"
proof (cases "o_Status o' = OrderPendingPayment")
  case True
  obtain w0 where w0: "ask_store s w now o' tok = (Confirmed, w0)" using ask [OF True] by (metis prod.collapse)
  have e: "ow_orders w0 = ow_orders w" "ow_ledger w0 = ow_ledger w"
    using w0 by (auto simp: ask_store_def split: prod.splits)
  let ?o = "o'\<lparr>o_Status := OrderPaid, o_StatusReason := paid_reason\<rparr>"
  have k': "knows (ow_orders w0) ?o" and r0: "orders_ok (ow_orders w0)"
    using k r knows_cong [of ?o o'] by (simp_all add: e)
  obtain w1 where w1: "save_order w0 now ?o = (Inr (?o\<lparr>o_UpdatedAt := now\<rparr>), w1)"
      "ow_ledger w1 = ow_ledger w0" "only_order w0 ?o w1" "knows (ow_orders w1) (?o\<lparr>o_UpdatedAt := now\<rparr>)"
    using save_known [OF r0 k'] by metis
  have r1: "orders_ok (ow_orders w1)" using w1(3) by (simp add: only_order_def)
  have "\<exists>p w'. advance_paid s w1 now (?o\<lparr>o_UpdatedAt := now\<rparr>) = (Inr p, w') \<and>
      credited w1 (?o\<lparr>o_UpdatedAt := now\<rparr>) p w'"
    by (rule advance_paid_credits [OF _ R r1 w1(4)]) (use ok w1(2) e room in simp_all)
  moreover have "only_order w o' w1" using w1(3) e by (simp add: only_order_def)
  ultimately show ?thesis
    using True w0 w1(1,2) e credited_trans [of w1 "?o\<lparr>o_UpdatedAt := now\<rparr>" _ _ w o']
    by (auto simp: advance_pending_def)
next
  case False
  then show ?thesis
    using st advance_paid_credits [OF ok R r k _ room, of now] by (simp add: advance_pending_def)
qed

text \<open>An order that is under way, whose payment the store confirms, is credited by one call.\<close>

lemma advance_credits:
  assumes ok: "ok (ow_ledger w)" and R: "os_ledger s = R" and r: "orders_ok (ow_orders w)"
    and o': "map_of (mo_byID (ow_orders w)) (o_ID o') = Some o'" "o_Status o' \<in> set NonTerminalOrderStatuses"
    and tok: "t = (if tok = [] then o_PurchaseToken o' else tok)" "\<not> token_taken s w o' t"
    and ask: "o_Status o' = OrderPendingPayment \<Longrightarrow> fst (ask_store s w now o' t) = Confirmed"
    and room: "bl (ow_ledger w) (UserCoinsAccount (o_AccountID o'), Coin) + o_Coins o' < 2 ^ 63"
  shows "\<exists>p w'. advance s w now o' tok = (Inr p, w') \<and> credited w o' p w'"
proof -
  have k: "knows (ow_orders w) o'" using knows_get [OF r o'(1)] by simp
  have st: "o_Status o' \<in> {OrderPendingPayment, OrderPaid, OrderCrediting}"
    using o'(2) by (simp add: NonTerminalOrderStatuses_def)
  from advance_pending_credits [OF ok R r k st ask room] have
    "\<exists>p w'. advance_pending s w now o' t = (Inr p, w') \<and> credited w o' p w'" by blast
  moreover have "advance s w now o' tok = advance_pending s w now o' t"
    using st tok by (auto simp: advance_def advance_created_def Let_def)
  ultimately show ?thesis by simp
qed

end

section \<open>Exactly once\<close>

subsection \<open>The journal of one process has one transaction per key\<close>

definition posts_under :: "mem_ledger \<Rightarrow> string \<Rightarrow> transaction list" where
  "posts_under l key = filter (\<lambda>t. tx_IdempotencyKey t = key) (journal l)"

definition keyed :: "mem_ledger \<Rightarrow> bool" where
  "keyed l \<longleftrightarrow> (\<forall>key. posts_under l key = (case map_of (ml_byKey l) key of None \<Rightarrow> [] | Some t \<Rightarrow> [t]))"

lemma keyed_new: "keyed NewMemLedger"
  by (simp add: keyed_def posts_under_def journal_def NewMemLedger_def)

lemma keyed_posted: "fresh_post l p tx \<Longrightarrow> ids_ok l \<Longrightarrow> keyed l \<Longrightarrow> keyed (posted l p tx)"
  using journal_posted [of l p tx]
  by (simp add: keyed_def posts_under_def) (simp add: posted_def fresh_post_def)

lemma keyed_reversalOf [simp]: "keyed (l\<lparr>ml_reversalOf := m\<rparr>) = keyed l"
  by (simp add: keyed_def posts_under_def journal_def)

lemma keyed_step: "ledger_step l l' \<Longrightarrow> ledger_inv l \<Longrightarrow> keyed l \<Longrightarrow> keyed l'"
proof (induction rule: ledger_step.induct)
  case (post l now kind key md es)
  then show ?case
    by (cases rule: postLocked_cases [of l key now kind md es])
      (auto simp: PostTransaction_def ledger_inv_def intro: keyed_posted)
next
  case (reverse l now i key reason)
  then show ?case
    by (cases rule: ReverseTransaction_cases [of l key now i reason])
      (auto simp: ledger_inv_def intro: keyed_posted)
qed

lemma keyed_steps: "ledger_steps NewMemLedger l \<Longrightarrow> ledger_inv l \<and> keyed l"
  by (induction rule: rtranclp_induct) (auto simp: ledger_inv_new keyed_new ledger_step_inv keyed_step)

lemma save_ledger:
  "save_order w now o' = (res, w') \<Longrightarrow> ow_ledger w' = ow_ledger w"
  "save_quietly w now o' = (p, w') \<Longrightarrow> ow_ledger w' = ow_ledger w"
  "save_then w now o' k = (x, w') \<Longrightarrow> ow_ledger w' = ow_ledger w"
  by (auto simp: save_order_def save_quietly_def save_then_def split: prod.splits sum.splits)

lemma save_quietly_ledger [simp]: "ow_ledger (snd (save_quietly w now o')) = ow_ledger w"
  using save_ledger(2) by (metis prod.collapse)

lemma run_step_ledger:
  assumes "os_ledger s = mem_ledger_repo" and "run_step s now w x = (x', w')"
  shows "ledger_steps (ow_ledger w) (ow_ledger w')"
proof (cases x)
  case (Running o' tok pc)
  have post: "ledger_steps (ow_ledger w) (ow_ledger w1)" if "post_purchase s w now o' = (r, w1)" for r w1
    using that assms(1) ledger_step.post [of "ow_ledger w" now "''purchase''" "order_key (o_ID o')"
        "purchase_metadata o'" "purchase_entries o'"]
    by (auto simp: post_purchase_def mem_ledger_repo_def split: prod.splits)
  have ask: "ow_ledger w1 = ow_ledger w" if "ask_store s w now o' tok = (r, w1)" for r w1
    using that by (auto simp: ask_store_def split: prod.splits)
  show ?thesis
    using assms(2) Running
    by (cases pc) (auto split: prod.splits sum.splits verify_outcome.splits if_splits
        dest: save_ledger post ask)
qed (use assms in simp)

lemma order_step_ledger:
  assumes "order_step s y y'" and "os_ledger s = mem_ledger_repo"
  shows "ledger_steps (ow_ledger (sy_world y)) (ow_ledger (sy_world y'))"
  using assms(1)
proof cases
  case (run i now r w)
  then show ?thesis using run_step_ledger [OF assms(2) run(3)] by simp
next
  case (create now a sku platform key res w)
  then have "ow_ledger w = ow_ledger (sy_world y)"
    by (auto simp: CreateOrder_def split: option.splits prod.splits sum.splits)
  then show ?thesis using create by simp
next
  case (other_post key now kind md es res l)
  then show ?thesis
    using ledger_step.post [of "ow_ledger (sy_world y)" now kind key md es] assms(2)
    by (simp add: mem_ledger_repo_def)
next
  case (other_reverse key now i reason res l)
  then show ?thesis
    using ledger_step.reverse [of "ow_ledger (sy_world y)" now i key reason] assms(2)
    by (simp add: mem_ledger_repo_def)
qed simp_all

lemma order_steps_ledger:
  "order_steps s y y' \<Longrightarrow> os_ledger s = mem_ledger_repo \<Longrightarrow>
     ledger_steps (ow_ledger (sy_world y)) (ow_ledger (sy_world y'))"
  by (induction rule: rtranclp_induct) (auto dest: order_step_ledger intro: rtranclp_trans)

text \<open>A whole call is one of the interleavings.\<close>

lemma order_steps_run:
  assumes "i < length (sy_runs y)" and "run_steps n s now (sy_runs y ! i, sy_world y) = (r, w)"
  shows "\<exists>conf. order_steps s y \<lparr>sy_world = w, sy_runs = (sy_runs y)[i := r], sy_confirmed = conf\<rparr>"
  using assms
proof (induction n arbitrary: y)
  case 0
  then have "y = \<lparr>sy_world = w, sy_runs = (sy_runs y)[i := r], sy_confirmed = sy_confirmed y\<rparr>" by auto
  then show ?case by (metis rtranclp.rtrancl_refl)
next
  case (Suc n)
  obtain x w1 where st: "run_step s now (sy_world y) (sy_runs y ! i) = (x, w1)" by fastforce
  let ?y = "\<lparr>sy_world = w1, sy_runs = (sy_runs y)[i := x],
      sy_confirmed = sy_confirmed y \<union> confirms s now (sy_world y) (sy_runs y ! i)\<rparr>"
  have "order_step s y ?y" by (rule order_step.run [OF Suc.prems(1) st])
  moreover have "\<exists>conf. order_steps s ?y \<lparr>sy_world = w, sy_runs = (sy_runs ?y)[i := r], sy_confirmed = conf\<rparr>"
    using Suc.prems st by (intro Suc.IH) simp_all
  ultimately show ?case by (auto intro: converse_rtranclp_into_rtranclp)
qed

lemma order_steps_VerifyOrder:
  assumes "MemGetOrder (ow_orders (sy_world y)) i = Inr o'" and "o_AccountID o' = a"
    and "VerifyOrder s (sy_world y) now a i tok = (res, w)"
  shows "\<exists>conf. order_steps s y \<lparr>sy_world = w, sy_runs = sy_runs y @ [Returned res], sy_confirmed = conf\<rparr>"
proof -
  let ?y = "y\<lparr>sy_runs := sy_runs y @ [begin_advance o' tok]\<rparr>"
  have 1: "order_step s y ?y" by (rule order_step.verify [OF assms(1,2)])
  have "run_steps 7 s now (sy_runs ?y ! length (sy_runs y), sy_world ?y) = (Returned res, w)"
    using assms advance_runs [of s now o' tok "sy_world y"] by (simp add: VerifyOrder_def)
  from order_steps_run [OF _ this] obtain conf where
    "order_steps s ?y \<lparr>sy_world = w, sy_runs = (sy_runs ?y)[length (sy_runs y) := Returned res], sy_confirmed = conf\<rparr>"
    by auto
  with 1 show ?thesis by (auto intro: converse_rtranclp_into_rtranclp)
qed


subsection \<open>A small shop for the witnesses\<close>

text \<open>Google Play is configured: the token \<open>paid\<close> is a purchase of whatever product is asked for,
  every other token is still pending.\<close>

definition demo_stores :: store_config where
  "demo_stores = \<lparr>cfg_stripe = None, cfg_play = Some (\<lambda>c now. Some (''access'', 3600),
     \<lambda>access sku tok. PlayReply 200 (Some \<lparr>pp_PurchaseState = (if tok = ''paid'' then 0 else 2), pp_ProductID = sku,
        pp_OrderID = ''GPA-1'', pp_ObfuscatedExternalAccountId = [], pp_AcknowledgementState = 0\<rparr>))\<rparr>"

definition demo_shop :: "(mem_ledger, verifier_state) order_service" where
  "demo_shop = \<lparr>os_ledger = mem_ledger_repo, os_verify = purchaseVerifier demo_stores,
     os_hash = (\<lambda>tok. ''#'' @ tok), os_limits = True, os_onDispute = True\<rparr>"

definition demo_verifiers :: verifier_state where
  "demo_verifiers = \<lparr>vs_dev = [], vs_devStripe = [], vs_devPlay = [], vs_play = \<lparr>pc_accessToken = [], pc_expiresAt = 0\<rparr>\<rparr>"

definition demo_opened :: "(mem_ledger, verifier_state) order_world" where
  "demo_opened = sy_world (order_start NewMemLedger demo_verifiers [])"

definition demo_created :: "(mem_ledger, verifier_state) order_world" where
  "demo_created = snd (CreateOrder demo_shop
     (snd (CreateOrder demo_shop demo_opened 10 ''u'' ''coins_100'' ''google_play'' ''c1''))
     20 ''u'' ''coins_500'' ''google_play'' ''c2'')"

definition demo_pending :: "(mem_ledger, verifier_state) order_world" where
  "demo_pending = snd (VerifyOrder demo_shop (snd (VerifyOrder demo_shop demo_created 30 ''u'' ''order-1'' ''t1''))
     40 ''u'' ''order-2'' ''t2'')"

definition demo_credited :: "(mem_ledger, verifier_state) order_world" where
  "demo_credited = snd (VerifyOrder demo_shop demo_pending 50 ''u'' ''order-1'' ''paid'')"

lemma demo_status:
  "map (\<lambda>(i, q). (i, o_Status q)) (mo_byID (ow_orders demo_credited)) =
     [(''order-1'', OrderCredited), (''order-2'', OrderPendingPayment)]"
  by code_simp

lemma demo_created_orders:
  "map (\<lambda>(i, q). (i, o_AccountID q, o_Status q)) (mo_byID (ow_orders demo_created)) =
     [(''order-1'', ''u'', OrderCreated), (''order-2'', ''u'', OrderCreated)]"
  by code_simp

text \<open>The demonstration is an interleaving: two orders, then three calls one after the other.\<close>

lemma demo_created_steps:
  "order_steps demo_shop (order_start NewMemLedger demo_verifiers [])
     ((order_start NewMemLedger demo_verifiers [])\<lparr>sy_world := demo_created\<rparr>)"
proof -
  let ?y = "order_start NewMemLedger demo_verifiers []"
  obtain r1 w1 where 1: "CreateOrder demo_shop demo_opened 10 ''u'' ''coins_100'' ''google_play'' ''c1'' = (r1, w1)"
    by fastforce
  obtain r2 w2 where 2: "CreateOrder demo_shop w1 20 ''u'' ''coins_500'' ''google_play'' ''c2'' = (r2, w2)"
    by fastforce
  have "order_step demo_shop ?y (?y\<lparr>sy_world := w1\<rparr>)"
    by (rule order_step.create) (use 1 in \<open>simp add: demo_opened_def\<close>)
  moreover have "order_step demo_shop (?y\<lparr>sy_world := w1\<rparr>) (?y\<lparr>sy_world := w1\<rparr>\<lparr>sy_world := w2\<rparr>)"
    by (rule order_step.create) (use 2 in simp)
  moreover have "w2 = demo_created" using 1 2 by (simp add: demo_created_def)
  ultimately show ?thesis by (auto intro: rtranclp_trans)
qed

text \<open>A run of complete verify calls is an interleaving too.\<close>

lemma order_steps_calls:
  assumes "order_steps s y0 y" and "MemGetOrder (ow_orders (sy_world y)) i = Inr o'" and "o_AccountID o' = a"
  shows "\<exists>y'. order_steps s y0 y' \<and> sy_world y' = snd (VerifyOrder s (sy_world y) now a i tok) \<and>
    sy_runs y' = sy_runs y @ [Returned (fst (VerifyOrder s (sy_world y) now a i tok))]"
proof -
  obtain res w where v: "VerifyOrder s (sy_world y) now a i tok = (res, w)" by fastforce
  from order_steps_VerifyOrder [OF assms(2,3) v] obtain conf where
    "order_steps s y \<lparr>sy_world = w, sy_runs = sy_runs y @ [Returned res], sy_confirmed = conf\<rparr>" by blast
  with assms(1) have "order_steps s y0 \<lparr>sy_world = w, sy_runs = sy_runs y @ [Returned res], sy_confirmed = conf\<rparr>"
    by (rule rtranclp_trans)
  then show ?thesis using v by fastforce
qed

definition demo_order :: "string \<Rightarrow> (mem_ledger, verifier_state) order_world \<Rightarrow> order option" where
  "demo_order i w = map_of (mo_byID (ow_orders w)) i"

lemma demo_orders_known:
  "map_option o_AccountID (demo_order ''order-1'' demo_created) = Some ''u''"
  "map_option o_AccountID (demo_order ''order-2''
     (snd (VerifyOrder demo_shop demo_created 30 ''u'' ''order-1'' ''t1''))) = Some ''u''"
  "map_option o_AccountID (demo_order ''order-1'' demo_pending) = Some ''u''"
  "map_option o_Status (demo_order ''order-1'' demo_credited) = Some OrderCredited"
  by code_simp+

lemma MemGetOrder_known:
  "map_option o_AccountID (demo_order i w) = Some a \<Longrightarrow> \<exists>o'. MemGetOrder (ow_orders w) i = Inr o' \<and> o_AccountID o' = a"
  by (auto simp: demo_order_def MemGetOrder_def)

lemma demo_credited_steps:
  "\<exists>y. order_steps demo_shop (order_start NewMemLedger demo_verifiers []) y \<and> sy_world y = demo_credited"
proof -
  let ?y0 = "order_start NewMemLedger demo_verifiers []"
  note 0 = demo_created_steps
  obtain y1 where 1: "order_steps demo_shop ?y0 y1"
      "sy_world y1 = snd (VerifyOrder demo_shop demo_created 30 ''u'' ''order-1'' ''t1'')"
    using MemGetOrder_known [OF demo_orders_known(1)] order_steps_calls [OF 0] by fastforce
  obtain y2 where 2: "order_steps demo_shop ?y0 y2" "sy_world y2 = demo_pending"
    using MemGetOrder_known [OF demo_orders_known(2)] order_steps_calls [OF 1(1)] 1(2)
    unfolding demo_pending_def by metis
  show ?thesis
    using MemGetOrder_known [OF demo_orders_known(3)] order_steps_calls [OF 2(1)] 2(2)
    unfolding demo_credited_def by metis
qed


subsection \<open>Recovery\<close>

text \<open>C11: the reconciler finishes what a crash interrupted. Take any stored order that is waiting for
  payment, paid or crediting (in particular one whose call died between the store's yes and the
  ledger post). If its token is not another order's, the store confirms it where it is still asked,
  and the wallet has room, one \<open>Reconcile\<close> returns it as credited and stores it so; the
  coins are posted if they were not yet and otherwise the ledger is untouched; no other order
  changes.\<close>

theorem reconcile_credits:
  assumes "os_ledger s = mem_ledger_repo" and "ledger_reachable (ow_ledger w)" and "orders_ok (ow_orders w)"
    and "MemGetOrder (ow_orders w) (o_ID o') = Inr o'" and "o' \<in> set (ListNonTerminal (ow_orders w))"
    and "\<not> token_taken s w o' (o_PurchaseToken o')"
    and "o_Status o' = OrderPendingPayment \<Longrightarrow> fst (ask_store s w now o' (o_PurchaseToken o')) = Confirmed"
    and "bal (ow_ledger w) (UserCoinsAccount (o_AccountID o'), Coin) + o_Coins o' < 2 ^ 63"
  shows "\<exists>p w'. Reconcile s w now o' = (Inr p, w') \<and> o_Status p = OrderCredited \<and>
    MemGetOrder (ow_orders w') (o_ID o') = Inr p \<and>
    (\<exists>t. GetTransaction (ow_ledger w') (order_key (o_ID o')) = Inr (Some t) \<and> tx_ID t = o_LedgerTransactionID p) \<and>
    (if GetTransaction (ow_ledger w) (order_key (o_ID o')) = Inr None
     then bal (ow_ledger w') (UserCoinsAccount (o_AccountID o'), Coin) =
       bal (ow_ledger w) (UserCoinsAccount (o_AccountID o'), Coin) + o_Coins o'
     else ow_ledger w' = ow_ledger w) \<and>
    (\<forall>j. j \<noteq> o_ID o' \<longrightarrow> MemGetOrder (ow_orders w') j = MemGetOrder (ow_orders w) j)"
proof -
  let ?k = "(UserCoinsAccount (o_AccountID o'), Coin)"
  have inv: "ledger_inv (ow_ledger w)" using assms(2) by (rule ledger_reachable_inv)
  have o': "map_of (mo_byID (ow_orders w)) (o_ID o') = Some o'" "o_Status o' \<in> set NonTerminalOrderStatuses"
    using assms(4,5) by (auto simp: MemGetOrder_def ListNonTerminal_def split: option.splits)
  obtain p w' where r: "advance s w now o' [] = (Inr p, w')" and c: "mem.credited w o' p w'"
    using mem.advance_credits [OF inv assms(1,3) o', where t = "o_PurchaseToken o'" and tok = "[]" and now = now]
      assms(6-8) by fastforce
  have coins: "0 < o_Coins o'" using orders_okD(3) [OF assms(3) o'(1)] by (simp add: order_ok_def)
  have "add64 (bal (ow_ledger w) ?k) (o_Coins o') = bal (ow_ledger w) ?k + o_Coins o'"
    using assms(8) coins mem.nonneg_law [OF inv user_not_platform(1), of "o_AccountID o'" Coin]
    by (intro add64_id) (simp add: in_i64_def)
  moreover have "entries_at ?k (purchase_entries o') = o_Coins o'"
    by (auto simp: entries_at_purchase account_defs)
  ultimately show ?thesis
    using r c by (simp add: Reconcile_def mem.credited_def only_order_def MemGetOrder_def GetTransaction_def
        tx_by_key_def split: if_splits)
qed

text \<open>\<open>order-1\<close> with its payment confirmed, its process killed in the window before the post.\<close>

definition demo_crashed :: "(mem_ledger, verifier_state) order_world" where
  "demo_crashed = demo_pending\<lparr>ow_orders := snd (MemUpdateOrder (ow_orders demo_pending) 60
     ((the (demo_order ''order-1'' demo_pending))\<lparr>o_Status := OrderCrediting\<rparr>))\<rparr>"

lemma orders_ok_run:
  assumes "order_steps s (order_start NewMemLedger v lim) y" and "os_ledger s = mem_ledger_repo"
  shows "orders_ok (ow_orders (sy_world y)) \<and> ledger_reachable (ow_ledger (sy_world y))"
proof -
  have "mem.system_ok (order_start NewMemLedger v lim)"
    using mem.order_start_ok [OF ledger_inv_new] by (simp add: tx_by_key_def NewMemLedger_def)
  then have "mem.system_ok y" using mem.order_steps_ok assms by blast
  moreover have "ledger_reachable (ow_ledger (sy_world y))"
    using order_steps_ledger [OF assms] ledger_steps_reachable [OF _ ledger_reachable.new]
    by (simp add: order_start_def)
  ultimately show ?thesis by (simp add: mem.system_ok_def Let_def)
qed

lemma demo_pending_ok: "orders_ok (ow_orders demo_pending) \<and> ow_ledger demo_pending = NewMemLedger"
proof -
  let ?y0 = "order_start NewMemLedger demo_verifiers []"
  note 0 = demo_created_steps
  obtain y1 where 1: "order_steps demo_shop ?y0 y1"
      "sy_world y1 = snd (VerifyOrder demo_shop demo_created 30 ''u'' ''order-1'' ''t1'')"
    using MemGetOrder_known [OF demo_orders_known(1)] order_steps_calls [OF 0] by fastforce
  obtain y2 where 2: "order_steps demo_shop ?y0 y2" "sy_world y2 = demo_pending"
    using MemGetOrder_known [OF demo_orders_known(2)] order_steps_calls [OF 1(1)] 1(2)
    unfolding demo_pending_def by metis
  have "ow_ledger demo_pending = NewMemLedger" by code_simp
  then show ?thesis using orders_ok_run [OF 2(1)] 2(2) by (simp add: demo_shop_def)
qed

lemma demo_crashed_facts:
  "map_option o_ID (demo_order ''order-1'' demo_pending) = Some ''order-1''"
  "map_option (\<lambda>q. (o_ID q, o_AccountID q, o_Coins q, o_Status q, token_taken demo_shop demo_crashed q (o_PurchaseToken q)))
     (demo_order ''order-1'' demo_crashed) = Some (''order-1'', ''u'', 100, OrderCrediting, False)"
  "map o_ID (ListNonTerminal (ow_orders demo_crashed)) = [''order-1'', ''order-2'']"
  by code_simp+

lemma reconcile_credits_witness:
  "\<exists>o' p w'. demo_order ''order-1'' demo_crashed = Some o' \<and> o_Status o' = OrderCrediting \<and>
     Reconcile demo_shop demo_crashed 70 o' = (Inr p, w') \<and> o_Status p = OrderCredited \<and>
     bal (ow_ledger w') (UserCoinsAccount ''u'', Coin) = 100"
proof -
  obtain q where q: "demo_order ''order-1'' demo_pending = Some q" "o_ID q = ''order-1''"
    using demo_crashed_facts(1) by auto
  obtain o' where o': "demo_order ''order-1'' demo_crashed = Some o'" "o_ID o' = ''order-1''" "o_AccountID o' = ''u''"
      "o_Coins o' = 100" "o_Status o' = OrderCrediting" "\<not> token_taken demo_shop demo_crashed o' (o_PurchaseToken o')"
    using demo_crashed_facts(2) by auto
  have R: "os_ledger demo_shop = mem_ledger_repo" by (simp add: demo_shop_def)
  have l: "ow_ledger demo_crashed = NewMemLedger" using demo_pending_ok by (simp add: demo_crashed_def)
  have k: "knows (ow_orders demo_pending) (q\<lparr>o_Status := OrderCrediting\<rparr>)"
    using q by (auto simp: knows_def demo_order_def)
  have ok: "orders_ok (ow_orders demo_crashed)"
    using MemUpdateOrder_ok(1) [OF _ k] demo_pending_ok q by (simp add: demo_crashed_def) (metis prod.collapse)
  have g: "MemGetOrder (ow_orders demo_crashed) (o_ID o') = Inr o'"
    using o' by (simp add: demo_order_def MemGetOrder_def)
  have "o' \<in> set (ListNonTerminal (ow_orders demo_crashed))"
  proof -
    have "(''order-1'', o') \<in> set (mo_byID (ow_orders demo_crashed))"
      using o'(1) by (auto simp: demo_order_def dest: map_of_SomeD)
    then show ?thesis
      using o'(5) by (force simp: ListNonTerminal_def NonTerminalOrderStatuses_def)
  qed
  moreover have fresh: "GetTransaction NewMemLedger key = Inr None" "bal NewMemLedger k = 0" for key k
    by (simp_all add: GetTransaction_def NewMemLedger_def bal_def)
  ultimately obtain p w' where
    "Reconcile demo_shop demo_crashed 70 o' = (Inr p, w')" "o_Status p = OrderCredited"
    "bal (ow_ledger w') (UserCoinsAccount ''u'', Coin) = 100"
    using reconcile_credits [OF R _ ok g _ o'(6), of 70] o' l ledger_reachable.new by auto
  then show ?thesis using o' by blast
qed

subsection \<open>Which payment pays for which order\<close>

text \<open>One payment can pay for many orders. A verify call uses the token of the call, but an order
  that is already waiting keeps the hash of the token it was first tried with. So when such an order
  is verified with another token that the store confirms, the order is credited, and that token
  still belongs to no order: the replay check will not see it when it is presented for the next one.\<close>

theorem paying_token_not_recorded:
  assumes "os_ledger s = mem_ledger_repo" and "ledger_reachable (ow_ledger w)" and "orders_ok (ow_orders w)"
    and "MemGetOrder (ow_orders w) (o_ID o') = Inr o'" and "o_Status o' = OrderPendingPayment"
    and "tok \<noteq> []" and "o_TokenHash o' \<noteq> os_hash s tok" and "FindByTokenHash (ow_orders w) (os_hash s tok) = None"
    and "fst (ask_store s w now o' tok) = Confirmed"
    and "bal (ow_ledger w) (UserCoinsAccount (o_AccountID o'), Coin) + o_Coins o' < 2 ^ 63"
  shows "\<exists>p w'. VerifyOrder s w now (o_AccountID o') (o_ID o') tok = (Inr p, w') \<and> o_Status p = OrderCredited \<and>
    FindByTokenHash (ow_orders w') (os_hash s tok) = None"
proof -
  have inv: "ledger_inv (ow_ledger w)" using assms(2) by (rule ledger_reachable_inv)
  have o': "map_of (mo_byID (ow_orders w)) (o_ID o') = Some o'" "o_Status o' \<in> set NonTerminalOrderStatuses"
    using assms(4,5) by (auto simp: MemGetOrder_def NonTerminalOrderStatuses_def split: option.splits)
  have nt: "\<not> token_taken s w o' tok" using assms(8) by (simp add: token_taken_def)
  obtain p w' where r: "advance s w now o' tok = (Inr p, w')" and c: "mem.credited w o' p w'"
    using mem.advance_credits [OF inv assms(1,3) o', where t = tok and tok = tok and now = now] nt assms(6,9,10)
    by fastforce
  have none: "map_of (mo_byToken (ow_orders w)) (os_hash s tok) = None"
    using assms(8) FindByTokenHash_no_nil [OF assms(3)]
    by (cases "map_of (mo_byToken (ow_orders w)) (os_hash s tok)") fastforce+
  have "map_of (mo_byToken (ow_orders w')) (os_hash s tok) = None"
    using c none assms(7) by (simp add: mem.credited_def only_order_def)
  then show ?thesis
    using r c assms(4) by (simp add: VerifyOrder_def FindByTokenHash_def mem.credited_def)
qed

lemma demo_second_facts:
  "map_option (\<lambda>q. (o_ID q, o_AccountID q, o_Coins q, o_Status q, o_TokenHash q,
       fst (ask_store demo_shop demo_pending 50 q ''paid''))) (demo_order ''order-1'' demo_pending) =
     Some (''order-1'', ''u'', 100, OrderPendingPayment, ''#t1'', Confirmed)"
  "FindByTokenHash (ow_orders demo_pending) ''#paid'' = None"
  "map_option o_Status (demo_order ''order-2''
     (snd (VerifyOrder demo_shop demo_credited 60 ''u'' ''order-2'' ''paid''))) = Some OrderCredited"
  "getz (ml_balances (ow_ledger (snd (VerifyOrder demo_shop demo_credited 60 ''u'' ''order-2'' ''paid''))))
     (UserCoinsAccount ''u'', Coin) = 600"
  by code_simp+

text \<open>The same token \<open>paid\<close>, presented for the second order, credits that one as well.\<close>

lemma paying_token_not_recorded_witness:
  "FindByTokenHash (ow_orders demo_credited) ''#paid'' = None \<and>
   map_option o_Status (demo_order ''order-1'' demo_credited) = Some OrderCredited \<and>
   map_option o_Status (demo_order ''order-2''
     (snd (VerifyOrder demo_shop demo_credited 60 ''u'' ''order-2'' ''paid''))) = Some OrderCredited"
proof -
  obtain o' where o': "demo_order ''order-1'' demo_pending = Some o'" "o_ID o' = ''order-1''" "o_AccountID o' = ''u''"
      "o_Coins o' = 100" "o_Status o' = OrderPendingPayment" "o_TokenHash o' = ''#t1''"
      "fst (ask_store demo_shop demo_pending 50 o' ''paid'') = Confirmed"
    using demo_second_facts(1) by auto
  have g: "MemGetOrder (ow_orders demo_pending) (o_ID o') = Inr o'"
    using o'(1,2) by (simp add: demo_order_def MemGetOrder_def)
  have s: "os_ledger demo_shop = mem_ledger_repo" "os_hash demo_shop t = ''#'' @ t" for t
    by (simp_all add: demo_shop_def)
  have b: "bal NewMemLedger k = 0" for k by (simp add: bal_def NewMemLedger_def)
  have "\<exists>p w'. VerifyOrder demo_shop demo_pending 50 ''u'' ''order-1'' ''paid'' = (Inr p, w') \<and>
      o_Status p = OrderCredited \<and> FindByTokenHash (ow_orders w') ''#paid'' = None"
    using paying_token_not_recorded [OF s(1) _ _ g o'(5), of "''paid''" 50] demo_pending_ok ledger_reachable.new
      demo_second_facts(2) o' by (simp add: s(2) b)
  then show ?thesis
    using demo_orders_known(4) demo_second_facts(3) by (auto simp: demo_credited_def)
qed

text \<open>Coins without payment. However Stripe and Google Play are configured, the client chooses the
  platform of its order, and \<open>dev_store\<close> (also the default) is always answered by the
  development verifier: an order for it, verified with any unused token that does not begin with
  \<open>fail-\<close> or \<open>pending-\<close>, is credited in full.\<close>

theorem dev_store_gives_coins_away:
  assumes "os_ledger s = mem_ledger_repo" and "os_verify s = purchaseVerifier cfg"
    and "ledger_reachable (ow_ledger w)" and "orders_ok (ow_orders w)"
    and "MemGetOrder (ow_orders w) (o_ID o') = Inr o'" and "o_Status o' = OrderCreated"
    and "o_Platform o' = PlatformDevStore"
    and "tok \<noteq> []" and "\<not> HasPrefix tok ''fail-''" and "\<not> HasPrefix tok ''pending-''"
    and "FindByTokenHash (ow_orders w) (os_hash s tok) = None"
    and "GetTransaction (ow_ledger w) (order_key (o_ID o')) = Inr None"
    and "bal (ow_ledger w) (UserCoinsAccount (o_AccountID o'), Coin) + o_Coins o' < 2 ^ 63"
  shows "\<exists>p w'. VerifyOrder s w now (o_AccountID o') (o_ID o') tok = (Inr p, w') \<and> o_Status p = OrderCredited \<and>
    bal (ow_ledger w') (UserCoinsAccount (o_AccountID o'), Coin) =
      bal (ow_ledger w) (UserCoinsAccount (o_AccountID o'), Coin) + o_Coins o'"
proof -
  let ?k = "(UserCoinsAccount (o_AccountID o'), Coin)"
  let ?o = "(claimed s o' tok)\<lparr>o_UpdatedAt := now\<rparr>"
  have inv: "ledger_inv (ow_ledger w)" using assms(3) by (rule ledger_reachable_inv)
  have m: "map_of (mo_byID (ow_orders w)) (o_ID o') = Some o'"
    using assms(5) by (auto simp: MemGetOrder_def split: option.splits)
  have "purchase_of (claimed s o' tok) = purchase_of o'" by (simp add: claimed_def)
  then have k: "knows (ow_orders w) (claimed s o' tok)"
    using knows_get [OF assms(4) m] knows_cong by blast
  obtain w1 where w1: "save_order w now (claimed s o' tok) = (Inr ?o, w1)" "ow_ledger w1 = ow_ledger w"
      "only_order w (claimed s o' tok) w1" "knows (ow_orders w1) ?o"
    using save_known [OF assms(4) k, of now] by metis
  have r1: "orders_ok (ow_orders w1)" using w1(3) by (simp add: only_order_def)
  have o1: "o_Status ?o \<in> {OrderPendingPayment, OrderPaid, OrderCrediting}"
    "o_AccountID ?o = o_AccountID o'" "o_Coins ?o = o_Coins o'" "o_Platform ?o = PlatformDevStore"
    using assms(7) by (simp_all add: claimed_def)
  have ask: "fst (ask_store s w1 now ?o tok) = Confirmed"
    using assms(2) purchaseVerifier_dev [OF assms(9,10)] o1(4) by (simp add: ask_store_def)
  have inv1: "ledger_inv (ow_ledger w1)"
    and room1: "bal (ow_ledger w1) (UserCoinsAccount (o_AccountID ?o), Coin) + o_Coins ?o < 2 ^ 63"
    using inv assms(13) by (simp_all only: w1(2) o1)
  obtain p w' where p: "advance_pending s w1 now ?o tok = (Inr p, w')" "mem.credited w1 ?o p w'"
    using mem.advance_pending_credits [OF inv1 assms(1) r1 w1(4) o1(1) ask room1] by blast
  have "\<not> token_taken s w o' tok" using assms(11) by (simp add: token_taken_def)
  then have v: "VerifyOrder s w now (o_AccountID o') (o_ID o') tok = (Inr p, w')"
    using assms(5,6,8) w1(1) p(1) by (simp add: VerifyOrder_def advance_def advance_created_def Let_def)
  have "purchase_entries ?o = purchase_entries o'" by (simp add: claimed_def purchase_entries_def)
  moreover have "o_ID ?o = o_ID o'" by (simp add: claimed_def)
  ultimately have "bal (ow_ledger w') ?k = add64 (bal (ow_ledger w) ?k) (entries_at ?k (purchase_entries o'))"
    using p(2) assms(12) w1(2) by (simp add: mem.credited_def GetTransaction_def tx_by_key_def)
  moreover have "entries_at ?k (purchase_entries o') = o_Coins o'"
    by (auto simp: entries_at_purchase account_defs)
  moreover have "0 < o_Coins o'" using orders_okD(3) [OF assms(4) m] by (simp add: order_ok_def)
  then have "add64 (bal (ow_ledger w) ?k) (o_Coins o') = bal (ow_ledger w) ?k + o_Coins o'"
    using assms(13) mem.nonneg_law [OF inv user_not_platform(1), of "o_AccountID o'" Coin]
    by (intro add64_id) (simp add: in_i64_def)
  ultimately show ?thesis using v p(2) by (simp add: mem.credited_def)
qed

text \<open>A shop with both vendors configured, and an order that names no platform.\<close>

definition real_shop :: "(mem_ledger, verifier_state) order_service" where
  "real_shop = demo_shop\<lparr>os_verify := purchaseVerifier (demo_stores\<lparr>cfg_stripe := Some (\<lambda>url. StripeReply 404 [] [] None)\<rparr>)\<rparr>"

definition free_world :: "(mem_ledger, verifier_state) order_world" where
  "free_world = snd (CreateOrder real_shop demo_opened 10 ''u'' ''coins_2000'' [] ''c1'')"

lemma free_order_facts:
  "map_option (\<lambda>q. (o_ID q, o_AccountID q, o_Coins q, o_Status q, o_Platform q)) (demo_order ''order-1'' free_world) =
     Some (''order-1'', ''u'', 2000, OrderCreated, PlatformDevStore)"
  "FindByTokenHash (ow_orders free_world) ''#x'' = None" "ow_ledger free_world = NewMemLedger"
  by code_simp+

lemma free_world_ok: "orders_ok (ow_orders free_world)"
proof -
  let ?y = "order_start NewMemLedger demo_verifiers []"
  have "order_step real_shop ?y (?y\<lparr>sy_world := free_world\<rparr>)"
    by (rule order_step.create [where res = "fst (CreateOrder real_shop demo_opened 10 ''u'' ''coins_2000'' [] ''c1'')"])
      (simp add: free_world_def demo_opened_def)
  then have "order_steps real_shop ?y (?y\<lparr>sy_world := free_world\<rparr>)" by blast
  from orders_ok_run [OF this] show ?thesis by (simp add: real_shop_def demo_shop_def)
qed

lemma dev_store_gives_coins_away_witness:
  "\<exists>p w'. VerifyOrder real_shop free_world 20 ''u'' ''order-1'' ''x'' = (Inr p, w') \<and> o_Status p = OrderCredited \<and>
     bal (ow_ledger w') (UserCoinsAccount ''u'', Coin) = 2000"
proof -
  obtain o' where o': "demo_order ''order-1'' free_world = Some o'" "o_ID o' = ''order-1''" "o_AccountID o' = ''u''"
      "o_Coins o' = 2000" "o_Status o' = OrderCreated" "o_Platform o' = PlatformDevStore"
    using free_order_facts(1) by auto
  have g: "MemGetOrder (ow_orders free_world) (o_ID o') = Inr o'"
    using o'(1,2) by (simp add: demo_order_def MemGetOrder_def)
  have s: "os_ledger real_shop = mem_ledger_repo" "os_hash real_shop t = ''#'' @ t"
    "os_verify real_shop = purchaseVerifier (demo_stores\<lparr>cfg_stripe := Some (\<lambda>url. StripeReply 404 [] [] None)\<rparr>)" for t
    by (simp_all add: demo_shop_def real_shop_def)
  have b: "bal NewMemLedger k = 0" "GetTransaction NewMemLedger key = Inr None" for k key
    by (simp_all add: bal_def NewMemLedger_def GetTransaction_def)
  show ?thesis
    using dev_store_gives_coins_away [OF s(1,3) _ free_world_ok g o'(5,6), of "''x''" 20] o' ledger_reachable.new
      free_order_facts(2,3) by (simp add: s(2) b HasPrefix_def)
qed

section \<open>Spend limits at the till\<close>

definition live_since :: "time \<Rightarrow> order \<Rightarrow> bool" where
  "live_since since o' \<longleftrightarrow> o_Status o' \<notin> {OrderFailed, OrderRefunded} \<and> since \<le> o_CreatedAt o'"

text \<open>The coins an account has bought or is buying, as a plain sum.\<close>

definition bought :: "('l, 'v) order_world \<Rightarrow> string \<Rightarrow> time \<Rightarrow> int" where
  "bought w a since = (\<Sum>o' \<leftarrow> MemListOrders (ow_orders w) a []. if live_since since o' then o_Coins o' else 0)"

fun cap_window :: "cap_period \<Rightarrow> duration" where
  "cap_window Daily = 24 * hour"
| "cap_window Weekly = 7 * 24 * hour"
| "cap_window Monthly = 30 * 24 * hour"

lemma sum_coins_exact:
  assumes "\<forall>o' \<in> set os. 0 \<le> o_Coins o' \<and> o_Coins o' \<le> 2000"
    and "0 \<le> tot" and "tot + 2000 * int (length os) < 2 ^ 63"
  shows "sum_coins os since tot = tot + (\<Sum>o' \<leftarrow> os. if live_since since o' then o_Coins o' else 0)"
  using assms
proof (induction os arbitrary: tot)
  case (Cons q os)
  have q: "0 \<le> o_Coins q" "o_Coins q \<le> 2000" using Cons.prems(1) by simp_all
  have "add64 tot (o_Coins q) = tot + o_Coins q"
    using q Cons.prems(2,3) by (intro add64_id) (simp add: in_i64_def)
  moreover have "sum_coins os since t = t + (\<Sum>o' \<leftarrow> os. if live_since since o' then o_Coins o' else 0)"
    if "t = tot \<or> t = tot + o_Coins q" for t
    using that q Cons.prems by (intro Cons.IH) auto
  ultimately show ?case by (auto simp: live_since_def time_defs)
qed simp

lemma sum_bounded:
  fixes f :: "'a \<Rightarrow> int"
  shows "\<forall>x \<in> set xs. 0 \<le> f x \<and> f x \<le> c \<Longrightarrow> 0 \<le> (\<Sum>x \<leftarrow> xs. f x) \<and> (\<Sum>x \<leftarrow> xs. f x) \<le> c * int (length xs)"
  by (induction xs) (auto simp: algebra_simps)

lemma listed_coins: "orders_ok r \<Longrightarrow> o' \<in> set (MemListOrders r a []) \<Longrightarrow> 0 < o_Coins o' \<and> o_Coins o' \<le> 2000"
  using MemListOrders_all [of r o' a] orders_okD(3) [of r "o_ID o'" o'] by (auto simp: order_ok_def)

lemma coinsPurchasedSince_exact:
  assumes "orders_ok (ow_orders w)" and "length (MemListOrders (ow_orders w) a []) < 2 ^ 50"
  shows "coinsPurchasedSince w a since = bought w a since" "0 \<le> bought w a since" "bought w a since < 2 ^ 62"
proof -
  let ?os = "MemListOrders (ow_orders w) a []"
  have c: "\<forall>o' \<in> set ?os. 0 \<le> o_Coins o' \<and> o_Coins o' \<le> 2000" using listed_coins [OF assms(1)] by fastforce
  have n: "int (length ?os) < 2 ^ 50" using assms(2) by simp
  then show "coinsPurchasedSince w a since = bought w a since"
    using sum_coins_exact [OF c, of 0 since] by (simp add: coinsPurchasedSince_def bought_def)
  have "\<forall>o' \<in> set ?os. 0 \<le> (if live_since since o' then o_Coins o' else 0) \<and>
      (if live_since since o' then o_Coins o' else 0) \<le> 2000" using c by auto
  from sum_bounded [OF this] n show "0 \<le> bought w a since" "bought w a since < 2 ^ 62"
    by (simp_all add: bought_def)
qed

lemma check_windows_None:
  "check_windows w now a coins ws = None \<longleftrightarrow>
     (\<forall>(c, d) \<in> set ws. 0 < c \<longrightarrow> add64 (coinsPurchasedSince w a (now - d)) coins \<le> c)"
  by (induction ws) auto

lemma checkSpendLimits_None:
  assumes "os_limits s" and "checkSpendLimits s w now a coins = None"
    and "lim = ResolvePending (GetLimits (ow_limits w) a) now" and "0 < cap_of p lim"
  shows "add64 (coinsPurchasedSince w a (now - cap_window p)) coins \<le> cap_of p lim"
    and "\<not> (sl_CoolingOff lim \<and> now < sl_CoolingOffUntil lim)"
proof -
  have c: "check_windows w now a coins [(sl_DailyCap lim, 24 * hour), (sl_WeeklyCap lim, 7 * 24 * hour),
      (sl_MonthlyCap lim, 30 * 24 * hour)] = None"
    using assms(1-3) by (auto simp: checkSpendLimits_def Let_def split: if_splits)
  show "add64 (coinsPurchasedSince w a (now - cap_window p)) coins \<le> cap_of p lim"
    using c assms(4) unfolding check_windows_None by (cases p) simp_all
  show "\<not> (sl_CoolingOff lim \<and> now < sl_CoolingOffUntil lim)"
    using assms(1-3) by (auto simp: checkSpendLimits_def Let_def time_defs)
qed

lemma map_filter_append: "List.map_filter f (xs @ ys) = List.map_filter f xs @ List.map_filter f ys"
  by (simp add: List.map_filter_def)

lemma MemListOrders_create:
  assumes "orders_ok r" and "MemCreateOrder r now a sku pf = (Inr o', r')"
  shows "MemListOrders r' a [] = MemListOrders r a [] @ [o']"
proof -
  note ok = MemCreateOrder_ok [OF assms]
  have "List.map_filter (map_of (mo_byID r')) xs = List.map_filter (map_of (mo_byID r)) xs"
    if "o_ID o' \<notin> set xs" for xs
    using that by (induction xs) (auto simp: map_filter_simps ok(2) split: option.split)
  moreover have "o_ID o' \<notin> set (account_ids r a)"
    using orders_okD(6) [OF assms(1), of "o_ID o'" a] ok(3) by auto
  ultimately show ?thesis
    by (simp add: MemListOrders_def ok(5) map_filter_append) (simp add: map_filter_simps ok(2))
qed

text \<open>A purchase never goes over the caps in force. Whenever \<open>CreateOrder\<close> starts a new order
  while a spend-limit store is wired, the account is not cooling off, and for every cap in force the
  coins of its orders in that cap's window that have not failed, the new one included, stay within
  the cap. (Orders under \<open>2 ^ 50\<close>, so that the running sum cannot wrap.)\<close>

theorem purchases_stay_within_caps:
  assumes "os_limits s" and "orders_ok (ow_orders w)" and "length (MemListOrders (ow_orders w) a []) < 2 ^ 50"
    and "map_of (ow_createByKey w) key = None" and "CreateOrder s w now a sku pf key = (Inr o', w')"
    and "lim = ResolvePending (GetLimits (ow_limits w) a) now" and "0 < cap_of p lim"
  shows "bought w' a (now - cap_window p) \<le> cap_of p lim \<and> \<not> (sl_CoolingOff lim \<and> now < sl_CoolingOffUntil lim) \<and>
    o' \<in> set (MemListOrders (ow_orders w') a [])"
proof -
  obtain pr r where pr: "ProductBySKU sku = Some pr" "checkSpendLimits s w now a (p_Coins pr) = None"
      "MemCreateOrder (ow_orders w) now a sku pf = (Inr o', r)" "ow_orders w' = r"
    using assms(4,5) by (auto simp: CreateOrder_def split: option.splits prod.splits sum.splits)
  have o': "o_Coins o' = p_Coins pr"
    using pr(1,3) by (auto simp: MemCreateOrder_def Let_def)
  have l: "MemListOrders (ow_orders w') a [] = MemListOrders (ow_orders w) a [] @ [o']"
    using MemListOrders_create [OF assms(2) pr(3)] pr(4) by simp
  let ?since = "now - cap_window p"
  note b = coinsPurchasedSince_exact [OF assms(2,3), of ?since]
  have c: "0 < p_Coins pr" "p_Coins pr \<le> 2000" using ProductBySKU_coins [OF pr(1)] by simp_all
  have "add64 (bought w a ?since) (p_Coins pr) = bought w a ?since + p_Coins pr"
    using b c by (intro add64_id) (simp add: in_i64_def)
  moreover have "bought w' a ?since \<le> bought w a ?since + p_Coins pr"
    using c by (simp add: bought_def l o')
  ultimately show ?thesis
    using checkSpendLimits_None [OF assms(1) pr(2) assms(6,7)] b(1) l by simp
qed

definition capped_world :: "(mem_ledger, verifier_state) order_world" where
  "capped_world = demo_opened\<lparr>ow_limits := [(''u'', (no_limits ''u'')\<lparr>sl_DailyCap := 600\<rparr>)]\<rparr>"

lemma purchases_stay_within_caps_witness:
  "\<exists>o' w'. CreateOrder demo_shop capped_world 10 ''u'' ''coins_500'' [] ''k'' = (Inr o', w') \<and>
     bought w' ''u'' (10 - 24 * hour) \<le> 600 \<and>
     fst (CreateOrder demo_shop w' 20 ''u'' ''coins_500'' [] ''k2'') = Inl ErrSpendLimitExceeded"
proof -
  obtain o' w' where c: "CreateOrder demo_shop capped_world 10 ''u'' ''coins_500'' [] ''k'' = (Inr o', w')"
    "fst (CreateOrder demo_shop w' 20 ''u'' ''coins_500'' [] ''k2'') = Inl ErrSpendLimitExceeded"
  proof -
    have 1: "\<not> isl (fst (CreateOrder demo_shop capped_world 10 ''u'' ''coins_500'' [] ''k''))"
      "fst (CreateOrder demo_shop (snd (CreateOrder demo_shop capped_world 10 ''u'' ''coins_500'' [] ''k''))
         20 ''u'' ''coins_500'' [] ''k2'') = Inl ErrSpendLimitExceeded"
      by code_simp+
    obtain r w1 where e: "CreateOrder demo_shop capped_world 10 ''u'' ''coins_500'' [] ''k'' = (r, w1)" by fastforce
    with 1(1) obtain o1 where "r = Inr o1" by (cases r) auto
    then show ?thesis using that [of o1 w1] e 1(2) by simp
  qed
  have w: "os_limits demo_shop" "orders_ok (ow_orders capped_world)" "map_of (ow_createByKey capped_world) k = None"
    "length (MemListOrders (ow_orders capped_world) ''u'' []) < 2 ^ 50"
    "cap_of Daily (ResolvePending (GetLimits (ow_limits capped_world) ''u'') 10) = 600" for k
    by (simp_all add: demo_shop_def capped_world_def demo_opened_def order_start_def orders_ok_new GetLimits_def
        no_limits_def limits_defs)
      (simp add: NewMemOrderRepo_def MemListOrders_def account_ids_def map_filter_simps)
  from purchases_stay_within_caps [OF w(1,2,4,3) c(1) refl, of Daily] c w(5) show ?thesis by auto
qed

text \<open>A negative cap lifts the limit at once. The update endpoint takes any number; \<open>-1\<close>
  compares as a lowering, so it is applied immediately, and a cap that is not positive is no cap. So
  one request with \<open>-1\<close> three times removes every self-set cap without the 48-hour wait:
  from then on only a cooling-off period can refuse a purchase, whatever its size.\<close>

theorem negative_request_lifts_caps:
  assumes "\<forall>p. 0 \<le> cap_of p (ResolvePending (GetLimits (ow_limits w) a) t)"
    and "\<And>l. map_of (ow_limits w) a = Some l \<Longrightarrow> sl_AccountID l = a"
    and "lr_DailyCap req = -1" and "lr_WeeklyCap req = -1" and "lr_MonthlyCap req = -1"
    and "UpdateSpendLimits (ow_limits w) t a req = (l', r')"
  shows "checkSpendLimits s (w\<lparr>ow_limits := r'\<rparr>) now a coins \<in> {None, Some ErrCoolingOff} \<and>
    (\<not> sl_CoolingOff l' \<longrightarrow> checkSpendLimits s (w\<lparr>ow_limits := r'\<rparr>) now a coins = None)"
proof -
  let ?l = "ApplyCapChange (GetLimits (ow_limits w) a) (-1) (-1) (-1) t"
  have row: "GetLimits r' a = l'" using UpdateSpendLimits_row [OF assms(6,2)] by simp
  have l': "\<And>p. cap_of p l' = cap_of p ?l \<and> sl_PendingEffectiveAt l' = sl_PendingEffectiveAt ?l"
    using assms(3-6) by (auto simp: UpdateSpendLimits_def Let_def split: option.splits bool.splits)
      (case_tac p; simp)+
  have 0: "0 \<le> cap_of p (resolvePendingIfDue (GetLimits (ow_limits w) a) t)" for p
    using assms(1) by (simp add: ResolvePending_def)
  have "sl_PendingEffectiveAt ?l = 0"
    using 0 [of Daily] 0 [of Weekly] 0 [of Monthly]
    by (simp add: ApplyCapChange_def Let_def negative_request_lowers)
  then have res: "ResolvePending l' now = l'" using l' by (intro resolve_not_due) simp
  have neg: "cap_of p l' = -1" for p
    using assms(1) [rule_format, of p] l' [of p] by (cases p) (auto simp: ApplyCapChange_cap Let_def)
  have "sl_DailyCap l' = -1" "sl_WeeklyCap l' = -1" "sl_MonthlyCap l' = -1"
    using neg [of Daily] neg [of Weekly] neg [of Monthly] by simp_all
  then show ?thesis by (simp add: checkSpendLimits_def Let_def row res)
qed

lemma negative_request_lifts_caps_witness:
  "fst (CreateOrder demo_shop capped_world 10 ''u'' ''coins_2000'' [] ''k'') = Inl ErrSpendLimitExceeded \<and>
   (\<forall>coins. checkSpendLimits demo_shop (capped_world\<lparr>ow_limits := snd (UpdateSpendLimits (ow_limits capped_world) 5 ''u''
       \<lparr>lr_DailyCap = -1, lr_WeeklyCap = -1, lr_MonthlyCap = -1, lr_CoolingOff = Some False\<rparr>)\<rparr>) 10 ''u'' coins = None)"
proof -
  let ?req = "\<lparr>lr_DailyCap = -1, lr_WeeklyCap = -1, lr_MonthlyCap = -1, lr_CoolingOff = Some False\<rparr>"
  obtain l' r' where u: "UpdateSpendLimits (ow_limits capped_world) 5 ''u'' ?req = (l', r')" by fastforce
  have n: "\<not> sl_CoolingOff l'" using u by (auto simp: UpdateSpendLimits_def Let_def)
  have "0 \<le> cap_of p (ResolvePending (GetLimits (ow_limits capped_world) ''u'') 5)" for p
    by (cases p) (simp_all add: capped_world_def GetLimits_def no_limits_def limits_defs)
  then have "checkSpendLimits demo_shop (capped_world\<lparr>ow_limits := r'\<rparr>) 10 ''u'' coins = None" for coins
    using negative_request_lifts_caps [OF _ _ _ _ _ u, of demo_shop 10 coins] n
    by (auto simp: capped_world_def no_limits_def)
  moreover have "fst (CreateOrder demo_shop capped_world 10 ''u'' ''coins_2000'' [] ''k'') = Inl ErrSpendLimitExceeded"
    by code_simp
  ultimately show ?thesis using u by simp
qed

end
