(* ===== verification/Gifts.thy ===== *)
theory Gifts
  imports Ledger_Repo
begin

text \<open>
  Gift sending (\<open>ledger/giftsvc/service.go\<close>): the catalogue, the split of the price
  between platform and creator, the gates, the balanced transaction and the result, over any
  \<open>ledger.Repo\<close>. The hooks the composition root registers are fields of the service: a gate
  is a function of the ledger and the clock, and a call of the sent hook is an element of the
  list of notifications that \<open>SendGift\<close> returns.
\<close>

section \<open>Catalogue and service\<close>

record gift =
  g_ID :: string
  g_Name :: string
  g_Coins :: int
  g_AssetURL :: string

definition gift_catalogue :: "gift list" where
  "gift_catalogue =
     [\<lparr>g_ID = ''g_rose'', g_Name = ''Rose'', g_Coins = 10, g_AssetURL = ''/assets/gifts/rose.json''\<rparr>,
      \<lparr>g_ID = ''g_heart'', g_Name = ''Heart'', g_Coins = 50, g_AssetURL = ''/assets/gifts/heart.json''\<rparr>,
      \<lparr>g_ID = ''g_crown'', g_Name = ''Crown'', g_Coins = 500, g_AssetURL = ''/assets/gifts/crown.json''\<rparr>,
      \<lparr>g_ID = ''g_aurora'', g_Name = ''Aurora'', g_Coins = 2000, g_AssetURL = ''/assets/gifts/aurora.json''\<rparr>]"

definition giftByID :: "string \<Rightarrow> gift option" where
  "giftByID i = List.find (\<lambda>g. g_ID g = i) gift_catalogue"

definition platformTakeBPS :: int where "platformTakeBPS = 3000"
definition diamondsPerThousandCoins :: int where "diamondsPerThousandCoins = 700"
definition maxGiftQuantity :: int where "maxGiftQuantity = 10000"

lemmas economy_defs = platformTakeBPS_def diamondsPerThousandCoins_def maxGiftQuantity_def

datatype gift_error =
    ErrGiftNotFound
  | ErrSelfGift
  | ErrInvalidQuantity
  | ErrRecipientNotRoomHost
  | ErrVelocityLimitExceeded
  | GiftLedgerError ledger_error
  | PreSendError string  \<comment> \<open>any other error a registered gate returns\<close>

record 'l gift_service =
  gs_repo :: "'l ledger_repo"
  gs_preSend :: "('l \<Rightarrow> time \<Rightarrow> string \<Rightarrow> gift_error option) option"
  gs_onSent :: bool
  gs_verifyHost :: "(string \<Rightarrow> string \<Rightarrow> string + bool) option"

record gift_result =
  gr_TransactionID :: string
  gr_IsNew :: bool
  gr_GiftID :: string
  gr_Quantity :: int
  gr_CoinsSpent :: int
  gr_CreatorDiamonds :: int
  gr_PlatformTook :: int
  gr_NewSenderBalance :: int

text \<open>A call of the sent hook: sender, recipient and the transaction's time.\<close>

type_synonym sent_note = "string \<times> string \<times> time"

section \<open>Operations\<close>

definition gift_balance :: "'l gift_service \<Rightarrow> 'l \<Rightarrow> string \<Rightarrow> ledger_error + int \<times> int" where
  "gift_balance s l accountID =
     (case repo_Balance (gs_repo s) l (UserCoinsAccount accountID) Coin of
        Inl err \<Rightarrow> Inl err
      | Inr coins \<Rightarrow>
          (case repo_Balance (gs_repo s) l (UserDiamondsAccount accountID) Diamond of
             Inl err \<Rightarrow> Inl err
           | Inr diamonds \<Rightarrow> Inr (coins, diamonds)))"

text \<open>The loop over the entries of a posted transaction; a later match overwrites an earlier one.\<close>

primrec result_of_entries :: "account_id \<Rightarrow> gift_result \<Rightarrow> entry list \<Rightarrow> gift_result" where
  "result_of_entries senderAcct r [] = r"
| "result_of_entries senderAcct r (e # es) =
     result_of_entries senderAcct
       (if e_account e = senderAcct \<and> e_currency e = Coin
        then r\<lparr>gr_CoinsSpent := neg64 (e_amount e)\<rparr>
        else if e_account e = PlatformRevenueAccount \<and> e_currency e = Coin
        then r\<lparr>gr_PlatformTook := e_amount e\<rparr>
        else if e_currency e = Diamond \<and> 0 < e_amount e
        then r\<lparr>gr_CreatorDiamonds := e_amount e\<rparr>
        else r) es"

definition finalizeResult :: "'l gift_service \<Rightarrow> 'l \<Rightarrow> transaction \<Rightarrow> string \<Rightarrow> bool \<Rightarrow> gift_error + gift_result" where
  "finalizeResult s l tx senderID isNew =
     (let r = \<lparr>gr_TransactionID = tx_ID tx, gr_IsNew = isNew,
             gr_GiftID = (case map_of (tx_Metadata tx) ''gift_id'' of Some (AnyString i) \<Rightarrow> i | _ \<Rightarrow> []),
             gr_Quantity = (case map_of (tx_Metadata tx) ''quantity'' of Some (AnyInt64 q) \<Rightarrow> q | _ \<Rightarrow> 0),
             gr_CoinsSpent = 0, gr_CreatorDiamonds = 0, gr_PlatformTook = 0, gr_NewSenderBalance = 0\<rparr>;
          senderAcct = UserCoinsAccount senderID;
          r = result_of_entries senderAcct r (tx_Entries tx)
      in (case repo_Balance (gs_repo s) l senderAcct Coin of
            Inl err \<Rightarrow> Inl (GiftLedgerError err)
          | Inr b \<Rightarrow> Inr (r\<lparr>gr_NewSenderBalance := b\<rparr>)))"

text \<open>The two registered gates, in the order the code consults them.\<close>

definition gift_gates :: "'l gift_service \<Rightarrow> 'l \<Rightarrow> time \<Rightarrow> string \<Rightarrow> string \<Rightarrow> string \<Rightarrow> gift_error option" where
  "gift_gates s l now senderID recipientID roomID =
     (case (case gs_preSend s of None \<Rightarrow> None | Some check \<Rightarrow> check l now senderID) of
        Some err \<Rightarrow> Some err
      | None \<Rightarrow>
          (case gs_verifyHost s of
             None \<Rightarrow> None
           | Some verify \<Rightarrow>
               if roomID = [] then Some ErrRecipientNotRoomHost
               else (case verify roomID recipientID of
                       Inr True \<Rightarrow> None
                     | _ \<Rightarrow> Some ErrRecipientNotRoomHost)))"

text \<open>The integer arithmetic of the split, at \<open>int64\<close>.\<close>

definition gross_coins :: "gift \<Rightarrow> int \<Rightarrow> int" where
  "gross_coins g quantity = mul64 (g_Coins g) quantity"

definition platform_share :: "int \<Rightarrow> int" where
  "platform_share grossCoins = quot64 (mul64 grossCoins platformTakeBPS) 10000"

definition creator_coins :: "int \<Rightarrow> int" where
  "creator_coins grossCoins = sub64 grossCoins (platform_share grossCoins)"

definition creator_diamonds :: "int \<Rightarrow> int" where
  "creator_diamonds grossCoins = quot64 (mul64 (creator_coins grossCoins) diamondsPerThousandCoins) 1000"

definition gift_entries :: "string \<Rightarrow> string \<Rightarrow> int \<Rightarrow> entry list" where
  "gift_entries senderID recipientID grossCoins =
     [\<lparr>e_account = UserCoinsAccount senderID, e_amount = neg64 grossCoins, e_currency = Coin\<rparr>,
      \<lparr>e_account = PlatformRevenueAccount, e_amount = platform_share grossCoins, e_currency = Coin\<rparr>,
      \<lparr>e_account = PlatformLiabilityAccount, e_amount = creator_coins grossCoins, e_currency = Coin\<rparr>,
      \<lparr>e_account = UserDiamondsAccount recipientID, e_amount = creator_diamonds grossCoins, e_currency = Diamond\<rparr>,
      \<lparr>e_account = PlatformDiamondLiabilityAccount, e_amount = neg64 (creator_diamonds grossCoins),
        e_currency = Diamond\<rparr>]"

definition gift_metadata :: "string \<Rightarrow> string \<Rightarrow> int \<Rightarrow> string \<Rightarrow> string \<Rightarrow> metadata" where
  "gift_metadata giftID roomID quantity senderID recipientID =
     [(''gift_id'', AnyString giftID), (''room_id'', AnyString roomID),
      (''quantity'', AnyInt64 quantity), (''sender_id'', AnyString senderID),
      (''recipient_id'', AnyString recipientID)]"

definition SendGift :: "'l gift_service \<Rightarrow> 'l \<Rightarrow> time \<Rightarrow> string \<Rightarrow> string \<Rightarrow> string \<Rightarrow> string \<Rightarrow> int \<Rightarrow> string \<Rightarrow>
    (gift_error + gift_result) \<times> 'l \<times> sent_note list" where
  "SendGift s l now senderID recipientID roomID giftID quantity idempotencyKey =
     (if senderID = recipientID then (Inl ErrSelfGift, l, [])
      else if quantity \<le> 0 \<or> maxGiftQuantity < quantity then (Inl ErrInvalidQuantity, l, [])
      else
        (case giftByID giftID of
           None \<Rightarrow> (Inl ErrGiftNotFound, l, [])
         | Some g \<Rightarrow>
             (case repo_GetTransaction (gs_repo s) l idempotencyKey of
                Inr (Some existing) \<Rightarrow> (finalizeResult s l existing senderID False, l, [])
              | _ \<Rightarrow>
                  (case gift_gates s l now senderID recipientID roomID of
                     Some err \<Rightarrow> (Inl err, l, [])
                   | None \<Rightarrow>
                       (case repo_PostTransaction (gs_repo s) l now ''gift'' idempotencyKey
                               (gift_metadata giftID roomID quantity senderID recipientID)
                               (gift_entries senderID recipientID (gross_coins g quantity)) of
                          (Inl err, l') \<Rightarrow> (Inl (GiftLedgerError err), l', [])
                        | (Inr (tx, isNew), l') \<Rightarrow>
                            (finalizeResult s l' tx senderID isNew, l',
                             if isNew \<and> gs_onSent s then [(senderID, recipientID, tx_CreatedAt tx)]
                             else []))))))"

section \<open>The split\<close>

lemma giftByID_catalogue: "giftByID i = Some g \<Longrightarrow> g \<in> set gift_catalogue"
  by (auto simp: giftByID_def find_Some_iff)

lemma catalogue_prices: "\<forall>g \<in> set gift_catalogue. 0 < g_Coins g \<and> g_Coins g \<le> 2000"
  by (simp add: gift_catalogue_def)

lemma giftByID_coins: "giftByID i = Some g \<Longrightarrow> 0 < g_Coins g \<and> g_Coins g \<le> 2000"
  using giftByID_catalogue catalogue_prices by blast

text \<open>Whatever the amount, even one that wraps, the entries balance.\<close>

lemma wrap64_coin_leg: "wrap64 (neg64 n + (p + sub64 n p)) = 0"
proof -
  have "wrap64 (neg64 n + (p + sub64 n p)) = wrap64 (- n + (p + sub64 n p))"
    by (simp add: neg64_def)
  also have "- n + (p + sub64 n p) = sub64 n p + (p - n)" by simp
  also have "wrap64 \<dots> = 0" by (simp only: sub64_def wrap64_add_l) simp
  finally show ?thesis .
qed

lemma wrap64_diamond_leg: "wrap64 (d + neg64 d) = 0"
  by (simp add: neg64_def)

lemma gift_entries_balanced: "balanced (gift_entries s r n)"
  using wrap64_coin_leg [of n "platform_share n"] wrap64_diamond_leg [of "creator_diamonds n"]
  by (auto simp: balanced_iff gift_entries_def account_defs creator_coins_def)

lemma gift_entries_keys: "distinct (map entry_key (gift_entries s r n))"
  by (simp add: gift_entries_def entry_key_def account_defs)

text \<open>For the amounts a gift can cost, nothing wraps: the split is integer arithmetic.\<close>

lemma split_exact:
  assumes "0 \<le> n" and "n \<le> 20000000"
  shows "platform_share n = n * 3000 div 10000" "creator_coins n = n - n * 3000 div 10000"
    "creator_diamonds n = (n - n * 3000 div 10000) * 700 div 1000"
proof -
  have m: "mul64 n 3000 = n * 3000" using assms by (intro mul64_id) (simp add: in_i64_def)
  then show p: "platform_share n = n * 3000 div 10000"
    using assms by (simp add: platform_share_def economy_defs quot64_nonneg in_i64_def)
  have b: "0 \<le> n * 3000 div 10000" "n * 3000 div 10000 \<le> n" using assms by simp_all
  then show c: "creator_coins n = n - n * 3000 div 10000"
    using assms by (simp add: creator_coins_def p sub64_id in_i64_def)
  have "mul64 (creator_coins n) 700 = creator_coins n * 700"
    using assms b by (intro mul64_id) (simp add: c in_i64_def)
  then show "creator_diamonds n = (n - n * 3000 div 10000) * 700 div 1000"
    using assms b by (simp add: creator_diamonds_def economy_defs quot64_nonneg in_i64_def c)
qed

lemma creator_diamonds_nonneg: "0 \<le> n \<Longrightarrow> n \<le> 20000000 \<Longrightarrow> 0 \<le> creator_diamonds n"
  by (simp add: split_exact pos_imp_zdiv_nonneg_iff)

lemma gross_exact:
  assumes "giftByID i = Some g" and "0 < q" and "q \<le> maxGiftQuantity"
  shows "gross_coins g q = g_Coins g * q" "0 < g_Coins g * q" "g_Coins g * q \<le> 20000000"
proof -
  have c: "0 < g_Coins g" "g_Coins g \<le> 2000" using giftByID_coins [OF assms(1)] by simp_all
  have "g_Coins g * q \<le> 2000 * 10000"
    using c assms(2,3) by (intro mult_mono) (simp_all add: maxGiftQuantity_def)
  then show le: "g_Coins g * q \<le> 20000000" by simp
  show pos: "0 < g_Coins g * q" using c assms(2) by simp
  show "gross_coins g q = g_Coins g * q"
    unfolding gross_coins_def using le pos by (intro mul64_id) (simp add: in_i64_def)
qed



section \<open>Sending a gift\<close>

lemma entries_at_gift:
  "entries_at k (gift_entries s r n) =
     (if k = (UserCoinsAccount s, Coin) then neg64 n
      else if k = (PlatformRevenueAccount, Coin) then platform_share n
      else if k = (PlatformLiabilityAccount, Coin) then creator_coins n
      else if k = (UserDiamondsAccount r, Diamond) then creator_diamonds n
      else if k = (PlatformDiamondLiabilityAccount, Diamond) then neg64 (creator_diamonds n)
      else 0)"
  by (auto simp: gift_entries_def entry_key_def account_defs)

lemma result_of_gift_entries:
  "0 \<le> creator_diamonds n \<Longrightarrow> gr_CreatorDiamonds r0 = 0 \<Longrightarrow>
     result_of_entries (UserCoinsAccount s) r0 (gift_entries s r n) =
       r0\<lparr>gr_CoinsSpent := neg64 (neg64 n), gr_PlatformTook := platform_share n,
          gr_CreatorDiamonds := creator_diamonds n\<rparr>"
proof -
  assume d: "0 \<le> creator_diamonds n" and r0: "gr_CreatorDiamonds r0 = 0"
  have "in_i64 (creator_diamonds n)" by (simp add: creator_diamonds_def)
  then have "in_i64 (- creator_diamonds n)" using d by (simp add: in_i64_def)
  then have "neg64 (creator_diamonds n) = - creator_diamonds n" by (rule neg64_id)
  then show ?thesis
    using d r0 by (cases "creator_diamonds n = 0") (simp_all add: gift_entries_def account_defs)
qed

text \<open>What a successful new send must have done, as a predicate on the two ledgers' balances.\<close>

definition gift_moved :: "(balance_key \<Rightarrow> int) \<Rightarrow> (balance_key \<Rightarrow> int) \<Rightarrow> string \<Rightarrow> string \<Rightarrow> int \<Rightarrow> bool" where
  "gift_moved b b' senderID recipientID n \<longleftrightarrow>
     b' (UserCoinsAccount senderID, Coin) = b (UserCoinsAccount senderID, Coin) - n \<and>
     b' (UserDiamondsAccount recipientID, Diamond) =
       b (UserDiamondsAccount recipientID, Diamond) + creator_diamonds n \<and>
     (\<forall>a c. \<not> isPlatformAccount a \<and> (a, c) \<noteq> (UserCoinsAccount senderID, Coin) \<and>
        (a, c) \<noteq> (UserDiamondsAccount recipientID, Diamond) \<longrightarrow> b' (a, c) = b (a, c))"

definition gift_result_ok :: "gift_result \<Rightarrow> string \<Rightarrow> int \<Rightarrow> int \<Rightarrow> int \<Rightarrow> bool" where
  "gift_result_ok r giftID quantity n newBalance \<longleftrightarrow> gr_GiftID r = giftID \<and> gr_Quantity r = quantity \<and>
     gr_CoinsSpent r = n \<and> gr_PlatformTook r = platform_share n \<and>
     gr_CreatorDiamonds r = creator_diamonds n \<and> gr_NewSenderBalance r = newBalance"

text \<open>The checks that come before the ledger is asked to post.\<close>

definition gift_admitted :: "'l gift_service \<Rightarrow> 'l \<Rightarrow> time \<Rightarrow> string \<Rightarrow> string \<Rightarrow> string \<Rightarrow> string \<Rightarrow> int \<Rightarrow> gift \<Rightarrow> bool" where
  "gift_admitted s l now senderID recipientID roomID giftID quantity g \<longleftrightarrow>
     senderID \<noteq> recipientID \<and> 0 < quantity \<and> quantity \<le> maxGiftQuantity \<and>
     giftByID giftID = Some g \<and> gift_gates s l now senderID recipientID roomID = None"

context ledger_contract
begin

lemma send_gift_admitted:
  assumes "ok l" and "gs_repo s = R" and "stored l key = None"
    and "gift_admitted s l now senderID recipientID roomID giftID quantity g"
  shows "SendGift s l now senderID recipientID roomID giftID quantity key =
    (case repo_PostTransaction R l now ''gift'' key
        (gift_metadata giftID roomID quantity senderID recipientID)
        (gift_entries senderID recipientID (gross_coins g quantity)) of
       (Inl err, l') \<Rightarrow> (Inl (GiftLedgerError err), l', [])
     | (Inr (tx, isNew), l') \<Rightarrow> (finalizeResult s l' tx senderID isNew, l',
         if isNew \<and> gs_onSent s then [(senderID, recipientID, tx_CreatedAt tx)] else []))"
  using assms by (simp add: SendGift_def gift_admitted_def get_law)

lemma finalize_gift:
  assumes "ok l'" and "gs_repo s = R" and "0 \<le> creator_diamonds n" and "neg64 (neg64 n) = n"
    and "tx_Entries t = gift_entries senderID recipientID n"
    and "tx_Metadata t = gift_metadata giftID roomID quantity senderID recipientID"
  shows "\<exists>r. finalizeResult s l' t senderID isNew = Inr r \<and> gr_IsNew r = isNew \<and>
    gr_TransactionID r = tx_ID t \<and>
    gift_result_ok r giftID quantity n (bl l' (UserCoinsAccount senderID, Coin))"
  using assms by (simp add: finalizeResult_def Let_def result_of_gift_entries balance_law
      gift_metadata_def gift_result_ok_def)

lemma gift_affordable_iff:
  assumes "ok l" and "0 < n" and "n \<le> 20000000"
  shows "affordable (bl l) (gift_entries senderID recipientID n) \<longleftrightarrow>
    n \<le> bl l (UserCoinsAccount senderID, Coin) \<and>
    bl l (UserDiamondsAccount recipientID, Diamond) + creator_diamonds n < 2 ^ 63"
proof -
  let ?b = "bl l (UserCoinsAccount senderID, Coin)" and ?d = "bl l (UserDiamondsAccount recipientID, Diamond)"
  have b: "0 \<le> ?b" "in_i64 ?b" "0 \<le> ?d" "in_i64 ?d" using assms(1) by (simp_all add: nonneg_law range_law)
  have dia: "0 \<le> creator_diamonds n" "in_i64 (creator_diamonds n)"
    using creator_diamonds_nonneg [of n] assms(2,3) by (simp_all add: creator_diamonds_def)
  have neg: "neg64 n = - n" using assms(2,3) by (intro neg64_id) (simp add: in_i64_def)
  have c: "add64 ?b (neg64 n) = ?b - n" using b assms(2,3) by (simp add: neg add64_id in_i64_def)
  have "0 \<le> add64 ?d (creator_diamonds n) \<longleftrightarrow> ?d + creator_diamonds n < 2 ^ 63"
    using add64_no_wrap [of ?d "creator_diamonds n"] b dia in_i64_arith(1) [of ?d "creator_diamonds n"]
    by (auto simp: add64_id in_i64_def)
  then show ?thesis
    by (simp add: affordable_def gift_entries_def entry_key_def c)
qed

text \<open>A transaction with the entries of a gift, whatever its kind, posts under a fresh key exactly when the
  payer can pay (and the recipient's diamonds fit an \<open>int64\<close>), and then moves exactly the price.\<close>

lemma post_gift_outcome:
  assumes ok: "ok l" and fresh: "stored l key = None" and n: "0 < n" "n \<le> 20000000"
    and room: "bl l (UserDiamondsAccount r, Diamond) + creator_diamonds n < 2 ^ 63"
  shows "if n \<le> bl l (UserCoinsAccount s, Coin)
    then \<exists>t l'. repo_PostTransaction R l now kind key md (gift_entries s r n) = (Inr (t, True), l') \<and> ok l' \<and>
      gift_moved (bl l) (bl l') s r n \<and> stored l' = (stored l)(key \<mapsto> t) \<and>
      tx_Entries t = gift_entries s r n \<and> tx_Metadata t = md \<and> tx_CreatedAt t = now
    else repo_PostTransaction R l now kind key md (gift_entries s r n) =
      (Inl (InsufficientBalanceError (UserCoinsAccount s) Coin n (bl l (UserCoinsAccount s, Coin))), l)"
proof -
  let ?b = "bl l (UserCoinsAccount s, Coin)" and ?es = "gift_entries s r n"
  have b: "0 \<le> ?b" "in_i64 ?b" using ok by (simp_all add: nonneg_law range_law)
  have neg: "neg64 n = - n" "neg64 (neg64 n) = n" using n by (simp_all add: neg64_id in_i64_def)
  have dia: "0 \<le> creator_diamonds n" using n by (intro creator_diamonds_nonneg) simp_all
  have c: "add64 ?b (- n) = ?b - n" using b n by (simp add: add64_id in_i64_def)
  have ne: "?es \<noteq> []" by (simp add: gift_entries_def)
  show ?thesis
  proof (cases "n \<le> ?b")
    case True
    with room n have "affordable (bl l) ?es" using gift_affordable_iff [OF ok n] by blast
    then obtain t l' where post: "repo_PostTransaction R l now kind key md ?es = (Inr (t, True), l')"
      using affordable_law [OF ok fresh ne gift_entries_balanced gift_entries_keys] by blast
    note t = new_law [OF ok fresh post]
    have bl': "bl l' k = add64 (bl l k) (entries_at k ?es)" for k using t by blast
    have "add64 (bl l (UserDiamondsAccount r, Diamond)) (creator_diamonds n) =
        bl l (UserDiamondsAccount r, Diamond) + creator_diamonds n"
      using room dia nonneg_law [OF ok, of "UserDiamondsAccount r" Diamond]
      by (intro add64_id) (simp add: in_i64_def)
    moreover have "add64 (bl l k) 0 = bl l k" for k using range_law [OF ok, of k] by (simp add: add64_id)
    ultimately have "gift_moved (bl l) (bl l') s r n"
      using c by (auto simp: gift_moved_def bl' entries_at_gift neg) (auto simp: account_defs)
    then show ?thesis using True t post by auto
  next
    case False
    have "add64 (bl l (entry_key (hd ?es))) (e_amount (hd ?es)) < 0"
      using False c by (simp add: gift_entries_def entry_key_def neg)
    then have "repo_PostTransaction R l now kind key md (hd ?es # tl ?es) = (Inl (overdrawn_error (bl l) (hd ?es)), l)"
      by (intro overdrawn_law ok fresh) (use gift_entries_balanced [of s r n] in \<open>simp_all add: gift_entries_def\<close>)
    then show ?thesis
      using False neg by (simp add: ne overdrawn_error_def) (simp add: gift_entries_def entry_key_def)
  qed
qed

text \<open>Once the checks have passed, a send under a fresh key succeeds exactly when the sender can
  pay (and the recipient's diamonds fit an \<open>int64\<close>), and then moves exactly the price.\<close>

lemma send_gift_outcome:
  assumes ok: "ok l" and R: "gs_repo s = R" and fresh: "stored l key = None"
    and adm: "gift_admitted s l now senderID recipientID roomID giftID quantity g"
    and room: "bl l (UserDiamondsAccount recipientID, Diamond) + creator_diamonds (g_Coins g * quantity) < 2 ^ 63"
  shows "if g_Coins g * quantity \<le> bl l (UserCoinsAccount senderID, Coin)
    then \<exists>r l' sent. SendGift s l now senderID recipientID roomID giftID quantity key = (Inr r, l', sent) \<and>
      gr_IsNew r \<and> ok l' \<and> gift_moved (bl l) (bl l') senderID recipientID (g_Coins g * quantity) \<and>
      gift_result_ok r giftID quantity (g_Coins g * quantity) (bl l' (UserCoinsAccount senderID, Coin)) \<and>
      (\<exists>t. stored l' = (stored l)(key \<mapsto> t) \<and> tx_ID t = gr_TransactionID r) \<and>
      sent = (if gs_onSent s then [(senderID, recipientID, now)] else [])
    else SendGift s l now senderID recipientID roomID giftID quantity key =
      (Inl (GiftLedgerError (InsufficientBalanceError (UserCoinsAccount senderID) Coin
        (g_Coins g * quantity) (bl l (UserCoinsAccount senderID, Coin)))), l, [])"
proof -
  let ?n = "g_Coins g * quantity"
  let ?md = "gift_metadata giftID roomID quantity senderID recipientID"
  have gross: "gross_coins g quantity = ?n" and n: "0 < ?n" "?n \<le> 20000000"
    using gross_exact [of giftID g quantity] adm by (simp_all add: gift_admitted_def)
  have neg: "neg64 (neg64 ?n) = ?n" using n by (simp add: neg64_id in_i64_def)
  have dia: "0 \<le> creator_diamonds ?n" using n by (intro creator_diamonds_nonneg) simp_all
  note send = send_gift_admitted [OF ok R fresh adm, unfolded gross]
  note out = post_gift_outcome [OF ok fresh n room, of senderID now "''gift''" ?md]
  show ?thesis
  proof (cases "?n \<le> bl l (UserCoinsAccount senderID, Coin)")
    case True
    then obtain t l' where post: "repo_PostTransaction R l now ''gift'' key ?md (gift_entries senderID recipientID ?n) = (Inr (t, True), l')"
      and t: "ok l'" "gift_moved (bl l) (bl l') senderID recipientID ?n" "stored l' = (stored l)(key \<mapsto> t)"
      "tx_Entries t = gift_entries senderID recipientID ?n" "tx_Metadata t = ?md" "tx_CreatedAt t = now"
      using out by auto
    obtain r where "finalizeResult s l' t senderID True = Inr r" "gr_IsNew r" "gr_TransactionID r = tx_ID t"
      "gift_result_ok r giftID quantity ?n (bl l' (UserCoinsAccount senderID, Coin))"
      using finalize_gift [OF t(1) R dia neg t(4,5), of True] by auto
    then show ?thesis using True t post send by auto
  next
    case False
    then show ?thesis using out send by simp
  qed
qed

text \<open>A key that is already stored: the static checks aside, nothing is consulted or moved.\<close>

lemma send_gift_replay:
  assumes "ok l" and "gs_repo s = R" and "stored l key = Some t"
    and "senderID \<noteq> recipientID" and "0 < quantity" and "quantity \<le> maxGiftQuantity"
    and "giftByID giftID \<noteq> None"
  shows "\<exists>r. SendGift s l now senderID recipientID roomID giftID quantity key = (Inr r, l, []) \<and>
    \<not> gr_IsNew r \<and> gr_TransactionID r = tx_ID t \<and>
    gr_NewSenderBalance r = bl l (UserCoinsAccount senderID, Coin)"
proof -
  have keep: "gr_TransactionID (result_of_entries a r es) = gr_TransactionID r \<and>
      gr_IsNew (result_of_entries a r es) = gr_IsNew r" for a r es
    by (induction es arbitrary: r) auto
  obtain g where "giftByID giftID = Some g" using assms(7) by auto
  moreover have "repo_GetTransaction (gs_repo s) l key = Inr (Some t)"
    using get_law [OF assms(1), of key] assms(2,3) by simp
  moreover have "repo_Balance (gs_repo s) l a c = Inr (bl l (a, c))" for a c
    using balance_law [OF assms(1)] assms(2) by simp
  ultimately show ?thesis
    using assms(4-6) by (simp add: SendGift_def finalizeResult_def Let_def keep)
qed

text \<open>A success leaves the transaction it reports under the key.\<close>

lemma send_gift_stored:
  assumes "ok l" and "gs_repo s = R"
    and "SendGift s l now senderID recipientID roomID giftID quantity key = (Inr r, l', sent)"
  shows "\<exists>t. stored l' key = Some t \<and> tx_ID t = gr_TransactionID r"
proof -
  have keep: "gr_TransactionID (result_of_entries a r0 es) = gr_TransactionID r0" for a r0 es
    by (induction es arbitrary: r0) auto
  have fin: "tx_ID t = gr_TransactionID r" if "finalizeResult s m t a b = Inr r" for m t a b
    using that by (auto simp: finalizeResult_def Let_def keep split: sum.splits)
  show ?thesis
  proof (cases "stored l key")
    case None
    then obtain g where "gift_admitted s l now senderID recipientID roomID giftID quantity g"
      using assms by (auto simp: SendGift_def gift_admitted_def get_law split: if_splits option.splits)
    from send_gift_admitted [OF assms(1,2) None this] assms(3) show ?thesis
      by (auto split: sum.splits prod.splits dest: post_stores [OF assms(1)] fin [OF sym])
  next
    case (Some t)
    then have "finalizeResult s l t senderID False = Inr r \<and> l' = l"
      using assms by (auto simp: SendGift_def get_law split: if_splits option.splits)
    with Some fin show ?thesis by blast
  qed
qed

end

section \<open>Properties\<close>

text \<open>What a gift costs. On a reachable ledger, once the service's checks have passed under
  a key never used before, \<open>SendGift\<close> succeeds exactly when the sender's coins cover
  price times quantity. It then takes exactly that from the sender, gives the recipient exactly
  the diamonds of the split, changes no other user's balance, reports these figures and the
  sender's new balance, and calls the sent hook once. Otherwise the error carries the price and
  the balance, and nothing changes.\<close>

theorem send_gift_charges_exactly:
  assumes "ledger_reachable l" and "gs_repo s = mem_ledger_repo" and "GetTransaction l key = Inr None"
    and "gift_admitted s l now senderID recipientID roomID giftID quantity g"
    and "bal l (UserDiamondsAccount recipientID, Diamond) + creator_diamonds (g_Coins g * quantity) < 2 ^ 63"
  shows "if g_Coins g * quantity \<le> bal l (UserCoinsAccount senderID, Coin)
    then \<exists>r l' sent. SendGift s l now senderID recipientID roomID giftID quantity key = (Inr r, l', sent) \<and>
      gr_IsNew r \<and> gift_moved (bal l) (bal l') senderID recipientID (g_Coins g * quantity) \<and>
      gift_result_ok r giftID quantity (g_Coins g * quantity) (bal l' (UserCoinsAccount senderID, Coin)) \<and>
      sent = (if gs_onSent s then [(senderID, recipientID, now)] else [])
    else SendGift s l now senderID recipientID roomID giftID quantity key =
      (Inl (GiftLedgerError (InsufficientBalanceError (UserCoinsAccount senderID) Coin
        (g_Coins g * quantity) (bal l (UserCoinsAccount senderID, Coin)))), l, [])"
proof -
  have "tx_by_key l key = None" using assms(3) by (simp add: GetTransaction_def tx_by_key_def)
  from mem.send_gift_outcome [OF ledger_reachable_inv [OF assms(1)] assms(2) this assms(4,5)]
  show ?thesis by (auto split: if_splits)
qed

definition demo_gifts :: "mem_ledger gift_service" where
  "demo_gifts = \<lparr>gs_repo = mem_ledger_repo, gs_preSend = None, gs_onSent = True, gs_verifyHost = None\<rparr>"

definition demo_rose :: gift where
  "demo_rose = \<lparr>g_ID = ''g_rose'', g_Name = ''Rose'', g_Coins = 10, g_AssetURL = ''/assets/gifts/rose.json''\<rparr>"

lemma demo_gift_admitted:
  "0 < q \<Longrightarrow> q \<le> 10000 \<Longrightarrow> gift_admitted demo_gifts l now ''a'' ''b'' room ''g_rose'' q demo_rose"
  by (simp add: gift_admitted_def demo_gifts_def gift_gates_def giftByID_def gift_catalogue_def
      maxGiftQuantity_def demo_rose_def)

lemma send_gift_charges_exactly_witness:
  "(\<exists>r l' sent. SendGift demo_gifts demo_ledger 9 ''a'' ''b'' [] ''g_rose'' 2 ''k2'' = (Inr r, l', sent) \<and>
      bal l' (UserCoinsAccount ''a'', Coin) = 10 \<and> gr_CoinsSpent r = 20 \<and> sent = [(''a'', ''b'', 9)]) \<and>
   SendGift demo_gifts demo_ledger 9 ''a'' ''b'' [] ''g_rose'' 4 ''k2'' =
      (Inl (GiftLedgerError (InsufficientBalanceError (UserCoinsAccount ''a'') Coin 40 30)), demo_ledger, [])"
proof -
  have g: "g_Coins demo_rose = 10" by (simp add: demo_rose_def)
  have adm2: "gift_admitted demo_gifts demo_ledger 9 ''a'' ''b'' [] ''g_rose'' 2 demo_rose"
    and adm4: "gift_admitted demo_gifts demo_ledger 9 ''a'' ''b'' [] ''g_rose'' 4 demo_rose"
    by (simp_all add: demo_gift_admitted)
  have k: "GetTransaction demo_ledger ''k2'' = Inr None"
    by (simp add: GetTransaction_def demo_defs)
  have b: "bal demo_ledger (UserCoinsAccount ''a'', Coin) = 30"
    "bal demo_ledger (UserDiamondsAccount ''b'', Diamond) = 0"
    by (simp_all add: bal_def demo_ledger_eval account_defs getz_def)
  have d: "creator_diamonds 20 = 9" "creator_diamonds 40 = 19" by (simp_all add: split_exact)
  have R: "gs_repo demo_gifts = mem_ledger_repo" "gs_onSent demo_gifts" by (simp_all add: demo_gifts_def)
  show ?thesis
    using send_gift_charges_exactly [OF demo_reachable R(1) k adm2]
      send_gift_charges_exactly [OF demo_reachable R(1) k adm4]
    by (auto simp: g b d R gift_moved_def gift_result_ok_def)
qed

text \<open>A gift is sent exactly once. After a send under a key has succeeded, then within the
  process and whatever was posted in between, any request under that key that passes the static
  checks succeeds with the original transaction, is reported as not new, moves no balance and
  calls no hook. (The replay does not look at who asks: a key is global, not bound to a sender.)\<close>

theorem send_gift_exactly_once:
  assumes "ledger_reachable l" and "gs_repo s = mem_ledger_repo"
    and "SendGift s l now senderID recipientID roomID giftID quantity key = (Inr r, l1, sent)"
    and "ledger_reachable l1" and "ledger_steps l1 l2"
    and "sender2 \<noteq> recipient2" and "0 < q2" and "q2 \<le> maxGiftQuantity" and "giftByID gift2 \<noteq> None"
  shows "\<exists>r2. SendGift s l2 now2 sender2 recipient2 room2 gift2 q2 key = (Inr r2, l2, []) \<and>
    \<not> gr_IsNew r2 \<and> gr_TransactionID r2 = gr_TransactionID r \<and>
    gr_NewSenderBalance r2 = bal l2 (UserCoinsAccount sender2, Coin)"
proof -
  obtain t where "tx_by_key l1 key = Some t" "tx_ID t = gr_TransactionID r"
    using mem.send_gift_stored [OF ledger_reachable_inv [OF assms(1)] assms(2,3)] by blast
  moreover from this have "tx_by_key l2 key = Some t"
    using ledger_steps_byKey [OF assms(5)] by (simp add: tx_by_key_def)
  moreover have "ledger_inv l2"
    using ledger_steps_permanent [OF assms(5) ledger_reachable_inv [OF assms(4)]] by blast
  ultimately show ?thesis
    using mem.send_gift_replay [OF _ assms(2) _ assms(6-9)] by metis
qed

text \<open>A send is a post or nothing.\<close>

lemma SendGift_steps:
  "gs_repo s = mem_ledger_repo \<Longrightarrow>
     ledger_steps l (fst (snd (SendGift s l now senderID recipientID roomID giftID quantity key)))"
  using ledger_step.post [of l now "''gift''" key "gift_metadata giftID roomID quantity senderID recipientID"
      "gift_entries senderID recipientID (gross_coins (the (giftByID giftID)) quantity)"]
  by (auto simp: SendGift_def mem_ledger_repo_def split: option.split sum.split prod.split)

lemma send_gift_exactly_once_witness:
  "\<exists>r r2 l1 sent. SendGift demo_gifts demo_ledger 9 ''a'' ''b'' [] ''g_rose'' 2 ''k2'' = (Inr r, l1, sent) \<and>
     SendGift demo_gifts l1 10 ''a'' ''b'' [] ''g_rose'' 2 ''k2'' = (Inr r2, l1, []) \<and>
     gr_TransactionID r2 = gr_TransactionID r"
proof -
  have R: "gs_repo demo_gifts = mem_ledger_repo" by (simp add: demo_gifts_def)
  have k: "tx_by_key demo_ledger ''k2'' = None" by (simp add: tx_by_key_def demo_defs)
  have b: "bal demo_ledger (UserCoinsAccount ''a'', Coin) = 30"
    "bal demo_ledger (UserDiamondsAccount ''b'', Diamond) = 0"
    by (simp_all add: bal_def demo_ledger_eval account_defs getz_def)
  have g: "g_Coins demo_rose = 10" by (simp add: demo_rose_def)
  have adm: "gift_admitted demo_gifts demo_ledger 9 ''a'' ''b'' [] ''g_rose'' 2 demo_rose"
    by (simp add: demo_gift_admitted)
  obtain r l1 sent where s: "SendGift demo_gifts demo_ledger 9 ''a'' ''b'' [] ''g_rose'' 2 ''k2'' = (Inr r, l1, sent)"
    using mem.send_gift_outcome [OF ledger_reachable_inv [OF demo_reachable] R k adm]
    by (auto simp: g b split_exact)
  have "ledger_reachable l1"
    using SendGift_steps [OF R, of demo_ledger 9 "''a''" "''b''" "[]" "''g_rose''" 2 "''k2''"] s
    by (auto intro: ledger_steps_reachable [OF _ demo_reachable])
  from send_gift_exactly_once [OF demo_reachable R s this rtranclp.rtrancl_refl, of "''a''" "''b''" 2 "''g_rose''" 10 "[]"] s
  show ?thesis by (auto simp: maxGiftQuantity_def giftByID_def gift_catalogue_def)
qed

end
