(* ===== verification/Risk.thy ===== *)
theory Risk
  imports GoPrelude
begin

text \<open>
  The risk scoring pipeline that moderation and fraud share: the in-memory profiles
  (\<open>moderation/mem_repo.go\<close>, \<open>MemRiskRepo\<close>) and the engine
  (\<open>moderation/modsvc/risk.go\<close>). A profile's score is a \<open>float64\<close> that only ever
  grows by 2, 3 or 4; such sums are exact below \<open>2 ^ 53\<close>, so it is an integer here. What the
  engine asks other modules (age assurance, account age, followers, follows) is an argument.
\<close>

section \<open>Profiles\<close>

datatype review_status = ReviewNone | ReviewWatch | ReviewManualReview

record risk_profile =
  rp_AccountID :: string
  rp_RiskScore :: int
  rp_RiskReasons :: "string list"
  rp_ReviewStatus :: review_status
  rp_UpdatedAt :: time

definition RiskWatchThreshold :: int where "RiskWatchThreshold = 3"
definition RiskManualReviewThreshold :: int where "RiskManualReviewThreshold = 6"

lemmas risk_thresholds = RiskWatchThreshold_def RiskManualReviewThreshold_def

type_synonym mem_risk = "(string \<times> risk_profile) list"

definition NewMemRiskRepo :: mem_risk where "NewMemRiskRepo = []"

definition GetRisk :: "mem_risk \<Rightarrow> string \<Rightarrow> risk_profile" where
  "GetRisk r accountID =
     (case map_of r accountID of
        Some p \<Rightarrow> p
      | None \<Rightarrow> \<lparr>rp_AccountID = accountID, rp_RiskScore = 0, rp_RiskReasons = [],
          rp_ReviewStatus = ReviewNone, rp_UpdatedAt = 0\<rparr>)"

definition UpsertRisk :: "mem_risk \<Rightarrow> risk_profile \<Rightarrow> mem_risk" where
  "UpsertRisk r p = AList.update (rp_AccountID p) p r"

text \<open>Sorted by falling score; Go's sort leaves the order of equal scores open, here it is the
  stable one.\<close>

definition ListFlagged :: "mem_risk \<Rightarrow> risk_profile list" where
  "ListFlagged r = sort_key (\<lambda>p. - rp_RiskScore p) (filter (\<lambda>p. rp_ReviewStatus p \<noteq> ReviewNone) (map snd r))"

section \<open>Adding a signal\<close>

definition addSignal :: "mem_risk \<Rightarrow> time \<Rightarrow> string \<Rightarrow> int \<Rightarrow> string \<Rightarrow> mem_risk" where
  "addSignal r now accountID delta reason =
     (let p = GetRisk r accountID;
          p = (if reason \<in> set (rp_RiskReasons p) then p
               else p\<lparr>rp_RiskReasons := rp_RiskReasons p @ [reason]\<rparr>);
          p = p\<lparr>rp_RiskScore := rp_RiskScore p + delta\<rparr>;
          p = (if RiskManualReviewThreshold \<le> rp_RiskScore p then p\<lparr>rp_ReviewStatus := ReviewManualReview\<rparr>
               else if RiskWatchThreshold \<le> rp_RiskScore p
               then (if rp_ReviewStatus p = ReviewNone then p\<lparr>rp_ReviewStatus := ReviewWatch\<rparr> else p)
               else p)
      in UpsertRisk r (p\<lparr>rp_UpdatedAt := now\<rparr>))"

definition AddSignal :: "mem_risk \<Rightarrow> time \<Rightarrow> string \<Rightarrow> int \<Rightarrow> string \<Rightarrow> mem_risk" where
  "AddSignal r now accountID delta reason = addSignal r now accountID delta reason"

section \<open>The grooming signals\<close>

definition recentlyRegisteredWindow :: duration where "recentlyRegisteredWindow = 7 * 24 * hour"
definition lowFollowerThreshold :: int where "lowFollowerThreshold = 10"
definition multiContactWindow :: duration where "multiContactWindow = 24 * hour"
definition multiContactThreshold :: nat where "multiContactThreshold = 3"
definition rapidEscalationWindow :: duration where "rapidEscalationWindow = 10 * minute"

definition groomingKeywords :: "string list" where
  "groomingKeywords = [''send pics'', ''our secret'', ''don'' @ [CHR 0x27] @ ''t tell'', ''meet in person'',
     ''how old are you really'']"

text \<open>The closures; \<open>None\<close> is an error.\<close>

record risk_closures =
  rc_ageAssured :: "string \<Rightarrow> bool option"
  rc_createdAt :: "string \<Rightarrow> time option"
  rc_followerCnt :: "string \<Rightarrow> int option"
  rc_isFollowing :: "(string \<Rightarrow> string \<Rightarrow> bool option) option"

record risk_engine =
  re_repo :: mem_risk
  re_recentContacts :: "(string \<times> (string \<times> time) list) list"
  re_firstContact :: "((string \<times> string) \<times> time) list"

definition NewRiskEngine :: "mem_risk \<Rightarrow> risk_engine" where
  "NewRiskEngine repo = \<lparr>re_repo = repo, re_recentContacts = [], re_firstContact = []\<rparr>"

definition signal :: "risk_engine \<Rightarrow> time \<Rightarrow> string \<Rightarrow> int \<Rightarrow> string \<Rightarrow> risk_engine" where
  "signal e now accountID delta reason = e\<lparr>re_repo := addSignal (re_repo e) now accountID delta reason\<rparr>"

definition RecordMessage :: "risk_closures \<Rightarrow> risk_engine \<Rightarrow> time \<Rightarrow> string \<Rightarrow> string \<Rightarrow> string \<Rightarrow> risk_engine" where
  "RecordMessage c e now senderID recipientID body =
     (let e = (case map_of (re_firstContact e) (senderID, recipientID) of
                 Some _ \<Rightarrow> e
               | None \<Rightarrow> e\<lparr>re_firstContact := AList.update (senderID, recipientID) now (re_firstContact e)\<rparr>);
          lower = ToLower body;
          e = (if list_ex (Contains lower) groomingKeywords
               then signal e now senderID 2 ''keyword_signal'' else e)
      in if rc_ageAssured c senderID \<noteq> Some True then e
         else
           (case rc_createdAt c recipientID of
              None \<Rightarrow> e
            | Some created \<Rightarrow>
                if recentlyRegisteredWindow < now - created then e
                else
                  (case rc_followerCnt c recipientID of
                     None \<Rightarrow> e
                   | Some followers \<Rightarrow>
                       if lowFollowerThreshold \<le> followers then e
                       else
                         (let contacts = (case map_of (re_recentContacts e) senderID of None \<Rightarrow> [] | Some m \<Rightarrow> m);
                              contacts = AList.update recipientID now contacts;
                              cutoff = now - multiContactWindow;
                              contacts = filter (\<lambda>(rid, at). \<not> Before at cutoff) contacts;
                              e = e\<lparr>re_recentContacts := AList.update senderID contacts (re_recentContacts e)\<rparr>
                          in if multiContactThreshold \<le> length contacts
                             then signal e now senderID 3 ''multi_low_follower_contact''
                             else e))))"

definition RecordPVRequest :: "risk_closures \<Rightarrow> risk_engine \<Rightarrow> time \<Rightarrow> string \<Rightarrow> string \<Rightarrow> risk_engine" where
  "RecordPVRequest c e now callerID calleeID =
     (let e = (case map_of (re_firstContact e) (callerID, calleeID) of
                 Some first \<Rightarrow> if now - first < rapidEscalationWindow
                   then signal e now callerID 3 ''rapid_escalation_to_pv'' else e
               | None \<Rightarrow> e)
      in case rc_isFollowing c of
           None \<Rightarrow> e
         | Some isFollowing \<Rightarrow>
             (case isFollowing calleeID callerID of
                Some False \<Rightarrow> signal e now callerID 2 ''no_reciprocal_engagement''
              | _ \<Rightarrow> e))"

section \<open>What the score does to the review status\<close>

definition status_for :: "int \<Rightarrow> review_status" where
  "status_for n = (if RiskManualReviewThreshold \<le> n then ReviewManualReview
     else if RiskWatchThreshold \<le> n then ReviewWatch else ReviewNone)"

text \<open>A log of signals, oldest first: time, account, weight, reason.\<close>

type_synonym signal_log = "(time \<times> string \<times> int \<times> string) list"

definition add_signals :: "mem_risk \<Rightarrow> signal_log \<Rightarrow> mem_risk" where
  "add_signals r sigs = foldl (\<lambda>r (t, a, d, why). AddSignal r t a d why) r sigs"

definition signals_total :: "string \<Rightarrow> signal_log \<Rightarrow> int" where
  "signals_total a sigs = (\<Sum>(t, b, d, why) \<leftarrow> sigs. if b = a then d else 0)"

definition signals_reasons :: "string \<Rightarrow> signal_log \<Rightarrow> string set" where
  "signals_reasons a sigs = {why. \<exists>t d. (t, a, d, why) \<in> set sigs}"

definition profile_ok :: "mem_risk \<Rightarrow> string \<Rightarrow> int \<Rightarrow> string set \<Rightarrow> bool" where
  "profile_ok r a n whys \<longleftrightarrow>
     (let p = GetRisk r a in rp_AccountID p = a \<and> rp_RiskScore p = n \<and> rp_ReviewStatus p = status_for n \<and>
        set (rp_RiskReasons p) = whys \<and> distinct (rp_RiskReasons p))"

lemma GetRisk_Upsert: "GetRisk (UpsertRisk r p) a = (if a = rp_AccountID p then p else GetRisk r a)"
  by (simp add: GetRisk_def UpsertRisk_def)

lemma AddSignal_profile:
  assumes "rp_AccountID (GetRisk r b) = b"
  shows "rp_AccountID (GetRisk (AddSignal r t b d why) b) = b"
    "rp_RiskScore (GetRisk (AddSignal r t b d why) b) = rp_RiskScore (GetRisk r b) + d"
    "rp_RiskReasons (GetRisk (AddSignal r t b d why) b) =
       (if why \<in> set (rp_RiskReasons (GetRisk r b)) then rp_RiskReasons (GetRisk r b)
        else rp_RiskReasons (GetRisk r b) @ [why])"
    "rp_ReviewStatus (GetRisk (AddSignal r t b d why) b) =
       (if 6 \<le> rp_RiskScore (GetRisk r b) + d then ReviewManualReview
        else if 3 \<le> rp_RiskScore (GetRisk r b) + d \<and> rp_ReviewStatus (GetRisk r b) = ReviewNone then ReviewWatch
        else rp_ReviewStatus (GetRisk r b))"
    "a \<noteq> b \<Longrightarrow> GetRisk (AddSignal r t b d why) a = GetRisk r a"
  using assms by (simp_all add: AddSignal_def addSignal_def Let_def GetRisk_Upsert risk_thresholds)

lemma profile_ok_AddSignal:
  assumes "profile_ok r a n whys" and "0 < d" and "rp_AccountID (GetRisk r b) = b"
  shows "profile_ok (AddSignal r t b d why) a (n + (if b = a then d else 0)) (if b = a then insert why whys else whys)"
proof (cases "b = a")
  case True
  have "status_for (n + d) = (if 6 \<le> n + d then ReviewManualReview
      else if 3 \<le> n + d \<and> status_for n = ReviewNone then ReviewWatch else status_for n)"
    using assms(2) by (simp add: status_for_def risk_thresholds)
  then show ?thesis
    using assms(1,3) True by (simp add: profile_ok_def Let_def AddSignal_profile insert_absorb)
next
  case False
  then show ?thesis using assms(1,3) by (simp add: profile_ok_def AddSignal_profile)
qed

lemma profile_ok_new: "profile_ok NewMemRiskRepo a 0 {}"
  by (simp add: profile_ok_def NewMemRiskRepo_def GetRisk_def status_for_def risk_thresholds)

lemma signals_total_snoc: "signals_total a (sigs @ [(t, b, d, why)]) = signals_total a sigs + (if b = a then d else 0)"
  by (simp add: signals_total_def)

lemma signals_reasons_snoc:
  "signals_reasons a (sigs @ [(t, b, d, why)]) =
     (if b = a then insert why (signals_reasons a sigs) else signals_reasons a sigs)"
  by (auto simp: signals_reasons_def)

text \<open>The review status is a function of the total, and nothing else. Whatever signals, in
  whatever order, have been added to a fresh store, an account's score is the sum of its own
  signals' weights; it is under manual review exactly from 6 points, watched from 3 up to there,
  and unflagged below; each reason is listed once.\<close>

theorem risk_status_from_total:
  assumes "\<forall>(t, b, d, why) \<in> set sigs. 0 < d"
  shows "profile_ok (add_signals NewMemRiskRepo sigs) a (signals_total a sigs) (signals_reasons a sigs)"
proof -
  have "\<forall>a. profile_ok (add_signals NewMemRiskRepo sigs) a (signals_total a sigs) (signals_reasons a sigs)"
    using assms
  proof (induction sigs rule: rev_induct)
    case Nil
    then show ?case by (simp add: add_signals_def signals_total_def signals_reasons_def profile_ok_new)
  next
    case (snoc s sigs)
    obtain t b d why where s: "s = (t, b, d, why)" by (cases s)
    let ?r = "add_signals NewMemRiskRepo sigs"
    have IH: "profile_ok ?r c (signals_total c sigs) (signals_reasons c sigs)" for c
      using snoc by simp
    then have "rp_AccountID (GetRisk ?r b) = b" by (simp add: profile_ok_def Let_def)
    moreover have "add_signals NewMemRiskRepo (sigs @ [s]) = AddSignal ?r t b d why"
      by (simp add: add_signals_def s)
    ultimately show ?case
      using profile_ok_AddSignal [OF IH] snoc.prems by (simp add: s signals_total_snoc signals_reasons_snoc)
  qed
  then show ?thesis ..
qed

lemma risk_status_from_total_witness:
  "profile_ok (add_signals NewMemRiskRepo [(1, ''u'', 4, ''gift_loop''), (2, ''u'', 3, ''repeat_chargeback'')])
     ''u'' 7 {''gift_loop'', ''repeat_chargeback''}"
proof -
  let ?s = "[(1, ''u'', 4, ''gift_loop''), (2, ''u'', 3, ''repeat_chargeback'')] :: signal_log"
  have "signals_total ''u'' ?s = 7" by (simp add: signals_total_def)
  moreover have "signals_reasons ''u'' ?s = {''gift_loop'', ''repeat_chargeback''}"
    by (auto simp: signals_reasons_def)
  ultimately show ?thesis using risk_status_from_total [of ?s "''u''"] by simp
qed

text \<open>The weights the code uses are below the review threshold: no single signal is enough.\<close>

lemma no_single_signal_reviews:
  "0 < d \<Longrightarrow> d \<le> 4 \<Longrightarrow> rp_ReviewStatus (GetRisk (AddSignal NewMemRiskRepo t a d why) b) \<noteq> ReviewManualReview"
  by (simp add: AddSignal_def addSignal_def Let_def GetRisk_Upsert risk_thresholds)
    (simp add: NewMemRiskRepo_def GetRisk_def)

text \<open>The statuses are ordered by severity, and scoring never lowers one.\<close>

fun severity :: "review_status \<Rightarrow> nat" where
  "severity ReviewNone = 0"
| "severity ReviewWatch = 1"
| "severity ReviewManualReview = 2"

instantiation review_status :: linorder
begin

definition less_eq_review_status :: "review_status \<Rightarrow> review_status \<Rightarrow> bool" where
  "less_eq_review_status s t \<longleftrightarrow> severity s \<le> severity t"

definition less_review_status :: "review_status \<Rightarrow> review_status \<Rightarrow> bool" where
  "less_review_status s t \<longleftrightarrow> severity s < severity t"

instance
proof
  fix s t :: review_status
  show "s \<le> t \<Longrightarrow> t \<le> s \<Longrightarrow> s = t"
    by (cases s; cases t) (simp_all add: less_eq_review_status_def)
qed (auto simp: less_eq_review_status_def less_review_status_def)

end

lemma AddSignal_status_mono:
  assumes "rp_AccountID (GetRisk r b) = b"
  shows "rp_ReviewStatus (GetRisk r a) \<le> rp_ReviewStatus (GetRisk (AddSignal r t b d why) a)"
proof (cases "a = b")
  case True
  then show ?thesis
    using AddSignal_profile(4) [OF assms]
    by (cases "rp_ReviewStatus (GetRisk r b)") (simp_all add: less_eq_review_status_def)
next
  case False
  then show ?thesis using AddSignal_profile(5) [OF assms] by (simp add: less_eq_review_status_def)
qed

end
