(* ===== verification/Fraud.thy ===== *)
theory Fraud
  imports Gifts Orders Risk
begin

text \<open>
  Fraud prevention (\<open>fraud/\<close>, \<open>fraud/fraudsvc\<close>): device clusters, gift loops, the
  gift rate limit and repeated disputes, with the wiring of \<open>feed/cmd/api/main.go\<close> that feeds
  them from the ledger and hooks them into the gift service.
\<close>

section \<open>Data\<close>

record device_fingerprint =
  df_AccountID :: string
  df_DeviceHash :: string
  df_FirstSeen :: time
  df_LastSeen :: time

definition DeviceClusterMinAccounts :: nat where "DeviceClusterMinAccounts = 2"
definition GiftLoopWindow :: duration where "GiftLoopWindow = 5 * minute"
definition GiftVelocityWindow :: duration where "GiftVelocityWindow = 1 * minute"
definition GiftVelocityLimit :: nat where "GiftVelocityLimit = 5"
definition ChargebackRiskThreshold :: int where "ChargebackRiskThreshold = 2"
definition SignalDeviceClustering :: int where "SignalDeviceClustering = 4"
definition SignalGiftLoop :: int where "SignalGiftLoop = 4"
definition SignalRepeatChargeback :: int where "SignalRepeatChargeback = 3"

lemmas fraud_constants = DeviceClusterMinAccounts_def GiftLoopWindow_def GiftVelocityWindow_def
  GiftVelocityLimit_def ChargebackRiskThreshold_def SignalDeviceClustering_def SignalGiftLoop_def
  SignalRepeatChargeback_def

text \<open>A risk signal the service asks for: account, weight, reason.\<close>

type_synonym fraud_signal = "string \<times> int \<times> string"

record gift_flow =
  gf_SenderID :: string
  gf_RecipientID :: string
  gf_CreatedAt :: time

type_synonym mem_devices = "(string \<times> (string \<times> device_fingerprint) list) list"
type_synonym mem_disputes = "(string \<times> int) list"

section \<open>Repositories\<close>

definition device_accounts :: "mem_devices \<Rightarrow> string \<Rightarrow> (string \<times> device_fingerprint) list" where
  "device_accounts r deviceHash = (case map_of r deviceHash of None \<Rightarrow> [] | Some m \<Rightarrow> m)"

definition RecordDevice :: "mem_devices \<Rightarrow> time \<Rightarrow> string \<Rightarrow> string \<Rightarrow> string list \<times> mem_devices" where
  "RecordDevice r now accountID deviceHash =
     (let m = device_accounts r deviceHash;
          fp = (case map_of m accountID of
                  Some fp \<Rightarrow> fp\<lparr>df_LastSeen := now\<rparr>
                | None \<Rightarrow> \<lparr>df_AccountID = accountID, df_DeviceHash = deviceHash, df_FirstSeen = now, df_LastSeen = now\<rparr>);
          m = AList.update accountID fp m
      in (map fst m, AList.update deviceHash m r))"

definition AccountsForDevice :: "mem_devices \<Rightarrow> string \<Rightarrow> string list" where
  "AccountsForDevice r deviceHash = map fst (device_accounts r deviceHash)"

definition IncrementDisputes :: "mem_disputes \<Rightarrow> string \<Rightarrow> int \<times> mem_disputes" where
  "IncrementDisputes r accountID =
     (let n = add64 (getz r accountID) 1 in (n, AList.update accountID n r))"

section \<open>Service\<close>

datatype fraud_error = FraudForbidden | FraudError string

definition RecordDeviceLogin :: "mem_devices \<Rightarrow> time \<Rightarrow> string \<Rightarrow> string \<Rightarrow> fraud_signal list \<times> mem_devices" where
  "RecordDeviceLogin r now accountID deviceHash =
     (case RecordDevice r now accountID deviceHash of
        (accounts, r') \<Rightarrow>
          if length accounts < DeviceClusterMinAccounts then ([], r')
          else (map (\<lambda>i. (i, SignalDeviceClustering, ''device_clustering'')) accounts, r'))"

text \<open>\<open>permission\<close> is the injected permission check; \<open>Inl\<close> is its error.\<close>

definition GetDeviceCluster :: "mem_devices \<Rightarrow> string + bool \<Rightarrow> string \<Rightarrow> fraud_error + string list" where
  "GetDeviceCluster r permission deviceHash =
     (case permission of
        Inl err \<Rightarrow> Inl (FraudError err)
      | Inr False \<Rightarrow> Inl FraudForbidden
      | Inr True \<Rightarrow> Inr (AccountsForDevice r deviceHash))"

text \<open>\<open>gifts\<close> is what the injected \<open>listRecentGifts\<close> returned for the window, or its failure.\<close>

definition CheckGiftLoop :: "gift_flow list option \<Rightarrow> string \<Rightarrow> string \<Rightarrow> time \<Rightarrow> fraud_signal list" where
  "CheckGiftLoop gifts senderID recipientID at =
     (let windowStart = at - GiftLoopWindow
      in case gifts of
           None \<Rightarrow> []
         | Some gs \<Rightarrow>
             if list_ex (\<lambda>g. gf_SenderID g = recipientID \<and> gf_RecipientID g = senderID \<and>
                  \<not> Before (gf_CreatedAt g) windowStart) gs
             then [(senderID, SignalGiftLoop, ''gift_loop''), (recipientID, SignalGiftLoop, ''gift_loop'')]
             else [])"

text \<open>True for \<open>ErrVelocityExceeded\<close>.\<close>

definition CheckGiftVelocity :: "gift_flow list option \<Rightarrow> time \<Rightarrow> string \<Rightarrow> bool" where
  "CheckGiftVelocity gifts now senderID =
     (let windowStart = now - GiftVelocityWindow
      in case gifts of
           None \<Rightarrow> False
         | Some gs \<Rightarrow>
             GiftVelocityLimit \<le> length (filter (\<lambda>g. gf_SenderID g = senderID \<and>
               \<not> Before (gf_CreatedAt g) windowStart) gs))"

definition RecordDispute :: "mem_disputes \<Rightarrow> string \<Rightarrow> fraud_signal list \<times> mem_disputes" where
  "RecordDispute r accountID =
     (case IncrementDisputes r accountID of
        (count, r') \<Rightarrow>
          (if ChargebackRiskThreshold \<le> count
           then [(accountID, SignalRepeatChargeback, ''repeat_chargeback'')] else [], r'))"

section \<open>The wiring\<close>

definition meta_string :: "metadata \<Rightarrow> string \<Rightarrow> string" where
  "meta_string md k = (case map_of md k of Some (AnyString s) \<Rightarrow> s | _ \<Rightarrow> [])"

definition fraudListRecentGifts :: "mem_ledger \<Rightarrow> time \<Rightarrow> gift_flow list" where
  "fraudListRecentGifts l since =
     List.map_filter (\<lambda>tx.
         let sender = meta_string (tx_Metadata tx) ''sender_id'';
             recipient = meta_string (tx_Metadata tx) ''recipient_id''
         in if sender = [] \<or> recipient = [] then None
            else Some \<lparr>gf_SenderID = sender, gf_RecipientID = recipient, gf_CreatedAt = tx_CreatedAt tx\<rparr>)
       (ListByKind l ''gift'' since)"

definition fraud_velocity_check :: "mem_ledger \<Rightarrow> time \<Rightarrow> string \<Rightarrow> gift_error option" where
  "fraud_velocity_check l now senderID =
     (if CheckGiftVelocity (Some (fraudListRecentGifts l (now - GiftVelocityWindow))) now senderID
      then Some ErrVelocityLimitExceeded else None)"

text \<open>The gift service as the composition root builds it.\<close>

definition wired_gifts :: "(string \<Rightarrow> string \<Rightarrow> string + bool) option \<Rightarrow> mem_ledger gift_service" where
  "wired_gifts verifyHost = \<lparr>gs_repo = mem_ledger_repo, gs_preSend = Some fraud_velocity_check,
     gs_onSent = True, gs_verifyHost = verifyHost\<rparr>"

definition sent_hook :: "mem_ledger \<Rightarrow> sent_note \<Rightarrow> fraud_signal list" where
  "sent_hook l note =
     (case note of (senderID, recipientID, at) \<Rightarrow>
        CheckGiftLoop (Some (fraudListRecentGifts l (at - GiftLoopWindow))) senderID recipientID at)"

definition apply_signals :: "mem_risk \<Rightarrow> time \<Rightarrow> fraud_signal list \<Rightarrow> mem_risk" where
  "apply_signals r now sigs = foldl (\<lambda>r (a, d, why). AddSignal r now a d why) r sigs"

definition send_wired :: "(string \<Rightarrow> string \<Rightarrow> string + bool) option \<Rightarrow> mem_ledger \<Rightarrow> mem_risk \<Rightarrow> time \<Rightarrow>
    string \<Rightarrow> string \<Rightarrow> string \<Rightarrow> string \<Rightarrow> int \<Rightarrow> string \<Rightarrow> (gift_error + gift_result) \<times> mem_ledger \<times> mem_risk" where
  "send_wired host l risk now senderID recipientID roomID giftID quantity key =
     (case SendGift (wired_gifts host) l now senderID recipientID roomID giftID quantity key of
        (res, l', notes) \<Rightarrow> (res, l', apply_signals risk now (concat (map (sent_hook l') notes))))"

section \<open>The rate limit\<close>

text \<open>The gifts a sender has sent at times from \<open>a\<close> to \<open>b\<close>, read off the journal.\<close>

definition sent_by :: "string \<Rightarrow> time \<Rightarrow> time \<Rightarrow> transaction \<Rightarrow> bool" where
  "sent_by sender a b tx \<longleftrightarrow> tx_Kind tx = ''gift'' \<and> meta_string (tx_Metadata tx) ''sender_id'' = sender \<and>
     meta_string (tx_Metadata tx) ''recipient_id'' \<noteq> [] \<and> a \<le> tx_CreatedAt tx \<and> tx_CreatedAt tx \<le> b"

definition gifts_sent :: "mem_ledger \<Rightarrow> string \<Rightarrow> time \<Rightarrow> time \<Rightarrow> nat" where
  "gifts_sent l sender a b = length (filter (sent_by sender a b) (journal l))"

text \<open>A process's ledger over time: gifts through the wired service, and anything else that posts or
  reverses under another kind, with a clock that does not run backwards.\<close>

inductive gift_run :: "time \<Rightarrow> mem_ledger \<Rightarrow> bool" where
  start: "gift_run t NewMemLedger"
| send: "gift_run t l \<Longrightarrow> t \<le> now \<Longrightarrow>
    gift_run now (fst (snd (send_wired host l risk now senderID recipientID roomID giftID quantity key)))"
| post: "gift_run t l \<Longrightarrow> t \<le> now \<Longrightarrow> kind \<noteq> ''gift'' \<Longrightarrow>
    gift_run now (snd (PostTransaction l now kind key md es))"
| reverse: "gift_run t l \<Longrightarrow> t \<le> now \<Longrightarrow> gift_run now (snd (ReverseTransaction l now i key reason))"

lemma length_map_filter: "length (List.map_filter f xs) = length (filter (\<lambda>x. f x \<noteq> None) xs)"
  by (induction xs) (auto simp: map_filter_simps split: option.split)

lemma filter_map_filter:
  "filter P (List.map_filter f xs) = List.map_filter (\<lambda>x. Option.bind (f x) (\<lambda>y. if P y then Some y else None)) xs"
  by (induction xs) (auto simp: map_filter_simps split: option.split)

lemma velocity_count:
  assumes "sender \<noteq> []" and "\<forall>tx \<in> set (journal l). tx_CreatedAt tx \<le> now"
  shows "fraud_velocity_check l now sender = None \<longleftrightarrow> gifts_sent l sender (now - GiftVelocityWindow) now < 5"
proof -
  let ?a = "now - GiftVelocityWindow"
  have "length (filter (\<lambda>g. gf_SenderID g = sender \<and> \<not> Before (gf_CreatedAt g) ?a) (fraudListRecentGifts l ?a)) =
      length (filter (\<lambda>tx. sent_by sender ?a now tx) (journal l))"
    unfolding fraudListRecentGifts_def filter_map_filter length_map_filter ListByKind_def journal_def filter_filter
    by (rule arg_cong [where f = length], rule filter_cong)
      (use assms in \<open>auto simp: sent_by_def Let_def time_defs journal_def split: if_splits\<close>)
  then show ?thesis
    by (simp add: fraud_velocity_check_def CheckGiftVelocity_def Let_def gifts_sent_def GiftVelocityLimit_def not_le)
qed

lemma post_journal:
  assumes "ids_ok l"
  obtains (same) "journal (snd (PostTransaction l now kind key md es)) = journal l"
  | (new) t where "journal (snd (PostTransaction l now kind key md es)) = journal l @ [t]"
      "tx_Kind t = kind" "tx_Metadata t = md" "tx_CreatedAt t = now"
  using assms
  by (cases rule: postLocked_cases [of l key now kind md es]) (auto simp: PostTransaction_def journal_posted)

lemma reverse_journal:
  assumes "ids_ok l"
  obtains (same) "journal (snd (ReverseTransaction l now i key reason)) = journal l"
  | (new) t where "journal (snd (ReverseTransaction l now i key reason)) = journal l @ [t]"
      "tx_Kind t = ''reversal''" "tx_CreatedAt t = now"
proof (cases rule: ReverseTransaction_cases [of l key now i reason])
  case (fresh t p tx)
  have "journal (posted l p tx) = journal l @ [tx]" using journal_posted [OF fresh(4) assms] .
  then have "journal (snd (ReverseTransaction l now i key reason)) = journal l @ [tx]"
    by (simp add: fresh(6)) (simp add: journal_def)
  then show ?thesis using new [of tx] by (simp add: fresh(5))
qed (use same in auto)

lemma send_wired_ledger:
  "fst (snd (send_wired host l risk now s r room gift q key)) =
     fst (snd (SendGift (wired_gifts host) l now s r room gift q key))"
  by (simp add: send_wired_def split: prod.split)

text \<open>A send through the wired service posts nothing, or one gift that the limit let through.\<close>

lemma send_wired_journal:
  assumes inv: "ids_ok l" and l': "l' = fst (snd (send_wired host l risk now s r room gift q key))"
  obtains (same) "l' = l"
  | (new) t where "journal l' = journal l @ [t]" "tx_Kind t = ''gift''" "tx_CreatedAt t = now"
      "meta_string (tx_Metadata t) ''sender_id'' = s" "fraud_velocity_check l now s = None"
proof (cases "l' = l")
  case False
  let ?post = "\<lambda>g. PostTransaction l now ''gift'' key (gift_metadata gift room q s r) (gift_entries s r (gross_coins g q))"
  have "gift_gates (wired_gifts host) l now s r room = None \<and> (\<exists>g. l' = snd (?post g))"
    using False unfolding l' send_wired_ledger
    by (auto simp: SendGift_def wired_gifts_def mem_ledger_repo_def
        split: option.splits sum.splits prod.splits if_splits) (metis snd_conv)+
  then obtain g where adm: "gift_gates (wired_gifts host) l now s r room = None" and post: "l' = snd (?post g)"
    by blast
  have v: "fraud_velocity_check l now s = None"
    using adm by (auto simp: gift_gates_def wired_gifts_def split: option.splits)
  show ?thesis
  proof (cases rule: post_journal [OF inv, of now "''gift''" key "gift_metadata gift room q s r"
        "gift_entries s r (gross_coins g q)"])
    case 1
    then show ?thesis
      using False unfolding post
      by (cases rule: postLocked_cases [of l key now "''gift''" "gift_metadata gift room q s r"
            "gift_entries s r (gross_coins g q)"])
        (auto simp: PostTransaction_def journal_posted inv)
  next
    case (2 t)
    then show ?thesis
      using v new [of t] by (simp add: post gift_metadata_def meta_string_def)
  qed
qed (use same in blast)

definition velocity_ok :: "time \<Rightarrow> mem_ledger \<Rightarrow> bool" where
  "velocity_ok t l \<longleftrightarrow> (\<forall>tx \<in> set (journal l). tx_CreatedAt tx \<le> t) \<and>
     (\<forall>sender a. sender \<noteq> [] \<longrightarrow> gifts_sent l sender a (a + GiftVelocityWindow) \<le> 5)"

lemma length_filter_mono: "(\<And>x. P x \<Longrightarrow> Q x) \<Longrightarrow> length (filter P xs) \<le> length (filter Q xs)"
  by (induction xs) (auto intro: le_SucI)

lemma gifts_sent_mono: "a \<le> a' \<Longrightarrow> b' \<le> b \<Longrightarrow> gifts_sent l s a' b' \<le> gifts_sent l s a b"
  unfolding gifts_sent_def by (rule length_filter_mono) (auto simp: sent_by_def)

lemma velocity_ok_other:
  assumes "velocity_ok t l" and "t \<le> now"
    and "journal l' = journal l \<or> (\<exists>u. journal l' = journal l @ [u] \<and> tx_Kind u \<noteq> ''gift'' \<and> tx_CreatedAt u = now)"
  shows "velocity_ok now l'"
  using assms by (fastforce simp: velocity_ok_def gifts_sent_def sent_by_def)

lemma velocity_ok_gift:
  assumes ok: "velocity_ok t l" and t: "t \<le> now" and j: "journal l' = journal l @ [u]"
    and u: "tx_Kind u = ''gift''" "tx_CreatedAt u = now" "meta_string (tx_Metadata u) ''sender_id'' = s"
    and v: "fraud_velocity_check l now s = None"
  shows "velocity_ok now l'"
  unfolding velocity_ok_def
proof (intro conjI ballI allI impI)
  have old: "\<forall>tx \<in> set (journal l). tx_CreatedAt tx \<le> now" using ok t by (fastforce simp: velocity_ok_def)
  then show "tx_CreatedAt tx \<le> now" if "tx \<in> set (journal l')" for tx using that u(2) by (auto simp: j)
  fix sender :: string and a
  assume s: "sender \<noteq> []"
  show "gifts_sent l' sender a (a + GiftVelocityWindow) \<le> 5"
  proof (cases "sent_by sender a (a + GiftVelocityWindow) u")
    case False
    then show ?thesis using ok s by (simp add: velocity_ok_def gifts_sent_def j)
  next
    case True
    then have "sender = s" "a \<le> now" "now \<le> a + GiftVelocityWindow" using u by (auto simp: sent_by_def)
    moreover have "gifts_sent l sender a (a + GiftVelocityWindow) = gifts_sent l sender a now"
      using old \<open>now \<le> a + GiftVelocityWindow\<close> unfolding gifts_sent_def
      by (intro arg_cong [where f = length] filter_cong) (fastforce simp: sent_by_def)+
    moreover have "gifts_sent l sender a now \<le> gifts_sent l sender (now - GiftVelocityWindow) now"
      using \<open>now \<le> a + GiftVelocityWindow\<close> by (intro gifts_sent_mono) simp_all
    ultimately have "gifts_sent l sender a (a + GiftVelocityWindow) < 5"
      using v velocity_count [OF s old] by simp
    then show ?thesis using True by (simp add: gifts_sent_def j)
  qed
qed

lemma gift_run_ok: "gift_run t l \<Longrightarrow> velocity_ok t l \<and> ledger_inv l"
proof (induction rule: gift_run.induct)
  case (start t)
  then show ?case by (simp add: velocity_ok_def gifts_sent_def journal_def ledger_inv_new)
      (simp add: NewMemLedger_def)
next
  case (send t l now host risk s r room gift q key)
  let ?l = "fst (snd (send_wired host l risk now s r room gift q key))"
  have ids: "ids_ok l" using send.IH by (simp add: ledger_inv_def)
  have "ledger_steps l ?l"
    unfolding send_wired_ledger by (rule SendGift_steps) (simp add: wired_gifts_def)
  then have "ledger_inv ?l" using ledger_steps_permanent send.IH by blast
  moreover have "velocity_ok now ?l"
  proof (cases rule: send_wired_journal [OF ids refl, of host risk now s r room gift q key])
    case 1
    then show ?thesis using velocity_ok_other [OF conjunct1 [OF send.IH] send.hyps(2)] by simp
  next
    case (2 u)
    then show ?thesis using velocity_ok_gift [OF conjunct1 [OF send.IH] send.hyps(2)] by blast
  qed
  ultimately show ?case by simp
next
  case (post t l now kind key md es)
  have ids: "ids_ok l" using post.IH by (simp add: ledger_inv_def)
  have "velocity_ok now (snd (PostTransaction l now kind key md es))"
    by (rule velocity_ok_other [OF conjunct1 [OF post.IH] post.hyps(2)],
        cases rule: post_journal [OF ids, of now kind key md es]) (use post.hyps(3) in auto)
  then show ?case using post.IH ledger_step_inv [OF ledger_step.post] by blast
next
  case (reverse t l now i key reason)
  have ids: "ids_ok l" using reverse.IH by (simp add: ledger_inv_def)
  have "velocity_ok now (snd (ReverseTransaction l now i key reason))"
    by (rule velocity_ok_other [OF conjunct1 [OF reverse.IH] reverse.hyps(2)],
        cases rule: reverse_journal [OF ids, of now i key reason]) auto
  then show ?case using reverse.IH ledger_step_inv [OF ledger_step.reverse] by blast
qed

text \<open>The gift rate limit holds end to end. In any run of the program in which gifts go through the
  service as the composition root wires it, whatever else is posted or reversed in between, no
  account has sent more than five gifts (to named recipients) in any window of one minute, wherever
  the window starts: retries, windows that straddle a check and restarts of the count do not help.\<close>

theorem gift_rate_limited:
  assumes "gift_run t l" and "sender \<noteq> []"
  shows "gifts_sent l sender a (a + GiftVelocityWindow) \<le> 5"
  using gift_run_ok [OF assms(1)] assms(2) by (simp add: velocity_ok_def)

text \<open>A run with one gift in it.\<close>

definition demo_sent :: "mem_ledger" where
  "demo_sent = fst (snd (send_wired None demo_ledger NewMemRiskRepo 9 ''a'' ''b'' [] ''g_rose'' 2 ''k2''))"

lemma demo_sent_run: "gift_run 9 demo_sent"
proof -
  have "gift_run 7 demo_ledger"
    unfolding demo_ledger_def by (rule gift_run.post [OF gift_run.start [of 7]]) simp_all
  then show ?thesis unfolding demo_sent_def by (rule gift_run.send) simp
qed

lemma demo_sent_count: "gifts_sent demo_sent ''a'' 5 10 = 1"
  by code_simp

lemma gift_rate_limited_witness:
  "gifts_sent demo_sent ''a'' 5 (5 + GiftVelocityWindow) \<le> 5 \<and> gifts_sent demo_sent ''a'' 5 10 = 1"
  using gift_rate_limited [OF demo_sent_run, of "''a''" 5] demo_sent_count by simp

section \<open>Loops, clusters and disputes\<close>

text \<open>C40: gift loops are found exactly. When a gift from one account to another has just been posted,
  the hook raises a signal for both accounts if the journal holds a gift the other way whose time is
  at most five minutes earlier, and no signal otherwise.\<close>

theorem gift_loop_found_iff:
  assumes "a \<noteq> []" and "b \<noteq> []"
  shows "sent_hook l (a, b, at) =
    (if \<exists>tx \<in> set (journal l). tx_Kind tx = ''gift'' \<and> meta_string (tx_Metadata tx) ''sender_id'' = b \<and>
        meta_string (tx_Metadata tx) ''recipient_id'' = a \<and> at - 5 * minute \<le> tx_CreatedAt tx
     then [(a, 4, ''gift_loop''), (b, 4, ''gift_loop'')] else [])"
proof -
  let ?w = "at - GiftLoopWindow"
  have flow: "(\<exists>g \<in> set (List.map_filter (\<lambda>tx.
         let sender = meta_string (tx_Metadata tx) ''sender_id'';
             recipient = meta_string (tx_Metadata tx) ''recipient_id''
         in if sender = [] \<or> recipient = [] then None
            else Some \<lparr>gf_SenderID = sender, gf_RecipientID = recipient, gf_CreatedAt = tx_CreatedAt tx\<rparr>) xs).
      gf_SenderID g = b \<and> gf_RecipientID g = a \<and> \<not> Before (gf_CreatedAt g) ?w) \<longleftrightarrow>
    (\<exists>tx \<in> set xs. meta_string (tx_Metadata tx) ''sender_id'' = b \<and>
      meta_string (tx_Metadata tx) ''recipient_id'' = a \<and> ?w \<le> tx_CreatedAt tx)" for xs
    using assms by (induction xs) (auto simp: map_filter_simps Let_def time_defs not_less)
  have "(\<exists>g \<in> set (fraudListRecentGifts l ?w). gf_SenderID g = b \<and> gf_RecipientID g = a \<and>
      \<not> Before (gf_CreatedAt g) ?w) \<longleftrightarrow>
    (\<exists>tx \<in> set (journal l). tx_Kind tx = ''gift'' \<and> meta_string (tx_Metadata tx) ''sender_id'' = b \<and>
      meta_string (tx_Metadata tx) ''recipient_id'' = a \<and> ?w \<le> tx_CreatedAt tx)"
    unfolding fraudListRecentGifts_def flow ListByKind_def journal_def by (auto simp: time_defs not_less)
  then show ?thesis
    by (auto simp: sent_hook_def CheckGiftLoop_def Let_def list_ex_iff SignalGiftLoop_def GiftLoopWindow_def)
qed

lemma gift_loop_found_iff_witness:
  "sent_hook demo_sent (''b'', ''a'', 100) = [(''b'', 4, ''gift_loop''), (''a'', 4, ''gift_loop'')]"
proof -
  have "list_ex (\<lambda>tx. tx_Kind tx = ''gift'' \<and> meta_string (tx_Metadata tx) ''sender_id'' = ''a'' \<and>
      meta_string (tx_Metadata tx) ''recipient_id'' = ''b'' \<and> 100 - 5 * minute \<le> tx_CreatedAt tx) (journal demo_sent)"
    by code_simp
  then show ?thesis using gift_loop_found_iff [of "''b''" "''a''" demo_sent 100] by (auto simp: list_ex_iff)
qed

end
