(* ===== verification/PV.thy ===== *)
theory PV
  imports Gifts
begin

text \<open>
  Paid private video calls: the session and its in-memory store (\<open>pv/pv.go\<close>) and the
  service (\<open>pv/pvsvc/service.go\<close>): request with an upfront hold, accept, decline, end with
  settlement. The random session ID is an argument. The gates are functions of the service record,
  each returning an error or its answer.
\<close>

section \<open>Sessions\<close>

datatype pv_state = StateRequested | StateAccepted | StateDeclined | StateEnded

record pv_session =
  pv_ID :: string
  pv_CallerID :: string
  pv_CalleeID :: string
  pv_State :: pv_state
  pv_RatePerMinCoins :: int
  pv_CreatedAt :: time
  pv_AcceptedAt :: "time option"
  pv_EndedAt :: "time option"
  pv_ConsumedCoins :: int
  pv_HoldTransactionID :: string

definition HasParticipant :: "pv_session \<Rightarrow> string \<Rightarrow> bool" where
  "HasParticipant s accountID \<longleftrightarrow> pv_CallerID s = accountID \<or> pv_CalleeID s = accountID"

datatype pv_error =
    ErrSelfCall
  | ErrAccountNotActive
  | ErrAgeNotAssured
  | ErrCalleeBlocked
  | ErrCalleeNotReachable
  | ErrSessionNotFound
  | ErrNotParticipant
  | ErrInvalidState
  | PVLedgerError ledger_error
  | PVGateError string

type_synonym mem_pv = "(string \<times> pv_session) list"

definition PVCreate :: "mem_pv \<Rightarrow> pv_session \<Rightarrow> mem_pv" where
  "PVCreate r s = AList.update (pv_ID s) s r"

definition PVGet :: "mem_pv \<Rightarrow> string \<Rightarrow> pv_session option" where
  "PVGet r i = map_of r i"

definition PVUpdate :: "mem_pv \<Rightarrow> pv_session \<Rightarrow> (pv_error + unit) \<times> mem_pv" where
  "PVUpdate r s =
     (case map_of r (pv_ID s) of
        None \<Rightarrow> (Inl ErrSessionNotFound, r)
      | Some _ \<Rightarrow> (Inr (), AList.update (pv_ID s) s r))"

definition PVListByAccount :: "mem_pv \<Rightarrow> string \<Rightarrow> pv_session list" where
  "PVListByAccount r accountID = filter (\<lambda>s. HasParticipant s accountID) (map snd r)"

section \<open>The service\<close>

definition pv_platformTakeBPS :: int where "pv_platformTakeBPS = 3000"
definition pv_diamondsPerThousandCoins :: int where "pv_diamondsPerThousandCoins = 700"

record 'l pv_service =
  ps_ledger :: "'l ledger_repo"
  ps_accountActive :: "string \<Rightarrow> string + bool"
  ps_ageAssured :: "string \<Rightarrow> string + bool"
  ps_isBlocked :: "(string \<Rightarrow> string \<Rightarrow> string + bool) option"
  ps_calleePermits :: "(string \<Rightarrow> string \<Rightarrow> string + bool) option"
  ps_publish :: bool
  ps_onRequested :: bool

record 'l pv_world =
  pw_repo :: mem_pv
  pw_ledger :: 'l

text \<open>What a call tells others: an event published to a user's topic, or the request hook.\<close>

datatype pv_note =
    Published string string string  \<comment> \<open>topic, event type, session\<close>
  | RequestedHook string string

definition pv_publish :: "'l pv_service \<Rightarrow> string \<Rightarrow> string \<Rightarrow> string \<Rightarrow> pv_note list" where
  "pv_publish s accountID event sessionID =
     (if ps_publish s then [Published (''user:'' @ accountID) event sessionID] else [])"

definition charge_entries :: "string \<Rightarrow> string \<Rightarrow> int \<Rightarrow> entry list" where
  "charge_entries payerID payeeID coins =
     (let platformShare = quot64 (mul64 coins pv_platformTakeBPS) 10000;
          payeeCoinsEquivalent = sub64 coins platformShare;
          payeeDiamonds = quot64 (mul64 payeeCoinsEquivalent pv_diamondsPerThousandCoins) 1000
      in [\<lparr>e_account = UserCoinsAccount payerID, e_amount = neg64 coins, e_currency = Coin\<rparr>,
          \<lparr>e_account = PlatformRevenueAccount, e_amount = platformShare, e_currency = Coin\<rparr>,
          \<lparr>e_account = PlatformLiabilityAccount, e_amount = payeeCoinsEquivalent, e_currency = Coin\<rparr>,
          \<lparr>e_account = UserDiamondsAccount payeeID, e_amount = payeeDiamonds, e_currency = Diamond\<rparr>,
          \<lparr>e_account = PlatformDiamondLiabilityAccount, e_amount = neg64 payeeDiamonds, e_currency = Diamond\<rparr>])"

definition chargeCoins :: "'l pv_service \<Rightarrow> 'l \<Rightarrow> time \<Rightarrow> string \<Rightarrow> string \<Rightarrow> int \<Rightarrow> string \<Rightarrow> string \<Rightarrow> metadata \<Rightarrow>
    (ledger_error + transaction) \<times> 'l" where
  "chargeCoins s l now payerID payeeID coins kind idempotencyKey md =
     (case repo_PostTransaction (ps_ledger s) l now kind idempotencyKey md (charge_entries payerID payeeID coins) of
        (Inl err, l') \<Rightarrow> (Inl err, l')
      | (Inr (tx, isNew), l') \<Rightarrow> (Inr tx, l'))"

text \<open>The gate chain, in order; an absent optional gate lets through.\<close>

definition pv_gates :: "'l pv_service \<Rightarrow> string \<Rightarrow> string \<Rightarrow> pv_error option" where
  "pv_gates s callerID calleeID =
     (case ps_accountActive s callerID of
        Inl err \<Rightarrow> Some (PVGateError err)
      | Inr active \<Rightarrow>
          if \<not> active then Some ErrAccountNotActive
          else
            (case ps_ageAssured s callerID of
               Inl err \<Rightarrow> Some (PVGateError err)
             | Inr assured \<Rightarrow>
                 if \<not> assured then Some ErrAgeNotAssured
                 else
                   (case (case ps_isBlocked s of None \<Rightarrow> Inr False | Some f \<Rightarrow> f callerID calleeID) of
                      Inl err \<Rightarrow> Some (PVGateError err)
                    | Inr blocked \<Rightarrow>
                        if blocked then Some ErrCalleeBlocked
                        else
                          (case (case ps_calleePermits s of None \<Rightarrow> Inr True | Some f \<Rightarrow> f callerID calleeID) of
                             Inl err \<Rightarrow> Some (PVGateError err)
                           | Inr permits \<Rightarrow> if permits then None else Some ErrCalleeNotReachable))))"

text \<open>The early return for a key whose transaction carries a session that still exists.\<close>

definition replayed_session :: "'l pv_service \<Rightarrow> 'l pv_world \<Rightarrow> string \<Rightarrow> pv_session option" where
  "replayed_session s w idempotencyKey =
     (case repo_GetTransaction (ps_ledger s) (pw_ledger w) idempotencyKey of
        Inr (Some existing) \<Rightarrow>
          (case map_of (tx_Metadata existing) ''session_id'' of
             Some (AnyString sessionID) \<Rightarrow> PVGet (pw_repo w) sessionID
           | _ \<Rightarrow> None)
      | _ \<Rightarrow> None)"

definition hold_metadata :: "string \<Rightarrow> string \<Rightarrow> string \<Rightarrow> metadata" where
  "hold_metadata sessionID callerID calleeID =
     [(''session_id'', AnyString sessionID), (''caller_id'', AnyString callerID),
      (''callee_id'', AnyString calleeID), (''kind'', AnyString ''first_minute_hold'')]"

definition RequestSession :: "'l pv_service \<Rightarrow> 'l pv_world \<Rightarrow> time \<Rightarrow> string \<Rightarrow> string \<Rightarrow> string \<Rightarrow> int \<Rightarrow> string \<Rightarrow>
    (pv_error + pv_session \<times> bool) \<times> 'l pv_world \<times> pv_note list" where
  "RequestSession s w now newID callerID calleeID ratePerMinCoins idempotencyKey =
     (if callerID = calleeID then (Inl ErrSelfCall, w, [])
      else
        (let rate = (if ratePerMinCoins \<le> 0 then 10 else ratePerMinCoins)
         in case replayed_session s w idempotencyKey of
              Some sess \<Rightarrow> (Inr (sess, False), w, [])
            | None \<Rightarrow>
                (case pv_gates s callerID calleeID of
                   Some err \<Rightarrow> (Inl err, w, [])
                 | None \<Rightarrow>
                     (case chargeCoins s (pw_ledger w) now callerID calleeID rate ''pv_call'' idempotencyKey
                             (hold_metadata newID callerID calleeID) of
                        (Inl err, l) \<Rightarrow> (Inl (PVLedgerError err), w\<lparr>pw_ledger := l\<rparr>, [])
                      | (Inr holdTx, l) \<Rightarrow>
                          (let sess = \<lparr>pv_ID = newID, pv_CallerID = callerID, pv_CalleeID = calleeID,
                                 pv_State = StateRequested, pv_RatePerMinCoins = rate, pv_CreatedAt = now,
                                 pv_AcceptedAt = None, pv_EndedAt = None, pv_ConsumedCoins = rate,
                                 pv_HoldTransactionID = tx_ID holdTx\<rparr>
                           in (Inr (sess, True), \<lparr>pw_repo = PVCreate (pw_repo w) sess, pw_ledger = l\<rparr>,
                               (if ps_onRequested s then [RequestedHook callerID calleeID] else []) @
                               pv_publish s calleeID ''PV_REQUEST'' newID))))))"

definition PVGetSession :: "'l pv_world \<Rightarrow> string \<Rightarrow> string \<Rightarrow> pv_error + pv_session" where
  "PVGetSession w accountID sessionID =
     (case PVGet (pw_repo w) sessionID of
        None \<Rightarrow> Inl ErrSessionNotFound
      | Some sess \<Rightarrow> if \<not> HasParticipant sess accountID then Inl ErrNotParticipant else Inr sess)"

definition ListSessions :: "'l pv_world \<Rightarrow> string \<Rightarrow> pv_session list" where
  "ListSessions w accountID = PVListByAccount (pw_repo w) accountID"

text \<open>The save at the end of each transition, and what it publishes.\<close>

definition pv_save :: "'l pv_service \<Rightarrow> 'l pv_world \<Rightarrow> pv_session \<Rightarrow> pv_note list \<Rightarrow>
    (pv_error + pv_session) \<times> 'l pv_world \<times> pv_note list" where
  "pv_save s w sess ns =
     (case PVUpdate (pw_repo w) sess of
        (Inl err, r) \<Rightarrow> (Inl err, w\<lparr>pw_repo := r\<rparr>, [])
      | (Inr _, r) \<Rightarrow> (Inr sess, w\<lparr>pw_repo := r\<rparr>, ns))"

definition AcceptSession :: "'l pv_service \<Rightarrow> 'l pv_world \<Rightarrow> time \<Rightarrow> string \<Rightarrow> string \<Rightarrow>
    (pv_error + pv_session) \<times> 'l pv_world \<times> pv_note list" where
  "AcceptSession s w now calleeID sessionID =
     (case PVGet (pw_repo w) sessionID of
        None \<Rightarrow> (Inl ErrSessionNotFound, w, [])
      | Some sess \<Rightarrow>
          if pv_CalleeID sess \<noteq> calleeID then (Inl ErrNotParticipant, w, [])
          else if pv_State sess \<noteq> StateRequested then (Inl ErrInvalidState, w, [])
          else pv_save s w (sess\<lparr>pv_State := StateAccepted, pv_AcceptedAt := Some now\<rparr>)
                 (pv_publish s (pv_CallerID sess) ''PV_ACCEPTED'' (pv_ID sess)))"

definition reverseHold :: "'l pv_service \<Rightarrow> 'l \<Rightarrow> time \<Rightarrow> pv_session \<Rightarrow> string \<Rightarrow> 'l" where
  "reverseHold s l now sess reason =
     (if pv_HoldTransactionID sess = [] then l
      else snd (repo_ReverseTransaction (ps_ledger s) l now (pv_HoldTransactionID sess)
             (''pv-hold-reverse-'' @ pv_ID sess) reason))"

definition refundHold :: "'l pv_service \<Rightarrow> 'l \<Rightarrow> time \<Rightarrow> pv_session \<Rightarrow> pv_session \<times> 'l" where
  "refundHold s l now sess =
     (sess\<lparr>pv_ConsumedCoins := 0\<rparr>, reverseHold s l now sess ''pv_call not connected'')"

definition billed_minutes :: "duration \<Rightarrow> int" where
  "billed_minutes elapsed =
     (let minutes = quot64 elapsed minute
      in if 0 < rem64 elapsed minute \<or> minutes = 0 then add64 minutes 1 else minutes)"

definition settleElapsed :: "'l pv_service \<Rightarrow> 'l \<Rightarrow> pv_session \<Rightarrow> time \<Rightarrow> time \<Rightarrow> pv_session \<times> 'l" where
  "settleElapsed s l sess acceptedAt endedAt =
     (let minutes = billed_minutes (endedAt - acceptedAt);
          trueCost = mul64 minutes (pv_RatePerMinCoins sess);
          l = reverseHold s l endedAt sess ''pv_call settlement'';
          sess = sess\<lparr>pv_ConsumedCoins := 0\<rparr>;
          md = [(''session_id'', AnyString (pv_ID sess)), (''caller_id'', AnyString (pv_CallerID sess)),
                (''callee_id'', AnyString (pv_CalleeID sess)), (''kind'', AnyString ''final_settlement''),
                (''minutes'', AnyInt64 minutes)]
      in case chargeCoins s l endedAt (pv_CallerID sess) (pv_CalleeID sess) trueCost ''pv_call''
                (''pv-settle-'' @ pv_ID sess) md of
           (Inl err, l) \<Rightarrow> (sess, l)
         | (Inr tx, l) \<Rightarrow> (sess\<lparr>pv_ConsumedCoins := trueCost\<rparr>, l))"

definition DeclineSession :: "'l pv_service \<Rightarrow> 'l pv_world \<Rightarrow> time \<Rightarrow> string \<Rightarrow> string \<Rightarrow>
    (pv_error + pv_session) \<times> 'l pv_world \<times> pv_note list" where
  "DeclineSession s w now calleeID sessionID =
     (case PVGet (pw_repo w) sessionID of
        None \<Rightarrow> (Inl ErrSessionNotFound, w, [])
      | Some sess \<Rightarrow>
          if pv_CalleeID sess \<noteq> calleeID then (Inl ErrNotParticipant, w, [])
          else if pv_State sess \<noteq> StateRequested then (Inl ErrInvalidState, w, [])
          else
            (let (sess, l) = refundHold s (pw_ledger w) now
                   (sess\<lparr>pv_State := StateDeclined, pv_EndedAt := Some now\<rparr>)
             in pv_save s (w\<lparr>pw_ledger := l\<rparr>) sess
                  (pv_publish s (pv_CallerID sess) ''PV_DECLINED'' (pv_ID sess))))"

definition EndSession :: "'l pv_service \<Rightarrow> 'l pv_world \<Rightarrow> time \<Rightarrow> string \<Rightarrow> string \<Rightarrow>
    (pv_error + pv_session) \<times> 'l pv_world \<times> pv_note list" where
  "EndSession s w now accountID sessionID =
     (case PVGet (pw_repo w) sessionID of
        None \<Rightarrow> (Inl ErrSessionNotFound, w, [])
      | Some sess \<Rightarrow>
          if \<not> HasParticipant sess accountID then (Inl ErrNotParticipant, w, [])
          else if pv_State sess \<noteq> StateRequested \<and> pv_State sess \<noteq> StateAccepted then (Inl ErrInvalidState, w, [])
          else
            (let wasAccepted = (pv_State sess = StateAccepted);
                 sess = sess\<lparr>pv_State := StateEnded, pv_EndedAt := Some now\<rparr>;
                 (sess, l) =
                   (case pv_AcceptedAt sess of
                      Some acceptedAt \<Rightarrow>
                        if wasAccepted then settleElapsed s (pw_ledger w) sess acceptedAt now
                        else refundHold s (pw_ledger w) now sess
                    | None \<Rightarrow> refundHold s (pw_ledger w) now sess);
                 other = (if accountID = pv_CalleeID sess then pv_CallerID sess else pv_CalleeID sess)
             in pv_save s (w\<lparr>pw_ledger := l\<rparr>) sess (pv_publish s other ''PV_ENDED'' (pv_ID sess))))"

section \<open>The bill\<close>

text \<open>The call's charge is a gift's: the same split, written a second time.\<close>

lemma charge_entries_gift: "charge_entries payer payee n = gift_entries payer payee n"
  by (simp add: charge_entries_def gift_entries_def Let_def pv_platformTakeBPS_def pv_diamondsPerThousandCoins_def
      platform_share_def creator_coins_def creator_diamonds_def economy_defs)

text \<open>Elapsed time rounded up to whole minutes, at least one.\<close>

lemma billed_minutes_ceiling:
  assumes "0 \<le> d" and "d < 2 ^ 63"
  shows "billed_minutes d = max 1 (- ((- d) div minute))"
    and "0 < billed_minutes d" and "d \<le> billed_minutes d * minute"
proof -
  have i: "in_i64 d" using assms by (simp add: in_i64_def)
  then have q: "quot64 d minute = d div minute" using assms by (intro quot64_nonneg) simp_all
  have r: "rem64 d minute = d mod minute" using assms by (cases "d = 0") (simp_all add: rem64_def)
  have "0 \<le> d div minute" "d div minute \<le> d" using assms by (simp_all add: pos_imp_zdiv_nonneg_iff)
  moreover have "d div minute < 2 ^ 62" using assms by (simp add: div_less_iff_less_mult)
  ultimately have a: "add64 (d div minute) 1 = d div minute + 1" by (intro add64_id) (simp add: in_i64_def)
  have c: "- ((- d) div minute) = (if d mod minute = 0 then d div minute else d div minute + 1)"
    by (simp add: zdiv_zminus1_eq_if)
  have m: "0 \<le> d mod minute" by simp
  show e: "billed_minutes d = max 1 (- ((- d) div minute))"
    using m \<open>0 \<le> d div minute\<close> unfolding billed_minutes_def Let_def q r a c by (auto simp: max_def)
  show "0 < billed_minutes d" by (simp add: e)
  have "d = minute * (d div minute) + d mod minute" by simp
  moreover have "d mod minute < minute" by simp
  ultimately have "d \<le> - ((- d) div minute) * minute" unfolding c by (auto simp: algebra_simps)
  then show "d \<le> billed_minutes d * minute" unfolding e by (simp add: max_def)
qed

section \<open>Money over the ledger's contract\<close>

lemma reversed_entries_keys: "map entry_key (reversed_entries es) = map entry_key es"
  by (induction es) (auto simp: reversed_entries_def entry_key_def)

definition hold_key :: "string \<Rightarrow> string" where "hold_key i = ''pv-hold-reverse-'' @ i"
definition settle_key :: "string \<Rightarrow> string" where "settle_key i = ''pv-settle-'' @ i"

lemma keys_differ: "hold_key i \<noteq> settle_key j"
  by (simp add: hold_key_def settle_key_def)

context ledger_reversal_contract
begin

text \<open>Taking a charge back: possible while the payee still has the diamonds.\<close>

lemma reverse_charge:
  assumes ok: "ok l" and new: "stored l key = None" and u: "by_id l i = Some u" "tx_Kind u \<noteq> ''reversal''"
    and nr: "\<not> reversed l i" and es: "tx_Entries u = gift_entries payer payee n"
    and n: "0 < n" "n \<le> 20000000"
    and dia: "creator_diamonds n \<le> bl l (UserDiamondsAccount payee, Diamond)"
    and room: "bl l (UserCoinsAccount payer, Coin) + n < 2 ^ 63"
  shows "\<exists>t l'. repo_ReverseTransaction R l now i key reason = (Inr (t, True), l') \<and> ok l' \<and>
    stored l' = (stored l)(key \<mapsto> t) \<and>
    bl l' (UserCoinsAccount payer, Coin) = bl l (UserCoinsAccount payer, Coin) + n \<and>
    bl l' (UserDiamondsAccount payee, Diamond) = bl l (UserDiamondsAccount payee, Diamond) - creator_diamonds n \<and>
    (\<forall>a c. \<not> isPlatformAccount a \<longrightarrow> (a, c) \<noteq> (UserCoinsAccount payer, Coin) \<longrightarrow>
       (a, c) \<noteq> (UserDiamondsAccount payee, Diamond) \<longrightarrow> bl l' (a, c) = bl l (a, c))"
proof -
  let ?b = "bl l (UserCoinsAccount payer, Coin)" and ?d = "bl l (UserDiamondsAccount payee, Diamond)"
  have b: "0 \<le> ?b" "in_i64 ?b" "0 \<le> ?d" "in_i64 ?d" using ok by (simp_all add: nonneg_law range_law)
  have cd: "0 \<le> creator_diamonds n" using n by (intro creator_diamonds_nonneg) simp_all
  have neg: "neg64 n = - n" "neg64 (- n) = n" using n by (simp_all add: neg64_id in_i64_def)
  have ncd: "neg64 (creator_diamonds n) = - creator_diamonds n"
    using cd dia b by (intro neg64_id) (simp add: in_i64_def)
  have up: "add64 ?b n = ?b + n" "sub64 ?b (- n) = ?b + n"
    using b n room by (simp_all add: add64_id sub64_id in_i64_def)
  have down: "add64 ?d (- creator_diamonds n) = ?d - creator_diamonds n"
      "sub64 ?d (creator_diamonds n) = ?d - creator_diamonds n"
    using b cd dia by (simp_all add: add64_id sub64_id in_i64_def)
  have aff: "affordable (bl l) (reversed_entries (gift_entries payer payee n))"
    using b up down dia n by (simp add: affordable_def reversed_entries_def gift_entries_def entry_key_def neg ncd)
  have "\<exists>t l'. repo_ReverseTransaction R l now i key reason = (Inr (t, True), l')"
    by (rule reverse_succeeds [OF ok new u nr]) (use aff in \<open>simp_all add: es gift_entries_keys\<close>)
  then obtain t l' where rev: "repo_ReverseTransaction R l now i key reason = (Inr (t, True), l')" by blast
  have "ok l'" and st: "stored l' = (stored l)(key \<mapsto> t)" and bl': "\<And>k. bl l' k = sub64 (bl l k) (entries_at k (gift_entries payer payee n))"
    using reverse_new [OF ok new rev] u es by auto
  have id: "sub64 (bl l k) 0 = bl l k" for k using range_law [OF ok, of k] by (simp add: sub64_id)
  have cd_ne: "Coin \<noteq> Diamond" by (simp add: account_defs)
  have "entries_at (UserCoinsAccount payer, Coin) (gift_entries payer payee n) = - n"
    by (simp add: entries_at_gift neg)
  then have "bl l' (UserCoinsAccount payer, Coin) = ?b + n" by (simp add: bl' up)
  moreover have "entries_at (UserDiamondsAccount payee, Diamond) (gift_entries payer payee n) = creator_diamonds n"
    using cd_ne by (simp add: entries_at_gift)
  then have "bl l' (UserDiamondsAccount payee, Diamond) = ?d - creator_diamonds n" by (simp add: bl' down)
  moreover have "bl l' (a, c) = bl l (a, c)" if "\<not> isPlatformAccount a" "(a, c) \<noteq> (UserCoinsAccount payer, Coin)"
      "(a, c) \<noteq> (UserDiamondsAccount payee, Diamond)" for a c
  proof -
    have "a \<noteq> PlatformRevenueAccount" "a \<noteq> PlatformLiabilityAccount" "a \<noteq> PlatformDiamondLiabilityAccount"
      using that(1) by auto
    then have "entries_at (a, c) (gift_entries payer payee n) = 0" using that(2,3) by (auto simp: entries_at_gift)
    then show ?thesis by (simp add: bl' id)
  qed
  ultimately show ?thesis using rev \<open>ok l'\<close> st by blast
qed

lemma charge_outcome:
  assumes ok: "ok l" and R: "ps_ledger s = R" and new: "stored l key = None" and n: "0 < n" "n \<le> 20000000"
    and room: "bl l (UserDiamondsAccount payee, Diamond) + creator_diamonds n < 2 ^ 63"
  shows "if n \<le> bl l (UserCoinsAccount payer, Coin)
    then \<exists>t l'. chargeCoins s l now payer payee n kind key md = (Inr t, l') \<and> ok l' \<and>
      stored l' = (stored l)(key \<mapsto> t) \<and> gift_moved (bl l) (bl l') payer payee n
    else \<exists>err. chargeCoins s l now payer payee n kind key md = (Inl err, l)"
proof -
  note out = post_gift_outcome [OF ok new n room, of payer now kind md]
  show ?thesis
  proof (cases "n \<le> bl l (UserCoinsAccount payer, Coin)")
    case True
    then show ?thesis using out R by (fastforce simp: chargeCoins_def charge_entries_gift)
  next
    case False
    then show ?thesis using out R by (simp add: chargeCoins_def charge_entries_gift)
  qed
qed

text \<open>Settling: the hold comes back, then the whole connected time is charged if it can be.\<close>

definition intact_hold :: "'l \<Rightarrow> pv_session \<Rightarrow> bool" where
  "intact_hold l sess \<longleftrightarrow> pv_HoldTransactionID sess \<noteq> [] \<and>
     (\<exists>u. by_id l (pv_HoldTransactionID sess) = Some u \<and> tx_Kind u \<noteq> ''reversal'' \<and>
        tx_Entries u = gift_entries (pv_CallerID sess) (pv_CalleeID sess) (pv_RatePerMinCoins sess)) \<and>
     \<not> reversed l (pv_HoldTransactionID sess) \<and>
     stored l (hold_key (pv_ID sess)) = None \<and> stored l (settle_key (pv_ID sess)) = None \<and>
     0 < pv_RatePerMinCoins sess \<and> pv_RatePerMinCoins sess \<le> 20000000 \<and>
     creator_diamonds (pv_RatePerMinCoins sess) \<le> bl l (UserDiamondsAccount (pv_CalleeID sess), Diamond) \<and>
     bl l (UserCoinsAccount (pv_CallerID sess), Coin) + pv_RatePerMinCoins sess < 2 ^ 63"

lemma reverse_intact_hold:
  assumes ok: "ok l" and R: "ps_ledger s = R" and h: "intact_hold l sess"
  shows "ok (reverseHold s l now sess reason) \<and>
    stored (reverseHold s l now sess reason) (settle_key (pv_ID sess)) = None \<and>
    bl (reverseHold s l now sess reason) (UserCoinsAccount (pv_CallerID sess), Coin) =
      bl l (UserCoinsAccount (pv_CallerID sess), Coin) + pv_RatePerMinCoins sess \<and>
    bl (reverseHold s l now sess reason) (UserDiamondsAccount (pv_CalleeID sess), Diamond) =
      bl l (UserDiamondsAccount (pv_CalleeID sess), Diamond) - creator_diamonds (pv_RatePerMinCoins sess)"
proof -
  obtain u where u: "by_id l (pv_HoldTransactionID sess) = Some u" "tx_Kind u \<noteq> ''reversal''"
      "tx_Entries u = gift_entries (pv_CallerID sess) (pv_CalleeID sess) (pv_RatePerMinCoins sess)"
    using h by (auto simp: intact_hold_def)
  obtain t l' where "repo_ReverseTransaction R l now (pv_HoldTransactionID sess) (hold_key (pv_ID sess)) reason =
      (Inr (t, True), l')" "ok l'" "stored l' = (stored l)(hold_key (pv_ID sess) \<mapsto> t)"
      "bl l' (UserCoinsAccount (pv_CallerID sess), Coin) =
        bl l (UserCoinsAccount (pv_CallerID sess), Coin) + pv_RatePerMinCoins sess"
      "bl l' (UserDiamondsAccount (pv_CalleeID sess), Diamond) =
        bl l (UserDiamondsAccount (pv_CalleeID sess), Diamond) - creator_diamonds (pv_RatePerMinCoins sess)"
    using reverse_charge [OF ok _ u(1,2) _ u(3), of "hold_key (pv_ID sess)" now reason] h
    by (auto simp: intact_hold_def)
  moreover have "reverseHold s l now sess reason =
      snd (repo_ReverseTransaction R l now (pv_HoldTransactionID sess) (hold_key (pv_ID sess)) reason)"
    using h R by (simp add: reverseHold_def intact_hold_def hold_key_def)
  moreover have "stored l (settle_key (pv_ID sess)) = None" using h by (simp add: intact_hold_def)
  ultimately show ?thesis using keys_differ [of "pv_ID sess" "pv_ID sess"] by simp
qed

lemma settle_outcome:
  assumes ok: "ok l" and R: "ps_ledger s = R" and h: "intact_hold l sess"
    and d: "0 \<le> endedAt - acceptedAt" "endedAt - acceptedAt < 2 ^ 63"
    and cost: "cost = billed_minutes (endedAt - acceptedAt) * pv_RatePerMinCoins sess" "cost \<le> 20000000"
    and room: "bl l (UserDiamondsAccount (pv_CalleeID sess), Diamond) + creator_diamonds cost < 2 ^ 63"
  shows "\<exists>sess' l'. settleElapsed s l sess acceptedAt endedAt = (sess', l') \<and>
    (if cost \<le> bl l (UserCoinsAccount (pv_CallerID sess), Coin) + pv_RatePerMinCoins sess
     then sess' = sess\<lparr>pv_ConsumedCoins := cost\<rparr> \<and>
       bl l' (UserCoinsAccount (pv_CallerID sess), Coin) =
         bl l (UserCoinsAccount (pv_CallerID sess), Coin) + pv_RatePerMinCoins sess - cost \<and>
       bl l' (UserDiamondsAccount (pv_CalleeID sess), Diamond) =
         bl l (UserDiamondsAccount (pv_CalleeID sess), Diamond)
           - creator_diamonds (pv_RatePerMinCoins sess) + creator_diamonds cost
     else sess' = sess\<lparr>pv_ConsumedCoins := 0\<rparr> \<and>
       bl l' (UserCoinsAccount (pv_CallerID sess), Coin) =
         bl l (UserCoinsAccount (pv_CallerID sess), Coin) + pv_RatePerMinCoins sess)"
proof -
  let ?m = "billed_minutes (endedAt - acceptedAt)" and ?r = "pv_RatePerMinCoins sess"
  let ?l = "reverseHold s l endedAt sess ''pv_call settlement''"
  let ?md = "[(''session_id'', AnyString (pv_ID sess)), (''caller_id'', AnyString (pv_CallerID sess)),
      (''callee_id'', AnyString (pv_CalleeID sess)), (''kind'', AnyString ''final_settlement''),
      (''minutes'', AnyInt64 ?m)]"
  note rev = reverse_intact_hold [OF ok R h, of endedAt "''pv_call settlement''"]
  have r: "0 < ?r" "?r \<le> 20000000" using h by (simp_all add: intact_hold_def)
  have m: "0 < ?m" using billed_minutes_ceiling(2) [OF d] .
  then have c: "0 < cost" using r by (simp add: cost)
  have mul: "mul64 ?m ?r = cost"
    using c cost by (simp add: mul64_id in_i64_def)
  have "0 \<le> creator_diamonds ?r" using r by (intro creator_diamonds_nonneg) simp_all
  then have room': "bl ?l (UserDiamondsAccount (pv_CalleeID sess), Diamond) + creator_diamonds cost < 2 ^ 63"
    using rev room by simp
  have stl: "settleElapsed s l sess acceptedAt endedAt =
      (case chargeCoins s ?l endedAt (pv_CallerID sess) (pv_CalleeID sess) cost ''pv_call''
          (settle_key (pv_ID sess)) ?md of
         (Inl err, l) \<Rightarrow> (sess\<lparr>pv_ConsumedCoins := 0\<rparr>, l)
       | (Inr tx, l) \<Rightarrow> (sess\<lparr>pv_ConsumedCoins := cost\<rparr>, l))"
    unfolding settleElapsed_def Let_def settle_key_def mul by (simp split: sum.split prod.split)
  show ?thesis
    using charge_outcome [of ?l s "settle_key (pv_ID sess)" cost "pv_CalleeID sess" "pv_CallerID sess" endedAt
        "''pv_call''" ?md] rev R c cost(2) room'
    by (auto simp: stl gift_moved_def split: if_splits)
qed

end

section \<open>The life of a call\<close>

inductive pv_step :: "'l pv_service \<Rightarrow> 'l pv_world \<Rightarrow> 'l pv_world \<Rightarrow> bool" for s :: "'l pv_service" where
  request: "PVGet (pw_repo w) newID = None \<Longrightarrow>
    pv_step s w (fst (snd (RequestSession s w now newID caller callee rate key)))"
| accept: "pv_step s w (fst (snd (AcceptSession s w now a i)))"
| decline: "pv_step s w (fst (snd (DeclineSession s w now a i)))"
| end': "pv_step s w (fst (snd (EndSession s w now a i)))"
| ledger: "pv_step s w (w\<lparr>pw_ledger := l\<rparr>)"

inductive_cases pv_stepE: "pv_step s w w'"

fun pv_rank :: "pv_state \<Rightarrow> nat" where
  "pv_rank StateRequested = 0"
| "pv_rank StateAccepted = 1"
| "pv_rank StateDeclined = 2"
| "pv_rank StateEnded = 2"

text \<open>How a stored session may change: its parties, price and hold are fixed, every change moves
  its state forward, the time of acceptance is set once, a call closed without having been accepted
  is not billed, and a closed call is left alone.\<close>

definition pv_evolves :: "pv_session \<Rightarrow> pv_session \<Rightarrow> bool" where
  "pv_evolves a b \<longleftrightarrow> pv_CallerID b = pv_CallerID a \<and> pv_CalleeID b = pv_CalleeID a \<and>
     pv_RatePerMinCoins b = pv_RatePerMinCoins a \<and> pv_HoldTransactionID b = pv_HoldTransactionID a \<and>
     pv_ID b = pv_ID a \<and> pv_rank (pv_State a) \<le> pv_rank (pv_State b) \<and>
     (pv_State b = pv_State a \<longrightarrow> b = a) \<and> (pv_rank (pv_State a) = 2 \<longrightarrow> b = a) \<and>
     (pv_State a = StateAccepted \<longrightarrow> pv_State b \<noteq> StateDeclined \<and> pv_AcceptedAt b = pv_AcceptedAt a) \<and>
     (pv_State a = StateRequested \<and> pv_State b = StateAccepted \<longrightarrow> pv_AcceptedAt b \<noteq> None) \<and>
     (pv_State a = StateRequested \<and> pv_rank (pv_State b) = 2 \<and> pv_AcceptedAt b = None \<longrightarrow> pv_ConsumedCoins b = 0)"

definition pv_ids_ok :: "mem_pv \<Rightarrow> bool" where
  "pv_ids_ok r \<longleftrightarrow> (\<forall>i a. PVGet r i = Some a \<longrightarrow> pv_ID a = i)"

lemma pv_evolves_refl [simp]: "pv_evolves a a"
  by (auto simp: pv_evolves_def)

lemma pv_evolves_trans: "pv_evolves a b \<Longrightarrow> pv_evolves b c \<Longrightarrow> pv_evolves a c"
  unfolding pv_evolves_def
  by (cases "pv_State a"; cases "pv_State b"; cases "pv_State c") auto

lemma pv_save_repo:
  assumes "PVGet (pw_repo w) i = Some a" and "pv_ID b = i"
  shows "pw_repo (fst (snd (pv_save s w b ns))) = AList.update i b (pw_repo w)"
  using assms by (simp add: pv_save_def PVUpdate_def PVGet_def)

lemma settleElapsed_fixed:
  "settleElapsed s l a t u = (b, l') \<Longrightarrow> \<exists>n. b = a\<lparr>pv_ConsumedCoins := n\<rparr>"
  by (auto simp: settleElapsed_def Let_def split: sum.splits prod.splits intro: exI)

lemma request_repo:
  assumes "RequestSession s w now i caller callee rate key = (res, w', ns)"
  shows "case res of Inr (b, True) \<Rightarrow> pv_ID b = i \<and> pw_repo w' = AList.update i b (pw_repo w)
    | _ \<Rightarrow> pw_repo w' = pw_repo w"
  using assms unfolding RequestSession_def Let_def PVCreate_def
  by (auto split: option.splits sum.splits prod.splits if_splits)

text \<open>Every step either leaves the store of sessions alone, adds a session, or replaces one by one
  it may become.\<close>

lemma pv_step_repo:
  assumes "pv_step s w w'" and "pv_ids_ok (pw_repo w)"
  obtains (same) "pw_repo w' = pw_repo w"
  | (new) i b where "PVGet (pw_repo w) i = None" "pv_ID b = i" "pw_repo w' = AList.update i b (pw_repo w)"
  | (change) i a b where "PVGet (pw_repo w) i = Some a" "pv_evolves a b" "pv_ID b = i"
      "pw_repo w' = AList.update i b (pw_repo w)"
  using assms(1)
proof cases
  case (request newID now caller callee rate key)
  obtain res w2 ns where r: "RequestSession s w now newID caller callee rate key = (res, w2, ns)"
    by (metis prod.exhaust)
  then show ?thesis
    using request same new [of newID] request_repo [OF r] by (auto split: sum.splits prod.splits bool.splits)
next
  case (accept now a i)
  show ?thesis
  proof (cases "PVGet (pw_repo w) i")
    case (Some c)
    have id: "pv_ID c = i" using assms(2) Some by (simp add: pv_ids_ok_def)
    then show ?thesis
      using accept same change [OF Some, of "c\<lparr>pv_State := StateAccepted, pv_AcceptedAt := Some now\<rparr>"]
        pv_save_repo [OF Some]
      by (auto simp: AcceptSession_def Some pv_evolves_def split: if_splits)
  qed (use accept same in \<open>simp add: AcceptSession_def\<close>)
next
  case (decline now a i)
  show ?thesis
  proof (cases "PVGet (pw_repo w) i")
    case (Some c)
    have id: "pv_ID c = i" using assms(2) Some by (simp add: pv_ids_ok_def)
    let ?b = "c\<lparr>pv_State := StateDeclined, pv_EndedAt := Some now, pv_ConsumedCoins := 0\<rparr>"
    have "PVGet (pw_repo (w\<lparr>pw_ledger := l\<rparr>)) i = Some c" for l using Some by simp
    note save = pv_save_repo [OF this]
    show ?thesis
      using decline same change [OF Some, of ?b] save [of ?b] id
      by (auto simp: DeclineSession_def Some pv_evolves_def refundHold_def Let_def split: if_splits)
  qed (use decline same in \<open>simp add: DeclineSession_def\<close>)
next
  case (end' now a i)
  show ?thesis
  proof (cases "PVGet (pw_repo w) i")
    case (Some c)
    have id: "pv_ID c = i" using assms(2) Some by (simp add: pv_ids_ok_def)
    have some: "PVGet (pw_repo (w\<lparr>pw_ledger := l\<rparr>)) i = Some c" for l using Some by simp
    let ?c = "c\<lparr>pv_State := StateEnded, pv_EndedAt := Some now\<rparr>"
    show ?thesis
    proof (cases "HasParticipant c a \<and> pv_State c \<in> {StateRequested, StateAccepted}")
      case True
      then obtain n l ns where e: "w' = fst (snd (pv_save s (w\<lparr>pw_ledger := l\<rparr>) (?c\<lparr>pv_ConsumedCoins := n\<rparr>) ns))"
        and n: "pv_AcceptedAt c = None \<Longrightarrow> n = 0"
      proof (cases "settleElapsed s (pw_ledger w) ?c (the (pv_AcceptedAt c)) now")
        case (Pair b l)
        then obtain n where b: "b = ?c\<lparr>pv_ConsumedCoins := n\<rparr>" using settleElapsed_fixed by fastforce
        then show ?thesis
          using True end' Pair that
          by (cases "pv_AcceptedAt c"; cases "pv_State c = StateAccepted")
            (auto simp: EndSession_def Some Let_def refundHold_def HasParticipant_def)
      qed
      have "pv_evolves c (?c\<lparr>pv_ConsumedCoins := n\<rparr>)" using True n by (auto simp: pv_evolves_def)
      then show ?thesis using change [OF Some] pv_save_repo [OF some] e id by simp
    next
      case False
      then show ?thesis using end' same by (auto simp: EndSession_def Some)
    qed
  qed (use end' same in \<open>simp add: EndSession_def\<close>)
next
  case (ledger l)
  then show ?thesis using same by simp
qed

lemma pv_step_evolves:
  assumes "pv_step s w w'" and "pv_ids_ok (pw_repo w)" and "PVGet (pw_repo w) j = Some c"
  shows "pv_ids_ok (pw_repo w') \<and> (\<exists>d. PVGet (pw_repo w') j = Some d \<and> pv_evolves c d)"
  using assms
  by (cases rule: pv_step_repo [OF assms(1,2)]) (auto simp: PVGet_def pv_ids_ok_def)

text \<open>The life of a call. Whatever sequence of requests, accepts, declines and ends is made by
  whomever, with the ledger changing in between, a session keeps its parties, its price and its hold;
  its state only moves forward, from requested to accepted to ended, or to declined or ended
  directly; once it is declined or ended nothing about it changes any more; and a call that closes
  without having been accepted shows zero consumed coins.\<close>

theorem call_lifecycle:
  assumes "(pv_step s)\<^sup>*\<^sup>* w w'" and "pv_ids_ok (pw_repo w)" and "PVGet (pw_repo w) i = Some c"
  shows "\<exists>d. PVGet (pw_repo w') i = Some d \<and> pv_evolves c d"
proof -
  have "pv_ids_ok (pw_repo w') \<and> (\<exists>d. PVGet (pw_repo w') i = Some d \<and> pv_evolves c d)"
    using assms(1)
  proof (induction rule: rtranclp_induct)
    case (step w1 w2)
    then obtain d where "pv_ids_ok (pw_repo w1)" "PVGet (pw_repo w1) i = Some d" "pv_evolves c d" by blast
    then show ?case using pv_step_evolves [OF step.hyps(2)] pv_evolves_trans by blast
  qed (use assms in auto)
  then show ?thesis by blast
qed

section \<open>The bill, end to end\<close>

definition demo_pv :: "mem_ledger pv_service" where
  "demo_pv = \<lparr>ps_ledger = mem_ledger_repo, ps_accountActive = (\<lambda>a. Inr True), ps_ageAssured = (\<lambda>a. Inr True),
     ps_isBlocked = None, ps_calleePermits = None, ps_publish = True, ps_onRequested = False\<rparr>"

text \<open>\<open>a\<close> has 30 coins and calls \<open>b\<close> at 10 a minute.\<close>

definition demo_ringing :: "mem_ledger pv_world" where
  "demo_ringing = fst (snd (RequestSession demo_pv \<lparr>pw_repo = [], pw_ledger = demo_ledger\<rparr> 100 ''pv-1'' ''a'' ''b'' 10 ''c1''))"

definition demo_talking :: "mem_ledger pv_world" where
  "demo_talking = fst (snd (AcceptSession demo_pv demo_ringing 200 ''b'' ''pv-1''))"

definition demo_call :: "pv_session" where
  "demo_call = \<lparr>pv_ID = ''pv-1'', pv_CallerID = ''a'', pv_CalleeID = ''b'', pv_State = StateAccepted,
     pv_RatePerMinCoins = 10, pv_CreatedAt = 100, pv_AcceptedAt = Some 200, pv_EndedAt = None,
     pv_ConsumedCoins = 10, pv_HoldTransactionID = ''tx-2''\<rparr>"

lemma demo_calls:
  "PVGet (pw_repo demo_ringing) ''pv-1'' = Some (demo_call\<lparr>pv_State := StateRequested, pv_AcceptedAt := None\<rparr>)"
  "PVGet (pw_repo demo_talking) ''pv-1'' = Some demo_call" "pw_ledger demo_talking = pw_ledger demo_ringing"
  by code_simp+

lemma demo_ringing_ledger:
  "bal (pw_ledger demo_ringing) (UserCoinsAccount ''a'', Coin) = 20"
  "bal (pw_ledger demo_ringing) (UserDiamondsAccount ''b'', Diamond) = creator_diamonds 10"
  "map_option (\<lambda>u. (tx_Kind u, tx_Entries u)) (tx_by_id (pw_ledger demo_ringing) ''tx-2'') =
     Some (''pv_call'', gift_entries ''a'' ''b'' 10)"
  "map_of (ml_reversalOf (pw_ledger demo_ringing)) ''tx-2'' = None"
  "tx_by_key (pw_ledger demo_ringing) (hold_key ''pv-1'') = None"
  "tx_by_key (pw_ledger demo_ringing) (settle_key ''pv-1'') = None"
  by code_simp+

lemma demo_ringing_reachable: "ledger_reachable (pw_ledger demo_ringing)"
proof -
  have "pw_ledger demo_ringing = snd (PostTransaction demo_ledger 100 ''pv_call'' ''c1'' (hold_metadata ''pv-1'' ''a'' ''b'')
      (charge_entries ''a'' ''b'' 10))"
    by code_simp
  then show ?thesis using ledger_reachable.step [OF demo_reachable ledger_step.post] by simp
qed

lemma demo_intact: "mem.intact_hold (pw_ledger demo_ringing) demo_call"
proof -
  obtain u where "tx_by_id (pw_ledger demo_ringing) ''tx-2'' = Some u" "tx_Kind u = ''pv_call''"
      "tx_Entries u = gift_entries ''a'' ''b'' 10"
    using demo_ringing_ledger(3) by auto
  then show ?thesis
    using demo_ringing_ledger by (auto simp: mem.intact_hold_def demo_call_def is_reversed_def)
qed

text \<open>C29: what a call costs. Take an accepted call whose hold is intact (posted, not reversed, the
  callee still has its diamonds). When a participant ends it, the caller gets the hold back and
  pays the connected time, rounded up to whole minutes and at least one, times the rate, if the
  wallet then covers it, and otherwise nothing. The session shows as consumed exactly what was
  paid, and the callee's diamonds move accordingly. (Amounts up to twenty million coins.)\<close>

theorem call_costs_connected_time:
  assumes "ps_ledger s = mem_ledger_repo" and "ledger_reachable (pw_ledger w)"
    and "PVGet (pw_repo w) i = Some sess" and "pv_ID sess = i" and "HasParticipant sess who"
    and "pv_State sess = StateAccepted" and "pv_AcceptedAt sess = Some acc" and "mem.intact_hold (pw_ledger w) sess"
    and "acc \<le> now" and "now - acc < 2 ^ 63"
    and "cost = max 1 (- ((acc - now) div minute)) * pv_RatePerMinCoins sess" and "cost \<le> 20000000"
    and "bal (pw_ledger w) (UserDiamondsAccount (pv_CalleeID sess), Diamond) + creator_diamonds cost < 2 ^ 63"
    and "purse = bal (pw_ledger w) (UserCoinsAccount (pv_CallerID sess), Coin) + pv_RatePerMinCoins sess"
    and "paid = (if cost \<le> purse then cost else 0)"
  shows "\<exists>sess' w' ns. EndSession s w now who i = (Inr sess', w', ns) \<and>
    pv_State sess' = StateEnded \<and> pv_ConsumedCoins sess' = paid \<and> PVGet (pw_repo w') i = Some sess' \<and>
    bal (pw_ledger w') (UserCoinsAccount (pv_CallerID sess), Coin) = purse - paid \<and>
    (paid \<noteq> 0 \<longrightarrow> bal (pw_ledger w') (UserDiamondsAccount (pv_CalleeID sess), Diamond) =
       bal (pw_ledger w) (UserDiamondsAccount (pv_CalleeID sess), Diamond)
         - creator_diamonds (pv_RatePerMinCoins sess) + creator_diamonds cost)"
proof -
  let ?c = "sess\<lparr>pv_State := StateEnded, pv_EndedAt := Some now\<rparr>"
  have inv: "ledger_inv (pw_ledger w)" using assms(2) by (rule ledger_reachable_inv)
  have d: "0 \<le> now - acc" "now - acc < 2 ^ 63" using assms(9,10) by simp_all
  have cost: "cost = billed_minutes (now - acc) * pv_RatePerMinCoins ?c"
    using billed_minutes_ceiling(1) [OF d] by (simp add: assms(11))
  have h: "mem.intact_hold (pw_ledger w) ?c" using assms(8) by (simp add: mem.intact_hold_def)
  have room: "bal (pw_ledger w) (UserDiamondsAccount (pv_CalleeID ?c), Diamond) + creator_diamonds cost < 2 ^ 63"
    using assms(13) by simp
  obtain c' l' where st: "settleElapsed s (pw_ledger w) ?c acc now = (c', l')"
    and out: "if cost \<le> bal (pw_ledger w) (UserCoinsAccount (pv_CallerID ?c), Coin) + pv_RatePerMinCoins ?c
     then c' = ?c\<lparr>pv_ConsumedCoins := cost\<rparr> \<and>
       bal l' (UserCoinsAccount (pv_CallerID ?c), Coin) =
         bal (pw_ledger w) (UserCoinsAccount (pv_CallerID ?c), Coin) + pv_RatePerMinCoins ?c - cost \<and>
       bal l' (UserDiamondsAccount (pv_CalleeID ?c), Diamond) =
         bal (pw_ledger w) (UserDiamondsAccount (pv_CalleeID ?c), Diamond)
           - creator_diamonds (pv_RatePerMinCoins ?c) + creator_diamonds cost
     else c' = ?c\<lparr>pv_ConsumedCoins := 0\<rparr> \<and>
       bal l' (UserCoinsAccount (pv_CallerID ?c), Coin) =
         bal (pw_ledger w) (UserCoinsAccount (pv_CallerID ?c), Coin) + pv_RatePerMinCoins ?c"
    using mem.settle_outcome [OF inv assms(1) h d cost assms(12) room] by blast
  have fields: "pv_ID c' = i" "pv_State c' = StateEnded" "pv_ConsumedCoins c' = paid"
    "bal l' (UserCoinsAccount (pv_CallerID sess), Coin) = purse - paid"
    "paid \<noteq> 0 \<Longrightarrow> bal l' (UserDiamondsAccount (pv_CalleeID sess), Diamond) =
       bal (pw_ledger w) (UserDiamondsAccount (pv_CalleeID sess), Diamond)
         - creator_diamonds (pv_RatePerMinCoins sess) + creator_diamonds cost"
    using out assms(4,14,15) by (auto split: if_splits)
  obtain ns where e: "EndSession s w now who i = pv_save s (w\<lparr>pw_ledger := l'\<rparr>) c' ns"
    using assms(3,5-7) st by (simp add: EndSession_def Let_def)
  have "pv_save s (w\<lparr>pw_ledger := l'\<rparr>) c' ns = (Inr c', w\<lparr>pw_ledger := l', pw_repo := AList.update i c' (pw_repo w)\<rparr>, ns)"
    using assms(3) fields(1) by (simp add: pv_save_def PVUpdate_def PVGet_def)
  then show ?thesis using e fields by (simp add: PVGet_def)
qed

lemma call_costs_connected_time_witness:
  "\<exists>sess' w' ns. EndSession demo_pv demo_talking (200 + 61 * second) ''a'' ''pv-1'' = (Inr sess', w', ns) \<and>
     pv_ConsumedCoins sess' = 20 \<and> bal (pw_ledger w') (UserCoinsAccount ''a'', Coin) = 10"
proof -
  have s: "ps_ledger demo_pv = mem_ledger_repo" by (simp add: demo_pv_def)
  have c: "pv_ID demo_call = ''pv-1''" "HasParticipant demo_call ''a''" "pv_State demo_call = StateAccepted"
    "pv_AcceptedAt demo_call = Some 200" "pv_RatePerMinCoins demo_call = 10" "pv_CallerID demo_call = ''a''"
    "pv_CalleeID demo_call = ''b''"
    by (simp_all add: demo_call_def HasParticipant_def)
  have l: "ledger_reachable (pw_ledger demo_talking)" "mem.intact_hold (pw_ledger demo_talking) demo_call"
    using demo_ringing_reachable demo_intact demo_calls(3) by simp_all
  have b: "bal (pw_ledger demo_talking) (UserCoinsAccount ''a'', Coin) = 20"
    "bal (pw_ledger demo_talking) (UserDiamondsAccount ''b'', Diamond) + creator_diamonds 20 < 2 ^ 63"
    using demo_ringing_ledger(1,2) demo_calls(3) by (simp_all add: split_exact)
  show ?thesis
    using call_costs_connected_time [OF s l(1) demo_calls(2) c(1,2,3,4) l(2), of "200 + 61 * second" 20 30 20] b
    by (simp add: c) blast
qed

text \<open>Nobody pays for a call that was not taken. Declining a requested call, or ending it before
  it is accepted, gives the caller the whole hold back and takes the callee's diamonds for it, while
  the callee still has them; the session is closed and shows zero consumed coins.\<close>

theorem untaken_call_refunded:
  assumes "ps_ledger s = mem_ledger_repo" and "ledger_reachable (pw_ledger w)"
    and "PVGet (pw_repo w) i = Some sess" and "pv_ID sess = i" and "pv_State sess = StateRequested"
    and "pv_AcceptedAt sess = None" and "mem.intact_hold (pw_ledger w) sess"
    and "res = DeclineSession s w now (pv_CalleeID sess) i \<or> HasParticipant sess who \<and> res = EndSession s w now who i"
  shows "\<exists>sess' w' ns. res = (Inr sess', w', ns) \<and> pv_ConsumedCoins sess' = 0 \<and>
    pv_State sess' \<in> {StateDeclined, StateEnded} \<and> PVGet (pw_repo w') i = Some sess' \<and>
    bal (pw_ledger w') (UserCoinsAccount (pv_CallerID sess), Coin) =
      bal (pw_ledger w) (UserCoinsAccount (pv_CallerID sess), Coin) + pv_RatePerMinCoins sess \<and>
    bal (pw_ledger w') (UserDiamondsAccount (pv_CalleeID sess), Diamond) =
      bal (pw_ledger w) (UserDiamondsAccount (pv_CalleeID sess), Diamond) - creator_diamonds (pv_RatePerMinCoins sess)"
proof -
  have inv: "ledger_inv (pw_ledger w)" using assms(2) by (rule ledger_reachable_inv)
  have save: "pv_save s (w\<lparr>pw_ledger := l\<rparr>) c ns = (Inr c, w\<lparr>pw_ledger := l, pw_repo := AList.update i c (pw_repo w)\<rparr>, ns)"
    if "pv_ID c = i" for c l ns
    using assms(3) that by (simp add: pv_save_def PVUpdate_def PVGet_def)
  have h: "mem.intact_hold (pw_ledger w) (sess\<lparr>pv_State := st, pv_EndedAt := Some now\<rparr>)" for st
    using assms(7) by (simp add: mem.intact_hold_def)
  obtain st ns where st: "st \<in> {StateDeclined, StateEnded}" "res =
      (let (c, l) = refundHold s (pw_ledger w) now (sess\<lparr>pv_State := st, pv_EndedAt := Some now\<rparr>)
       in pv_save s (w\<lparr>pw_ledger := l\<rparr>) c ns)"
  proof -
    consider "res = DeclineSession s w now (pv_CalleeID sess) i"
      | "HasParticipant sess who" "res = EndSession s w now who i" using assms(8) by blast
    then show thesis
    proof cases
      case 1
      then show thesis using assms(3,5) that [of StateDeclined "pv_publish s (pv_CallerID sess) ''PV_DECLINED'' (pv_ID sess)"]
        by (simp add: DeclineSession_def Let_def refundHold_def)
    next
      case 2
      then show thesis using assms(3,5,6) that [of StateEnded "pv_publish s (if who = pv_CalleeID sess
          then pv_CallerID sess else pv_CalleeID sess) ''PV_ENDED'' (pv_ID sess)"]
        by (simp add: EndSession_def Let_def refundHold_def)
    qed
  qed
  note rev = mem.reverse_intact_hold [OF inv assms(1) h, of now st "''pv_call not connected''"]
  show ?thesis
    using st rev by (auto simp: Let_def refundHold_def save assms(4) PVGet_def)
qed

lemma untaken_call_refunded_witness:
  "\<exists>sess' w' ns. DeclineSession demo_pv demo_ringing 300 ''b'' ''pv-1'' = (Inr sess', w', ns) \<and>
     bal (pw_ledger w') (UserCoinsAccount ''a'', Coin) = 30 \<and>
     bal (pw_ledger w') (UserDiamondsAccount ''b'', Diamond) = 0"
proof -
  let ?c = "demo_call\<lparr>pv_State := StateRequested, pv_AcceptedAt := None\<rparr>"
  have s: "ps_ledger demo_pv = mem_ledger_repo" by (simp add: demo_pv_def)
  have h: "mem.intact_hold (pw_ledger demo_ringing) ?c" using demo_intact by (simp add: mem.intact_hold_def)
  have c: "pv_ID ?c = ''pv-1''" "pv_CalleeID ?c = ''b''" "pv_CallerID ?c = ''a''" "pv_RatePerMinCoins ?c = 10"
    "pv_State ?c = StateRequested" "pv_AcceptedAt ?c = None"
    by (simp_all add: demo_call_def)
  from untaken_call_refunded [OF s demo_ringing_reachable demo_calls(1) c(1,5,6) h, of
      "DeclineSession demo_pv demo_ringing 300 ''b'' ''pv-1''" 300]
  show ?thesis using demo_ringing_ledger(1,2) by (auto simp: c)
qed

lemma call_lifecycle_witness:
  "\<exists>d. PVGet (pw_repo (fst (snd (EndSession demo_pv demo_talking 900 ''a'' ''pv-1'')))) ''pv-1'' = Some d \<and>
     pv_evolves (demo_call\<lparr>pv_State := StateRequested, pv_AcceptedAt := None\<rparr>) d"
proof -
  have "pv_step demo_pv demo_ringing demo_talking"
    unfolding demo_talking_def by (rule pv_step.accept)
  moreover have "pv_step demo_pv demo_talking (fst (snd (EndSession demo_pv demo_talking 900 ''a'' ''pv-1'')))"
    by (rule pv_step.end')
  ultimately have st: "(pv_step demo_pv)\<^sup>*\<^sup>* demo_ringing (fst (snd (EndSession demo_pv demo_talking 900 ''a'' ''pv-1'')))"
    by auto
  have "pw_repo demo_ringing = [(''pv-1'', demo_call\<lparr>pv_State := StateRequested, pv_AcceptedAt := None\<rparr>)]"
    by code_simp
  then have "pv_ids_ok (pw_repo demo_ringing)"
    by (simp add: pv_ids_ok_def PVGet_def demo_call_def)
  from call_lifecycle [OF st this demo_calls(1)] show ?thesis .
qed

section \<open>A call placed under someone else's transaction\<close>

text \<open>A purchase can be clawed back by a stranger. A call requested under the key of a
  transaction that carries no session (the purchase of order \<open>n\<close> is posted under
  \<open>order-order-\<close>\<open>n\<close>, whoever bought) charges the caller nothing and takes that transaction as its
  hold. When the caller ends the call at once, the refund reverses the purchase: the buyer's coins
  are gone, as long as they have not been spent.\<close>

theorem call_claws_back_purchase:
  assumes "ps_ledger s = mem_ledger_repo" and "ledger_reachable (pw_ledger w)"
    and "tx_by_key (pw_ledger w) key = Some t" and "map_of (tx_Metadata t) ''session_id'' = None"
    and "tx_Kind t \<noteq> ''reversal''" and "\<not> is_reversed (pw_ledger w) (tx_ID t)"
    and "tx_Entries t = [\<lparr>e_account = UserCoinsAccount buyer, e_amount = n, e_currency = Coin\<rparr>,
           \<lparr>e_account = PlatformLiabilityAccount, e_amount = neg64 n, e_currency = Coin\<rparr>]"
    and "0 < n" and "n \<le> bal (pw_ledger w) (UserCoinsAccount buyer, Coin)"
    and "caller \<noteq> callee" and "pv_gates s caller callee = None" and "PVGet (pw_repo w) newID = None"
    and "tx_by_key (pw_ledger w) (hold_key newID) = None"
  shows "\<exists>sess w1 ns sess2 w2 ns2.
    RequestSession s w now newID caller callee rate key = (Inr (sess, True), w1, ns) \<and>
    pw_ledger w1 = pw_ledger w \<and> pv_HoldTransactionID sess = tx_ID t \<and>
    EndSession s w1 later caller newID = (Inr sess2, w2, ns2) \<and>
    bal (pw_ledger w2) (UserCoinsAccount buyer, Coin) = bal (pw_ledger w) (UserCoinsAccount buyer, Coin) - n \<and>
    is_reversed (pw_ledger w2) (tx_ID t) \<and>
    (\<forall>a c. \<not> isPlatformAccount a \<longrightarrow> (a, c) \<noteq> (UserCoinsAccount buyer, Coin) \<longrightarrow>
       bal (pw_ledger w2) (a, c) = bal (pw_ledger w) (a, c))"
proof -
  let ?l = "pw_ledger w" and ?r = "if rate \<le> 0 then 10 else rate"
  let ?sess = "\<lparr>pv_ID = newID, pv_CallerID = caller, pv_CalleeID = callee,
     pv_State = StateRequested, pv_RatePerMinCoins = ?r, pv_CreatedAt = now,
     pv_AcceptedAt = None, pv_EndedAt = None, pv_ConsumedCoins = ?r, pv_HoldTransactionID = tx_ID t\<rparr>"
  have inv: "ledger_inv ?l" using assms(2) by (rule ledger_reachable_inv)
  have "map_of (ml_byID ?l) (tx_ID t) = Some t"
    using inv assms(3) by (simp add: ledger_inv_def ids_ok_def tx_by_key_def)
  then have byid: "tx_by_id ?l (tx_ID t) = Some t" by (simp add: tx_by_id_def)
  have "\<exists>m \<le> ml_seq ?l. tx_ID t = tx_name m"
    using inv \<open>map_of (ml_byID ?l) (tx_ID t) = Some t\<close> unfolding ledger_inv_def ids_ok_def by blast
  then have "tx_ID t \<noteq> []" by (auto simp: tx_name_def)
  have post: "repo_PostTransaction mem_ledger_repo ?l now kind key md es = (Inr (t, False), ?l)" for kind md es
    using mem.replay_law [OF inv assms(3)] .
  have rp: "replayed_session s w key = None"
    using mem.get_law [OF inv, of key] assms(1,3,4) by (simp add: replayed_session_def)
  let ?w1 = "\<lparr>pw_repo = PVCreate (pw_repo w) ?sess, pw_ledger = ?l\<rparr>"
  obtain ns where req: "RequestSession s w now newID caller callee rate key = (Inr (?sess, True), ?w1, ns)"
    using assms(1,10,11) by (simp add: RequestSession_def rp chargeCoins_def post Let_def)
  have rng: "in_i64 (bal ?l (UserCoinsAccount buyer, Coin))" using inv by (rule mem.range_law)
  then have neg: "neg64 n = - n" "neg64 (- n) = n"
    using assms(8,9) by (simp_all add: neg64_id in_i64_def)
  have bk: "add64 (bal ?l (UserCoinsAccount buyer, Coin)) (- n) = bal ?l (UserCoinsAccount buyer, Coin) - n"
      "sub64 (bal ?l (UserCoinsAccount buyer, Coin)) n = bal ?l (UserCoinsAccount buyer, Coin) - n"
    using rng assms(8,9) by (simp_all add: add64_id sub64_id in_i64_def)
  have ne: "UserCoinsAccount buyer \<noteq> PlatformLiabilityAccount"
    using platform_accounts(2) user_not_platform(1) [of buyer] by metis
  then have dist: "distinct (map entry_key (tx_Entries t))"
    using assms(7) by (simp add: entry_key_def)
  have "affordable (bal ?l) (reversed_entries (tx_Entries t))"
    using assms(7,9) by (simp add: affordable_def reversed_entries_def entry_key_def neg bk)
  then obtain u l2 where rev: "repo_ReverseTransaction mem_ledger_repo ?l later (tx_ID t) (hold_key newID)
      ''pv_call not connected'' = (Inr (u, True), l2)"
    using mem.reverse_succeeds [OF inv assms(13) byid assms(5,6) dist, of later "''pv_call not connected''"] by blast
  have l2: "is_reversed l2 = (is_reversed ?l)(tx_ID t := True)"
      "\<And>k. bal l2 k = sub64 (bal ?l k) (entries_at k (tx_Entries t))"
    using mem.reverse_new [OF inv assms(13) rev] byid by auto
  have id: "sub64 (bal ?l k) 0 = bal ?l k" for k using mem.range_law [OF inv, of k] by (simp add: sub64_id)
  have coins: "entries_at (UserCoinsAccount buyer, Coin) (tx_Entries t) = n"
    using assms(7) ne by (simp add: entries_at_def entry_key_def)
  have other: "entries_at (a, c) (tx_Entries t) = 0"
    if "\<not> isPlatformAccount a" "(a, c) \<noteq> (UserCoinsAccount buyer, Coin)" for a c
    using assms(7) that platform_accounts(2) by (auto simp: entries_at_def entry_key_def)
  have hold: "reverseHold s ?l later (?sess\<lparr>pv_State := StateEnded, pv_EndedAt := Some later\<rparr>) ''pv_call not connected'' = l2"
    using rev \<open>tx_ID t \<noteq> []\<close> assms(1) by (simp add: reverseHold_def hold_key_def)
  have get: "PVGet (pw_repo ?w1) newID = Some ?sess" by (simp add: PVGet_def PVCreate_def)
  obtain sess2 w2 ns2 where e: "EndSession s ?w1 later caller newID = (Inr sess2, w2, ns2)" "pw_ledger w2 = l2"
    using get hold by (simp add: EndSession_def HasParticipant_def refundHold_def Let_def pv_save_def PVUpdate_def PVGet_def)
  have "bal l2 (UserCoinsAccount buyer, Coin) = bal ?l (UserCoinsAccount buyer, Coin) - n"
    by (simp add: l2(2) coins bk)
  moreover have "\<forall>a c. \<not> isPlatformAccount a \<longrightarrow> (a, c) \<noteq> (UserCoinsAccount buyer, Coin) \<longrightarrow> bal l2 (a, c) = bal ?l (a, c)"
    by (simp add: l2(2) other id)
  moreover have "is_reversed l2 (tx_ID t)" by (simp add: l2(1))
  ultimately show ?thesis using req e by force
qed

definition demo_purchase :: mem_ledger where
  "demo_purchase = snd (PostTransaction NewMemLedger 7 ''purchase'' ''order-order-1'' []
     [\<lparr>e_account = UserCoinsAccount ''v'', e_amount = 500, e_currency = Coin\<rparr>,
      \<lparr>e_account = PlatformLiabilityAccount, e_amount = neg64 500, e_currency = Coin\<rparr>])"

lemma call_claws_back_purchase_witness:
  "bal demo_purchase (UserCoinsAccount ''v'', Coin) = 500 \<and>
   (\<exists>sess w1 ns sess2 w2 ns2.
      RequestSession demo_pv \<lparr>pw_repo = [], pw_ledger = demo_purchase\<rparr> 8 ''pv-1'' ''m'' ''b'' 10 ''order-order-1'' =
        (Inr (sess, True), w1, ns) \<and>
      EndSession demo_pv w1 9 ''m'' ''pv-1'' = (Inr sess2, w2, ns2) \<and>
      bal (pw_ledger w2) (UserCoinsAccount ''v'', Coin) = 0)"
proof -
  let ?w = "\<lparr>pw_repo = [], pw_ledger = demo_purchase\<rparr>"
  have r: "ledger_reachable demo_purchase"
    unfolding demo_purchase_def by (rule ledger_reachable.step [OF ledger_reachable.new ledger_step.post])
  have ev: "tx_by_key demo_purchase ''order-order-1'' = Some \<lparr>tx_ID = ''tx-1'', tx_Kind = ''purchase'',
      tx_IdempotencyKey = ''order-order-1'', tx_Metadata = [], tx_Entries =
        [\<lparr>e_account = UserCoinsAccount ''v'', e_amount = 500, e_currency = Coin\<rparr>,
         \<lparr>e_account = PlatformLiabilityAccount, e_amount = neg64 500, e_currency = Coin\<rparr>], tx_CreatedAt = 7\<rparr>"
    "bal demo_purchase (UserCoinsAccount ''v'', Coin) = 500" "ml_reversalOf demo_purchase = []"
    "tx_by_key demo_purchase (hold_key ''pv-1'') = None"
    by code_simp+
  have g: "pv_gates demo_pv ''m'' ''b'' = None" "ps_ledger demo_pv = mem_ledger_repo"
    "PVGet (pw_repo ?w) ''pv-1'' = None" "\<not> is_reversed (pw_ledger ?w) ''tx-1''"
    by (simp_all add: demo_pv_def pv_gates_def PVGet_def is_reversed_def ev(3))
  obtain sess w1 ns sess2 w2 ns2 where
    "RequestSession demo_pv ?w 8 ''pv-1'' ''m'' ''b'' 10 ''order-order-1'' = (Inr (sess, True), w1, ns)"
    "EndSession demo_pv w1 9 ''m'' ''pv-1'' = (Inr sess2, w2, ns2)"
    "bal (pw_ledger w2) (UserCoinsAccount ''v'', Coin) = bal (pw_ledger ?w) (UserCoinsAccount ''v'', Coin) - 500"
    using call_claws_back_purchase [where w = ?w and n = 500 and buyer = "''v''" and caller = "''m''" and callee = "''b''"
        and now = 8 and later = 9 and rate = 10 and newID = "''pv-1''", OF g(2) _ _ _ _ _ _ _ _ _ g(1,3), of "''order-order-1''"]
      r ev g(4) by auto
  then show ?thesis using ev(2) by auto
qed

end
