(* ===== verification/Referral.thy ===== *)
theory Referral
  imports Ledger_Repo "HOL-Library.Multiset"
begin

text \<open>
  Referral rewards: the in-memory store (\<open>referral/mem_repo.go\<close>), the service
  (\<open>referral/referralsvc\<close>) and the coin-crediting closure of \<open>feed/cmd/api/main.go\<close>.
  Each claim is also a machine with one access to shared state per step, so that concurrent claims
  are explicit interleavings.
\<close>

section \<open>Data and store\<close>

definition RewardCoins :: int where "RewardCoins = 100"

record referral =
  rf_ID :: string
  rf_ReferrerID :: string
  rf_ReferredID :: string
  rf_RewardCoins :: int
  rf_TransactionID :: string
  rf_CreatedAt :: time

datatype referral_error =
    ErrSelfReferral
  | ErrAlreadyClaimed
  | ErrCodeNotFound
  | ReferralAccountError string
  | ReferralLedgerError ledger_error

record mem_referrals =
  mr_claimed :: "(string \<times> bool) list"
  mr_byReferrer :: "(string \<times> referral list) list"
  mr_nextID :: nat

definition NewMemReferrals :: mem_referrals where
  "NewMemReferrals = \<lparr>mr_claimed = [], mr_byReferrer = [], mr_nextID = 0\<rparr>"

definition has_claimed :: "mem_referrals \<Rightarrow> string \<Rightarrow> bool" where
  "has_claimed m a \<longleftrightarrow> map_of (mr_claimed m) a = Some True"

definition TryClaim :: "mem_referrals \<Rightarrow> string \<Rightarrow> bool \<times> mem_referrals" where
  "TryClaim m accountID =
     (if has_claimed m accountID then (False, m)
      else (True, m\<lparr>mr_claimed := AList.update accountID True (mr_claimed m)\<rparr>))"

definition ListByReferrer :: "mem_referrals \<Rightarrow> string \<Rightarrow> referral list" where
  "ListByReferrer m referrerID = (case map_of (mr_byReferrer m) referrerID of None \<Rightarrow> [] | Some items \<Rightarrow> items)"

text \<open>\<open>fmt.Sprintf("ref-%04d", n)\<close>\<close>

definition referral_name :: "nat \<Rightarrow> string" where
  "referral_name n = (let d = itoaLedger (int n) in ''ref-'' @ replicate (4 - length d) CHR ''0'' @ d)"

definition RecordReward :: "mem_referrals \<Rightarrow> referral \<Rightarrow> referral \<times> mem_referrals" where
  "RecordReward m r =
     (let n = mr_nextID m + 1;
          r = r\<lparr>rf_ID := referral_name n\<rparr>
      in (r, m\<lparr>mr_nextID := n,
            mr_byReferrer := AList.update (rf_ReferrerID r) (r # ListByReferrer m (rf_ReferrerID r)) (mr_byReferrer m)\<rparr>))"

section \<open>The service\<close>

record 'l referral_service =
  rs_accountExists :: "string \<Rightarrow> string + bool"
  rs_creditCoins :: "'l \<Rightarrow> time \<Rightarrow> string \<Rightarrow> int \<Rightarrow> string \<Rightarrow> (ledger_error + string) \<times> 'l"

record 'l referral_world =
  rw_repo :: mem_referrals
  rw_ledger :: 'l

definition referral_key :: "string \<Rightarrow> string" where
  "referral_key referredID = ''referral-'' @ referredID"

definition new_referral :: "time \<Rightarrow> string \<Rightarrow> string \<Rightarrow> string \<Rightarrow> referral" where
  "new_referral now referredID referrerCode txID =
     \<lparr>rf_ID = [], rf_ReferrerID = referrerCode, rf_ReferredID = referredID, rf_RewardCoins = RewardCoins,
      rf_TransactionID = txID, rf_CreatedAt = now\<rparr>"

definition ClaimCode :: "'l referral_service \<Rightarrow> 'l referral_world \<Rightarrow> time \<Rightarrow> string \<Rightarrow> string \<Rightarrow>
    (referral_error + referral) \<times> 'l referral_world" where
  "ClaimCode s w now referredID referrerCode =
     (if referredID = referrerCode then (Inl ErrSelfReferral, w)
      else
        (case rs_accountExists s referrerCode of
           Inl err \<Rightarrow> (Inl (ReferralAccountError err), w)
         | Inr exists \<Rightarrow>
             if \<not> exists then (Inl ErrCodeNotFound, w)
             else
               (case TryClaim (rw_repo w) referredID of
                  (False, m) \<Rightarrow> (Inl ErrAlreadyClaimed, w\<lparr>rw_repo := m\<rparr>)
                | (True, m) \<Rightarrow>
                    (case rs_creditCoins s (rw_ledger w) now referrerCode RewardCoins (referral_key referredID) of
                       (Inl err, l) \<Rightarrow> (Inl (ReferralLedgerError err), \<lparr>rw_repo = m, rw_ledger = l\<rparr>)
                     | (Inr txID, l) \<Rightarrow>
                         (let (r, m) = RecordReward m (new_referral now referredID referrerCode txID)
                          in (Inr r, \<lparr>rw_repo = m, rw_ledger = l\<rparr>))))))"

definition ListMyReferrals :: "'l referral_world \<Rightarrow> string \<Rightarrow> referral list" where
  "ListMyReferrals w referrerID = ListByReferrer (rw_repo w) referrerID"

text \<open>The closure \<open>referralCreditCoins\<close>: whether the transaction is new is ignored.\<close>

definition reward_entries :: "string \<Rightarrow> int \<Rightarrow> entry list" where
  "reward_entries accountID amount =
     [\<lparr>e_account = UserCoinsAccount accountID, e_amount = amount, e_currency = Coin\<rparr>,
      \<lparr>e_account = PlatformLiabilityAccount, e_amount = neg64 amount, e_currency = Coin\<rparr>]"

definition referralCreditCoins :: "'l ledger_repo \<Rightarrow> 'l \<Rightarrow> time \<Rightarrow> string \<Rightarrow> int \<Rightarrow> string \<Rightarrow>
    (ledger_error + string) \<times> 'l" where
  "referralCreditCoins R l now accountID amount idempotencyKey =
     (case repo_PostTransaction R l now ''referral_reward'' idempotencyKey [(''account_id'', AnyString accountID)]
             (reward_entries accountID amount) of
        (Inl err, l) \<Rightarrow> (Inl err, l)
      | (Inr (tx, isNew), l) \<Rightarrow> (Inr (tx_ID tx), l))"

section \<open>Claims as machines\<close>

text \<open>A call past its gate is about to credit, or about to record; otherwise it has returned.\<close>

datatype claim_call =
    AtCredit string string          \<comment> \<open>referred account, code\<close>
  | AtRecord string string string   \<comment> \<open>and the transaction\<close>
  | ClaimDone "referral_error + referral"

definition begin_claim :: "'l referral_service \<Rightarrow> mem_referrals \<Rightarrow> string \<Rightarrow> string \<Rightarrow> claim_call \<times> mem_referrals" where
  "begin_claim s m referredID referrerCode =
     (if referredID = referrerCode then (ClaimDone (Inl ErrSelfReferral), m)
      else
        (case rs_accountExists s referrerCode of
           Inl err \<Rightarrow> (ClaimDone (Inl (ReferralAccountError err)), m)
         | Inr exists \<Rightarrow>
             if \<not> exists then (ClaimDone (Inl ErrCodeNotFound), m)
             else
               (case TryClaim m referredID of
                  (False, m) \<Rightarrow> (ClaimDone (Inl ErrAlreadyClaimed), m)
                | (True, m) \<Rightarrow> (AtCredit referredID referrerCode, m))))"

fun claim_step :: "'l referral_service \<Rightarrow> time \<Rightarrow> 'l referral_world \<Rightarrow> claim_call \<Rightarrow> claim_call \<times> 'l referral_world" where
  "claim_step s now w (AtCredit x c) =
     (case rs_creditCoins s (rw_ledger w) now c RewardCoins (referral_key x) of
        (Inl err, l) \<Rightarrow> (ClaimDone (Inl (ReferralLedgerError err)), w\<lparr>rw_ledger := l\<rparr>)
      | (Inr txID, l) \<Rightarrow> (AtRecord x c txID, w\<lparr>rw_ledger := l\<rparr>))"
| "claim_step s now w (AtRecord x c txID) =
     (case RecordReward (rw_repo w) (new_referral now x c txID) of
        (r, m) \<Rightarrow> (ClaimDone (Inr r), w\<lparr>rw_repo := m\<rparr>))"
| "claim_step s now w (ClaimDone res) = (ClaimDone res, w)"

text \<open>An uninterrupted run of the machine is the function.\<close>

lemma ClaimCode_runs:
  assumes "begin_claim s (rw_repo w) x c = (k0, m)" and "claim_step s now (w\<lparr>rw_repo := m\<rparr>) k0 = (k1, w1)"
    and "claim_step s now w1 k1 = (k2, w2)"
  shows "k2 = ClaimDone (fst (ClaimCode s w now x c)) \<and> w2 = snd (ClaimCode s w now x c)"
  using assms unfolding ClaimCode_def begin_claim_def
  by (auto split: if_splits sum.splits prod.splits bool.splits)

record 'l referral_system =
  ry_world :: "'l referral_world"
  ry_calls :: "claim_call list"

text \<open>Claims start and advance in any order, or never advance again; the rest of the program posts
  and reverses under keys of its own.\<close>

inductive referral_step :: "'l ledger_repo \<Rightarrow> 'l referral_service \<Rightarrow> 'l referral_system \<Rightarrow> 'l referral_system \<Rightarrow> bool"
  for R :: "'l ledger_repo" and s :: "'l referral_service" where
  call: "begin_claim s (rw_repo (ry_world y)) x c = (k, m) \<Longrightarrow>
    referral_step R s y \<lparr>ry_world = (ry_world y)\<lparr>rw_repo := m\<rparr>, ry_calls = ry_calls y @ [k]\<rparr>"
| run: "i < length (ry_calls y) \<Longrightarrow> claim_step s now (ry_world y) (ry_calls y ! i) = (k, w) \<Longrightarrow>
    referral_step R s y \<lparr>ry_world = w, ry_calls = (ry_calls y)[i := k]\<rparr>"
| other_post: "\<not> HasPrefix key ''referral-'' \<Longrightarrow>
    repo_PostTransaction R (rw_ledger (ry_world y)) now kind key md es = (res, l) \<Longrightarrow>
    referral_step R s y (y\<lparr>ry_world := (ry_world y)\<lparr>rw_ledger := l\<rparr>\<rparr>)"
| other_reverse: "\<not> HasPrefix key ''referral-'' \<Longrightarrow>
    repo_ReverseTransaction R (rw_ledger (ry_world y)) now i key reason = (res, l) \<Longrightarrow>
    referral_step R s y (y\<lparr>ry_world := (ry_world y)\<lparr>rw_ledger := l\<rparr>\<rparr>)"

inductive_cases referral_stepE: "referral_step R s y y'"

definition referral_start :: "'l \<Rightarrow> 'l referral_system" where
  "referral_start l = \<lparr>ry_world = \<lparr>rw_repo = NewMemReferrals, rw_ledger = l\<rparr>, ry_calls = []\<rparr>"

section \<open>What every interleaving keeps\<close>

definition recorded :: "mem_referrals \<Rightarrow> referral list" where
  "recorded m = concat (map snd (mr_byReferrer m))"

lemma recorded_record:
  "mset (recorded (snd (RecordReward m r))) = add_mset (fst (RecordReward m r)) (mset (recorded m))"
proof -
  have "mset (concat (map snd (AList.update k (y # (case map_of b k of None \<Rightarrow> [] | Some items \<Rightarrow> items)) b))) =
      add_mset y (mset (concat (map snd b)))" for k y and b :: "(string \<times> referral list) list"
    by (induction b) auto
  then show ?thesis by (simp add: recorded_def RecordReward_def ListByReferrer_def Let_def)
qed

lemma listed_recorded: "r \<in> set (ListByReferrer m a) \<Longrightarrow> r \<in> set (recorded m)"
  by (cases "map_of (mr_byReferrer m) a") (auto simp: ListByReferrer_def recorded_def dest!: map_of_SomeD intro!: bexI)

fun in_flight :: "string \<Rightarrow> claim_call \<Rightarrow> bool" where
  "in_flight x (AtCredit y c) \<longleftrightarrow> y = x"
| "in_flight x (AtRecord y c i) \<longleftrightarrow> y = x"
| "in_flight x (ClaimDone res) \<longleftrightarrow> False"

fun rewarded :: "string \<Rightarrow> claim_call \<Rightarrow> bool" where
  "rewarded x (ClaimDone (Inr r)) \<longleftrightarrow> rf_ReferredID r = x"
| "rewarded x k \<longleftrightarrow> False"

abbreviation number :: "('a \<Rightarrow> bool) \<Rightarrow> 'a list \<Rightarrow> nat" where
  "number P xs \<equiv> length (filter P xs)"

definition records_for :: "mem_referrals \<Rightarrow> string \<Rightarrow> nat" where
  "records_for m x = number (\<lambda>r. rf_ReferredID r = x) (recorded m)"

text \<open>What a call or a record says of the ledger's keys.\<close>

definition pays :: "(string \<Rightarrow> transaction option) \<Rightarrow> string \<Rightarrow> string \<Rightarrow> string \<Rightarrow> bool" where
  "pays st x c i \<longleftrightarrow> (\<exists>t. st (referral_key x) = Some t \<and> tx_ID t = i \<and> tx_Entries t = reward_entries c RewardCoins)"

fun call_fine :: "(string \<Rightarrow> transaction option) \<Rightarrow> claim_call \<Rightarrow> bool" where
  "call_fine st (AtCredit x c) \<longleftrightarrow> st (referral_key x) = None"
| "call_fine st (AtRecord x c i) \<longleftrightarrow> pays st x c i"
| "call_fine st (ClaimDone res) \<longleftrightarrow> True"

definition record_fine :: "(string \<Rightarrow> transaction option) \<Rightarrow> referral \<Rightarrow> bool" where
  "record_fine st r \<longleftrightarrow> pays st (rf_ReferredID r) (rf_ReferrerID r) (rf_TransactionID r) \<and> rf_RewardCoins r = 100"

definition claims_fine :: "(string \<Rightarrow> transaction option) \<Rightarrow> mem_referrals \<Rightarrow> claim_call list \<Rightarrow> bool" where
  "claims_fine st m ks \<longleftrightarrow>
     (\<forall>x. number (in_flight x) ks + records_for m x \<le> 1) \<and>
     (\<forall>x. number (rewarded x) ks = records_for m x) \<and>
     (\<forall>x. \<not> has_claimed m x \<longrightarrow> number (in_flight x) ks + records_for m x = 0 \<and> st (referral_key x) = None) \<and>
     (\<forall>k \<in> set ks. call_fine st k) \<and> (\<forall>r \<in> set (recorded m). record_fine st r)"

text \<open>Updating one call changes the counts by what it was and what it becomes.\<close>

lemma number_update:
  "i < length ks \<Longrightarrow> number P (ks[i := k]) + (if P (ks ! i) then 1 else 0) = number P ks + (if P k then 1 else 0)"
proof (induction ks arbitrary: i)
  case (Cons a ks)
  then show ?case using Cons.IH [of "i - 1"] by (cases i) auto
qed simp

lemma number_pos: "i < length ks \<Longrightarrow> P (ks ! i) \<Longrightarrow> 0 < number P ks"
  by (auto simp: filter_empty_conv)

lemma pays_mono: "pays st x c i \<Longrightarrow> (\<And>t. st (referral_key x) = Some t \<Longrightarrow> st' (referral_key x) = Some t) \<Longrightarrow> pays st' x c i"
  by (auto simp: pays_def)

lemma claims_fine_cong:
  "claims_fine st m ks \<Longrightarrow> (\<And>x. st' (referral_key x) = st (referral_key x)) \<Longrightarrow> claims_fine st' m ks"
proof -
  assume c: "claims_fine st m ks" and s: "\<And>x. st' (referral_key x) = st (referral_key x)"
  have "call_fine st' k = call_fine st k" for k by (cases k) (auto simp: s pays_def)
  then show ?thesis using c s by (simp add: claims_fine_def record_fine_def pays_def)
qed

lemma referral_key_prefix [simp]: "HasPrefix (referral_key x) ''referral-''"
  unfolding referral_key_def by (rule HasPrefix_append)

lemma referral_key_inj [simp]: "referral_key x = referral_key y \<longleftrightarrow> x = y"
  by (simp add: referral_key_def)

lemma claims_fine_start: "(\<And>x. st (referral_key x) = None) \<Longrightarrow> claims_fine st NewMemReferrals []"
  by (simp add: claims_fine_def NewMemReferrals_def records_for_def recorded_def)

lemma claims_fine_begin:
  assumes c: "claims_fine st m ks" and b: "begin_claim s m x c' = (k, m')"
  shows "claims_fine st m' (ks @ [k])"
proof (cases "m' = m \<and> (\<exists>err. k = ClaimDone (Inl err))")
  case True
  then show ?thesis using c by (auto simp: claims_fine_def)
next
  case False
  then have k: "k = AtCredit x c'" "m' = m\<lparr>mr_claimed := AList.update x True (mr_claimed m)\<rparr>" "\<not> has_claimed m x"
    using b by (auto simp: begin_claim_def TryClaim_def split: if_splits sum.splits)
  have r: "records_for m' = records_for m" "recorded m' = recorded m"
    by (simp_all add: records_for_def recorded_def k fun_eq_iff)
  have h: "has_claimed m' y \<longleftrightarrow> y = x \<or> has_claimed m y" for y by (simp add: has_claimed_def k)
  show ?thesis
    using c k(3) unfolding claims_fine_def r h by (auto simp: k(1))
qed

lemma number_unique: "number P xs \<le> 1 \<Longrightarrow> a \<in> set xs \<Longrightarrow> b \<in> set xs \<Longrightarrow> P a \<Longrightarrow> P b \<Longrightarrow> a = b"
proof -
  assume "number P xs \<le> 1" and "a \<in> set xs" "b \<in> set xs" "P a" "P b"
  then have ab: "a \<in> set (filter P xs)" "b \<in> set (filter P xs)" and "length (filter P xs) \<le> 1"
    by auto
  moreover have "filter P xs \<noteq> []" using ab(1) by (intro notI) (simp only: list.set empty_iff)
  ultimately obtain c where "filter P xs = [c]" by (cases "filter P xs") auto
  then show ?thesis using ab unfolding \<open>filter P xs = [c]\<close> by simp
qed

lemma in_flight_counts:
  assumes "claims_fine st m ks" and "i < length ks" and "in_flight x (ks ! i)"
  shows "number (in_flight x) ks = 1" and "records_for m x = 0" and "has_claimed m x"
    and "number (rewarded x) ks = 0"
proof -
  have "0 < number (in_flight x) ks" by (rule number_pos [where P = "in_flight x"]) (use assms in auto)
  moreover have "number (in_flight x) ks + records_for m x \<le> 1" "number (rewarded x) ks = records_for m x"
    "\<not> has_claimed m x \<longrightarrow> number (in_flight x) ks + records_for m x = 0"
    using assms(1) by (auto simp: claims_fine_def)
  ultimately show "number (in_flight x) ks = 1" "records_for m x = 0" "has_claimed m x" "number (rewarded x) ks = 0"
    by linarith+
qed

text \<open>The step that pays: the key was free, so the transaction is new.\<close>

lemma claims_fine_credited:
  assumes c: "claims_fine st m ks" and i: "i < length ks" "ks ! i = AtCredit x c'"
    and st': "st' = st(referral_key x \<mapsto> t)" and t: "tx_Entries t = reward_entries c' RewardCoins"
  shows "claims_fine st' m (ks[i := AtRecord x c' (tx_ID t)])"
proof -
  let ?k = "AtRecord x c' (tx_ID t)"
  have "in_flight y ?k = in_flight y (ks ! i)" "rewarded y ?k = rewarded y (ks ! i)" for y by (simp_all add: i)
  then have n: "number (in_flight y) (ks[i := ?k]) = number (in_flight y) ks"
      "number (rewarded y) (ks[i := ?k]) = number (rewarded y) ks" for y
    using number_update [OF i(1), of "in_flight y" ?k] number_update [OF i(1), of "rewarded y" ?k] by auto
  note one = in_flight_counts [OF c i(1), of x, unfolded i(2), simplified]
  have "call_fine st' k" if k: "k \<in> set (ks[i := ?k])" for k
  proof (cases "in_flight x k")
    case True
    have "?k \<in> set (ks[i := ?k])" using i(1) by (rule set_update_memI)
    then have "k = ?k" using number_unique [of "in_flight x" "ks[i := ?k]" k ?k] k True n(1) [of x] one by simp
    then show ?thesis by (simp add: pays_def st' t)
  next
    case False
    then have "k \<in> set ks" using k set_update_subset_insert [of ks i ?k] by auto
    then have "call_fine st k" using c by (simp add: claims_fine_def)
    then show ?thesis using False by (cases k) (auto simp: st' pays_def)
  qed
  moreover have "record_fine st' r" if "r \<in> set (recorded m)" for r
  proof -
    have "rf_ReferredID r \<noteq> x" using one(2) that by (auto simp: records_for_def filter_empty_conv)
    then show ?thesis using c that by (auto simp: claims_fine_def record_fine_def pays_def st')
  qed
  ultimately show ?thesis using c one by (auto simp: claims_fine_def n st')
qed

lemma claims_fine_failed:
  assumes c: "claims_fine st m ks" and i: "i < length ks" "ks ! i = AtCredit x c'"
  shows "claims_fine st m (ks[i := ClaimDone (Inl err)])"
proof -
  let ?k = "ClaimDone (Inl err)"
  have n: "number (in_flight y) (ks[i := ?k]) \<le> number (in_flight y) ks"
      "number (rewarded y) (ks[i := ?k]) = number (rewarded y) ks" for y
    using number_update [OF i(1), of "in_flight y" ?k] number_update [OF i(1), of "rewarded y" ?k] i(2) by auto
  have k: "\<forall>k \<in> set (ks[i := ?k]). call_fine st k"
    using c set_update_subset_insert [of ks i ?k] by (auto simp: claims_fine_def)
  have le: "number (in_flight y) (ks[i := ?k]) + records_for m y \<le> number (in_flight y) ks + records_for m y" for y
    using n(1) by simp
  have "number (in_flight y) (ks[i := ?k]) + records_for m y \<le> 1" for y
    using c le [of y] le_trans unfolding claims_fine_def by blast
  moreover have "number (in_flight y) (ks[i := ?k]) + records_for m y = 0 \<and> st (referral_key y) = None" if "\<not> has_claimed m y" for y
    using c le [of y] that unfolding claims_fine_def by (metis le_zero_eq)
  ultimately show ?thesis using c k n(2) unfolding claims_fine_def by simp
qed

lemma claims_fine_recorded:
  assumes c: "claims_fine st m ks" and i: "i < length ks" "ks ! i = AtRecord x c' txID"
    and r: "RecordReward m (new_referral now x c' txID) = (r, m')"
  shows "claims_fine st m' (ks[i := ClaimDone (Inr r)])"
proof -
  let ?k = "ClaimDone (Inr r)"
  have f: "rf_ReferredID r = x" "rf_ReferrerID r = c'" "rf_TransactionID r = txID" "rf_RewardCoins r = 100"
    and h: "has_claimed m' = has_claimed m"
    using r by (auto simp: RecordReward_def new_referral_def RewardCoins_def Let_def has_claimed_def fun_eq_iff)
  have rec: "mset (recorded m') = add_mset r (mset (recorded m))"
    using recorded_record [of m "new_referral now x c' txID"] r by simp
  then have set: "set (recorded m') = insert r (set (recorded m))" by (metis set_mset_add_mset_insert set_mset_mset)
  have size: "records_for q y = size (filter_mset (\<lambda>r. rf_ReferredID r = y) (mset (recorded q)))" for q y
    unfolding records_for_def by (metis mset_filter size_mset)
  then have rf: "records_for m' y = (if y = x then 1 else 0) + records_for m y" for y
    by (simp add: size rec f(1))
  have n: "number (in_flight y) (ks[i := ?k]) + (if y = x then 1 else 0) = number (in_flight y) ks"
      "number (rewarded y) (ks[i := ?k]) = number (rewarded y) ks + (if y = x then 1 else 0)" for y
    using number_update [OF i(1), of "in_flight y" ?k] number_update [OF i(1), of "rewarded y" ?k] i(2) f(1) by auto
  then have total: "number (in_flight y) (ks[i := ?k]) + records_for m' y = number (in_flight y) ks + records_for m y" for y
    using rf [of y] n(1) [of y] by simp
  have "call_fine st (ks ! i)" using c i(1) by (simp add: claims_fine_def)
  then have "record_fine st r" using f by (simp add: i(2) record_fine_def)
  then have "\<forall>q \<in> set (recorded m'). record_fine st q" using c by (simp add: set claims_fine_def)
  moreover have "\<forall>k \<in> set (ks[i := ?k]). call_fine st k"
    using c set_update_subset_insert [of ks i ?k] by (auto simp: claims_fine_def)
  ultimately show ?thesis using c unfolding claims_fine_def h total by (simp add: n(2) rf)
qed

context ledger_reversal_contract
begin

lemma credit_cases:
  assumes ok: "ok l" and new: "stored l (referral_key x) = None"
  obtains (failed) err where "referralCreditCoins R l now c RewardCoins (referral_key x) = (Inl err, l)"
  | (paid) t l' where "referralCreditCoins R l now c RewardCoins (referral_key x) = (Inr (tx_ID t), l')" "ok l'"
      "stored l' = (stored l)(referral_key x \<mapsto> t)" "tx_Entries t = reward_entries c RewardCoins"
  by (rule post_cases [OF ok, of now "''referral_reward''" "referral_key x" "[(''account_id'', AnyString c)]"
      "reward_entries c RewardCoins"])
    (use new failed paid in \<open>auto simp: referralCreditCoins_def\<close>)

lemma referral_step_fine:
  assumes st: "referral_step R s y y'" and s: "rs_creditCoins s = referralCreditCoins R"
    and ok: "ok (rw_ledger (ry_world y))"
    and c: "claims_fine (stored (rw_ledger (ry_world y))) (rw_repo (ry_world y)) (ry_calls y)"
  shows "ok (rw_ledger (ry_world y')) \<and>
    claims_fine (stored (rw_ledger (ry_world y'))) (rw_repo (ry_world y')) (ry_calls y')"
  using st
proof cases
  case (call x c' k m)
  then show ?thesis using ok claims_fine_begin [OF c call(2)] by simp
next
  case (run i now k w)
  show ?thesis
  proof (cases "ry_calls y ! i")
    case (AtCredit x c')
    then have free: "stored (rw_ledger (ry_world y)) (referral_key x) = None"
      using c run(2) nth_mem [of i "ry_calls y"] by (fastforce simp: claims_fine_def)
    consider err where "referralCreditCoins R (rw_ledger (ry_world y)) now c' RewardCoins (referral_key x) =
          (Inl err, rw_ledger (ry_world y))"
      | t l' where "referralCreditCoins R (rw_ledger (ry_world y)) now c' RewardCoins (referral_key x) = (Inr (tx_ID t), l')"
          "ok l'" "stored l' = (stored (rw_ledger (ry_world y)))(referral_key x \<mapsto> t)"
          "tx_Entries t = reward_entries c' RewardCoins"
      using credit_cases [OF ok free] by metis
    then show ?thesis
    proof cases
      case (1 err)
      then show ?thesis using run(1,3) ok AtCredit s claims_fine_failed [OF c run(2) AtCredit] by auto
    next
      case (2 t l')
      then show ?thesis using run(1,3) AtCredit s claims_fine_credited [OF c run(2) AtCredit 2(3,4)] by auto
    qed
  next
    case (AtRecord x c' txID)
    then show ?thesis
      using run(1,3) ok claims_fine_recorded [OF c run(2) AtRecord]
      by (cases "RecordReward (rw_repo (ry_world y)) (new_referral now x c' txID)") auto
  next
    case (ClaimDone res)
    then have "k = ry_calls y ! i" "w = ry_world y" using run(3) by auto
    then show ?thesis using run(1) ok c by simp
  qed
next
  case (other_post key now kind md es res l)
  have ne: "referral_key x \<noteq> key" for x using other_post(2) referral_key_prefix by metis
  have "stored l (referral_key x) = stored (rw_ledger (ry_world y)) (referral_key x)" for x
    using ne [of x] other_post(3) by (cases rule: post_cases [OF ok, of now kind key md es]) auto
  then show ?thesis using other_post post_ok [OF ok other_post(3)] claims_fine_cong [OF c, of "stored l"] by simp
next
  case (other_reverse key now i reason res l)
  have "stored l (referral_key x) = stored (rw_ledger (ry_world y)) (referral_key x)" for x
  proof (cases res)
    case (Inl err)
    then show ?thesis using reverse_error [OF ok, of now i key reason err l] other_reverse(3) by simp
  next
    case (Inr tb)
    obtain t b where "tb = (t, b)" by (cases tb)
    then show ?thesis
      using Inr other_reverse(2,3) reverse_new [OF ok, of key now i reason t b l]
        reverse_replay [OF ok, of key _ now i reason]
      by (cases "stored (rw_ledger (ry_world y)) key") auto
  qed
  then show ?thesis using other_reverse reverse_ok [OF ok other_reverse(3)] claims_fine_cong [OF c, of "stored l"] by simp
qed

lemma referral_steps_fine:
  assumes "(referral_step R s)\<^sup>*\<^sup>* (referral_start l) y" and "rs_creditCoins s = referralCreditCoins R" and "ok l"
    and "\<And>x. stored l (referral_key x) = None"
  shows "claims_fine (stored (rw_ledger (ry_world y))) (rw_repo (ry_world y)) (ry_calls y)"
proof -
  have "ok (rw_ledger (ry_world y)) \<and> claims_fine (stored (rw_ledger (ry_world y))) (rw_repo (ry_world y)) (ry_calls y)"
    using assms(1)
  proof (induction rule: rtranclp_induct)
    case base
    then show ?case using claims_fine_start [of "stored l"] assms(3,4) by (simp add: referral_start_def)
  qed (use referral_step_fine assms(2) in blast)
  then show ?thesis by blast
qed

end

section \<open>Once each\<close>


definition demo_referrals :: "mem_ledger referral_service" where
  "demo_referrals = \<lparr>rs_accountExists = (\<lambda>a. Inr (a = ''r'')), rs_creditCoins = referralCreditCoins mem_ledger_repo\<rparr>"

text \<open>A schedule of new calls (account and code) and of steps of the calls made so far.\<close>

definition referral_do :: "'l referral_service \<Rightarrow> 'l referral_system \<Rightarrow> string \<times> string + nat \<times> time \<Rightarrow> 'l referral_system" where
  "referral_do s y act =
     (case act of
        Inl (x, c) \<Rightarrow>
          (case begin_claim s (rw_repo (ry_world y)) x c of
             (k, m) \<Rightarrow> \<lparr>ry_world = (ry_world y)\<lparr>rw_repo := m\<rparr>, ry_calls = ry_calls y @ [k]\<rparr>)
      | Inr (i, now) \<Rightarrow>
          if i < length (ry_calls y)
          then (case claim_step s now (ry_world y) (ry_calls y ! i) of
                  (k, w) \<Rightarrow> \<lparr>ry_world = w, ry_calls = (ry_calls y)[i := k]\<rparr>)
          else y)"

lemma referral_do_steps: "(referral_step R s)\<^sup>*\<^sup>* y (foldl (referral_do s) y acts)"
proof (induction acts arbitrary: y)
  case (Cons act acts)
  have "referral_do s y act = y \<or> referral_step R s y (referral_do s y act)"
    by (auto simp: referral_do_def split: sum.split prod.split intro: referral_step.call referral_step.run)
  then have "(referral_step R s)\<^sup>*\<^sup>* y (referral_do s y act)" by auto
  then show ?case using Cons.IH [of "referral_do s y act"] by simp
qed simp

text \<open>Two concurrent claims for \<open>n\<close>: the first passes the gate, the second is refused, the first pays
  and records.\<close>

definition demo_claimed :: "mem_ledger referral_system" where
  "demo_claimed = foldl (referral_do demo_referrals) (referral_start demo_ledger)
     [Inl (''n'', ''r''), Inl (''n'', ''r''), Inr (0, 5), Inr (0, 6)]"


text \<open>A restart opens the gate again. Accounts and balances are in the snapshot, redeemed codes
  and idempotency keys are not: an account that had redeemed a code, and would be refused now, can
  redeem another one after a restart, and the ledger pays the reward a second time for it.\<close>

theorem restart_pays_referral_again:
  assumes "rs_creditCoins s = referralCreditCoins mem_ledger_repo" and "ledger_reachable (rw_ledger w)"
    and "has_claimed (rw_repo w) x" and "x \<noteq> c" and "rs_accountExists s c = Inr True"
    and "bal (rw_ledger w) (UserCoinsAccount c, Coin) + 100 < 2 ^ 63"
  shows "ClaimCode s w now x c = (Inl ErrAlreadyClaimed, w) \<and>
    (\<exists>r w'. ClaimCode s \<lparr>rw_repo = NewMemReferrals, rw_ledger = restart (rw_ledger w)\<rparr> later x c = (Inr r, w') \<and>
       bal (rw_ledger w') (UserCoinsAccount c, Coin) = bal (rw_ledger w) (UserCoinsAccount c, Coin) + 100)"
proof -
  let ?l = "restart (rw_ledger w)" and ?es = "reward_entries c RewardCoins"
  have inv0: "ledger_inv (rw_ledger w)" and inv: "ledger_inv ?l"
    using assms(2) ledger_reachable.restarted ledger_reachable_inv by blast+
  have bal: "bal ?l = bal (rw_ledger w)" using inv0 by (simp add: bal_restart ledger_inv_def)
  have free: "tx_by_key ?l (referral_key x) = None" by (simp add: tx_by_key_def restart_simps)
  have ne: "UserCoinsAccount c \<noteq> PlatformLiabilityAccount"
    using platform_accounts(2) user_not_platform(1) [of c] by metis
  have up: "add64 (bal ?l (UserCoinsAccount c, Coin)) 100 = bal ?l (UserCoinsAccount c, Coin) + 100"
    using mem.nonneg_law [OF inv, of "UserCoinsAccount c" Coin] assms(6)
    by (intro add64_id) (simp add: in_i64_def bal)
  have "affordable (bal ?l) ?es"
    using up mem.nonneg_law [OF inv, of "UserCoinsAccount c" Coin]
    by (simp add: affordable_def reward_entries_def RewardCoins_def entry_key_def)
  moreover have "balanced ?es" "?es \<noteq> []" "distinct (map entry_key ?es)"
    using ne by (simp_all add: reward_entries_def balanced_iff entries_in_simps RewardCoins_def neg64_id in_i64_def entry_key_def)
  ultimately obtain t l' where post: "repo_PostTransaction mem_ledger_repo ?l later ''referral_reward'' (referral_key x)
      [(''account_id'', AnyString c)] ?es = (Inr (t, True), l')"
    using mem.affordable_law [OF inv free] by blast
  have "bal l' k = add64 (bal ?l k) (entries_at k ?es)" for k using mem.new_law [OF inv free post] by blast
  moreover have "entries_at (UserCoinsAccount c, Coin) ?es = 100"
    using ne by (simp add: reward_entries_def entries_at_def entry_key_def RewardCoins_def)
  ultimately have "bal l' (UserCoinsAccount c, Coin) = bal (rw_ledger w) (UserCoinsAccount c, Coin) + 100"
    using up bal by simp
  moreover have "\<exists>r w'. ClaimCode s \<lparr>rw_repo = NewMemReferrals, rw_ledger = ?l\<rparr> later x c = (Inr r, w') \<and> rw_ledger w' = l'"
    using assms(1,4,5) post
    by (simp add: ClaimCode_def TryClaim_def has_claimed_def NewMemReferrals_def referralCreditCoins_def RecordReward_def Let_def)
  moreover have "ClaimCode s w now x c = (Inl ErrAlreadyClaimed, w)"
    using assms(3-5) by (simp add: ClaimCode_def TryClaim_def)
  ultimately show ?thesis by metis
qed

lemma restart_pays_referral_again_witness:
  "\<exists>r w'. ClaimCode demo_referrals \<lparr>rw_repo = NewMemReferrals, rw_ledger = restart (rw_ledger (ry_world demo_claimed))\<rparr>
      9 ''n'' ''r'' = (Inr r, w') \<and> bal (rw_ledger w') (UserCoinsAccount ''r'', Coin) = 200"
proof -
  have s: "rs_creditCoins demo_referrals = referralCreditCoins mem_ledger_repo" "rs_accountExists demo_referrals ''r'' = Inr True"
    by (simp_all add: demo_referrals_def)
  have "rw_ledger (ry_world demo_claimed) = snd (PostTransaction demo_ledger 5 ''referral_reward'' (referral_key ''n'')
      [(''account_id'', AnyString ''r'')] (reward_entries ''r'' 100))"
    by code_simp
  then have reach: "ledger_reachable (rw_ledger (ry_world demo_claimed))"
    using ledger_reachable.step [OF demo_reachable ledger_step.post] by simp
  have c: "has_claimed (rw_repo (ry_world demo_claimed)) ''n''"
    "bal (rw_ledger (ry_world demo_claimed)) (UserCoinsAccount ''r'', Coin) = 100"
    by code_simp+
  show ?thesis
    using restart_pays_referral_again [OF s(1) reach c(1) _ s(2), of 8 9] c(2) by simp
qed

end
