(* ===== verification/Match.thy ===== *)
theory Match
  imports Ledger
begin

text \<open>
  Matchmaking: requests, offered candidates and exclusions with their in-memory store
  (\<open>match/match.go\<close>, \<open>match/preferences.go\<close>, \<open>match/mem_repo.go\<close>) and the service
  (\<open>match/matchsvc/service.go\<close>). A function that ranges over a Go map takes the order of that
  iteration as an argument, a rearrangement of the map's entries that may differ from call to call.
  Scores are floats in the code; the only one is 1.
\<close>

section \<open>Data\<close>

datatype request_state = StateSearching | StateMatched | StateCancelled | StateTimeout

text \<open>The empty string is the decision that has not been made.\<close>

datatype match_decision = DecisionNone | DecisionConnect | DecisionSkip | DecisionExpired

datatype exclusion_reason = ExclusionBlocked | ExclusionReported | ExclusionSkippedRecent | ExclusionSafety

record match_preferences =
  mp_GenderPreference :: string
  mp_MinAge :: int
  mp_MaxAge :: int

record match_request =
  mq_ID :: string
  mq_AccountID :: string
  mq_Preferences :: match_preferences
  mq_State :: request_state
  mq_CreatedAt :: time
  mq_ResolvedAt :: time
  mq_MatchedWith :: string

record candidate =
  mc_RequestID :: string
  mc_CandidateID :: string
  mc_Score :: int
  mc_ScoreReasons :: "(string \<times> string) list"
  mc_OfferedAt :: time
  mc_Decision :: match_decision

record exclusion =
  mx_AccountID :: string
  mx_ExcludedID :: string
  mx_Reason :: exclusion_reason
  mx_ExpiresAt :: time

datatype match_error =
    ErrNotMatchable
  | ErrNotAgeAssured
  | ErrRateLimited
  | ErrRequestNotFound
  | ErrNotOwner
  | ErrRequestNotSearching
  | ErrCandidateNotFound
  | ErrBadDecision
  | MatchGateError string

section \<open>The store\<close>

type_synonym mem_match_prefs = "(string \<times> match_preferences) list"

definition GetPreferences :: "mem_match_prefs \<Rightarrow> string \<Rightarrow> match_preferences" where
  "GetPreferences m accountID =
     (case map_of m accountID of
        None \<Rightarrow> \<lparr>mp_GenderPreference = [], mp_MinAge = 0, mp_MaxAge = 0\<rparr>
      | Some prefs \<Rightarrow> prefs)"

definition SetPreferences :: "mem_match_prefs \<Rightarrow> string \<Rightarrow> match_preferences \<Rightarrow> mem_match_prefs" where
  "SetPreferences m accountID prefs = AList.update accountID prefs m"

record mem_match =
  mm_requests :: "(string \<times> match_request) list"
  mm_candidates :: "((string \<times> string) \<times> candidate) list"
  mm_exclusions :: "((string \<times> string) \<times> exclusion) list"
  mm_seq :: nat

text \<open>The orders in which one call meets the entries of the maps.\<close>

record match_iter =
  it_requests :: "(string \<times> match_request) list \<Rightarrow> (string \<times> match_request) list"
  it_candidates :: "((string \<times> string) \<times> candidate) list \<Rightarrow> ((string \<times> string) \<times> candidate) list"

definition iter_ok :: "match_iter \<Rightarrow> bool" where
  "iter_ok it \<longleftrightarrow> (\<forall>m. set (it_requests it m) = set m) \<and> (\<forall>m. set (it_candidates it m) = set m)"

definition NewMemMatch :: mem_match where
  "NewMemMatch = \<lparr>mm_requests = [], mm_candidates = [], mm_exclusions = [], mm_seq = 0\<rparr>"

definition match_name :: "nat \<Rightarrow> string" where
  "match_name n = ''match-'' @ itoaLedger (int n)"

definition MemCreateRequest :: "mem_match \<Rightarrow> time \<Rightarrow> string \<Rightarrow> match_preferences \<Rightarrow> match_request \<times> mem_match" where
  "MemCreateRequest m now accountID prefs =
     (let n = mm_seq m + 1;
          req = \<lparr>mq_ID = match_name n, mq_AccountID = accountID, mq_Preferences = prefs, mq_State = StateSearching,
                 mq_CreatedAt = now, mq_ResolvedAt = 0, mq_MatchedWith = []\<rparr>
      in (req, m\<lparr>mm_seq := n, mm_requests := AList.update (mq_ID req) req (mm_requests m)\<rparr>))"

definition MemGetRequest :: "mem_match \<Rightarrow> string \<Rightarrow> match_error + match_request" where
  "MemGetRequest m i = (case map_of (mm_requests m) i of None \<Rightarrow> Inl ErrRequestNotFound | Some req \<Rightarrow> Inr req)"

definition MemUpdateRequest :: "mem_match \<Rightarrow> match_request \<Rightarrow> (match_error + unit) \<times> mem_match" where
  "MemUpdateRequest m req =
     (case map_of (mm_requests m) (mq_ID req) of
        None \<Rightarrow> (Inl ErrRequestNotFound, m)
      | Some _ \<Rightarrow> (Inr (), m\<lparr>mm_requests := AList.update (mq_ID req) req (mm_requests m)\<rparr>))"

definition SearchingRequests :: "match_iter \<Rightarrow> mem_match \<Rightarrow> string \<Rightarrow> match_request list" where
  "SearchingRequests it m excludeAccountID =
     filter (\<lambda>req. mq_State req = StateSearching \<and> mq_AccountID req \<noteq> excludeAccountID)
       (map snd (it_requests it (mm_requests m)))"

definition MemListHistory :: "match_iter \<Rightarrow> mem_match \<Rightarrow> string \<Rightarrow> match_request list" where
  "MemListHistory it m accountID = filter (\<lambda>req. mq_AccountID req = accountID) (map snd (it_requests it (mm_requests m)))"

definition RecentRequestCount :: "mem_match \<Rightarrow> string \<Rightarrow> time \<Rightarrow> nat" where
  "RecentRequestCount m accountID since =
     length (filter (\<lambda>req. mq_AccountID req = accountID \<and> After (mq_CreatedAt req) since) (map snd (mm_requests m)))"

definition AddCandidate :: "mem_match \<Rightarrow> candidate \<Rightarrow> mem_match" where
  "AddCandidate m c = m\<lparr>mm_candidates := AList.update (mc_RequestID c, mc_CandidateID c) c (mm_candidates m)\<rparr>"

definition MemGetCandidate :: "mem_match \<Rightarrow> string \<Rightarrow> string \<Rightarrow> match_error + candidate" where
  "MemGetCandidate m requestID candidateID =
     (case map_of (mm_candidates m) (requestID, candidateID) of
        None \<Rightarrow> Inl ErrCandidateNotFound
      | Some c \<Rightarrow> Inr c)"

text \<open>The latest undecided offer; among equals the first one met.\<close>

fun best_pending :: "string \<Rightarrow> ((string \<times> string) \<times> candidate) list \<Rightarrow> candidate option \<Rightarrow> candidate option" where
  "best_pending requestID [] best = best"
| "best_pending requestID ((k, c) # cs) best =
     best_pending requestID cs
       (if fst k \<noteq> requestID \<or> mc_Decision c \<noteq> DecisionNone then best
        else (case best of
                None \<Rightarrow> Some c
              | Some b \<Rightarrow> if After (mc_OfferedAt c) (mc_OfferedAt b) then Some c else best))"

definition MemGetPendingCandidate :: "match_iter \<Rightarrow> mem_match \<Rightarrow> string \<Rightarrow> candidate option" where
  "MemGetPendingCandidate it m requestID = best_pending requestID (it_candidates it (mm_candidates m)) None"

definition SetCandidateDecision :: "mem_match \<Rightarrow> string \<Rightarrow> string \<Rightarrow> match_decision \<Rightarrow> (match_error + unit) \<times> mem_match" where
  "SetCandidateDecision m requestID candidateID decision =
     (case map_of (mm_candidates m) (requestID, candidateID) of
        None \<Rightarrow> (Inl ErrCandidateNotFound, m)
      | Some c \<Rightarrow> (Inr (), m\<lparr>mm_candidates := AList.update (requestID, candidateID)
                               (c\<lparr>mc_Decision := decision\<rparr>) (mm_candidates m)\<rparr>))"

text \<open>The loop of \<open>FindMirror\<close>.\<close>

fun find_mirror :: "mem_match \<Rightarrow> string \<Rightarrow> string \<Rightarrow> (string \<times> match_request) list \<Rightarrow> candidate option" where
  "find_mirror m ownerAccount candidateAccountID [] = None"
| "find_mirror m ownerAccount candidateAccountID ((k, req) # rs) =
     (if mq_AccountID req \<noteq> candidateAccountID then find_mirror m ownerAccount candidateAccountID rs
      else (case map_of (mm_candidates m) (mq_ID req, ownerAccount) of
              None \<Rightarrow> find_mirror m ownerAccount candidateAccountID rs
            | Some c \<Rightarrow> Some c))"

definition FindMirror :: "match_iter \<Rightarrow> mem_match \<Rightarrow> string \<Rightarrow> string \<Rightarrow> match_error + candidate option" where
  "FindMirror it m requestID candidateAccountID =
     (case map_of (mm_requests m) requestID of
        None \<Rightarrow> Inl ErrRequestNotFound
      | Some ownerReq \<Rightarrow>
          Inr (find_mirror m (mq_AccountID ownerReq) candidateAccountID (it_requests it (mm_requests m))))"

definition AddExclusion :: "mem_match \<Rightarrow> exclusion \<Rightarrow> mem_match" where
  "AddExclusion m e = m\<lparr>mm_exclusions := AList.update (mx_AccountID e, mx_ExcludedID e) e (mm_exclusions m)\<rparr>"

definition exclusion_in_force :: "mem_match \<Rightarrow> time \<Rightarrow> string \<Rightarrow> string \<Rightarrow> bool" where
  "exclusion_in_force m now a b =
     (case map_of (mm_exclusions m) (a, b) of
        None \<Rightarrow> False
      | Some e \<Rightarrow> \<not> (\<not> IsZero (mx_ExpiresAt e) \<and> After now (mx_ExpiresAt e)))"

definition IsExcluded :: "mem_match \<Rightarrow> string \<Rightarrow> string \<Rightarrow> time \<Rightarrow> bool" where
  "IsExcluded m accountID otherID now \<longleftrightarrow>
     exclusion_in_force m now accountID otherID \<or> exclusion_in_force m now otherID accountID"

definition SkipCount :: "mem_match \<Rightarrow> string \<Rightarrow> time \<Rightarrow> nat" where
  "SkipCount m candidateID since =
     length (remdups (List.map_filter (\<lambda>(k, c).
       if snd k \<noteq> candidateID \<or> mc_Decision c \<noteq> DecisionSkip \<or> Before (mc_OfferedAt c) since then None
       else map_option mq_AccountID (map_of (mm_requests m) (fst k))) (mm_candidates m)))"

section \<open>The service\<close>

definition rateLimitWindow :: duration where "rateLimitWindow = hour"
definition rateLimitMax :: nat where "rateLimitMax = 10"
definition skippedRecentTTL :: duration where "skippedRecentTTL = 24 * hour"
definition repeatOffenderThreshold :: nat where "repeatOffenderThreshold = 5"
definition repeatOffenderWindow :: duration where "repeatOffenderWindow = 24 * hour"
definition repeatOffenderExclusionTTL :: duration where "repeatOffenderExclusionTTL = 24 * hour"

record match_service =
  mv_isMatchable :: "string \<Rightarrow> string + bool"
  mv_ageOK :: "string \<Rightarrow> string + bool"
  mv_isBlocked :: "string \<Rightarrow> string \<Rightarrow> string + bool"

definition preferencesCompatible :: "match_preferences \<Rightarrow> match_preferences \<Rightarrow> bool" where
  "preferencesCompatible a b \<longleftrightarrow> True"

definition match_score :: "match_request \<Rightarrow> match_request \<Rightarrow> int \<times> (string \<times> string) list" where
  "match_score req other =
     (1, [(''basis'', ''first compatible match in pool (no real scoring signal available)'')])"

definition offer :: "mem_match \<Rightarrow> time \<Rightarrow> match_request \<Rightarrow> match_request \<Rightarrow> mem_match" where
  "offer m now req other =
     (let (score, reasons) = match_score req other;
          c1 = \<lparr>mc_RequestID = mq_ID req, mc_CandidateID = mq_AccountID other, mc_Score = score,
                mc_ScoreReasons = reasons, mc_OfferedAt = now, mc_Decision = DecisionNone\<rparr>;
          c2 = \<lparr>mc_RequestID = mq_ID other, mc_CandidateID = mq_AccountID req, mc_Score = score,
                mc_ScoreReasons = reasons, mc_OfferedAt = now, mc_Decision = DecisionNone\<rparr>
      in AddCandidate (AddCandidate m c1) c2)"

text \<open>The loop of \<open>tryMatch\<close> over the pool.\<close>

fun try_pool :: "match_service \<Rightarrow> time \<Rightarrow> match_request \<Rightarrow> match_request list \<Rightarrow> mem_match \<Rightarrow>
    (match_error + unit) \<times> mem_match" where
  "try_pool s now req [] m = (Inr (), m)"
| "try_pool s now req (other # pool) m =
     (if IsExcluded m (mq_AccountID req) (mq_AccountID other) now then try_pool s now req pool m
      else
        (case mv_isBlocked s (mq_AccountID req) (mq_AccountID other) of
           Inl err \<Rightarrow> (Inl (MatchGateError err), m)
         | Inr blocked \<Rightarrow>
             if blocked then try_pool s now req pool m
             else if repeatOffenderThreshold \<le> SkipCount m (mq_AccountID other) (now - repeatOffenderWindow)
             then try_pool s now req pool
               (AddExclusion m \<lparr>mx_AccountID = mq_AccountID req, mx_ExcludedID = mq_AccountID other,
                  mx_Reason = ExclusionSafety, mx_ExpiresAt = now + repeatOffenderExclusionTTL\<rparr>)
             else if \<not> preferencesCompatible (mq_Preferences req) (mq_Preferences other)
             then try_pool s now req pool m
             else (Inr (), offer m now req other)))"

definition tryMatch :: "match_service \<Rightarrow> match_iter \<Rightarrow> mem_match \<Rightarrow> time \<Rightarrow> match_request \<Rightarrow>
    (match_error + unit) \<times> mem_match" where
  "tryMatch s it m now req = try_pool s now req (SearchingRequests it m (mq_AccountID req)) m"

definition MatchCreateRequest :: "match_service \<Rightarrow> match_iter \<Rightarrow> mem_match \<Rightarrow> time \<Rightarrow> string \<Rightarrow> match_preferences \<Rightarrow>
    (match_error + match_request) \<times> mem_match" where
  "MatchCreateRequest s it m now accountID prefs =
     (case mv_isMatchable s accountID of
        Inl err \<Rightarrow> (Inl (MatchGateError err), m)
      | Inr matchable \<Rightarrow>
          if \<not> matchable then (Inl ErrNotMatchable, m)
          else
            (case mv_ageOK s accountID of
               Inl err \<Rightarrow> (Inl (MatchGateError err), m)
             | Inr aged \<Rightarrow>
                 if \<not> aged then (Inl ErrNotAgeAssured, m)
                 else if rateLimitMax \<le> RecentRequestCount m accountID (now - rateLimitWindow)
                 then (Inl ErrRateLimited, m)
                 else
                   (let (req, m) = MemCreateRequest m now accountID prefs
                    in case tryMatch s it m now req of
                         (Inl err, m) \<Rightarrow> (Inl err, m)
                       | (Inr _, m) \<Rightarrow> (MemGetRequest m (mq_ID req), m))))"

text \<open>The tail of \<open>Decide\<close> for a connect.\<close>

definition resolve_match :: "mem_match \<Rightarrow> time \<Rightarrow> match_request \<Rightarrow> string \<Rightarrow> candidate \<Rightarrow>
    (match_error + unit) \<times> mem_match" where
  "resolve_match m now req candidateID mirror =
     (case MemUpdateRequest m (req\<lparr>mq_State := StateMatched, mq_ResolvedAt := now, mq_MatchedWith := candidateID\<rparr>) of
        (Inl err, m) \<Rightarrow> (Inl err, m)
      | (Inr _, m) \<Rightarrow>
          (case MemGetRequest m (mc_RequestID mirror) of
             Inl err \<Rightarrow> (Inr (), m)
           | Inr otherReq \<Rightarrow>
               (Inr (), snd (MemUpdateRequest m
                  (otherReq\<lparr>mq_State := StateMatched, mq_ResolvedAt := now, mq_MatchedWith := mq_AccountID req\<rparr>)))))"

definition Decide :: "match_service \<Rightarrow> match_iter \<Rightarrow> mem_match \<Rightarrow> time \<Rightarrow> string \<Rightarrow> string \<Rightarrow> string \<Rightarrow> match_decision \<Rightarrow>
    (match_error + match_request) \<times> mem_match" where
  "Decide s it m now accountID requestID candidateID decision =
     (if decision \<noteq> DecisionConnect \<and> decision \<noteq> DecisionSkip then (Inl ErrBadDecision, m)
      else
        (case MemGetRequest m requestID of
           Inl err \<Rightarrow> (Inl err, m)
         | Inr req \<Rightarrow>
             if mq_AccountID req \<noteq> accountID then (Inl ErrNotOwner, m)
             else if mq_State req \<noteq> StateSearching then (Inl ErrRequestNotSearching, m)
             else
               (case MemGetCandidate m requestID candidateID of
                  Inl err \<Rightarrow> (Inl err, m)
                | Inr cand \<Rightarrow>
                    if mc_Decision cand \<noteq> DecisionNone then (Inl ErrCandidateNotFound, m)
                    else
                      (case SetCandidateDecision m requestID candidateID decision of
                         (Inl err, m) \<Rightarrow> (Inl err, m)
                       | (Inr _, m) \<Rightarrow>
                           if decision = DecisionSkip
                           then
                             (let m = AddExclusion m \<lparr>mx_AccountID = accountID, mx_ExcludedID = candidateID,
                                    mx_Reason = ExclusionSkippedRecent, mx_ExpiresAt = now + skippedRecentTTL\<rparr>
                              in case tryMatch s it m now req of
                                   (Inl err, m) \<Rightarrow> (Inl err, m)
                                 | (Inr _, m) \<Rightarrow> (MemGetRequest m requestID, m))
                           else
                             (case FindMirror it m requestID candidateID of
                                Inl err \<Rightarrow> (Inl err, m)
                              | Inr None \<Rightarrow> (MemGetRequest m requestID, m)
                              | Inr (Some mirror) \<Rightarrow>
                                  if mc_Decision mirror = DecisionConnect
                                  then (case resolve_match m now req candidateID mirror of
                                          (Inl err, m) \<Rightarrow> (Inl err, m)
                                        | (Inr _, m) \<Rightarrow> (MemGetRequest m requestID, m))
                                  else (MemGetRequest m requestID, m))))))"

definition CancelRequest :: "mem_match \<Rightarrow> time \<Rightarrow> string \<Rightarrow> string \<Rightarrow> (match_error + unit) \<times> mem_match" where
  "CancelRequest m now accountID requestID =
     (case MemGetRequest m requestID of
        Inl err \<Rightarrow> (Inl err, m)
      | Inr req \<Rightarrow>
          if mq_AccountID req \<noteq> accountID then (Inl ErrNotOwner, m)
          else if mq_State req \<noteq> StateSearching then (Inl ErrRequestNotSearching, m)
          else MemUpdateRequest m (req\<lparr>mq_State := StateCancelled, mq_ResolvedAt := now\<rparr>))"

definition MatchGetRequest :: "mem_match \<Rightarrow> string \<Rightarrow> string \<Rightarrow> match_error + match_request" where
  "MatchGetRequest m accountID requestID =
     (case MemGetRequest m requestID of
        Inl err \<Rightarrow> Inl err
      | Inr req \<Rightarrow> if mq_AccountID req \<noteq> accountID then Inl ErrNotOwner else Inr req)"

definition GetPendingCandidate :: "match_iter \<Rightarrow> mem_match \<Rightarrow> string \<Rightarrow> string \<Rightarrow> match_error + candidate option" where
  "GetPendingCandidate it m accountID requestID =
     (case MemGetRequest m requestID of
        Inl err \<Rightarrow> Inl err
      | Inr req \<Rightarrow> if mq_AccountID req \<noteq> accountID then Inl ErrNotOwner else Inr (MemGetPendingCandidate it m requestID))"

definition MatchListHistory :: "match_iter \<Rightarrow> mem_match \<Rightarrow> string \<Rightarrow> match_request list" where
  "MatchListHistory it m accountID = MemListHistory it m accountID"

section \<open>The state over time\<close>

inductive match_step :: "match_service \<Rightarrow> mem_match \<Rightarrow> mem_match \<Rightarrow> bool" for s :: match_service where
  create: "iter_ok it \<Longrightarrow> match_step s m (snd (MatchCreateRequest s it m now a prefs))"
| decide: "iter_ok it \<Longrightarrow> match_step s m (snd (Decide s it m now a i b d))"
| cancel: "match_step s m (snd (CancelRequest m now a i))"

inductive_cases match_stepE: "match_step s m m'"

abbreviation req_at :: "mem_match \<Rightarrow> string \<Rightarrow> match_request option" where
  "req_at m \<equiv> map_of (mm_requests m)"

abbreviation row_at :: "mem_match \<Rightarrow> string \<Rightarrow> string \<Rightarrow> candidate option" where
  "row_at m i b \<equiv> map_of (mm_candidates m) (i, b)"

text \<open>Identifiers: a request is stored under its own, which is one given out before; a row under its
  own pair.\<close>

definition match_ids_ok :: "mem_match \<Rightarrow> bool" where
  "match_ids_ok m \<longleftrightarrow> wf_map (mm_requests m) \<and>
     (\<forall>i req. req_at m i = Some req \<longrightarrow> mq_ID req = i \<and> (\<exists>n \<le> mm_seq m. i = match_name n)) \<and>
     (\<forall>i b c. row_at m i b = Some c \<longrightarrow> mc_RequestID c = i \<and> mc_CandidateID c = b)"

definition connected :: "mem_match \<Rightarrow> string \<Rightarrow> string \<Rightarrow> bool" where
  "connected m i b \<longleftrightarrow> (\<exists>c. row_at m i b = Some c \<and> mc_Decision c = DecisionConnect)"

text \<open>Behind every match stand two decisions to connect: that of the request, and that of a request
  of the account it was matched with, which is matched too.\<close>

definition both_connected :: "mem_match \<Rightarrow> match_request \<Rightarrow> bool" where
  "both_connected m req \<longleftrightarrow> connected m (mq_ID req) (mq_MatchedWith req) \<and>
     (\<exists>j other. req_at m j = Some other \<and> mq_AccountID other = mq_MatchedWith req \<and>
        mq_State other = StateMatched \<and> connected m j (mq_AccountID req))"

definition match_inv :: "mem_match \<Rightarrow> bool" where
  "match_inv m \<longleftrightarrow> match_ids_ok m \<and>
     (\<forall>i req. req_at m i = Some req \<longrightarrow> mq_State req = StateMatched \<longrightarrow> both_connected m req)"

lemma match_name_inj [simp]: "match_name n = match_name k \<longleftrightarrow> n = k"
  by (simp add: match_name_def itoaLedger_inj)

lemma match_inv_new: "match_inv NewMemMatch"
  by (simp add: match_inv_def match_ids_ok_def NewMemMatch_def)

lemma AddExclusion_other [simp]:
  "mm_requests (AddExclusion m e) = mm_requests m" "mm_candidates (AddExclusion m e) = mm_candidates m"
  "mm_seq (AddExclusion m e) = mm_seq m"
  by (simp_all add: AddExclusion_def)

lemma AddCandidate_other [simp]:
  "mm_requests (AddCandidate m c) = mm_requests m" "mm_seq (AddCandidate m c) = mm_seq m"
  "mm_exclusions (AddCandidate m c) = mm_exclusions m"
  "row_at (AddCandidate m c) i b = (if (i, b) = (mc_RequestID c, mc_CandidateID c) then Some c else row_at m i b)"
  by (auto simp: AddCandidate_def)

lemma offer_other [simp]:
  "mm_requests (offer m now req other) = mm_requests m" "mm_seq (offer m now req other) = mm_seq m"
  "mm_exclusions (offer m now req other) = mm_exclusions m"
  by (simp_all add: offer_def match_score_def)

text \<open>Offering changes only rows of the request and of one of the pool.\<close>

lemma try_pool_rows:
  assumes "try_pool s now req pool m = (res, m')"
  shows "mm_requests m' = mm_requests m \<and> mm_seq m' = mm_seq m \<and>
    (mm_candidates m' = mm_candidates m \<or>
     (\<exists>other \<in> set pool. mm_candidates m' = mm_candidates (offer m now req other)))"
  using assms
proof (induction s now req pool m rule: try_pool.induct)
  case (2 s now req other pool m)
  have cong: "mm_candidates (offer (AddExclusion m e) now req other') = mm_candidates (offer m now req other')" for e other'
    by (simp add: offer_def match_score_def AddCandidate_def)
  show ?case
    using 2 by (auto simp: cong preferencesCompatible_def split: if_splits sum.splits)
qed simp

lemma try_pool_effect:
  assumes "try_pool s now req pool m = (res, m')"
  shows "mm_requests m' = mm_requests m \<and> mm_seq m' = mm_seq m \<and>
    (\<forall>i b. i \<noteq> mq_ID req \<longrightarrow> i \<notin> mq_ID ` set pool \<longrightarrow> row_at m' i b = row_at m i b) \<and>
    (\<forall>i b c. row_at m' i b = Some c \<longrightarrow> row_at m i b = Some c \<or> mc_RequestID c = i \<and> mc_CandidateID c = b)"
  using try_pool_rows [OF assms] by (auto simp: offer_def match_score_def split: if_splits)

lemma tryMatch_inv:
  assumes inv: "match_inv m" and it: "iter_ok it"
    and req: "req_at m (mq_ID req) = Some req" "mq_State req = StateSearching"
    and t: "tryMatch s it m now req = (res, m')"
  shows "match_inv m' \<and> mm_requests m' = mm_requests m"
proof -
  let ?pool = "SearchingRequests it m (mq_AccountID req)"
  have wf: "wf_map (mm_requests m)" using inv by (simp add: match_inv_def match_ids_ok_def)
  have e: "mm_requests m' = mm_requests m" "mm_seq m' = mm_seq m"
    "\<And>i b. i \<noteq> mq_ID req \<Longrightarrow> i \<notin> mq_ID ` set ?pool \<Longrightarrow> row_at m' i b = row_at m i b"
    "\<And>i b c. row_at m' i b = Some c \<Longrightarrow> row_at m i b = Some c \<or> mc_RequestID c = i \<and> mc_CandidateID c = b"
    using try_pool_effect [OF t [unfolded tryMatch_def]] by auto
  have pool: "mq_State q = StateSearching \<and> req_at m (mq_ID q) = Some q" if p: "q \<in> set ?pool" for q
  proof -
    obtain k where "(k, q) \<in> set (mm_requests m)" "mq_State q = StateSearching"
      using p it by (auto simp: SearchingRequests_def iter_ok_def)
    then show ?thesis using wf_map_ranI [OF wf, of k q] inv by (auto simp: match_inv_def match_ids_ok_def)
  qed
  have kept: "row_at m' i b = row_at m i b" if "req_at m i = Some q" "mq_State q = StateMatched" for i q b
  proof (rule e(3))
    show "i \<noteq> mq_ID req" using that req by auto
    show "i \<notin> mq_ID ` set ?pool" using that by (auto dest!: pool)
  qed
  have ids: "\<And>i q. req_at m i = Some q \<Longrightarrow> mq_ID q = i" using inv by (auto simp: match_inv_def match_ids_ok_def)
  have "both_connected m' q" if "req_at m i = Some q" "mq_State q = StateMatched" for i q
  proof -
    have "both_connected m q" using inv that by (simp add: match_inv_def)
    then show ?thesis
      using kept [OF that] kept ids [OF that(1)] unfolding both_connected_def connected_def e(1) by metis
  qed
  moreover have "match_ids_ok m'"
    using inv e(4) by (auto simp: match_inv_def match_ids_ok_def e(1,2)) blast+
  ultimately show ?thesis by (simp add: match_inv_def e(1))
qed

text \<open>Storing a request that is not matched, under a key no match rests on.\<close>

lemma match_inv_unmatched:
  assumes inv: "match_inv m" and new: "mq_State req \<noteq> StateMatched"
    and old: "\<And>q. req_at m (mq_ID req) = Some q \<Longrightarrow> mq_State q \<noteq> StateMatched"
    and n: "mm_seq m \<le> n" "\<exists>k \<le> n. mq_ID req = match_name k"
  shows "match_inv (m\<lparr>mm_seq := n, mm_requests := AList.update (mq_ID req) req (mm_requests m)\<rparr>)"
proof -
  let ?m = "m\<lparr>mm_seq := n, mm_requests := AList.update (mq_ID req) req (mm_requests m)\<rparr>"
  have "both_connected ?m q" if "req_at ?m i = Some q" "mq_State q = StateMatched" for i q
  proof -
    have "i \<noteq> mq_ID req" using that new by auto
    then have "both_connected m q" using inv that by (simp add: match_inv_def)
    then obtain j other where c: "connected m (mq_ID q) (mq_MatchedWith q)" "req_at m j = Some other"
        "mq_AccountID other = mq_MatchedWith q" "mq_State other = StateMatched" "connected m j (mq_AccountID q)"
      by (auto simp: both_connected_def)
    then have "j \<noteq> mq_ID req" using old by auto
    then show ?thesis using c by (auto simp: both_connected_def connected_def)
  qed
  moreover have "match_ids_ok ?m"
    using inv n unfolding match_inv_def match_ids_ok_def by (auto dest: le_trans) (meson le_trans)
  ultimately show ?thesis by (simp add: match_inv_def)
qed

lemma match_ids_ok_update:
  assumes "match_ids_ok m" and "req_at m i = Some q" and "mq_ID req = i"
  shows "match_ids_ok (m\<lparr>mm_requests := AList.update i req (mm_requests m)\<rparr>)"
  using assms by (auto simp: match_ids_ok_def)

lemma find_mirror_found:
  assumes "find_mirror m owner b rs = Some c"
  shows "\<exists>(k, q) \<in> set rs. mq_AccountID q = b \<and> row_at m (mq_ID q) owner = Some c"
  using assms by (induction m owner b rs rule: find_mirror.induct) (auto split: if_splits option.splits)

lemma match_inv_AddExclusion: "match_inv (AddExclusion m e) \<longleftrightarrow> match_inv m"
proof -
  have "both_connected (AddExclusion m e) q \<longleftrightarrow> both_connected m q" for q
    by (simp add: both_connected_def connected_def)
  then show ?thesis by (simp add: match_inv_def match_ids_ok_def)
qed

lemma SetCandidateDecision_effect:
  assumes "row_at m i b = Some c"
  shows "SetCandidateDecision m i b d =
    (Inr (), m\<lparr>mm_candidates := AList.update (i, b) (c\<lparr>mc_Decision := d\<rparr>) (mm_candidates m)\<rparr>)"
  using assms by (simp add: SetCandidateDecision_def)

text \<open>A decision on an offer of a searching request touches no match.\<close>

lemma match_inv_decided:
  assumes inv: "match_inv m" and req: "req_at m i = Some req" "mq_State req = StateSearching"
    and c: "row_at m i b = Some c"
  shows "match_inv (m\<lparr>mm_candidates := AList.update (i, b) (c\<lparr>mc_Decision := d\<rparr>) (mm_candidates m)\<rparr>)"
proof -
  let ?m = "m\<lparr>mm_candidates := AList.update (i, b) (c\<lparr>mc_Decision := d\<rparr>) (mm_candidates m)\<rparr>"
  have con: "connected ?m j a = connected m j a" if "j \<noteq> i" for j a
    using that by (simp add: connected_def)
  have "both_connected ?m q" if "req_at m j = Some q" "mq_State q = StateMatched" for j q
  proof -
    have "mq_ID q = j" and b: "both_connected m q" using inv that by (auto simp: match_inv_def match_ids_ok_def)
    moreover have "j \<noteq> i" using that req by auto
    moreover have "k \<noteq> i" if "req_at m k = Some other" "mq_State other = StateMatched" for k other using that req by auto
    ultimately have "mq_ID q \<noteq> i" and other: "\<And>k r. req_at m k = Some r \<Longrightarrow> mq_State r = StateMatched \<Longrightarrow> k \<noteq> i" by auto
    obtain k r where r: "connected m (mq_ID q) (mq_MatchedWith q)" "req_at m k = Some r"
        "mq_AccountID r = mq_MatchedWith q" "mq_State r = StateMatched" "connected m k (mq_AccountID q)"
      using b by (auto simp: both_connected_def)
    have "connected ?m (mq_ID q) (mq_MatchedWith q)" "connected ?m k (mq_AccountID q)"
      using r con \<open>mq_ID q \<noteq> i\<close> other [OF r(2,4)] by simp_all
    then show ?thesis using r(2-4) by (auto simp: both_connected_def)
  qed
  moreover have "match_ids_ok ?m"
    using inv c by (auto simp: match_inv_def match_ids_ok_def)
  ultimately show ?thesis by (simp add: match_inv_def)
qed

text \<open>Only a decision of the owner of a searching request, on an offer still open, has an effect; its two
  branches.\<close>

lemma Decide_refused:
  assumes "\<nexists>req c. req_at m i = Some req \<and> mq_AccountID req = a \<and> mq_State req = StateSearching \<and>
      row_at m i b = Some c \<and> mc_Decision c = DecisionNone \<and> (d = DecisionConnect \<or> d = DecisionSkip)"
  shows "snd (Decide s it m now a i b d) = m"
proof (cases "req_at m i")
  case (Some req)
  show ?thesis
  proof (cases "row_at m i b")
    case None
    then show ?thesis using Some by (simp add: Decide_def MemGetRequest_def [of m] MemGetCandidate_def)
  next
    case (Some c)
    then have "d \<noteq> DecisionConnect \<and> d \<noteq> DecisionSkip \<or> mq_AccountID req \<noteq> a \<or> mq_State req \<noteq> StateSearching \<or>
        mc_Decision c \<noteq> DecisionNone"
      using assms \<open>req_at m i = Some req\<close> by blast
    then show ?thesis
      using Some \<open>req_at m i = Some req\<close>
      unfolding Decide_def by (auto simp: MemGetRequest_def [of m] MemGetCandidate_def)
  qed
qed (simp add: Decide_def MemGetRequest_def)

lemma Decide_skip:
  assumes "req_at m i = Some req" and "mq_AccountID req = a" and "mq_State req = StateSearching"
    and "row_at m i b = Some c" and "mc_Decision c = DecisionNone"
  shows "Decide s it m now a i b DecisionSkip =
    (case tryMatch s it (AddExclusion
            (m\<lparr>mm_candidates := AList.update (i, b) (c\<lparr>mc_Decision := DecisionSkip\<rparr>) (mm_candidates m)\<rparr>)
            \<lparr>mx_AccountID = a, mx_ExcludedID = b, mx_Reason = ExclusionSkippedRecent,
              mx_ExpiresAt = now + skippedRecentTTL\<rparr>) now req of
       (Inl err, m) \<Rightarrow> (Inl err, m)
     | (Inr _, m) \<Rightarrow> (MemGetRequest m i, m))"
  using assms by (simp add: Decide_def MemGetRequest_def [of m] MemGetCandidate_def SetCandidateDecision_def)

lemma Decide_connect:
  assumes "req_at m i = Some req" and "mq_AccountID req = a" and "mq_State req = StateSearching"
    and "row_at m i b = Some c" and "mc_Decision c = DecisionNone"
    and "m1 = m\<lparr>mm_candidates := AList.update (i, b) (c\<lparr>mc_Decision := DecisionConnect\<rparr>) (mm_candidates m)\<rparr>"
  shows "Decide s it m now a i b DecisionConnect =
    (case find_mirror m1 a b (it_requests it (mm_requests m1)) of
       None \<Rightarrow> (MemGetRequest m1 i, m1)
     | Some mirror \<Rightarrow>
         if mc_Decision mirror = DecisionConnect
         then (case resolve_match m1 now req b mirror of
                 (Inl err, m) \<Rightarrow> (Inl err, m)
               | (Inr _, m) \<Rightarrow> (MemGetRequest m i, m))
         else (MemGetRequest m1 i, m1))"
  unfolding assms(6) using assms(1-5)
  by (simp add: Decide_def MemGetRequest_def [of m] MemGetCandidate_def SetCandidateDecision_def FindMirror_def
      split: option.split)

text \<open>What resolving does: both requests become matched, with each other's accounts.\<close>

lemma resolve_match_effect:
  assumes "req_at m (mq_ID req) = Some q" and "req_at m (mc_RequestID mirror) = Some other"
    and "mc_RequestID mirror \<noteq> mq_ID req" and "mq_ID other = mc_RequestID mirror"
  shows "resolve_match m now req b mirror = (Inr (), m\<lparr>mm_requests :=
    AList.update (mc_RequestID mirror)
      (other\<lparr>mq_State := StateMatched, mq_ResolvedAt := now, mq_MatchedWith := mq_AccountID req\<rparr>)
      (AList.update (mq_ID req) (req\<lparr>mq_State := StateMatched, mq_ResolvedAt := now, mq_MatchedWith := b\<rparr>)
        (mm_requests m))\<rparr>)"
  using assms by (simp add: resolve_match_def MemUpdateRequest_def MemGetRequest_def)

lemma resolve_match_self:
  assumes "req_at m (mq_ID req) = Some q" and "mc_RequestID mirror = mq_ID req" and "mq_AccountID req = b"
  shows "req_at (snd (resolve_match m now req b mirror)) =
      (req_at m)(mq_ID req \<mapsto> req\<lparr>mq_State := StateMatched, mq_ResolvedAt := now, mq_MatchedWith := b\<rparr>)"
    and "mm_candidates (snd (resolve_match m now req b mirror)) = mm_candidates m"
    and "mm_seq (snd (resolve_match m now req b mirror)) = mm_seq m"
    and "wf_map (mm_requests m) \<Longrightarrow> wf_map (mm_requests (snd (resolve_match m now req b mirror)))"
  using assms by (auto simp: resolve_match_def MemUpdateRequest_def MemGetRequest_def)

lemma match_inv_resolve:
  assumes inv: "match_inv m" and req: "req_at m i = Some req" and mine: "connected m i b"
    and mirror: "mc_RequestID mirror = j" "req_at m j = Some other" "mq_AccountID other = b"
      "connected m j (mq_AccountID req)"
  shows "match_inv (snd (resolve_match m now req b mirror))"
proof -
  let ?m = "snd (resolve_match m now req b mirror)"
  have ids: "match_ids_ok m" and id: "\<And>k q. req_at m k = Some q \<Longrightarrow> mq_ID q = k"
    using inv by (auto simp: match_inv_def match_ids_ok_def)
  let ?req = "req\<lparr>mq_State := StateMatched, mq_ResolvedAt := now, mq_MatchedWith := b\<rparr>"
  let ?other = "other\<lparr>mq_State := StateMatched, mq_ResolvedAt := now, mq_MatchedWith := mq_AccountID req\<rparr>"
  have at: "req_at ?m = (req_at m)(i \<mapsto> ?req, j \<mapsto> ?other)" and rows: "mm_candidates ?m = mm_candidates m"
    and seq: "mm_seq ?m = mm_seq m" and wf: "wf_map (mm_requests ?m)"
  proof -
    have w: "wf_map (mm_requests m)" using ids by (simp add: match_ids_ok_def)
    show "req_at ?m = (req_at m)(i \<mapsto> ?req, j \<mapsto> ?other)" "mm_candidates ?m = mm_candidates m"
      "mm_seq ?m = mm_seq m" "wf_map (mm_requests ?m)"
      using resolve_match_effect [of m req req mirror other now b] resolve_match_self [of m req req mirror b now]
        req mirror id w by (cases "j = i"; auto)+
  qed
  have con: "connected ?m = connected m" by (simp add: connected_def rows fun_eq_iff)
  have acc: "\<exists>q'. req_at ?m k = Some q' \<and> mq_AccountID q' = mq_AccountID q \<and> (mq_State q = StateMatched \<longrightarrow> mq_State q' = StateMatched)"
    if "req_at m k = Some q" for k q
    using that req mirror(2) by (auto simp: at)
  have "both_connected ?m q" if q: "req_at ?m k = Some q" "mq_State q = StateMatched" for k q
  proof -
    consider "k = j" "q = ?other" | "k \<noteq> j" "k = i" "q = ?req" | "k \<noteq> j" "k \<noteq> i" "req_at m k = Some q"
      using q(1) by (auto simp: at split: if_splits)
    then show ?thesis
    proof cases
      case 1
      have "\<exists>r. req_at ?m i = Some r \<and> mq_AccountID r = mq_AccountID req \<and> mq_State r = StateMatched"
        using req mirror(2) by (auto simp: at)
      then show ?thesis using 1 mine mirror id [OF mirror(2)] by (auto simp: both_connected_def con)
    next
      case 2
      have "req_at ?m j = Some ?other" by (simp add: at)
      then show ?thesis
        unfolding both_connected_def con using 2 mine mirror id [OF req] by (intro conjI exI [of _ j]) auto
    next
      case 3
      then have "both_connected m q" using inv q(2) by (simp add: match_inv_def)
      then show ?thesis unfolding both_connected_def con using acc by metis
    qed
  qed
  moreover have "match_ids_ok ?m"
    using ids req mirror(2) wf by (auto simp: match_ids_ok_def at rows seq)
  ultimately show ?thesis by (simp add: match_inv_def)
qed

lemma match_step_inv:
  assumes "match_step s m m'" and inv: "match_inv m"
  shows "match_inv m'"
  using assms(1)
proof cases
  case (create it now a prefs)
  obtain req m1 where c: "MemCreateRequest m now a prefs = (req, m1)" by (cases "MemCreateRequest m now a prefs")
  then have r: "req_at m1 (mq_ID req) = Some req" "mq_State req = StateSearching"
    and m1: "m1 = m\<lparr>mm_seq := mm_seq m + 1, mm_requests := AList.update (mq_ID req) req (mm_requests m)\<rparr>"
    and i: "mq_ID req = match_name (mm_seq m + 1)"
    by (auto simp: MemCreateRequest_def Let_def)
  have "req_at m (mq_ID req) = None"
    using inv i by (cases "req_at m (mq_ID req)") (fastforce simp: match_inv_def match_ids_ok_def)+
  then have inv1: "match_inv m1"
    unfolding m1 using r(2) i by (intro match_inv_unmatched [OF inv]) auto
  obtain res m2 where t: "tryMatch s it m1 now req = (res, m2)" by (cases "tryMatch s it m1 now req")
  note inv2 = tryMatch_inv [OF inv1 create(2) r t]
  then show ?thesis
    using create(1) inv c t
    by (auto simp: MatchCreateRequest_def Let_def split: if_splits sum.splits)
next
  case (decide it now a i b d)
  show ?thesis
  proof (cases "\<exists>req c. req_at m i = Some req \<and> mq_AccountID req = a \<and> mq_State req = StateSearching \<and>
      row_at m i b = Some c \<and> mc_Decision c = DecisionNone \<and> (d = DecisionConnect \<or> d = DecisionSkip)")
    case False
    then show ?thesis using decide(1) inv by (simp add: Decide_refused)
  next
    case True
    then obtain req c where req: "req_at m i = Some req" "mq_AccountID req = a" "mq_State req = StateSearching"
      and c: "row_at m i b = Some c" "mc_Decision c = DecisionNone" and d: "d = DecisionConnect \<or> d = DecisionSkip"
      by blast
    let ?m1 = "m\<lparr>mm_candidates := AList.update (i, b) (c\<lparr>mc_Decision := d\<rparr>) (mm_candidates m)\<rparr>"
    have id: "mq_ID req = i" using inv req(1) by (auto simp: match_inv_def match_ids_ok_def)
    have inv1: "match_inv ?m1" by (rule match_inv_decided [OF inv req(1,3) c(1)])
    show ?thesis
    proof (cases "d = DecisionSkip")
      case True
      let ?m2 = "AddExclusion ?m1 \<lparr>mx_AccountID = a, mx_ExcludedID = b, mx_Reason = ExclusionSkippedRecent,
        mx_ExpiresAt = now + skippedRecentTTL\<rparr>"
      have "match_inv ?m2" using inv1 by (simp only: match_inv_AddExclusion)
      moreover obtain res m3 where t: "tryMatch s it ?m2 now req = (res, m3)" by (cases "tryMatch s it ?m2 now req")
      ultimately have "match_inv m3"
        using tryMatch_inv [of ?m2 it req s now res m3] decide(2) req id by simp
      moreover have "m' = m3"
        using decide(1) t True by (simp add: Decide_skip [OF req c] split: sum.split)
      ultimately show ?thesis by simp
    next
      case False
      then have d': "d = DecisionConnect" using d by blast
      let ?rs = "it_requests it (mm_requests ?m1)"
      show ?thesis
      proof (cases "find_mirror ?m1 a b ?rs")
        case None
        then show ?thesis using decide(1) d' inv1 by (simp add: Decide_connect [OF req c refl])
      next
        case (Some mirror)
        then obtain k q where q: "(k, q) \<in> set ?rs" "mq_AccountID q = b" "row_at ?m1 (mq_ID q) a = Some mirror"
          using find_mirror_found by blast
        have wf: "wf_map (mm_requests ?m1)"
          and ids: "\<And>k q. req_at ?m1 k = Some q \<Longrightarrow> mq_ID q = k"
          and rids: "\<And>k b c. row_at ?m1 k b = Some c \<Longrightarrow> mc_RequestID c = k"
          using inv1 unfolding match_inv_def match_ids_ok_def by blast+
        have "(k, q) \<in> set (mm_requests ?m1)" using q(1) decide(2) by (simp add: iter_ok_def)
        then have q'1: "req_at ?m1 k = Some q" using wf_map_ranI [OF wf] by blast
        note q' = q'1 ids [OF q'1] rids [OF q(3), unfolded ids [OF q'1]]
        have "match_inv (snd (resolve_match ?m1 now req b mirror))" if "mc_Decision mirror = DecisionConnect"
        proof (rule match_inv_resolve [OF inv1 _ _ q'(3,1) q(2)])
          show "req_at ?m1 i = Some req" using req by simp
          show "connected ?m1 i b" using d' by (simp add: connected_def)
          show "connected ?m1 k (mq_AccountID req)" using q(3) q'(2) that req(2) by (auto simp: connected_def)
        qed
        then show ?thesis
          using decide(1) d' inv1 Some
          by (cases "resolve_match ?m1 now req b mirror") (auto simp: Decide_connect [OF req c refl] split: sum.split)
      qed
    qed
  qed
next
  case (cancel now a i)
  show ?thesis
  proof (cases "\<exists>req. req_at m i = Some req \<and> mq_AccountID req = a \<and> mq_State req = StateSearching")
    case True
    then obtain req where req: "req_at m i = Some req" "mq_AccountID req = a" "mq_State req = StateSearching" by blast
    then have id: "mq_ID req = i" "\<exists>n \<le> mm_seq m. i = match_name n" using inv by (auto simp: match_inv_def match_ids_ok_def)
    let ?q = "req\<lparr>mq_State := StateCancelled, mq_ResolvedAt := now\<rparr>"
    have "match_inv (m\<lparr>mm_seq := mm_seq m, mm_requests := AList.update (mq_ID ?q) ?q (mm_requests m)\<rparr>)"
      using req id by (intro match_inv_unmatched [OF inv]) auto
    moreover have "m' = m\<lparr>mm_seq := mm_seq m, mm_requests := AList.update (mq_ID ?q) ?q (mm_requests m)\<rparr>"
      using cancel req id by (simp add: CancelRequest_def MemGetRequest_def MemUpdateRequest_def)
    ultimately show ?thesis by simp
  next
    case False
    then show ?thesis
      using cancel inv by (auto simp: CancelRequest_def MemGetRequest_def split: option.splits)
  qed
qed

lemma match_steps_inv: "(match_step s)\<^sup>*\<^sup>* m m' \<Longrightarrow> match_inv m \<Longrightarrow> match_inv m'"
  by (induction rule: rtranclp_induct) (auto intro: match_step_inv)

section \<open>Matches are mutual\<close>

text \<open>Nobody is matched without two decisions to connect. After any sequence of requests,
  decisions and cancellations by anyone, with maps iterated in any order, a matched request carries
  its owner's decision to connect with the account it names, and that account has a matched request
  of its own which carries its decision to connect with the owner.\<close>

theorem match_needs_both:
  assumes "(match_step s)\<^sup>*\<^sup>* NewMemMatch m" and "MemGetRequest m i = Inr req" and "mq_State req = StateMatched"
  shows "connected m i (mq_MatchedWith req) \<and>
    (\<exists>j other. MemGetRequest m j = Inr other \<and> mq_AccountID other = mq_MatchedWith req \<and>
       mq_State other = StateMatched \<and> connected m j (mq_AccountID req))"
proof -
  have inv: "match_inv m" using match_steps_inv [OF assms(1) match_inv_new] .
  have "req_at m i = Some req" using assms(2) by (simp add: MemGetRequest_def split: option.splits)
  then have "both_connected m req" "mq_ID req = i" using inv assms(3) by (auto simp: match_inv_def match_ids_ok_def)
  then show ?thesis by (force simp: both_connected_def MemGetRequest_def)
qed

section \<open>Whom a late connect overrides\<close>

lemma find_mirror_only:
  assumes "\<exists>q. (j, q) \<in> set rs \<and> mq_AccountID q = b"
    and "\<And>k q. (k, q) \<in> set rs \<Longrightarrow> mq_AccountID q = b \<Longrightarrow>
      row_at m (mq_ID q) owner = (if k = j then Some c else None)"
  shows "find_mirror m owner b rs = Some c"
  using assms
proof (induction rs)
  case (Cons kq rs)
  obtain k q where kq: "kq = (k, q)" by (cases kq)
  show ?case
  proof (cases "mq_AccountID q = b \<and> k = j")
    case True
    then show ?thesis using Cons.prems(2) [of k q] by (simp add: kq)
  next
    case False
    then have "\<exists>q. (j, q) \<in> set rs \<and> mq_AccountID q = b" using Cons.prems(1) kq by auto
    then have "find_mirror m owner b rs = Some c" using Cons.IH Cons.prems(2) by simp
    then show ?thesis using False Cons.prems(2) [of k q] by (auto simp: kq)
  qed
qed simp

text \<open>Consent can be stale. A connect is completed by any request of the candidate that carries a
  connect for this account, whatever has become of that request since: one that was cancelled, or
  that is already matched with somebody else, is overwritten to be matched with this account, and
  the somebody else keeps a match that is no longer returned.\<close>

theorem stale_connect_overrides:
  assumes "match_inv m" and "req_at m i = Some req" and "mq_AccountID req = a" and "mq_State req = StateSearching"
    and "row_at m i b = Some c" and "mc_Decision c = DecisionNone" and "iter_ok it"
    and "req_at m j = Some other" and "mq_AccountID other = b" and "j \<noteq> i" and "connected m j a"
    and "\<And>k q. req_at m k = Some q \<Longrightarrow> mq_AccountID q = b \<Longrightarrow> k \<noteq> j \<Longrightarrow> row_at m k a = None"
  shows "\<exists>m' req'. Decide s it m now a i b DecisionConnect = (Inr req', m') \<and> mq_MatchedWith req' = b \<and>
    req_at m' j = Some (other\<lparr>mq_State := StateMatched, mq_ResolvedAt := now, mq_MatchedWith := a\<rparr>) \<and>
    (\<forall>k. k \<noteq> i \<longrightarrow> k \<noteq> j \<longrightarrow> req_at m' k = req_at m k)"
proof -
  let ?m1 = "m\<lparr>mm_candidates := AList.update (i, b) (c\<lparr>mc_Decision := DecisionConnect\<rparr>) (mm_candidates m)\<rparr>"
  let ?rs = "it_requests it (mm_requests ?m1)"
  have wf: "wf_map (mm_requests m)" and id: "\<And>k q. req_at m k = Some q \<Longrightarrow> mq_ID q = k"
    and rid: "\<And>k b c. row_at m k b = Some c \<Longrightarrow> mc_RequestID c = k"
    using assms(1) unfolding match_inv_def match_ids_ok_def by blast+
  obtain mirror where mirror: "row_at m j a = Some mirror" "mc_Decision mirror = DecisionConnect"
    using assms(11) by (auto simp: connected_def)
  have "(j, other) \<in> set ?rs" using assms(7,8) by (simp add: iter_ok_def map_of_SomeD)
  moreover have only: "row_at ?m1 (mq_ID q) a = (if k = j then Some mirror else None)"
    if "(k, q) \<in> set ?rs" "mq_AccountID q = b" for k q
  proof -
    have k: "req_at m k = Some q" using that(1) assms(7) wf_map_ranI [OF wf] by (simp add: iter_ok_def)
    have "row_at m k a = None" if "k \<noteq> j" using assms(12) [OF k \<open>mq_AccountID q = b\<close> that] .
    moreover have "row_at ?m1 k a = row_at m k a" if "k \<noteq> i \<or> a \<noteq> b" using that by auto
    moreover have "k \<noteq> i \<or> a \<noteq> b"
    proof (rule ccontr)
      assume "\<not> (k \<noteq> i \<or> a \<noteq> b)"
      then show False using assms(5,10) \<open>k \<noteq> j \<Longrightarrow> row_at m k a = None\<close> by auto
    qed
    ultimately show ?thesis using id [OF k] mirror(1) by auto
  qed
  ultimately have found: "find_mirror ?m1 a b ?rs = Some mirror"
    using assms(9) by (intro find_mirror_only [where j = j]) auto
  have rid': "mc_RequestID mirror = j" using rid [OF mirror(1)] .
  have "resolve_match ?m1 now req b mirror = (Inr (), ?m1\<lparr>mm_requests :=
    AList.update j (other\<lparr>mq_State := StateMatched, mq_ResolvedAt := now, mq_MatchedWith := a\<rparr>)
      (AList.update i (req\<lparr>mq_State := StateMatched, mq_ResolvedAt := now, mq_MatchedWith := b\<rparr>) (mm_requests m))\<rparr>)"
    using resolve_match_effect [of ?m1 req req mirror other now b] assms(2,3,8,10) rid' id [OF assms(2)] id [OF assms(8)]
    by simp
  then show ?thesis
    using found mirror(2) assms(10) by (simp add: Decide_connect [OF assms(2-6) refl] MemGetRequest_def)
qed

text \<open>Three accounts: \<open>b\<close> is offered \<open>a\<close> and \<open>c\<close>, connects with both, is matched with \<open>c\<close>, and then
  \<open>a\<close> connects with \<open>b\<close>.\<close>

definition demo_match_service :: match_service where
  "demo_match_service = \<lparr>mv_isMatchable = (\<lambda>a. Inr True), mv_ageOK = (\<lambda>a. Inr True), mv_isBlocked = (\<lambda>a b. Inr False)\<rparr>"

definition demo_iter :: match_iter where
  "demo_iter = \<lparr>it_requests = (\<lambda>m. m), it_candidates = (\<lambda>m. m)\<rparr>"

definition no_prefs :: match_preferences where
  "no_prefs = \<lparr>mp_GenderPreference = [], mp_MinAge = 0, mp_MaxAge = 0\<rparr>"

definition demo_offered :: mem_match where
  "demo_offered =
     (let m = NewMemMatch;
          m = snd (MatchCreateRequest demo_match_service demo_iter m 1 ''b'' no_prefs);
          m = snd (MatchCreateRequest demo_match_service demo_iter m 2 ''a'' no_prefs);
          m = snd (MatchCreateRequest demo_match_service demo_iter m 3 ''c'' no_prefs)
      in m)"

definition demo_matched :: mem_match where
  "demo_matched =
     (let m = demo_offered;
          m = snd (Decide demo_match_service demo_iter m 4 ''b'' ''match-1'' ''a'' DecisionConnect);
          m = snd (Decide demo_match_service demo_iter m 5 ''b'' ''match-1'' ''c'' DecisionConnect);
          m = snd (Decide demo_match_service demo_iter m 6 ''c'' ''match-3'' ''b'' DecisionConnect)
      in m)"

lemma demo_iter_ok: "iter_ok demo_iter"
  by (simp add: iter_ok_def demo_iter_def)

lemma match_steps_more:
  assumes "(match_step s)\<^sup>*\<^sup>* m0 m" and "iter_ok it"
  shows "(match_step s)\<^sup>*\<^sup>* m0 (snd (MatchCreateRequest s it m now a prefs))"
    and "(match_step s)\<^sup>*\<^sup>* m0 (snd (Decide s it m now a i b d))"
  using rtranclp.rtrancl_into_rtrancl [OF assms(1) match_step.create [OF assms(2)]]
    rtranclp.rtrancl_into_rtrancl [OF assms(1) match_step.decide [OF assms(2)]] by blast+

lemma demo_matched_steps: "(match_step demo_match_service)\<^sup>*\<^sup>* NewMemMatch demo_matched"
  unfolding demo_matched_def demo_offered_def Let_def
  by (intro match_steps_more demo_iter_ok rtranclp.rtrancl_refl)

definition demo_request :: "string \<Rightarrow> string \<Rightarrow> time \<Rightarrow> match_request" where
  "demo_request i a t = \<lparr>mq_ID = i, mq_AccountID = a, mq_Preferences = no_prefs, mq_State = StateSearching,
     mq_CreatedAt = t, mq_ResolvedAt = 0, mq_MatchedWith = []\<rparr>"

lemma demo_matched_requests:
  "mm_requests demo_matched =
     [(''match-1'', (demo_request ''match-1'' ''b'' 1)\<lparr>mq_State := StateMatched, mq_ResolvedAt := 6, mq_MatchedWith := ''c''\<rparr>),
      (''match-2'', demo_request ''match-2'' ''a'' 2),
      (''match-3'', (demo_request ''match-3'' ''c'' 3)\<lparr>mq_State := StateMatched, mq_ResolvedAt := 6, mq_MatchedWith := ''b''\<rparr>)]"
  by code_simp

lemma demo_matched_rows:
  "map_option mc_Decision (row_at demo_matched ''match-2'' ''b'') = Some DecisionNone"
  "map_option mc_Decision (row_at demo_matched ''match-1'' ''a'') = Some DecisionConnect"
  by code_simp+

lemma match_needs_both_witness:
  "connected demo_matched ''match-3'' ''b'' \<and>
   (\<exists>j other. MemGetRequest demo_matched j = Inr other \<and> mq_AccountID other = ''b'' \<and> connected demo_matched j ''c'')"
proof -
  let ?c = "(demo_request ''match-3'' ''c'' 3)\<lparr>mq_State := StateMatched, mq_ResolvedAt := 6, mq_MatchedWith := ''b''\<rparr>"
  have c: "MemGetRequest demo_matched ''match-3'' = Inr ?c" "mq_State ?c = StateMatched"
    by (simp_all add: MemGetRequest_def demo_matched_requests)
  show ?thesis using match_needs_both [OF demo_matched_steps c] by (simp add: demo_request_def) blast
qed

lemma stale_connect_overrides_witness:
  "\<exists>m' req' other' third. Decide demo_match_service demo_iter demo_matched 7 ''a'' ''match-2'' ''b'' DecisionConnect = (Inr req', m') \<and>
     mq_MatchedWith req' = ''b'' \<and> req_at m' ''match-1'' = Some other' \<and> mq_MatchedWith other' = ''a'' \<and>
     req_at m' ''match-3'' = Some third \<and> mq_State third = StateMatched \<and> mq_MatchedWith third = ''b''"
proof -
  have inv: "match_inv demo_matched" by (rule match_steps_inv [OF demo_matched_steps match_inv_new])
  obtain c where c: "row_at demo_matched ''match-2'' ''b'' = Some c" "mc_Decision c = DecisionNone"
    using demo_matched_rows(1) by auto
  have con: "connected demo_matched ''match-1'' ''a''" using demo_matched_rows(2) by (auto simp: connected_def)
  have r: "req_at demo_matched ''match-2'' = Some (demo_request ''match-2'' ''a'' 2)"
    "req_at demo_matched ''match-1'' = Some ((demo_request ''match-1'' ''b'' 1)\<lparr>mq_State := StateMatched, mq_ResolvedAt := 6, mq_MatchedWith := ''c''\<rparr>)"
    "req_at demo_matched ''match-3'' = Some ((demo_request ''match-3'' ''c'' 3)\<lparr>mq_State := StateMatched, mq_ResolvedAt := 6, mq_MatchedWith := ''b''\<rparr>)"
    by (simp_all add: demo_matched_requests)
  have only: "k = ''match-1''" if "req_at demo_matched k = Some q" "mq_AccountID q = ''b''" for k q
    using that by (auto simp: demo_matched_requests demo_request_def split: if_splits)
  obtain m' req' where "Decide demo_match_service demo_iter demo_matched 7 ''a'' ''match-2'' ''b'' DecisionConnect = (Inr req', m')"
    "mq_MatchedWith req' = ''b''" "\<exists>other'. req_at m' ''match-1'' = Some other' \<and> mq_MatchedWith other' = ''a''"
    "req_at m' ''match-3'' = req_at demo_matched ''match-3''"
    using stale_connect_overrides [OF inv r(1) _ _ c demo_iter_ok r(2) _ _ con, of demo_match_service 7] only
    by (fastforce simp: demo_request_def)
  then show ?thesis using r(3) by auto
qed

section \<open>The rate limit\<close>

text \<open>Who made each request and when; nothing but a new request changes it.\<close>

abbreviation stamps_of :: "(string \<times> match_request) list \<Rightarrow> (string \<times> string \<times> time) list" where
  "stamps_of \<equiv> map (\<lambda>(k, q). (k, mq_AccountID q, mq_CreatedAt q))"

lemma stamps_of_update:
  "map_of rs k = Some q0 \<Longrightarrow> mq_AccountID q = mq_AccountID q0 \<Longrightarrow> mq_CreatedAt q = mq_CreatedAt q0 \<Longrightarrow>
     stamps_of (AList.update k q rs) = stamps_of rs"
  by (induction rs) (auto split: if_splits)

lemma stamps_of_new: "map_of rs k = None \<Longrightarrow> stamps_of (AList.update k q rs) = stamps_of rs @ [(k, mq_AccountID q, mq_CreatedAt q)]"
  by (induction rs) (auto split: if_splits)

lemma resolve_stamps:
  assumes "match_ids_ok m" and "req_at m (mq_ID req) = Some req"
  shows "stamps_of (mm_requests (snd (resolve_match m now req b mirror))) = stamps_of (mm_requests m)"
proof -
  let ?r1 = "AList.update (mq_ID req) (req\<lparr>mq_State := StateMatched, mq_ResolvedAt := now, mq_MatchedWith := b\<rparr>) (mm_requests m)"
  have 1: "stamps_of ?r1 = stamps_of (mm_requests m)" by (rule stamps_of_update [OF assms(2)]) simp_all
  have id: "\<And>k q. req_at m k = Some q \<Longrightarrow> mq_ID q = k" using assms(1) by (auto simp: match_ids_ok_def)
  show ?thesis
  proof (cases "map_of ?r1 (mc_RequestID mirror)")
    case None
    then show ?thesis using 1 assms(2) by (auto simp: resolve_match_def MemUpdateRequest_def MemGetRequest_def split: if_splits)
  next
    case (Some other)
    have "mq_ID other = mc_RequestID mirror"
    proof (cases "mc_RequestID mirror = mq_ID req")
      case True
      then show ?thesis using Some by auto
    next
      case False
      then have "req_at m (mc_RequestID mirror) = Some other" using Some by simp
      then show ?thesis by (rule id)
    qed
    then have "mm_requests (snd (resolve_match m now req b mirror)) = AList.update (mc_RequestID mirror)
        (other\<lparr>mq_State := StateMatched, mq_ResolvedAt := now, mq_MatchedWith := mq_AccountID req\<rparr>) ?r1"
      using assms(2) Some by (auto simp: resolve_match_def MemUpdateRequest_def MemGetRequest_def)
    then show ?thesis using stamps_of_update [OF Some] 1 by simp
  qed
qed

lemma Decide_stamps:
  assumes "match_inv m"
  shows "stamps_of (mm_requests (snd (Decide s it m now a i b d))) = stamps_of (mm_requests m)"
proof (cases "\<exists>req c. req_at m i = Some req \<and> mq_AccountID req = a \<and> mq_State req = StateSearching \<and>
    row_at m i b = Some c \<and> mc_Decision c = DecisionNone \<and> (d = DecisionConnect \<or> d = DecisionSkip)")
  case False
  then show ?thesis by (simp add: Decide_refused)
next
  case True
  then obtain req c where req: "req_at m i = Some req" "mq_AccountID req = a" "mq_State req = StateSearching"
    and c: "row_at m i b = Some c" "mc_Decision c = DecisionNone" and d: "d = DecisionConnect \<or> d = DecisionSkip"
    by blast
  let ?m1 = "m\<lparr>mm_candidates := AList.update (i, b) (c\<lparr>mc_Decision := DecisionConnect\<rparr>) (mm_candidates m)\<rparr>"
  have id: "mq_ID req = i" using assms req(1) by (auto simp: match_inv_def match_ids_ok_def)
  have "match_ids_ok ?m1" using match_inv_decided [OF assms req(1,3) c(1), of DecisionConnect] by (simp add: match_inv_def)
  moreover have "req_at ?m1 (mq_ID req) = Some req" using req(1) id by simp
  ultimately have r: "stamps_of (mm_requests (snd (resolve_match ?m1 now req b mirror))) = stamps_of (mm_requests m)" for mirror
    using resolve_stamps [of ?m1 req now b mirror] by simp
  have t: "mm_requests (snd (tryMatch s it m' now req)) = mm_requests m'" for m'
    using try_pool_rows [of s now req "SearchingRequests it m' (mq_AccountID req)" m'] by (simp add: tryMatch_def prod_eq_iff)
  show ?thesis
  proof (cases "d = DecisionSkip")
    case True
    let ?m2 = "AddExclusion (m\<lparr>mm_candidates := AList.update (i, b) (c\<lparr>mc_Decision := DecisionSkip\<rparr>) (mm_candidates m)\<rparr>)
        \<lparr>mx_AccountID = a, mx_ExcludedID = b, mx_Reason = ExclusionSkippedRecent, mx_ExpiresAt = now + skippedRecentTTL\<rparr>"
    show ?thesis
      using t [of ?m2] True
      by (cases "tryMatch s it ?m2 now req") (auto simp: Decide_skip [OF req c] split: sum.split)
  next
    case False
    then have d': "d = DecisionConnect" using d by blast
    show ?thesis
    proof (cases "find_mirror ?m1 a b (it_requests it (mm_requests ?m1))")
      case None
      then show ?thesis by (simp add: d' Decide_connect [OF req c refl])
    next
      case (Some mirror)
      then show ?thesis
        using r [of mirror]
        by (cases "resolve_match ?m1 now req b mirror") (auto simp: d' Decide_connect [OF req c refl] split: sum.split)
    qed
  qed
qed

lemma CancelRequest_stamps:
  assumes "match_inv m"
  shows "stamps_of (mm_requests (snd (CancelRequest m now a i))) = stamps_of (mm_requests m)"
proof (cases "req_at m i")
  case (Some req)
  then have "mq_ID req = i" using assms by (auto simp: match_inv_def match_ids_ok_def)
  then show ?thesis
    using stamps_of_update [OF Some, of "req\<lparr>mq_State := StateCancelled, mq_ResolvedAt := now\<rparr>"] Some
    by (simp add: CancelRequest_def MemGetRequest_def MemUpdateRequest_def)
qed (simp add: CancelRequest_def MemGetRequest_def)

text \<open>The clock does not run backwards.\<close>

inductive match_run :: "match_service \<Rightarrow> time \<Rightarrow> mem_match \<Rightarrow> bool" for s :: match_service where
  start: "match_run s t NewMemMatch"
| create: "match_run s t m \<Longrightarrow> t \<le> now \<Longrightarrow> iter_ok it \<Longrightarrow> match_run s now (snd (MatchCreateRequest s it m now a prefs))"
| decide: "match_run s t m \<Longrightarrow> t \<le> now \<Longrightarrow> iter_ok it \<Longrightarrow> match_run s now (snd (Decide s it m now a i b d))"
| cancel: "match_run s t m \<Longrightarrow> t \<le> now \<Longrightarrow> match_run s now (snd (CancelRequest m now a i))"

definition requests_within :: "mem_match \<Rightarrow> string \<Rightarrow> time \<Rightarrow> time \<Rightarrow> nat" where
  "requests_within m a t u =
     length (filter (\<lambda>q. mq_AccountID q = a \<and> t < mq_CreatedAt q \<and> mq_CreatedAt q \<le> u) (map snd (mm_requests m)))"

definition rate_ok :: "time \<Rightarrow> (string \<times> string \<times> time) list \<Rightarrow> bool" where
  "rate_ok now st \<longleftrightarrow> (\<forall>(k, a, t) \<in> set st. t \<le> now) \<and>
     (\<forall>a t. length (filter (\<lambda>(k, b, u). b = a \<and> t < u \<and> u \<le> t + rateLimitWindow) st) \<le> rateLimitMax)"

lemma requests_within_stamps:
  "requests_within m a t u = length (filter (\<lambda>(k, b, v). b = a \<and> t < v \<and> v \<le> u) (stamps_of (mm_requests m)))"
  by (simp add: requests_within_def filter_map comp_def case_prod_beta)

lemma rate_ok_new:
  assumes ok: "rate_ok t st" and t: "t \<le> now"
    and free: "length (filter (\<lambda>(k, b, u). b = a \<and> now - rateLimitWindow < u) st) < rateLimitMax"
  shows "rate_ok now (st @ [(k, a, now)])"
proof -
  have "length (filter (\<lambda>(k, b, u). b = c \<and> v < u \<and> u \<le> v + rateLimitWindow) (st @ [(k, a, now)])) \<le> rateLimitMax" for c v
  proof (cases "c = a \<and> v < now \<and> now \<le> v + rateLimitWindow")
    case True
    have "length (filter (\<lambda>(k, b, u). b = a \<and> v < u \<and> u \<le> v + rateLimitWindow) st) \<le>
        length (filter (\<lambda>(k, b, u). b = a \<and> now - rateLimitWindow < u) st)"
      using True by (induction st) auto
    then show ?thesis using True free by simp
  next
    case False
    then have "filter (\<lambda>(k, b, u). b = c \<and> v < u \<and> u \<le> v + rateLimitWindow) [(k, a, now)] = []" by auto
    then show ?thesis using ok by (simp add: rate_ok_def)
  qed
  moreover have "\<forall>(k, b, u) \<in> set (st @ [(k, a, now)]). u \<le> now" using ok t by (fastforce simp: rate_ok_def)
  ultimately show ?thesis unfolding rate_ok_def by blast
qed

lemma match_run_ok:
  assumes "match_run s t m"
  shows "match_inv m \<and> rate_ok t (stamps_of (mm_requests m))"
  using assms
proof (induction rule: match_run.induct)
  case (start t)
  then show ?case by (simp add: match_inv_new rate_ok_def) (simp add: NewMemMatch_def)
next
  case (create t m now it a prefs)
  let ?m' = "snd (MatchCreateRequest s it m now a prefs)"
  have inv: "match_inv m" and inv': "match_inv ?m'" using create match_step_inv match_step.create by blast+
  obtain req m1 where c: "MemCreateRequest m now a prefs = (req, m1)" by (cases "MemCreateRequest m now a prefs")
  then have m1: "mm_requests m1 = AList.update (mq_ID req) req (mm_requests m)" "mq_ID req = match_name (mm_seq m + 1)"
    "mq_AccountID req = a" "mq_CreatedAt req = now"
    by (auto simp: MemCreateRequest_def Let_def)
  have "req_at m (mq_ID req) = None"
    using inv m1(2) by (cases "req_at m (mq_ID req)") (fastforce simp: match_inv_def match_ids_ok_def)+
  then have st: "stamps_of (mm_requests m1) = stamps_of (mm_requests m) @ [(mq_ID req, a, now)]"
    using stamps_of_new m1 by simp
  have tm: "mm_requests (snd (tryMatch s it m1 now req)) = mm_requests m1"
    using try_pool_rows [of s now req "SearchingRequests it m1 (mq_AccountID req)" m1] by (simp add: tryMatch_def prod_eq_iff)
  have count: "RecentRequestCount m a (now - rateLimitWindow) =
      length (filter (\<lambda>(k, b, u). b = a \<and> now - rateLimitWindow < u) (stamps_of (mm_requests m)))"
    by (simp add: RecentRequestCount_def After_def filter_map comp_def case_prod_beta)
  show ?case
  proof (cases "stamps_of (mm_requests ?m') = stamps_of (mm_requests m)")
    case True
    then show ?thesis using create inv' by (fastforce simp: rate_ok_def)
  next
    case False
    then have free: "\<not> rateLimitMax \<le> RecentRequestCount m a (now - rateLimitWindow)"
      and "mm_requests ?m' = mm_requests m1"
      using c tm by (auto simp: MatchCreateRequest_def split: sum.splits prod.splits if_splits)
    then show ?thesis
      using inv' rate_ok_new [of t "stamps_of (mm_requests m)" now a "mq_ID req"] create st by (simp add: count not_le)
  qed
next
  case (decide t m now it a i b d)
  then have "match_inv (snd (Decide s it m now a i b d))" using match_step_inv match_step.decide by blast
  then show ?case using decide Decide_stamps by (fastforce simp: rate_ok_def)
next
  case (cancel t m now a i)
  then have "match_inv (snd (CancelRequest m now a i))" using match_step_inv match_step.cancel by blast
  then show ?case using cancel CancelRequest_stamps by (fastforce simp: rate_ok_def)
qed

text \<open>In every stretch of an hour an account makes at most ten match requests, as long as calls
  do not overlap and the clock does not run backwards.\<close>

theorem match_requests_limited:
  assumes "match_run s now m"
  shows "requests_within m a t (t + hour) \<le> 10"
  using match_run_ok [OF assms] unfolding requests_within_stamps
  by (simp add: rate_ok_def rateLimitWindow_def rateLimitMax_def)

lemma match_requests_limited_witness: "requests_within demo_offered ''b'' 0 hour = 1 \<and> requests_within demo_offered ''b'' 0 hour \<le> 10"
proof -
  have "match_run demo_match_service 3 demo_offered"
    unfolding demo_offered_def Let_def
    by (intro match_run.create [where t = 2] match_run.create [where t = 1] match_run.create [where t = 0]
        match_run.start demo_iter_ok) simp_all
  moreover have "requests_within demo_offered ''b'' 0 hour = 1" by code_simp
  ultimately show ?thesis using match_requests_limited [of demo_match_service 3 demo_offered "''b''" 0] by simp
qed

end
