(* ===== verification/GoText.thy ===== *)
theory GoText
  imports GoPrelude
begin

text \<open>
  Text helpers of the Go standard library that several packages use: \<open>%04d\<close>,
  \<open>strings.TrimSpace\<close>, \<open>strings.Split\<close>, \<open>strconv.Atoi\<close> and the unpadded base64
  encodings. A string is a list of bytes (\<open>char\<close> is a byte).
\<close>

section \<open>Zero-padded counters\<close>

text \<open>\<open>fmt.Sprintf("%04d", n)\<close> for a counter.\<close>

definition dec04 :: "nat \<Rightarrow> string" where
  "dec04 n = (let d = itoa_loop n [] in replicate (4 - length d) CHR ''0'' @ d)"

lemma digits_value_zeros: "digits_value 0 (replicate k CHR ''0'' @ d) = digits_value 0 d"
  by (induction k) auto

lemma dec04_inj [simp]: "dec04 m = dec04 n \<longleftrightarrow> m = n"
proof -
  have "digits_value 0 (dec04 n) = n" for n
    by (simp add: dec04_def Let_def digits_value_zeros digits_value_itoa_loop)
  then show ?thesis by metis
qed

section \<open>Splitting and trimming\<close>

text \<open>\<open>strings.TrimSpace\<close> on ASCII text.\<close>

definition is_space :: "char \<Rightarrow> bool" where
  "is_space c \<longleftrightarrow> of_char c \<in> {9, 10, 11, 12, 13, 32 :: nat}"

definition TrimSpace :: "string \<Rightarrow> string" where
  "TrimSpace s = rev (dropWhile is_space (rev (dropWhile is_space s)))"

text \<open>\<open>strings.Split\<close> with a one-byte separator.\<close>

fun Split :: "char \<Rightarrow> string \<Rightarrow> string list" where
  "Split c [] = [[]]"
| "Split c (x # xs) =
     (if x = c then [] # Split c xs
      else (case Split c xs of p # ps \<Rightarrow> (x # p) # ps | [] \<Rightarrow> [[x]]))"

lemma Split_none: "c \<notin> set s \<Longrightarrow> Split c s = [s]"
  by (induction s) auto

lemma Split_Cons: "c \<notin> set p \<Longrightarrow> Split c (p @ c # s) = p # Split c s"
  by (induction p) auto

section \<open>Atoi\<close>

text \<open>\<open>strconv.Atoi\<close>: an optional sign, then digits, within \<open>int64\<close>.\<close>

definition is_digit :: "char \<Rightarrow> bool" where
  "is_digit c \<longleftrightarrow> 48 \<le> (of_char c :: nat) \<and> (of_char c :: nat) \<le> 57"

definition Atoi :: "string \<Rightarrow> int option" where
  "Atoi s =
     (let (sign, ds) =
        (case s of
           [] \<Rightarrow> (1, [])
         | c # cs \<Rightarrow> if c = CHR ''-'' then (-1, cs) else if c = CHR ''+'' then (1, cs) else (1, s))
      in if ds = [] \<or> \<not> list_all is_digit ds then None
         else (let n = sign * int (digits_value 0 ds) in if in_i64 n then Some n else None))"

lemma itoa_loop_digits: "list_all is_digit acc \<Longrightarrow> list_all is_digit (itoa_loop n acc)"
proof (induction n arbitrary: acc rule: less_induct)
  case (less n)
  show ?case
  proof (cases "n > 0")
    case True
    have "is_digit (digit_char (n mod 10))"
      using of_char_digit_char [of "n mod 10"] by (simp add: is_digit_def)
    then show ?thesis using less.IH [of "n div 10" "digit_char (n mod 10) # acc"] less.prems True
      by (simp add: itoa_loop_pos)
  qed (use less.prems in simp)
qed

lemma Atoi_itoa: "0 < n \<Longrightarrow> n < 2 ^ 63 \<Longrightarrow> Atoi (itoa_loop n []) = Some (int n)"
proof -
  assume n: "0 < n" "n < 2 ^ 63"
  let ?s = "itoa_loop n []"
  have d: "list_all is_digit ?s" by (rule itoa_loop_digits) simp
  obtain c cs where s: "?s = c # cs" using n by (cases ?s) auto
  then have "is_digit c" using d by simp
  then have "c \<noteq> CHR ''-''" "c \<noteq> CHR ''+''" by (auto simp: is_digit_def)
  moreover have "in_i64 (int n)" using n by (simp add: in_i64_def)
  moreover have "digits_value 0 (c # cs) = n" unfolding s [symmetric] by (rule digits_value_itoa_loop)
  ultimately show ?thesis using s d unfolding Atoi_def by (simp add: Let_def)
qed

section \<open>Base64 without padding\<close>

definition b64_common :: string where
  "b64_common = ''ABCDEFGHIJKLMNOPQRSTUVWXYZabcdefghijklmnopqrstuvwxyz0123456789''"

definition b64_std :: string where "b64_std = b64_common @ ''+/''"
definition b64_url :: string where "b64_url = b64_common @ ''-_''"

fun b64_sextets :: "nat list \<Rightarrow> nat list" where
  "b64_sextets (a # b # c # bs) =
     a div 4 # (a mod 4 * 16 + b div 16) # (b mod 16 * 4 + c div 64) # c mod 64 # b64_sextets bs"
| "b64_sextets [a, b] = [a div 4, a mod 4 * 16 + b div 16, b mod 16 * 4]"
| "b64_sextets [a] = [a div 4, a mod 4 * 16]"
| "b64_sextets [] = []"

text \<open>A group of one sextet is malformed; the spare bits of a short group are ignored.\<close>

fun b64_bytes :: "nat list \<Rightarrow> nat list option" where
  "b64_bytes (p # q # r # s # xs) =
     map_option (\<lambda>bs. (p * 4 + q div 16) # (q mod 16 * 16 + r div 4) # (r mod 4 * 64 + s) # bs) (b64_bytes xs)"
| "b64_bytes [p, q, r] = Some [p * 4 + q div 16, q mod 16 * 16 + r div 4]"
| "b64_bytes [p, q] = Some [p * 4 + q div 16]"
| "b64_bytes [p] = None"
| "b64_bytes [] = Some []"

definition b64_encode :: "string \<Rightarrow> string \<Rightarrow> string" where
  "b64_encode alpha bs = map (\<lambda>n. alpha ! n) (b64_sextets (map of_char bs))"

definition b64_value :: "string \<Rightarrow> char \<Rightarrow> nat option" where
  "b64_value alpha c = map_of (zip alpha [0..<64]) c"

text \<open>Line breaks are skipped, any other byte outside the alphabet is an error.\<close>

definition b64_decode :: "string \<Rightarrow> string \<Rightarrow> string option" where
  "b64_decode alpha s =
     (let vs = map (b64_value alpha) (filter (\<lambda>c. c \<noteq> CHR 0x0A \<and> c \<noteq> CHR 0x0D) s)
      in if None \<in> set vs then None else map_option (map char_of) (b64_bytes (map the vs)))"

lemma b64_sextets_less: "\<forall>b \<in> set bs. b < 256 \<Longrightarrow> \<forall>n \<in> set (b64_sextets bs). n < 64"
  by (induction bs rule: b64_sextets.induct) auto

lemma b64_bytes_sextets: "\<forall>b \<in> set bs. b < 256 \<Longrightarrow> b64_bytes (b64_sextets bs) = Some bs"
  by (induction bs rule: b64_sextets.induct) auto

definition b64_alphabet :: "string \<Rightarrow> bool" where
  "b64_alphabet alpha \<longleftrightarrow> length alpha = 64 \<and> distinct alpha \<and> CHR 0x0A \<notin> set alpha \<and> CHR 0x0D \<notin> set alpha"

lemma b64_alphabets: "b64_alphabet b64_std" "b64_alphabet b64_url"
  by code_simp+

lemma b64_value_nth: "b64_alphabet alpha \<Longrightarrow> n < 64 \<Longrightarrow> b64_value alpha (alpha ! n) = Some n"
  using map_of_zip_nth [of alpha "[0..<64]" n] by (simp add: b64_value_def b64_alphabet_def)

lemma b64_encode_set: "b64_alphabet alpha \<Longrightarrow> set (b64_encode alpha bs) \<subseteq> set alpha"
  using b64_sextets_less [of "map of_char bs"] by (auto simp: b64_encode_def b64_alphabet_def)

theorem b64_round_trip: "b64_alphabet alpha \<Longrightarrow> b64_decode alpha (b64_encode alpha bs) = Some bs"
proof -
  assume a: "b64_alphabet alpha"
  let ?ns = "b64_sextets (map of_char bs)"
  have less: "\<forall>n \<in> set ?ns. n < 64" by (rule b64_sextets_less) auto
  have "filter (\<lambda>c. c \<noteq> CHR 0x0A \<and> c \<noteq> CHR 0x0D) (b64_encode alpha bs) = b64_encode alpha bs"
    using b64_encode_set [OF a, of bs] a by (auto simp: filter_id_conv b64_alphabet_def)
  moreover have "map (b64_value alpha) (b64_encode alpha bs) = map Some ?ns"
    using less b64_value_nth [OF a] by (simp add: b64_encode_def)
  moreover have "b64_bytes ?ns = Some (map of_char bs)" by (rule b64_bytes_sextets) auto
  ultimately show ?thesis by (simp add: b64_decode_def Let_def comp_def)
qed

end
