(* ===== verification/OTP.thy ===== *)
theory OTP
  imports GoText
begin

text \<open>
  One-time codes (\<open>auth/otp/otp.go\<close>): challenges, the in-memory store, and the service that starts
  and verifies them. The random code and challenge ID are arguments; the SMS sender's error is
  only logged, so sending is no part of the result. One clock reading per call.
\<close>

section \<open>Data and store\<close>

definition codeTTL :: duration where "codeTTL = 10 * minute"
definition maxAttempts :: nat where "maxAttempts = 5"
definition maxSendsPerWindow :: nat where "maxSendsPerWindow = 3"
definition sendWindow :: duration where "sendWindow = 10 * minute"
definition lockoutDuration :: duration where "lockoutDuration = 30 * minute"

datatype otp_error =
    ErrOTPRateLimited
  | ErrLockedOut
  | ErrExpired
  | ErrInvalid
  | ErrMaxAttemptsExceeded

record challenge =
  ch_ID :: string
  ch_PhoneE164 :: string
  ch_CodeHash :: "nat list"
  ch_Attempts :: nat
  ch_CreatedAt :: time
  ch_ExpiresAt :: time

definition IsExpired :: "time \<Rightarrow> challenge \<Rightarrow> bool" where
  "IsExpired now c \<longleftrightarrow> After now (ch_ExpiresAt c)"

record otp_store =
  st_challenges :: "(string \<times> challenge) list"
  st_sends :: "(string \<times> time list) list"
  st_lockouts :: "(string \<times> time) list"

definition NewMemoryStore :: otp_store where
  "NewMemoryStore = \<lparr>st_challenges = [], st_sends = [], st_lockouts = []\<rparr>"

definition SetChallenge :: "otp_store \<Rightarrow> string \<Rightarrow> challenge \<Rightarrow> otp_store" where
  "SetChallenge m i ch = m\<lparr>st_challenges := AList.update i ch (st_challenges m)\<rparr>"

definition GetChallenge :: "otp_store \<Rightarrow> string \<Rightarrow> challenge option" where
  "GetChallenge m i = map_of (st_challenges m) i"

definition DeleteChallenge :: "otp_store \<Rightarrow> string \<Rightarrow> otp_store" where
  "DeleteChallenge m i = m\<lparr>st_challenges := AList.delete i (st_challenges m)\<rparr>"

definition recent_sends :: "otp_store \<Rightarrow> time \<Rightarrow> string \<Rightarrow> time list" where
  "recent_sends m now phone =
     filter (\<lambda>t. now - t < sendWindow) (case map_of (st_sends m) phone of None \<Rightarrow> [] | Some ts \<Rightarrow> ts)"

definition GetSendCount :: "otp_store \<Rightarrow> time \<Rightarrow> string \<Rightarrow> nat \<times> otp_store" where
  "GetSendCount m now phone =
     (let valid = recent_sends m now phone
      in (length valid, m\<lparr>st_sends := AList.update phone valid (st_sends m)\<rparr>))"

definition IncrSendCount :: "otp_store \<Rightarrow> time \<Rightarrow> string \<Rightarrow> nat \<times> otp_store" where
  "IncrSendCount m now phone =
     (let valid = recent_sends m now phone @ [now]
      in (length valid, m\<lparr>st_sends := AList.update phone valid (st_sends m)\<rparr>))"

definition GetLockout :: "otp_store \<Rightarrow> string \<Rightarrow> time" where
  "GetLockout m phone = (case map_of (st_lockouts m) phone of None \<Rightarrow> 0 | Some t \<Rightarrow> t)"

definition SetLockout :: "otp_store \<Rightarrow> time \<Rightarrow> string \<Rightarrow> duration \<Rightarrow> otp_store" where
  "SetLockout m now phone d = m\<lparr>st_lockouts := AList.update phone (now + d) (st_lockouts m)\<rparr>"

text \<open>The eight-byte fold of the code's bytes.\<close>

fun fold_code :: "nat \<Rightarrow> string \<Rightarrow> nat list \<Rightarrow> nat list" where
  "fold_code i [] h = h"
| "fold_code i (c # cs) h = fold_code (i + 1) cs (h[i mod 8 := Bit_Operations.xor (h ! (i mod 8)) (of_char c)])"

definition hashCode :: "string \<Rightarrow> nat list" where
  "hashCode code = fold_code 0 code (replicate 8 0)"

text \<open>The fold loses nothing of a short code.\<close>

lemma fold_code_short:
  assumes "i + length cs \<le> 8" and "length h = 8" and "\<forall>j \<ge> i. j < 8 \<longrightarrow> h ! j = 0"
  shows "fold_code i cs h = take i h @ map of_char cs @ drop (i + length cs) h"
  using assms
proof (induction i cs h rule: fold_code.induct)
  case (2 i c cs h)
  then have i: "i < 8" "i mod 8 = i" "h ! i = 0" by simp_all
  have "fold_code i (c # cs) h = fold_code (i + 1) cs (h[i := of_char c])" using i by simp
  also have "\<dots> = take (i + 1) (h[i := of_char c]) @ map of_char cs @ drop (i + 1 + length cs) (h[i := of_char c])"
    using 2 i by simp
  finally show ?case using i 2(3) by (simp add: take_Suc_conv_app_nth)
qed simp

lemma hashCode_inj: "length a = length b \<Longrightarrow> length b \<le> 8 \<Longrightarrow> hashCode a = hashCode b \<longleftrightarrow> a = b"
proof -
  assume l: "length a = length b" "length b \<le> 8"
  have "hashCode s = map of_char s @ replicate (8 - length s) 0" if "length s \<le> 8" for s
    using fold_code_short [of 0 s "replicate 8 0"] that by (simp add: hashCode_def)
  moreover have "inj (of_char :: char \<Rightarrow> nat)" by (rule injI) simp
  ultimately show ?thesis using l by (simp add: inj_map_eq_map)
qed

section \<open>The service\<close>

definition StartOTP :: "otp_store \<Rightarrow> time \<Rightarrow> string \<Rightarrow> string \<Rightarrow> string \<Rightarrow> (otp_error + string \<times> time) \<times> otp_store" where
  "StartOTP m now newID newCode phone =
     (let lockUntil = GetLockout m phone
      in if \<not> IsZero lockUntil \<and> Before now lockUntil then (Inl ErrLockedOut, m)
         else
           (let (count, m) = IncrSendCount m now phone
            in if maxSendsPerWindow < count then (Inl ErrOTPRateLimited, m)
               else
                 (let exp = now + codeTTL;
                      ch = \<lparr>ch_ID = newID, ch_PhoneE164 = phone, ch_CodeHash = hashCode newCode, ch_Attempts = 0,
                            ch_CreatedAt = now, ch_ExpiresAt = exp\<rparr>
                  in (Inr (newID, exp), SetChallenge m newID ch))))"

definition VerifyOTP :: "otp_store \<Rightarrow> time \<Rightarrow> string \<Rightarrow> string \<Rightarrow> (otp_error + unit) \<times> otp_store" where
  "VerifyOTP m now challengeID code =
     (case GetChallenge m challengeID of
        None \<Rightarrow> (Inl ErrInvalid, m)
      | Some ch \<Rightarrow>
          if IsExpired now ch then (Inl ErrExpired, DeleteChallenge m challengeID)
          else if maxAttempts \<le> ch_Attempts ch
          then (Inl ErrMaxAttemptsExceeded,
                DeleteChallenge (SetLockout m now (ch_PhoneE164 ch) lockoutDuration) challengeID)
          else if hashCode code \<noteq> ch_CodeHash ch
          then
            (let ch = ch\<lparr>ch_Attempts := ch_Attempts ch + 1\<rparr>;
                 m = SetChallenge m challengeID ch
             in if maxAttempts \<le> ch_Attempts ch
                then (Inl ErrMaxAttemptsExceeded, SetLockout m now (ch_PhoneE164 ch) lockoutDuration)
                else (Inl ErrInvalid, m))
          else (Inr (), DeleteChallenge m challengeID))"

section \<open>A challenge over its life\<close>

datatype otp_call =
    CallStart time string string string   \<comment> \<open>clock, new ID, new code, phone\<close>
  | CallVerify time string string         \<comment> \<open>clock, challenge, code\<close>

fun otp_do :: "otp_store \<Rightarrow> otp_call \<Rightarrow> (otp_error + unit) \<times> otp_store" where
  "otp_do m (CallStart now i c phone) = (map_sum (\<lambda>e. e) (\<lambda>_. ()) (fst (StartOTP m now i c phone)), snd (StartOTP m now i c phone))"
| "otp_do m (CallVerify now i c) = VerifyOTP m now i c"

primrec otp_run :: "otp_store \<Rightarrow> otp_call list \<Rightarrow> (otp_error + unit) list" where
  "otp_run m [] = []"
| "otp_run m (c # cs) = fst (otp_do m c) # otp_run (snd (otp_do m c)) cs"

fun verifies :: "string \<Rightarrow> otp_call \<Rightarrow> bool" where
  "verifies i (CallVerify now j c) \<longleftrightarrow> j = i"
| "verifies i (CallStart now j c phone) \<longleftrightarrow> False"

fun starts :: "string \<Rightarrow> otp_call \<Rightarrow> bool" where
  "starts i (CallVerify now j c) \<longleftrightarrow> False"
| "starts i (CallStart now j c phone) \<longleftrightarrow> j = i"

lemma otp_do_other:
  assumes "\<not> starts i c" and "\<not> verifies i c"
  shows "GetChallenge (snd (otp_do m c)) i = GetChallenge m i"
  using assms
  by (cases c) (auto simp: StartOTP_def IncrSendCount_def VerifyOTP_def SetChallenge_def GetChallenge_def
      DeleteChallenge_def SetLockout_def Let_def split: option.split)

lemma otp_dead:
  assumes "GetChallenge m i = None" and "\<not> list_ex (starts i) cs" and "k < length cs" and "verifies i (cs ! k)"
  shows "otp_run m cs ! k = Inl ErrInvalid"
  using assms
proof (induction cs arbitrary: m k)
  case (Cons c cs)
  have g: "GetChallenge (snd (otp_do m c)) i = None"
  proof (cases "verifies i c")
    case True
    then show ?thesis using Cons.prems(1) by (cases c) (auto simp: VerifyOTP_def)
  next
    case False
    then show ?thesis using otp_do_other [of i c m] Cons.prems(1,2) by simp
  qed
  show ?case
  proof (cases k)
    case 0
    then show ?thesis using Cons.prems by (cases c) (auto simp: VerifyOTP_def)
  next
    case (Suc j)
    then show ?thesis using Cons.IH [OF g] Cons.prems by simp
  qed
qed simp

text \<open>What one attempt does to its challenge.\<close>

lemma VerifyOTP_challenge:
  assumes "GetChallenge m i = Some ch"
  shows "case VerifyOTP m now i c of
      (Inr _, m') \<Rightarrow> GetChallenge m' i = None \<and> hashCode c = ch_CodeHash ch \<and> now \<le> ch_ExpiresAt ch \<and> ch_Attempts ch < 5
    | (Inl _, m') \<Rightarrow> GetChallenge m' i = None \<or> GetChallenge m' i = Some (ch\<lparr>ch_Attempts := ch_Attempts ch + 1\<rparr>)"
  using assms
  by (auto simp: VerifyOTP_def GetChallenge_def DeleteChallenge_def SetChallenge_def SetLockout_def Let_def IsExpired_def
      After_def maxAttempts_def)

lemma otp_success:
  assumes "GetChallenge m i = Some ch" and "\<not> list_ex (starts i) cs" and "k < length cs" and "cs ! k = CallVerify now i c"
    and "otp_run m cs ! k = Inr ()"
  shows "hashCode c = ch_CodeHash ch \<and> now \<le> ch_ExpiresAt ch \<and>
    ch_Attempts ch + length (filter (verifies i) (take k cs)) < 5 \<and>
    (\<forall>j < length cs. j \<noteq> k \<longrightarrow> verifies i (cs ! j) \<longrightarrow> otp_run m cs ! j \<noteq> Inr ())"
  using assms
proof (induction cs arbitrary: m k ch)
  case (Cons x cs)
  obtain r m' where x: "otp_do m x = (r, m')" by (cases "otp_do m x")
  show ?case
  proof (cases k)
    case 0
    then have "x = CallVerify now i c" "r = Inr ()" using Cons.prems x by auto
    then have now: "hashCode c = ch_CodeHash ch" "now \<le> ch_ExpiresAt ch" "ch_Attempts ch < 5" and dead: "GetChallenge m' i = None"
      using VerifyOTP_challenge [OF Cons.prems(1), where now = now and c = c] x by auto
    have "otp_run m (x # cs) ! j \<noteq> Inr ()" if "j < length (x # cs)" "j \<noteq> k" "verifies i ((x # cs) ! j)" for j
      using otp_dead [OF dead, of cs "j - 1"] that 0 Cons.prems(2) x by (cases j) auto
    then show ?thesis using now 0 by auto
  next
    case (Suc n)
    show ?thesis
    proof (cases "verifies i x")
      case False
      then have g: "GetChallenge m' i = Some ch" using otp_do_other [of i x m] Cons.prems(1,2) x by simp
      have IH: "hashCode c = ch_CodeHash ch \<and> now \<le> ch_ExpiresAt ch \<and>
          ch_Attempts ch + length (filter (verifies i) (take n cs)) < 5 \<and>
          (\<forall>j < length cs. j \<noteq> n \<longrightarrow> verifies i (cs ! j) \<longrightarrow> otp_run m' cs ! j \<noteq> Inr ())"
        by (rule Cons.IH [OF g]) (use Cons.prems Suc x in auto)
      have "otp_run m (x # cs) ! j \<noteq> Inr ()" if "j < length (x # cs)" "j \<noteq> k" "verifies i ((x # cs) ! j)" for j
        using IH that False Suc x by (cases j) auto
      then show ?thesis using IH False Suc by auto
    next
      case True
      then obtain t d where xv: "x = CallVerify t i d" by (cases x) auto
      then have v: "VerifyOTP m t i d = (r, m')" using x by simp
      have later: "otp_run m' cs ! n = Inr ()" "verifies i (cs ! n)" "n < length cs" "\<not> list_ex (starts i) cs"
        using Cons.prems Suc x by auto
      then have alive: "GetChallenge m' i \<noteq> None" using otp_dead [of m' i cs n] by fastforce
      then have g: "GetChallenge m' i = Some (ch\<lparr>ch_Attempts := ch_Attempts ch + 1\<rparr>)" and r: "r \<noteq> Inr ()"
        using VerifyOTP_challenge [OF Cons.prems(1), where now = t and c = d] v by (auto split: sum.splits)
      have IH: "hashCode c = ch_CodeHash (ch\<lparr>ch_Attempts := ch_Attempts ch + 1\<rparr>) \<and>
          now \<le> ch_ExpiresAt (ch\<lparr>ch_Attempts := ch_Attempts ch + 1\<rparr>) \<and>
          ch_Attempts (ch\<lparr>ch_Attempts := ch_Attempts ch + 1\<rparr>) + length (filter (verifies i) (take n cs)) < 5 \<and>
          (\<forall>j < length cs. j \<noteq> n \<longrightarrow> verifies i (cs ! j) \<longrightarrow> otp_run m' cs ! j \<noteq> Inr ())"
        by (rule Cons.IH [OF g]) (use Cons.prems Suc x in auto)
      have "otp_run m (x # cs) ! j \<noteq> Inr ()" if "j < length (x # cs)" "j \<noteq> k" "verifies i ((x # cs) ! j)" for j
        using IH that Suc x r by (cases j) auto
      then show ?thesis using IH True Suc by auto
    qed
  qed
qed simp



end
