(* ===== verification/Password.thy ===== *)
theory Password
  imports GoText
begin

text \<open>
  Password hashing (\<open>auth/password/password.go\<close>): the policy, PBKDF2 over HMAC-SHA-512, and the
  self-describing hash string. SHA-512 is a parameter (\<open>crypto/sha512\<close>), the random salt an argument.
  Byte slices are strings of bytes.
\<close>

definition saltLen :: nat where "saltLen = 32"
definition iterations :: nat where "iterations = 600000"
definition keyLen :: nat where "keyLen = 64"
definition hashVersion :: string where "hashVersion = ''pbkdf2-sha512-v1''"

datatype password_error =
    ErrPasswordTooShort
  | ErrPasswordTooLong
  | ErrHashMismatch
  | ErrHashMalformed

definition ValidatePassword :: "string \<Rightarrow> password_error + unit" where
  "ValidatePassword pw =
     (if length pw < 8 then Inl ErrPasswordTooShort
      else if 128 < length pw then Inl ErrPasswordTooLong
      else Inr ())"

definition xor_byte :: "char \<Rightarrow> char \<Rightarrow> char" where
  "xor_byte a b = char_of (Bit_Operations.xor (of_char a) (of_char b) :: nat)"

text \<open>\<open>sha512.BlockSize\<close> and \<open>sha512.Size\<close>; \<open>copy\<close> into a zeroed slice.\<close>

definition sha_block :: nat where "sha_block = 128"
definition sha_size :: nat where "sha_size = 64"

definition copy_into :: "nat \<Rightarrow> string \<Rightarrow> string" where
  "copy_into n s = take n s @ replicate (n - length s) (char_of (0 :: nat))"

definition sha512HMAC :: "(string \<Rightarrow> string) \<Rightarrow> string \<Rightarrow> string \<Rightarrow> string" where
  "sha512HMAC sha key data =
     (let key = (if sha_block < length key then sha key else key);
          ipad = map (xor_byte (char_of (0x36 :: nat))) (copy_into sha_block key) @ data;
          opad = map (xor_byte (char_of (0x5c :: nat))) (copy_into sha_block key);
          inner = sha ipad;
          outer = opad @ copy_into sha_size inner
      in sha outer)"

text \<open>The big-endian block counter.\<close>

definition block_bytes :: "nat \<Rightarrow> string" where
  "block_bytes block = map char_of [block div 2 ^ 24 mod 256, block div 2 ^ 16 mod 256, block div 2 ^ 8 mod 256, block mod 256]"

text \<open>The inner loop: \<open>n\<close> more rounds from \<open>U\<close>, folding each into \<open>T\<close>.\<close>

primrec pbkdf2_rounds :: "(string \<Rightarrow> string) \<Rightarrow> string \<Rightarrow> nat \<Rightarrow> string \<Rightarrow> string \<Rightarrow> string" where
  "pbkdf2_rounds sha password 0 U T = T"
| "pbkdf2_rounds sha password (Suc n) U T =
     (let U = sha512HMAC sha password U in pbkdf2_rounds sha password n U (map2 xor_byte T U))"

definition pbkdf2_block :: "(string \<Rightarrow> string) \<Rightarrow> string \<Rightarrow> string \<Rightarrow> int \<Rightarrow> nat \<Rightarrow> string" where
  "pbkdf2_block sha password salt iter block =
     (let U = copy_into sha_size (sha512HMAC sha password (salt @ block_bytes block))
      in pbkdf2_rounds sha password (nat (iter - 1)) U U)"

definition pbkdf2SHA512 :: "(string \<Rightarrow> string) \<Rightarrow> string \<Rightarrow> string \<Rightarrow> int \<Rightarrow> nat \<Rightarrow> string" where
  "pbkdf2SHA512 sha password salt iter len =
     (let numBlocks = (len + sha_size - 1) div sha_size
      in take len (concat (map (pbkdf2_block sha password salt iter) [1..<numBlocks + 1])))"

definition HashPassword :: "(string \<Rightarrow> string) \<Rightarrow> string \<Rightarrow> string \<Rightarrow> password_error + string" where
  "HashPassword sha salt pw =
     (case ValidatePassword pw of
        Inl err \<Rightarrow> Inl err
      | Inr _ \<Rightarrow>
          (let dk = pbkdf2SHA512 sha pw salt (int iterations) keyLen
           in Inr (''$'' @ hashVersion @ ''$'' @ itoa_loop iterations [] @ ''$'' @ b64_encode b64_std salt @ ''$'' @
                   b64_encode b64_std dk)))"

definition VerifyPassword :: "(string \<Rightarrow> string) \<Rightarrow> string \<Rightarrow> string \<Rightarrow> password_error + unit" where
  "VerifyPassword sha pw stored =
     (case Split CHR ''$'' stored of
        [p0, p1, p2, p3, p4] \<Rightarrow>
          if p0 \<noteq> [] then Inl ErrHashMalformed
          else
            (case Atoi p2 of
               None \<Rightarrow> Inl ErrHashMalformed
             | Some iters \<Rightarrow>
                 (case b64_decode b64_std p3 of
                    None \<Rightarrow> Inl ErrHashMalformed
                  | Some salt \<Rightarrow>
                      (case b64_decode b64_std p4 of
                         None \<Rightarrow> Inl ErrHashMalformed
                       | Some storedHash \<Rightarrow>
                           if pbkdf2SHA512 sha pw salt iters (length storedHash) \<noteq> storedHash then Inl ErrHashMismatch
                           else Inr ())))
      | _ \<Rightarrow> Inl ErrHashMalformed)"

section \<open>Lengths\<close>

lemma length_copy_into [simp]: "length (copy_into n s) = n"
  by (simp add: copy_into_def)

text \<open>A round keeps the length when SHA-512 yields 64 bytes.\<close>

lemma length_pbkdf2_rounds:
  assumes "\<And>x. length (sha x) = sha_size" and "length T = sha_size"
  shows "length (pbkdf2_rounds sha password n U T) = sha_size"
  using assms(2)
proof (induction n arbitrary: U T)
  case (Suc n)
  have "length (sha512HMAC sha password U) = sha_size" by (simp add: sha512HMAC_def Let_def assms(1))
  then show ?case using Suc by (simp add: Let_def)
qed simp

lemma length_pbkdf2_blocks:
  assumes "\<And>x. length (sha x) = sha_size"
  shows "length (concat (map (pbkdf2_block sha password salt iter) bs)) = length bs * sha_size"
proof (induction bs)
  case (Cons b bs)
  have "length (pbkdf2_block sha password salt iter b) = sha_size"
    unfolding pbkdf2_block_def Let_def by (rule length_pbkdf2_rounds [OF assms]) simp
  then show ?case using Cons by simp
qed simp

lemma length_pbkdf2:
  assumes "\<And>x. length (sha x) = sha_size"
  shows "length (pbkdf2SHA512 sha password salt iter len) = len"
proof -
  let ?n = "(len + sha_size - 1) div sha_size"
  have "len \<le> ?n * sha_size" by (simp add: sha_size_def)
  moreover have "length (concat (map (pbkdf2_block sha password salt iter) [1..<?n + 1])) = ?n * sha_size"
    using length_pbkdf2_blocks [of sha password salt iter "[1..<?n + 1]"] assms by (simp del: upt_Suc)
  ultimately show ?thesis by (simp add: pbkdf2SHA512_def Let_def del: upt_Suc)
qed

lemma no_dollar: "CHR ''$'' \<notin> set (b64_encode b64_std bs)" "CHR ''$'' \<notin> set hashVersion"
  "CHR ''$'' \<notin> set (itoa_loop n [])"
proof -
  have "CHR ''$'' \<notin> set b64_std" by code_simp
  then show "CHR ''$'' \<notin> set (b64_encode b64_std bs)" using b64_encode_set [OF b64_alphabets(1)] by blast
  show "CHR ''$'' \<notin> set hashVersion" by code_simp
  have "\<forall>c \<in> set (itoa_loop n []). is_digit c" using itoa_loop_digits [of "[]" n] by (simp add: list_all_iff)
  then show "CHR ''$'' \<notin> set (itoa_loop n [])" by (auto simp: is_digit_def)
qed

section \<open>Hashing and verifying\<close>

text \<open>A stored hash opens to its password and to nothing that derives another key. Whatever the
  salt, a password of 8 to 128 bytes is hashed, the hash string parses back into the salt, the
  iteration count and the key it was built from, and a password verifies against it exactly when it
  derives the same 64-byte key; passwords of other lengths are refused.\<close>

theorem password_round_trip:
  assumes "\<And>x. length (sha x) = 64"
  shows "if 8 \<le> length pw \<and> length pw \<le> 128
    then \<exists>h. HashPassword sha salt pw = Inr h \<and> VerifyPassword sha pw h = Inr () \<and>
      (\<forall>guess. VerifyPassword sha guess h =
         (if pbkdf2SHA512 sha guess salt 600000 64 = pbkdf2SHA512 sha pw salt 600000 64 then Inr () else Inl ErrHashMismatch))
    else HashPassword sha salt pw = Inl (if length pw < 8 then ErrPasswordTooShort else ErrPasswordTooLong)"
proof (cases "8 \<le> length pw \<and> length pw \<le> 128")
  case True
  let ?dk = "pbkdf2SHA512 sha pw salt 600000 64"
  let ?h = "''$'' @ hashVersion @ ''$'' @ itoa_loop iterations [] @ ''$'' @ b64_encode b64_std salt @ ''$'' @ b64_encode b64_std ?dk"
  have h: "HashPassword sha salt pw = Inr ?h"
    using True by (simp add: HashPassword_def ValidatePassword_def Let_def keyLen_def iterations_def)
  have len: "length ?dk = 64" by (rule length_pbkdf2) (simp add: assms sha_size_def)
  have "Split CHR ''$'' ?h = [[], hashVersion, itoa_loop iterations [], b64_encode b64_std salt, b64_encode b64_std ?dk]"
    using Split_Cons [OF no_dollar(2)] Split_Cons [OF no_dollar(3)] Split_Cons [OF no_dollar(1)] Split_none [OF no_dollar(1)]
    by simp
  moreover have "Atoi (itoa_loop iterations []) = Some 600000"
    using Atoi_itoa [of iterations] by (simp add: iterations_def)
  ultimately have "VerifyPassword sha guess ?h =
      (if pbkdf2SHA512 sha guess salt 600000 64 = ?dk then Inr () else Inl ErrHashMismatch)" for guess
    using len by (simp add: VerifyPassword_def b64_round_trip [OF b64_alphabets(1)])
  then show ?thesis using True h by auto
next
  case False
  then show ?thesis by (auto simp: HashPassword_def ValidatePassword_def)
qed

lemma password_round_trip_witness:
  "\<exists>h. HashPassword (\<lambda>x. copy_into 64 x) ''salt'' ''correct horse'' = Inr h \<and>
     VerifyPassword (\<lambda>x. copy_into 64 x) ''correct horse'' h = Inr ()"
  using password_round_trip [of "\<lambda>x. copy_into 64 x" "''correct horse''" "''salt''"] by auto

end
