(* ===== verification/Token.thy ===== *)
theory Token
  imports GoText
begin

text \<open>
  Access and refresh tokens (\<open>auth/token/token.go\<close>). HMAC-SHA-256, SHA-512 and the JSON form of the
  claims are parameters; base64url and the three-part format are modelled. Times in the claims are
  Unix seconds.
\<close>

record claims =
  cl_AccountID :: string
  cl_DeviceID :: string
  cl_IssuedAt :: int
  cl_ExpiresAt :: int
  cl_Issuer :: string

record token_crypto =
  cr_hmac :: "string \<Rightarrow> string \<Rightarrow> string"     \<comment> \<open>key, data\<close>
  cr_sha512 :: "string \<Rightarrow> string"
  cr_marshal :: "claims \<Rightarrow> string"
  cr_unmarshal :: "string \<Rightarrow> claims option"

record refresh_token =
  rt_Raw :: string
  rt_Hash :: string

datatype token_error =
    ErrTokenExpired
  | ErrTokenInvalid
  | ErrTokenMalformed
  | ErrShortSecret

record token_issuer =
  ti_secret :: string
  ti_issuer :: string
  ti_accessTTL :: duration

text \<open>\<open>t.Unix()\<close> and \<open>time.Unix(s, 0)\<close>; the epoch is so many seconds after Go's zero time.\<close>

definition unix_epoch :: int where "unix_epoch = 62135596800"

definition Unix :: "time \<Rightarrow> int" where
  "Unix t = t div second - unix_epoch"

definition time_Unix :: "int \<Rightarrow> time" where
  "time_Unix s = (s + unix_epoch) * second"

definition NewIssuer :: "string \<Rightarrow> string \<Rightarrow> duration \<Rightarrow> token_error + token_issuer" where
  "NewIssuer secret issuer accessTTL =
     (if length secret < 32 then Inl ErrShortSecret
      else Inr \<lparr>ti_secret = secret, ti_issuer = issuer,
                ti_accessTTL = (if accessTTL \<le> 0 then 15 * minute else accessTTL)\<rparr>)"

definition sign :: "token_crypto \<Rightarrow> token_issuer \<Rightarrow> string \<Rightarrow> string" where
  "sign cr ti data = cr_hmac cr (ti_secret ti) data"

definition base64url :: "string \<Rightarrow> string" where
  "base64url b = b64_encode b64_url b"

definition header_json :: string where
  "header_json = ''{'' @ [CHR 0x22] @ ''alg'' @ [CHR 0x22] @ '':'' @ [CHR 0x22] @ ''HS256'' @ [CHR 0x22] @ '','' @
     [CHR 0x22] @ ''typ'' @ [CHR 0x22] @ '':'' @ [CHR 0x22] @ ''JWT'' @ [CHR 0x22] @ ''}''"

definition IssueAccessToken :: "token_crypto \<Rightarrow> token_issuer \<Rightarrow> time \<Rightarrow> string \<Rightarrow> string \<Rightarrow> string \<times> claims" where
  "IssueAccessToken cr ti now accountID deviceID =
     (let claims = \<lparr>cl_AccountID = accountID, cl_DeviceID = deviceID, cl_IssuedAt = Unix now,
                    cl_ExpiresAt = Unix (now + ti_accessTTL ti), cl_Issuer = ti_issuer ti\<rparr>;
          header = base64url header_json;
          payload = base64url (cr_marshal cr claims);
          unsigned = header @ ''.'' @ payload;
          sig = sign cr ti unsigned
      in (unsigned @ ''.'' @ base64url sig, claims))"

definition VerifyAccessToken :: "token_crypto \<Rightarrow> token_issuer \<Rightarrow> time \<Rightarrow> string \<Rightarrow> token_error + claims" where
  "VerifyAccessToken cr ti now raw =
     (case Split CHR ''.'' raw of
        [p0, p1, p2] \<Rightarrow>
          (case b64_decode b64_url p2 of
             None \<Rightarrow> Inl ErrTokenMalformed
           | Some sig \<Rightarrow>
               if sig \<noteq> sign cr ti (p0 @ ''.'' @ p1) then Inl ErrTokenInvalid
               else
                 (case b64_decode b64_url p1 of
                    None \<Rightarrow> Inl ErrTokenMalformed
                  | Some payloadJSON \<Rightarrow>
                      (case cr_unmarshal cr payloadJSON of
                         None \<Rightarrow> Inl ErrTokenMalformed
                       | Some claims \<Rightarrow>
                           if cl_ExpiresAt claims < Unix now then Inl ErrTokenExpired
                           else if cl_Issuer claims \<noteq> ti_issuer ti then Inl ErrTokenInvalid
                           else Inr claims)))
      | _ \<Rightarrow> Inl ErrTokenMalformed)"

text \<open>The 48 random bytes are an argument.\<close>

definition hashRefreshToken :: "token_crypto \<Rightarrow> string \<Rightarrow> string" where
  "hashRefreshToken cr raw = cr_sha512 cr raw"

definition HashRefreshTokenForLookup :: "token_crypto \<Rightarrow> string \<Rightarrow> string" where
  "HashRefreshTokenForLookup cr raw = hashRefreshToken cr raw"

definition IssueRefreshToken :: "token_crypto \<Rightarrow> string \<Rightarrow> refresh_token" where
  "IssueRefreshToken cr random =
     (let raw = b64_encode b64_url random in \<lparr>rt_Raw = raw, rt_Hash = hashRefreshToken cr raw\<rparr>)"

section \<open>What a token proves\<close>

lemma no_dot: "CHR ''.'' \<notin> set (base64url b)"
proof -
  have "CHR ''.'' \<notin> set b64_url" by code_simp
  then show ?thesis using b64_encode_set [OF b64_alphabets(2), of b] by (auto simp: base64url_def)
qed

text \<open>An issued token is accepted, with its claims, until it expires.\<close>

lemma verify_issued:
  assumes "IssueAccessToken cr ti issued a d = (raw, c)" and "cr_unmarshal cr (cr_marshal cr c) = Some c"
  shows "VerifyAccessToken cr ti now raw = (if Unix now \<le> Unix (issued + ti_accessTTL ti) then Inr c else Inl ErrTokenExpired) \<and>
    cl_AccountID c = a \<and> cl_DeviceID c = d"
proof -
  have "Split CHR ''.'' (base64url x @ ''.'' @ base64url y @ ''.'' @ base64url z) = [base64url x, base64url y, base64url z]" for x y z
    using Split_Cons [OF no_dot] Split_none [OF no_dot] by simp
  moreover have "b64_decode b64_url (base64url x) = Some x" for x
    unfolding base64url_def by (rule b64_round_trip [OF b64_alphabets(2)])
  ultimately show ?thesis
    using assms by (auto simp: IssueAccessToken_def VerifyAccessToken_def Let_def sign_def)
qed

text \<open>Whatever is accepted carries a valid keyed digest.\<close>

lemma verify_signed:
  assumes "VerifyAccessToken cr ti now raw = Inr c"
  shows "\<exists>h p sg. raw = h @ ''.'' @ p @ ''.'' @ sg \<and>
    b64_decode b64_url sg = Some (cr_hmac cr (ti_secret ti) (h @ ''.'' @ p)) \<and>
    Option.bind (b64_decode b64_url p) (cr_unmarshal cr) = Some c \<and>
    Unix now \<le> cl_ExpiresAt c \<and> cl_Issuer c = ti_issuer ti"
proof -
  have three: "raw = p0 @ ''.'' @ p1 @ ''.'' @ p2" if "Split CHR ''.'' raw = [p0, p1, p2]" for raw p0 p1 p2
  proof -
    have join: "s = (case Split c s of [] \<Rightarrow> [] | p # ps \<Rightarrow> p @ concat (map (\<lambda>q. c # q) ps)) \<and> Split c s \<noteq> []" for c s
    proof (induction c s rule: Split.induct)
      case (2 c x xs)
      then show ?case by (cases "x = c"; cases "Split c xs") auto
    qed simp
    show ?thesis using join [of raw "CHR ''.''"] that by simp
  qed
  obtain p0 p1 p2 where s: "Split CHR ''.'' raw = [p0, p1, p2]"
    using assms by (auto simp: VerifyAccessToken_def split: list.splits)
  then show ?thesis
    using assms three [OF s]
    by (intro exI [of _ p0] exI [of _ p1] exI [of _ p2])
      (auto simp: VerifyAccessToken_def sign_def split: option.splits if_splits)
qed

text \<open>Access tokens. A token issued to an account is accepted, with exactly its claims, until
  its lifetime is over and then refused as expired; and whatever string is accepted carries the
  keyed digest of its own header and payload, a payload that decodes to the claims returned, an
  expiry not yet past and this issuer's name. (The JSON form of the issued claims reads back.)\<close>

theorem access_token_round_trip:
  assumes "\<And>c. snd (IssueAccessToken cr ti issued a d) = c \<Longrightarrow> cr_unmarshal cr (cr_marshal cr c) = Some c"
  shows "(case IssueAccessToken cr ti issued a d of
      (raw, c) \<Rightarrow> cl_AccountID c = a \<and> cl_DeviceID c = d \<and>
        VerifyAccessToken cr ti now raw =
          (if Unix now \<le> Unix (issued + ti_accessTTL ti) then Inr c else Inl ErrTokenExpired)) \<and>
    (VerifyAccessToken cr ti now raw' = Inr c' \<longrightarrow>
       (\<exists>h p sg. raw' = h @ ''.'' @ p @ ''.'' @ sg \<and>
          b64_decode b64_url sg = Some (cr_hmac cr (ti_secret ti) (h @ ''.'' @ p)) \<and>
          Option.bind (b64_decode b64_url p) (cr_unmarshal cr) = Some c' \<and>
          Unix now \<le> cl_ExpiresAt c' \<and> cl_Issuer c' = ti_issuer ti))"
proof -
  have "case IssueAccessToken cr ti issued a d of
      (raw, c) \<Rightarrow> cl_AccountID c = a \<and> cl_DeviceID c = d \<and>
        VerifyAccessToken cr ti now raw =
          (if Unix now \<le> Unix (issued + ti_accessTTL ti) then Inr c else Inl ErrTokenExpired)"
    using verify_issued [where cr = cr and ti = ti and issued = issued and a = a and d = d and now = now] assms
    by (auto split: prod.split)
  then show ?thesis using verify_signed [of cr ti now raw' c'] by blast
qed

text \<open>A crypto whose JSON knows one record of claims.\<close>

definition demo_issuer :: token_issuer where
  "demo_issuer = \<lparr>ti_secret = ''0123456789abcdef0123456789abcdef'', ti_issuer = ''lumena-api'', ti_accessTTL = 15 * minute\<rparr>"

definition demo_claims :: claims where
  "demo_claims = \<lparr>cl_AccountID = ''acc-0001'', cl_DeviceID = ''dev'', cl_IssuedAt = Unix 0, cl_ExpiresAt = Unix (15 * minute),
     cl_Issuer = ''lumena-api''\<rparr>"

definition demo_crypto :: token_crypto where
  "demo_crypto = \<lparr>cr_hmac = (\<lambda>k d. rev k @ d), cr_sha512 = (\<lambda>x. x),
     cr_marshal = (\<lambda>c. cl_AccountID c), cr_unmarshal = (\<lambda>s. Some demo_claims)\<rparr>"

lemma access_token_round_trip_witness:
  "\<exists>raw. IssueAccessToken demo_crypto demo_issuer 0 ''acc-0001'' ''dev'' = (raw, demo_claims) \<and>
     VerifyAccessToken demo_crypto demo_issuer (10 * minute) raw = Inr demo_claims \<and>
     VerifyAccessToken demo_crypto demo_issuer (20 * minute) raw = Inl ErrTokenExpired"
proof -
  have c: "snd (IssueAccessToken demo_crypto demo_issuer 0 ''acc-0001'' ''dev'') = demo_claims"
    by (simp add: IssueAccessToken_def demo_claims_def demo_issuer_def Let_def)
  have u: "snd (IssueAccessToken demo_crypto demo_issuer 0 ''acc-0001'' ''dev'') = c \<Longrightarrow>
      cr_unmarshal demo_crypto (cr_marshal demo_crypto c) = Some c" for c
    using c by (simp add: demo_crypto_def)
  obtain raw where raw: "IssueAccessToken demo_crypto demo_issuer 0 ''acc-0001'' ''dev'' = (raw, demo_claims)"
    using c by (metis prod.collapse)
  have "Unix (10 * minute) \<le> Unix (0 + ti_accessTTL demo_issuer)" "\<not> Unix (20 * minute) \<le> Unix (0 + ti_accessTTL demo_issuer)"
    by (simp_all add: Unix_def demo_issuer_def)
  then have "VerifyAccessToken demo_crypto demo_issuer (10 * minute) raw = Inr demo_claims"
    "VerifyAccessToken demo_crypto demo_issuer (20 * minute) raw = Inl ErrTokenExpired"
    using access_token_round_trip [where cr = demo_crypto and ti = demo_issuer and issued = 0 and
        a = "''acc-0001''" and d = "''dev''" and now = "10 * minute", OF u, THEN conjunct1]
      access_token_round_trip [where cr = demo_crypto and ti = demo_issuer and issued = 0 and
        a = "''acc-0001''" and d = "''dev''" and now = "20 * minute", OF u, THEN conjunct1]
    unfolding raw by (simp_all only: prod.case if_True if_False)
  then show ?thesis using raw by blast
qed

end
