(* ===== verification/Auth.thy ===== *)
theory Auth
  imports OTP Password Token
begin

text \<open>
  Accounts, sessions and sign-in: the in-memory repository (\<open>auth/memrepo/repo.go\<close>) and the service
  (\<open>auth/authsvc/service.go\<close>). Random values (challenge ID and code, salt, refresh token) are
  arguments, as are the crypto primitives and the calendar of the \<open>time\<close> package. Where the
  repository looks for a session by its ID it ranges over a Go map, and the order it meets the
  entries in is an argument too. One clock reading per call.
\<close>

section \<open>Data\<close>

datatype account_status = StatusActive | StatusRestricted | StatusSuspended | StatusDeleted

text \<open>\<open>AgeUnset\<close> is the zero value read for an unknown account.\<close>

datatype age_status = AgeUnset | AgeUndeclared | AgeDeclared | AgeAssured | AgeFailed

definition MinimumAge :: int where "MinimumAge = 18"

record account =
  ac_ID :: string
  ac_PhoneE164 :: "string option"
  ac_Email :: "string option"
  ac_Status :: account_status
  ac_RegionCode :: string
  ac_AgeStatus :: age_status
  ac_IsNewAccount :: bool
  ac_CreatedAt :: time

record token_pair =
  tp_AccessToken :: string
  tp_RefreshToken :: string
  tp_ExpiresAt :: time

record session =
  as_ID :: string
  as_AccountID :: string
  as_DeviceID :: string
  as_TokenHash :: string
  as_RevokedAt :: "time option"

datatype auth_error =
    AuthOTPError otp_error
  | AuthPasswordError password_error
  | InvalidPhone
  | InvalidEmail
  | EmailAlreadyRegistered
  | InvalidCredentials
  | AccountUnavailable
  | AuthAccountNotFound
  | SessionNotFound
  | RefreshTokenReuse
  | ErrUnderAgeMinimum
  | AuthRepoNotFound

section \<open>The repository\<close>

record mem_auth =
  ma_accounts :: "(string \<times> account) list"
  ma_byPhone :: "(string \<times> string) list"
  ma_byEmail :: "(string \<times> string) list"
  ma_hashes :: "(string \<times> string) list"
  ma_sessions :: "(string \<times> session) list"
  ma_ages :: "(string \<times> time) list"
  ma_ageStatus :: "(string \<times> age_status) list"
  ma_nextID :: nat

definition NewMemAuth :: mem_auth where
  "NewMemAuth = \<lparr>ma_accounts = [], ma_byPhone = [], ma_byEmail = [], ma_hashes = [], ma_sessions = [],
     ma_ages = [], ma_ageStatus = [], ma_nextID = 0\<rparr>"

text \<open>An index entry always has its account.\<close>

definition FindByPhone :: "mem_auth \<Rightarrow> string \<Rightarrow> account option" where
  "FindByPhone m phone = Option.bind (map_of (ma_byPhone m) phone) (map_of (ma_accounts m))"

definition FindByEmail :: "mem_auth \<Rightarrow> string \<Rightarrow> account option" where
  "FindByEmail m email = Option.bind (map_of (ma_byEmail m) (ToLower email)) (map_of (ma_accounts m))"

definition FindByID :: "mem_auth \<Rightarrow> string \<Rightarrow> account option" where
  "FindByID m i = map_of (ma_accounts m) i"

definition account_name :: "nat \<Rightarrow> string" where
  "account_name n = ''acc-'' @ dec04 n"

definition CreateAccount :: "mem_auth \<Rightarrow> time \<Rightarrow> string option \<Rightarrow> string option \<Rightarrow> string \<Rightarrow> account \<times> mem_auth" where
  "CreateAccount m now phone email region =
     (let n = ma_nextID m + 1;
          i = account_name n;
          acc = \<lparr>ac_ID = i, ac_PhoneE164 = phone, ac_Email = email, ac_Status = StatusActive, ac_RegionCode = region,
                 ac_AgeStatus = AgeUndeclared, ac_IsNewAccount = False, ac_CreatedAt = now\<rparr>
      in (acc, m\<lparr>ma_nextID := n, ma_accounts := AList.update i acc (ma_accounts m),
              ma_byPhone := (case phone of None \<Rightarrow> ma_byPhone m | Some p \<Rightarrow> AList.update p i (ma_byPhone m)),
              ma_byEmail := (case email of None \<Rightarrow> ma_byEmail m | Some e \<Rightarrow> AList.update (ToLower e) i (ma_byEmail m)),
              ma_ageStatus := AList.update i AgeUndeclared (ma_ageStatus m)\<rparr>))"

definition GetPasswordHash :: "mem_auth \<Rightarrow> string \<Rightarrow> auth_error + string" where
  "GetPasswordHash m i = (case map_of (ma_hashes m) i of None \<Rightarrow> Inl AuthRepoNotFound | Some h \<Rightarrow> Inr h)"

definition SetPasswordHash :: "mem_auth \<Rightarrow> string \<Rightarrow> string \<Rightarrow> mem_auth" where
  "SetPasswordHash m i h = m\<lparr>ma_hashes := AList.update i h (ma_hashes m)\<rparr>"

definition session_name :: "string \<Rightarrow> string \<Rightarrow> string" where
  "session_name accountID deviceID = ''sess-'' @ accountID @ ''-'' @ take 4 deviceID"

definition CreateSession :: "mem_auth \<Rightarrow> string \<Rightarrow> string \<Rightarrow> string \<Rightarrow> string \<times> mem_auth" where
  "CreateSession m accountID deviceID tokenHash =
     (let sessID = session_name accountID deviceID
      in (sessID, m\<lparr>ma_sessions := AList.update tokenHash \<lparr>as_ID = sessID, as_AccountID = accountID,
            as_DeviceID = deviceID, as_TokenHash = tokenHash, as_RevokedAt = None\<rparr> (ma_sessions m)\<rparr>))"

definition isDeviceRevoked :: "mem_auth \<Rightarrow> string \<Rightarrow> string \<Rightarrow> bool" where
  "isDeviceRevoked m accountID deviceID \<longleftrightarrow>
     list_ex (\<lambda>(h, sess). as_AccountID sess = accountID \<and> as_DeviceID sess = deviceID \<and> as_RevokedAt sess \<noteq> None) (ma_sessions m)"

definition GetSession :: "mem_auth \<Rightarrow> time \<Rightarrow> string \<Rightarrow> auth_error + session" where
  "GetSession m now tokenHash =
     (case map_of (ma_sessions m) tokenHash of
        None \<Rightarrow> Inl SessionNotFound
      | Some cp \<Rightarrow>
          if as_RevokedAt cp = None \<and> isDeviceRevoked m (as_AccountID cp) (as_DeviceID cp)
          then Inr (cp\<lparr>as_RevokedAt := Some now\<rparr>)
          else Inr cp)"

definition GetActiveSession :: "mem_auth \<Rightarrow> string \<Rightarrow> auth_error + session" where
  "GetActiveSession m tokenHash =
     (case map_of (ma_sessions m) tokenHash of
        None \<Rightarrow> Inl SessionNotFound
      | Some sess \<Rightarrow> if as_RevokedAt sess \<noteq> None then Inl SessionNotFound else Inr sess)"

type_synonym session_order = "(string \<times> session) list \<Rightarrow> (string \<times> session) list"

text \<open>The first entry with the ID, in the order of the iteration.\<close>

definition find_session :: "session_order \<Rightarrow> mem_auth \<Rightarrow> string \<Rightarrow> (string \<times> session) option" where
  "find_session ord m sessionID = List.find (\<lambda>(h, sess). as_ID sess = sessionID) (ord (ma_sessions m))"

definition RotateSession :: "session_order \<Rightarrow> mem_auth \<Rightarrow> time \<Rightarrow> string \<Rightarrow> string \<Rightarrow> (auth_error + unit) \<times> mem_auth" where
  "RotateSession ord m now sessionID newTokenHash =
     (case find_session ord m sessionID of
        None \<Rightarrow> (Inl SessionNotFound, m)
      | Some (h, sess) \<Rightarrow>
          (Inr (), m\<lparr>ma_sessions :=
             AList.update newTokenHash (sess\<lparr>as_TokenHash := newTokenHash, as_RevokedAt := None\<rparr>)
               (AList.update h (sess\<lparr>as_TokenHash := h, as_RevokedAt := Some now\<rparr>) (ma_sessions m))\<rparr>))"

definition RevokeSession :: "session_order \<Rightarrow> mem_auth \<Rightarrow> time \<Rightarrow> string \<Rightarrow> mem_auth" where
  "RevokeSession ord m now sessionID =
     (case find_session ord m sessionID of
        None \<Rightarrow> m
      | Some (h, sess) \<Rightarrow> m\<lparr>ma_sessions := AList.update h (sess\<lparr>as_RevokedAt := Some now\<rparr>) (ma_sessions m)\<rparr>)"

definition RevokeAllDeviceSessions :: "mem_auth \<Rightarrow> time \<Rightarrow> string \<Rightarrow> string \<Rightarrow> mem_auth" where
  "RevokeAllDeviceSessions m now accountID deviceID =
     m\<lparr>ma_sessions := map (\<lambda>(h, sess).
         (h, if as_AccountID sess = accountID \<and> (deviceID = [] \<or> as_DeviceID sess = deviceID)
             then sess\<lparr>as_RevokedAt := Some now\<rparr> else sess)) (ma_sessions m)\<rparr>"

definition set_account :: "mem_auth \<Rightarrow> string \<Rightarrow> (account \<Rightarrow> account) \<Rightarrow> mem_auth" where
  "set_account m i f =
     (case map_of (ma_accounts m) i of
        None \<Rightarrow> m
      | Some acc \<Rightarrow> m\<lparr>ma_accounts := AList.update i (f acc) (ma_accounts m)\<rparr>)"

definition MemDeclareAge :: "mem_auth \<Rightarrow> string \<Rightarrow> time \<Rightarrow> mem_auth" where
  "MemDeclareAge m i dob =
     set_account (m\<lparr>ma_ages := AList.update i dob (ma_ages m), ma_ageStatus := AList.update i AgeDeclared (ma_ageStatus m)\<rparr>)
       i (\<lambda>acc. acc\<lparr>ac_AgeStatus := AgeDeclared\<rparr>)"

definition SetAgeStatus :: "mem_auth \<Rightarrow> string \<Rightarrow> age_status \<Rightarrow> mem_auth" where
  "SetAgeStatus m i status =
     set_account (m\<lparr>ma_ageStatus := AList.update i status (ma_ageStatus m)\<rparr>) i (\<lambda>acc. acc\<lparr>ac_AgeStatus := status\<rparr>)"

definition MemGetAgeStatus :: "mem_auth \<Rightarrow> string \<Rightarrow> age_status \<times> time option" where
  "MemGetAgeStatus m i =
     (case map_of (ma_ageStatus m) i of None \<Rightarrow> AgeUnset | Some s \<Rightarrow> s, map_of (ma_ages m) i)"

definition MarkAccountDeleted :: "mem_auth \<Rightarrow> string \<Rightarrow> (auth_error + unit) \<times> mem_auth" where
  "MarkAccountDeleted m i =
     (case map_of (ma_accounts m) i of
        None \<Rightarrow> (Inl AuthRepoNotFound, m)
      | Some acc \<Rightarrow> (Inr (), set_account m i (\<lambda>acc. acc\<lparr>ac_Status := StatusDeleted\<rparr>)))"

definition MemSetAccountStatus :: "mem_auth \<Rightarrow> string \<Rightarrow> account_status \<Rightarrow> (auth_error + unit) \<times> mem_auth" where
  "MemSetAccountStatus m i status =
     (case map_of (ma_accounts m) i of
        None \<Rightarrow> (Inl AuthRepoNotFound, m)
      | Some acc \<Rightarrow> (Inr (), set_account m i (\<lambda>acc. acc\<lparr>ac_Status := status\<rparr>)))"

definition MemCancelDeletion :: "mem_auth \<Rightarrow> string \<Rightarrow> (auth_error + unit) \<times> mem_auth" where
  "MemCancelDeletion m i =
     (case map_of (ma_accounts m) i of
        None \<Rightarrow> (Inl AuthRepoNotFound, m)
      | Some acc \<Rightarrow>
          (Inr (), if ac_Status acc = StatusDeleted then set_account m i (\<lambda>acc. acc\<lparr>ac_Status := StatusActive\<rparr>) else m))"

section \<open>The service\<close>

record auth_service =
  sv_crypto :: token_crypto
  sv_issuer :: token_issuer
  sv_onAuthEvent :: bool
  sv_onDeviceLogin :: bool
  sv_civil :: "time \<Rightarrow> int \<times> int \<times> int"   \<comment> \<open>year, month, day\<close>

record auth_world =
  aw_repo :: mem_auth
  aw_otp :: otp_store

text \<open>What the hooks were told.\<close>

datatype auth_note =
    AuthEvent string string      \<comment> \<open>account, event\<close>
  | DeviceLogin string string    \<comment> \<open>account, device\<close>

text \<open>\<open>^\+[1-9]\d{6,14}$\<close>\<close>

definition validatePhone :: "string \<Rightarrow> bool" where
  "validatePhone phone \<longleftrightarrow>
     (case phone of
        c # d # ds \<Rightarrow> c = CHR ''+'' \<and> is_digit d \<and> d \<noteq> CHR ''0'' \<and> list_all is_digit ds \<and>
          6 \<le> length ds \<and> length ds \<le> 14
      | _ \<Rightarrow> False)"

definition normalizeEmail :: "string \<Rightarrow> string" where
  "normalizeEmail email = ToLower (TrimSpace email)"

definition auth_event :: "auth_service \<Rightarrow> string \<Rightarrow> string \<Rightarrow> auth_note list" where
  "auth_event s accountID event = (if sv_onAuthEvent s then [AuthEvent accountID event] else [])"

definition issueTokens :: "auth_service \<Rightarrow> auth_world \<Rightarrow> time \<Rightarrow> string \<Rightarrow> string \<Rightarrow> string \<Rightarrow>
    token_pair \<times> auth_world \<times> auth_note list" where
  "issueTokens s w now random accountID deviceID =
     (let (accessToken, claims) = IssueAccessToken (sv_crypto s) (sv_issuer s) now accountID deviceID;
          rt = IssueRefreshToken (sv_crypto s) random;
          m = snd (CreateSession (aw_repo w) accountID deviceID (rt_Hash rt))
      in (\<lparr>tp_AccessToken = accessToken, tp_RefreshToken = rt_Raw rt, tp_ExpiresAt = time_Unix (cl_ExpiresAt claims)\<rparr>,
          w\<lparr>aw_repo := m\<rparr>,
          if sv_onDeviceLogin s \<and> deviceID \<noteq> [] then [DeviceLogin accountID deviceID] else []))"

definition StartPhoneAuth :: "auth_world \<Rightarrow> time \<Rightarrow> string \<Rightarrow> string \<Rightarrow> string \<Rightarrow> (auth_error + string \<times> time) \<times> auth_world" where
  "StartPhoneAuth w now newID newCode phone =
     (if \<not> validatePhone phone then (Inl InvalidPhone, w)
      else (case StartOTP (aw_otp w) now newID newCode phone of
              (Inl err, o') \<Rightarrow> (Inl (AuthOTPError err), w\<lparr>aw_otp := o'\<rparr>)
            | (Inr r, o') \<Rightarrow> (Inr r, w\<lparr>aw_otp := o'\<rparr>)))"

definition getOrCreateByPhone :: "auth_service \<Rightarrow> auth_world \<Rightarrow> time \<Rightarrow> string \<Rightarrow> string option \<Rightarrow> string \<Rightarrow> string \<Rightarrow>
    (auth_error + account \<times> token_pair) \<times> auth_world \<times> auth_note list" where
  "getOrCreateByPhone s w now random phone deviceID region =
     (let found = (case phone of None \<Rightarrow> None | Some p \<Rightarrow> FindByPhone (aw_repo w) p);
          isNew = (found = None);
          (acc, w) =
            (case found of
               None \<Rightarrow> (let (acc, m) = CreateAccount (aw_repo w) now phone None region
                         in (acc\<lparr>ac_IsNewAccount := True\<rparr>, w\<lparr>aw_repo := m\<rparr>))
             | Some acc \<Rightarrow> (acc, w))
      in if ac_Status acc = StatusSuspended \<or> ac_Status acc = StatusDeleted then (Inl AccountUnavailable, w, [])
         else
           (let (pair, w, ns) = issueTokens s w now random (ac_ID acc) deviceID
            in (Inr (acc, pair), w, ns @ auth_event s (ac_ID acc) (if isNew then ''account_created'' else ''login''))))"

definition CompletePhoneAuth :: "auth_service \<Rightarrow> auth_world \<Rightarrow> time \<Rightarrow> string \<Rightarrow> string \<Rightarrow> string \<Rightarrow> string \<Rightarrow> string \<Rightarrow>
    (auth_error + account \<times> token_pair) \<times> auth_world \<times> auth_note list" where
  "CompletePhoneAuth s w now random challengeID code deviceID region =
     (case VerifyOTP (aw_otp w) now challengeID code of
        (Inl err, o') \<Rightarrow> (Inl (AuthOTPError err), w\<lparr>aw_otp := o'\<rparr>, [])
      | (Inr _, o') \<Rightarrow> getOrCreateByPhone s (w\<lparr>aw_otp := o'\<rparr>) now random None deviceID region)"

definition CompletePhoneAuthWithPhone :: "auth_service \<Rightarrow> auth_world \<Rightarrow> time \<Rightarrow> string \<Rightarrow> string \<Rightarrow> string \<Rightarrow> string \<Rightarrow>
    string \<Rightarrow> string \<Rightarrow> (auth_error + account \<times> token_pair) \<times> auth_world \<times> auth_note list" where
  "CompletePhoneAuthWithPhone s w now random phone challengeID code deviceID region =
     (case VerifyOTP (aw_otp w) now challengeID code of
        (Inl err, o') \<Rightarrow> (Inl (AuthOTPError err), w\<lparr>aw_otp := o'\<rparr>, [])
      | (Inr _, o') \<Rightarrow> getOrCreateByPhone s (w\<lparr>aw_otp := o'\<rparr>) now random (Some phone) deviceID region)"

definition RegisterEmail :: "auth_service \<Rightarrow> auth_world \<Rightarrow> time \<Rightarrow> string \<Rightarrow> string \<Rightarrow> string \<Rightarrow> string \<Rightarrow> string \<Rightarrow> string \<Rightarrow>
    (auth_error + account \<times> token_pair) \<times> auth_world \<times> auth_note list" where
  "RegisterEmail s w now salt random email pw deviceID region =
     (let email = normalizeEmail email
      in if email = [] then (Inl InvalidEmail, w, [])
         else
           (case ValidatePassword pw of
              Inl err \<Rightarrow> (Inl (AuthPasswordError err), w, [])
            | Inr _ \<Rightarrow>
                if FindByEmail (aw_repo w) email \<noteq> None then (Inl EmailAlreadyRegistered, w, [])
                else
                  (case HashPassword (cr_sha512 (sv_crypto s)) salt pw of
                     Inl err \<Rightarrow> (Inl (AuthPasswordError err), w, [])
                   | Inr h \<Rightarrow>
                       (let (acc, m) = CreateAccount (aw_repo w) now None (Some email) region;
                            m = SetPasswordHash m (ac_ID acc) h;
                            (pair, w, ns) = issueTokens s (w\<lparr>aw_repo := m\<rparr>) now random (ac_ID acc) deviceID
                        in (Inr (acc\<lparr>ac_IsNewAccount := True\<rparr>, pair), w, ns @ auth_event s (ac_ID acc) ''account_created'')))))"

definition dummy_hash :: string where
  "dummy_hash = ''$pbkdf2-sha512-v1$600000$AAAAAAAAAAAAAAAAAAAAAAAAAAAAAAAAAAAAAAAAAAA$'' @ replicate 86 CHR ''A''"

definition LoginEmail :: "auth_service \<Rightarrow> auth_world \<Rightarrow> time \<Rightarrow> string \<Rightarrow> string \<Rightarrow> string \<Rightarrow> string \<Rightarrow>
    (auth_error + account \<times> token_pair) \<times> auth_world \<times> auth_note list" where
  "LoginEmail s w now random email pw deviceID =
     (let email = normalizeEmail email;
          found = FindByEmail (aw_repo w) email;
          storedHash =
            (case found of
               Some acc \<Rightarrow> (case GetPasswordHash (aw_repo w) (ac_ID acc) of Inl _ \<Rightarrow> [] | Inr h \<Rightarrow> h)
             | None \<Rightarrow> dummy_hash);
          verified = VerifyPassword (cr_sha512 (sv_crypto s)) pw storedHash
      in case (found, verified) of
           (Some acc, Inr _) \<Rightarrow>
             if ac_Status acc = StatusSuspended \<or> ac_Status acc = StatusDeleted then (Inl AccountUnavailable, w, [])
             else
               (let (pair, w, ns) = issueTokens s w now random (ac_ID acc) deviceID
                in (Inr (acc, pair), w, ns @ auth_event s (ac_ID acc) ''login''))
         | _ \<Rightarrow> (Inl InvalidCredentials, w, []))"

definition RefreshTokens :: "auth_service \<Rightarrow> session_order \<Rightarrow> auth_world \<Rightarrow> time \<Rightarrow> string \<Rightarrow> string \<Rightarrow> string \<Rightarrow>
    (auth_error + token_pair) \<times> auth_world" where
  "RefreshTokens s ord w now random rawRefreshToken deviceID =
     (let h = HashRefreshTokenForLookup (sv_crypto s) rawRefreshToken
      in case GetSession (aw_repo w) now h of
           Inl _ \<Rightarrow> (Inl SessionNotFound, w)
         | Inr sess \<Rightarrow>
             if as_RevokedAt sess \<noteq> None
             then (Inl RefreshTokenReuse,
                   w\<lparr>aw_repo := RevokeAllDeviceSessions (aw_repo w) now (as_AccountID sess) (as_DeviceID sess)\<rparr>)
             else
               (case FindByID (aw_repo w) (as_AccountID sess) of
                  None \<Rightarrow> (Inl AuthAccountNotFound, w)
                | Some acc \<Rightarrow>
                    if ac_Status acc \<noteq> StatusActive then (Inl AccountUnavailable, w)
                    else
                      (let claims = snd (IssueAccessToken (sv_crypto s) (sv_issuer s) now (ac_ID acc) deviceID);
                           newRT = IssueRefreshToken (sv_crypto s) random
                       in case RotateSession ord (aw_repo w) now (as_ID sess) (rt_Hash newRT) of
                            (Inl err, m) \<Rightarrow> (Inl err, w\<lparr>aw_repo := m\<rparr>)
                          | (Inr _, m) \<Rightarrow>
                              (Inr \<lparr>tp_AccessToken = fst (IssueAccessToken (sv_crypto s) (sv_issuer s) now (ac_ID acc) deviceID),
                                    tp_RefreshToken = rt_Raw newRT, tp_ExpiresAt = time_Unix (cl_ExpiresAt claims)\<rparr>,
                               w\<lparr>aw_repo := m\<rparr>))))"

definition Logout :: "auth_service \<Rightarrow> session_order \<Rightarrow> auth_world \<Rightarrow> time \<Rightarrow> string \<Rightarrow> auth_world" where
  "Logout s ord w now rawRefreshToken =
     (case GetSession (aw_repo w) now (HashRefreshTokenForLookup (sv_crypto s) rawRefreshToken) of
        Inl _ \<Rightarrow> w
      | Inr sess \<Rightarrow> w\<lparr>aw_repo := RevokeSession ord (aw_repo w) now (as_ID sess)\<rparr>)"

definition ageInYears :: "(time \<Rightarrow> int \<times> int \<times> int) \<Rightarrow> time \<Rightarrow> time \<Rightarrow> int" where
  "ageInYears civil now dob =
     (let (y, m, d) = civil now; (y', m', d') = civil dob; years = y - y'
      in if m < m' \<or> m = m' \<and> d < d' then years - 1 else years)"

definition DeclareAge :: "auth_service \<Rightarrow> auth_world \<Rightarrow> time \<Rightarrow> string \<Rightarrow> time \<Rightarrow> (auth_error + unit) \<times> auth_world" where
  "DeclareAge s w now accountID dob =
     (if ageInYears (sv_civil s) now dob < MinimumAge then (Inl ErrUnderAgeMinimum, w)
      else (Inr (), w\<lparr>aw_repo := MemDeclareAge (aw_repo w) accountID dob\<rparr>))"

definition GetAgeStatus :: "auth_world \<Rightarrow> string \<Rightarrow> age_status" where
  "GetAgeStatus w accountID = fst (MemGetAgeStatus (aw_repo w) accountID)"

definition GetAccountStatus :: "auth_world \<Rightarrow> string \<Rightarrow> auth_error + account_status" where
  "GetAccountStatus w accountID =
     (case FindByID (aw_repo w) accountID of None \<Rightarrow> Inl AuthAccountNotFound | Some acc \<Rightarrow> Inr (ac_Status acc))"

definition GetAccountCreatedAt :: "auth_world \<Rightarrow> string \<Rightarrow> auth_error + time" where
  "GetAccountCreatedAt w accountID =
     (case FindByID (aw_repo w) accountID of None \<Rightarrow> Inl AuthAccountNotFound | Some acc \<Rightarrow> Inr (ac_CreatedAt acc))"

definition lift_repo :: "(auth_error + unit) \<times> mem_auth \<Rightarrow> auth_world \<Rightarrow> (auth_error + unit) \<times> auth_world" where
  "lift_repo rm w = (fst rm, w\<lparr>aw_repo := snd rm\<rparr>)"

definition SetAccountStatus :: "auth_world \<Rightarrow> string \<Rightarrow> account_status \<Rightarrow> (auth_error + unit) \<times> auth_world" where
  "SetAccountStatus w accountID status = lift_repo (MemSetAccountStatus (aw_repo w) accountID status) w"

definition DevAssureAge :: "auth_world \<Rightarrow> string \<Rightarrow> auth_world" where
  "DevAssureAge w accountID = w\<lparr>aw_repo := SetAgeStatus (aw_repo w) accountID AgeAssured\<rparr>"

definition StartRecovery :: "auth_service \<Rightarrow> time \<Rightarrow> string \<Rightarrow> string \<Rightarrow> string \<times> time" where
  "StartRecovery s now random identifier =
     (rt_Raw (IssueRefreshToken (sv_crypto s) random), now + 30 * minute)"

definition RequestDeletion :: "auth_world \<Rightarrow> string \<Rightarrow> (auth_error + unit) \<times> auth_world" where
  "RequestDeletion w accountID = lift_repo (MarkAccountDeleted (aw_repo w) accountID) w"

definition CancelDeletion :: "auth_world \<Rightarrow> string \<Rightarrow> (auth_error + unit) \<times> auth_world" where
  "CancelDeletion w accountID = lift_repo (MemCancelDeletion (aw_repo w) accountID) w"

section \<open>Calls in sequence\<close>

datatype auth_call =
    CallStartPhone string string string                        \<comment> \<open>new ID, new code, phone\<close>
  | CallCompletePhone string string string string string string \<comment> \<open>random, phone, challenge, code, device, region\<close>
  | CallRegister string string string string string string      \<comment> \<open>salt, random, email, password, device, region\<close>
  | CallLogin string string string string                       \<comment> \<open>random, email, password, device\<close>
  | CallRefresh session_order string string string              \<comment> \<open>random, token, device\<close>
  | CallLogout session_order string
  | CallDeclareAge string time
  | CallAssureAge string
  | CallSetStatus string account_status
  | CallRequestDeletion string
  | CallCancelDeletion string

fun auth_do :: "auth_service \<Rightarrow> auth_world \<Rightarrow> time \<times> auth_call \<Rightarrow> auth_world" where
  "auth_do s w (now, CallStartPhone i c phone) = snd (StartPhoneAuth w now i c phone)"
| "auth_do s w (now, CallCompletePhone rnd phone i c dev region) =
     fst (snd (CompletePhoneAuthWithPhone s w now rnd phone i c dev region))"
| "auth_do s w (now, CallRegister salt rnd email pw dev region) = fst (snd (RegisterEmail s w now salt rnd email pw dev region))"
| "auth_do s w (now, CallLogin rnd email pw dev) = fst (snd (LoginEmail s w now rnd email pw dev))"
| "auth_do s w (now, CallRefresh ord rnd tok dev) = snd (RefreshTokens s ord w now rnd tok dev)"
| "auth_do s w (now, CallLogout ord tok) = Logout s ord w now tok"
| "auth_do s w (now, CallDeclareAge a dob) = snd (DeclareAge s w now a dob)"
| "auth_do s w (now, CallAssureAge a) = DevAssureAge w a"
| "auth_do s w (now, CallSetStatus a st) = snd (SetAccountStatus w a st)"
| "auth_do s w (now, CallRequestDeletion a) = snd (RequestDeletion w a)"
| "auth_do s w (now, CallCancelDeletion a) = snd (CancelDeletion w a)"

text \<open>The refresh token a call draws has a hash no session has yet, and a Go map's iteration meets
  its entries, no others.\<close>

definition valid_ord :: "session_order \<Rightarrow> bool" where
  "valid_ord ord \<longleftrightarrow> (\<forall>xs. set (ord xs) = set xs)"

definition fresh_random :: "auth_service \<Rightarrow> auth_world \<Rightarrow> string \<Rightarrow> bool" where
  "fresh_random s w rnd \<longleftrightarrow> map_of (ma_sessions (aw_repo w)) (rt_Hash (IssueRefreshToken (sv_crypto s) rnd)) = None"

fun auth_ok :: "auth_service \<Rightarrow> auth_world \<Rightarrow> time \<times> auth_call \<Rightarrow> bool" where
  "auth_ok s w (now, CallCompletePhone rnd phone i c dev region) \<longleftrightarrow> fresh_random s w rnd"
| "auth_ok s w (now, CallRegister salt rnd email pw dev region) \<longleftrightarrow> fresh_random s w rnd"
| "auth_ok s w (now, CallLogin rnd email pw dev) \<longleftrightarrow> fresh_random s w rnd"
| "auth_ok s w (now, CallRefresh ord rnd tok dev) \<longleftrightarrow> valid_ord ord \<and> fresh_random s w rnd"
| "auth_ok s w (now, CallLogout ord tok) \<longleftrightarrow> valid_ord ord"
| "auth_ok s w (now, c) \<longleftrightarrow> True"

primrec auth_run :: "auth_service \<Rightarrow> auth_world \<Rightarrow> (time \<times> auth_call) list \<Rightarrow> auth_world" where
  "auth_run s w [] = w"
| "auth_run s w (c # cs) = auth_run s (auth_do s w c) cs"

primrec auth_run_ok :: "auth_service \<Rightarrow> auth_world \<Rightarrow> (time \<times> auth_call) list \<Rightarrow> bool" where
  "auth_run_ok s w [] \<longleftrightarrow> True"
| "auth_run_ok s w (c # cs) \<longleftrightarrow> auth_ok s w c \<and> auth_run_ok s (auth_do s w c) cs"

section \<open>Sessions are never forgotten\<close>

text \<open>\<open>session_le\<close>: every session of the first map is in the second, under the same hash, with
  the same account and device, and revoked if it was.\<close>

definition session_le :: "(string \<times> session) list \<Rightarrow> (string \<times> session) list \<Rightarrow> bool" where
  "session_le xs ys \<longleftrightarrow> (wf_map xs \<longrightarrow> wf_map ys \<and>
     (\<forall>h sess. map_of xs h = Some sess \<longrightarrow>
        (\<exists>sess'. map_of ys h = Some sess' \<and> as_AccountID sess' = as_AccountID sess \<and> as_DeviceID sess' = as_DeviceID sess \<and>
           (as_RevokedAt sess \<noteq> None \<longrightarrow> as_RevokedAt sess' \<noteq> None))))"

lemma session_le_refl [intro, simp]: "session_le xs xs"
  by (simp add: session_le_def)

lemma session_le_trans: "session_le xs ys \<Longrightarrow> session_le ys zs \<Longrightarrow> session_le xs zs"
  unfolding session_le_def by metis

lemma session_le_fresh: "map_of xs h = None \<Longrightarrow> session_le xs (AList.update h sess xs)"
  by (auto simp: session_le_def)

lemma session_le_revoke: "(h, sess) \<in> set xs \<Longrightarrow> session_le xs (AList.update h (sess\<lparr>as_TokenHash := t, as_RevokedAt := Some now\<rparr>) xs)"
  by (auto simp: session_le_def wf_map_ranI)

lemma session_le_revoke_at: "(h, sess) \<in> set xs \<Longrightarrow> session_le xs (AList.update h (sess\<lparr>as_RevokedAt := Some now\<rparr>) xs)"
  by (auto simp: session_le_def wf_map_ranI)

lemma map_entries:
  "map_of (map (\<lambda>(h, v). (h, f h v)) xs) k = map_option (f k) (map_of xs k)"
  "map fst (map (\<lambda>(h, v). (h, f h v)) xs) = map fst xs"
  by (induction xs) auto

lemma session_le_map:
  assumes "\<And>h sess. as_AccountID (f h sess) = as_AccountID sess \<and> as_DeviceID (f h sess) = as_DeviceID sess \<and>
    (as_RevokedAt sess \<noteq> None \<longrightarrow> as_RevokedAt (f h sess) \<noteq> None)"
  shows "session_le xs (map (\<lambda>(h, sess). (h, f h sess)) xs)"
  using assms unfolding session_le_def wf_map_def map_entries by simp

lemma find_session_set: "valid_ord ord \<Longrightarrow> find_session ord m i = Some (h, sess) \<Longrightarrow> (h, sess) \<in> set (ma_sessions m)"
  by (auto simp: find_session_def valid_ord_def find_Some_iff) (metis nth_mem)

lemma ma_sessions_simps [simp]:
  "ma_sessions (set_account m i f) = ma_sessions m"
  "ma_sessions (SetPasswordHash m i x) = ma_sessions m"
  "ma_sessions (snd (CreateAccount m now phone email region)) = ma_sessions m"
  "ma_sessions (MemDeclareAge m i dob) = ma_sessions m"
  "ma_sessions (SetAgeStatus m i st) = ma_sessions m"
  "ma_sessions (snd (MarkAccountDeleted m i)) = ma_sessions m"
  "ma_sessions (snd (MemSetAccountStatus m i status)) = ma_sessions m"
  "ma_sessions (snd (MemCancelDeletion m i)) = ma_sessions m"
  by (auto simp: set_account_def SetPasswordHash_def CreateAccount_def MemDeclareAge_def SetAgeStatus_def MarkAccountDeleted_def
      MemSetAccountStatus_def MemCancelDeletion_def Let_def split: option.split)

lemma session_le_issue:
  "fresh_random s w rnd \<Longrightarrow> session_le (ma_sessions (aw_repo w)) (ma_sessions (aw_repo (fst (snd (issueTokens s w now rnd a d)))))"
  by (auto simp: issueTokens_def CreateSession_def fresh_random_def Let_def session_le_fresh split: prod.split)

lemma session_le_rotate:
  assumes "valid_ord ord" and "map_of (ma_sessions m) new = None"
  shows "session_le (ma_sessions m) (ma_sessions (snd (RotateSession ord m now i new)))"
proof (cases "find_session ord m i")
  case (Some p)
  then obtain h sess where p: "find_session ord m i = Some (h, sess)" by (cases p) auto
  then have h: "(h, sess) \<in> set (ma_sessions m)" by (rule find_session_set [OF assms(1)])
  then have "h \<noteq> new" using assms(2) by (auto simp: map_of_eq_None_iff image_iff)
  then show ?thesis using session_le_trans [OF session_le_revoke [OF h] session_le_fresh] assms(2) p
    by (auto simp: RotateSession_def)
qed (simp add: RotateSession_def)

lemma session_le_refresh:
  assumes "valid_ord ord" and "fresh_random s w rnd"
  shows "session_le (ma_sessions (aw_repo w)) (ma_sessions (aw_repo (snd (RefreshTokens s ord w now rnd tok dev))))"
proof -
  have "session_le (ma_sessions m) (ma_sessions (RevokeAllDeviceSessions m now a d))" for m a d
    unfolding RevokeAllDeviceSessions_def by (simp del: map_of_map) (rule session_le_map, simp)
  moreover have "session_le (ma_sessions (aw_repo w)) (ma_sessions m')"
    if "RotateSession ord (aw_repo w) now i (rt_Hash (IssueRefreshToken (sv_crypto s) rnd)) = (r, m')" for i r m'
    using session_le_rotate [OF assms(1), of "aw_repo w" "rt_Hash (IssueRefreshToken (sv_crypto s) rnd)" now i] assms(2) that
    by (simp add: fresh_random_def)
  ultimately show ?thesis
    by (auto simp: RefreshTokens_def Let_def split: sum.split option.split prod.split)
qed

lemma session_le_getOrCreate:
  "fresh_random s w rnd \<Longrightarrow>
   session_le (ma_sessions (aw_repo w)) (ma_sessions (aw_repo (fst (snd (getOrCreateByPhone s w now rnd p dev region)))))"
proof -
  assume f: "fresh_random s w rnd"
  obtain acc m where c: "CreateAccount (aw_repo w) now p None region = (acc, m)" by (cases "CreateAccount (aw_repo w) now p None region")
  have m: "ma_sessions m = ma_sessions (aw_repo w)" using ma_sessions_simps(3) [of "aw_repo w" now p None region] c by simp
  then have f': "fresh_random s (w\<lparr>aw_repo := m\<rparr>) rnd" using f by (simp add: fresh_random_def)
  show ?thesis
    using session_le_issue [OF f, of now _ dev] session_le_issue [OF f', of now _ dev] c m
    by (auto simp: getOrCreateByPhone_def Let_def split: prod.split option.split)
      (metis fst_conv snd_conv)+
qed

lemma aw_repo_simps [simp]:
  "aw_repo (snd (StartPhoneAuth w now i c phone)) = aw_repo w"
  by (auto simp: StartPhoneAuth_def split: prod.split sum.split)

lemma session_le_complete:
  "fresh_random s w rnd \<Longrightarrow> session_le (ma_sessions (aw_repo w))
     (ma_sessions (aw_repo (fst (snd (CompletePhoneAuthWithPhone s w now rnd phone i c dev region)))))"
proof -
  assume f: "fresh_random s w rnd"
  obtain r o' where v: "VerifyOTP (aw_otp w) now i c = (r, o')" by (cases "VerifyOTP (aw_otp w) now i c")
  have "fresh_random s (w\<lparr>aw_otp := o'\<rparr>) rnd" using f by (simp add: fresh_random_def)
  from session_le_getOrCreate [OF this] show ?thesis
    by (simp add: CompletePhoneAuthWithPhone_def v split: sum.split)
qed

lemma session_le_register:
  "fresh_random s w rnd \<Longrightarrow> session_le (ma_sessions (aw_repo w))
     (ma_sessions (aw_repo (fst (snd (RegisterEmail s w now salt rnd email pw dev region)))))"
proof -
  assume f: "fresh_random s w rnd"
  obtain acc m where c: "CreateAccount (aw_repo w) now None (Some (normalizeEmail email)) region = (acc, m)"
    by (cases "CreateAccount (aw_repo w) now None (Some (normalizeEmail email)) region")
  have m: "ma_sessions (SetPasswordHash m i h) = ma_sessions (aw_repo w)" for i h
    using ma_sessions_simps(3) [of "aw_repo w" now None "Some (normalizeEmail email)" region] c by simp
  then have "fresh_random s (w\<lparr>aw_repo := SetPasswordHash m i h\<rparr>) rnd" for i h using f by (simp add: fresh_random_def)
  then have "session_le (ma_sessions (aw_repo w)) (ma_sessions (aw_repo (fst (snd
      (issueTokens s (w\<lparr>aw_repo := SetPasswordHash m i h\<rparr>) now rnd a dev)))))" for i h a
    using session_le_issue [of s "w\<lparr>aw_repo := SetPasswordHash m i h\<rparr>" rnd now a dev] m by simp
  then show ?thesis using c
    by (auto simp: RegisterEmail_def Let_def split: prod.split sum.split) (metis fst_conv snd_conv)
qed

lemma session_le_login:
  "fresh_random s w rnd \<Longrightarrow> session_le (ma_sessions (aw_repo w))
     (ma_sessions (aw_repo (fst (snd (LoginEmail s w now rnd email pw dev)))))"
  using session_le_issue [of s w rnd now _ dev]
  by (auto simp: LoginEmail_def Let_def split: prod.split option.split sum.split) (metis fst_conv snd_conv)+

lemma session_le_logout:
  "valid_ord ord \<Longrightarrow> session_le (ma_sessions (aw_repo w)) (ma_sessions (aw_repo (Logout s ord w now tok)))"
  by (auto simp: Logout_def RevokeSession_def split: sum.split option.split dest!: find_session_set intro!: session_le_revoke_at)

lemma session_le_do: "auth_ok s w c \<Longrightarrow> session_le (ma_sessions (aw_repo w)) (ma_sessions (aw_repo (auth_do s w c)))"
proof (induction s w c rule: auth_do.induct)
  case (2 s w now rnd phone i c dev region)
  then show ?case using session_le_complete [of s w rnd now phone i c dev region] by simp
next
  case (3 s w now salt rnd email pw dev region)
  then show ?case using session_le_register [of s w rnd now salt email pw dev region] by simp
next
  case (4 s w now rnd email pw dev)
  then show ?case using session_le_login [of s w rnd now email pw dev] by simp
next
  case (5 s w now ord rnd tok dev)
  then show ?case using session_le_refresh [of ord s w rnd now tok dev] by simp
next
  case (6 s w now ord tok)
  then show ?case using session_le_logout [of ord w s now tok] by simp
qed (simp_all add: DeclareAge_def DevAssureAge_def SetAccountStatus_def RequestDeletion_def CancelDeletion_def lift_repo_def)

lemma session_le_run: "auth_run_ok s w cs \<Longrightarrow> session_le (ma_sessions (aw_repo w)) (ma_sessions (aw_repo (auth_run s w cs)))"
proof (induction cs arbitrary: w)
  case (Cons c cs)
  then show ?case using session_le_trans [OF session_le_do [of s w c]] by simp
qed simp

text \<open>The account and device a refresh token stands for, and a device one of whose sessions has been
  revoked.\<close>

definition token_of :: "auth_service \<Rightarrow> auth_world \<Rightarrow> string \<Rightarrow> (string \<times> string) option" where
  "token_of s w tok = map_option (\<lambda>sess. (as_AccountID sess, as_DeviceID sess))
     (map_of (ma_sessions (aw_repo w)) (HashRefreshTokenForLookup (sv_crypto s) tok))"

lemma isDeviceRevoked_iff:
  "wf_map (ma_sessions m) \<Longrightarrow> isDeviceRevoked m a d \<longleftrightarrow>
     (\<exists>h sess. map_of (ma_sessions m) h = Some sess \<and> as_AccountID sess = a \<and> as_DeviceID sess = d \<and> as_RevokedAt sess \<noteq> None)"
  by (fastforce simp: isDeviceRevoked_def list_ex_iff wf_map_ranI)

lemma spent_mono:
  "session_le (ma_sessions m) (ma_sessions m') \<Longrightarrow> wf_map (ma_sessions m) \<Longrightarrow> isDeviceRevoked m a d \<Longrightarrow> isDeviceRevoked m' a d"
  unfolding session_le_def by (metis isDeviceRevoked_iff)

lemma spent_device_refuses:
  assumes "isDeviceRevoked (aw_repo w) a d" and "token_of s w tok = Some (a, d)"
  shows "fst (RefreshTokens s ord w now rnd tok dev) = Inl RefreshTokenReuse"
proof -
  obtain sess where "map_of (ma_sessions (aw_repo w)) (HashRefreshTokenForLookup (sv_crypto s) tok) = Some sess"
    "as_AccountID sess = a" "as_DeviceID sess = d"
    using assms(2) by (auto simp: token_of_def)
  then have "\<exists>sess'. GetSession (aw_repo w) now (HashRefreshTokenForLookup (sv_crypto s) tok) = Inr sess' \<and> as_RevokedAt sess' \<noteq> None"
    using assms(1) by (auto simp: GetSession_def)
  then show ?thesis by (auto simp: RefreshTokens_def Let_def)
qed

lemma refresh_spends:
  assumes "RefreshTokens s ord w now rnd tok dev = (Inr pair, w')" and "wf_map (ma_sessions (aw_repo w))"
    and "valid_ord ord" and "fresh_random s w rnd"
  shows "wf_map (ma_sessions (aw_repo w')) \<and>
    (\<exists>a d. token_of s w' (tp_RefreshToken pair) = Some (a, d) \<and> isDeviceRevoked (aw_repo w') a d)"
proof -
  let ?rt = "IssueRefreshToken (sv_crypto s) rnd"
  obtain i where r: "RotateSession ord (aw_repo w) now i (rt_Hash ?rt) = (Inr (), aw_repo w')"
    and p: "tp_RefreshToken pair = rt_Raw ?rt"
    using assms(1) that by (fastforce simp: RefreshTokens_def Let_def split: sum.splits if_splits option.splits prod.splits)
  then obtain h old where f: "find_session ord (aw_repo w) i = Some (h, old)"
    by (auto simp: RotateSession_def split: option.splits)
  then have "(h, old) \<in> set (ma_sessions (aw_repo w))" by (rule find_session_set [OF assms(3)])
  then have h: "h \<noteq> rt_Hash ?rt" using assms(4) by (auto simp: fresh_random_def map_of_eq_None_iff image_iff)
  have hash: "HashRefreshTokenForLookup (sv_crypto s) (rt_Raw ?rt) = rt_Hash ?rt"
    by (simp add: HashRefreshTokenForLookup_def IssueRefreshToken_def Let_def)
  have m: "ma_sessions (aw_repo w') = AList.update (rt_Hash ?rt) (old\<lparr>as_TokenHash := rt_Hash ?rt, as_RevokedAt := None\<rparr>)
      (AList.update h (old\<lparr>as_TokenHash := h, as_RevokedAt := Some now\<rparr>) (ma_sessions (aw_repo w)))"
    using r f by (auto simp: RotateSession_def dest!: sym [of _ "aw_repo w'"])
  then have wf: "wf_map (ma_sessions (aw_repo w'))" using assms(2) by simp
  have "token_of s w' (tp_RefreshToken pair) = Some (as_AccountID old, as_DeviceID old)"
    using p hash m by (simp add: token_of_def)
  moreover have "isDeviceRevoked (aw_repo w') (as_AccountID old) (as_DeviceID old)"
    unfolding isDeviceRevoked_iff [OF wf] using m h by (intro exI [of _ h]) auto
  ultimately show ?thesis using wf by blast
qed

text \<open>A refreshed session is dead. With the in-memory repository, the refresh token that a
  successful refresh hands out is never accepted: after any further calls by anybody, sign-ins on
  the same device included, presenting it, or any other token of that account and device, is
  treated as reuse of a revoked token.\<close>

theorem refreshed_token_is_dead:
  assumes "RefreshTokens s ord w now rnd tok dev = (Inr pair, w')" and "wf_map (ma_sessions (aw_repo w))"
    and "valid_ord ord" and "fresh_random s w rnd" and "auth_run_ok s w' cs"
  shows "\<exists>a d. token_of s (auth_run s w' cs) (tp_RefreshToken pair) = Some (a, d) \<and>
    (\<forall>tok2. token_of s (auth_run s w' cs) tok2 = Some (a, d) \<longrightarrow>
       fst (RefreshTokens s ord2 (auth_run s w' cs) now2 rnd2 tok2 dev2) = Inl RefreshTokenReuse)"
proof -
  obtain a d where wf: "wf_map (ma_sessions (aw_repo w'))"
    and t: "token_of s w' (tp_RefreshToken pair) = Some (a, d)" and spent: "isDeviceRevoked (aw_repo w') a d"
    using refresh_spends [OF assms(1-4)] by blast
  have le: "session_le (ma_sessions (aw_repo w')) (ma_sessions (aw_repo (auth_run s w' cs)))"
    by (rule session_le_run [OF assms(5)])
  have "token_of s (auth_run s w' cs) (tp_RefreshToken pair) = Some (a, d)"
    using le wf t by (fastforce simp: session_le_def token_of_def)
  then show ?thesis using spent_device_refuses [OF spent_mono [OF le wf spent]] by blast
qed

definition demo_auth :: auth_service where
  "demo_auth = \<lparr>sv_crypto = demo_crypto, sv_issuer = demo_issuer, sv_onAuthEvent = True, sv_onDeviceLogin = True,
     sv_civil = (\<lambda>t. (t div 31536000000000000, 1, 1))\<rparr>"

definition demo_world :: auth_world where
  "demo_world = auth_run demo_auth \<lparr>aw_repo = NewMemAuth, aw_otp = NewMemoryStore\<rparr>
     [(5, CallStartPhone ''c1'' ''123456'' ''+15550001''),
      (6, CallCompletePhone ''AAA'' ''+15550001'' ''c1'' ''123456'' ''phone-1'' ''US'')]"

definition demo_again :: "(time \<times> auth_call) list" where
  "demo_again = [(8, CallStartPhone ''c2'' ''654321'' ''+15550001''),
     (9, CallCompletePhone ''CCC'' ''+15550001'' ''c2'' ''654321'' ''phone-1'' ''US'')]"

lemma refreshed_token_is_dead_witness:
  "\<exists>pair w'. RefreshTokens demo_auth (\<lambda>xs. xs) demo_world 7 ''BBB'' ''QUFB'' ''phone-1'' = (Inr pair, w') \<and>
     tp_RefreshToken pair = ''QkJC'' \<and>
     fst (RefreshTokens demo_auth (\<lambda>xs. xs) (auth_run demo_auth w' demo_again) 10 ''DDD'' ''QkJC'' ''phone-1'') = Inl RefreshTokenReuse"
proof -
  let ?r = "RefreshTokens demo_auth (\<lambda>xs. xs) demo_world 7 ''BBB'' ''QUFB'' ''phone-1''"
  have ok: "case ?r of (Inr pair, w') \<Rightarrow> tp_RefreshToken pair = ''QkJC'' \<and>
      fresh_random demo_auth (auth_do demo_auth w' (8, CallStartPhone ''c2'' ''654321'' ''+15550001'')) ''CCC'' | _ \<Rightarrow> False"
    by code_simp
  then obtain pair w' where r: "?r = (Inr pair, w')" by (auto split: prod.splits sum.splits)
  have p: "tp_RefreshToken pair = ''QkJC''" and run: "auth_run_ok demo_auth w' demo_again"
    using ok r by (simp_all add: demo_again_def)
  have "wf_map (ma_sessions (aw_repo demo_world))" unfolding wf_map_def by code_simp
  moreover have "fresh_random demo_auth demo_world ''BBB''" by code_simp
  moreover have v: "valid_ord (\<lambda>xs. xs)" by (simp add: valid_ord_def)
  ultimately show ?thesis using refreshed_token_is_dead [OF r _ v _ run] r p by metis
qed

text \<open>C10: a code of one's own opens any account. Whoever verifies a code sent to their own number and
  names another number in the request is signed in to the account that owns that other number: the
  access token issued is the victim's and is accepted as such.\<close>

theorem otp_opens_any_account:
  assumes "StartPhoneAuth w start i code attacker = (Inr (i, expiry), w')" and "now \<le> expiry"
    and "FindByPhone (aw_repo w) victim = Some acc" and "ac_Status acc = StatusActive"
    and "\<And>c. snd (IssueAccessToken (sv_crypto s) (sv_issuer s) now (ac_ID acc) dev) = c \<Longrightarrow>
      cr_unmarshal (sv_crypto s) (cr_marshal (sv_crypto s) c) = Some c"
    and "Unix later \<le> Unix (now + ti_accessTTL (sv_issuer s))"
  shows "case CompletePhoneAuthWithPhone s w' now rnd victim i code dev region of
      (Inr (acc', pair), w'', ns) \<Rightarrow> acc' = acc \<and>
        (\<exists>c. VerifyAccessToken (sv_crypto s) (sv_issuer s) later (tp_AccessToken pair) = Inr c \<and> cl_AccountID c = ac_ID acc) \<and>
        (\<exists>sess. map_of (ma_sessions (aw_repo w'')) (HashRefreshTokenForLookup (sv_crypto s) (tp_RefreshToken pair)) = Some sess \<and>
           as_AccountID sess = ac_ID acc)
    | _ \<Rightarrow> False"
proof -
  obtain raw c where t: "IssueAccessToken (sv_crypto s) (sv_issuer s) now (ac_ID acc) dev = (raw, c)"
    by (cases "IssueAccessToken (sv_crypto s) (sv_issuer s) now (ac_ID acc) dev")
  have v: "VerifyAccessToken (sv_crypto s) (sv_issuer s) later raw = Inr c" "cl_AccountID c = ac_ID acc"
    using verify_issued [OF t, where now = later] assms(5,6) t by simp_all
  obtain o' where so: "StartOTP (aw_otp w) start i code attacker = (Inr (i, expiry), o')" and w': "w' = w\<lparr>aw_otp := o'\<rparr>"
    using assms(1) by (auto simp: StartPhoneAuth_def split: if_splits prod.splits sum.splits)
  have "fst (VerifyOTP o' now i code) = Inr ()"
    using so assms(2)
    by (auto simp: StartOTP_def VerifyOTP_def IncrSendCount_def GetChallenge_def SetChallenge_def Let_def IsExpired_def
        After_def maxAttempts_def split: if_splits)
  then obtain o2 where v2: "VerifyOTP (aw_otp w') now i code = (Inr (), o2)" using w' by (metis prod.collapse auth_world.select_convs(2) auth_world.update_convs(2) auth_world.surjective)
  have "FindByPhone (aw_repo w') victim = Some acc" using assms(3) w' by simp
  then show ?thesis
    using v assms(4) t
    by (auto simp: CompletePhoneAuthWithPhone_def v2 getOrCreateByPhone_def issueTokens_def CreateSession_def Let_def
        IssueRefreshToken_def HashRefreshTokenForLookup_def split: prod.split)
qed

lemma otp_opens_any_account_witness:
  "case CompletePhoneAuthWithPhone demo_auth (snd (StartPhoneAuth demo_world 8 ''c9'' ''000000'' ''+19990000'')) 9
      ''XXX'' ''+15550001'' ''c9'' ''000000'' ''dev'' ''US'' of
     (Inr (acc, pair), w, ns) \<Rightarrow> ac_PhoneE164 acc = Some ''+15550001'' \<and>
       (\<exists>c. VerifyAccessToken demo_crypto demo_issuer minute (tp_AccessToken pair) = Inr c \<and> cl_AccountID c = ''acc-0001'')
   | _ \<Rightarrow> False"
proof -
  let ?w = "snd (StartPhoneAuth demo_world 8 ''c9'' ''000000'' ''+19990000'')"
  define acc where "acc = \<lparr>ac_ID = ''acc-0001'', ac_PhoneE164 = Some ''+15550001'', ac_Email = None, ac_Status = StatusActive,
    ac_RegionCode = ''US'', ac_AgeStatus = AgeUndeclared, ac_IsNewAccount = False, ac_CreatedAt = 6\<rparr>"
  have "fst (StartPhoneAuth demo_world 8 ''c9'' ''000000'' ''+19990000'') = Inr (''c9'', 8 + 10 * minute)" by code_simp
  then have s: "StartPhoneAuth demo_world 8 ''c9'' ''000000'' ''+19990000'' = (Inr (''c9'', 8 + 10 * minute), ?w)"
    by (metis prod.collapse)
  have now: "9 \<le> 8 + 10 * minute" by simp
  have f: "FindByPhone (aw_repo demo_world) ''+15550001'' = Some acc" unfolding acc_def by code_simp
  have a: "ac_Status acc = StatusActive" "ac_ID acc = ''acc-0001''" "ac_PhoneE164 acc = Some ''+15550001''"
    by (simp_all add: acc_def)
  have j: "cr_unmarshal (sv_crypto demo_auth) (cr_marshal (sv_crypto demo_auth) c) = Some c"
    if "snd (IssueAccessToken (sv_crypto demo_auth) (sv_issuer demo_auth) 9 (ac_ID acc) ''dev'') = c" for c
    using that a by (auto simp: IssueAccessToken_def demo_auth_def demo_crypto_def demo_claims_def demo_issuer_def Let_def Unix_def)
  have l: "Unix minute \<le> Unix (9 + ti_accessTTL (sv_issuer demo_auth))" by (simp add: Unix_def demo_auth_def demo_issuer_def)
  have cr: "sv_crypto demo_auth = demo_crypto" "sv_issuer demo_auth = demo_issuer" by (simp_all add: demo_auth_def)
  obtain res w2 ns where c: "CompletePhoneAuthWithPhone demo_auth ?w 9 ''XXX'' ''+15550001'' ''c9'' ''000000'' ''dev'' ''US'' = (res, w2, ns)"
    by (metis prod.collapse)
  show ?thesis
    using otp_opens_any_account [where dev = "''dev''" and rnd = "''XXX''" and region = "''US''", OF s now f a(1) j l]
    unfolding c cr a(2) by (cases res) (auto simp: a(3))
qed

section \<open>The repository's own consistency\<close>

definition accounts_ok :: "mem_auth \<Rightarrow> bool" where
  "accounts_ok m \<longleftrightarrow> (\<forall>i acc. map_of (ma_accounts m) i = Some acc \<longrightarrow>
     ac_ID acc = i \<and> (\<exists>n \<le> ma_nextID m. i = account_name n) \<and>
     (\<forall>p. ac_PhoneE164 acc = Some p \<longrightarrow> map_of (ma_byPhone m) p = Some i) \<and>
     (\<forall>e. ac_Email acc = Some e \<longrightarrow> map_of (ma_byEmail m) (ToLower e) = Some i) \<and>
     map_of (ma_ageStatus m) i = Some (ac_AgeStatus acc))"

definition indexes_ok :: "mem_auth \<Rightarrow> bool" where
  "indexes_ok m \<longleftrightarrow>
     (\<forall>p i. map_of (ma_byPhone m) p = Some i \<longrightarrow> (\<exists>acc. map_of (ma_accounts m) i = Some acc \<and> ac_PhoneE164 acc = Some p)) \<and>
     (\<forall>e i. map_of (ma_byEmail m) e = Some i \<longrightarrow>
        (\<exists>acc e'. map_of (ma_accounts m) i = Some acc \<and> ac_Email acc = Some e' \<and> ToLower e' = e))"

definition sessions_ok :: "mem_auth \<Rightarrow> bool" where
  "sessions_ok m \<longleftrightarrow> wf_map (ma_sessions m) \<and>
     (\<forall>h sess. map_of (ma_sessions m) h = Some sess \<longrightarrow> as_TokenHash sess = h \<and> map_of (ma_accounts m) (as_AccountID sess) \<noteq> None)"

definition repo_ok :: "mem_auth \<Rightarrow> bool" where
  "repo_ok m \<longleftrightarrow> accounts_ok m \<and> indexes_ok m \<and> sessions_ok m"

lemmas repo_ok_defs = repo_ok_def accounts_ok_def indexes_ok_def sessions_ok_def

lemma repo_ok_new: "repo_ok NewMemAuth"
  by (simp add: repo_ok_defs NewMemAuth_def)

lemma account_name_inj [simp]: "account_name m = account_name n \<longleftrightarrow> m = n"
  by (simp add: account_name_def)

text \<open>A change of one account that keeps its identity, with its age status in step.\<close>

lemma repo_ok_set_account:
  assumes "repo_ok m" and "\<And>acc. ac_ID (f acc) = ac_ID acc \<and> ac_PhoneE164 (f acc) = ac_PhoneE164 acc \<and> ac_Email (f acc) = ac_Email acc"
    and "\<And>acc. ac_AgeStatus (f acc) = ac_AgeStatus acc"
  shows "repo_ok (set_account m i f)"
  using assms unfolding repo_ok_defs set_account_def by (cases "map_of (ma_accounts m) i") (auto, (metis option.inject)+)

lemma repo_ok_set_age:
  assumes "repo_ok m"
  shows "repo_ok (set_account (m\<lparr>ma_ages := ages, ma_ageStatus := AList.update i st (ma_ageStatus m)\<rparr>) i (\<lambda>acc. acc\<lparr>ac_AgeStatus := st\<rparr>))"
  using assms unfolding repo_ok_defs set_account_def by (cases "map_of (ma_accounts m) i") (auto, (metis option.inject)+)

lemma repo_ok_create:
  assumes "repo_ok m" and "\<And>p. phone = Some p \<Longrightarrow> map_of (ma_byPhone m) p = None"
    and "\<And>e. email = Some e \<Longrightarrow> map_of (ma_byEmail m) (ToLower e) = None"
  shows "repo_ok (snd (CreateAccount m now phone email region))"
    and "map_of (ma_accounts (snd (CreateAccount m now phone email region))) (ac_ID (fst (CreateAccount m now phone email region))) \<noteq> None"
proof -
  have new: "map_of (ma_accounts m) (account_name (ma_nextID m + 1)) = None"
  proof (rule ccontr)
    assume "map_of (ma_accounts m) (account_name (ma_nextID m + 1)) \<noteq> None"
    then obtain n where "n \<le> ma_nextID m" "account_name (ma_nextID m + 1) = account_name n"
      using assms(1) unfolding repo_ok_defs by blast
    then show False by simp
  qed
  show "repo_ok (snd (CreateAccount m now phone email region))"
    using assms new unfolding repo_ok_defs CreateAccount_def
    by (cases phone; cases email) (auto simp: Let_def, (metis le_SucI option.distinct(1))+)
  show "map_of (ma_accounts (snd (CreateAccount m now phone email region))) (ac_ID (fst (CreateAccount m now phone email region))) \<noteq> None"
    by (simp add: CreateAccount_def Let_def)
qed

text \<open>Sessions: a change that keeps hash and account, and a new one for an account that exists.\<close>

lemma repo_ok_put_session:
  assumes "repo_ok m" and "as_TokenHash sess = h" and "map_of (ma_accounts m) (as_AccountID sess) \<noteq> None"
  shows "repo_ok (m\<lparr>ma_sessions := AList.update h sess (ma_sessions m)\<rparr>)"
  using assms unfolding repo_ok_defs by simp

lemma repo_ok_session:
  "repo_ok m \<Longrightarrow> (h, sess) \<in> set (ma_sessions m) \<Longrightarrow> as_TokenHash sess = h \<and> map_of (ma_accounts m) (as_AccountID sess) \<noteq> None"
  unfolding repo_ok_defs by (simp add: wf_map_ranI)

lemma repo_ok_RotateSession: "repo_ok m \<Longrightarrow> valid_ord ord \<Longrightarrow> repo_ok (snd (RotateSession ord m now i new))"
proof (cases "find_session ord m i")
  case (Some p)
  assume a: "repo_ok m" "valid_ord ord"
  obtain h sess where f: "find_session ord m i = Some (h, sess)" using Some by (cases p) auto
  have acc: "map_of (ma_accounts m) (as_AccountID sess) \<noteq> None"
    using repo_ok_session [OF a(1) find_session_set [OF a(2) f]] by simp
  have "repo_ok (m\<lparr>ma_sessions := AList.update h (sess\<lparr>as_TokenHash := h, as_RevokedAt := Some now\<rparr>) (ma_sessions m)\<rparr>)"
    using acc by (intro repo_ok_put_session [OF a(1)]) simp_all
  from repo_ok_put_session [OF this, of "sess\<lparr>as_TokenHash := new, as_RevokedAt := None\<rparr>" new]
  show ?thesis using acc f by (simp add: RotateSession_def)
qed (simp add: RotateSession_def)

lemma repo_ok_RevokeSession: "repo_ok m \<Longrightarrow> valid_ord ord \<Longrightarrow> repo_ok (RevokeSession ord m now i)"
  using repo_ok_session find_session_set
  by (fastforce simp: RevokeSession_def split: option.split intro!: repo_ok_put_session)

lemma repo_ok_RevokeAll: "repo_ok m \<Longrightarrow> repo_ok (RevokeAllDeviceSessions m now a d)"
proof -
  assume ok: "repo_ok m"
  let ?f = "\<lambda>h sess. if as_AccountID sess = a \<and> (d = [] \<or> as_DeviceID sess = d) then sess\<lparr>as_RevokedAt := Some now\<rparr> else sess"
  have s: "ma_sessions (RevokeAllDeviceSessions m now a d) = map (\<lambda>(h, sess). (h, ?f h sess)) (ma_sessions m)"
    by (simp add: RevokeAllDeviceSessions_def)
  have "sessions_ok (RevokeAllDeviceSessions m now a d)"
    using ok unfolding repo_ok_def sessions_ok_def s wf_map_def map_entries by (auto simp: RevokeAllDeviceSessions_def)
  then show ?thesis using ok by (simp add: repo_ok_def accounts_ok_def indexes_ok_def RevokeAllDeviceSessions_def)
qed

text \<open>An index entry has its account, so an account that is not found is not in the index.\<close>

lemma index_has_account:
  "repo_ok m \<Longrightarrow> FindByPhone m p = None \<Longrightarrow> map_of (ma_byPhone m) p = None"
  "repo_ok m \<Longrightarrow> FindByEmail m e = None \<Longrightarrow> map_of (ma_byEmail m) (ToLower e) = None"
  by (cases "map_of (ma_byPhone m) p"; fastforce simp: repo_ok_defs FindByPhone_def)
    (cases "map_of (ma_byEmail m) (ToLower e)"; fastforce simp: repo_ok_defs FindByEmail_def)

lemma repo_ok_issue:
  assumes "repo_ok (aw_repo w)" and "map_of (ma_accounts (aw_repo w)) a \<noteq> None"
  shows "repo_ok (aw_repo (fst (snd (issueTokens s w now rnd a d))))"
  using assms by (simp add: issueTokens_def CreateSession_def Let_def case_prod_beta repo_ok_put_session)

lemma repo_ok_getOrCreate:
  assumes ok: "repo_ok (aw_repo w)"
  shows "repo_ok (aw_repo (fst (snd (getOrCreateByPhone s w now rnd (Some phone) dev region))))"
proof (cases "FindByPhone (aw_repo w) phone")
  case None
  have "map_of (ma_byPhone (aw_repo w)) phone = None"
    by (rule index_has_account(1) [OF ok None])
  then have c: "repo_ok (snd (CreateAccount (aw_repo w) now (Some phone) None region))"
    "map_of (ma_accounts (snd (CreateAccount (aw_repo w) now (Some phone) None region)))
       (ac_ID (fst (CreateAccount (aw_repo w) now (Some phone) None region))) \<noteq> None"
    using repo_ok_create [OF ok, where phone = "Some phone" and email = None] by simp_all
  then show ?thesis using None repo_ok_issue
    by (simp add: getOrCreateByPhone_def Let_def case_prod_beta)
next
  case (Some acc)
  then have "map_of (ma_accounts (aw_repo w)) (ac_ID acc) \<noteq> None"
    using ok unfolding repo_ok_defs FindByPhone_def by (auto simp: bind_eq_Some_conv)
  then show ?thesis using Some ok repo_ok_issue
    by (simp add: getOrCreateByPhone_def Let_def case_prod_beta)
qed

lemma repo_ok_SetPasswordHash [simp]:
  "repo_ok (SetPasswordHash m i h) \<longleftrightarrow> repo_ok m" "ma_accounts (SetPasswordHash m i h) = ma_accounts m"
  unfolding repo_ok_defs SetPasswordHash_def by simp_all

lemma repo_ok_register:
  assumes ok: "repo_ok (aw_repo w)"
  shows "repo_ok (aw_repo (fst (snd (RegisterEmail s w now salt rnd email pw dev region))))"
proof (cases "FindByEmail (aw_repo w) (normalizeEmail email)")
  case None
  let ?c = "CreateAccount (aw_repo w) now None (Some (normalizeEmail email)) region"
  have "map_of (ma_byEmail (aw_repo w)) (ToLower (normalizeEmail email)) = None"
    by (rule index_has_account(2) [OF ok None])
  then have c: "repo_ok (snd ?c)" "map_of (ma_accounts (snd ?c)) (ac_ID (fst ?c)) \<noteq> None"
    using repo_ok_create [OF ok, where phone = None and email = "Some (normalizeEmail email)"] by simp_all
  then have "repo_ok (aw_repo (fst (snd (issueTokens s (w\<lparr>aw_repo := SetPasswordHash (snd ?c) (ac_ID (fst ?c)) h\<rparr>) now rnd (ac_ID (fst ?c)) dev))))" for h
    by (intro repo_ok_issue) simp_all
  then show ?thesis using ok None
    by (auto simp: RegisterEmail_def Let_def case_prod_beta split: sum.split)
next
  case (Some acc)
  then show ?thesis using ok by (auto simp: RegisterEmail_def Let_def split: sum.split)
qed

lemma repo_ok_login:
  assumes ok: "repo_ok (aw_repo w)"
  shows "repo_ok (aw_repo (fst (snd (LoginEmail s w now rnd email pw dev))))"
proof -
  have "map_of (ma_accounts (aw_repo w)) (ac_ID acc) \<noteq> None" if "FindByEmail (aw_repo w) e = Some acc" for e acc
    using ok that unfolding repo_ok_defs FindByEmail_def by (auto simp: bind_eq_Some_conv)
  then show ?thesis using ok repo_ok_issue [OF ok]
    by (auto simp: LoginEmail_def Let_def case_prod_beta split: option.split sum.split)
qed

lemma repo_ok_do: "repo_ok (aw_repo w) \<Longrightarrow> auth_ok s w c \<Longrightarrow> repo_ok (aw_repo (auth_do s w c))"
proof (induction s w c rule: auth_do.induct)
  case (2 s w now rnd phone i c dev region)
  then show ?case using repo_ok_getOrCreate by (auto simp: CompletePhoneAuthWithPhone_def split: prod.split sum.split)
next
  case (3 s w now salt rnd email pw dev region)
  then show ?case by (simp add: repo_ok_register)
next
  case (4 s w now rnd email pw dev)
  then show ?case by (simp add: repo_ok_login)
next
  case (5 s w now ord rnd tok dev)
  then have "repo_ok m'" if "RotateSession ord (aw_repo w) now i h = (r, m')" for i h r m'
    using repo_ok_RotateSession [of "aw_repo w" ord now i h] that by simp
  then show ?case using 5 repo_ok_RevokeAll
    by (auto simp: RefreshTokens_def Let_def split: sum.split option.split prod.split)
next
  case (6 s w now ord tok)
  then show ?case using repo_ok_RevokeSession by (auto simp: Logout_def split: sum.split)
next
  case (7 s w now a dob)
  then show ?case by (auto simp: DeclareAge_def MemDeclareAge_def repo_ok_set_age)
next
  case (8 s w now a)
  then show ?case
    using repo_ok_set_age [OF 8(1), where ages = "ma_ages (aw_repo w)" and i = a and st = AgeAssured] by (simp add: DevAssureAge_def SetAgeStatus_def)
qed (auto simp: SetAccountStatus_def RequestDeletion_def CancelDeletion_def lift_repo_def MemSetAccountStatus_def MarkAccountDeleted_def
    MemCancelDeletion_def intro!: repo_ok_set_account split: option.split)

lemma repo_ok_run: "repo_ok (aw_repo w) \<Longrightarrow> auth_run_ok s w cs \<Longrightarrow> repo_ok (aw_repo (auth_run s w cs))"
  by (induction cs arbitrary: w) (auto simp: repo_ok_do)



end
