(* ===== verification/Moderation.thy ===== *)
theory Moderation
  imports Risk Auth
begin

text \<open>
  Trust and safety: reports, rule-bound enforcements and appeals
  (\<open>moderation/moderation.go\<close>, \<open>rules.go\<close>, \<open>mem_repo.go\<close>, \<open>modsvc/service.go\<close>), the handler
  that creates an enforcement (\<open>moderation/handlers/handlers.go\<close>) and the closures of
  \<open>feed/cmd/api/main.go\<close> that apply an enforcement to the account. States and actions are Go
  strings and stay strings, since the handlers pass on what the request says. One clock reading per call.
\<close>

section \<open>Data\<close>

type_synonym report_state = string

definition ReportOpen :: report_state where "ReportOpen = ''open''"
definition ReportTriaged :: report_state where "ReportTriaged = ''triaged''"
definition ReportActioned :: report_state where "ReportActioned = ''actioned''"
definition ReportDismissed :: report_state where "ReportDismissed = ''dismissed''"

record report =
  rpt_ID :: string
  rpt_ReporterID :: string
  rpt_SubjectType :: string
  rpt_SubjectID :: string
  rpt_ReasonCode :: string
  rpt_Detail :: string
  rpt_EvidenceRef :: string
  rpt_State :: report_state
  rpt_CaseID :: string
  rpt_CreatedAt :: time

definition ReportRateLimitWindow :: duration where "ReportRateLimitWindow = 24 * hour"

type_synonym enforcement_action = string

definition ActionWarn :: enforcement_action where "ActionWarn = ''warn''"
definition ActionMute :: enforcement_action where "ActionMute = ''mute''"
definition ActionRestrictBroadcast :: enforcement_action where "ActionRestrictBroadcast = ''restrict_broadcast''"
definition ActionRestrictPV :: enforcement_action where "ActionRestrictPV = ''restrict_pv''"
definition ActionSuspend :: enforcement_action where "ActionSuspend = ''suspend''"
definition ActionTerminate :: enforcement_action where "ActionTerminate = ''terminate''"

lemmas action_defs = ActionWarn_def ActionMute_def ActionRestrictBroadcast_def ActionRestrictPV_def ActionSuspend_def
  ActionTerminate_def

record enforcement =
  en_ID :: string
  en_AccountID :: string
  en_RuleID :: string
  en_Action :: enforcement_action
  en_DurationHours :: int
  en_EvidenceRef :: string
  en_DecidedBy :: string
  en_CaseID :: string
  en_Appealable :: bool
  en_CreatedAt :: time
  en_ExpiresAt :: "time option"

datatype mod_error =
    ErrReportRateLimited
  | ErrRuleNotFound
  | ErrInvalidAction
  | ErrAutomatedTerminationForbidden
  | ErrNotModerator
  | ErrReportNotFound
  | ErrEnforcementNotFound
  | ErrNotOwner
  | ErrNotAppealable
  | ErrAlreadyAppealed
  | ErrAppealNotFound
  | ErrAppealAlreadyDecided
  | ModAuthError auth_error
  | ModValidation

type_synonym appeal_state = string

definition AppealPending :: appeal_state where "AppealPending = ''pending''"
definition AppealUpheld :: appeal_state where "AppealUpheld = ''upheld''"
definition AppealOverturned :: appeal_state where "AppealOverturned = ''overturned''"

lemmas appeal_state_defs = AppealPending_def AppealUpheld_def AppealOverturned_def

record appeal =
  ap_ID :: string
  ap_EnforcementID :: string
  ap_AccountID :: string
  ap_Statement :: string
  ap_State :: appeal_state
  ap_ReviewedBy :: string
  ap_DecidedAt :: "time option"
  ap_CaseID :: string
  ap_CreatedAt :: time

text \<open>The rules by ID and severity; titles and texts are not modelled.\<close>

definition Catalogue :: "(string \<times> nat) list" where
  "Catalogue = [(''CS-01'', 5), (''CS-03'', 3), (''SX-01'', 3), (''VL-01'', 3), (''HR-01'', 2), (''SP-01'', 1),
     (''GR-01'', 5), (''RP-01'', 2)]"

definition RuleByID :: "string \<Rightarrow> (string \<times> nat) option" where
  "RuleByID i = List.find (\<lambda>r. fst r = i) Catalogue"

definition ValidAction :: "enforcement_action \<Rightarrow> bool" where
  "ValidAction a \<longleftrightarrow> a \<in> set [ActionWarn, ActionMute, ActionRestrictBroadcast, ActionRestrictPV, ActionSuspend, ActionTerminate]"

section \<open>The repositories\<close>

record mem_reports =
  mr_seq :: nat
  mr_byID :: "(string \<times> report) list"
  mr_lastReportAt :: "((string \<times> string) \<times> time) list"

definition NewMemReportRepo :: mem_reports where
  "NewMemReportRepo = \<lparr>mr_seq = 0, mr_byID = [], mr_lastReportAt = []\<rparr>"

definition RecentlyReported :: "mem_reports \<Rightarrow> time \<Rightarrow> string \<Rightarrow> string \<Rightarrow> duration \<Rightarrow> bool" where
  "RecentlyReported r now reporterID subjectID within =
     (case map_of (mr_lastReportAt r) (reporterID, subjectID) of None \<Rightarrow> False | Some t \<Rightarrow> now - t < within)"

definition CreateReport :: "mem_reports \<Rightarrow> report \<Rightarrow> report \<times> mem_reports" where
  "CreateReport r rep =
     (let n = mr_seq r + 1;
          rep = rep\<lparr>rpt_ID := ''report-'' @ dec04 n, rpt_CaseID := ''RPT-'' @ dec04 n\<rparr>
      in (rep, \<lparr>mr_seq = n, mr_byID = AList.update (rpt_ID rep) rep (mr_byID r),
                mr_lastReportAt = AList.update (rpt_ReporterID rep, rpt_SubjectID rep) (rpt_CreatedAt rep) (mr_lastReportAt r)\<rparr>))"

definition GetReport :: "mem_reports \<Rightarrow> string \<Rightarrow> mod_error + report" where
  "GetReport r i = (case map_of (mr_byID r) i of None \<Rightarrow> Inl ErrReportNotFound | Some rep \<Rightarrow> Inr rep)"

definition UpdateReportState :: "mem_reports \<Rightarrow> string \<Rightarrow> report_state \<Rightarrow> (mod_error + unit) \<times> mem_reports" where
  "UpdateReportState r i state =
     (case map_of (mr_byID r) i of
        None \<Rightarrow> (Inl ErrReportNotFound, r)
      | Some rep \<Rightarrow> (Inr (), r\<lparr>mr_byID := AList.update i (rep\<lparr>rpt_State := state\<rparr>) (mr_byID r)\<rparr>))"

text \<open>The lists are sorted by falling time of creation, equal times in the order of the map.\<close>

definition ListReports :: "mem_reports \<Rightarrow> report_state \<Rightarrow> report list" where
  "ListReports r stateFilter =
     sort_key (\<lambda>rep. - rpt_CreatedAt rep) (filter (\<lambda>rep. stateFilter = [] \<or> rpt_State rep = stateFilter) (map snd (mr_byID r)))"

record mem_enforcements =
  me_seq :: nat
  me_byID :: "(string \<times> enforcement) list"
  me_byAcct :: "(string \<times> string list) list"

definition NewMemEnforcementRepo :: mem_enforcements where
  "NewMemEnforcementRepo = \<lparr>me_seq = 0, me_byID = [], me_byAcct = []\<rparr>"

definition acct_ids :: "mem_enforcements \<Rightarrow> string \<Rightarrow> string list" where
  "acct_ids r a = (case map_of (me_byAcct r) a of None \<Rightarrow> [] | Some ids \<Rightarrow> ids)"

definition StoreEnforcement :: "mem_enforcements \<Rightarrow> enforcement \<Rightarrow> enforcement \<times> mem_enforcements" where
  "StoreEnforcement r e =
     (let n = me_seq r + 1;
          e = e\<lparr>en_ID := ''enf-'' @ dec04 n, en_CaseID := ''ENF-'' @ dec04 n\<rparr>
      in (e, \<lparr>me_seq = n, me_byID = AList.update (en_ID e) e (me_byID r),
              me_byAcct = AList.update (en_AccountID e) (acct_ids r (en_AccountID e) @ [en_ID e]) (me_byAcct r)\<rparr>))"

definition FindEnforcement :: "mem_enforcements \<Rightarrow> string \<Rightarrow> mod_error + enforcement" where
  "FindEnforcement r i = (case map_of (me_byID r) i of None \<Rightarrow> Inl ErrEnforcementNotFound | Some e \<Rightarrow> Inr e)"

text \<open>An ID in the account's list always has its enforcement.\<close>

definition ListByAccount :: "mem_enforcements \<Rightarrow> string \<Rightarrow> enforcement list" where
  "ListByAccount r a = sort_key (\<lambda>e. - en_CreatedAt e) (List.map_filter (map_of (me_byID r)) (acct_ids r a))"

record mem_appeals =
  mp_seq :: nat
  mp_byID :: "(string \<times> appeal) list"
  mp_byEnforcement :: "(string \<times> string) list"

definition NewMemAppealRepo :: mem_appeals where
  "NewMemAppealRepo = \<lparr>mp_seq = 0, mp_byID = [], mp_byEnforcement = []\<rparr>"

definition HasPending :: "mem_appeals \<Rightarrow> string \<Rightarrow> bool" where
  "HasPending r enforcementID =
     (case Option.bind (map_of (mp_byEnforcement r) enforcementID) (map_of (mp_byID r)) of
        None \<Rightarrow> False | Some a \<Rightarrow> ap_State a = AppealPending)"

definition CreateAppeal :: "mem_appeals \<Rightarrow> appeal \<Rightarrow> appeal \<times> mem_appeals" where
  "CreateAppeal r a =
     (let n = mp_seq r + 1;
          a = a\<lparr>ap_ID := ''appeal-'' @ dec04 n, ap_CaseID := ''APL-'' @ dec04 n\<rparr>
      in (a, \<lparr>mp_seq = n, mp_byID = AList.update (ap_ID a) a (mp_byID r),
              mp_byEnforcement = AList.update (ap_EnforcementID a) (ap_ID a) (mp_byEnforcement r)\<rparr>))"

definition GetAppeal :: "mem_appeals \<Rightarrow> string \<Rightarrow> mod_error + appeal" where
  "GetAppeal r i = (case map_of (mp_byID r) i of None \<Rightarrow> Inl ErrAppealNotFound | Some a \<Rightarrow> Inr a)"

definition MemDecideAppeal :: "mem_appeals \<Rightarrow> time \<Rightarrow> string \<Rightarrow> appeal_state \<Rightarrow> string \<Rightarrow> (mod_error + appeal) \<times> mem_appeals" where
  "MemDecideAppeal r now i state reviewedBy =
     (case map_of (mp_byID r) i of
        None \<Rightarrow> (Inl ErrAppealNotFound, r)
      | Some a \<Rightarrow>
          if ap_State a \<noteq> AppealPending then (Inl ErrAppealAlreadyDecided, r)
          else
            (let a = a\<lparr>ap_State := state, ap_ReviewedBy := reviewedBy, ap_DecidedAt := Some now\<rparr>
             in (Inr a, r\<lparr>mp_byID := AList.update i a (mp_byID r)\<rparr>)))"

definition ListAppeals :: "mem_appeals \<Rightarrow> appeal_state \<Rightarrow> appeal list" where
  "ListAppeals r stateFilter =
     sort_key (\<lambda>a. - ap_CreatedAt a) (filter (\<lambda>a. stateFilter = [] \<or> ap_State a = stateFilter) (map snd (mp_byID r)))"

type_synonym mem_moderators = "(string \<times> bool) list"

definition MemIsModerator :: "mem_moderators \<Rightarrow> string \<Rightarrow> bool" where
  "MemIsModerator r a = (case map_of r a of None \<Rightarrow> False | Some b \<Rightarrow> b)"

definition MemGrant :: "mem_moderators \<Rightarrow> string \<Rightarrow> mem_moderators" where
  "MemGrant r a = AList.update a True r"

section \<open>The service\<close>

record mod_world =
  mw_reports :: mem_reports
  mw_enforcements :: mem_enforcements
  mw_appeals :: mem_appeals
  mw_moderators :: mem_moderators
  mw_risk :: risk_engine
  mw_auth :: auth_world

definition applyEnforcement :: "mod_world \<Rightarrow> string \<Rightarrow> enforcement_action \<Rightarrow> (mod_error + unit) \<times> mod_world" where
  "applyEnforcement w accountID action =
     (let set_to = (\<lambda>st. case SetAccountStatus (mw_auth w) accountID st of
            (Inl err, au) \<Rightarrow> (Inl (ModAuthError err), w\<lparr>mw_auth := au\<rparr>)
          | (Inr _, au) \<Rightarrow> (Inr (), w\<lparr>mw_auth := au\<rparr>))
      in if action = ActionRestrictBroadcast \<or> action = ActionRestrictPV then set_to StatusRestricted
         else if action = ActionSuspend \<or> action = ActionTerminate then set_to StatusSuspended
         else (Inr (), w))"

definition reinstate :: "mod_world \<Rightarrow> string \<Rightarrow> (mod_error + unit) \<times> mod_world" where
  "reinstate w accountID =
     (case SetAccountStatus (mw_auth w) accountID StatusActive of
        (Inl err, au) \<Rightarrow> (Inl (ModAuthError err), w\<lparr>mw_auth := au\<rparr>)
      | (Inr _, au) \<Rightarrow> (Inr (), w\<lparr>mw_auth := au\<rparr>))"

definition requireModerator :: "mod_world \<Rightarrow> string \<Rightarrow> mod_error + unit" where
  "requireModerator w a = (if MemIsModerator (mw_moderators w) a then Inr () else Inl ErrNotModerator)"

definition SubmitReport :: "mod_world \<Rightarrow> time \<Rightarrow> string \<Rightarrow> string \<Rightarrow> string \<Rightarrow> string \<Rightarrow> string \<Rightarrow> string \<Rightarrow>
    (mod_error + report) \<times> mod_world" where
  "SubmitReport w now reporterID subjectType subjectID reasonCode detail evidenceRef =
     (if RecentlyReported (mw_reports w) now reporterID subjectID ReportRateLimitWindow then (Inl ErrReportRateLimited, w)
      else
        (let (rep, r) = CreateReport (mw_reports w)
               \<lparr>rpt_ID = [], rpt_ReporterID = reporterID, rpt_SubjectType = subjectType, rpt_SubjectID = subjectID,
                rpt_ReasonCode = reasonCode, rpt_Detail = detail, rpt_EvidenceRef = evidenceRef, rpt_State = ReportOpen,
                rpt_CaseID = [], rpt_CreatedAt = now\<rparr>
         in (Inr rep, w\<lparr>mw_reports := r\<rparr>)))"

definition ListQueue :: "mod_world \<Rightarrow> string \<Rightarrow> report_state \<Rightarrow> mod_error + report list" where
  "ListQueue w moderatorID stateFilter =
     (case requireModerator w moderatorID of Inl err \<Rightarrow> Inl err | Inr _ \<Rightarrow> Inr (ListReports (mw_reports w) stateFilter))"

definition TriageReport :: "mod_world \<Rightarrow> string \<Rightarrow> string \<Rightarrow> report_state \<Rightarrow> (mod_error + report) \<times> mod_world" where
  "TriageReport w moderatorID reportID newState =
     (case requireModerator w moderatorID of
        Inl err \<Rightarrow> (Inl err, w)
      | Inr _ \<Rightarrow>
          (case UpdateReportState (mw_reports w) reportID newState of
             (Inl err, r) \<Rightarrow> (Inl err, w\<lparr>mw_reports := r\<rparr>)
           | (Inr _, r) \<Rightarrow> (GetReport r reportID, w\<lparr>mw_reports := r\<rparr>)))"

text \<open>The duration is an \<open>int\<close> times an hour, which wraps.\<close>

definition new_enforcement :: "time \<Rightarrow> string \<Rightarrow> string \<Rightarrow> string \<Rightarrow> enforcement_action \<Rightarrow> int \<Rightarrow> string \<Rightarrow> enforcement" where
  "new_enforcement now decidedBy accountID ruleID action durationHours evidenceRef =
     \<lparr>en_ID = [], en_AccountID = accountID, en_RuleID = ruleID, en_Action = action, en_DurationHours = durationHours,
      en_EvidenceRef = (if evidenceRef = [] then ''n/a'' else evidenceRef), en_DecidedBy = decidedBy, en_CaseID = [],
      en_Appealable = (action \<noteq> ActionWarn), en_CreatedAt = now,
      en_ExpiresAt = (if 0 < durationHours then Some (now + mul64 durationHours hour) else None)\<rparr>"

definition CreateEnforcement :: "mod_world \<Rightarrow> time \<Rightarrow> string \<Rightarrow> string \<Rightarrow> string \<Rightarrow> enforcement_action \<Rightarrow> int \<Rightarrow> string \<Rightarrow>
    (mod_error + enforcement) \<times> mod_world" where
  "CreateEnforcement w now decidedBy accountID ruleID action durationHours evidenceRef =
     (if RuleByID ruleID = None then (Inl ErrRuleNotFound, w)
      else if \<not> ValidAction action then (Inl ErrInvalidAction, w)
      else if action = ActionTerminate \<and> \<not> HasPrefix decidedBy ''human:'' then (Inl ErrAutomatedTerminationForbidden, w)
      else
        (let (e, r) = StoreEnforcement (mw_enforcements w)
               (new_enforcement now decidedBy accountID ruleID action durationHours evidenceRef)
         in case applyEnforcement (w\<lparr>mw_enforcements := r\<rparr>) accountID action of
              (Inl err, w) \<Rightarrow> (Inl err, w)
            | (Inr _, w) \<Rightarrow> (Inr e, w)))"

definition ListMyEnforcements :: "mod_world \<Rightarrow> string \<Rightarrow> enforcement list" where
  "ListMyEnforcements w accountID = ListByAccount (mw_enforcements w) accountID"

definition GetEnforcement :: "mod_world \<Rightarrow> string \<Rightarrow> string \<Rightarrow> mod_error + enforcement" where
  "GetEnforcement w accountID i =
     (case FindEnforcement (mw_enforcements w) i of
        Inl err \<Rightarrow> Inl err
      | Inr e \<Rightarrow>
          if en_AccountID e \<noteq> accountID \<and> \<not> MemIsModerator (mw_moderators w) accountID then Inl ErrNotOwner else Inr e)"

definition FileAppeal :: "mod_world \<Rightarrow> time \<Rightarrow> string \<Rightarrow> string \<Rightarrow> string \<Rightarrow> (mod_error + appeal) \<times> mod_world" where
  "FileAppeal w now accountID enforcementID statement =
     (case FindEnforcement (mw_enforcements w) enforcementID of
        Inl err \<Rightarrow> (Inl err, w)
      | Inr e \<Rightarrow>
          if en_AccountID e \<noteq> accountID then (Inl ErrNotOwner, w)
          else if \<not> en_Appealable e then (Inl ErrNotAppealable, w)
          else if HasPending (mw_appeals w) enforcementID then (Inl ErrAlreadyAppealed, w)
          else
            (let (a, r) = CreateAppeal (mw_appeals w)
                   \<lparr>ap_ID = [], ap_EnforcementID = enforcementID, ap_AccountID = accountID, ap_Statement = statement,
                    ap_State = AppealPending, ap_ReviewedBy = [], ap_DecidedAt = None, ap_CaseID = [], ap_CreatedAt = now\<rparr>
             in (Inr a, w\<lparr>mw_appeals := r\<rparr>)))"

definition DecideAppeal :: "mod_world \<Rightarrow> time \<Rightarrow> string \<Rightarrow> string \<Rightarrow> bool \<Rightarrow> (mod_error + appeal) \<times> mod_world" where
  "DecideAppeal w now moderatorID appealID uphold =
     (case requireModerator w moderatorID of
        Inl err \<Rightarrow> (Inl err, w)
      | Inr _ \<Rightarrow>
          (case MemDecideAppeal (mw_appeals w) now appealID (if uphold then AppealUpheld else AppealOverturned) moderatorID of
             (Inl err, r) \<Rightarrow> (Inl err, w\<lparr>mw_appeals := r\<rparr>)
           | (Inr a, r) \<Rightarrow>
               (let w = w\<lparr>mw_appeals := r\<rparr>
                in if uphold then (Inr a, w)
                   else (case reinstate w (ap_AccountID a) of
                           (Inl err, w) \<Rightarrow> (Inl err, w)
                         | (Inr _, w) \<Rightarrow> (Inr a, w)))))"

definition ListAppealQueue :: "mod_world \<Rightarrow> string \<Rightarrow> appeal_state \<Rightarrow> mod_error + appeal list" where
  "ListAppealQueue w moderatorID stateFilter =
     (case requireModerator w moderatorID of Inl err \<Rightarrow> Inl err | Inr _ \<Rightarrow> Inr (ListAppeals (mw_appeals w) stateFilter))"

definition DevGrantModerator :: "mod_world \<Rightarrow> string \<Rightarrow> mod_world" where
  "DevGrantModerator w a = w\<lparr>mw_moderators := MemGrant (mw_moderators w) a\<rparr>"

definition IsModerator :: "mod_world \<Rightarrow> string \<Rightarrow> bool" where
  "IsModerator w a = MemIsModerator (mw_moderators w) a"

definition ListRiskQueue :: "mod_world \<Rightarrow> string \<Rightarrow> mod_error + risk_profile list" where
  "ListRiskQueue w moderatorID =
     (case requireModerator w moderatorID of Inl err \<Rightarrow> Inl err | Inr _ \<Rightarrow> Inr (ListFlagged (re_repo (mw_risk w))))"

definition GetRiskProfile :: "mod_world \<Rightarrow> string \<Rightarrow> string \<Rightarrow> mod_error + risk_profile" where
  "GetRiskProfile w moderatorID accountID =
     (case requireModerator w moderatorID of Inl err \<Rightarrow> Inl err | Inr _ \<Rightarrow> Inr (GetRisk (re_repo (mw_risk w)) accountID))"

definition ModRecordMessage :: "risk_closures \<Rightarrow> mod_world \<Rightarrow> time \<Rightarrow> string \<Rightarrow> string \<Rightarrow> string \<Rightarrow> mod_world" where
  "ModRecordMessage k w now senderID recipientID body = w\<lparr>mw_risk := RecordMessage k (mw_risk w) now senderID recipientID body\<rparr>"

definition ModRecordPVRequest :: "risk_closures \<Rightarrow> mod_world \<Rightarrow> time \<Rightarrow> string \<Rightarrow> string \<Rightarrow> mod_world" where
  "ModRecordPVRequest k w now callerID calleeID = w\<lparr>mw_risk := RecordPVRequest k (mw_risk w) now callerID calleeID\<rparr>"

definition RecordAutoTermination :: "mod_world \<Rightarrow> time \<Rightarrow> string \<Rightarrow> string \<Rightarrow> string \<Rightarrow> mod_world" where
  "RecordAutoTermination w now hostID sessionID ruleID =
     snd (CreateEnforcement w now ''auto:classifier'' hostID ruleID ActionRestrictBroadcast 0 (''session:'' @ sessionID))"

text \<open>\<open>handlers.Handler.CreateEnforcement\<close>.\<close>

definition HandleCreateEnforcement :: "mod_world \<Rightarrow> time \<Rightarrow> string \<Rightarrow> string \<Rightarrow> string \<Rightarrow> enforcement_action \<Rightarrow> int \<Rightarrow> string \<Rightarrow>
    (mod_error + enforcement) \<times> mod_world" where
  "HandleCreateEnforcement w now modID accountID ruleID action durationHours evidenceRef =
     (if accountID = [] \<or> ruleID = [] \<or> action = [] \<or> evidenceRef = [] then (Inl ModValidation, w)
      else if \<not> IsModerator w modID then (Inl ErrNotModerator, w)
      else CreateEnforcement w now (''human:'' @ modID) accountID ruleID action durationHours evidenceRef)"

section \<open>Calls in sequence\<close>

datatype mod_call =
    ModReport string string string string string string                    \<comment> \<open>reporter, type, subject, reason, detail, evidence\<close>
  | ModTriage string string report_state                                    \<comment> \<open>moderator, report, state\<close>
  | ModEnforce string string string enforcement_action int string           \<comment> \<open>moderator, account, rule, action, hours, evidence\<close>
  | ModAuto string string string                                            \<comment> \<open>host, session, rule\<close>
  | ModAppeal string string string                                          \<comment> \<open>account, enforcement, statement\<close>
  | ModDecide string string bool                                            \<comment> \<open>moderator, appeal, uphold\<close>
  | ModGrant string
  | ModMessage string string string
  | ModPVRequest string string
  | ModAuth auth_call

fun mod_do :: "auth_service \<Rightarrow> risk_closures \<Rightarrow> mod_world \<Rightarrow> time \<times> mod_call \<Rightarrow> mod_world" where
  "mod_do s k w (now, ModReport reporter ty subj reason detail ev) = snd (SubmitReport w now reporter ty subj reason detail ev)"
| "mod_do s k w (now, ModTriage m i st) = snd (TriageReport w m i st)"
| "mod_do s k w (now, ModEnforce m a rule action hours ev) = snd (HandleCreateEnforcement w now m a rule action hours ev)"
| "mod_do s k w (now, ModAuto host sess rule) = RecordAutoTermination w now host sess rule"
| "mod_do s k w (now, ModAppeal a i st) = snd (FileAppeal w now a i st)"
| "mod_do s k w (now, ModDecide m i uphold) = snd (DecideAppeal w now m i uphold)"
| "mod_do s k w (now, ModGrant a) = DevGrantModerator w a"
| "mod_do s k w (now, ModMessage a b body) = ModRecordMessage k w now a b body"
| "mod_do s k w (now, ModPVRequest a b) = ModRecordPVRequest k w now a b"
| "mod_do s k w (now, ModAuth c) = w\<lparr>mw_auth := auth_do s (mw_auth w) (now, c)\<rparr>"

definition mod_run :: "auth_service \<Rightarrow> risk_closures \<Rightarrow> mod_world \<Rightarrow> (time \<times> mod_call) list \<Rightarrow> mod_world" where
  "mod_run s k w cs = foldl (mod_do s k) w cs"

text \<open>A start with empty stores; accounts, moderators and risk profiles may be there already.\<close>

definition mod_start :: "mod_world \<Rightarrow> bool" where
  "mod_start w \<longleftrightarrow> mw_reports w = NewMemReportRepo \<and> mw_enforcements w = NewMemEnforcementRepo \<and> mw_appeals w = NewMemAppealRepo"

lemma mod_world_parts [simp]:
  "mw_enforcements (snd (applyEnforcement w a act)) = mw_enforcements w"
  "mw_appeals (snd (applyEnforcement w a act)) = mw_appeals w"
  "mw_moderators (snd (applyEnforcement w a act)) = mw_moderators w"
  "mw_enforcements (snd (reinstate w a)) = mw_enforcements w"
  "mw_appeals (snd (reinstate w a)) = mw_appeals w"
  "mw_moderators (snd (reinstate w a)) = mw_moderators w"
  by (auto simp: applyEnforcement_def reinstate_def Let_def split: prod.split sum.split)

section \<open>What an enforcement rests on\<close>

definition grounded :: "mem_moderators \<Rightarrow> enforcement \<Rightarrow> bool" where
  "grounded mods e \<longleftrightarrow> RuleByID (en_RuleID e) \<noteq> None \<and> ValidAction (en_Action e) \<and>
     ((\<exists>m. en_DecidedBy e = ''human:'' @ m \<and> MemIsModerator mods m) \<or>
      en_DecidedBy e = ''auto:classifier'' \<and> en_Action e = ActionRestrictBroadcast)"

definition enforcements_grounded :: "mod_world \<Rightarrow> bool" where
  "enforcements_grounded w \<longleftrightarrow> (\<forall>i e. map_of (me_byID (mw_enforcements w)) i = Some e \<longrightarrow> grounded (mw_moderators w) e)"

lemma CreateEnforcement_cases:
  obtains (refused) "snd (CreateEnforcement w now who a rule act hrs ev) = w"
  | (stored) e r where "RuleByID rule \<noteq> None" and "ValidAction act"
      and "StoreEnforcement (mw_enforcements w) (new_enforcement now who a rule act hrs ev) = (e, r)"
      and "snd (CreateEnforcement w now who a rule act hrs ev) = snd (applyEnforcement (w\<lparr>mw_enforcements := r\<rparr>) a act)"
proof (cases "RuleByID rule = None \<or> \<not> ValidAction act \<or> act = ActionTerminate \<and> \<not> HasPrefix who ''human:''")
  case True
  then show ?thesis by (intro refused) (auto simp: CreateEnforcement_def)
next
  case False
  obtain e r where st: "StoreEnforcement (mw_enforcements w) (new_enforcement now who a rule act hrs ev) = (e, r)"
    by (cases "StoreEnforcement (mw_enforcements w) (new_enforcement now who a rule act hrs ev)")
  obtain res w' where ap: "applyEnforcement (w\<lparr>mw_enforcements := r\<rparr>) a act = (res, w')"
    by (cases "applyEnforcement (w\<lparr>mw_enforcements := r\<rparr>) a act")
  have "snd (CreateEnforcement w now who a rule act hrs ev) = w'"
    unfolding CreateEnforcement_def using False by (cases res) (auto simp: st ap)
  then show ?thesis using stored [OF _ _ st] False ap by simp
qed

lemma StoreEnforcement_record:
  assumes "StoreEnforcement r0 (new_enforcement now who a rule act hrs ev) = (e, r)"
  shows "me_byID r = AList.update (''enf-'' @ dec04 (me_seq r0 + 1)) e (me_byID r0)" and "me_seq r = me_seq r0 + 1"
    and "en_RuleID e = rule" and "en_Action e = act" and "en_DecidedBy e = who" and "en_AccountID e = a"
    and "en_Appealable e \<longleftrightarrow> act \<noteq> ActionWarn"
  using assms by (auto simp: StoreEnforcement_def new_enforcement_def Let_def)

lemma MemIsModerator_Grant [simp]: "MemIsModerator (MemGrant r a) m \<longleftrightarrow> m = a \<or> MemIsModerator r m"
  by (simp add: MemIsModerator_def MemGrant_def)

lemma CreateEnforcement_parts [simp]:
  "mw_moderators (snd (CreateEnforcement w now who a rule act hrs ev)) = mw_moderators w"
  "mw_appeals (snd (CreateEnforcement w now who a rule act hrs ev)) = mw_appeals w"
  by (cases rule: CreateEnforcement_cases [of w now who a rule act hrs ev]; simp)+

lemma HandleCreateEnforcement_cases:
  obtains (refused) "snd (HandleCreateEnforcement w now m a rule act hrs ev) = w"
  | (passed) "IsModerator w m"
      and "snd (HandleCreateEnforcement w now m a rule act hrs ev) = snd (CreateEnforcement w now (''human:'' @ m) a rule act hrs ev)"
  by (cases "a = [] \<or> rule = [] \<or> act = [] \<or> ev = [] \<or> \<not> IsModerator w m") (auto simp: HandleCreateEnforcement_def)

lemma DecideAppeal_cases:
  obtains (refused) "snd (DecideAppeal w now m i uphold) = w"
  | (decided) a where "map_of (mp_byID (mw_appeals w)) i = Some a" and "ap_State a = AppealPending" and "MemIsModerator (mw_moderators w) m"
      and "mw_appeals (snd (DecideAppeal w now m i uphold)) = (mw_appeals w)\<lparr>mp_byID := AList.update i
        (a\<lparr>ap_State := if uphold then AppealUpheld else AppealOverturned, ap_ReviewedBy := m, ap_DecidedAt := Some now\<rparr>)
        (mp_byID (mw_appeals w))\<rparr>"
      and "mw_enforcements (snd (DecideAppeal w now m i uphold)) = mw_enforcements w"
      and "mw_moderators (snd (DecideAppeal w now m i uphold)) = mw_moderators w"
proof (cases "map_of (mp_byID (mw_appeals w)) i")
  case None
  then show ?thesis by (intro refused) (simp add: DecideAppeal_def requireModerator_def MemDecideAppeal_def)
next
  case (Some a)
  show ?thesis
  proof (cases "MemIsModerator (mw_moderators w) m \<and> ap_State a = AppealPending")
    case False
    then show ?thesis using Some by (intro refused) (auto simp: DecideAppeal_def requireModerator_def MemDecideAppeal_def)
  next
    case True
    let ?a = "a\<lparr>ap_State := if uphold then AppealUpheld else AppealOverturned, ap_ReviewedBy := m, ap_DecidedAt := Some now\<rparr>"
    let ?w = "w\<lparr>mw_appeals := (mw_appeals w)\<lparr>mp_byID := AList.update i ?a (mp_byID (mw_appeals w))\<rparr>\<rparr>"
    have "snd (DecideAppeal w now m i uphold) = (if uphold then ?w else snd (reinstate ?w (ap_AccountID a)))"
      using True Some
      by (cases "reinstate ?w (ap_AccountID a)"; cases "fst (reinstate ?w (ap_AccountID a))")
        (auto simp: DecideAppeal_def requireModerator_def MemDecideAppeal_def Let_def)
    then show ?thesis using True Some by (intro decided [of a]) simp_all
  qed
qed

lemma FileAppeal_cases:
  obtains (refused) "snd (FileAppeal w now a i st) = w"
  | (filed) e ap r where "map_of (me_byID (mw_enforcements w)) i = Some e" and "en_AccountID e = a" and "en_Appealable e"
      and "\<not> HasPending (mw_appeals w) i" and "snd (FileAppeal w now a i st) = w\<lparr>mw_appeals := r\<rparr>"
      and "mp_byID r = AList.update (''appeal-'' @ dec04 (mp_seq (mw_appeals w) + 1)) ap (mp_byID (mw_appeals w))"
      and "mp_byEnforcement r = AList.update i (''appeal-'' @ dec04 (mp_seq (mw_appeals w) + 1)) (mp_byEnforcement (mw_appeals w))"
      and "mp_seq r = mp_seq (mw_appeals w) + 1" and "ap_EnforcementID ap = i" and "ap_AccountID ap = a" and "ap_State ap = AppealPending"
proof (cases "map_of (me_byID (mw_enforcements w)) i")
  case None
  then show ?thesis by (intro refused) (simp add: FileAppeal_def FindEnforcement_def)
next
  case (Some e)
  show ?thesis
  proof (cases "en_AccountID e = a \<and> en_Appealable e \<and> \<not> HasPending (mw_appeals w) i")
    case False
    then show ?thesis using Some by (intro refused) (auto simp: FileAppeal_def FindEnforcement_def)
  next
    case True
    then show ?thesis using Some
      by (intro filed [of e]) (auto simp: FileAppeal_def FindEnforcement_def CreateAppeal_def Let_def)
  qed
qed

text \<open>The calls that touch neither enforcements nor appeals.\<close>

lemma other_calls_parts [simp]:
  "mw_enforcements (snd (SubmitReport w now reporter ty subj reason detail ev)) = mw_enforcements w"
  "mw_appeals (snd (SubmitReport w now reporter ty subj reason detail ev)) = mw_appeals w"
  "mw_moderators (snd (SubmitReport w now reporter ty subj reason detail ev)) = mw_moderators w"
  "mw_enforcements (snd (TriageReport w m i st')) = mw_enforcements w"
  "mw_appeals (snd (TriageReport w m i st')) = mw_appeals w"
  "mw_moderators (snd (TriageReport w m i st')) = mw_moderators w"
  "mw_enforcements (ModRecordMessage k w now a b body) = mw_enforcements w"
  "mw_appeals (ModRecordMessage k w now a b body) = mw_appeals w"
  "mw_moderators (ModRecordMessage k w now a b body) = mw_moderators w"
  "mw_enforcements (ModRecordPVRequest k w now a b) = mw_enforcements w"
  "mw_appeals (ModRecordPVRequest k w now a b) = mw_appeals w"
  "mw_moderators (ModRecordPVRequest k w now a b) = mw_moderators w"
  by (auto simp: SubmitReport_def TriageReport_def requireModerator_def ModRecordMessage_def ModRecordPVRequest_def Let_def
      split: prod.split sum.split)

section \<open>The invariant\<close>

definition appeal_ok :: "mod_world \<Rightarrow> string \<Rightarrow> appeal \<Rightarrow> bool" where
  "appeal_ok w i a \<longleftrightarrow>
     (\<exists>e. map_of (me_byID (mw_enforcements w)) (ap_EnforcementID a) = Some e \<and> en_AccountID e = ap_AccountID a \<and> en_Appealable e) \<and>
     (if ap_State a = AppealPending then map_of (mp_byEnforcement (mw_appeals w)) (ap_EnforcementID a) = Some i
      else ap_State a \<in> {AppealUpheld, AppealOverturned} \<and> MemIsModerator (mw_moderators w) (ap_ReviewedBy a) \<and> ap_DecidedAt a \<noteq> None)"

definition mod_inv :: "mod_world \<Rightarrow> bool" where
  "mod_inv w \<longleftrightarrow>
     (\<forall>i e. map_of (me_byID (mw_enforcements w)) i = Some e \<longrightarrow>
        grounded (mw_moderators w) e \<and> (\<exists>n \<le> me_seq (mw_enforcements w). i = ''enf-'' @ dec04 n)) \<and>
     (\<forall>i a. map_of (mp_byID (mw_appeals w)) i = Some a \<longrightarrow>
        appeal_ok w i a \<and> (\<exists>n \<le> mp_seq (mw_appeals w). i = ''appeal-'' @ dec04 n))"

lemma mod_inv_enforcement:
  "mod_inv w \<Longrightarrow> map_of (me_byID (mw_enforcements w)) i = Some e \<Longrightarrow>
     grounded (mw_moderators w) e \<and> (\<exists>n \<le> me_seq (mw_enforcements w). i = ''enf-'' @ dec04 n)"
  unfolding mod_inv_def by blast

lemma mod_inv_appeal:
  "mod_inv w \<Longrightarrow> map_of (mp_byID (mw_appeals w)) i = Some a \<Longrightarrow>
     appeal_ok w i a \<and> (\<exists>n \<le> mp_seq (mw_appeals w). i = ''appeal-'' @ dec04 n)"
  unfolding mod_inv_def by blast

lemma mod_inv_start: "mod_start w \<Longrightarrow> mod_inv w"
  by (simp add: mod_start_def mod_inv_def NewMemEnforcementRepo_def NewMemAppealRepo_def)

text \<open>A call that leaves enforcements and appeals alone and only adds moderators keeps it.\<close>

lemma mod_inv_more_moderators:
  assumes "mod_inv w" and "mw_enforcements w' = mw_enforcements w" and "mw_appeals w' = mw_appeals w"
    and "\<And>m. MemIsModerator (mw_moderators w) m \<Longrightarrow> MemIsModerator (mw_moderators w') m"
  shows "mod_inv w'"
proof -
  have "grounded (mw_moderators w') e" if "grounded (mw_moderators w) e" for e using that assms(4) by (auto simp: grounded_def)
  moreover have "appeal_ok w' i a" if "appeal_ok w i a" for i a using that assms(2-4) by (auto simp: appeal_ok_def split: if_splits)
  ultimately show ?thesis using assms(1-3) by (simp add: mod_inv_def)
qed

lemma mod_inv_CreateEnforcement:
  assumes "mod_inv w" and "(\<exists>m. who = ''human:'' @ m \<and> MemIsModerator (mw_moderators w) m) \<or>
    who = ''auto:classifier'' \<and> act = ActionRestrictBroadcast"
  shows "mod_inv (snd (CreateEnforcement w now who a rule act hrs ev))"
proof (cases rule: CreateEnforcement_cases [of w now who a rule act hrs ev])
  case refused
  then show ?thesis using assms(1) by simp
next
  case (stored e r)
  let ?w' = "snd (CreateEnforcement w now who a rule act hrs ev)"
  note rec = StoreEnforcement_record [OF stored(3)]
  have enf: "mw_enforcements ?w' = r" by (simp add: stored(4))
  have new: "map_of (me_byID (mw_enforcements w)) (''enf-'' @ dec04 (me_seq (mw_enforcements w) + 1)) = None"
  proof (rule ccontr)
    assume "map_of (me_byID (mw_enforcements w)) (''enf-'' @ dec04 (me_seq (mw_enforcements w) + 1)) \<noteq> None"
    then obtain n where "n \<le> me_seq (mw_enforcements w)"
      "''enf-'' @ dec04 (me_seq (mw_enforcements w) + 1) = ''enf-'' @ dec04 n"
      using mod_inv_enforcement [OF assms(1)] by blast
    then show False by simp
  qed
  have "grounded (mw_moderators w) e" using assms(2) rec stored(1,2) by (auto simp: grounded_def)
  then have "\<forall>i e. map_of (me_byID r) i = Some e \<longrightarrow> grounded (mw_moderators w) e \<and> (\<exists>n \<le> me_seq r. i = ''enf-'' @ dec04 n)"
    using assms(1) rec(1,2) by (auto simp: mod_inv_def) (metis le_SucI)
  moreover have "appeal_ok ?w' i ap" if "appeal_ok w i ap" for i ap
    using that new rec(1) by (auto simp: appeal_ok_def enf split: if_splits)
  ultimately show ?thesis using assms(1) by (auto simp: mod_inv_def enf)
qed

lemma mod_inv_DecideAppeal: "mod_inv w \<Longrightarrow> mod_inv (snd (DecideAppeal w now m i uphold))"
proof (cases rule: DecideAppeal_cases [of w now m i uphold])
  case (decided a)
  assume inv: "mod_inv w"
  let ?w' = "snd (DecideAppeal w now m i uphold)"
  have "appeal_ok ?w' j b" if "map_of (mp_byID (mw_appeals ?w')) j = Some b" for j b
  proof (cases "j = i")
    case True
    have "appeal_ok w i a" using decided(1) inv by (simp add: mod_inv_def)
    then show ?thesis using that decided True by (cases uphold) (auto simp: appeal_ok_def appeal_state_defs)
  next
    case False
    then have "map_of (mp_byID (mw_appeals w)) j = Some b" using that decided(4) by simp
    then have "appeal_ok w j b" using mod_inv_appeal [OF inv] by blast
    then show ?thesis using decided(4-6) unfolding appeal_ok_def by (cases "ap_State b = AppealPending") simp_all
  qed
  then show ?thesis using inv decided by (auto simp: mod_inv_def)
qed simp

lemma mod_inv_FileAppeal: "mod_inv w \<Longrightarrow> mod_inv (snd (FileAppeal w now a i st))"
proof (cases rule: FileAppeal_cases [of w now a i st])
  case (filed e ap r)
  assume inv: "mod_inv w"
  let ?w' = "snd (FileAppeal w now a i st)" and ?id = "''appeal-'' @ dec04 (mp_seq (mw_appeals w) + 1)"
  have "appeal_ok ?w' j b" if j: "map_of (mp_byID r) j = Some b" for j b
  proof (cases "j = ?id")
    case True
    then show ?thesis using j filed by (auto simp: appeal_ok_def)
  next
    case False
    then have b: "map_of (mp_byID (mw_appeals w)) j = Some b" using j filed(6) by simp
    then have ok: "appeal_ok w j b" using inv by (auto simp: mod_inv_def)
    have "ap_EnforcementID b \<noteq> i" if "ap_State b = AppealPending"
      using ok that filed(4) b by (auto simp: appeal_ok_def HasPending_def)
    then show ?thesis using ok filed(5,7) by (auto simp: appeal_ok_def)
  qed
  moreover have "\<exists>n \<le> mp_seq r. j = ''appeal-'' @ dec04 n" if "map_of (mp_byID r) j = Some b" for j b
    using that inv filed(6,8) by (auto simp: mod_inv_def split: if_splits) (metis le_SucI)
  ultimately show ?thesis using inv filed(5) by (auto simp: mod_inv_def)
qed simp

lemma mod_inv_do: "mod_inv w \<Longrightarrow> mod_inv (mod_do s k w c)"
proof (induction s k w c rule: mod_do.induct)
  case (3 s k w now m a rule act hrs ev)
  show ?case
  proof (cases rule: HandleCreateEnforcement_cases [of w now m a rule act hrs ev])
    case refused
    then show ?thesis using 3 by simp
  next
    case passed
    then show ?thesis using mod_inv_CreateEnforcement [OF 3] by (simp add: IsModerator_def)
  qed
next
  case (4 s k w now host sess rule)
  then show ?case by (simp add: RecordAutoTermination_def mod_inv_CreateEnforcement)
next
  case (5 s k w now a i st)
  then show ?case by (simp add: mod_inv_FileAppeal)
next
  case (6 s k w now m i uphold)
  then show ?case by (simp add: mod_inv_DecideAppeal)
qed (erule mod_inv_more_moderators; simp add: DevGrantModerator_def)+

lemma mod_inv_run: "mod_inv w \<Longrightarrow> mod_inv (mod_run s k w cs)"
  by (induction cs arbitrary: w) (auto simp: mod_run_def mod_inv_do)

text \<open>A decided appeal stays as it is.\<close>

lemma decided_kept_do:
  assumes "mod_inv w" and "map_of (mp_byID (mw_appeals w)) i = Some a" and "ap_State a \<noteq> AppealPending"
  shows "map_of (mp_byID (mw_appeals (mod_do s k w c))) i = Some a"
  using assms
proof (induction s k w c rule: mod_do.induct)
  case (3 s k w now m acct rule act hrs ev)
  then show ?case by (cases rule: HandleCreateEnforcement_cases [of w now m acct rule act hrs ev]) simp_all
next
  case (5 s k w now acct e st)
  show ?case
  proof (cases rule: FileAppeal_cases [of w now acct e st])
    case (filed en ap r)
    obtain n where n: "n \<le> mp_seq (mw_appeals w)" "i = ''appeal-'' @ dec04 n" using mod_inv_appeal [OF 5(1,2)] by blast
    then have "i \<noteq> ''appeal-'' @ dec04 (mp_seq (mw_appeals w) + 1)" by simp
    then show ?thesis using 5(2) filed(5,6) by simp
  qed (use 5 in simp)
next
  case (6 s k w now m j uphold)
  then show ?case by (cases rule: DecideAppeal_cases [of w now m j uphold]) auto
qed (simp_all add: RecordAutoTermination_def DevGrantModerator_def)

lemma decided_kept:
  "mod_inv w \<Longrightarrow> map_of (mp_byID (mw_appeals w)) i = Some a \<Longrightarrow> ap_State a \<noteq> AppealPending \<Longrightarrow>
     map_of (mp_byID (mw_appeals (mod_run s k w cs))) i = Some a"
proof (induction cs arbitrary: w)
  case (Cons c cs)
  then show ?case using Cons.IH [OF mod_inv_do decided_kept_do] by (simp add: mod_run_def)
qed (simp add: mod_run_def)

text \<open>C14: what an enforcement rests on. After any calls every stored enforcement names a rule of the
  catalogue and a known action and was decided by an account that has moderator access, or by the
  classifier, which restricts and never suspends or terminates.\<close>

theorem enforcement_grounds:
  assumes "mod_start w" and "map_of (me_byID (mw_enforcements (mod_run s k w cs))) i = Some e"
  shows "RuleByID (en_RuleID e) \<noteq> None \<and> ValidAction (en_Action e) \<and>
    ((\<exists>m. en_DecidedBy e = ''human:'' @ m \<and> IsModerator (mod_run s k w cs) m) \<or>
     en_DecidedBy e = ''auto:classifier'' \<and> en_Action e = ActionRestrictBroadcast)"
  using mod_inv_enforcement [OF mod_inv_run [OF mod_inv_start [OF assms(1)]] assms(2)]
  by (simp add: grounded_def IsModerator_def)

definition demo_mod :: mod_world where
  "demo_mod = \<lparr>mw_reports = NewMemReportRepo, mw_enforcements = NewMemEnforcementRepo, mw_appeals = NewMemAppealRepo,
     mw_moderators = [(''mod'', True)], mw_risk = NewRiskEngine NewMemRiskRepo, mw_auth = demo_world\<rparr>"

definition demo_closures :: risk_closures where
  "demo_closures = \<lparr>rc_ageAssured = (\<lambda>a. None), rc_createdAt = (\<lambda>a. None), rc_followerCnt = (\<lambda>a. None), rc_isFollowing = None\<rparr>"

definition demo_calls :: "(time \<times> mod_call) list" where
  "demo_calls = [(10, ModEnforce ''mod'' ''acc-0001'' ''HR-01'' ''mute'' 1 ''msg-1''),
     (11, ModAppeal ''acc-0001'' ''enf-0001'' ''please''),
     (12, ModEnforce ''mod'' ''acc-0001'' ''CS-01'' ''terminate'' 0 ''case-7'')]"

lemma demo_mod_start: "mod_start demo_mod"
  by (simp add: mod_start_def demo_mod_def)

lemma enforcement_grounds_witness:
  "\<exists>e. map_of (me_byID (mw_enforcements (mod_run demo_auth demo_closures demo_mod demo_calls))) ''enf-0002'' = Some e \<and>
     en_Action e = ActionTerminate \<and> (\<exists>m. en_DecidedBy e = ''human:'' @ m \<and> IsModerator (mod_run demo_auth demo_closures demo_mod demo_calls) m)"
proof -
  let ?w = "mod_run demo_auth demo_closures demo_mod demo_calls"
  have "map_option en_Action (map_of (me_byID (mw_enforcements ?w)) ''enf-0002'') = Some ActionTerminate" by code_simp
  then obtain e where e: "map_of (me_byID (mw_enforcements ?w)) ''enf-0002'' = Some e" "en_Action e = ActionTerminate" by auto
  then show ?thesis using enforcement_grounds [OF demo_mod_start e(1)] by (auto simp: action_defs)
qed



lemma GetAccountStatus_set:
  "FindByID (aw_repo au) a = Some acc \<Longrightarrow> GetAccountStatus (snd (SetAccountStatus au a st)) a = Inr st"
  by (simp add: GetAccountStatus_def SetAccountStatus_def lift_repo_def MemSetAccountStatus_def FindByID_def set_account_def)

text \<open>A suspension that does not last. A suspended account becomes active by asking for its own
  deletion and cancelling it; it becomes merely restricted when the classifier restricts it; and it
  becomes active when an appeal against any other enforcement of the account, a mute for instance,
  is overturned. The enforcement behind the suspension stays on record throughout.\<close>

theorem suspension_undone:
  assumes "FindByID (aw_repo (mw_auth w)) a = Some acc" and "ac_Status acc = StatusSuspended"
    and "RuleByID rule \<noteq> None" and "IsModerator w m"
    and "map_of (mp_byID (mw_appeals w)) i = Some ap" and "ap_State ap = AppealPending" and "ap_AccountID ap = a"
  shows "GetAccountStatus (mw_auth (mod_run s k w [(t, ModAuth (CallRequestDeletion a)), (t', ModAuth (CallCancelDeletion a))])) a = Inr StatusActive \<and>
    GetAccountStatus (mw_auth (mod_run s k w [(t, ModAuto a sess rule)])) a = Inr StatusRestricted \<and>
    GetAccountStatus (mw_auth (mod_run s k w [(t, ModDecide m i False)])) a = Inr StatusActive \<and>
    mw_enforcements (mod_run s k w [(t, ModDecide m i False)]) = mw_enforcements w"
proof (intro conjI)
  show "GetAccountStatus (mw_auth (mod_run s k w [(t, ModAuth (CallRequestDeletion a)), (t', ModAuth (CallCancelDeletion a))])) a = Inr StatusActive"
    using assms(1)
    by (simp add: mod_run_def RequestDeletion_def CancelDeletion_def lift_repo_def MarkAccountDeleted_def MemCancelDeletion_def
        set_account_def FindByID_def GetAccountStatus_def)
next
  obtain e r where "StoreEnforcement (mw_enforcements w)
      (new_enforcement t ''auto:classifier'' a rule ActionRestrictBroadcast 0 (''session:'' @ sess)) = (e, r)"
    by (cases "StoreEnforcement (mw_enforcements w)
      (new_enforcement t ''auto:classifier'' a rule ActionRestrictBroadcast 0 (''session:'' @ sess))")
  moreover obtain res au where au: "SetAccountStatus (mw_auth w) a StatusRestricted = (res, au)"
    by (cases "SetAccountStatus (mw_auth w) a StatusRestricted")
  ultimately have "mw_auth (RecordAutoTermination w t a sess rule) = au"
    using assms(3) unfolding RecordAutoTermination_def CreateEnforcement_def
    by (cases res) (auto simp: applyEnforcement_def ValidAction_def ActionTerminate_def ActionRestrictBroadcast_def)
  then show "GetAccountStatus (mw_auth (mod_run s k w [(t, ModAuto a sess rule)])) a = Inr StatusRestricted"
    using GetAccountStatus_set [OF assms(1), of StatusRestricted] au by (simp add: mod_run_def)
next
  obtain res au where au: "SetAccountStatus (mw_auth w) a StatusActive = (res, au)" by (cases "SetAccountStatus (mw_auth w) a StatusActive")
  then have "mw_auth (snd (DecideAppeal w t m i False)) = au"
    using assms(4-7) by (cases res) (auto simp: DecideAppeal_def requireModerator_def IsModerator_def MemDecideAppeal_def reinstate_def Let_def)
  then show "GetAccountStatus (mw_auth (mod_run s k w [(t, ModDecide m i False)])) a = Inr StatusActive"
    using GetAccountStatus_set [OF assms(1), of StatusActive] au by (simp add: mod_run_def)
next
  show "mw_enforcements (mod_run s k w [(t, ModDecide m i False)]) = mw_enforcements w"
    by (cases rule: DecideAppeal_cases [of w t m i False]) (simp_all add: mod_run_def)
qed

lemma suspension_undone_witness:
  "let w = mod_run demo_auth demo_closures demo_mod demo_calls
   in GetAccountStatus (mw_auth w) ''acc-0001'' = Inr StatusSuspended \<and>
      GetAccountStatus (mw_auth (mod_run demo_auth demo_closures w [(20, ModDecide ''mod'' ''appeal-0001'' False)])) ''acc-0001'' = Inr StatusActive"
proof -
  define w where "w = mod_run demo_auth demo_closures demo_mod demo_calls"
  have "map_option ac_Status (FindByID (aw_repo (mw_auth w)) ''acc-0001'') = Some StatusSuspended" unfolding w_def by code_simp
  then obtain acc where acc: "FindByID (aw_repo (mw_auth w)) ''acc-0001'' = Some acc" "ac_Status acc = StatusSuspended" by auto
  have "map_option (\<lambda>ap. (ap_State ap, ap_AccountID ap)) (map_of (mp_byID (mw_appeals w)) ''appeal-0001'') = Some (AppealPending, ''acc-0001'')"
    unfolding w_def by code_simp
  then obtain ap where ap: "map_of (mp_byID (mw_appeals w)) ''appeal-0001'' = Some ap" "ap_State ap = AppealPending" "ap_AccountID ap = ''acc-0001''"
    by auto
  have "RuleByID ''SX-01'' \<noteq> None" by code_simp
  moreover have "IsModerator w ''mod''" unfolding w_def by code_simp
  ultimately have "GetAccountStatus (mw_auth (mod_run demo_auth demo_closures w [(20, ModDecide ''mod'' ''appeal-0001'' False)])) ''acc-0001'' = Inr StatusActive"
    using suspension_undone [OF acc _ _ ap] by blast
  moreover have "GetAccountStatus (mw_auth w) ''acc-0001'' = Inr StatusSuspended" using acc by (simp add: GetAccountStatus_def)
  ultimately show ?thesis by (simp add: Let_def flip: w_def)
qed

end
