(* ===== verification/Bus.thy ===== *)
theory Bus
  imports GoText "HOL-Library.Sublist"
begin

text \<open>
  The in-process event bus (\<open>gateway/bus/bus.go\<close>), the topic names
  (\<open>gateway/internal/topics/topics.go\<close>) and the single-use connection tokens
  (\<open>gateway/ws/token.go\<close>). A topic keeps the last 500 events in a ring and fans each event out to
  bounded channels. Message IDs and time stamps of events are left out; the sequence number, a
  \<open>uint64\<close> that grows by one per event, is a natural number.
\<close>

section \<open>JSON values\<close>

datatype jval = JNull | JBool bool | JStr string | JNum int | JOther string | JArr "jval list" | JObj "(string \<times> jval) list"

section \<open>Topics\<close>

definition SysTopic :: string where "SysTopic = ''sys''"
definition RoomTopic :: "string \<Rightarrow> string" where "RoomTopic i = ''room:'' @ i"
definition UserTopic :: "string \<Rightarrow> string" where "UserTopic i = ''user:'' @ i"
definition ConvTopic :: "string \<Rightarrow> string" where "ConvTopic i = ''conv:'' @ i"
definition PVTopic :: "string \<Rightarrow> string" where "PVTopic i = ''pv:'' @ i"

definition CutPrefix :: "string \<Rightarrow> string \<Rightarrow> string option" where
  "CutPrefix s p = (if HasPrefix s p then Some (drop (length p) s) else None)"

definition IsRoom :: "string \<Rightarrow> string option" where "IsRoom topic = CutPrefix topic ''room:''"
definition IsConv :: "string \<Rightarrow> string option" where "IsConv topic = CutPrefix topic ''conv:''"
definition IsPV :: "string \<Rightarrow> string option" where "IsPV topic = CutPrefix topic ''pv:''"
definition IsUser :: "string \<Rightarrow> string option" where "IsUser topic = CutPrefix topic ''user:''"

lemmas topic_defs = SysTopic_def RoomTopic_def UserTopic_def ConvTopic_def PVTopic_def CutPrefix_def
  IsRoom_def IsConv_def IsPV_def IsUser_def

text \<open>The parsers invert the builders, and a topic is of one kind only.\<close>

lemma topic_kinds [simp]:
  "IsRoom (RoomTopic i) = Some i" "IsUser (UserTopic i) = Some i" "IsConv (ConvTopic i) = Some i" "IsPV (PVTopic i) = Some i"
  "IsUser (RoomTopic i) = None" "IsConv (RoomTopic i) = None" "IsPV (RoomTopic i) = None"
  "IsRoom (UserTopic i) = None" "IsConv (UserTopic i) = None" "IsPV (UserTopic i) = None"
  "IsRoom (ConvTopic i) = None" "IsUser (ConvTopic i) = None" "IsPV (ConvTopic i) = None"
  by (simp_all add: topic_defs HasPrefix_def)

section \<open>Connection tokens\<close>

definition tokenTTL :: duration where "tokenTTL = 60 * second"

record ws_claim =
  wt_accountID :: string
  wt_deviceID :: string
  wt_expiresAt :: time

type_synonym ws_tokens = "(string \<times> ws_claim) list"

definition gcLocked :: "ws_tokens \<Rightarrow> time \<Rightarrow> ws_tokens" where
  "gcLocked s now = filter (\<lambda>(k, v). \<not> After now (wt_expiresAt v)) s"

text \<open>The random token is an argument.\<close>

definition IssueWSToken :: "ws_tokens \<Rightarrow> time \<Rightarrow> string \<Rightarrow> string \<Rightarrow> string \<Rightarrow> ws_tokens" where
  "IssueWSToken s now tok accountID deviceID =
     AList.update tok \<lparr>wt_accountID = accountID, wt_deviceID = deviceID, wt_expiresAt = now + tokenTTL\<rparr> (gcLocked s now)"

definition ConsumeWSToken :: "ws_tokens \<Rightarrow> time \<Rightarrow> string \<Rightarrow> (string \<times> string) option \<times> ws_tokens" where
  "ConsumeWSToken s now tok =
     (case map_of s tok of
        None \<Rightarrow> (None, s)
      | Some cl \<Rightarrow>
          (if After now (wt_expiresAt cl) then None else Some (wt_accountID cl, wt_deviceID cl), AList.delete tok s))"

text \<open>Single use, and never after a minute.\<close>

lemma ws_token_once:
  "fst (ConsumeWSToken (snd (ConsumeWSToken s t tok)) t' tok) = None"
  by (simp add: ConsumeWSToken_def split: option.split)

lemma ws_token_issued:
  "fst (ConsumeWSToken (IssueWSToken s now tok a d) t tok) = (if t \<le> now + 60 * second then Some (a, d) else None)"
  by (simp add: ConsumeWSToken_def IssueWSToken_def tokenTTL_def After_def)

section \<open>The bus\<close>

definition BackfillLimit :: nat where "BackfillLimit = 500"

record event =
  ev_Type :: string
  ev_Topic :: string
  ev_Seq :: nat
  ev_Payload :: jval

definition zero_event :: event where
  "zero_event = \<lparr>ev_Type = [], ev_Topic = [], ev_Seq = 0, ev_Payload = JNull\<rparr>"

text \<open>A subscriber's channel holds at most 64 events.\<close>

record topic_state =
  ts_seq :: nat
  ts_ring :: "event list"
  ts_subs :: "(nat \<times> event list) list"
  ts_next :: nat

definition new_topic :: topic_state where
  "new_topic = \<lparr>ts_seq = 0, ts_ring = replicate BackfillLimit zero_event, ts_subs = [], ts_next = 0\<rparr>"

type_synonym bus = "(string \<times> topic_state) list"

definition NewBus :: bus where "NewBus = []"

definition topic_of :: "bus \<Rightarrow> string \<Rightarrow> topic_state" where
  "topic_of b name = (case map_of b name of None \<Rightarrow> new_topic | Some t \<Rightarrow> t)"

definition bus_topic :: "bus \<Rightarrow> string \<Rightarrow> topic_state \<times> bus" where
  "bus_topic b name =
     (case map_of b name of
        Some t \<Rightarrow> (t, b)
      | None \<Rightarrow> (new_topic, AList.update name new_topic b))"

definition chan_send :: "nat \<Rightarrow> 'a list \<Rightarrow> 'a \<Rightarrow> 'a list" where
  "chan_send cap ch x = (if length ch < cap then ch @ [x] else ch)"

definition publish_topic :: "topic_state \<Rightarrow> string \<Rightarrow> string \<Rightarrow> jval \<Rightarrow> topic_state" where
  "publish_topic t name typ payload =
     (let n = ts_seq t + 1;
          ev = \<lparr>ev_Type = typ, ev_Topic = name, ev_Seq = n, ev_Payload = payload\<rparr>
      in t\<lparr>ts_seq := n, ts_ring := (ts_ring t)[n mod BackfillLimit := ev],
           ts_subs := map (\<lambda>(i, ch). (i, chan_send 64 ch ev)) (ts_subs t)\<rparr>)"

definition Publish :: "bus \<Rightarrow> string \<Rightarrow> string \<Rightarrow> jval \<Rightarrow> bus" where
  "Publish b name typ payload =
     (let (t, b) = bus_topic b name in AList.update name (publish_topic t name typ payload) b)"

definition Subscribe :: "bus \<Rightarrow> string \<Rightarrow> (nat \<times> nat) \<times> bus" where
  "Subscribe b name =
     (let (t, b) = bus_topic b name; i = ts_next t
      in ((i, ts_seq t), AList.update name (t\<lparr>ts_next := i + 1, ts_subs := AList.update i [] (ts_subs t)\<rparr>) b))"

definition Unsubscribe :: "bus \<Rightarrow> string \<Rightarrow> nat \<Rightarrow> bus" where
  "Unsubscribe b name i =
     (let (t, b) = bus_topic b name in AList.update name (t\<lparr>ts_subs := AList.delete i (ts_subs t)\<rparr>) b)"

text \<open>The read loop: \<open>s\<close> runs from the number after \<open>fromSeq\<close> to the last.\<close>

fun backfill_loop :: "topic_state \<Rightarrow> nat list \<Rightarrow> event list option" where
  "backfill_loop t [] = Some []"
| "backfill_loop t (s # ss) =
     (let ev = ts_ring t ! (s mod BackfillLimit)
      in if ev_Seq ev \<noteq> s then None
         else (case backfill_loop t ss of None \<Rightarrow> None | Some evs \<Rightarrow> Some (ev # evs)))"

definition Backfill :: "bus \<Rightarrow> string \<Rightarrow> nat \<Rightarrow> event list option \<times> bus" where
  "Backfill b name fromSeq =
     (let (t, b) = bus_topic b name
      in (if ts_seq t \<le> fromSeq then Some []
          else if BackfillLimit < ts_seq t - fromSeq then None
          else backfill_loop t [fromSeq + 1..<ts_seq t + 1], b))"

definition LastSeq :: "bus \<Rightarrow> string \<Rightarrow> nat \<times> bus" where
  "LastSeq b name = (let (t, b) = bus_topic b name in (ts_seq t, b))"

text \<open>The receiving end of a channel.\<close>

definition chan_recv :: "bus \<Rightarrow> string \<Rightarrow> nat \<Rightarrow> (event \<times> bus) option" where
  "chan_recv b name i =
     (case map_of (ts_subs (topic_of b name)) i of
        Some (ev # evs) \<Rightarrow>
          Some (ev, AList.update name ((topic_of b name)\<lparr>ts_subs := AList.update i evs (ts_subs (topic_of b name))\<rparr>) b)
      | _ \<Rightarrow> None)"

lemma fst_bus_topic [simp]: "fst (bus_topic b name) = topic_of b name"
  by (simp add: bus_topic_def topic_of_def split: option.split)

lemma topic_of_bus_topic [simp]: "topic_of (snd (bus_topic b name)) other = topic_of b other"
  by (simp add: bus_topic_def topic_of_def split: option.split)

lemma topic_of_update: "topic_of (AList.update name t b) other = (if other = name then t else topic_of b other)"
  by (simp add: topic_of_def)

lemma topic_of_bus [simp]:
  "topic_of (Publish b name typ p) other = (if other = name then publish_topic (topic_of b name) name typ p else topic_of b other)"
  "fst (Subscribe b name) = (ts_next (topic_of b name), ts_seq (topic_of b name))"
  "topic_of (snd (Subscribe b name)) other = (if other = name then (topic_of b name)\<lparr>ts_next := ts_next (topic_of b name) + 1,
     ts_subs := AList.update (ts_next (topic_of b name)) [] (ts_subs (topic_of b name))\<rparr> else topic_of b other)"
  "topic_of (Unsubscribe b name i) other = (if other = name then (topic_of b name)\<lparr>ts_subs := AList.delete i (ts_subs (topic_of b name))\<rparr>
     else topic_of b other)"
  "topic_of (snd (Backfill b name n)) other = topic_of b other"
  "topic_of (snd (LastSeq b name)) other = topic_of b other"
  "fst (LastSeq b name) = ts_seq (topic_of b name)"
  by (simp_all add: Publish_def Subscribe_def Unsubscribe_def Backfill_def LastSeq_def topic_of_update Let_def case_prod_beta)

lemma publish_topic_simps [simp]:
  "ts_seq (publish_topic t name typ p) = ts_seq t + 1"
  "ts_next (publish_topic t name typ p) = ts_next t"
  "length (ts_ring (publish_topic t name typ p)) = length (ts_ring t)"
  by (simp_all add: publish_topic_def Let_def)

section \<open>The ring holds the end of the log\<close>

datatype bus_call =
    BPublish string string jval
  | BSubscribe string
  | BUnsubscribe string nat
  | BBackfill string nat
  | BLastSeq string
  | BRecv string nat

fun bus_do :: "bus \<Rightarrow> bus_call \<Rightarrow> bus" where
  "bus_do b (BPublish name typ p) = Publish b name typ p"
| "bus_do b (BSubscribe name) = snd (Subscribe b name)"
| "bus_do b (BUnsubscribe name i) = Unsubscribe b name i"
| "bus_do b (BBackfill name n) = snd (Backfill b name n)"
| "bus_do b (BLastSeq name) = snd (LastSeq b name)"
| "bus_do b (BRecv name i) = (case chan_recv b name i of None \<Rightarrow> b | Some (_, b') \<Rightarrow> b')"

definition bus_run :: "bus \<Rightarrow> bus_call list \<Rightarrow> bus" where
  "bus_run b cs = foldl bus_do b cs"

text \<open>The specification: a topic is the list of all events ever published on it.\<close>

fun log_add :: "string \<Rightarrow> event list \<Rightarrow> bus_call \<Rightarrow> event list" where
  "log_add name log (BPublish name' typ p) =
     (if name' = name then log @ [\<lparr>ev_Type = typ, ev_Topic = name, ev_Seq = length log + 1, ev_Payload = p\<rparr>] else log)"
| "log_add name log c = log"

definition topic_log :: "string \<Rightarrow> bus_call list \<Rightarrow> event list" where
  "topic_log name cs = foldl (log_add name) [] cs"

definition log_suffix :: "event list \<Rightarrow> nat \<Rightarrow> event list option" where
  "log_suffix log n = (if length log \<le> n then Some [] else if BackfillLimit < length log - n then None else Some (drop n log))"

definition topic_refines :: "topic_state \<Rightarrow> event list \<Rightarrow> bool" where
  "topic_refines t log \<longleftrightarrow> ts_seq t = length log \<and> length (ts_ring t) = BackfillLimit \<and>
     (\<forall>k < length log. ev_Seq (log ! k) = k + 1) \<and>
     (\<forall>k < length log. length log \<le> k + BackfillLimit \<longrightarrow> ts_ring t ! ((k + 1) mod BackfillLimit) = log ! k) \<and>
     (\<forall>i ch. (i, ch) \<in> set (ts_subs t) \<longrightarrow> subseq ch log)"

lemma topic_refines_new: "topic_refines new_topic []"
  by (simp add: topic_refines_def new_topic_def)

lemma topic_refines_publish:
  assumes "topic_refines t log"
  shows "topic_refines (publish_topic t name typ p) (log @ [\<lparr>ev_Type = typ, ev_Topic = name, ev_Seq = length log + 1, ev_Payload = p\<rparr>])"
    (is "topic_refines ?t (log @ [?ev])")
proof -
  let ?n = "length log"
  have seq: "ts_seq t = ?n" and len: "length (ts_ring t) = BackfillLimit" using assms by (simp_all add: topic_refines_def)
  have ring: "ts_ring ?t = (ts_ring t)[(?n + 1) mod BackfillLimit := ?ev]"
    by (simp add: publish_topic_def Let_def seq)
  have pos: "0 < BackfillLimit" by (simp add: BackfillLimit_def)
  have "ts_ring ?t ! ((k + 1) mod BackfillLimit) = (log @ [?ev]) ! k" if k: "k < ?n + 1" "?n + 1 \<le> k + BackfillLimit" for k
  proof (cases "k = ?n")
    case True
    then show ?thesis using ring len pos by simp
  next
    case False
    then have less: "k < ?n" using k by simp
    have "(?n + 1) mod BackfillLimit \<noteq> (k + 1) mod BackfillLimit"
    proof
      assume "(?n + 1) mod BackfillLimit = (k + 1) mod BackfillLimit"
      then have "BackfillLimit dvd (?n + 1) - (k + 1)" using less mod_eq_dvd_iff_nat [of "k + 1" "?n + 1"] by simp
      then show False using less k(2) by (auto dest: dvd_imp_le)
    qed
    then have "ts_ring ?t ! ((k + 1) mod BackfillLimit) = ts_ring t ! ((k + 1) mod BackfillLimit)" using ring by simp
    then show ?thesis using assms less k(2) by (simp add: topic_refines_def nth_append)
  qed
  moreover have "subseq ch' (log @ [?ev])" if mem: "(i, ch') \<in> set (ts_subs ?t)" for i ch'
  proof -
    obtain ch where ch: "(i, ch) \<in> set (ts_subs t)" "ch' = chan_send 64 ch ?ev"
      using mem seq by (auto simp: publish_topic_def Let_def)
    then have "subseq ch log" using assms by (auto simp: topic_refines_def)
    then show ?thesis using ch(2) by (simp add: chan_send_def subseq_rev_drop_many list_emb_append2)
  qed
  ultimately show ?thesis using assms by (auto simp: topic_refines_def nth_append)
qed

lemma topic_refines_subs:
  "topic_refines t log \<Longrightarrow> (\<And>i ch. (i, ch) \<in> set subs \<Longrightarrow> subseq ch log) \<Longrightarrow> topic_refines (t\<lparr>ts_subs := subs\<rparr>) log"
  "topic_refines t log \<Longrightarrow> topic_refines (t\<lparr>ts_next := n\<rparr>) log"
  by (simp_all add: topic_refines_def)

lemma set_update_subset: "x \<in> set (AList.update k v m) \<Longrightarrow> x = (k, v) \<or> x \<in> set m"
  by (induction m) (auto split: if_splits)

lemma topic_refines_do:
  assumes "topic_refines (topic_of b name) log"
  shows "topic_refines (topic_of (bus_do b c) name) (log_add name log c)"
proof (cases c)
  case (BPublish name' ty p)
  then show ?thesis using assms topic_refines_publish [OF assms] by simp
next
  case (BSubscribe name')
  then show ?thesis using assms
    by (auto intro!: topic_refines_subs dest!: set_update_subset simp: topic_refines_def)
next
  case (BUnsubscribe name' i)
  then show ?thesis using assms by (auto simp: topic_refines_def AList.delete_eq)
next
  case (BRecv name' i)
  show ?thesis
  proof (cases "map_of (ts_subs (topic_of b name')) i")
    case (Some ch)
    then have "subseq ch log" if "name' = name" using assms that by (auto simp: topic_refines_def dest: map_of_SomeD)
    then have "subseq (tl ch) log" if "name' = name" using that by (cases ch) (auto dest: subseq_Cons')
    then show ?thesis using BRecv Some assms
      by (cases ch) (auto simp: chan_recv_def topic_of_update topic_refines_def dest!: set_update_subset)
  qed (simp add: chan_recv_def BRecv assms)
qed (use assms in simp_all)

lemma topic_refines_run: "topic_refines (topic_of (bus_run NewBus cs) name) (topic_log name cs)"
proof (induction cs rule: rev_induct)
  case Nil
  then show ?case by (simp add: bus_run_def NewBus_def topic_of_def topic_log_def topic_refines_new)
next
  case (snoc c cs)
  then show ?case using topic_refines_do by (simp add: bus_run_def topic_log_def)
qed

lemma backfill_loop_log:
  assumes "topic_refines t log" and "\<forall>s \<in> set ss. 0 < s \<and> s \<le> length log \<and> length log < s + BackfillLimit"
  shows "backfill_loop t ss = Some (map (\<lambda>s. log ! (s - 1)) ss)"
  using assms(2)
proof (induction ss)
  case (Cons s ss)
  then have s: "s - 1 < length log" "length log \<le> (s - 1) + BackfillLimit" "s - 1 + 1 = s" by auto
  then have "ts_ring t ! (s mod BackfillLimit) = log ! (s - 1)" "ev_Seq (log ! (s - 1)) = s"
    using assms(1) unfolding topic_refines_def by metis+
  then show ?case using Cons by simp
qed simp

lemma Backfill_log:
  assumes ref: "topic_refines (topic_of b name) log"
  shows "fst (Backfill b name n) = log_suffix log n"
proof -
  have seq: "ts_seq (topic_of b name) = length log" using ref by (simp add: topic_refines_def)
  have "backfill_loop (topic_of b name) [n + 1..<length log + 1] = Some (drop n log)" if "n < length log" "length log - n \<le> BackfillLimit"
  proof -
    have "backfill_loop (topic_of b name) [n + 1..<length log + 1] = Some (map (\<lambda>s. log ! (s - 1)) [n + 1..<length log + 1])"
      using that by (intro backfill_loop_log [OF ref]) auto
    also have "map (\<lambda>s. log ! (s - 1)) [n + 1..<length log + 1] = drop n log" by (rule nth_equalityI) (simp_all del: upt_Suc)
    finally show ?thesis .
  qed
  then show ?thesis by (simp add: Backfill_def log_suffix_def seq case_prod_beta)
qed

text \<open>C16: backfill. After any publishes, subscriptions, receptions and departures on any topics, a
  backfill request is answered as the full history of the topic would answer it: with exactly the
  events after the given number in order, or with nothing when none are newer, or with a refusal
  when more than 500 are missing; the ring of 500 slots never loses an event that is asked for. And
  what waits in a subscriber's channel is in the order of that history, without repetition.\<close>

theorem backfill_refines_log:
  shows "fst (Backfill (bus_run NewBus cs) name n) = log_suffix (topic_log name cs) n \<and>
    (\<forall>i ch. (i, ch) \<in> set (ts_subs (topic_of (bus_run NewBus cs) name)) \<longrightarrow> subseq ch (topic_log name cs))"
  using Backfill_log topic_refines_run [of cs name] by (simp add: topic_refines_def)

lemma backfill_refines_log_witness:
  "fst (Backfill (bus_run NewBus [BPublish ''room:1'' ''LIKE'' JNull, BPublish ''sys'' ''X'' JNull, BPublish ''room:1'' ''COMMENT'' JNull]) ''room:1'' 1) =
     Some [\<lparr>ev_Type = ''COMMENT'', ev_Topic = ''room:1'', ev_Seq = 2, ev_Payload = JNull\<rparr>]"
  using backfill_refines_log [of "[BPublish ''room:1'' ''LIKE'' JNull, BPublish ''sys'' ''X'' JNull, BPublish ''room:1'' ''COMMENT'' JNull]" "''room:1''" 1]
  by (simp add: log_suffix_def topic_log_def BackfillLimit_def)

end
