(* ===== verification/Hub.thy ===== *)
theory Hub
  imports Bus
begin

text \<open>
  The realtime gateway (\<open>gateway/ws/hub.go\<close>): connections, their subscriptions and every
  message a client can send. What the gateway asks other modules is a record of closures over their
  state, as \<open>main.go\<close> injects them. A message is handled at once; the goroutines that forward bus
  events, write to the socket and translate are steps of their own. Time stamps and message IDs of
  frames are left out.
\<close>

section \<open>State\<close>

datatype gift_failure = GiftShortfall int | GiftFailed

record 's hub_env =
  he_isHost :: "'s \<Rightarrow> string \<Rightarrow> string \<Rightarrow> unit + bool"                                  \<comment> \<open>room, account\<close>
  he_isParticipant :: "('s \<Rightarrow> string \<Rightarrow> string \<Rightarrow> unit + bool) option"                   \<comment> \<open>conversation, account\<close>
  he_sendMessage :: "('s \<Rightarrow> string \<Rightarrow> string \<Rightarrow> string \<Rightarrow> string \<Rightarrow> string \<Rightarrow> (unit + jval) \<times> 's) option"
  he_markRead :: "('s \<Rightarrow> string \<Rightarrow> string \<Rightarrow> nat \<Rightarrow> (unit + unit) \<times> 's) option"
  he_sendGift :: "('s \<Rightarrow> string \<Rightarrow> string \<Rightarrow> string \<Rightarrow> string \<Rightarrow> int \<Rightarrow> string \<Rightarrow> (gift_failure + (string \<times> jval) list) \<times> 's) option"
  he_isPVParticipant :: "('s \<Rightarrow> string \<Rightarrow> string \<Rightarrow> unit + bool) option"                 \<comment> \<open>session, account\<close>
  he_onPVConnected :: "('s \<Rightarrow> string \<Rightarrow> 's) option"
  he_onPVDisconnected :: "('s \<Rightarrow> string \<Rightarrow> 's) option"
  he_translate :: "('s \<Rightarrow> string \<Rightarrow> string \<Rightarrow> string \<Rightarrow> unit + string \<times> jval) option"
  he_updateViewerCount :: "('s \<Rightarrow> string \<Rightarrow> nat \<Rightarrow> 's) option"

text \<open>A frame on a connection's send channel: a bus event or a control message.\<close>

datatype frame =
    EventFrame event
  | ControlFrame string string "(string \<times> jval) list"   \<comment> \<open>type, topic, payload\<close>
  | BackfillFrame string "event list"                    \<comment> \<open>topic, events\<close>

record client =
  wc_accountID :: string
  wc_deviceID :: string
  wc_send :: "frame list"
  wc_subs :: "(string \<times> nat) list"                     \<comment> \<open>topic, subscription on the bus\<close>

record translation_job =
  tj_requester :: string
  tj_RefMsgID :: string
  tj_Body :: string
  tj_SourceLang :: string
  tj_TargetLang :: string

record 's hub =
  hu_bus :: bus
  hu_tokens :: ws_tokens
  hu_roomViewers :: "(string \<times> nat) list"
  hu_clients :: "(nat \<times> client) list"
  hu_jobs :: "translation_job list"
  hu_ext :: 's                                           \<comment> \<open>the other modules\<close>

record client_envelope =
  ce_Type :: string
  ce_Topic :: string
  ce_Payload :: jval                                     \<comment> \<open>null when absent\<close>

section \<open>Reading a payload\<close>

text \<open>Decoding into a struct keeps going past a field of the wrong type, which stays zero.\<close>

definition jfield :: "jval \<Rightarrow> string \<Rightarrow> jval option" where
  "jfield p k = (case p of JObj fs \<Rightarrow> map_of (rev fs) k | _ \<Rightarrow> None)"

definition jstr :: "jval \<Rightarrow> string \<Rightarrow> string" where
  "jstr p k = (case jfield p k of Some (JStr s) \<Rightarrow> s | _ \<Rightarrow> [])"

definition jint :: "jval \<Rightarrow> string \<Rightarrow> int" where
  "jint p k = (case jfield p k of Some (JNum n) \<Rightarrow> if in_i64 n then n else 0 | _ \<Rightarrow> 0)"

definition juint :: "jval \<Rightarrow> string \<Rightarrow> nat" where
  "juint p k = (case jfield p k of Some (JNum n) \<Rightarrow> if 0 \<le> n \<and> n < 2 ^ 64 then nat n else 0 | _ \<Rightarrow> 0)"

definition jget :: "(string \<times> jval) list \<Rightarrow> string \<Rightarrow> jval" where
  "jget m k = (case map_of m k of None \<Rightarrow> JNull | Some v \<Rightarrow> v)"

definition asInt64 :: "jval \<Rightarrow> int" where
  "asInt64 v = (case v of JNum n \<Rightarrow> n | _ \<Rightarrow> 0)"

section \<open>Viewer counts\<close>

definition currentViewerCount :: "'s hub \<Rightarrow> string \<Rightarrow> nat" where
  "currentViewerCount h roomID = (case map_of (hu_roomViewers h) roomID of None \<Rightarrow> 0 | Some n \<Rightarrow> n)"

definition persist_count :: "'s hub_env \<Rightarrow> 's hub \<Rightarrow> string \<Rightarrow> nat \<Rightarrow> 's hub" where
  "persist_count e h roomID n =
     (case he_updateViewerCount e of None \<Rightarrow> h | Some f \<Rightarrow> h\<lparr>hu_ext := f (hu_ext h) roomID n\<rparr>)"

definition viewerJoined :: "'s hub_env \<Rightarrow> 's hub \<Rightarrow> string \<Rightarrow> nat \<times> 's hub" where
  "viewerJoined e h roomID =
     (let n = currentViewerCount h roomID + 1;
          h = h\<lparr>hu_roomViewers := AList.update roomID n (hu_roomViewers h)\<rparr>
      in (n, persist_count e h roomID n))"

definition viewerLeft :: "'s hub_env \<Rightarrow> 's hub \<Rightarrow> string \<Rightarrow> nat \<times> 's hub" where
  "viewerLeft e h roomID =
     (let n = currentViewerCount h roomID;
          h = (if 0 < n then h\<lparr>hu_roomViewers := AList.update roomID (n - 1) (hu_roomViewers h)\<rparr> else h);
          n = currentViewerCount h roomID
      in (n, persist_count e h roomID n))"

definition says_yes :: "unit + bool \<Rightarrow> bool" where
  "says_yes r = (case r of Inl _ \<Rightarrow> False | Inr b \<Rightarrow> b)"

definition viewerJoinedRoom :: "'s hub_env \<Rightarrow> 's hub \<Rightarrow> client \<Rightarrow> string \<Rightarrow> nat \<times> 's hub" where
  "viewerJoinedRoom e h c roomID =
     (if says_yes (he_isHost e (hu_ext h) roomID (wc_accountID c)) then (currentViewerCount h roomID, h)
      else viewerJoined e h roomID)"

definition viewerLeftRoom :: "'s hub_env \<Rightarrow> 's hub \<Rightarrow> client \<Rightarrow> string \<Rightarrow> nat \<times> 's hub" where
  "viewerLeftRoom e h c roomID =
     (if says_yes (he_isHost e (hu_ext h) roomID (wc_accountID c)) then (currentViewerCount h roomID, h)
      else viewerLeft e h roomID)"

section \<open>A connection's own operations\<close>

definition hub_publish :: "'s hub \<Rightarrow> string \<Rightarrow> string \<Rightarrow> jval \<Rightarrow> 's hub" where
  "hub_publish h topic ty payload = h\<lparr>hu_bus := Publish (hu_bus h) topic ty payload\<rparr>"

definition put_client :: "'s hub \<Rightarrow> nat \<Rightarrow> client \<Rightarrow> 's hub" where
  "put_client h k c = h\<lparr>hu_clients := AList.update k c (hu_clients h)\<rparr>"

definition push_frame :: "'s hub \<Rightarrow> nat \<Rightarrow> frame \<Rightarrow> 's hub" where
  "push_frame h k f =
     (case map_of (hu_clients h) k of
        None \<Rightarrow> h
      | Some c \<Rightarrow> put_client h k (c\<lparr>wc_send := chan_send 128 (wc_send c) f\<rparr>))"

definition sendControl :: "'s hub \<Rightarrow> nat \<Rightarrow> string \<Rightarrow> string \<Rightarrow> (string \<times> jval) list \<Rightarrow> 's hub" where
  "sendControl h k ty topic payload = push_frame h k (ControlFrame ty topic payload)"

definition sendError :: "'s hub \<Rightarrow> nat \<Rightarrow> string \<Rightarrow> string \<Rightarrow> 's hub" where
  "sendError h k topic code = sendControl h k ''ERROR'' topic [(''code'', JStr code), (''topic'', JStr topic)]"

definition client_subscribe :: "'s hub \<Rightarrow> nat \<Rightarrow> client \<Rightarrow> string \<Rightarrow> nat \<times> 's hub" where
  "client_subscribe h k c topic =
     (case map_of (wc_subs c) topic of
        Some _ \<Rightarrow> (let (n, b) = LastSeq (hu_bus h) topic in (n, h\<lparr>hu_bus := b\<rparr>))
      | None \<Rightarrow>
          (let ((i, n), b) = Subscribe (hu_bus h) topic
           in (n, put_client (h\<lparr>hu_bus := b\<rparr>) k (c\<lparr>wc_subs := AList.update topic i (wc_subs c)\<rparr>))))"

definition viewer_payload :: "client \<Rightarrow> string \<Rightarrow> nat \<Rightarrow> jval" where
  "viewer_payload c roomID n =
     JObj [(''user_id'', JStr (wc_accountID c)), (''room_id'', JStr roomID), (''viewer_count'', JNum (int n))]"

definition announce_leave :: "'s hub_env \<Rightarrow> 's hub \<Rightarrow> client \<Rightarrow> string \<Rightarrow> 's hub" where
  "announce_leave e h c topic =
     (case IsRoom topic of
        None \<Rightarrow> h
      | Some roomID \<Rightarrow>
          (let (n, h) = viewerLeftRoom e h c roomID in hub_publish h topic ''VIEWER_LEFT'' (viewer_payload c roomID n)))"

definition client_unsubscribe :: "'s hub_env \<Rightarrow> 's hub \<Rightarrow> nat \<Rightarrow> client \<Rightarrow> string \<Rightarrow> 's hub" where
  "client_unsubscribe e h k c topic =
     (case map_of (wc_subs c) topic of
        None \<Rightarrow> h
      | Some i \<Rightarrow>
          announce_leave e (put_client (h\<lparr>hu_bus := Unsubscribe (hu_bus h) topic i\<rparr>) k
            (c\<lparr>wc_subs := AList.delete topic (wc_subs c)\<rparr>)) c topic)"

definition close_topic :: "'s hub_env \<Rightarrow> client \<Rightarrow> 's hub \<Rightarrow> string \<times> nat \<Rightarrow> 's hub" where
  "close_topic e c h ti =
     (let (topic, i) = ti;
          h = announce_leave e (h\<lparr>hu_bus := Unsubscribe (hu_bus h) topic i\<rparr>) c topic
      in case (IsPV topic, he_onPVDisconnected e) of
           (Some sessionID, Some f) \<Rightarrow> h\<lparr>hu_ext := f (hu_ext h) sessionID\<rparr>
         | _ \<Rightarrow> h)"

definition closeAll :: "'s hub_env \<Rightarrow> 's hub \<Rightarrow> nat \<Rightarrow> 's hub" where
  "closeAll e h k =
     (case map_of (hu_clients h) k of
        None \<Rightarrow> h
      | Some c \<Rightarrow> (foldl (close_topic e c) h (wc_subs c))\<lparr>hu_clients := AList.delete k (hu_clients h)\<rparr>)"

definition ServeHTTP :: "'s hub \<Rightarrow> time \<Rightarrow> nat \<Rightarrow> string \<Rightarrow> 's hub" where
  "ServeHTTP h now k tok =
     (case ConsumeWSToken (hu_tokens h) now tok of
        (None, ts) \<Rightarrow> h\<lparr>hu_tokens := ts\<rparr>
      | (Some (accountID, deviceID), ts) \<Rightarrow>
          (let subscribe_to = (\<lambda>topic h. case map_of (hu_clients h) k of
                 None \<Rightarrow> h | Some c \<Rightarrow> snd (client_subscribe h k c topic));
               h = put_client (h\<lparr>hu_tokens := ts\<rparr>) k
                 \<lparr>wc_accountID = accountID, wc_deviceID = deviceID, wc_send = [], wc_subs = []\<rparr>
           in subscribe_to SysTopic (subscribe_to (UserTopic accountID) h)))"

definition authorizedForConv :: "'s hub_env \<Rightarrow> 's hub \<Rightarrow> client \<Rightarrow> string \<Rightarrow> bool" where
  "authorizedForConv e h c convID =
     (case he_isParticipant e of None \<Rightarrow> False | Some f \<Rightarrow> says_yes (f (hu_ext h) convID (wc_accountID c)))"

definition authorizedForPV :: "'s hub_env \<Rightarrow> 's hub \<Rightarrow> client \<Rightarrow> string \<Rightarrow> bool" where
  "authorizedForPV e h c sessionID =
     (case he_isPVParticipant e of None \<Rightarrow> False | Some f \<Rightarrow> says_yes (f (hu_ext h) sessionID (wc_accountID c)))"

definition authorizedForUser :: "client \<Rightarrow> string \<Rightarrow> bool" where
  "authorizedForUser c userID \<longleftrightarrow> wc_accountID c = userID"

section \<open>The messages\<close>

definition equalFold :: "string \<Rightarrow> string \<Rightarrow> bool" where
  "equalFold a b \<longleftrightarrow> length a = length b \<and> list_all2 (\<lambda>x y. lower_ascii x = lower_ascii y) a b"

definition containsFold :: "string \<Rightarrow> string \<Rightarrow> bool" where
  "containsFold s sub \<longleftrightarrow> list_ex (\<lambda>i. equalFold (take (length sub) (drop i s)) sub) [0..<length s + 1 - length sub]"

definition containsBlockedTerm :: "string \<Rightarrow> bool" where
  "containsBlockedTerm body \<longleftrightarrow> body \<noteq> [] \<and> containsFold body ''xxxslur''"

definition actionStatus :: "string \<Rightarrow> string" where
  "actionStatus msgType = (if msgType = ''MUTE_USER'' then ''muted'' else ''removed'')"

definition relayBroadcastSignal :: "'s hub \<Rightarrow> nat \<Rightarrow> client \<Rightarrow> client_envelope \<Rightarrow> 's hub" where
  "relayBroadcastSignal h k c env =
     (case ce_Payload env of
        JObj p \<Rightarrow>
          (let targetID = jstr (JObj p) ''target_account_id''
           in if targetID = [] then sendError h k (ce_Topic env) ''VALIDATION_ERROR''
              else hub_publish h (UserTopic targetID) ''BROADCAST_SIGNAL''
                (JObj (p @ [(''sender_id'', JStr (wc_accountID c))])))
      | _ \<Rightarrow> h)"

definition handleTranslationRequest :: "'s hub_env \<Rightarrow> 's hub \<Rightarrow> client \<Rightarrow> client_envelope \<Rightarrow> 's hub" where
  "handleTranslationRequest e h c env =
     (let p = ce_Payload env
      in if he_translate e = None \<or> IsRoom (ce_Topic env) = None \<or> jstr p ''body'' = [] \<or> jstr p ''target_lang'' = [] then h
         else h\<lparr>hu_jobs := hu_jobs h @ [\<lparr>tj_requester = wc_accountID c, tj_RefMsgID = jstr p ''ref_msg_id'',
           tj_Body = jstr p ''body'', tj_SourceLang = jstr p ''source_lang'', tj_TargetLang = jstr p ''target_lang''\<rparr>]\<rparr>)"

text \<open>The goroutine of a translation request.\<close>

definition run_translation :: "'s hub_env \<Rightarrow> 's hub \<Rightarrow> translation_job \<Rightarrow> 's hub" where
  "run_translation e h j =
     (case he_translate e of
        None \<Rightarrow> h
      | Some f \<Rightarrow>
          (case f (hu_ext h) (tj_Body j) (tj_SourceLang j) (tj_TargetLang j) of
             Inl _ \<Rightarrow> h
           | Inr (translated, confidence) \<Rightarrow>
               hub_publish h (UserTopic (tj_requester j)) ''COMMENT_TRANSLATED''
                 (JObj [(''ref_msg_id'', JStr (tj_RefMsgID j)), (''translated_body'', JStr translated),
                        (''target_lang'', JStr (tj_TargetLang j)), (''confidence'', confidence)])))"

definition publishComment :: "'s hub \<Rightarrow> nat \<Rightarrow> client \<Rightarrow> client_envelope \<Rightarrow> 's hub" where
  "publishComment h k c env =
     (case IsRoom (ce_Topic env) of
        None \<Rightarrow> sendError h k (ce_Topic env) ''TOPIC_NOT_FOUND''
      | Some roomID \<Rightarrow>
          (let body = jstr (ce_Payload env) ''body''
           in hub_publish h (ce_Topic env) ''COMMENT''
                (JObj [(''sender_id'', JStr (wc_accountID c)), (''room_id'', JStr roomID), (''body'', JStr body),
                       (''lang'', JStr (jstr (ce_Payload env) ''lang'')),
                       (''moderation'', JStr (if containsBlockedTerm body then ''flagged'' else ''clean''))])))"

definition handleModeration :: "'s hub_env \<Rightarrow> 's hub \<Rightarrow> nat \<Rightarrow> client \<Rightarrow> client_envelope \<Rightarrow> 's hub" where
  "handleModeration e h k c env =
     (case IsRoom (ce_Topic env) of
        None \<Rightarrow> sendError h k (ce_Topic env) ''TOPIC_NOT_FOUND''
      | Some roomID \<Rightarrow>
          if \<not> says_yes (he_isHost e (hu_ext h) roomID (wc_accountID c)) then sendError h k (ce_Topic env) ''FORBIDDEN''
          else
            (let targetID = jstr (ce_Payload env) ''target_id'';
                 ruleID = jstr (ce_Payload env) ''rule_id'';
                 ruleID = (if ruleID = [] then ''CS-00'' else ruleID)
             in if targetID = [] then sendError h k (ce_Topic env) ''INVALID_TARGET''
                else
                  (let h = (if ce_Type env = ''MUTE_USER''
                            then hub_publish h (ce_Topic env) ''USER_MUTED''
                              (JObj [(''target_id'', JStr targetID), (''duration_s'', JNum (jint (ce_Payload env) ''duration_s'')),
                                     (''by'', JStr ''host'')])
                            else hub_publish h (ce_Topic env) ''USER_KICKED'' (JObj [(''target_id'', JStr targetID)]));
                       h = hub_publish h (ce_Topic env) ''ROOM_MODERATION_NOTICE''
                         (JObj [(''message'', JStr ''A moderation action was taken.''), (''rule_id'', JStr ruleID),
                                (''rule_url'', JStr (''https://lumena.live/rules/'' @ ruleID))])
                   in hub_publish h (UserTopic targetID) ''ACCOUNT_STATUS''
                        (JObj [(''status'', JStr (actionStatus (ce_Type env))), (''rule_id'', JStr ruleID),
                               (''rule_url'', JStr (''https://lumena.live/rules/'' @ ruleID)), (''appealable'', JBool True)]))))"

definition relayPV :: "'s hub_env \<Rightarrow> 's hub \<Rightarrow> nat \<Rightarrow> client \<Rightarrow> client_envelope \<Rightarrow> 's hub" where
  "relayPV e h k c env =
     (case IsPV (ce_Topic env) of
        None \<Rightarrow> sendError h k (ce_Topic env) ''FORBIDDEN''
      | Some sessionID \<Rightarrow>
          if \<not> authorizedForPV e h c sessionID then sendError h k (ce_Topic env) ''FORBIDDEN''
          else hub_publish h (ce_Topic env) (ce_Type env) (case ce_Payload env of JObj p \<Rightarrow> JObj p | _ \<Rightarrow> JNull))"

definition handlePrivateMessage :: "'s hub_env \<Rightarrow> 's hub \<Rightarrow> nat \<Rightarrow> client \<Rightarrow> client_envelope \<Rightarrow> 's hub" where
  "handlePrivateMessage e h k c env =
     (case IsConv (ce_Topic env) of
        None \<Rightarrow> sendError h k (ce_Topic env) ''TOPIC_NOT_FOUND''
      | Some convID \<Rightarrow>
          (case he_sendMessage e of
             None \<Rightarrow> sendError h k (ce_Topic env) ''FORBIDDEN''
           | Some f \<Rightarrow>
               if \<not> authorizedForConv e h c convID then sendError h k (ce_Topic env) ''FORBIDDEN''
               else
                 (let p = ce_Payload env
                  in if jstr p ''client_msg_id'' = [] then sendError h k (ce_Topic env) ''VALIDATION_ERROR''
                     else
                       (case f (hu_ext h) (wc_accountID c) convID (jstr p ''client_msg_id'') (jstr p ''body'') (jstr p ''attachment_id'') of
                          (Inl _, x) \<Rightarrow> sendError (h\<lparr>hu_ext := x\<rparr>) k (ce_Topic env) ''SEND_FAILED''
                        | (Inr payload, x) \<Rightarrow> hub_publish (h\<lparr>hu_ext := x\<rparr>) (ce_Topic env) ''MESSAGE'' payload))))"

definition handleReadReceipt :: "'s hub_env \<Rightarrow> 's hub \<Rightarrow> client \<Rightarrow> client_envelope \<Rightarrow> 's hub" where
  "handleReadReceipt e h c env =
     (case (IsConv (ce_Topic env), he_markRead e) of
        (Some convID, Some f) \<Rightarrow>
          if \<not> authorizedForConv e h c convID then h
          else
            (let n = juint (ce_Payload env) ''up_to_seq''
             in case f (hu_ext h) (wc_accountID c) convID n of
                  (Inl _, x) \<Rightarrow> h\<lparr>hu_ext := x\<rparr>
                | (Inr _, x) \<Rightarrow> hub_publish (h\<lparr>hu_ext := x\<rparr>) (ce_Topic env) ''READ''
                    (JObj [(''user_id'', JStr (wc_accountID c)), (''up_to_seq'', JNum (int n))]))
      | _ \<Rightarrow> h)"

text \<open>The three events of a gift.\<close>

definition gift_events :: "'s hub \<Rightarrow> client \<Rightarrow> string \<Rightarrow> string \<Rightarrow> (string \<times> jval) list \<Rightarrow> 's hub" where
  "gift_events h c topic recipientID result =
     (let h = hub_publish h topic ''GIFT_SENT''
            (JObj [(''transaction_id'', jget result ''transaction_id''), (''sender_id'', JStr (wc_accountID c)),
                   (''recipient_id'', JStr recipientID), (''gift_id'', jget result ''gift_id''), (''gift_name'', jget result ''gift_name''),
                   (''gift_asset_url'', jget result ''gift_asset_url''), (''quantity'', jget result ''quantity''),
                   (''coins'', jget result ''coins_spent'')]);
          h = hub_publish h (UserTopic (wc_accountID c)) ''BALANCE_CHANGED''
            (JObj [(''new_balance'', jget result ''new_sender_balance''),
                   (''delta'', JNum (neg64 (asInt64 (jget result ''coins_spent'')))),
                   (''transaction_id'', jget result ''transaction_id''), (''reason'', JStr ''gift_send'')])
      in hub_publish h (UserTopic recipientID) ''DIAMONDS_CHANGED''
            (JObj [(''new_diamonds'', jget result ''new_recipient_diamonds''), (''delta'', jget result ''creator_diamonds''),
                   (''transaction_id'', jget result ''transaction_id'')]))"

definition handleGift :: "'s hub_env \<Rightarrow> 's hub \<Rightarrow> nat \<Rightarrow> client \<Rightarrow> client_envelope \<Rightarrow> 's hub" where
  "handleGift e h k c env =
     (case IsRoom (ce_Topic env) of
        None \<Rightarrow> sendError h k (ce_Topic env) ''TOPIC_NOT_FOUND''
      | Some roomID \<Rightarrow>
          (case he_sendGift e of
             None \<Rightarrow> sendError h k (ce_Topic env) ''GIFTS_UNAVAILABLE''
           | Some f \<Rightarrow>
               (let p = ce_Payload env;
                    recipientID = jstr p ''recipient_id''; giftID = jstr p ''gift_id''; key = jstr p ''idempotency_key'';
                    quantity = jint p ''quantity'';
                    quantity = (if quantity \<le> 0 then 1 else quantity)
                in if recipientID = [] \<or> giftID = [] \<or> key = [] then sendError h k (ce_Topic env) ''VALIDATION_ERROR''
                   else
                     (case f (hu_ext h) (wc_accountID c) recipientID roomID giftID quantity key of
                        (Inl (GiftShortfall n), x) \<Rightarrow>
                          sendControl (h\<lparr>hu_ext := x\<rparr>) k ''ERROR'' (ce_Topic env)
                            [(''code'', JStr ''INSUFFICIENT_BALANCE''), (''topic'', JStr (ce_Topic env)), (''shortfall'', JNum n)]
                      | (Inl GiftFailed, x) \<Rightarrow> sendError (h\<lparr>hu_ext := x\<rparr>) k (ce_Topic env) ''GIFT_FAILED''
                      | (Inr result, x) \<Rightarrow> gift_events (h\<lparr>hu_ext := x\<rparr>) c (ce_Topic env) recipientID result))))"

definition subscribe_refused :: "'s hub_env \<Rightarrow> 's hub \<Rightarrow> client \<Rightarrow> string \<Rightarrow> bool" where
  "subscribe_refused e h c topic \<longleftrightarrow>
     (case IsConv topic of Some i \<Rightarrow> \<not> authorizedForConv e h c i | None \<Rightarrow> False) \<or>
     (case IsPV topic of Some i \<Rightarrow> \<not> authorizedForPV e h c i | None \<Rightarrow> False) \<or>
     (case IsUser topic of Some i \<Rightarrow> \<not> authorizedForUser c i | None \<Rightarrow> False)"

definition handleSubscribe :: "'s hub_env \<Rightarrow> 's hub \<Rightarrow> nat \<Rightarrow> client \<Rightarrow> client_envelope \<Rightarrow> 's hub" where
  "handleSubscribe e h k c env =
     (let topic = ce_Topic env
      in if subscribe_refused e h c topic then sendError h k topic ''FORBIDDEN''
         else
           (let (n, h) = client_subscribe h k c topic;
                h = sendControl h k ''SUBSCRIBED'' topic [(''last_seq'', JNum (int n))]
            in case IsRoom topic of
                 None \<Rightarrow> h
               | Some roomID \<Rightarrow>
                   (let (n, h) = viewerJoinedRoom e h c roomID
                    in hub_publish h topic ''VIEWER_JOINED'' (viewer_payload c roomID n))))"

definition handleBackfill :: "'s hub \<Rightarrow> nat \<Rightarrow> client_envelope \<Rightarrow> 's hub" where
  "handleBackfill h k env =
     (case Backfill (hu_bus h) (ce_Topic env) (juint (ce_Payload env) ''from_seq'') of
        (None, b) \<Rightarrow> sendControl (h\<lparr>hu_bus := b\<rparr>) k ''CATCHUP_REQUIRED'' (ce_Topic env) []
      | (Some events, b) \<Rightarrow> push_frame (h\<lparr>hu_bus := b\<rparr>) k (BackfillFrame (ce_Topic env) events))"

definition handle_client :: "'s hub_env \<Rightarrow> 's hub \<Rightarrow> nat \<Rightarrow> client \<Rightarrow> client_envelope \<Rightarrow> 's hub" where
  "handle_client e h k c env =
     (let ty = ce_Type env; topic = ce_Topic env
      in if ty = ''PING'' then sendControl h k ''PONG'' topic []
         else if ty = ''SUBSCRIBE'' then handleSubscribe e h k c env
         else if ty = ''UNSUBSCRIBE'' then client_unsubscribe e h k c topic
         else if ty = ''BACKFILL'' then handleBackfill h k env
         else if ty = ''COMMENT'' then publishComment h k c env
         else if ty = ''LIKE'' then
           (case IsRoom topic of
              None \<Rightarrow> h
            | Some roomID \<Rightarrow> hub_publish h topic ''LIKE'' (JObj [(''user_id'', JStr (wc_accountID c)), (''room_id'', JStr roomID)]))
         else if ty = ''GIFT_SENT'' then handleGift e h k c env
         else if ty = ''MUTE_USER'' \<or> ty = ''KICK_USER'' then handleModeration e h k c env
         else if ty = ''MESSAGE'' then handlePrivateMessage e h k c env
         else if ty = ''TYPING'' then
           (case IsConv topic of
              None \<Rightarrow> h
            | Some convID \<Rightarrow>
                if authorizedForConv e h c convID then hub_publish h topic ''TYPING'' (JObj [(''user_id'', JStr (wc_accountID c))]) else h)
         else if ty = ''READ'' then handleReadReceipt e h c env
         else if ty = ''SDP_OFFER'' \<or> ty = ''ICE_CANDIDATE'' then relayPV e h k c env
         else if ty = ''SDP_ANSWER'' then
           (let h = relayPV e h k c env
            in case (IsPV topic, he_onPVConnected e) of
                 (Some sessionID, Some f) \<Rightarrow> h\<lparr>hu_ext := f (hu_ext h) sessionID\<rparr>
               | _ \<Rightarrow> h)
         else if ty = ''BROADCAST_SIGNAL'' then relayBroadcastSignal h k c env
         else if ty = ''REQUEST_TRANSLATION'' then handleTranslationRequest e h c env
         else sendError h k topic ''UNKNOWN_TYPE'')"

definition handle :: "'s hub_env \<Rightarrow> 's hub \<Rightarrow> nat \<Rightarrow> client_envelope \<Rightarrow> 's hub" where
  "handle e h k env = (case map_of (hu_clients h) k of None \<Rightarrow> h | Some c \<Rightarrow> handle_client e h k c env)"

text \<open>The goroutines of a connection: one event forwarded, one frame written.\<close>

definition forward :: "'s hub \<Rightarrow> nat \<Rightarrow> string \<Rightarrow> 's hub" where
  "forward h k topic =
     (case map_of (hu_clients h) k of
        None \<Rightarrow> h
      | Some c \<Rightarrow>
          (case Option.bind (map_of (wc_subs c) topic) (chan_recv (hu_bus h) topic) of
             None \<Rightarrow> h
           | Some (ev, b) \<Rightarrow> push_frame (h\<lparr>hu_bus := b\<rparr>) k (EventFrame ev)))"

definition writePump :: "'s hub \<Rightarrow> nat \<Rightarrow> frame option \<times> 's hub" where
  "writePump h k =
     (case map_of (hu_clients h) k of
        None \<Rightarrow> (None, h)
      | Some c \<Rightarrow>
          (case wc_send c of
             [] \<Rightarrow> (None, h)
           | f # fs \<Rightarrow> (Some f, put_client h k (c\<lparr>wc_send := fs\<rparr>))))"

section \<open>Backfill asks nobody\<close>

definition env_of :: "string \<Rightarrow> string \<Rightarrow> jval \<Rightarrow> client_envelope" where
  "env_of ty topic p = \<lparr>ce_Type = ty, ce_Topic = topic, ce_Payload = p\<rparr>"

definition from_seq :: "nat \<Rightarrow> jval" where
  "from_seq n = JObj [(''from_seq'', JNum (int n))]"

lemma juint_from_seq: "n < 2 ^ 64 \<Longrightarrow> juint (from_seq n) ''from_seq'' = n"
proof -
  assume "n < 2 ^ 64"
  then have "int n < 2 ^ 64" by (metis of_nat_less_iff of_nat_numeral of_nat_power)
  then show ?thesis by (simp add: juint_def jfield_def from_seq_def)
qed

lemma client_push_frame:
  "map_of (hu_clients h) k = Some c \<Longrightarrow> length (wc_send c) < 128 \<Longrightarrow>
     map_of (hu_clients (push_frame h k f)) k = Some (c\<lparr>wc_send := wc_send c @ [f]\<rparr>)"
  by (simp add: push_frame_def put_client_def chan_send_def)

text \<open>Anybody reads anything. A connection may not subscribe to a private topic that is not its
  own - another account's events, a conversation it has no part in - and is told so. But a backfill
  request on the same topic is answered, whoever asks, with everything published there after the
  number it names: balances, account standing, and the text of other people's messages.\<close>

theorem backfill_reads_any_topic:
  assumes "map_of (hu_clients h) k = Some c" and "length (wc_send c) < 128" and "subscribe_refused e h c topic"
    and "hu_bus h = bus_run NewBus cs" and "n < 2 ^ 64" and "log_suffix (topic_log topic cs) n = Some evs"
  shows "map_of (hu_clients (handle e h k (env_of ''SUBSCRIBE'' topic p))) k =
      Some (c\<lparr>wc_send := wc_send c @ [ControlFrame ''ERROR'' topic [(''code'', JStr ''FORBIDDEN''), (''topic'', JStr topic)]]\<rparr>) \<and>
    map_of (hu_clients (handle e h k (env_of ''BACKFILL'' topic (from_seq n)))) k =
      Some (c\<lparr>wc_send := wc_send c @ [BackfillFrame topic evs]\<rparr>)"
proof -
  have sub: "handle e h k (env_of ''SUBSCRIBE'' topic p) = sendError h k topic ''FORBIDDEN''"
    using assms(1,3) by (simp add: handle_def handle_client_def handleSubscribe_def env_of_def)
  obtain b where b: "Backfill (hu_bus h) topic n = (Some evs, b)"
    using Backfill_log [OF topic_refines_run [of cs topic], of n] assms(4,6) by (metis prod.collapse)
  have "handle e h k (env_of ''BACKFILL'' topic (from_seq n)) = push_frame (h\<lparr>hu_bus := b\<rparr>) k (BackfillFrame topic evs)"
    using assms(1) b juint_from_seq [OF assms(5)] by (simp add: handle_def handle_client_def handleBackfill_def env_of_def)
  then show ?thesis
    using assms(1,2) client_push_frame [of "h\<lparr>hu_bus := b\<rparr>" k c] client_push_frame [of h k c]
    by (simp add: sub sendError_def sendControl_def)
qed

definition demo_env :: "unit hub_env" where
  "demo_env = \<lparr>he_isHost = (\<lambda>x room a. Inr (a = ''host'')), he_isParticipant = Some (\<lambda>x conv a. Inr (a = ''alice'' \<or> a = ''bob'')),
     he_sendMessage = None, he_markRead = None, he_sendGift = None, he_isPVParticipant = None, he_onPVConnected = None,
     he_onPVDisconnected = None, he_translate = None, he_updateViewerCount = None\<rparr>"

definition demo_hub :: "unit hub" where
  "demo_hub = \<lparr>hu_bus = bus_run NewBus [BPublish ''conv:c1'' ''MESSAGE'' (JStr ''a secret'')], hu_tokens = [], hu_roomViewers = [],
     hu_clients = [(7, \<lparr>wc_accountID = ''eve'', wc_deviceID = ''d'', wc_send = [], wc_subs = []\<rparr>)], hu_jobs = [], hu_ext = ()\<rparr>"

lemma backfill_reads_any_topic_witness:
  "map_option wc_send (map_of (hu_clients (handle demo_env demo_hub 7 (env_of ''BACKFILL'' ''conv:c1'' (from_seq 0)))) 7) =
     Some [BackfillFrame ''conv:c1'' [\<lparr>ev_Type = ''MESSAGE'', ev_Topic = ''conv:c1'', ev_Seq = 1, ev_Payload = JStr ''a secret''\<rparr>]]"
proof -
  let ?c = "\<lparr>wc_accountID = ''eve'', wc_deviceID = ''d'', wc_send = [], wc_subs = []\<rparr>" and ?cs = "[BPublish ''conv:c1'' ''MESSAGE'' (JStr ''a secret'')]"
  have "map_of (hu_clients demo_hub) 7 = Some ?c" "length (wc_send ?c) < 128" by (simp_all add: demo_hub_def)
  moreover have "subscribe_refused demo_env demo_hub ?c ''conv:c1''" by code_simp
  moreover have "hu_bus demo_hub = bus_run NewBus ?cs" by (simp add: demo_hub_def)
  moreover have "(0::nat) < 2 ^ 64" by simp
  moreover have "log_suffix (topic_log ''conv:c1'' ?cs) 0 =
      Some [\<lparr>ev_Type = ''MESSAGE'', ev_Topic = ''conv:c1'', ev_Seq = 1, ev_Payload = JStr ''a secret''\<rparr>]"
    by (simp add: log_suffix_def topic_log_def BackfillLimit_def)
  ultimately show ?thesis using backfill_reads_any_topic [where p = JNull] by fastforce
qed

section \<open>Viewer counts drift\<close>

lemma clients_publish [simp]:
  "hu_clients (hub_publish h topic ty p) = hu_clients h"
  "hu_clients (persist_count e h room n) = hu_clients h"
  "hu_clients (snd (viewerJoined e h room)) = hu_clients h"
  "hu_clients (snd (viewerLeft e h room)) = hu_clients h"
  "hu_clients (h\<lparr>hu_roomViewers := v\<rparr>) = hu_clients h"
  by (simp_all add: hub_publish_def persist_count_def viewerJoined_def viewerLeft_def Let_def split: option.split)

lemma viewers_kept [simp]:
  "hu_roomViewers (hub_publish h topic ty p) = hu_roomViewers h"
  "hu_roomViewers (persist_count e h room n) = hu_roomViewers h"
  "hu_roomViewers (push_frame h k f) = hu_roomViewers h"
  "hu_roomViewers (put_client h k c) = hu_roomViewers h"
  "hu_roomViewers (snd (client_subscribe h k c topic)) = hu_roomViewers h"
  by (auto simp: hub_publish_def persist_count_def push_frame_def put_client_def client_subscribe_def Let_def
      split: option.split prod.split)

lemma count_joined: "currentViewerCount (snd (viewerJoined e h room)) other =
    (if other = room then currentViewerCount h room + 1 else currentViewerCount h other)"
  by (simp add: viewerJoined_def currentViewerCount_def Let_def)

lemma count_left: "currentViewerCount (snd (viewerLeft e h room)) other =
    (if other = room then currentViewerCount h room - 1 else currentViewerCount h other)"
  by (auto simp: viewerLeft_def currentViewerCount_def Let_def split: option.split)

text \<open>A connection of an account that hosts no room.\<close>

definition never_host :: "'s hub_env \<Rightarrow> string \<Rightarrow> bool" where
  "never_host e a \<longleftrightarrow> (\<forall>x room. \<not> says_yes (he_isHost e x room a))"

definition live_client :: "'s hub \<Rightarrow> nat \<Rightarrow> string \<Rightarrow> string set \<Rightarrow> bool" where
  "live_client h k a ts \<longleftrightarrow> (\<exists>c. map_of (hu_clients h) k = Some c \<and> wc_accountID c = a \<and> dom (map_of (wc_subs c)) = ts)"

lemma live_client_simps [simp]:
  "live_client (hub_publish h topic ty p) = live_client h"
  "live_client (snd (viewerJoined e h room)) = live_client h"
  "live_client (snd (viewerLeft e h room)) = live_client h"
  by (simp_all add: live_client_def fun_eq_iff)

lemma live_client_push [simp]: "live_client (push_frame h k f) k' a ts \<longleftrightarrow> live_client h k' a ts"
  by (auto simp: live_client_def push_frame_def put_client_def split: option.splits)

lemma IsRoom_kind: "IsRoom topic = Some room \<Longrightarrow> IsConv topic = None \<and> IsPV topic = None \<and> IsUser topic = None"
  by (cases topic) (auto simp: topic_defs HasPrefix_def split: if_splits)

lemma subscribe_room:
  assumes "live_client h k a ts" and "never_host e a" and "IsRoom topic = Some room"
  shows "live_client (handle e h k (env_of ''SUBSCRIBE'' topic p)) k a (insert topic ts) \<and>
    currentViewerCount (handle e h k (env_of ''SUBSCRIBE'' topic p)) room = currentViewerCount h room + 1"
proof -
  obtain c where c: "map_of (hu_clients h) k = Some c" "wc_accountID c = a" "dom (map_of (wc_subs c)) = ts"
    using assms(1) by (auto simp: live_client_def)
  obtain n h' where s: "client_subscribe h k c topic = (n, h')" by (cases "client_subscribe h k c topic")
  have live: "live_client h' k a (insert topic ts)"
    using s c by (auto simp: client_subscribe_def live_client_def put_client_def Let_def split: option.splits prod.splits)
  have v: "hu_roomViewers h' = hu_roomViewers h" using viewers_kept(5) [of h k c topic] s by simp
  let ?h2 = "sendControl h' k ''SUBSCRIBED'' topic [(''last_seq'', JNum (int n))]"
  have h2: "live_client ?h2 k a (insert topic ts)" "currentViewerCount ?h2 room = currentViewerCount h room"
    using live v by (simp_all add: sendControl_def currentViewerCount_def)
  have "handle e h k (env_of ''SUBSCRIBE'' topic p) =
      hub_publish (snd (viewerJoined e ?h2 room)) topic ''VIEWER_JOINED'' (viewer_payload c room (fst (viewerJoined e ?h2 room)))"
    using c(1,2) s assms(2,3) IsRoom_kind [OF assms(3)]
    by (simp add: handle_def handle_client_def env_of_def handleSubscribe_def subscribe_refused_def viewerJoinedRoom_def
        never_host_def case_prod_beta Let_def)
  then show ?thesis using h2 count_joined [of e ?h2 room room] by (simp add: currentViewerCount_def)
qed

lemma subscribe_room_again:
  assumes "live_client h k a ts" and "never_host e a" and "IsRoom topic = Some room"
  shows "live_client (((\<lambda>h. handle e h k (env_of ''SUBSCRIBE'' topic p)) ^^ n) h) k a (if n = 0 then ts else insert topic ts) \<and>
    currentViewerCount (((\<lambda>h. handle e h k (env_of ''SUBSCRIBE'' topic p)) ^^ n) h) room = currentViewerCount h room + n"
proof (induction n)
  case (Suc n)
  then show ?case using subscribe_room [OF _ assms(2,3), of _ k] by (fastforce split: if_splits)
qed (use assms(1) in simp)

lemma unsubscribe_room:
  assumes "live_client h k a ts" and "never_host e a" and "IsRoom topic = Some room" and "topic \<in> ts"
  shows "live_client (handle e h k (env_of ''UNSUBSCRIBE'' topic p)) k a (ts - {topic}) \<and>
    currentViewerCount (handle e h k (env_of ''UNSUBSCRIBE'' topic p)) room = currentViewerCount h room - 1"
proof -
  obtain c i where c: "map_of (hu_clients h) k = Some c" "wc_accountID c = a" "dom (map_of (wc_subs c)) = ts" "map_of (wc_subs c) topic = Some i"
    using assms(1,4) by (auto simp: live_client_def)
  let ?h2 = "put_client (h\<lparr>hu_bus := Unsubscribe (hu_bus h) topic i\<rparr>) k (c\<lparr>wc_subs := AList.delete topic (wc_subs c)\<rparr>)"
  have h2: "live_client ?h2 k a (ts - {topic})" "currentViewerCount ?h2 room = currentViewerCount h room"
    using c by (auto simp: live_client_def put_client_def currentViewerCount_def)
  have "handle e h k (env_of ''UNSUBSCRIBE'' topic p) =
      hub_publish (snd (viewerLeft e ?h2 room)) topic ''VIEWER_LEFT'' (viewer_payload c room (fst (viewerLeft e ?h2 room)))"
    using c assms(2,3)
    by (simp add: handle_def handle_client_def env_of_def client_unsubscribe_def announce_leave_def viewerLeftRoom_def
        never_host_def case_prod_beta)
  then show ?thesis using h2 count_left [of e ?h2 room room] by (simp add: currentViewerCount_def)
qed

lemma close_no_rooms:
  assumes "live_client h k a ts" and "\<forall>t \<in> ts. IsRoom t = None"
  shows "currentViewerCount (closeAll e h k) room = currentViewerCount h room"
proof -
  obtain c where c: "map_of (hu_clients h) k = Some c" "dom (map_of (wc_subs c)) = ts"
    using assms(1) by (auto simp: live_client_def)
  have "hu_roomViewers (foldl (close_topic e c) h subs) = hu_roomViewers h" if "\<forall>x \<in> set subs. IsRoom (fst x) = None" for subs h
    using that
  proof (induction subs arbitrary: h)
    case (Cons x subs)
    then have "hu_roomViewers (close_topic e c h x) = hu_roomViewers h"
      by (auto simp: close_topic_def announce_leave_def Let_def split: prod.split option.split)
    then show ?case using Cons by simp
  qed simp
  moreover have "\<forall>x \<in> set (wc_subs c). IsRoom (fst x) = None" using assms(2) c(2) by (auto simp: dom_map_of_conv_image_fst)
  ultimately show ?thesis using c(1) by (simp add: closeAll_def currentViewerCount_def)
qed

text \<open>Viewer counts drift. A connection that subscribes to a room n times is counted n times, but
  leaving and closing the connection uncounts it once: when it is gone the room still shows n - 1
  viewers too many. (The client hosts no room and was in none.)\<close>

theorem viewer_count_drifts:
  assumes "live_client h k a ts" and "never_host e a" and "IsRoom topic = Some room" and "\<forall>t \<in> ts. IsRoom t = None"
    and "joined = ((\<lambda>h. handle e h k (env_of ''SUBSCRIBE'' topic p)) ^^ n) h" and "0 < n"
    and "gone = closeAll e (handle e joined k (env_of ''UNSUBSCRIBE'' topic p)) k"
  shows "currentViewerCount joined room = currentViewerCount h room + n \<and>
    currentViewerCount gone room = currentViewerCount h room + (n - 1)"
proof -
  have j: "live_client joined k a (insert topic ts)" "currentViewerCount joined room = currentViewerCount h room + n"
    using subscribe_room_again [OF assms(1-3), where n = n] assms(5,6) by simp_all
  have u: "live_client (handle e joined k (env_of ''UNSUBSCRIBE'' topic p)) k a (insert topic ts - {topic})"
    "currentViewerCount (handle e joined k (env_of ''UNSUBSCRIBE'' topic p)) room = currentViewerCount joined room - 1"
    using unsubscribe_room [OF j(1) assms(2,3)] by simp_all
  have "\<forall>t \<in> insert topic ts - {topic}. IsRoom t = None" using assms(4) by blast
  then show ?thesis using close_no_rooms [OF u(1)] j(2) u(2) assms(6,7) by simp
qed

lemma viewer_count_drifts_witness:
  "let joined = ((\<lambda>h. handle demo_env h 7 (env_of ''SUBSCRIBE'' ''room:r'' JNull)) ^^ 3) demo_hub
   in currentViewerCount joined ''r'' = 3 \<and>
      currentViewerCount (closeAll demo_env (handle demo_env joined 7 (env_of ''UNSUBSCRIBE'' ''room:r'' JNull)) 7) ''r'' = 2"
proof -
  have "live_client demo_hub 7 ''eve'' {}" by (simp add: live_client_def demo_hub_def)
  moreover have "never_host demo_env ''eve''" by (simp add: never_host_def demo_env_def says_yes_def)
  moreover have "IsRoom ''room:r'' = Some ''r''" by code_simp
  moreover have "currentViewerCount demo_hub ''r'' = 0" by code_simp
  ultimately show ?thesis
    using viewer_count_drifts [where k = 7 and n = 3 and p = JNull, OF _ _ _ _ refl _ refl, of demo_hub "''eve''" "{}" demo_env "''room:r''" "''r''"]
    by (simp add: Let_def)
qed

end
