(* ===== verification/Social.thy ===== *)
theory Social
  imports GoText "HOL-Library.Multiset" "HOL-Library.List_Lexorder" "HOL-Library.Char_ord" "HOL-Library.Product_Lexorder"
begin

text \<open>
  The social graph: follows, blocks and mutes with their paginated lists
  (\<open>profile/social/social.go\<close>), and the closure of \<open>feed/cmd/api/main.go\<close> that reads a
  creator's whole follower list page by page. A list call ranges over a Go map, so the order it
  meets the entries in is an argument of the call.
\<close>

section \<open>Data\<close>

record relationship =
  rl_Following :: bool
  rl_FollowedBy :: bool
  rl_Blocked :: bool
  rl_BlockedBy :: bool
  rl_Muted :: bool
  rl_CanDM :: bool
  rl_CanCall :: bool

text \<open>One item of a list: a follower, a followee or a blocked account.\<close>

record list_entry =
  le_AccountID :: string
  le_DisplayName :: string
  le_At :: time

datatype social_error = ErrSelfFollow | ErrSelfBlock | ErrBlockedByOp

type_synonym pairs = "((string \<times> string) \<times> time) list"

record mem_social =
  ms_follows :: pairs
  ms_blocks :: pairs
  ms_mutes :: pairs
  ms_displayNames :: "(string \<times> string) list"

definition NewMemSocialRepo :: mem_social where
  "NewMemSocialRepo = \<lparr>ms_follows = [], ms_blocks = [], ms_mutes = [], ms_displayNames = []\<rparr>"

definition RegisterDisplayName :: "mem_social \<Rightarrow> string \<Rightarrow> string \<Rightarrow> mem_social" where
  "RegisterDisplayName r a name = r\<lparr>ms_displayNames := AList.update a name (ms_displayNames r)\<rparr>"

text \<open>\<open>Snapshot\<close> flattens the three maps to lists of triples in some order, \<open>Restore\<close> inserts them one by
  one; display names are not in it.\<close>

type_synonym social_snapshot = "(string \<times> string \<times> time) list \<times> (string \<times> string \<times> time) list \<times> (string \<times> string \<times> time) list"

definition flat_keys :: "pairs \<Rightarrow> (string \<times> string \<times> time) list" where
  "flat_keys m = map (\<lambda>((a, b), t). (a, b, t)) m"

definition SocialSnapshot :: "mem_social \<Rightarrow> social_snapshot" where
  "SocialSnapshot r = (flat_keys (ms_follows r), flat_keys (ms_blocks r), flat_keys (ms_mutes r))"

definition from_flat :: "(string \<times> string \<times> time) list \<Rightarrow> pairs" where
  "from_flat ks = fold (\<lambda>(a, b, t). AList.update (a, b) t) ks []"

definition SocialRestore :: "mem_social \<Rightarrow> social_snapshot \<Rightarrow> mem_social" where
  "SocialRestore r s =
     (case s of (f, b, m) \<Rightarrow> r\<lparr>ms_follows := from_flat f, ms_blocks := from_flat b, ms_mutes := from_flat m\<rparr>)"

section \<open>Relationships\<close>

definition isBlocked :: "mem_social \<Rightarrow> string \<Rightarrow> string \<Rightarrow> bool" where
  "isBlocked r blocker blocked \<longleftrightarrow> map_of (ms_blocks r) (blocker, blocked) \<noteq> None"

text \<open>A missing key reads as the zero time.\<close>

definition relationship_of :: "mem_social \<Rightarrow> string \<Rightarrow> string \<Rightarrow> relationship" where
  "relationship_of r a b =
     (let canContact = \<not> isBlocked r a b \<and> \<not> isBlocked r b a
      in \<lparr>rl_Following = (getz (ms_follows r) (a, b) \<noteq> 0), rl_FollowedBy = (getz (ms_follows r) (b, a) \<noteq> 0),
          rl_Blocked = isBlocked r a b, rl_BlockedBy = isBlocked r b a, rl_Muted = (getz (ms_mutes r) (a, b) \<noteq> 0),
          rl_CanDM = canContact, rl_CanCall = canContact\<rparr>)"

definition Follow :: "mem_social \<Rightarrow> time \<Rightarrow> string \<Rightarrow> string \<Rightarrow> (social_error + relationship) \<times> mem_social" where
  "Follow r now follower followee =
     (if follower = followee then (Inl ErrSelfFollow, r)
      else if isBlocked r follower followee \<or> isBlocked r followee follower then (Inl ErrBlockedByOp, r)
      else
        (let r = (if map_of (ms_follows r) (follower, followee) = None
                  then r\<lparr>ms_follows := AList.update (follower, followee) now (ms_follows r)\<rparr> else r)
         in (Inr (relationship_of r follower followee), r)))"

definition Unfollow :: "mem_social \<Rightarrow> string \<Rightarrow> string \<Rightarrow> (social_error + relationship) \<times> mem_social" where
  "Unfollow r follower followee =
     (if follower = followee then (Inl ErrSelfFollow, r)
      else
        (let r = r\<lparr>ms_follows := AList.delete (follower, followee) (ms_follows r)\<rparr>
         in (Inr (relationship_of r follower followee), r)))"

definition BlockAccount :: "mem_social \<Rightarrow> time \<Rightarrow> string \<Rightarrow> string \<Rightarrow> (social_error + relationship) \<times> mem_social" where
  "BlockAccount r now blocker blocked =
     (if blocker = blocked then (Inl ErrSelfBlock, r)
      else
        (let r = r\<lparr>ms_blocks := AList.update (blocker, blocked) now (ms_blocks r)\<rparr>
         in (Inr (relationship_of r blocker blocked), r)))"

definition UnblockAccount :: "mem_social \<Rightarrow> string \<Rightarrow> string \<Rightarrow> relationship \<times> mem_social" where
  "UnblockAccount r blocker blocked =
     (let r = r\<lparr>ms_blocks := AList.delete (blocker, blocked) (ms_blocks r)\<rparr> in (relationship_of r blocker blocked, r))"

definition MuteAccount :: "mem_social \<Rightarrow> time \<Rightarrow> string \<Rightarrow> string \<Rightarrow> relationship \<times> mem_social" where
  "MuteAccount r now muter muted =
     (let r = r\<lparr>ms_mutes := AList.update (muter, muted) now (ms_mutes r)\<rparr> in (relationship_of r muter muted, r))"

definition UnmuteAccount :: "mem_social \<Rightarrow> string \<Rightarrow> string \<Rightarrow> relationship \<times> mem_social" where
  "UnmuteAccount r muter muted =
     (let r = r\<lparr>ms_mutes := AList.delete (muter, muted) (ms_mutes r)\<rparr> in (relationship_of r muter muted, r))"

definition GetRelationship :: "mem_social \<Rightarrow> string \<Rightarrow> string \<Rightarrow> relationship" where
  "GetRelationship r viewer subject = relationship_of r viewer subject"

definition IsBlockedEitherWay :: "mem_social \<Rightarrow> string \<Rightarrow> string \<Rightarrow> bool" where
  "IsBlockedEitherWay r a b \<longleftrightarrow> isBlocked r a b \<or> isBlocked r b a"

section \<open>Lists\<close>

type_synonym item = "string \<times> time"

text \<open>The exchange sort of the two nested loops. Position \<open>i\<close> holds \<open>x\<close>; every later item that must come
  before it is swapped in, and the one it replaces takes its place.\<close>

fun exchange_pass :: "('a \<Rightarrow> 'a \<Rightarrow> bool) \<Rightarrow> 'a \<Rightarrow> 'a list \<Rightarrow> 'a \<times> 'a list" where
  "exchange_pass swap x [] = (x, [])"
| "exchange_pass swap x (y # ys) =
     (if swap x y then (let (m, r) = exchange_pass swap y ys in (m, x # r))
      else (let (m, r) = exchange_pass swap x ys in (m, y # r)))"

lemma length_exchange_pass [simp]: "length (snd (exchange_pass swap x ys)) = length ys"
  by (induction swap x ys rule: exchange_pass.induct) (simp_all add: case_prod_beta Let_def)

function exchange_sort :: "('a \<Rightarrow> 'a \<Rightarrow> bool) \<Rightarrow> 'a list \<Rightarrow> 'a list" where
  "exchange_sort swap [] = []"
| "exchange_sort swap (x # xs) =
     fst (exchange_pass swap x xs) # exchange_sort swap (snd (exchange_pass swap x xs))"
  by pat_completeness auto
termination by (relation "measure (\<lambda>(swap, xs). length xs)") simp_all

text \<open>Newest first; equal times by ID, or, in \<open>GetFollowers\<close>, as they come.\<close>

definition newer_or_id :: "item \<Rightarrow> item \<Rightarrow> bool" where
  "newer_or_id x y \<longleftrightarrow> Before (snd x) (snd y) \<or> snd x = snd y \<and> fst y < fst x"

definition newer :: "item \<Rightarrow> item \<Rightarrow> bool" where
  "newer x y \<longleftrightarrow> Before (snd x) (snd y)"

definition clamp_limit :: "int \<Rightarrow> nat" where
  "clamp_limit limit = (if limit \<le> 0 \<or> 100 < limit then 50 else nat limit)"

text \<open>The items after the cursor's, or all of them when the cursor is empty or not found.\<close>

fun after_cursor :: "string \<Rightarrow> item list \<Rightarrow> item list option" where
  "after_cursor cursor [] = None"
| "after_cursor cursor (x # xs) = (if fst x = cursor then Some xs else after_cursor cursor xs)"

definition from_cursor :: "string \<Rightarrow> item list \<Rightarrow> item list" where
  "from_cursor cursor items =
     (if cursor = [] then items else (case after_cursor cursor items of None \<Rightarrow> items | Some xs \<Rightarrow> xs))"

definition entry_of :: "mem_social \<Rightarrow> item \<Rightarrow> list_entry" where
  "entry_of r x =
     (let name = (case map_of (ms_displayNames r) (fst x) of None \<Rightarrow> [] | Some n \<Rightarrow> n)
      in \<lparr>le_AccountID = fst x, le_DisplayName = (if name = [] then fst x else name), le_At = snd x\<rparr>)"

text \<open>The page and the next cursor: the last item of the page.\<close>

definition page_of :: "mem_social \<Rightarrow> nat \<Rightarrow> item list \<Rightarrow> list_entry list \<times> string" where
  "page_of r limit items =
     (let entries = map (entry_of r) (take (limit + 1) items)
      in if limit < length entries then (take limit entries, le_AccountID (entries ! (limit - 1))) else (entries, []))"

type_synonym pair_order = "pairs \<Rightarrow> pairs"

definition GetFollowing :: "pair_order \<Rightarrow> mem_social \<Rightarrow> string \<Rightarrow> string \<Rightarrow> int \<Rightarrow> list_entry list \<times> string" where
  "GetFollowing ord r accountID cursor limit =
     (let items = map (\<lambda>((a, b), t). (b, t)) (filter (\<lambda>((a, b), t). a = accountID) (ord (ms_follows r)))
      in page_of r (clamp_limit limit) (from_cursor cursor (exchange_sort newer_or_id items)))"

definition GetBlocked :: "pair_order \<Rightarrow> mem_social \<Rightarrow> string \<Rightarrow> string \<Rightarrow> int \<Rightarrow> list_entry list \<times> string" where
  "GetBlocked ord r accountID cursor limit =
     (let items = map (\<lambda>((a, b), t). (b, t)) (filter (\<lambda>((a, b), t). a = accountID) (ord (ms_blocks r)))
      in page_of r (clamp_limit limit) (from_cursor cursor (exchange_sort newer_or_id items)))"

text \<open>Here the next cursor is the first item after the page.\<close>

definition GetFollowers :: "pair_order \<Rightarrow> mem_social \<Rightarrow> string \<Rightarrow> string \<Rightarrow> int \<Rightarrow> list_entry list \<times> string" where
  "GetFollowers ord r accountID cursor limit =
     (let items = map (\<lambda>((a, b), t). (a, t)) (filter (\<lambda>((a, b), t). b = accountID) (ord (ms_follows r)));
          limit = clamp_limit limit;
          entries = map (entry_of r) (take (limit + 1) (from_cursor cursor (exchange_sort newer items)))
      in if limit < length entries then (take limit entries, le_AccountID (entries ! limit)) else (entries, []))"

section \<open>Reading all pages\<close>

text \<open>A client that follows the cursors; \<open>page n\<close> answers the call with \<open>n\<close> calls left, so that every call
  may meet the map in another order.\<close>

fun walk_pages :: "(nat \<Rightarrow> string \<Rightarrow> list_entry list \<times> string) \<Rightarrow> nat \<Rightarrow> string \<Rightarrow> list_entry list option" where
  "walk_pages page 0 cursor = None"
| "walk_pages page (Suc n) cursor =
     (let (entries, next) = page n cursor
      in if next = [] then Some entries
         else (case walk_pages page n next of None \<Rightarrow> None | Some rest \<Rightarrow> Some (entries @ rest)))"

text \<open>The loop of \<open>main.go\<close>'s \<open>followerHistory\<close>, which asks for 200 at a time.\<close>

definition followerHistory :: "(nat \<Rightarrow> pair_order) \<Rightarrow> nat \<Rightarrow> mem_social \<Rightarrow> string \<Rightarrow> (string \<times> time) list option" where
  "followerHistory ords fuel r accountID =
     map_option (map (\<lambda>x. (le_AccountID x, le_At x)))
       (walk_pages (\<lambda>n cursor. GetFollowers (ords n) r accountID cursor 200) fuel [])"

section \<open>Sorting\<close>

locale exchange =
  fixes swap :: "'a \<Rightarrow> 'a \<Rightarrow> bool"
  assumes swap_irrefl: "\<not> swap x x"
    and swap_trans: "swap x y \<Longrightarrow> swap y z \<Longrightarrow> swap x z"
    and not_swap_trans: "\<not> swap x y \<Longrightarrow> \<not> swap y z \<Longrightarrow> \<not> swap x z"
begin

lemma mset_pass: "add_mset (fst (exchange_pass swap x ys)) (mset (snd (exchange_pass swap x ys))) = add_mset x (mset ys)"
  by (induction swap x ys rule: exchange_pass.induct) (auto simp: case_prod_beta Let_def add_mset_commute)

lemma pass_first: "\<forall>z \<in> set (x # ys). \<not> swap (fst (exchange_pass swap x ys)) z"
proof (induction ys arbitrary: x)
  case Nil
  then show ?case using swap_irrefl by simp
next
  case (Cons y ys)
  show ?case
  proof (cases "swap x y")
    case True
    have "\<forall>z \<in> set (y # ys). \<not> swap (fst (exchange_pass swap y ys)) z" by (rule Cons.IH)
    moreover have "\<not> swap (fst (exchange_pass swap y ys)) x" using calculation swap_trans [OF _ True] by auto
    ultimately show ?thesis using True by (simp add: case_prod_beta Let_def)
  next
    case False
    have "\<forall>z \<in> set (x # ys). \<not> swap (fst (exchange_pass swap x ys)) z" by (rule Cons.IH)
    moreover have "\<not> swap (fst (exchange_pass swap x ys)) y" using calculation not_swap_trans [OF _ False] by auto
    ultimately show ?thesis using False by (simp add: case_prod_beta Let_def)
  qed
qed

lemma mset_sort: "mset (exchange_sort swap xs) = mset xs"
proof (induction xs rule: length_induct)
  case (1 xs)
  then show ?case using mset_pass by (cases xs) auto
qed

lemma sorted_sort: "sorted_wrt (\<lambda>a b. \<not> swap a b) (exchange_sort swap xs)"
proof (induction xs rule: length_induct)
  case (1 xs)
  show ?case
  proof (cases xs)
    case (Cons x ys)
    let ?m = "fst (exchange_pass swap x ys)" and ?r = "snd (exchange_pass swap x ys)"
    have "set (exchange_sort swap ?r) = set ?r" using mset_sort [of ?r] by (metis set_mset_mset)
    moreover have "set ?r \<subseteq> set (x # ys)" using mset_pass [of x ys] by (metis mset.simps(2) set_mset_mset set_subset_Cons set_mset_add_mset_insert insert_subset subset_insertI)
    ultimately have "\<forall>z \<in> set (exchange_sort swap ?r). \<not> swap ?m z" using pass_first [of x ys] by blast
    then show ?thesis using 1 Cons by simp
  qed simp
qed

end

text \<open>The order of the lists as a sort key.\<close>

definition item_key :: "item \<Rightarrow> int \<times> string" where
  "item_key x = (- snd x, fst x)"

definition sorted_items :: "item list \<Rightarrow> item list" where
  "sorted_items items = sort_key item_key items"

lemma newer_or_id_key: "newer_or_id x y \<longleftrightarrow> item_key y < item_key x"
  by (auto simp: newer_or_id_def item_key_def Before_def less_prod_simp)

lemma inj_item_key: "inj item_key"
  by (rule injI) (simp add: item_key_def prod_eq_iff)

interpretation by_id: exchange newer_or_id
  by unfold_locales (auto simp: newer_or_id_key)

interpretation by_time: exchange newer
  by unfold_locales (auto simp: newer_def Before_def)

lemma sorted_unique:
  assumes "sorted (map item_key xs)" and "mset xs = mset items"
  shows "xs = sorted_items items"
proof -
  have "sorted (map item_key (sorted_items items))" by (simp add: sorted_items_def)
  moreover have "mset (map item_key (sorted_items items)) = mset (map item_key xs)" using assms(2) by (simp add: sorted_items_def)
  ultimately have "map item_key xs = map item_key (sorted_items items)" using assms(1) by (metis properties_for_sort)
  then show ?thesis using inj_item_key by (simp add: inj_map_eq_map)
qed

lemma sort_by_id: "exchange_sort newer_or_id items = sorted_items items"
proof (rule sorted_unique)
  show "sorted (map item_key (exchange_sort newer_or_id items))"
    using by_id.sorted_sort [of items] by (simp add: sorted_map newer_or_id_key linorder_not_less)
qed (rule by_id.mset_sort)

lemma sort_by_time:
  assumes "inj_on snd (set items)" and "distinct items"
  shows "exchange_sort newer items = sorted_items items"
proof (rule sorted_unique)
  have set: "set (exchange_sort newer items) = set items" using by_time.mset_sort by (metis set_mset_mset)
  have "sorted_wrt (\<lambda>a b. \<not> newer a b) (exchange_sort newer items)" by (rule by_time.sorted_sort)
  then have "sorted_wrt (\<lambda>a b. item_key a \<le> item_key b) (exchange_sort newer items)"
  proof (rule sorted_wrt_mono_rel [rotated])
    fix a b
    assume ab: "a \<in> set (exchange_sort newer items)" "b \<in> set (exchange_sort newer items)" "\<not> newer a b"
    then have "snd a = snd b \<Longrightarrow> a = b" using assms(1) set by (auto dest: inj_onD)
    then show "item_key a \<le> item_key b" using ab(3) by (cases "snd a = snd b") (auto simp: newer_def Before_def item_key_def less_eq_prod_simp)
  qed
  then show "sorted (map item_key (exchange_sort newer items))" by (simp add: sorted_map)
qed (rule by_time.mset_sort)

section \<open>What the pages add up to\<close>

definition valid_pair_order :: "pair_order \<Rightarrow> bool" where
  "valid_pair_order ord \<longleftrightarrow> (\<forall>xs. mset (ord xs) = mset xs)"

definition followee_items :: "pairs \<Rightarrow> string \<Rightarrow> item list" where
  "followee_items m a = map (\<lambda>((x, b), t). (b, t)) (filter (\<lambda>((x, b), t). x = a) m)"

definition follower_items :: "pairs \<Rightarrow> string \<Rightarrow> item list" where
  "follower_items m b = map (\<lambda>((a, y), t). (a, t)) (filter (\<lambda>((a, y), t). y = b) m)"

text \<open>The specification: the followees of an account and its followers, newest first.\<close>

definition followees :: "mem_social \<Rightarrow> string \<Rightarrow> item list" where
  "followees r a = sorted_items (followee_items (ms_follows r) a)"

definition followers :: "mem_social \<Rightarrow> string \<Rightarrow> item list" where
  "followers r a = sorted_items (follower_items (ms_follows r) a)"

lemma mset_items:
  "mset xs = mset ys \<Longrightarrow> mset (followee_items xs a) = mset (followee_items ys a)"
  "mset xs = mset ys \<Longrightarrow> mset (follower_items xs a) = mset (follower_items ys a)"
  by (simp_all add: followee_items_def follower_items_def)

lemma sorted_items_mset: "mset xs = mset ys \<Longrightarrow> sorted_items xs = sorted_items ys"
  by (rule sorted_unique) (simp_all add: sorted_items_def)

lemma distinct_items:
  assumes "wf_map m"
  shows "distinct (map fst (followee_items m a))" and "distinct (map fst (follower_items m a))"
proof -
  have "distinct (map fst (filter (\<lambda>((x, b), t). x = a) m))" "distinct (map fst (filter (\<lambda>((x, b), t). b = a) m))"
    using assms by (simp_all add: wf_map_def distinct_map_filter)
  then show "distinct (map fst (followee_items m a))" "distinct (map fst (follower_items m a))"
    by (auto simp: followee_items_def follower_items_def distinct_map inj_on_def split: prod.splits)
qed

lemma set_sorted_items [simp]: "set (sorted_items xs) = set xs"
  by (simp add: sorted_items_def)

lemma length_sorted_items [simp]: "length (sorted_items xs) = length xs"
  by (simp add: sorted_items_def)

lemma distinct_sorted_items: "distinct (map fst (sorted_items xs)) \<longleftrightarrow> distinct (map fst xs)"
  by (intro mset_eq_imp_distinct_iff) (simp add: sorted_items_def)

lemma GetFollowing_page:
  assumes "valid_pair_order ord"
  shows "GetFollowing ord r a cursor limit = page_of r (clamp_limit limit) (from_cursor cursor (followees r a))"
proof -
  have "sorted_items (followee_items (ord (ms_follows r)) a) = followees r a"
    unfolding followees_def using assms by (intro sorted_items_mset mset_items) (simp add: valid_pair_order_def)
  then show ?thesis unfolding GetFollowing_def sort_by_id Let_def followee_items_def by simp
qed

lemma from_cursor_mid:
  assumes "distinct (map fst (pre @ x # post))" and "fst x \<noteq> []"
  shows "from_cursor (fst x) (pre @ x # post) = post"
proof -
  have "after_cursor (fst x) (pre @ x # post) = Some post"
    using assms(1) by (induction pre) auto
  then show ?thesis using assms(2) by (simp add: from_cursor_def)
qed

lemma walk_following:
  assumes "distinct (map fst items)" and "\<forall>x \<in> set items. fst x \<noteq> []" and "0 < k"
    and page: "\<And>m c. page m c = page_of r k (from_cursor c items)"
    and "items = pre @ post" and "from_cursor cursor items = post" and "length post < n"
  shows "walk_pages page n cursor = Some (map (entry_of r) post)"
  using assms(5-7)
proof (induction n arbitrary: cursor pre post)
  case (Suc n)
  show ?case
  proof (cases "k < length post")
    case False
    then show ?thesis using Suc.prems page by (simp add: page_of_def)
  next
    case True
    define x where "x = post ! (k - 1)"
    have post: "post = take (k - 1) post @ x # drop k post"
      using True assms(3) id_take_nth_drop [of "k - 1" post] by (simp add: x_def)
    then have split: "items = (pre @ take (k - 1) post) @ x # drop k post" using Suc.prems(1) by simp
    have id: "fst x \<noteq> []" using assms(2) split by simp
    have "from_cursor (fst x) items = drop k post"
      using from_cursor_mid [of "pre @ take (k - 1) post" x "drop k post"] assms(1) id split by simp
    moreover have "items = (pre @ take k post) @ drop k post" using Suc.prems(1) by simp
    ultimately have IH: "walk_pages page n (fst x) = Some (map (entry_of r) (drop k post))"
      using Suc.prems(3) True assms(3) by (intro Suc.IH [where pre = "pre @ take k post"]) auto
    have "page n cursor = (map (entry_of r) (take k post), fst x)"
      using page [of n cursor] Suc.prems(2) True assms(3)
      by (simp add: page_of_def x_def entry_of_def Let_def take_map min_def)
    then show ?thesis using IH id by (simp flip: map_append)
  qed
qed simp

text \<open>Reading the people somebody follows. Following the cursors of \<open>GetFollowing\<close> with any page
  size, while nothing changes, reads every followee exactly once, newest first and equal times by
  ID, whatever order each call meets the map in.\<close>

theorem following_pages_complete:
  assumes "wf_map (ms_follows r)" and "\<And>b t. ((a, b), t) \<in> set (ms_follows r) \<Longrightarrow> b \<noteq> []"
    and "\<And>n. valid_pair_order (ords n)" and "length (followees r a) < n"
  shows "walk_pages (\<lambda>n cursor. GetFollowing (ords n) r a cursor limit) n [] = Some (map (entry_of r) (followees r a)) \<and>
    distinct (map fst (followees r a)) \<and> sorted (map item_key (followees r a)) \<and>
    (\<forall>b t. (b, t) \<in> set (followees r a) \<longleftrightarrow> map_of (ms_follows r) (a, b) = Some t)"
proof (intro conjI)
  have d: "distinct (map fst (followees r a))"
    using distinct_items(1) [OF assms(1)] by (simp add: followees_def distinct_sorted_items)
  then show "distinct (map fst (followees r a))" .
  have ne: "\<forall>x \<in> set (followees r a). fst x \<noteq> []" using assms(2) by (auto simp: followees_def followee_items_def)
  have k: "0 < clamp_limit limit" by (simp add: clamp_limit_def)
  show "walk_pages (\<lambda>n cursor. GetFollowing (ords n) r a cursor limit) n [] = Some (map (entry_of r) (followees r a))"
    by (rule walk_following [OF d ne k, where pre = "[]"])
      (simp_all add: GetFollowing_page [OF assms(3)] from_cursor_def assms(4))
  show "sorted (map item_key (followees r a))" by (simp add: followees_def sorted_items_def)
  show "\<forall>b t. (b, t) \<in> set (followees r a) \<longleftrightarrow> map_of (ms_follows r) (a, b) = Some t"
    using assms(1) by (auto simp: followees_def followee_items_def image_iff wf_map_ranI [symmetric])
qed

lemma following_pages_complete_witness:
  "walk_pages (\<lambda>n cursor. GetFollowing (\<lambda>xs. if even n then rev xs else xs)
       \<lparr>ms_follows = [((''a'', ''x''), 5), ((''a'', ''z''), 7), ((''b'', ''x''), 9), ((''a'', ''y''), 5)], ms_blocks = [], ms_mutes = [],
        ms_displayNames = []\<rparr> ''a'' cursor 1) 4 [] =
     Some [\<lparr>le_AccountID = ''z'', le_DisplayName = ''z'', le_At = 7\<rparr>, \<lparr>le_AccountID = ''x'', le_DisplayName = ''x'', le_At = 5\<rparr>,
           \<lparr>le_AccountID = ''y'', le_DisplayName = ''y'', le_At = 5\<rparr>]"
proof -
  let ?r = "\<lparr>ms_follows = [((''a'', ''x''), 5), ((''a'', ''z''), 7), ((''b'', ''x''), 9), ((''a'', ''y''), 5)], ms_blocks = [], ms_mutes = [],
    ms_displayNames = []\<rparr>"
  have f: "followees ?r ''a'' = [(''z'', 7), (''x'', 5), (''y'', 5)]" by code_simp
  have "wf_map (ms_follows ?r)" by (simp add: wf_map_def)
  moreover have "b \<noteq> []" if "((''a'', b), t) \<in> set (ms_follows ?r)" for b t using that by auto
  moreover have "valid_pair_order (\<lambda>xs. if even n then rev xs else xs)" for n :: nat by (simp add: valid_pair_order_def)
  moreover have "length (followees ?r ''a'') < 4" by (simp add: f)
  ultimately show ?thesis
    using following_pages_complete [where r = ?r and a = "''a''" and ords = "\<lambda>n xs. if even n then rev xs else xs" and n = 4 and limit = 1]
    by (simp add: f entry_of_def)
qed

text \<open>What the cursor of \<open>GetFollowers\<close> leaves of a list: of every stretch of \<open>k + 1\<close> the last is lost.\<close>

function thin :: "nat \<Rightarrow> 'a list \<Rightarrow> 'a list" where
  "thin k xs = (if length xs \<le> k then xs else take k xs @ thin k (drop (k + 1) xs))"
  by pat_completeness auto
termination by (relation "measure (\<lambda>(k, xs). length xs)") auto

declare thin.simps [simp del]

lemma length_thin: "length (thin k xs) = length xs - length xs div (k + 1)"
proof (induction k xs rule: thin.induct)
  case (1 k xs)
  show ?case
  proof (cases "length xs \<le> k")
    case True
    then show ?thesis by (simp add: thin.simps [of k xs])
  next
    case False
    define m where "m = length xs - (k + 1)"
    have m: "length xs = m + (k + 1)" using False by (simp add: m_def)
    have "length (thin k xs) = k + (m - m div (k + 1))" using 1 [OF False] False m by (subst thin.simps) simp
    also have "\<dots> = length xs - length xs div (k + 1)" using m div_add_self2 [of "k + 1" m] by simp
    finally show ?thesis .
  qed
qed

lemma walk_followers:
  assumes "distinct (map fst items)" and "\<forall>x \<in> set items. fst x \<noteq> []"
    and page: "\<And>m c. page m c = (let entries = map (entry_of r) (take (k + 1) (from_cursor c items))
      in if k < length entries then (take k entries, le_AccountID (entries ! k)) else (entries, []))"
    and "items = pre @ post" and "from_cursor cursor items = post" and "length post < n"
  shows "walk_pages page n cursor = Some (map (entry_of r) (thin k post))"
  using assms(4-6)
proof (induction n arbitrary: cursor pre post)
  case (Suc n)
  show ?case
  proof (cases "k < length post")
    case False
    then show ?thesis using Suc.prems page by (simp add: thin.simps [of k post])
  next
    case True
    define x where "x = post ! k"
    have post: "post = take k post @ x # drop (k + 1) post"
      using True id_take_nth_drop [of k post] by (simp add: x_def)
    then have split: "items = (pre @ take k post) @ x # drop (k + 1) post" using Suc.prems(1) by simp
    have id: "fst x \<noteq> []" using assms(2) split by simp
    have cur: "from_cursor (fst x) items = drop (k + 1) post"
      using from_cursor_mid [of "pre @ take k post" x "drop (k + 1) post"] assms(1) id split by simp
    have IH: "walk_pages page n (fst x) = Some (map (entry_of r) (thin k (drop (k + 1) post)))"
      using Suc.prems(3) True split by (intro Suc.IH [OF _ cur, where pre = "pre @ take k post @ [x]"]) auto
    have "page n cursor = (map (entry_of r) (take k post), fst x)"
      using page [of n cursor] Suc.prems(2) True
      by (simp add: x_def entry_of_def Let_def take_map min_def)
    then show ?thesis using IH id True by (simp add: thin.simps [of k post])
  qed
qed simp

text \<open>C38: a creator's follower history. While nothing changes and no two followers came at the same
  instant, the loop ends, whatever order each call meets the map in; but it asks for 200 followers at
  a time and is given 50, and each page's cursor is the first follower not on it, who is then
  skipped: of every 51 followers the last is missing from the result.\<close>

theorem follower_history_terminates:
  assumes "wf_map (ms_follows r)" and "\<And>b t. ((b, a), t) \<in> set (ms_follows r) \<Longrightarrow> b \<noteq> []"
    and "inj_on snd (set (followers r a))" and "\<And>n. valid_pair_order (ords n)" and "length (followers r a) < fuel"
  shows "followerHistory ords fuel r a = Some (thin 50 (followers r a)) \<and>
    length (thin 50 (followers r a)) = length (followers r a) - length (followers r a) div 51"
proof
  have d: "distinct (map fst (followers r a))"
    using distinct_items(2) [OF assms(1)] by (simp add: followers_def distinct_sorted_items)
  have ne: "\<forall>x \<in> set (followers r a). fst x \<noteq> []" using assms(2) by (auto simp: followers_def follower_items_def)
  have "exchange_sort newer (follower_items (ords n (ms_follows r)) a) = followers r a" for n
  proof -
    have m: "mset (follower_items (ords n (ms_follows r)) a) = mset (follower_items (ms_follows r) a)"
      using assms(4) by (intro mset_items) (simp add: valid_pair_order_def)
    then have "inj_on snd (set (follower_items (ords n (ms_follows r)) a))"
      using assms(3) mset_eq_setD [OF m] by (simp add: followers_def)
    moreover have "distinct (follower_items (ords n (ms_follows r)) a)"
      using distinct_items(2) [OF assms(1), of a] mset_eq_imp_distinct_iff [OF m] by (simp add: distinct_map)
    ultimately show ?thesis using sort_by_time sorted_items_mset [OF m] by (simp add: followers_def)
  qed
  then have page: "GetFollowers (ords n) r a c 200 = (let entries = map (entry_of r) (take (50 + 1) (from_cursor c (followers r a)))
      in if 50 < length entries then (take 50 entries, le_AccountID (entries ! 50)) else (entries, []))" for n c
    unfolding GetFollowers_def Let_def follower_items_def by (simp add: clamp_limit_def)
  have "walk_pages (\<lambda>n cursor. GetFollowers (ords n) r a cursor 200) fuel [] = Some (map (entry_of r) (thin 50 (followers r a)))"
    by (rule walk_followers [OF d ne page, where pre = "[]"]) (simp_all add: from_cursor_def assms(5))
  then show "followerHistory ords fuel r a = Some (thin 50 (followers r a))"
    by (simp add: followerHistory_def entry_of_def Let_def comp_def)
qed (simp add: length_thin)

definition demo_social :: mem_social where
  "demo_social = \<lparr>ms_follows = map (\<lambda>n. ((''fan-'' @ dec04 n, ''star''), int n)) [1..<53], ms_blocks = [], ms_mutes = [],
     ms_displayNames = []\<rparr>"

lemma follower_history_terminates_witness:
  "map_option length (followerHistory (\<lambda>n xs. xs) 60 demo_social ''star'') = Some 51"
proof -
  have items: "follower_items (ms_follows demo_social) ''star'' = map (\<lambda>n. (''fan-'' @ dec04 n, int n)) [1..<53]"
    by (simp add: follower_items_def demo_social_def filter_map comp_def del: upt_Suc)
  have len: "length (followers demo_social ''star'') = 52" by (simp add: followers_def items del: upt_Suc)
  have "distinct (map fst (ms_follows demo_social))"
    by (simp add: demo_social_def comp_def distinct_map inj_on_def del: upt_Suc)
  then have "wf_map (ms_follows demo_social)" by (simp add: wf_map_def)
  moreover have "b \<noteq> []" if "((b, ''star''), t) \<in> set (ms_follows demo_social)" for b t
    using that by (auto simp: demo_social_def simp del: upt_Suc)
  moreover have "inj_on snd (set (followers demo_social ''star''))"
    by (auto simp: followers_def items inj_on_def simp del: upt_Suc)
  moreover have "valid_pair_order (\<lambda>xs. xs)" by (simp add: valid_pair_order_def)
  ultimately show ?thesis
    using follower_history_terminates [where r = demo_social and a = "''star''" and ords = "\<lambda>n xs. xs" and fuel = 60] len by simp
qed

end
