(* ===== verification/Creator.thy ===== *)
theory Creator
  imports Complex_Main Ledger_Repo Auth Social
begin

text \<open>
  The creator dashboard: KYC records, payout profiles and payouts with their in-memory stores
  (\<open>creator/creator.go\<close>, \<open>creator/mem_repo.go\<close>), the service
  (\<open>creator/creatorsvc/service.go\<close>) and the closures by which \<open>feed/cmd/api/main.go\<close> joins it to
  the ledger and to the accounts. One clock reading per call. \<open>sort.Slice\<close> may leave equal elements
  in any order, and Go maps are met in any order: both are a rearrangement given as an argument.
\<close>

section \<open>Data\<close>

datatype kyc_status = KYCNone | KYCPending | KYCVerified | KYCRejected

record kyc_record =
  ky_AccountID :: string
  ky_Status :: kyc_status
  ky_LegalName :: string
  ky_Country :: string
  ky_SubmittedAt :: time
  ky_DecidedAt :: "time option"

text \<open>A \<open>PayoutStatus\<close> is a Go string: the admin queue filters by whatever the request says.\<close>

type_synonym payout_status = string

definition PayoutRequested :: payout_status where "PayoutRequested = ''requested''"
definition PayoutApproved :: payout_status where "PayoutApproved = ''approved''"
definition PayoutRejected :: payout_status where "PayoutRejected = ''rejected''"
definition PayoutProcessing :: payout_status where "PayoutProcessing = ''processing''"
definition PayoutPaid :: payout_status where "PayoutPaid = ''paid''"
definition PayoutFailed :: payout_status where "PayoutFailed = ''failed''"
definition PayoutCompleted :: payout_status where "PayoutCompleted = ''completed''"

lemmas payout_status_defs = PayoutRequested_def PayoutApproved_def PayoutRejected_def
  PayoutProcessing_def PayoutPaid_def PayoutFailed_def PayoutCompleted_def

record payout =
  po_ID :: string
  po_AccountID :: string
  po_AmountDiamonds :: int
  po_Status :: payout_status
  po_FailureReason :: string
  po_TransactionID :: string
  po_ReversalTransactionID :: string
  po_PayoutReference :: string
  po_AdminNote :: string
  po_ReviewedBy :: string
  po_RequestedAt :: time
  po_ReviewedAt :: "time option"
  po_PaidAt :: "time option"
  po_UpdatedAt :: time

type_synonym payout_method = string

definition PayoutMethodBankTransfer :: payout_method where "PayoutMethodBankTransfer = ''bank_transfer''"
definition PayoutMethodMobileWallet :: payout_method where "PayoutMethodMobileWallet = ''mobile_wallet''"
definition PayoutMethodPayPal :: payout_method where "PayoutMethodPayPal = ''paypal''"

record payout_profile =
  pp_AccountID :: string
  pp_Method :: payout_method
  pp_Country :: string
  pp_PayeeName :: string
  pp_Destination :: string
  pp_UpdatedAt :: time

subsection \<open>Countries\<close>

definition PayoutThresholdDiamonds :: int where "PayoutThresholdDiamonds = 10000"
definition PayoutHoldPeriod :: duration where "PayoutHoldPeriod = 14 * 24 * hour"

record payout_country =
  pc_CountryCode :: string
  pc_Enabled :: bool
  pc_Currency :: string
  pc_MinimumWithdrawalDiamonds :: int
  pc_AvailableMethods :: "payout_method list"
  pc_RequiresVerification :: bool

definition PayoutCountries :: "payout_country list" where
  "PayoutCountries =
    [\<lparr>pc_CountryCode = ''PK'', pc_Enabled = True, pc_Currency = ''PKR'',
       pc_MinimumWithdrawalDiamonds = PayoutThresholdDiamonds,
       pc_AvailableMethods = [PayoutMethodBankTransfer, PayoutMethodMobileWallet], pc_RequiresVerification = True\<rparr>,
     \<lparr>pc_CountryCode = ''US'', pc_Enabled = True, pc_Currency = ''USD'',
       pc_MinimumWithdrawalDiamonds = PayoutThresholdDiamonds,
       pc_AvailableMethods = [PayoutMethodBankTransfer, PayoutMethodPayPal], pc_RequiresVerification = True\<rparr>,
     \<lparr>pc_CountryCode = ''GB'', pc_Enabled = True, pc_Currency = ''GBP'',
       pc_MinimumWithdrawalDiamonds = PayoutThresholdDiamonds,
       pc_AvailableMethods = [PayoutMethodBankTransfer, PayoutMethodPayPal], pc_RequiresVerification = True\<rparr>,
     \<lparr>pc_CountryCode = ''IN'', pc_Enabled = True, pc_Currency = ''INR'',
       pc_MinimumWithdrawalDiamonds = PayoutThresholdDiamonds,
       pc_AvailableMethods = [PayoutMethodBankTransfer, PayoutMethodMobileWallet], pc_RequiresVerification = True\<rparr>,
     \<lparr>pc_CountryCode = ''AE'', pc_Enabled = True, pc_Currency = ''AED'',
       pc_MinimumWithdrawalDiamonds = PayoutThresholdDiamonds,
       pc_AvailableMethods = [PayoutMethodBankTransfer, PayoutMethodPayPal], pc_RequiresVerification = True\<rparr>]"

definition PayoutCountryByCode :: "string \<Rightarrow> payout_country option" where
  "PayoutCountryByCode code = find (\<lambda>c. pc_CountryCode c = code) PayoutCountries"

definition PayoutMethodAllowed :: "payout_country \<Rightarrow> payout_method \<Rightarrow> bool" where
  "PayoutMethodAllowed c m = list_ex (\<lambda>allowed. allowed = m) (pc_AvailableMethods c)"

text \<open>\<open>PayoutNilDereference\<close> is the run-time panic on an ID of \<open>byAcct\<close> that \<open>byID\<close> does not have;
  the remaining constructors wrap the errors of the modules the closures call.\<close>

datatype creator_error =
    ErrKYCIncomplete
  | ErrPayoutAccountRestricted
  | ErrBelowThreshold
  | ErrInvalidAmount
  | ErrPayoutNotFound
  | ErrKYCAlreadyVerified
  | ErrInvalidPayoutTransition
  | ErrPayoutProfileRequired
  | ErrUnsupportedPayoutCountry
  | ErrUnsupportedPayoutMethod
  | PayoutLedgerError ledger_error
  | PayoutAuthError auth_error
  | PayoutHistoryPanic
  | PayoutNilDereference

section \<open>The in-memory stores\<close>

subsection \<open>KYC records\<close>

type_synonym mem_kyc = "(string \<times> kyc_record) list"

definition KYCGet :: "mem_kyc \<Rightarrow> string \<Rightarrow> kyc_record" where
  "KYCGet r accountID =
     (case map_of r accountID of
        None \<Rightarrow> \<lparr>ky_AccountID = accountID, ky_Status = KYCNone, ky_LegalName = [], ky_Country = [],
          ky_SubmittedAt = 0, ky_DecidedAt = None\<rparr>
      | Some rec \<Rightarrow> rec)"

definition KYCSubmit :: "mem_kyc \<Rightarrow> time \<Rightarrow> string \<Rightarrow> string \<Rightarrow> string \<Rightarrow> kyc_record \<times> mem_kyc" where
  "KYCSubmit r now accountID legalName country =
     (let rec = \<lparr>ky_AccountID = accountID, ky_Status = KYCPending, ky_LegalName = legalName,
        ky_Country = country, ky_SubmittedAt = now, ky_DecidedAt = None\<rparr>
      in (rec, AList.update accountID rec r))"

definition KYCDecide :: "mem_kyc \<Rightarrow> time \<Rightarrow> string \<Rightarrow> kyc_status \<Rightarrow> kyc_record \<times> mem_kyc" where
  "KYCDecide r now accountID status =
     (let rec = (case map_of r accountID of
          None \<Rightarrow> \<lparr>ky_AccountID = accountID, ky_Status = KYCNone, ky_LegalName = [], ky_Country = [],
            ky_SubmittedAt = now, ky_DecidedAt = None\<rparr>
        | Some rec \<Rightarrow> rec);
        rec' = rec\<lparr>ky_Status := status, ky_DecidedAt := Some now\<rparr>
      in (rec', AList.update accountID rec' r))"

subsection \<open>Payouts\<close>

record mem_payouts =
  mp_seq :: nat
  mp_byID :: "(string \<times> payout) list"
  mp_byAcct :: "(string \<times> string list) list"

definition NewMemPayoutRepo :: mem_payouts where
  "NewMemPayoutRepo = \<lparr>mp_seq = 0, mp_byID = [], mp_byAcct = []\<rparr>"

definition payout_ids_of :: "mem_payouts \<Rightarrow> string \<Rightarrow> string list" where
  "payout_ids_of r accountID = (case map_of (mp_byAcct r) accountID of None \<Rightarrow> [] | Some ids \<Rightarrow> ids)"

definition PayoutCreate :: "mem_payouts \<Rightarrow> payout \<Rightarrow> payout \<times> mem_payouts" where
  "PayoutCreate r p =
     (let n = Suc (mp_seq r);
          p' = p\<lparr>po_ID := ''payout-'' @ dec04 n\<rparr>
      in (p', r\<lparr>mp_seq := n, mp_byID := AList.update (po_ID p') p' (mp_byID r),
            mp_byAcct := AList.update (po_AccountID p) (payout_ids_of r (po_AccountID p) @ [po_ID p']) (mp_byAcct r)\<rparr>))"

definition PayoutUpdateStatus :: "mem_payouts \<Rightarrow> time \<Rightarrow> string \<Rightarrow> payout_status \<Rightarrow> string \<Rightarrow>
    creator_error option \<times> mem_payouts" where
  "PayoutUpdateStatus r now i status failureReason =
     (case map_of (mp_byID r) i of
        None \<Rightarrow> (Some ErrPayoutNotFound, r)
      | Some p \<Rightarrow>
          (None, r\<lparr>mp_byID := AList.update i
             (p\<lparr>po_Status := status, po_FailureReason := failureReason, po_UpdatedAt := now\<rparr>) (mp_byID r)\<rparr>))"

text \<open>\<open>Update\<close> runs \<open>mutate\<close> on the stored payout under the lock; \<open>'s\<close> is what else \<open>mutate\<close> changes.\<close>

definition PayoutUpdate :: "mem_payouts \<Rightarrow> 's \<Rightarrow> string \<Rightarrow>
    (payout \<Rightarrow> 's \<Rightarrow> (creator_error + payout) \<times> 's) \<Rightarrow> creator_error option \<times> mem_payouts \<times> 's" where
  "PayoutUpdate r s i mutate =
     (case map_of (mp_byID r) i of
        None \<Rightarrow> (Some ErrPayoutNotFound, r, s)
      | Some p \<Rightarrow>
          (case mutate p s of
             (Inl err, s') \<Rightarrow> (Some err, r, s')
           | (Inr p', s') \<Rightarrow> (None, r\<lparr>mp_byID := AList.update i p' (mp_byID r)\<rparr>, s')))"

definition PayoutGet :: "mem_payouts \<Rightarrow> string \<Rightarrow> creator_error + payout" where
  "PayoutGet r i = (case map_of (mp_byID r) i of None \<Rightarrow> Inl ErrPayoutNotFound | Some p \<Rightarrow> Inr p)"

text \<open>The payouts that a list of IDs denotes; \<open>None\<close> is the nil dereference.\<close>

fun payouts_at :: "mem_payouts \<Rightarrow> string list \<Rightarrow> payout list option" where
  "payouts_at r [] = Some []"
| "payouts_at r (i # ids) =
     (case map_of (mp_byID r) i of
        None \<Rightarrow> None
      | Some p \<Rightarrow> map_option ((#) p) (payouts_at r ids))"

type_synonym payout_order = "payout list \<Rightarrow> payout list"

definition newest_first :: "payout list \<Rightarrow> payout list" where
  "newest_first out = sort_key (\<lambda>p. - po_RequestedAt p) out"

definition PayoutListByAccount :: "payout_order \<Rightarrow> mem_payouts \<Rightarrow> string \<Rightarrow> payout list option" where
  "PayoutListByAccount ord r accountID =
     map_option (newest_first \<circ> ord) (payouts_at r (payout_ids_of r accountID))"

definition isReserved :: "payout_status \<Rightarrow> bool" where
  "isReserved s \<longleftrightarrow> s = PayoutRequested \<or> s = PayoutApproved \<or> s = PayoutProcessing"

definition PendingOrProcessingTotal :: "mem_payouts \<Rightarrow> string \<Rightarrow> int option" where
  "PendingOrProcessingTotal r accountID =
     map_option (foldl (\<lambda>total p. if isReserved (po_Status p) then add64 total (po_AmountDiamonds p) else total) 0)
       (payouts_at r (payout_ids_of r accountID))"

definition CountPending :: "mem_payouts \<Rightarrow> nat" where
  "CountPending r = length (filter (\<lambda>(i, p). isReserved (po_Status p)) (mp_byID r))"

definition PayoutListAll :: "payout_order \<Rightarrow> mem_payouts \<Rightarrow> payout_status \<Rightarrow> payout list" where
  "PayoutListAll ord r statusFilter =
     newest_first (ord (filter (\<lambda>p. statusFilter = [] \<or> po_Status p = statusFilter) (map snd (mp_byID r))))"

subsection \<open>Payout profiles\<close>

type_synonym mem_profiles = "(string \<times> payout_profile) list"

definition ProfileGet :: "mem_profiles \<Rightarrow> string \<Rightarrow> payout_profile" where
  "ProfileGet r accountID =
     (case map_of r accountID of
        Some p \<Rightarrow> p
      | None \<Rightarrow> \<lparr>pp_AccountID = accountID, pp_Method = [], pp_Country = [], pp_PayeeName = [],
          pp_Destination = [], pp_UpdatedAt = 0\<rparr>)"

definition ProfileSet :: "mem_profiles \<Rightarrow> time \<Rightarrow> payout_profile \<Rightarrow> payout_profile \<times> mem_profiles" where
  "ProfileSet r now p = (let p' = p\<lparr>pp_UpdatedAt := now\<rparr> in (p', AList.update (pp_AccountID p) p' r))"


section \<open>Earnings\<close>

record earning_entry =
  ee_TransactionID :: string
  ee_Kind :: string
  ee_AmountDiamonds :: int
  ee_GiftID :: string
  ee_CreatedAt :: time

record gift_breakdown =
  gb_GiftID :: string
  gb_Count :: nat
  gb_TotalDiamonds :: int

record earnings_summary =
  es_TotalEarned :: int
  es_Locked :: int
  es_Available :: int
  es_PaidOut :: int
  es_CurrentBalance :: int
  es_ByGift :: "gift_breakdown list"
  es_Entries :: "earning_entry list"

text \<open>\<open>it.Metadata["gift_id"].(string)\<close>; the empty string when it is no string.\<close>

definition earning_of :: "history_item \<Rightarrow> earning_entry" where
  "earning_of it = \<lparr>ee_TransactionID = hi_TransactionID it, ee_Kind = hi_Kind it,
     ee_AmountDiamonds = hi_Amount it,
     ee_GiftID = (case map_of (hi_Metadata it) ''gift_id'' of Some (AnyString g) \<Rightarrow> g | _ \<Rightarrow> []),
     ee_CreatedAt = hi_CreatedAt it\<rparr>"

text \<open>The loop over \<open>ledgerRepo.History\<close>, 200 items at a time. Each page that is not the last is not
  empty, so one page more than there are items is always enough.\<close>

definition earningsHistory :: "mem_ledger \<Rightarrow> string \<Rightarrow> earning_entry list option" where
  "earningsHistory l accountID =
     map_option (map earning_of)
       (read_pages (Suc (length (hist l (UserDiamondsAccount accountID)))) l (UserDiamondsAccount accountID) [] 200)"

definition diamondBalance :: "mem_ledger \<Rightarrow> string \<Rightarrow> ledger_error + int" where
  "diamondBalance l accountID = Balance l (UserDiamondsAccount accountID) Diamond"

definition add_gift :: "(string \<times> gift_breakdown) list \<Rightarrow> earning_entry \<Rightarrow> (string \<times> gift_breakdown) list" where
  "add_gift m e =
     (let g = (case map_of m (ee_GiftID e) of
                 None \<Rightarrow> \<lparr>gb_GiftID = ee_GiftID e, gb_Count = 0, gb_TotalDiamonds = 0\<rparr> | Some g \<Rightarrow> g)
      in AList.update (ee_GiftID e)
           (g\<lparr>gb_Count := Suc (gb_Count g), gb_TotalDiamonds := add64 (gb_TotalDiamonds g) (ee_AmountDiamonds e)\<rparr>) m)"

text \<open>The body of the loop over the entries.\<close>

definition add_earning :: "time \<Rightarrow> earnings_summary \<times> (string \<times> gift_breakdown) list \<Rightarrow> earning_entry \<Rightarrow>
    earnings_summary \<times> (string \<times> gift_breakdown) list" where
  "add_earning cutoff sg e =
     (let (s, giftTotals) = sg in
      if 0 < ee_AmountDiamonds e then
        let s1 = s\<lparr>es_TotalEarned := add64 (es_TotalEarned s) (ee_AmountDiamonds e)\<rparr>;
            s2 = (if Before (ee_CreatedAt e) cutoff
                  then s1\<lparr>es_Available := add64 (es_Available s1) (ee_AmountDiamonds e)\<rparr>
                  else s1\<lparr>es_Locked := add64 (es_Locked s1) (ee_AmountDiamonds e)\<rparr>)
        in (s2, if ee_Kind e = ''gift'' \<and> ee_GiftID e \<noteq> [] then add_gift giftTotals e else giftTotals)
      else if ee_AmountDiamonds e < 0 then
        (s\<lparr>es_PaidOut := add64 (es_PaidOut s) (neg64 (ee_AmountDiamonds e))\<rparr>, giftTotals)
      else (s, giftTotals))"

text \<open>\<open>ord\<close> is the order in which the totals per gift are met.\<close>

type_synonym gift_order = "gift_breakdown list \<Rightarrow> gift_breakdown list"

definition GetEarningsSummary :: "gift_order \<Rightarrow> mem_ledger \<Rightarrow> time \<Rightarrow> string \<Rightarrow> creator_error + earnings_summary" where
  "GetEarningsSummary ord l now accountID =
     (case earningsHistory l accountID of
        None \<Rightarrow> Inl PayoutHistoryPanic
      | Some entries \<Rightarrow>
          (case diamondBalance l accountID of
             Inl err \<Rightarrow> Inl (PayoutLedgerError err)
           | Inr balance \<Rightarrow>
               let cutoff = now - PayoutHoldPeriod;
                   start = \<lparr>es_TotalEarned = 0, es_Locked = 0, es_Available = 0, es_PaidOut = 0,
                     es_CurrentBalance = balance, es_ByGift = [], es_Entries = entries\<rparr>;
                   (s, giftTotals) = foldl (add_earning cutoff) (start, []) entries;
                   s1 = (if balance < es_Available s then s\<lparr>es_Available := balance\<rparr> else s);
                   s2 = (if es_Available s1 < 0 then s1\<lparr>es_Available := 0\<rparr> else s1)
               in Inr (s2\<lparr>es_ByGift := ord (map snd giftTotals)\<rparr>)))"

section \<open>The service\<close>

text \<open>The service with the closures of \<open>main.go\<close>: its stores, the ledger and the accounts.\<close>

record creator_world =
  cw_kyc :: mem_kyc
  cw_payouts :: mem_payouts
  cw_profiles :: mem_profiles
  cw_ledger :: mem_ledger
  cw_auth :: auth_world

definition accountRestricted :: "auth_world \<Rightarrow> string \<Rightarrow> auth_error + bool" where
  "accountRestricted w accountID =
     (case GetAccountStatus w accountID of
        Inl err \<Rightarrow> Inl err
      | Inr status \<Rightarrow> Inr (status = StatusRestricted \<or> status = StatusSuspended))"

definition payout_entries :: "string \<Rightarrow> int \<Rightarrow> entry list" where
  "payout_entries accountID amount =
     [\<lparr>e_account = UserDiamondsAccount accountID, e_amount = neg64 amount, e_currency = Diamond\<rparr>,
      \<lparr>e_account = PlatformDiamondLiabilityAccount, e_amount = amount, e_currency = Diamond\<rparr>]"

definition postPayout :: "mem_ledger \<Rightarrow> time \<Rightarrow> string \<Rightarrow> int \<Rightarrow> string \<Rightarrow> (ledger_error + string) \<times> mem_ledger" where
  "postPayout l now accountID amount idempotencyKey =
     (case PostTransaction l now ''payout'' idempotencyKey [(''account_id'', AnyString accountID)]
             (payout_entries accountID amount) of
        (Inl err, l') \<Rightarrow> (Inl err, l')
      | (Inr (tx, isNew), l') \<Rightarrow> (Inr (tx_ID tx), l'))"

definition payout_reversal_entries :: "string \<Rightarrow> int \<Rightarrow> entry list" where
  "payout_reversal_entries accountID amount =
     [\<lparr>e_account = UserDiamondsAccount accountID, e_amount = amount, e_currency = Diamond\<rparr>,
      \<lparr>e_account = PlatformDiamondLiabilityAccount, e_amount = neg64 amount, e_currency = Diamond\<rparr>]"

definition reversePayout :: "mem_ledger \<Rightarrow> time \<Rightarrow> string \<Rightarrow> int \<Rightarrow> string \<Rightarrow> (ledger_error + string) \<times> mem_ledger" where
  "reversePayout l now accountID amount idempotencyKey =
     (case PostTransaction l now ''payout_reversal'' idempotencyKey [(''account_id'', AnyString accountID)]
             (payout_reversal_entries accountID amount) of
        (Inl err, l') \<Rightarrow> (Inl err, l')
      | (Inr (tx, isNew), l') \<Rightarrow> (Inr (tx_ID tx), l'))"

subsection \<open>KYC and payout profiles\<close>

definition GetKYCStatus :: "creator_world \<Rightarrow> string \<Rightarrow> kyc_record" where
  "GetKYCStatus w accountID = KYCGet (cw_kyc w) accountID"

definition SubmitKYC :: "creator_world \<Rightarrow> time \<Rightarrow> string \<Rightarrow> string \<Rightarrow> string \<Rightarrow> (creator_error + kyc_record) \<times> creator_world" where
  "SubmitKYC w now accountID legalName country =
     (if ky_Status (KYCGet (cw_kyc w) accountID) = KYCVerified then (Inl ErrKYCAlreadyVerified, w)
      else let (rec, r) = KYCSubmit (cw_kyc w) now accountID legalName country in (Inr rec, w\<lparr>cw_kyc := r\<rparr>))"

definition DevApproveKYC :: "creator_world \<Rightarrow> time \<Rightarrow> string \<Rightarrow> kyc_record \<times> creator_world" where
  "DevApproveKYC w now accountID =
     (let (rec, r) = KYCDecide (cw_kyc w) now accountID KYCVerified in (rec, w\<lparr>cw_kyc := r\<rparr>))"

definition GetPayoutProfile :: "creator_world \<Rightarrow> string \<Rightarrow> payout_profile" where
  "GetPayoutProfile w accountID = ProfileGet (cw_profiles w) accountID"

definition SetPayoutProfile :: "creator_world \<Rightarrow> time \<Rightarrow> string \<Rightarrow> payout_method \<Rightarrow> string \<Rightarrow> string \<Rightarrow> string \<Rightarrow>
    (creator_error + payout_profile) \<times> creator_world" where
  "SetPayoutProfile w now accountID method country payeeName destination =
     (case PayoutCountryByCode country of
        None \<Rightarrow> (Inl ErrUnsupportedPayoutCountry, w)
      | Some c \<Rightarrow>
          if \<not> pc_Enabled c then (Inl ErrUnsupportedPayoutCountry, w)
          else if \<not> PayoutMethodAllowed c method then (Inl ErrUnsupportedPayoutMethod, w)
          else
            let (p, r) = ProfileSet (cw_profiles w) now
                  \<lparr>pp_AccountID = accountID, pp_Method = method, pp_Country = country,
                   pp_PayeeName = payeeName, pp_Destination = destination, pp_UpdatedAt = 0\<rparr>
            in (Inr p, w\<lparr>cw_profiles := r\<rparr>))"


subsection \<open>Requesting a payout\<close>

definition payout_minimum :: "payout_profile \<Rightarrow> int" where
  "payout_minimum profile =
     (case PayoutCountryByCode (pp_Country profile) of
        Some c \<Rightarrow> if 0 < pc_MinimumWithdrawalDiamonds c then pc_MinimumWithdrawalDiamonds c else PayoutThresholdDiamonds
      | None \<Rightarrow> PayoutThresholdDiamonds)"

definition new_payout :: "string \<Rightarrow> int \<Rightarrow> string \<Rightarrow> time \<Rightarrow> payout" where
  "new_payout accountID amount txID now =
     \<lparr>po_ID = [], po_AccountID = accountID, po_AmountDiamonds = amount, po_Status = PayoutRequested,
      po_FailureReason = [], po_TransactionID = txID, po_ReversalTransactionID = [], po_PayoutReference = [],
      po_AdminNote = [], po_ReviewedBy = [], po_RequestedAt = now, po_ReviewedAt = None, po_PaidAt = None,
      po_UpdatedAt = now\<rparr>"

definition RequestPayout :: "creator_world \<Rightarrow> time \<Rightarrow> string \<Rightarrow> int \<Rightarrow> string \<Rightarrow> (creator_error + payout) \<times> creator_world" where
  "RequestPayout w now accountID amount idempotencyKey =
     (if ky_Status (KYCGet (cw_kyc w) accountID) \<noteq> KYCVerified then (Inl ErrKYCIncomplete, w)
      else
        let profile = ProfileGet (cw_profiles w) accountID in
        if pp_Method profile = [] then (Inl ErrPayoutProfileRequired, w)
        else
          (case accountRestricted (cw_auth w) accountID of
             Inl err \<Rightarrow> (Inl (PayoutAuthError err), w)
           | Inr restricted \<Rightarrow>
               if restricted then (Inl ErrPayoutAccountRestricted, w)
               else
                 (case GetEarningsSummary (\<lambda>xs. xs) (cw_ledger w) now accountID of
                    Inl err \<Rightarrow> (Inl err, w)
                  | Inr summary \<Rightarrow>
                      (case PendingOrProcessingTotal (cw_payouts w) accountID of
                         None \<Rightarrow> (Inl PayoutNilDereference, w)
                       | Some inFlight \<Rightarrow>
                           let available0 = sub64 (es_Available summary) inFlight;
                               available = (if available0 < 0 then 0 else available0)
                           in if available < payout_minimum profile then (Inl ErrBelowThreshold, w)
                              else if amount \<le> 0 \<or> available < amount then (Inl ErrInvalidAmount, w)
                              else
                                (case postPayout (cw_ledger w) now accountID amount idempotencyKey of
                                   (Inl err, l) \<Rightarrow> (Inl (PayoutLedgerError err), w\<lparr>cw_ledger := l\<rparr>)
                                 | (Inr txID, l) \<Rightarrow>
                                     let (p, r) = PayoutCreate (cw_payouts w) (new_payout accountID amount txID now)
                                     in (Inr p, w\<lparr>cw_ledger := l, cw_payouts := r\<rparr>))))))"

definition ListPayouts :: "payout_order \<Rightarrow> creator_world \<Rightarrow> string \<Rightarrow> payout list option" where
  "ListPayouts ord w accountID = PayoutListByAccount ord (cw_payouts w) accountID"

definition GetPayout :: "creator_world \<Rightarrow> string \<Rightarrow> string \<Rightarrow> creator_error + payout" where
  "GetPayout w accountID payoutID =
     (case PayoutGet (cw_payouts w) payoutID of
        Inl err \<Rightarrow> Inl err
      | Inr p \<Rightarrow> if po_AccountID p \<noteq> accountID then Inl ErrPayoutNotFound else Inr p)"

subsection \<open>Admin withdrawal management\<close>

definition statusIn :: "payout_status \<Rightarrow> payout_status list \<Rightarrow> bool" where
  "statusIn s st = list_ex (\<lambda>x. s = x) st"

definition AdminListPayouts :: "payout_order \<Rightarrow> creator_world \<Rightarrow> payout_status \<Rightarrow> payout list" where
  "AdminListPayouts ord w statusFilter = PayoutListAll ord (cw_payouts w) statusFilter"

text \<open>The function that \<open>transitionPayout\<close> hands to \<open>Update\<close>.\<close>

definition guarded :: "time \<Rightarrow> payout_status list \<Rightarrow> (payout \<Rightarrow> payout) \<Rightarrow> payout \<Rightarrow> 's \<Rightarrow> (creator_error + payout) \<times> 's" where
  "guarded now froms mutate p s =
     (if \<not> statusIn (po_Status p) froms then (Inl ErrInvalidPayoutTransition, s)
      else
        let p1 = mutate p;
            p2 = (if po_ReviewedAt p1 = None then p1\<lparr>po_ReviewedAt := Some now\<rparr> else p1)
        in (Inr (p2\<lparr>po_UpdatedAt := now\<rparr>), s))"

definition transitionPayout :: "creator_world \<Rightarrow> time \<Rightarrow> string \<Rightarrow> payout_status list \<Rightarrow> (payout \<Rightarrow> payout) \<Rightarrow>
    (creator_error + payout) \<times> creator_world" where
  "transitionPayout w now payoutID froms mutate =
     (case PayoutGet (cw_payouts w) payoutID of
        Inl err \<Rightarrow> (Inl err, w)
      | Inr p \<Rightarrow>
          if \<not> statusIn (po_Status p) froms then (Inl ErrInvalidPayoutTransition, w)
          else
            (case PayoutUpdate (cw_payouts w) () payoutID (guarded now froms mutate) of
               (Some err, r, _) \<Rightarrow> (Inl err, w\<lparr>cw_payouts := r\<rparr>)
             | (None, r, _) \<Rightarrow> (PayoutGet r payoutID, w\<lparr>cw_payouts := r\<rparr>)))"

definition AdminApprovePayout :: "creator_world \<Rightarrow> time \<Rightarrow> string \<Rightarrow> string \<Rightarrow> string \<Rightarrow> (creator_error + payout) \<times> creator_world" where
  "AdminApprovePayout w now adminID payoutID note =
     transitionPayout w now payoutID [PayoutRequested]
       (\<lambda>p. p\<lparr>po_Status := PayoutApproved, po_ReviewedBy := adminID, po_AdminNote := note\<rparr>)"

definition AdminMarkProcessing :: "creator_world \<Rightarrow> time \<Rightarrow> string \<Rightarrow> string \<Rightarrow> (creator_error + payout) \<times> creator_world" where
  "AdminMarkProcessing w now adminID payoutID =
     transitionPayout w now payoutID [PayoutApproved]
       (\<lambda>p. p\<lparr>po_Status := PayoutProcessing, po_ReviewedBy := adminID\<rparr>)"

definition AdminMarkPaid :: "creator_world \<Rightarrow> time \<Rightarrow> string \<Rightarrow> string \<Rightarrow> string \<Rightarrow> (creator_error + payout) \<times> creator_world" where
  "AdminMarkPaid w now adminID payoutID payoutReference =
     (if payoutReference = [] then (Inl ErrInvalidPayoutTransition, w)
      else transitionPayout w now payoutID [PayoutProcessing]
        (\<lambda>p. p\<lparr>po_Status := PayoutPaid, po_ReviewedBy := adminID, po_PayoutReference := payoutReference,
               po_PaidAt := Some now\<rparr>))"

text \<open>The function that \<open>rejectOrFail\<close> hands to \<open>Update\<close>: it posts the reversal under the store's lock.\<close>

definition reverse_and_close :: "time \<Rightarrow> string \<Rightarrow> string \<Rightarrow> string \<Rightarrow> payout_status \<Rightarrow> payout_status list \<Rightarrow>
    payout \<Rightarrow> mem_ledger \<Rightarrow> (creator_error + payout) \<times> mem_ledger" where
  "reverse_and_close now adminID payoutID reason final froms p l =
     (if \<not> statusIn (po_Status p) froms then (Inl ErrInvalidPayoutTransition, l)
      else
        (case reversePayout l now (po_AccountID p) (po_AmountDiamonds p) (''payout-reversal:'' @ payoutID) of
           (Inl err, l') \<Rightarrow> (Inl (PayoutLedgerError err), l')
         | (Inr reversalTxID, l') \<Rightarrow>
             (Inr (p\<lparr>po_Status := final, po_ReviewedBy := adminID, po_AdminNote := reason,
                     po_FailureReason := reason, po_ReversalTransactionID := reversalTxID,
                     po_ReviewedAt := Some now, po_UpdatedAt := now\<rparr>), l')))"

definition rejectOrFail :: "creator_world \<Rightarrow> time \<Rightarrow> string \<Rightarrow> string \<Rightarrow> string \<Rightarrow> payout_status \<Rightarrow> payout_status list \<Rightarrow>
    (creator_error + payout) \<times> creator_world" where
  "rejectOrFail w now adminID payoutID reason final froms =
     (case PayoutUpdate (cw_payouts w) (cw_ledger w) payoutID (reverse_and_close now adminID payoutID reason final froms) of
        (Some err, r, l) \<Rightarrow> (Inl err, w\<lparr>cw_payouts := r, cw_ledger := l\<rparr>)
      | (None, r, l) \<Rightarrow> (PayoutGet r payoutID, w\<lparr>cw_payouts := r, cw_ledger := l\<rparr>))"

definition AdminRejectPayout :: "creator_world \<Rightarrow> time \<Rightarrow> string \<Rightarrow> string \<Rightarrow> string \<Rightarrow> (creator_error + payout) \<times> creator_world" where
  "AdminRejectPayout w now adminID payoutID reason =
     rejectOrFail w now adminID payoutID reason PayoutRejected [PayoutRequested, PayoutApproved]"

definition AdminMarkFailed :: "creator_world \<Rightarrow> time \<Rightarrow> string \<Rightarrow> string \<Rightarrow> string \<Rightarrow> (creator_error + payout) \<times> creator_world" where
  "AdminMarkFailed w now adminID payoutID reason =
     rejectOrFail w now adminID payoutID reason PayoutFailed [PayoutProcessing]"

subsection \<open>Analytics\<close>

text \<open>\<open>listSessions\<close> and \<open>followerHistory\<close> are what the closures of those names returned. The average,
  a \<open>float64\<close> quotient in the code, is kept as the exact quotient.\<close>

record stream_stat =
  ss_SessionID :: string
  ss_RoomID :: string
  ss_State :: string
  ss_StartedAt :: "time option"
  ss_EndedAt :: "time option"
  ss_PeakViewers :: int

record creator_analytics =
  ca_TotalStreams :: nat
  ca_TotalPeakViewers :: int
  ca_AvgPeakViewers :: rat
  ca_LastStreamAt :: "time option"
  ca_TotalFollowers :: nat
  ca_NewLast7Days :: nat
  ca_NewLast30Days :: nat
  ca_Gifts :: "gift_breakdown list"

definition later_start :: "time option \<Rightarrow> stream_stat \<Rightarrow> time option" where
  "later_start lst sess =
     (case ss_StartedAt sess of
        None \<Rightarrow> lst
      | Some t \<Rightarrow> (case lst of None \<Rightarrow> Some t | Some u \<Rightarrow> if After t u then Some t else lst))"

definition GetAnalytics :: "gift_order \<Rightarrow> mem_ledger \<Rightarrow> time \<Rightarrow> string \<Rightarrow> stream_stat list \<Rightarrow> (string \<times> time) list \<Rightarrow>
    creator_error + creator_analytics" where
  "GetAnalytics ord l now accountID sessions fans =
     (case GetEarningsSummary ord l now accountID of
        Inl err \<Rightarrow> Inl err
      | Inr summary \<Rightarrow>
          let peak = foldl (\<lambda>n sess. add64 n (ss_PeakViewers sess)) 0 sessions in
          Inr \<lparr>ca_TotalStreams = length sessions, ca_TotalPeakViewers = peak,
            ca_AvgPeakViewers = (if sessions \<noteq> [] then of_int peak / of_nat (length sessions) else 0),
            ca_LastStreamAt = foldl later_start None sessions,
            ca_TotalFollowers = length fans,
            ca_NewLast7Days = length (filter (\<lambda>f. After (snd f) (now - 7 * 24 * hour)) fans),
            ca_NewLast30Days = length (filter (\<lambda>f. After (snd f) (now - 30 * 24 * hour)) fans),
            ca_Gifts = es_ByGift summary\<rparr>)"


section \<open>What counts as available\<close>

definition earned_where :: "(earning_entry \<Rightarrow> bool) \<Rightarrow> earning_entry list \<Rightarrow> int" where
  "earned_where P es = sum_list (map (\<lambda>e. if 0 < ee_AmountDiamonds e \<and> P e then ee_AmountDiamonds e else 0) es)"

definition paid_out :: "earning_entry list \<Rightarrow> int" where
  "paid_out es = sum_list (map (\<lambda>e. if ee_AmountDiamonds e < 0 then - ee_AmountDiamonds e else 0) es)"

lemma earned_where_Cons [simp]:
  "earned_where P (e # es) = (if 0 < ee_AmountDiamonds e \<and> P e then ee_AmountDiamonds e else 0) + earned_where P es"
  "earned_where P [] = 0"
  by (simp_all add: earned_where_def)

lemma paid_out_Cons [simp]:
  "paid_out (e # es) = (if ee_AmountDiamonds e < 0 then - ee_AmountDiamonds e else 0) + paid_out es"
  "paid_out [] = 0"
  by (simp_all add: paid_out_def)

lemma earned_split: "earned_where (\<lambda>e. True) es = earned_where P es + earned_where (\<lambda>e. \<not> P e) es"
  by (induction es) auto

lemma earned_nonneg: "0 \<le> earned_where P es" "0 \<le> paid_out es"
  by (induction es) auto

lemma earned_turnover: "earned_where (\<lambda>e. True) es + paid_out es = sum_list (map (\<lambda>e. \<bar>ee_AmountDiamonds e\<bar>) es)"
  by (induction es) auto

lemma earned_net: "earned_where (\<lambda>e. True) es - paid_out es = sum_list (map ee_AmountDiamonds es)"
  by (induction es) auto

lemma fold_earnings:
  assumes "in_i64 (es_TotalEarned s)" "in_i64 (es_Available s)" "in_i64 (es_Locked s)" "in_i64 (es_PaidOut s)"
  shows "let r = fst (foldl (add_earning cutoff) (s, g) es) in
    es_TotalEarned r = wrap64 (es_TotalEarned s + earned_where (\<lambda>e. True) es) \<and>
    es_Available r = wrap64 (es_Available s + earned_where (\<lambda>e. Before (ee_CreatedAt e) cutoff) es) \<and>
    es_Locked r = wrap64 (es_Locked s + earned_where (\<lambda>e. \<not> Before (ee_CreatedAt e) cutoff) es) \<and>
    es_PaidOut r = wrap64 (es_PaidOut s + paid_out es) \<and> es_CurrentBalance r = es_CurrentBalance s"
  using assms
proof (induction es arbitrary: s g)
  case Nil
  then show ?case by (simp add: wrap64_id)
next
  case (Cons e es)
  obtain s' g' where r: "add_earning cutoff (s, g) e = (s', g')" by (cases "add_earning cutoff (s, g) e")
  have f: "es_TotalEarned s' = wrap64 (es_TotalEarned s + (if 0 < ee_AmountDiamonds e then ee_AmountDiamonds e else 0))"
    "es_Available s' = wrap64 (es_Available s +
       (if 0 < ee_AmountDiamonds e \<and> Before (ee_CreatedAt e) cutoff then ee_AmountDiamonds e else 0))"
    "es_Locked s' = wrap64 (es_Locked s +
       (if 0 < ee_AmountDiamonds e \<and> \<not> Before (ee_CreatedAt e) cutoff then ee_AmountDiamonds e else 0))"
    "es_PaidOut s' = wrap64 (es_PaidOut s + (if ee_AmountDiamonds e < 0 then - ee_AmountDiamonds e else 0))"
    "es_CurrentBalance s' = es_CurrentBalance s"
    using r Cons.prems by (auto simp: add_earning_def Let_def add64_def neg64_def wrap64_id split: if_splits)
  show ?case
    using Cons.IH [of s' g'] by (simp add: r f Let_def add.assoc)
qed

lemma earningsHistory_complete:
  assumes "int (length (hist l (UserDiamondsAccount a))) < 2 ^ 63"
  shows "earningsHistory l a = Some (map earning_of (rev (hist l (UserDiamondsAccount a))))"
  unfolding earningsHistory_def by (subst read_pages_from [OF assms, of 0]) (simp_all del: read_pages.simps)


lemma hist_net:
  assumes "ledger_inv l" and "\<forall>h \<in> set (hist l a). hi_Currency h = c"
  shows "bal l (a, c) = wrap64 (sum_list (map hi_Amount (hist l a)))"
proof -
  have one: "sum_list (map hi_Amount (map (history_of t) (filter (\<lambda>e. e_account e = a) es))) = entries_at (a, c) es"
    if "\<forall>h \<in> set (map (history_of t) (filter (\<lambda>e. e_account e = a) es)). hi_Currency h = c" for t es
    using that by (induction es) (auto simp: history_of_def entry_key_def)
  have "sum_list (map hi_Amount (concat (map (\<lambda>t. map (history_of t) (filter (\<lambda>e. e_account e = a) (tx_Entries t))) ts)))
      = entries_at (a, c) (journal_entries ts)"
    if "\<forall>h \<in> set (concat (map (\<lambda>t. map (history_of t) (filter (\<lambda>e. e_account e = a) (tx_Entries t))) ts)). hi_Currency h = c"
    for ts
    using that
  proof (induction ts)
    case (Cons t ts)
    then show ?case using one [of t "tx_Entries t"] by (simp add: journal_entries_def entries_at_def del: map_map)
  qed (simp add: journal_entries_def)
  then show ?thesis using assms by (simp add: ledger_inv_def journal_ok_def history_ok_def)
qed

text \<open>Debits do not come out of the matured earnings. In a ledger whose turnover on the account fits
  into 63 bits, the summary balances - current balance = earned - paid out - and the locked
  diamonds are those earned in the last 14 days; but the available amount exceeds the matured
  earnings less the debits by the smaller of the locked and the paid-out total: that many diamonds
  leave the hold early.\<close>

theorem hold_released_by_payouts:
  assumes "ledger_inv l" and "\<forall>h \<in> set (hist l (UserDiamondsAccount a)). hi_Currency h = Diamond"
    and "sum_list (map (\<lambda>h. \<bar>hi_Amount h\<bar>) (hist l (UserDiamondsAccount a))) < 2 ^ 63"
    and "int (length (hist l (UserDiamondsAccount a))) < 2 ^ 63"
  shows "\<exists>s. GetEarningsSummary ord l now a = Inr s \<and> es_CurrentBalance s = bal l (UserDiamondsAccount a, Diamond) \<and>
    es_CurrentBalance s = es_TotalEarned s - es_PaidOut s \<and>
    es_Locked s = earned_where (\<lambda>e. now - PayoutHoldPeriod \<le> ee_CreatedAt e) (es_Entries s) \<and>
    es_Available s = es_TotalEarned s - es_Locked s - es_PaidOut s + min (es_Locked s) (es_PaidOut s)"
proof -
  let ?acc = "UserDiamondsAccount a" and ?c = "now - PayoutHoldPeriod"
  let ?es = "map earning_of (rev (hist l ?acc))" and ?b = "bal l (?acc, Diamond)"
  let ?start = "\<lparr>es_TotalEarned = 0, es_Locked = 0, es_Available = 0, es_PaidOut = 0, es_CurrentBalance = ?b,
    es_ByGift = [], es_Entries = ?es\<rparr>"
  let ?m = "earned_where (\<lambda>e. Before (ee_CreatedAt e) ?c) ?es" and ?k = "earned_where (\<lambda>e. \<not> Before (ee_CreatedAt e) ?c) ?es"
  obtain r g where r: "foldl (add_earning ?c) (?start, []) ?es = (r, g)" by (cases "foldl (add_earning ?c) (?start, []) ?es")
  have am: "map ee_AmountDiamonds ?es = rev (map hi_Amount (hist l ?acc))"
    "map (\<lambda>e. \<bar>ee_AmountDiamonds e\<bar>) ?es = rev (map (\<lambda>h. \<bar>hi_Amount h\<bar>) (hist l ?acc))"
    by (simp_all add: earning_of_def comp_def rev_map)
  have t: "earned_where (\<lambda>e. True) ?es + paid_out ?es < 2 ^ 63"
    using assms(3) by (simp only: earned_turnover am sum_list_rev)
  have n: "0 \<le> ?m" "0 \<le> ?k" "0 \<le> paid_out ?es" "earned_where (\<lambda>e. True) ?es = ?m + ?k"
    by (simp_all only: earned_nonneg earned_split [symmetric])
  have "?b = wrap64 (earned_where (\<lambda>e. True) ?es - paid_out ?es)"
    by (simp only: earned_net am sum_list_rev hist_net [OF assms(1,2)])
  then have b: "?b = ?m + ?k - paid_out ?es" using t n by (simp add: wrap64_id in_i64_def)
  have nb: "0 \<le> ?b" using assms(1) by (simp add: ledger_inv_def balances_ok_def)
  have "in_i64 (0::int)" by (simp add: in_i64_def)
  then have f: "es_TotalEarned r = ?m + ?k" "es_Available r = ?m" "es_Locked r = ?k" "es_PaidOut r = paid_out ?es"
    "es_CurrentBalance r = ?b"
    using fold_earnings [of ?start ?c "[]" ?es] r t n by (simp_all add: Let_def wrap64_id in_i64_def)
  have e: "es_Entries r = ?es"
  proof -
    have "es_Entries (fst (foldl (add_earning c) (s, g) es)) = es_Entries s" for c s g es
    proof (induction es arbitrary: s g)
      case (Cons e es)
      obtain s' g' where "add_earning c (s, g) e = (s', g')" by (cases "add_earning c (s, g) e")
      moreover from this have "es_Entries s' = es_Entries s" by (auto simp: add_earning_def Let_def split: if_splits)
      ultimately show ?case using Cons.IH [of s' g'] by simp
    qed simp
    then show ?thesis using r by (metis earnings_summary.select_convs(7) fst_conv)
  qed
  let ?r1 = "if ?b < es_Available r then r\<lparr>es_Available := ?b\<rparr> else r"
  let ?r2 = "if es_Available ?r1 < 0 then ?r1\<lparr>es_Available := 0\<rparr> else ?r1"
  have "GetEarningsSummary ord l now a = Inr (?r2\<lparr>es_ByGift := ord (map snd g)\<rparr>)"
    unfolding GetEarningsSummary_def earningsHistory_complete [OF assms(4)] option.case
    using r by (simp add: diamondBalance_def Balance_def bal_def Let_def)
  moreover have "?k = earned_where (\<lambda>e. ?c \<le> ee_CreatedAt e) ?es" by (simp add: Before_def not_less)
  ultimately show ?thesis
    using f e b nb n by (intro exI [of _ "?r2\<lparr>es_ByGift := ord (map snd g)\<rparr>"]) (auto simp: min_def)
qed


definition demo_earner :: mem_ledger where
  "demo_earner =
    (let l1 = snd (PostTransaction NewMemLedger 0 ''gift'' ''g1'' [] (payout_reversal_entries ''acc-0001'' 10000));
         l2 = snd (PostTransaction l1 (15 * 24 * hour) ''payout'' ''p1'' [] (payout_entries ''acc-0001'' 10000))
     in snd (PostTransaction l2 (16 * 24 * hour) ''gift'' ''g2'' [] (payout_reversal_entries ''acc-0001'' 10000)))"

lemma demo_earner_inv: "ledger_inv demo_earner"
  by (simp add: demo_earner_def Let_def PostTransaction_def ledger_inv_postLocked ledger_inv_new)

lemma hold_released_by_payouts_witness:
  "\<exists>s. GetEarningsSummary (\<lambda>xs. xs) demo_earner (17 * 24 * hour) ''acc-0001'' = Inr s \<and>
     es_CurrentBalance s = 10000 \<and> es_Locked s = 10000 \<and> es_Available s = 10000"
proof -
  let ?h = "hist demo_earner (UserDiamondsAccount ''acc-0001'')"
  have h: "list_all (\<lambda>x. hi_Currency x = Diamond) ?h"
    "sum_list (map (\<lambda>x. \<bar>hi_Amount x\<bar>) ?h) = 30000 \<and> length ?h = 3"
    by code_simp+
  obtain s where s: "GetEarningsSummary (\<lambda>xs. xs) demo_earner (17 * 24 * hour) ''acc-0001'' = Inr s"
    and a: "es_Available s = es_TotalEarned s - es_Locked s - es_PaidOut s + min (es_Locked s) (es_PaidOut s)"
    using hold_released_by_payouts [OF demo_earner_inv, of "''acc-0001''" "\<lambda>xs. xs" "17 * 24 * hour"] h
    by (auto simp: list_all_iff)
  have "case GetEarningsSummary (\<lambda>xs. xs) demo_earner (17 * 24 * hour) ''acc-0001'' of Inl err \<Rightarrow> False
    | Inr s \<Rightarrow> es_CurrentBalance s = 10000 \<and> es_TotalEarned s = 20000 \<and> es_Locked s = 10000 \<and> es_PaidOut s = 10000"
    by code_simp
  then show ?thesis using s a by simp
qed

section \<open>Every payout is backed by the ledger\<close>

lemma user_diamonds_inj [simp]: "UserDiamondsAccount a = UserDiamondsAccount b \<longleftrightarrow> a = b"
  by (simp add: UserDiamondsAccount_def)

lemma user_diamonds_not_liability [simp]: "UserDiamondsAccount a \<noteq> PlatformDiamondLiabilityAccount"
  using user_not_platform(2) platform_accounts(3) by metis

definition payout_kind :: "transaction \<Rightarrow> bool" where
  "payout_kind t \<longleftrightarrow> tx_Kind t = ''payout'' \<or> tx_Kind t = ''payout_reversal''"

text \<open>What the payouts account for at a key, and what all other transactions do.\<close>

definition payouts_at_key :: "balance_key \<Rightarrow> mem_ledger \<Rightarrow> int" where
  "payouts_at_key k l = entries_at k (journal_entries (filter payout_kind (journal l)))"

definition others_at_key :: "balance_key \<Rightarrow> mem_ledger \<Rightarrow> int" where
  "others_at_key k l = entries_at k (journal_entries (filter (\<lambda>t. \<not> payout_kind t) (journal l)))"

lemma bal_split:
  assumes "ledger_inv l"
  shows "bal l k = wrap64 (others_at_key k l + payouts_at_key k l)"
proof -
  have split: "entries_at k (journal_entries ts) =
      entries_at k (journal_entries (filter (\<lambda>t. \<not> payout_kind t) ts)) + entries_at k (journal_entries (filter payout_kind ts))" for ts
  proof (induction ts)
    case (Cons t ts)
    have c: "journal_entries (t # xs) = tx_Entries t @ journal_entries xs" for xs by (simp add: journal_entries_def)
    show ?case by (cases "payout_kind t") (simp_all add: c Cons.IH)
  qed (simp add: journal_entries_def)
  show ?thesis using assms split [of "journal l"]
    by (cases k) (simp add: ledger_inv_def journal_ok_def payouts_at_key_def others_at_key_def)
qed

lemma post_effect:
  assumes "ledger_inv l" and "PostTransaction l now kind key md es = (r, l')"
  obtains (same) "l' = l" "(\<exists>err. r = Inl err) \<or> (\<exists>t. tx_by_key l key = Some t \<and> r = Inr (t, False))"
  | (new) t where "r = Inr (t, True)" "tx_by_key l key = None" "ledger_inv l'" "tx_by_key l' = (tx_by_key l)(key \<mapsto> t)"
      "tx_ID t \<noteq> []"
      "\<And>k. payouts_at_key k l' = payouts_at_key k l + (if kind = ''payout'' \<or> kind = ''payout_reversal'' then entries_at k es else 0)"
proof (cases rule: postLocked_cases [of l key now kind md es])
  case (fresh p)
  have "journal l' = journal l @ [new_tx l now kind key md es]"
    using journal_posted [OF fresh(1)] assms fresh(2) by (simp add: ledger_inv_def PostTransaction_def)
  then have "payouts_at_key k l' = payouts_at_key k l +
      (if kind = ''payout'' \<or> kind = ''payout_reversal'' then entries_at k es else 0)" for k
    by (simp add: payouts_at_key_def payout_kind_def journal_entries_def)
  then show ?thesis
    using assms(2) fresh ledger_inv_posted [OF fresh(1) assms(1)]
    by (intro new [of "new_tx l now kind key md es"])
      (auto simp: PostTransaction_def posted_def tx_by_key_def fresh_post_def tx_name_def)
next
  case (replay t)
  then show ?thesis using assms(2) by (intro same) (auto simp: PostTransaction_def tx_by_key_def)
next
  case empty
  then show ?thesis using assms(2) by (intro same) (auto simp: PostTransaction_def tx_by_key_def)
next
  case unbalanced
  then show ?thesis using assms(2) by (intro same) (auto simp: PostTransaction_def tx_by_key_def)
next
  case (short err)
  then show ?thesis using assms(2) by (intro same) (auto simp: PostTransaction_def tx_by_key_def)
qed

lemma reverse_effect:
  assumes "ledger_inv l" and "ReverseTransaction l now i key reason = (r, l')"
  shows "ledger_inv l' \<and> payouts_at_key k l' = payouts_at_key k l \<and>
    (tx_by_key l' = tx_by_key l \<or> (\<exists>t. tx_by_key l' = (tx_by_key l)(key \<mapsto> t)))"
proof (cases rule: ReverseTransaction_cases [of l key now i reason])
  case (fresh t p tx)
  have j: "journal (posted l p tx) = journal l @ [tx]" using journal_posted [OF fresh(4)] assms by (simp add: ledger_inv_def)
  have "ledger_inv l'" using mem.reverse_ok [of l now i key reason r l'] assms by (simp add: mem_ledger_repo_def)
  moreover have "payouts_at_key k l' = payouts_at_key k l"
    using j fresh assms(2) by (simp add: payouts_at_key_def payout_kind_def journal_def)
  ultimately show ?thesis using fresh assms(2) by (auto simp: tx_by_key_def posted_def)
qed (use assms in auto)


text \<open>What a payout holds out of the creator's balance: everything from the request on, unless it was
  rejected or failed.\<close>

definition weight :: "string \<Rightarrow> payout \<Rightarrow> int" where
  "weight a p = (if po_AccountID p = a \<and> po_Status p \<noteq> PayoutRejected \<and> po_Status p \<noteq> PayoutFailed
     then po_AmountDiamonds p else 0)"

definition held_out :: "mem_payouts \<Rightarrow> string \<Rightarrow> int" where
  "held_out r a = sum_list (map (\<lambda>(i, p). weight a p) (mp_byID r))"

definition payout_ok :: "payout \<Rightarrow> bool" where
  "payout_ok p \<longleftrightarrow> 0 < po_AmountDiamonds p \<and> po_AmountDiamonds p < 2 ^ 63 \<and>
     po_Status p \<in> {PayoutRequested, PayoutApproved, PayoutProcessing, PayoutPaid, PayoutRejected, PayoutFailed} \<and>
     (po_ReversalTransactionID p \<noteq> [] \<longleftrightarrow> po_Status p \<in> {PayoutRejected, PayoutFailed})"

text \<open>Only the service uses the keys of reversals, each for a payout that exists and is closed.\<close>

definition reversal_key :: "string \<Rightarrow> string" where "reversal_key i = ''payout-reversal:'' @ i"

definition creator_inv :: "creator_world \<Rightarrow> bool" where
  "creator_inv w \<longleftrightarrow> ledger_inv (cw_ledger w) \<and> wf_map (mp_byID (cw_payouts w)) \<and>
     (\<forall>i p. map_of (mp_byID (cw_payouts w)) i = Some p \<longrightarrow> payout_ok p \<and> po_ID p = i \<and>
        (\<exists>n. n \<le> mp_seq (cw_payouts w) \<and> i = ''payout-'' @ dec04 n)) \<and>
     (\<forall>i. tx_by_key (cw_ledger w) (reversal_key i) \<noteq> None \<longrightarrow>
        (\<exists>p. map_of (mp_byID (cw_payouts w)) i = Some p \<and> po_Status p \<in> {PayoutRejected, PayoutFailed})) \<and>
     (\<forall>a. payouts_at_key (UserDiamondsAccount a, Diamond) (cw_ledger w) = - held_out (cw_payouts w) a)"

lemma held_out_new:
  assumes "map_of (mp_byID r) i = None"
  shows "sum_list (map (\<lambda>(i, p). weight a p) (AList.update i p (mp_byID r))) = held_out r a + weight a p"
  using assms by (simp add: update_new held_out_def)

lemma held_out_update:
  assumes "wf_map m" and "map_of m i = Some p"
  shows "sum_list (map (\<lambda>(i, p). weight a p) (AList.update i p' m)) =
    sum_list (map (\<lambda>(i, p). weight a p) m) + weight a p' - weight a p"
  using assms by (induction m) auto

subsection \<open>Steps\<close>

text \<open>Everything that happens to payouts, and what else happens to the ledger: posts of the other
  modules, whose kinds are their own and whose keys are not reversal keys, and reversals. A request
  uses a key the ledger has not seen.\<close>

datatype creator_call =
    CallRequest string int string
  | CallApprove string string string
  | CallReject string string string
  | CallProcessing string string
  | CallPaid string string string
  | CallFailed string string string
  | CallSubmitKYC string string string
  | CallApproveKYC string
  | CallSetProfile string payout_method string string string
  | OtherPost string string metadata "entry list"
  | OtherReverse string string string
  | OtherAuth auth_world

definition creator_do :: "creator_world \<Rightarrow> time \<Rightarrow> creator_call \<Rightarrow> creator_world" where
  "creator_do w now c =
     (case c of
        CallRequest a n key \<Rightarrow> snd (RequestPayout w now a n key)
      | CallApprove adm i note \<Rightarrow> snd (AdminApprovePayout w now adm i note)
      | CallReject adm i reason \<Rightarrow> snd (AdminRejectPayout w now adm i reason)
      | CallProcessing adm i \<Rightarrow> snd (AdminMarkProcessing w now adm i)
      | CallPaid adm i reference \<Rightarrow> snd (AdminMarkPaid w now adm i reference)
      | CallFailed adm i reason \<Rightarrow> snd (AdminMarkFailed w now adm i reason)
      | CallSubmitKYC a n cn \<Rightarrow> snd (SubmitKYC w now a n cn)
      | CallApproveKYC a \<Rightarrow> snd (DevApproveKYC w now a)
      | CallSetProfile a m cn n d \<Rightarrow> snd (SetPayoutProfile w now a m cn n d)
      | OtherPost kind key md es \<Rightarrow> w\<lparr>cw_ledger := snd (PostTransaction (cw_ledger w) now kind key md es)\<rparr>
      | OtherReverse i key reason \<Rightarrow> w\<lparr>cw_ledger := snd (ReverseTransaction (cw_ledger w) now i key reason)\<rparr>
      | OtherAuth v \<Rightarrow> w\<lparr>cw_auth := v\<rparr>)"

definition reserved_key :: "string \<Rightarrow> bool" where
  "reserved_key key \<longleftrightarrow> HasPrefix key ''payout-reversal:''"

definition allowed_call :: "creator_world \<Rightarrow> creator_call \<Rightarrow> bool" where
  "allowed_call w c \<longleftrightarrow>
     (case c of
        CallRequest a n key \<Rightarrow> tx_by_key (cw_ledger w) key = None \<and> \<not> reserved_key key
      | OtherPost kind key md es \<Rightarrow> kind \<noteq> ''payout'' \<and> kind \<noteq> ''payout_reversal'' \<and> \<not> reserved_key key
      | OtherReverse i key reason \<Rightarrow> \<not> reserved_key key
      | _ \<Rightarrow> True)"

primrec creator_run :: "creator_world \<Rightarrow> (time \<times> creator_call) list \<Rightarrow> creator_world" where
  "creator_run w [] = w"
| "creator_run w (c # cs) = creator_run (creator_do w (fst c) (snd c)) cs"

primrec creator_run_ok :: "creator_world \<Rightarrow> (time \<times> creator_call) list \<Rightarrow> bool" where
  "creator_run_ok w [] = True"
| "creator_run_ok w (c # cs) \<longleftrightarrow> allowed_call w (snd c) \<and> creator_run_ok (creator_do w (fst c) (snd c)) cs"

text \<open>A world in which nobody has asked for a payout yet.\<close>

definition creator_start :: "creator_world \<Rightarrow> bool" where
  "creator_start w \<longleftrightarrow> ledger_inv (cw_ledger w) \<and> cw_payouts w = NewMemPayoutRepo \<and>
     list_all (\<lambda>t. \<not> payout_kind t) (journal (cw_ledger w)) \<and>
     list_all (\<lambda>(k, t). \<not> reserved_key k) (ml_byKey (cw_ledger w))"


subsection \<open>The steps keep the invariant\<close>

definition closed :: "payout \<Rightarrow> bool" where
  "closed p \<longleftrightarrow> po_Status p \<in> {PayoutRejected, PayoutFailed}"

lemma creator_inv_update:
  assumes inv: "creator_inv w" and p: "map_of (mp_byID (cw_payouts w)) i = Some p"
    and p': "payout_ok p'" "po_ID p' = i" and live: "\<not> closed p"
    and l: "ledger_inv l" "\<And>j. tx_by_key l (reversal_key j) \<noteq> None \<Longrightarrow>
        tx_by_key (cw_ledger w) (reversal_key j) \<noteq> None \<or> j = i \<and> closed p'"
    and k: "\<And>a. payouts_at_key (UserDiamondsAccount a, Diamond) l =
        payouts_at_key (UserDiamondsAccount a, Diamond) (cw_ledger w) + weight a p - weight a p'"
  shows "creator_inv (w\<lparr>cw_payouts := (cw_payouts w)\<lparr>mp_byID := AList.update i p' (mp_byID (cw_payouts w))\<rparr>, cw_ledger := l\<rparr>)"
proof -
  let ?m = "mp_byID (cw_payouts w)" and ?m' = "AList.update i p' (mp_byID (cw_payouts w))"
  have m: "wf_map ?m" using inv by (simp add: creator_inv_def)
  have "(\<exists>p. map_of ?m' j = Some p \<and> po_Status p \<in> {PayoutRejected, PayoutFailed})"
    if t: "tx_by_key l (reversal_key j) \<noteq> None" for j
  proof (cases "j = i \<and> closed p'")
    case True
    then show ?thesis by (simp add: closed_def)
  next
    case False
    then obtain q where "map_of ?m j = Some q" "po_Status q \<in> {PayoutRejected, PayoutFailed}"
      using l(2) [OF t] inv unfolding creator_inv_def by blast
    then show ?thesis using p live by (auto simp: closed_def)
  qed
  moreover have "held_out ((cw_payouts w)\<lparr>mp_byID := ?m'\<rparr>) a = held_out (cw_payouts w) a + weight a p' - weight a p" for a
    using held_out_update [OF m p, of a p'] by (simp add: held_out_def)
  moreover have "\<exists>n. n \<le> mp_seq (cw_payouts w) \<and> i = ''payout-'' @ dec04 n" using inv p by (auto simp: creator_inv_def)
  ultimately show ?thesis using inv p' l(1) k m by (simp add: creator_inv_def)
qed

lemma creator_inv_transition:
  assumes inv: "creator_inv w" and r: "transitionPayout w now i froms mutate = (res, w')"
    and froms: "set froms \<subseteq> {PayoutRequested, PayoutApproved, PayoutProcessing}"
    and m: "\<And>p. po_ID (mutate p) = po_ID p \<and> po_AccountID (mutate p) = po_AccountID p \<and>
      po_AmountDiamonds (mutate p) = po_AmountDiamonds p \<and> po_ReversalTransactionID (mutate p) = po_ReversalTransactionID p \<and>
      po_Status (mutate p) \<in> {PayoutApproved, PayoutProcessing, PayoutPaid}"
  shows "creator_inv w'"
proof (cases "map_of (mp_byID (cw_payouts w)) i")
  case None
  then show ?thesis using r inv by (simp add: transitionPayout_def PayoutGet_def)
next
  case (Some p)
  show ?thesis
  proof (cases "statusIn (po_Status p) froms")
    case False
    then show ?thesis using r inv Some by (simp add: transitionPayout_def PayoutGet_def)
  next
    case True
    let ?p1 = "mutate p"
    let ?p2 = "(if po_ReviewedAt ?p1 = None then ?p1\<lparr>po_ReviewedAt := Some now\<rparr> else ?p1)\<lparr>po_UpdatedAt := now\<rparr>"
    have live: "po_Status p \<in> {PayoutRequested, PayoutApproved, PayoutProcessing}"
      using True froms by (auto simp: statusIn_def list_ex_iff)
    have ok: "payout_ok p" "po_ID p = i" using inv Some by (auto simp: creator_inv_def)
    have w': "w' = w\<lparr>cw_payouts := (cw_payouts w)\<lparr>mp_byID := AList.update i ?p2 (mp_byID (cw_payouts w))\<rparr>,
        cw_ledger := cw_ledger w\<rparr>"
      using r Some True by (auto simp: transitionPayout_def PayoutGet_def PayoutUpdate_def guarded_def Let_def)
    have f: "po_ID ?p2 = po_ID p" "po_AccountID ?p2 = po_AccountID p" "po_AmountDiamonds ?p2 = po_AmountDiamonds p"
      "po_ReversalTransactionID ?p2 = po_ReversalTransactionID p" "po_Status ?p2 = po_Status ?p1"
      using m [of p] by simp_all
    have ok2: "payout_ok ?p2"
      using ok live m [of p] unfolding payout_ok_def f by (auto simp: payout_status_defs)
    have nc: "\<not> closed p" using live by (auto simp: closed_def payout_status_defs)
    have wt: "weight a ?p2 = weight a p" for a
      using live m [of p] unfolding weight_def f by (auto simp: payout_status_defs)
    show ?thesis unfolding w'
      by (rule creator_inv_update [OF inv Some ok2 _ nc]) (use f ok wt inv in \<open>auto simp: creator_inv_def\<close>)
  qed
qed

lemma entries_at_payout:
  assumes "0 < n" and "n < 2 ^ 63"
  shows "entries_at (UserDiamondsAccount b, Diamond) (payout_entries a n) = (if b = a then - n else 0)"
    "entries_at (UserDiamondsAccount b, Diamond) (payout_reversal_entries a n) = (if b = a then n else 0)"
proof -
  have "neg64 n = - n" using assms by (intro neg64_id) (simp add: in_i64_def)
  moreover have "PlatformDiamondLiabilityAccount \<noteq> UserDiamondsAccount b"
    using user_diamonds_not_liability by metis
  ultimately show "entries_at (UserDiamondsAccount b, Diamond) (payout_entries a n) = (if b = a then - n else 0)"
    "entries_at (UserDiamondsAccount b, Diamond) (payout_reversal_entries a n) = (if b = a then n else 0)"
    by (auto simp: payout_entries_def payout_reversal_entries_def entry_key_def)
qed


lemma reversal_key_simps [simp]:
  "reserved_key (reversal_key i)" "reversal_key i = reversal_key j \<longleftrightarrow> i = j"
  by (simp_all add: reserved_key_def reversal_key_def)

lemma creator_inv_reverse:
  assumes inv: "creator_inv w" and r: "rejectOrFail w now adm i reason final froms = (res, w')"
    and froms: "set froms \<subseteq> {PayoutRequested, PayoutApproved, PayoutProcessing}"
    and final: "final \<in> {PayoutRejected, PayoutFailed}"
  shows "creator_inv w'"
proof (cases "map_of (mp_byID (cw_payouts w)) i")
  case None
  then show ?thesis using r inv by (simp add: rejectOrFail_def PayoutUpdate_def)
next
  case (Some p)
  let ?l = "cw_ledger w" and ?es = "payout_reversal_entries (po_AccountID p) (po_AmountDiamonds p)"
  show ?thesis
  proof (cases "statusIn (po_Status p) froms")
    case False
    then show ?thesis using r inv Some by (simp add: rejectOrFail_def PayoutUpdate_def reverse_and_close_def)
  next
    case True
    have live: "po_Status p \<in> {PayoutRequested, PayoutApproved, PayoutProcessing}"
      using True froms by (auto simp: statusIn_def list_ex_iff)
    have nc: "\<not> closed p" using live by (auto simp: closed_def payout_status_defs)
    have ok: "payout_ok p" "po_ID p = i" and inl: "ledger_inv ?l" using inv Some by (auto simp: creator_inv_def)
    have fresh: "tx_by_key ?l (reversal_key i) = None"
      using inv Some nc unfolding creator_inv_def closed_def by (metis option.inject)
    obtain q l' where q: "PostTransaction ?l now ''payout_reversal'' (reversal_key i)
        [(''account_id'', AnyString (po_AccountID p))] ?es = (q, l')" by fastforce
    show ?thesis
      using inl q
    proof (cases rule: post_effect)
      case same
      then show ?thesis using r inv Some True fresh q
        by (auto simp: rejectOrFail_def PayoutUpdate_def reverse_and_close_def reversePayout_def reversal_key_def)
    next
      case (new t)
      let ?p = "p\<lparr>po_Status := final, po_ReviewedBy := adm, po_AdminNote := reason, po_FailureReason := reason,
        po_ReversalTransactionID := tx_ID t, po_ReviewedAt := Some now, po_UpdatedAt := now\<rparr>"
      have w': "w' = w\<lparr>cw_payouts := (cw_payouts w)\<lparr>mp_byID := AList.update i ?p (mp_byID (cw_payouts w))\<rparr>, cw_ledger := l'\<rparr>"
        using r Some True q new(1)
        by (auto simp: rejectOrFail_def PayoutUpdate_def reverse_and_close_def reversePayout_def reversal_key_def)
      have ok2: "payout_ok ?p" using ok final new(5) by (auto simp: payout_ok_def)
      have amt: "0 < po_AmountDiamonds p" "po_AmountDiamonds p < 2 ^ 63" using ok by (simp_all add: payout_ok_def)
      have wt: "weight a p = (if po_AccountID p = a then po_AmountDiamonds p else 0)" "weight a ?p = 0" for a
        using live final by (auto simp: weight_def payout_status_defs)
      show ?thesis unfolding w'
      proof (rule creator_inv_update [OF inv Some ok2 _ nc new(3)])
        show "payouts_at_key (UserDiamondsAccount a, Diamond) l' =
            payouts_at_key (UserDiamondsAccount a, Diamond) ?l + weight a p - weight a ?p" for a
          using new(6) [of "(UserDiamondsAccount a, Diamond)"] entries_at_payout(2) [OF amt, of a "po_AccountID p"] wt
          by simp
      qed (use ok final new(4) in \<open>auto simp: closed_def split: if_splits\<close>)
    qed
  qed
qed

lemma creator_inv_add:
  assumes inv: "creator_inv w" and p: "payout_ok p" "po_ID p = i" "i = ''payout-'' @ dec04 (Suc (mp_seq (cw_payouts w)))"
    and l: "ledger_inv l" "\<And>j. tx_by_key l (reversal_key j) = tx_by_key (cw_ledger w) (reversal_key j)"
    and k: "\<And>a. payouts_at_key (UserDiamondsAccount a, Diamond) l =
        payouts_at_key (UserDiamondsAccount a, Diamond) (cw_ledger w) - weight a p"
  shows "creator_inv (w\<lparr>cw_ledger := l, cw_payouts := (cw_payouts w)\<lparr>mp_seq := Suc (mp_seq (cw_payouts w)),
    mp_byID := AList.update i p (mp_byID (cw_payouts w)), mp_byAcct := ids\<rparr>\<rparr>)"
proof -
  let ?r = "cw_payouts w"
  have old: "payout_ok q \<and> po_ID q = j \<and> (\<exists>m. m \<le> mp_seq ?r \<and> j = ''payout-'' @ dec04 m)"
    if "map_of (mp_byID ?r) j = Some q" for j q
    using inv that unfolding creator_inv_def by blast
  have none: "map_of (mp_byID ?r) i = None"
  proof (cases "map_of (mp_byID ?r) i")
    case (Some q)
    then obtain m where "m \<le> mp_seq ?r" "i = ''payout-'' @ dec04 m" using old by blast
    then show ?thesis using p(3) by simp
  qed simp
  have "payout_ok q \<and> po_ID q = j \<and> (\<exists>m. m \<le> Suc (mp_seq ?r) \<and> j = ''payout-'' @ dec04 m)"
    if q: "((map_of (mp_byID ?r))(i \<mapsto> p)) j = Some q" for j q
  proof (cases "j = i")
    case False
    then show ?thesis using old [of j q] q by (auto intro: le_SucI)
  qed (use p q in auto)
  moreover have "\<exists>q. ((map_of (mp_byID ?r))(i \<mapsto> p)) j = Some q \<and> po_Status q \<in> {PayoutRejected, PayoutFailed}"
    if key: "tx_by_key (cw_ledger w) (reversal_key j) \<noteq> None" for j
  proof -
    obtain q where "map_of (mp_byID ?r) j = Some q" "po_Status q \<in> {PayoutRejected, PayoutFailed}"
      using inv key unfolding creator_inv_def by blast
    then show ?thesis using none by (intro exI [of _ q]) auto
  qed
  moreover have "held_out (?r\<lparr>mp_seq := Suc (mp_seq ?r), mp_byID := AList.update i p (mp_byID ?r), mp_byAcct := ids\<rparr>) a =
      held_out ?r a + weight a p" for a
    using held_out_new [OF none, of a p] by (simp add: held_out_def)
  moreover have "wf_map (mp_byID ?r)" "\<And>a. payouts_at_key (UserDiamondsAccount a, Diamond) (cw_ledger w) = - held_out ?r a"
    using inv by (simp_all add: creator_inv_def)
  ultimately show ?thesis using l k unfolding creator_inv_def by simp
qed

text \<open>An accepted request has passed every gate, and has posted or met a transaction under its key.\<close>

lemma RequestPayout_accepted:
  assumes "RequestPayout w now a n key = (Inr p, w')"
  obtains s inFlight txID l r where "GetEarningsSummary (\<lambda>xs. xs) (cw_ledger w) now a = Inr s"
    "PendingOrProcessingTotal (cw_payouts w) a = Some inFlight" "0 < n" "n \<le> sub64 (es_Available s) inFlight"
    "postPayout (cw_ledger w) now a n key = (Inr txID, l)"
    "PayoutCreate (cw_payouts w) (new_payout a n txID now) = (p, r)" "w' = w\<lparr>cw_ledger := l, cw_payouts := r\<rparr>"
  using assms
  by (auto simp: RequestPayout_def Let_def not_le not_less split: if_splits sum.splits option.splits prod.splits)

lemma creator_inv_request:
  assumes inv: "creator_inv w" and r: "RequestPayout w now a n key = (res, w')"
    and fresh: "tx_by_key (cw_ledger w) key = None" "\<not> reserved_key key"
  shows "creator_inv w'"
proof (cases res)
  case (Inl err)
  have "snd (postPayout (cw_ledger w) now a n key) = cw_ledger w" if "fst (postPayout (cw_ledger w) now a n key) = Inl e" for e
    using that by (cases rule: postLocked_cases [of "cw_ledger w" key now "''payout''" "[(''account_id'', AnyString a)]" "payout_entries a n"])
      (simp_all add: postPayout_def PostTransaction_def)
  then have "w' = w" using r Inl
    by (auto simp: RequestPayout_def Let_def split: if_splits sum.splits option.splits prod.splits)
  then show ?thesis using inv by simp
next
  case (Inr p)
  obtain s inFlight txID l r where "GetEarningsSummary (\<lambda>xs. xs) (cw_ledger w) now a = Inr s"
    "PendingOrProcessingTotal (cw_payouts w) a = Some inFlight" and n: "0 < n" "n \<le> sub64 (es_Available s) inFlight"
    and post: "postPayout (cw_ledger w) now a n key = (Inr txID, l)"
    and res: "PayoutCreate (cw_payouts w) (new_payout a n txID now) = (p, r)" "w' = w\<lparr>cw_ledger := l, cw_payouts := r\<rparr>"
    using r unfolding Inr by (rule RequestPayout_accepted)
  have amt: "n < 2 ^ 63"
  proof -
    have "in_i64 (sub64 (es_Available s) inFlight)" by simp
    then show ?thesis using n by (auto simp: in_i64_def split: if_splits)
  qed
  obtain q l' where q: "PostTransaction (cw_ledger w) now ''payout'' key [(''account_id'', AnyString a)] (payout_entries a n) = (q, l')"
    by fastforce
  have inl: "ledger_inv (cw_ledger w)" using inv by (simp add: creator_inv_def)
  show ?thesis
    using inl q
  proof (cases rule: post_effect)
    case same
    then show ?thesis using post q fresh by (auto simp: postPayout_def)
  next
    case (new t)
    let ?r = "cw_payouts w"
    let ?i = "''payout-'' @ dec04 (Suc (mp_seq ?r))"
    let ?p = "(new_payout a n (tx_ID t) now)\<lparr>po_ID := ?i\<rparr>"
    have t: "txID = tx_ID t" "l = l'" using post q new(1) by (auto simp: postPayout_def)
    have "r = snd (PayoutCreate (cw_payouts w) (new_payout a n (tx_ID t) now))" using res(1) unfolding t(1) by simp
    then have w': "w' = w\<lparr>cw_ledger := l', cw_payouts := ?r\<lparr>mp_seq := Suc (mp_seq ?r), mp_byID := AList.update ?i ?p (mp_byID ?r),
        mp_byAcct := AList.update a (payout_ids_of ?r a @ [?i]) (mp_byAcct ?r)\<rparr>\<rparr>"
      unfolding res(2) t(2) by (simp add: PayoutCreate_def Let_def new_payout_def)
    have ok: "payout_ok ?p" using n amt by (simp add: payout_ok_def new_payout_def payout_status_defs)
    have wt: "weight b ?p = (if b = a then n else 0)" for b
      by (simp add: weight_def new_payout_def payout_status_defs)
    show ?thesis unfolding w'
    proof (rule creator_inv_add [OF inv ok _ refl new(3)])
      show "payouts_at_key (UserDiamondsAccount b, Diamond) l' =
          payouts_at_key (UserDiamondsAccount b, Diamond) (cw_ledger w) - weight b ?p" for b
        using new(6) [of "(UserDiamondsAccount b, Diamond)"] entries_at_payout(1) [OF n(1) amt, of b a] wt by simp
    qed (use new(4) fresh(2) in auto)
  qed
qed

lemma creator_inv_cong:
  "creator_inv w \<Longrightarrow> cw_payouts w' = cw_payouts w \<Longrightarrow> cw_ledger w' = cw_ledger w \<Longrightarrow> creator_inv w'"
  by (simp add: creator_inv_def)

lemma creator_inv_ledger:
  assumes "creator_inv w" and "ledger_inv l" and "\<And>k. payouts_at_key k l = payouts_at_key k (cw_ledger w)"
    and "tx_by_key l = tx_by_key (cw_ledger w) \<or> (\<exists>t. tx_by_key l = (tx_by_key (cw_ledger w))(key \<mapsto> t))" and "\<not> reserved_key key"
  shows "creator_inv (w\<lparr>cw_ledger := l\<rparr>)"
proof -
  have "tx_by_key l (reversal_key j) = tx_by_key (cw_ledger w) (reversal_key j)" for j using assms(4,5) by auto
  then show ?thesis using assms(1-3) by (simp add: creator_inv_def)
qed

lemma creator_inv_do:
  assumes inv: "creator_inv w" and ok: "allowed_call w c"
  shows "creator_inv (creator_do w now c)"
proof (cases c)
  case (CallRequest a n key)
  then show ?thesis
    using creator_inv_request [OF inv, of now a n key "fst (RequestPayout w now a n key)" "snd (RequestPayout w now a n key)"] ok
    by (simp add: creator_do_def allowed_call_def)
next
  case (CallApprove adm i cmt)
  then show ?thesis
    using creator_inv_transition [OF inv surjective_pairing, where now = now and i = i and froms = "[PayoutRequested]" and
        mutate = "\<lambda>p. p\<lparr>po_Status := PayoutApproved, po_ReviewedBy := adm, po_AdminNote := cmt\<rparr>"]
    by (simp add: creator_do_def AdminApprovePayout_def)
next
  case (CallReject adm i reason)
  then show ?thesis
    using creator_inv_reverse [OF inv surjective_pairing, where now = now and adm = adm and i = i and
        reason = reason and final = PayoutRejected and froms = "[PayoutRequested, PayoutApproved]"]
    by (simp add: creator_do_def AdminRejectPayout_def)
next
  case (CallProcessing adm i)
  then show ?thesis
    using creator_inv_transition [OF inv surjective_pairing, where now = now and i = i and froms = "[PayoutApproved]" and
        mutate = "\<lambda>p. p\<lparr>po_Status := PayoutProcessing, po_ReviewedBy := adm\<rparr>"]
    by (simp add: creator_do_def AdminMarkProcessing_def)
next
  case (CallPaid adm i rf)
  then show ?thesis
    using creator_inv_transition [OF inv surjective_pairing, where now = now and i = i and froms = "[PayoutProcessing]" and
        mutate = "\<lambda>p. p\<lparr>po_Status := PayoutPaid, po_ReviewedBy := adm, po_PayoutReference := rf, po_PaidAt := Some now\<rparr>"] inv
    by (simp add: creator_do_def AdminMarkPaid_def)
next
  case (CallFailed adm i reason)
  then show ?thesis
    using creator_inv_reverse [OF inv surjective_pairing, where now = now and adm = adm and i = i and
        reason = reason and final = PayoutFailed and froms = "[PayoutProcessing]"]
    by (simp add: creator_do_def AdminMarkFailed_def)
next
  case (CallSubmitKYC a n cn)
  then show ?thesis
    by (intro creator_inv_cong [OF inv]) (simp_all add: creator_do_def SubmitKYC_def KYCSubmit_def Let_def)
next
  case (CallApproveKYC a)
  then show ?thesis
    by (intro creator_inv_cong [OF inv]) (simp_all add: creator_do_def DevApproveKYC_def KYCDecide_def Let_def)
next
  case (CallSetProfile a m cn n d)
  then show ?thesis
    by (intro creator_inv_cong [OF inv])
      (simp_all add: creator_do_def SetPayoutProfile_def ProfileSet_def Let_def split: option.splits)
next
  case (OtherPost kind key md es)
  obtain r l' where q: "PostTransaction (cw_ledger w) now kind key md es = (r, l')" by fastforce
  have inl: "ledger_inv (cw_ledger w)" using inv by (simp add: creator_inv_def)
  show ?thesis
    using inl q
  proof (cases rule: post_effect)
    case same
    then show ?thesis using OtherPost inv q by (simp add: creator_do_def)
  next
    case (new t)
    then show ?thesis
      using OtherPost q ok creator_inv_ledger [OF inv new(3), of key] by (auto simp: creator_do_def allowed_call_def)
  qed
next
  case (OtherReverse i key reason)
  obtain r l' where q: "ReverseTransaction (cw_ledger w) now i key reason = (r, l')" by fastforce
  have inl: "ledger_inv (cw_ledger w)" using inv by (simp add: creator_inv_def)
  then show ?thesis
    using OtherReverse q ok creator_inv_ledger [OF inv, of l' key] reverse_effect [OF inl q]
    by (simp add: creator_do_def allowed_call_def)
next
  case (OtherAuth v)
  then show ?thesis by (intro creator_inv_cong [OF inv]) (simp_all add: creator_do_def)
qed

lemma creator_inv_start: "creator_start w \<Longrightarrow> creator_inv w"
proof -
  assume s: "creator_start w"
  have f: "filter payout_kind (journal (cw_ledger w)) = []"
    using s by (simp add: creator_start_def list_all_iff filter_empty_conv)
  have "tx_by_key (cw_ledger w) (reversal_key i) = None" for i
    using s map_of_SomeD [of "ml_byKey (cw_ledger w)" "reversal_key i"]
    by (cases "tx_by_key (cw_ledger w) (reversal_key i)") (auto simp: creator_start_def list_all_iff tx_by_key_def)
  then show ?thesis
    using s f by (simp add: creator_inv_def creator_start_def NewMemPayoutRepo_def held_out_def payouts_at_key_def
        journal_entries_def wf_map_def)
qed

lemma creator_inv_run: "creator_inv w \<Longrightarrow> creator_run_ok w cs \<Longrightarrow> creator_inv (creator_run w cs)"
  by (induction cs arbitrary: w) (simp_all add: creator_inv_do)

text \<open>C2: with idempotency keys the ledger has not seen, payouts neither create nor destroy diamonds.
  After any sequence of requests and admin decisions, in between the posts and reversals of all other
  modules, a creator's balance is what those others made it, less the payouts that were not rejected or
  failed; every payout is in a state of the machine and has a reversal exactly when it was rejected or failed.\<close>

theorem payouts_conserve:
  assumes "creator_start w" and "creator_run_ok w cs" and "creator_run w cs = w'"
  shows "bal (cw_ledger w') (UserDiamondsAccount a, Diamond) =
      wrap64 (others_at_key (UserDiamondsAccount a, Diamond) (cw_ledger w') - held_out (cw_payouts w') a) \<and>
    (\<forall>i p. map_of (mp_byID (cw_payouts w')) i = Some p \<longrightarrow> payout_ok p)"
proof -
  have "creator_inv w'" using creator_inv_run [OF creator_inv_start] assms by blast
  then show ?thesis
    using bal_split [of "cw_ledger w'" "(UserDiamondsAccount a, Diamond)"] by (simp add: creator_inv_def)
qed


definition demo_creator :: creator_world where
  "demo_creator = \<lparr>cw_kyc = [], cw_payouts = NewMemPayoutRepo, cw_profiles = [],
     cw_ledger = snd (PostTransaction NewMemLedger 0 ''gift'' ''g1'' [] (payout_reversal_entries ''acc-0001'' 50000)),
     cw_auth = demo_world\<rparr>"

definition demo_payouts :: "(time \<times> creator_call) list" where
  "demo_payouts =
    [(1, CallSubmitKYC ''acc-0001'' ''A'' ''PK''), (2, CallApproveKYC ''acc-0001''),
     (3, CallSetProfile ''acc-0001'' PayoutMethodBankTransfer ''PK'' ''A'' ''123''),
     (15 * 24 * hour, CallRequest ''acc-0001'' 12000 ''k1''),
     (15 * 24 * hour, CallRequest ''acc-0001'' 11000 ''k2''),
     (16 * 24 * hour, CallReject ''adm'' ''payout-0001'' ''no''),
     (16 * 24 * hour, CallApprove ''adm'' ''payout-0002'' ''ok'')]"

lemma demo_creator_start: "creator_start demo_creator"
proof -
  have "ledger_inv (cw_ledger demo_creator)"
    by (simp add: demo_creator_def PostTransaction_def ledger_inv_postLocked ledger_inv_new)
  moreover have "cw_payouts demo_creator = NewMemPayoutRepo" by (simp add: demo_creator_def)
  moreover have "list_all (\<lambda>t. \<not> payout_kind t) (journal (cw_ledger demo_creator)) \<and>
      list_all (\<lambda>(k, t). \<not> reserved_key k) (ml_byKey (cw_ledger demo_creator))" by code_simp
  ultimately show ?thesis by (simp add: creator_start_def)
qed

lemma payouts_conserve_witness:
  "bal (cw_ledger (creator_run demo_creator demo_payouts)) (UserDiamondsAccount ''acc-0001'', Diamond) = 39000 \<and>
   map (\<lambda>(i, p). po_Status p) (mp_byID (cw_payouts (creator_run demo_creator demo_payouts))) = [PayoutRejected, PayoutApproved]"
proof -
  let ?w = "creator_run demo_creator demo_payouts"
  have ok: "creator_run_ok demo_creator demo_payouts" by code_simp
  have e: "others_at_key (UserDiamondsAccount ''acc-0001'', Diamond) (cw_ledger ?w) = 50000 \<and>
      held_out (cw_payouts ?w) ''acc-0001'' = 11000 \<and>
      map (\<lambda>(i, p). po_Status p) (mp_byID (cw_payouts ?w)) = [PayoutRejected, PayoutApproved]"
    by code_simp
  have w: "wrap64 39000 = 39000" by (simp add: wrap64_def)
  show ?thesis
    using payouts_conserve [OF demo_creator_start ok refl, of "''acc-0001''"] e w by simp
qed


section \<open>Reusing a key\<close>

lemma reversal_posts:
  assumes "ledger_inv l" and "tx_by_key l key = None" and "0 < n" and "bal l (UserDiamondsAccount a, Diamond) + n < 2 ^ 63"
  shows "\<exists>i l'. reversePayout l now a n key = (Inr i, l') \<and>
    bal l' (UserDiamondsAccount a, Diamond) = bal l (UserDiamondsAccount a, Diamond) + n"
proof -
  let ?es = "payout_reversal_entries a n" and ?k = "(UserDiamondsAccount a, Diamond)"
  have b: "0 \<le> bal l ?k" using assms(1) by (simp add: ledger_inv_def balances_ok_def)
  then have n: "n < 2 ^ 63" using assms by simp
  have neg: "neg64 n = - n" using assms(3) n by (intro neg64_id) (simp add: in_i64_def)
  have add: "add64 (bal l ?k) n = bal l ?k + n" using b assms(3,4) by (intro add64_id) (simp add: in_i64_def)
  have "balanced ?es" by (simp add: balanced_iff payout_reversal_entries_def neg)
  moreover have "distinct (map entry_key ?es)" by (simp add: payout_reversal_entries_def entry_key_def)
  moreover have "affordable (bal l) ?es" using b assms(3) by (simp add: affordable_def payout_reversal_entries_def entry_key_def add)
  moreover have "?es \<noteq> []" by (simp add: payout_reversal_entries_def)
  ultimately obtain t l' where p: "repo_PostTransaction mem_ledger_repo l now ''payout_reversal'' key
      [(''account_id'', AnyString a)] ?es = (Inr (t, True), l')"
    using mem.affordable_law [OF assms(1,2)] by blast
  then have "bal l' ?k = bal l ?k + n"
    using mem.new_law [OF assms(1,2) p] entries_at_payout(2) [OF assms(3) n, of a a] add by simp
  then show ?thesis using p by (simp add: reversePayout_def mem_ledger_repo_def)
qed

text \<open>A payout can be requested under a key that the ledger already knows - of an earlier payout, a gift, an
  order. Nothing is debited, the payout is booked all the same with that transaction as its own, and
  rejecting it pays the requested diamonds out of nothing.\<close>

theorem payout_mints:
  assumes "ledger_inv (cw_ledger w)" and "tx_by_key (cw_ledger w) key = Some t"
    and "RequestPayout w now a n key = (Inr p, w')"
    and "tx_by_key (cw_ledger w) (''payout-reversal:'' @ po_ID p) = None"
    and "bal (cw_ledger w) (UserDiamondsAccount a, Diamond) + n < 2 ^ 63"
  shows "cw_ledger w' = cw_ledger w \<and> po_TransactionID p = tx_ID t \<and> po_AmountDiamonds p = n \<and>
    (\<exists>q w''. AdminRejectPayout w' later adm (po_ID p) reason = (Inr q, w'') \<and> po_Status q = PayoutRejected \<and>
       bal (cw_ledger w'') (UserDiamondsAccount a, Diamond) = bal (cw_ledger w) (UserDiamondsAccount a, Diamond) + n)"
proof -
  let ?i = "''payout-'' @ dec04 (Suc (mp_seq (cw_payouts w)))"
  obtain s inFlight txID l r where "GetEarningsSummary (\<lambda>xs. xs) (cw_ledger w) now a = Inr s"
    "PendingOrProcessingTotal (cw_payouts w) a = Some inFlight" and n: "0 < n" "n \<le> sub64 (es_Available s) inFlight"
    and post: "postPayout (cw_ledger w) now a n key = (Inr txID, l)"
    and res: "PayoutCreate (cw_payouts w) (new_payout a n txID now) = (p, r)" "w' = w\<lparr>cw_ledger := l, cw_payouts := r\<rparr>"
    using assms(3) by (rule RequestPayout_accepted)
  have l: "l = cw_ledger w" "txID = tx_ID t"
    using post assms(2) by (auto simp: postPayout_def PostTransaction_def postLocked_def tx_by_key_def)
  have p: "p = (new_payout a n (tx_ID t) now)\<lparr>po_ID := ?i\<rparr>" and r: "map_of (mp_byID r) ?i = Some p"
    using res(1) l by (auto simp: PayoutCreate_def Let_def)
  have f: "po_ID p = ?i" "po_AccountID p = a" "po_AmountDiamonds p = n" "po_Status p = PayoutRequested" "po_TransactionID p = tx_ID t"
    by (simp_all add: p new_payout_def)
  obtain i l' where rev: "reversePayout (cw_ledger w) later a n (''payout-reversal:'' @ ?i) = (Inr i, l')"
    and b: "bal l' (UserDiamondsAccount a, Diamond) = bal (cw_ledger w) (UserDiamondsAccount a, Diamond) + n"
    using reversal_posts [OF assms(1) _ n(1) assms(5)] assms(4) f(1) by metis
  have "\<exists>q w''. AdminRejectPayout w' later adm ?i reason = (Inr q, w'') \<and> po_Status q = PayoutRejected \<and> cw_ledger w'' = l'"
    using r rev f by (simp add: AdminRejectPayout_def rejectOrFail_def PayoutUpdate_def reverse_and_close_def res(2) l
        statusIn_def PayoutGet_def)
  then show ?thesis using b f l res(2) by auto
qed

text \<open>The second payout is requested with the key of the first.\<close>

definition demo_verified :: creator_world where
  "demo_verified = creator_run demo_creator
    [(1, CallSubmitKYC ''acc-0001'' ''A'' ''PK''), (2, CallApproveKYC ''acc-0001''),
     (3, CallSetProfile ''acc-0001'' PayoutMethodBankTransfer ''PK'' ''A'' ''123''),
     (15 * 24 * hour, CallRequest ''acc-0001'' 10000 ''k1'')]"

lemma payout_mints_witness:
  "\<exists>p w' q w''. RequestPayout demo_verified (15 * 24 * hour) ''acc-0001'' 20000 ''k1'' = (Inr p, w') \<and>
     AdminRejectPayout w' (16 * 24 * hour) ''adm'' (po_ID p) ''no'' = (Inr q, w'') \<and>
     bal (cw_ledger demo_verified) (UserDiamondsAccount ''acc-0001'', Diamond) = 40000 \<and>
     bal (cw_ledger w'') (UserDiamondsAccount ''acc-0001'', Diamond) = 60000"
proof -
  let ?r = "RequestPayout demo_verified (15 * 24 * hour) ''acc-0001'' 20000 ''k1''"
  have "creator_inv demo_verified"
    unfolding demo_verified_def by (rule creator_inv_run [OF creator_inv_start [OF demo_creator_start]]) code_simp
  then have inv: "ledger_inv (cw_ledger demo_verified)" by (simp add: creator_inv_def)
  have e: "(case fst ?r of Inl err \<Rightarrow> False | Inr p \<Rightarrow> tx_by_key (cw_ledger demo_verified) (''payout-reversal:'' @ po_ID p) = None) \<and>
      tx_by_key (cw_ledger demo_verified) ''k1'' \<noteq> None \<and>
      bal (cw_ledger demo_verified) (UserDiamondsAccount ''acc-0001'', Diamond) = 40000"
    by code_simp
  then obtain p w' t where "?r = (Inr p, w')" "tx_by_key (cw_ledger demo_verified) (''payout-reversal:'' @ po_ID p) = None"
    "tx_by_key (cw_ledger demo_verified) ''k1'' = Some t"
    by (cases ?r) (auto split: sum.splits)
  then show ?thesis
    using payout_mints [OF inv, of "''k1''" t "15 * 24 * hour" "''acc-0001''" 20000 p w' "16 * 24 * hour" "''adm''" "''no''"] e
    by auto
qed

end
