(* ===== verification/Feed.thy ===== *)
theory Feed
  imports Complex_Main "HOL-Library.Sublist" GoText Gifts Social
begin

text \<open>
  Rooms, the feed and premium rooms: the in-memory stores (\<open>feed/feed.go\<close>, \<open>feed/repo.go\<close>), the cursors
  that freeze a ranking (\<open>feed/engine.go\<close>), the service (\<open>feed/feedsvc/service.go\<close>) and the closure of
  \<open>feed/cmd/api/main.go\<close> that charges for a premium room. The ranking is the interface \<open>Engine\<close>: a
  function of the service record. So are the JSON form of a cursor and the date of \<open>time.Format\<close>. A
  \<open>float64\<close> of a room is a rational number; nothing here computes with it. A method that ranges over
  a Go map takes the order it meets the entries in. One clock reading per call.
\<close>

section \<open>Data\<close>

type_synonym tab = string

definition TabForYou :: tab where "TabForYou = ''for_you''"
definition TabHot :: tab where "TabHot = ''hot''"
definition TabExplore :: tab where "TabExplore = ''explore''"
definition TabFollowing :: tab where "TabFollowing = ''following''"

lemmas tab_defs = TabForYou_def TabHot_def TabExplore_def TabFollowing_def

datatype room_status = RoomLive | RoomScheduled | RoomEnded

record room =
  rm_RoomID :: string
  rm_HostID :: string
  rm_HostName :: string
  rm_HostAvatar :: "string option"
  rm_HostLevel :: int
  rm_Title :: string
  rm_CoverURL :: "string option"
  rm_Tags :: "string list"
  rm_Language :: string
  rm_RegionCode :: string
  rm_ViewerCount :: int
  rm_PeakViewers :: int
  rm_Status :: room_status
  rm_StartedAt :: "time option"
  rm_EndedAt :: "time option"
  rm_GiftVelocity :: rat
  rm_FollowerGrowthRate :: rat
  rm_IsFollowedHost :: bool
  rm_IsPremium :: bool
  rm_UnlockPriceCoins :: int

record room_card =
  rc_RoomID :: string
  rc_HostID :: string
  rc_HostName :: string
  rc_HostAvatar :: "string option"
  rc_HostLevel :: int
  rc_Title :: string
  rc_CoverURL :: "string option"
  rc_Tags :: "string list"
  rc_Language :: string
  rc_RegionCode :: string
  rc_ViewerCount :: int
  rc_Status :: room_status
  rc_StartedAt :: "time option"
  rc_IsPremium :: bool
  rc_UnlockPriceCoins :: int
  rc_IsUnlocked :: bool

definition ToCard :: "room \<Rightarrow> room_card" where
  "ToCard r = \<lparr>rc_RoomID = rm_RoomID r, rc_HostID = rm_HostID r, rc_HostName = rm_HostName r,
     rc_HostAvatar = rm_HostAvatar r, rc_HostLevel = rm_HostLevel r, rc_Title = rm_Title r,
     rc_CoverURL = rm_CoverURL r, rc_Tags = rm_Tags r, rc_Language = rm_Language r,
     rc_RegionCode = rm_RegionCode r, rc_ViewerCount = rm_ViewerCount r, rc_Status = rm_Status r,
     rc_StartedAt = rm_StartedAt r, rc_IsPremium = rm_IsPremium r,
     rc_UnlockPriceCoins = rm_UnlockPriceCoins r, rc_IsUnlocked = False\<rparr>"

record feed_page =
  fp_Items :: "room_card list"
  fp_NextCursor :: string
  fp_Tab :: tab
  fp_Total :: nat

record user_feed_context =
  uc_AccountID :: string
  uc_Languages :: "string list"
  uc_Interests :: "string list"
  uc_RegionCode :: string
  uc_FollowedHostIDs :: "string list"
  uc_RecentlyViewedIDs :: "string list"

definition zero_context :: user_feed_context where
  "zero_context = \<lparr>uc_AccountID = [], uc_Languages = [], uc_Interests = [], uc_RegionCode = [],
     uc_FollowedHostIDs = [], uc_RecentlyViewedIDs = []\<rparr>"

definition GuestFeedContext :: "string \<Rightarrow> string \<Rightarrow> user_feed_context" where
  "GuestFeedContext regionCode language = zero_context\<lparr>uc_RegionCode := regionCode, uc_Languages := [language]\<rparr>"

text \<open>\<open>FeedPanic\<close> is the run-time panic of \<open>rankedIDs[offset:]\<close> with a negative \<open>offset\<close>.\<close>

datatype feed_error =
    ErrRoomNotFound
  | ErrNotRoomHost
  | ErrInvalidUnlockPrice
  | ErrPremiumFeatureDisabled
  | ErrOnlyHostEnds
  | ErrUnknownTab tab
  | ErrQueryTooShort
  | FeedLedgerError ledger_error
  | FeedPanic

section \<open>The in-memory stores\<close>

subsection \<open>Rooms\<close>

record mem_rooms =
  mr_rooms :: "(string \<times> room) list"
  mr_seq :: nat

type_synonym room_order = "(string \<times> room) list \<Rightarrow> (string \<times> room) list"

definition ListLive :: "room_order \<Rightarrow> mem_rooms \<Rightarrow> room list" where
  "ListLive ord r = filter (\<lambda>m. rm_Status m = RoomLive) (map snd (ord (mr_rooms r)))"

definition RoomGet :: "mem_rooms \<Rightarrow> string \<Rightarrow> room option" where
  "RoomGet r i = map_of (mr_rooms r) i"

definition GetByHost :: "room_order \<Rightarrow> mem_rooms \<Rightarrow> string \<Rightarrow> room option" where
  "GetByHost ord r hostID = find (\<lambda>m. rm_HostID m = hostID \<and> rm_Status m = RoomLive) (map snd (ord (mr_rooms r)))"

definition ListByHosts :: "room_order \<Rightarrow> mem_rooms \<Rightarrow> string list \<Rightarrow> room list" where
  "ListByHosts ord r hostIDs =
     filter (\<lambda>m. rm_Status m = RoomLive \<and> rm_HostID m \<in> set hostIDs) (map snd (ord (mr_rooms r)))"

text \<open>\<open>day\<close> is \<open>time.Now().Format("20060102")\<close>, which has no spaces to replace.\<close>

definition roomID :: "string \<Rightarrow> nat \<Rightarrow> string" where
  "roomID day sq = ''room-'' @ day @ ''-'' @ (if sq = 0 then ''0'' else itoa_loop sq [])"

definition RoomCreate :: "mem_rooms \<Rightarrow> time \<Rightarrow> string \<Rightarrow> room \<Rightarrow> room \<times> mem_rooms" where
  "RoomCreate r now day m =
     (let n = Suc (mr_seq r);
          m' = m\<lparr>rm_RoomID := roomID day n, rm_StartedAt := Some now, rm_Status := RoomLive\<rparr>
      in (m', r\<lparr>mr_seq := n, mr_rooms := AList.update (rm_RoomID m') m' (mr_rooms r)\<rparr>))"

definition RoomUpdateViewerCount :: "mem_rooms \<Rightarrow> string \<Rightarrow> int \<Rightarrow> feed_error option \<times> mem_rooms" where
  "RoomUpdateViewerCount r i n =
     (case map_of (mr_rooms r) i of
        None \<Rightarrow> (Some ErrRoomNotFound, r)
      | Some m \<Rightarrow>
          (let m = m\<lparr>rm_ViewerCount := n\<rparr>;
               m = (if rm_PeakViewers m < n then m\<lparr>rm_PeakViewers := n\<rparr> else m)
           in (None, r\<lparr>mr_rooms := AList.update i m (mr_rooms r)\<rparr>)))"

definition RoomEnd :: "mem_rooms \<Rightarrow> time \<Rightarrow> string \<Rightarrow> feed_error option \<times> mem_rooms" where
  "RoomEnd r now i =
     (case map_of (mr_rooms r) i of
        None \<Rightarrow> (Some ErrRoomNotFound, r)
      | Some m \<Rightarrow> (None, r\<lparr>mr_rooms := AList.update i (m\<lparr>rm_Status := RoomEnded, rm_EndedAt := Some now\<rparr>) (mr_rooms r)\<rparr>))"

definition RoomSetPremium :: "mem_rooms \<Rightarrow> string \<Rightarrow> bool \<Rightarrow> int \<Rightarrow> feed_error option \<times> mem_rooms" where
  "RoomSetPremium r i isPremium unlockPriceCoins =
     (case map_of (mr_rooms r) i of
        None \<Rightarrow> (Some ErrRoomNotFound, r)
      | Some m \<Rightarrow> (None, r\<lparr>mr_rooms := AList.update i
          (m\<lparr>rm_IsPremium := isPremium, rm_UnlockPriceCoins := unlockPriceCoins\<rparr>) (mr_rooms r)\<rparr>))"

subsection \<open>Unlocks\<close>

type_synonym mem_unlocks = "(string \<times> bool) list"

definition HasUnlocked :: "mem_unlocks \<Rightarrow> string \<Rightarrow> string \<Rightarrow> bool" where
  "HasUnlocked u i accountID \<longleftrightarrow> map_of u (i @ '':'' @ accountID) = Some True"

definition RecordUnlock :: "mem_unlocks \<Rightarrow> string \<Rightarrow> string \<Rightarrow> mem_unlocks" where
  "RecordUnlock u i accountID = AList.update (i @ '':'' @ accountID) True u"

subsection \<open>Notifications\<close>

record notification =
  nt_ID :: string
  nt_Type :: string
  nt_ActorID :: "string option"
  nt_ActorName :: "string option"
  nt_Body :: string
  nt_Read :: bool
  nt_CreatedAt :: time
  nt_DeepLink :: string

record mem_notifications =
  mn_data :: "(string \<times> notification list) list"
  mn_seq :: nat

definition NewMemNotificationRepo :: mem_notifications where
  "NewMemNotificationRepo = \<lparr>mn_data = [], mn_seq = 0\<rparr>"

definition notifs_of :: "mem_notifications \<Rightarrow> string \<Rightarrow> notification list" where
  "notifs_of r accountID = (case map_of (mn_data r) accountID of None \<Rightarrow> [] | Some ns \<Rightarrow> ns)"

fun after_notification :: "string \<Rightarrow> notification list \<Rightarrow> notification list option" where
  "after_notification cursor [] = None"
| "after_notification cursor (n # ns) = (if nt_ID n = cursor then Some ns else after_notification cursor ns)"

definition NotificationList :: "mem_notifications \<Rightarrow> string \<Rightarrow> string \<Rightarrow> int \<Rightarrow> notification list \<times> string" where
  "NotificationList r accountID cursor limit =
     (let notifs = notifs_of r accountID;
          lim = (if limit \<le> 0 \<or> 100 < limit then 50 else nat limit);
          slice = (if cursor = [] then notifs
                   else case after_notification cursor notifs of None \<Rightarrow> notifs | Some ns \<Rightarrow> ns)
      in if lim < length slice then (take lim slice, nt_ID (slice ! lim)) else (slice, []))"

fun mark_from :: "bool \<Rightarrow> string \<Rightarrow> notification list \<Rightarrow> notification list" where
  "mark_from marking upToID [] = []"
| "mark_from marking upToID (n # ns) =
     (let marking = (marking \<or> nt_ID n = upToID)
      in (if marking then n\<lparr>nt_Read := True\<rparr> else n) # mark_from marking upToID ns)"

definition NotificationMarkRead :: "mem_notifications \<Rightarrow> string \<Rightarrow> string \<Rightarrow> mem_notifications" where
  "NotificationMarkRead r accountID upToID =
     (case map_of (mn_data r) accountID of
        None \<Rightarrow> r
      | Some ns \<Rightarrow> r\<lparr>mn_data := AList.update accountID (mark_from False upToID ns) (mn_data r)\<rparr>)"

definition NotificationSummary :: "mem_notifications \<Rightarrow> string \<Rightarrow> nat" where
  "NotificationSummary r accountID = length (filter (\<lambda>n. \<not> nt_Read n) (notifs_of r accountID))"

definition NotificationCreate :: "mem_notifications \<Rightarrow> time \<Rightarrow> notification \<Rightarrow> mem_notifications" where
  "NotificationCreate r now n =
     (let sq = Suc (mn_seq r);
          n = (if nt_ID n = [] then n\<lparr>nt_ID := ''notif-'' @ itoa_loop sq []\<rparr> else n);
          n = (if IsZero (nt_CreatedAt n) then n\<lparr>nt_CreatedAt := now\<rparr> else n);
          r = r\<lparr>mn_seq := sq\<rparr>
      in case nt_ActorID n of
           None \<Rightarrow> r
         | Some a \<Rightarrow> r\<lparr>mn_data := AList.update a (n # notifs_of r a) (mn_data r)\<rparr>)"


section \<open>Cursors\<close>

record cursor_payload =
  cp_RankedIDs :: "string list"
  cp_Offset :: int
  cp_Tab :: tab
  cp_CreatedAt :: time

definition cursorTTL :: duration where "cursorTTL = 5 * minute"

text \<open>\<open>marshal\<close> and \<open>unmarshal\<close> are \<open>encoding/json\<close> on a cursor.\<close>

definition EncodeCursor :: "(cursor_payload \<Rightarrow> string) \<Rightarrow> cursor_payload \<Rightarrow> string" where
  "EncodeCursor marshal p = b64_encode b64_url (marshal p)"

definition DecodeCursor :: "(string \<Rightarrow> cursor_payload option) \<Rightarrow> time \<Rightarrow> string \<Rightarrow> cursor_payload option" where
  "DecodeCursor unmarshal now raw =
     (if raw = [] then None
      else case b64_decode b64_url raw of
        None \<Rightarrow> None
      | Some b \<Rightarrow>
          (case unmarshal b of
             None \<Rightarrow> None
           | Some p \<Rightarrow> if cursorTTL < now - cp_CreatedAt p then None else Some p))"

section \<open>The service\<close>

record feed_service =
  fs_Rank :: "room list \<Rightarrow> user_feed_context \<Rightarrow> room list"
  fs_marshal :: "cursor_payload \<Rightarrow> string"
  fs_unmarshal :: "string \<Rightarrow> cursor_payload option"

subsection \<open>The feed\<close>

definition getRankedFeed :: "feed_service \<Rightarrow> room_order \<Rightarrow> mem_rooms \<Rightarrow> time \<Rightarrow> tab \<Rightarrow> user_feed_context \<Rightarrow> string \<Rightarrow> nat \<Rightarrow>
    feed_error + feed_page" where
  "getRankedFeed sv ord r now tb user rawCursor limit =
     (let fresh = (map rm_RoomID (fs_Rank sv (ListLive ord r) (if tb = TabHot then zero_context else user)), 0);
          (rankedIDs, offset) =
            (case DecodeCursor (fs_unmarshal sv) now rawCursor of
               None \<Rightarrow> fresh
             | Some decoded \<Rightarrow> if cp_Tab decoded = tb then (cp_RankedIDs decoded, cp_Offset decoded) else fresh)
      in if int (length rankedIDs) \<le> offset
         then Inr \<lparr>fp_Items = [], fp_NextCursor = [], fp_Tab = tb, fp_Total = 0\<rparr>
         else if offset < 0 then Inl FeedPanic
         else
           let pageIDs = take limit (drop (nat offset) rankedIDs);
               items = map ToCard (filter (\<lambda>m. rm_Status m = RoomLive) (List.map_filter (RoomGet r) pageIDs));
               nextOffset = offset + int (length pageIDs);
               nextCursor = (if nextOffset < int (length rankedIDs)
                 then EncodeCursor (fs_marshal sv)
                   \<lparr>cp_RankedIDs = rankedIDs, cp_Offset = nextOffset, cp_Tab = tb, cp_CreatedAt = now\<rparr>
                 else [])
           in Inr \<lparr>fp_Items = items, fp_NextCursor = nextCursor, fp_Tab = tb, fp_Total = length rankedIDs\<rparr>)"

text \<open>\<open>sortByStarted\<close> is the exchange sort of \<open>Social\<close>; a room that never started counts as the zero time.\<close>

definition started_later :: "room \<Rightarrow> room \<Rightarrow> bool" where
  "started_later x y \<longleftrightarrow>
     Before (case rm_StartedAt x of None \<Rightarrow> 0 | Some t \<Rightarrow> t) (case rm_StartedAt y of None \<Rightarrow> 0 | Some t \<Rightarrow> t)"

definition sortByStarted :: "room list \<Rightarrow> room list" where
  "sortByStarted rooms = exchange_sort started_later rooms"

definition getFollowingFeed :: "room_order \<Rightarrow> mem_rooms \<Rightarrow> user_feed_context \<Rightarrow> nat \<Rightarrow> feed_page" where
  "getFollowingFeed ord r user limit =
     (if uc_FollowedHostIDs user = [] then \<lparr>fp_Items = [], fp_NextCursor = [], fp_Tab = TabFollowing, fp_Total = 0\<rparr>
      else \<lparr>fp_Items = map ToCard (take limit (sortByStarted (ListByHosts ord r (uc_FollowedHostIDs user)))),
             fp_NextCursor = [], fp_Tab = TabFollowing, fp_Total = 0\<rparr>)"

definition feed_limit :: "int \<Rightarrow> nat" where
  "feed_limit limit = (if limit \<le> 0 \<or> 50 < limit then 20 else nat limit)"

definition GetFeed :: "feed_service \<Rightarrow> room_order \<Rightarrow> mem_rooms \<Rightarrow> time \<Rightarrow> tab \<Rightarrow> user_feed_context \<Rightarrow> string \<Rightarrow> int \<Rightarrow>
    feed_error + feed_page" where
  "GetFeed sv ord r now tb user cursor limit =
     (if tb = TabForYou \<or> tb = TabHot \<or> tb = TabExplore
      then getRankedFeed sv ord r now tb user cursor (feed_limit limit)
      else if tb = TabFollowing then Inr (getFollowingFeed ord r user (feed_limit limit))
      else Inl (ErrUnknownTab tb))"

subsection \<open>Search\<close>

record search_result =
  sr_Type :: string
  sr_ID :: string
  sr_DisplayName :: string
  sr_Subtitle :: string
  sr_IsLive :: bool

definition containsTag :: "string list \<Rightarrow> string \<Rightarrow> bool" where
  "containsTag tags q = list_ex (\<lambda>t. Contains (ToLower t) q) tags"

text \<open>\<open>%d\<close>, and the em dash in UTF-8.\<close>

definition dec_int :: "int \<Rightarrow> string" where
  "dec_int n = (if n < 0 then ''-'' else []) @ (if n = 0 then ''0'' else itoa_loop (nat \<bar>n\<bar>) [])"

definition search_hit :: "room \<Rightarrow> search_result" where
  "search_hit m = \<lparr>sr_Type = ''room'', sr_ID = rm_RoomID m,
     sr_DisplayName = rm_HostName m @ [CHR '' '', CHR 0xE2, CHR 0x80, CHR 0x94, CHR '' ''] @ rm_Title m,
     sr_Subtitle = dec_int (rm_ViewerCount m) @ '' viewers'', sr_IsLive = (rm_Status m = RoomLive)\<rparr>"

primrec search_loop :: "string \<Rightarrow> nat \<Rightarrow> search_result list \<Rightarrow> room list \<Rightarrow> search_result list" where
  "search_loop q limit results [] = results"
| "search_loop q limit results (m # ms) =
     (let results =
        (if Contains (ToLower (rm_Title m)) q \<or> Contains (ToLower (rm_HostName m)) q \<or> containsTag (rm_Tags m) q
         then results @ [search_hit m] else results)
      in if limit \<le> length results then results else search_loop q limit results ms)"

definition FeedSearch :: "room_order \<Rightarrow> mem_rooms \<Rightarrow> string \<Rightarrow> string list \<Rightarrow> int \<Rightarrow> feed_error + search_result list" where
  "FeedSearch ord r query types limit =
     (let query = TrimSpace query in
      if length query < 2 then Inl ErrQueryTooShort
      else
        let limit = (if limit \<le> 0 \<or> 30 < limit then 20 else nat limit);
            wantRooms = (types = [] \<or> ''room'' \<in> set types)
        in Inr (if wantRooms then search_loop (ToLower query) limit [] (ListLive ord r) else []))"

subsection \<open>Rooms\<close>

text \<open>\<open>fw_premium\<close>: \<open>WithPremiumRooms\<close> was called.\<close>

record feed_world =
  fw_rooms :: mem_rooms
  fw_unlocks :: mem_unlocks
  fw_premium :: bool
  fw_ledger :: mem_ledger

definition IsRoomUnlockedForViewer :: "feed_world \<Rightarrow> room \<Rightarrow> string \<Rightarrow> bool" where
  "IsRoomUnlockedForViewer w m viewerID \<longleftrightarrow>
     (if \<not> rm_IsPremium m then True
      else if viewerID = [] then False
      else if viewerID = rm_HostID m then True
      else if \<not> fw_premium w then False
      else HasUnlocked (fw_unlocks w) (rm_RoomID m) viewerID)"

definition SetRoomPremium :: "feed_world \<Rightarrow> string \<Rightarrow> string \<Rightarrow> bool \<Rightarrow> int \<Rightarrow> (feed_error + room) \<times> feed_world" where
  "SetRoomPremium w hostID i isPremium unlockPriceCoins =
     (case RoomGet (fw_rooms w) i of
        None \<Rightarrow> (Inl ErrRoomNotFound, w)
      | Some m \<Rightarrow>
          if rm_HostID m \<noteq> hostID then (Inl ErrNotRoomHost, w)
          else if isPremium \<and> unlockPriceCoins \<le> 0 then (Inl ErrInvalidUnlockPrice, w)
          else
            let price = (if isPremium then unlockPriceCoins else 0) in
            (case RoomSetPremium (fw_rooms w) i isPremium price of
               (Some err, r) \<Rightarrow> (Inl err, w\<lparr>fw_rooms := r\<rparr>)
             | (None, r) \<Rightarrow> (Inr (m\<lparr>rm_IsPremium := isPremium, rm_UnlockPriceCoins := price\<rparr>), w\<lparr>fw_rooms := r\<rparr>)))"

definition premiumPlatformTakeBPS :: int where "premiumPlatformTakeBPS = 3000"
definition premiumDiamondsPerThousandCoins :: int where "premiumDiamondsPerThousandCoins = 700"

definition unlock_entries :: "string \<Rightarrow> string \<Rightarrow> int \<Rightarrow> entry list" where
  "unlock_entries viewerID hostID priceCoins =
     (let platformShare = quot64 (mul64 priceCoins premiumPlatformTakeBPS) 10000;
          hostCoinsEquivalent = sub64 priceCoins platformShare;
          hostDiamonds = quot64 (mul64 hostCoinsEquivalent premiumDiamondsPerThousandCoins) 1000
      in [\<lparr>e_account = UserCoinsAccount viewerID, e_amount = neg64 priceCoins, e_currency = Coin\<rparr>,
          \<lparr>e_account = PlatformRevenueAccount, e_amount = platformShare, e_currency = Coin\<rparr>,
          \<lparr>e_account = PlatformLiabilityAccount, e_amount = hostCoinsEquivalent, e_currency = Coin\<rparr>,
          \<lparr>e_account = UserDiamondsAccount hostID, e_amount = hostDiamonds, e_currency = Diamond\<rparr>,
          \<lparr>e_account = PlatformDiamondLiabilityAccount, e_amount = neg64 hostDiamonds, e_currency = Diamond\<rparr>])"

definition unlockRoomCoins :: "mem_ledger \<Rightarrow> time \<Rightarrow> string \<Rightarrow> string \<Rightarrow> int \<Rightarrow> string \<Rightarrow> (ledger_error + string) \<times> mem_ledger" where
  "unlockRoomCoins l now viewerID hostID priceCoins idempotencyKey =
     (case PostTransaction l now ''premium_unlock'' idempotencyKey
             [(''room_host_id'', AnyString hostID), (''viewer_id'', AnyString viewerID), (''price_coins'', AnyInt64 priceCoins)]
             (unlock_entries viewerID hostID priceCoins) of
        (Inl err, l') \<Rightarrow> (Inl err, l')
      | (Inr (tx, isNew), l') \<Rightarrow> (Inr (tx_ID tx), l'))"

definition UnlockRoom :: "feed_world \<Rightarrow> time \<Rightarrow> string \<Rightarrow> string \<Rightarrow> string \<Rightarrow> (feed_error + room) \<times> feed_world" where
  "UnlockRoom w now viewerID i idempotencyKey =
     (if \<not> fw_premium w then (Inl ErrPremiumFeatureDisabled, w)
      else
        (case RoomGet (fw_rooms w) i of
           None \<Rightarrow> (Inl ErrRoomNotFound, w)
         | Some m \<Rightarrow>
             if \<not> rm_IsPremium m \<or> viewerID = rm_HostID m then (Inr m, w)
             else if HasUnlocked (fw_unlocks w) i viewerID then (Inr m, w)
             else
               (case unlockRoomCoins (fw_ledger w) now viewerID (rm_HostID m) (rm_UnlockPriceCoins m) idempotencyKey of
                  (Inl err, l) \<Rightarrow> (Inl (FeedLedgerError err), w\<lparr>fw_ledger := l\<rparr>)
                | (Inr txID, l) \<Rightarrow>
                    (Inr m, w\<lparr>fw_ledger := l, fw_unlocks := RecordUnlock (fw_unlocks w) i viewerID\<rparr>))))"

definition GetRoom :: "feed_world \<Rightarrow> string \<Rightarrow> feed_error + room" where
  "GetRoom w i = (case RoomGet (fw_rooms w) i of None \<Rightarrow> Inl ErrRoomNotFound | Some m \<Rightarrow> Inr m)"

definition CreateRoom :: "feed_world \<Rightarrow> time \<Rightarrow> string \<Rightarrow> string \<Rightarrow> string \<Rightarrow> string \<Rightarrow> string \<Rightarrow> string \<Rightarrow> string list \<Rightarrow>
    room \<times> feed_world" where
  "CreateRoom w now day hostID hostName title language region tags =
     (let (m, r) = RoomCreate (fw_rooms w) now day
            \<lparr>rm_RoomID = [], rm_HostID = hostID, rm_HostName = hostName, rm_HostAvatar = None, rm_HostLevel = 0,
             rm_Title = title, rm_CoverURL = None, rm_Tags = tags, rm_Language = language, rm_RegionCode = region,
             rm_ViewerCount = 0, rm_PeakViewers = 0, rm_Status = RoomLive, rm_StartedAt = None, rm_EndedAt = None,
             rm_GiftVelocity = 0, rm_FollowerGrowthRate = 0, rm_IsFollowedHost = False, rm_IsPremium = False,
             rm_UnlockPriceCoins = 0\<rparr>
      in (m, w\<lparr>fw_rooms := r\<rparr>))"

definition EndRoom :: "feed_world \<Rightarrow> time \<Rightarrow> string \<Rightarrow> string \<Rightarrow> feed_error option \<times> feed_world" where
  "EndRoom w now i hostID =
     (case RoomGet (fw_rooms w) i of
        None \<Rightarrow> (Some ErrRoomNotFound, w)
      | Some m \<Rightarrow>
          if rm_HostID m \<noteq> hostID then (Some ErrOnlyHostEnds, w)
          else let (err, r) = RoomEnd (fw_rooms w) now i in (err, w\<lparr>fw_rooms := r\<rparr>))"

definition UpdateViewerCount :: "feed_world \<Rightarrow> string \<Rightarrow> int \<Rightarrow> feed_error option \<times> feed_world" where
  "UpdateViewerCount w i n = (let (err, r) = RoomUpdateViewerCount (fw_rooms w) i n in (err, w\<lparr>fw_rooms := r\<rparr>))"


section \<open>A feed that holds still\<close>

text \<open>The cards a page shows of a stretch of the ranking: the rooms that are still live.\<close>

definition page_cards :: "mem_rooms \<Rightarrow> string list \<Rightarrow> room_card list" where
  "page_cards r ids = map ToCard (filter (\<lambda>m. rm_Status m = RoomLive) (List.map_filter (RoomGet r) ids))"

text \<open>A client that follows the cursors; \<open>page k\<close> answers the call number \<open>k\<close>.\<close>

fun feed_walk :: "(nat \<Rightarrow> string \<Rightarrow> feed_error + feed_page) \<Rightarrow> nat \<Rightarrow> nat \<Rightarrow> string \<Rightarrow> feed_page list option" where
  "feed_walk page 0 k cursor = None"
| "feed_walk page (Suc fuel) k cursor =
     (case page k cursor of
        Inl err \<Rightarrow> None
      | Inr p \<Rightarrow>
          if fp_NextCursor p = [] then Some [p]
          else map_option ((#) p) (feed_walk page fuel (Suc k) (fp_NextCursor p)))"

lemma encode_not_empty:
  assumes "marshal p \<noteq> []"
  shows "EncodeCursor marshal p \<noteq> []"
proof
  assume "EncodeCursor marshal p = []"
  then have "b64_decode b64_url [] = Some (marshal p)"
    using b64_round_trip [OF b64_alphabets(2), of "marshal p"] by (simp add: EncodeCursor_def)
  moreover have "b64_decode b64_url [] = Some []" by code_simp
  ultimately show False using assms by simp
qed

lemma decode_encode:
  assumes "unmarshal (marshal p) = Some p" and "marshal p \<noteq> []" and "now - cp_CreatedAt p \<le> cursorTTL"
  shows "DecodeCursor unmarshal now (EncodeCursor marshal p) = Some p"
  using assms encode_not_empty [of marshal p] b64_round_trip [OF b64_alphabets(2), of "marshal p"]
  by (simp add: DecodeCursor_def EncodeCursor_def)

lemma feed_limit_pos: "0 < feed_limit limit" "feed_limit limit \<le> 50"
  by (auto simp: feed_limit_def)

lemma subseq_page: "(\<And>i m. map_of (mr_rooms r) i = Some m \<Longrightarrow> rm_RoomID m = i) \<Longrightarrow>
    subseq (map rc_RoomID (page_cards r ids)) ids"
  by (induction ids) (auto simp: page_cards_def List.map_filter_simps RoomGet_def ToCard_def split: option.splits)

text \<open>One page of a snapshot.\<close>

lemma ranked_page:
  assumes "DecodeCursor (fs_unmarshal sv) now cursor = None \<and> off = 0 \<and>
      ids = map rm_RoomID (fs_Rank sv (ListLive ord r) (if tb = TabHot then zero_context else user)) \<or>
    DecodeCursor (fs_unmarshal sv) now cursor =
      Some \<lparr>cp_RankedIDs = ids, cp_Offset = int off, cp_Tab = tb, cp_CreatedAt = t\<rparr>"
    and "off < length ids \<or> ids = []" and "0 < limit"
  shows "getRankedFeed sv ord r now tb user cursor limit = Inr
    \<lparr>fp_Items = page_cards r (take limit (drop off ids)),
     fp_NextCursor = (if off + limit < length ids
       then EncodeCursor (fs_marshal sv)
         \<lparr>cp_RankedIDs = ids, cp_Offset = int (off + limit), cp_Tab = tb, cp_CreatedAt = now\<rparr> else []),
     fp_Tab = tb, fp_Total = length ids\<rparr>"
proof -
  have d: "(case DecodeCursor (fs_unmarshal sv) now cursor of
        None \<Rightarrow> (map rm_RoomID (fs_Rank sv (ListLive ord r) (if tb = TabHot then zero_context else user)), 0)
      | Some decoded \<Rightarrow> if cp_Tab decoded = tb then (cp_RankedIDs decoded, cp_Offset decoded)
          else (map rm_RoomID (fs_Rank sv (ListLive ord r) (if tb = TabHot then zero_context else user)), 0)) = (ids, int off)"
    using assms(1) by auto
  show ?thesis
  proof (cases "ids = []")
    case True
    then show ?thesis
      unfolding getRankedFeed_def Let_def d by (simp add: page_cards_def List.map_filter_simps)
  next
    case False
    then have off: "off < length ids" using assms(2) by simp
    show ?thesis
    proof (cases "off + limit < length ids")
      case True
      then have "int off + int (length (take limit (drop off ids))) = int (off + limit)" by simp
      then show ?thesis
        unfolding getRankedFeed_def Let_def d using off True by (simp add: page_cards_def)
    next
      case F: False
      then have "int off + int (length (take limit (drop off ids))) = int (length ids)" using off by simp
      then show ?thesis
        unfolding getRankedFeed_def Let_def d using off F by (simp add: page_cards_def)
    qed
  qed
qed


lemma pages_append: "concat (map (\<lambda>j. take L (drop (j * L) xs)) [0..<n]) = take (n * L) xs"
proof (induction n)
  case (Suc n)
  have "take (n * L) xs @ take L (drop (n * L) xs) = take (n * L + L) xs" by (simp add: take_add)
  then show ?case using Suc by (simp add: add.commute)
qed simp

lemma feed_walk_from:
  assumes step: "\<And>k off cursor. off = k * L \<Longrightarrow> off < length ids \<or> ids = [] \<and> k = 0 \<Longrightarrow>
      k = 0 \<and> cursor = [] \<or> 0 < k \<and> cursor = enc (k - 1) off \<Longrightarrow>
      page k cursor = Inr \<lparr>fp_Items = page_cards (rs k) (take L (drop off ids)),
        fp_NextCursor = (if off + L < length ids then enc k (off + L) else []), fp_Tab = tb, fp_Total = length ids\<rparr>"
    and enc: "\<And>k off. enc k off \<noteq> []" and L: "0 < L"
    and "k * L < length ids \<or> ids = [] \<and> k = 0" and "k = 0 \<and> cursor = [] \<or> 0 < k \<and> cursor = enc (k - 1) (k * L)"
    and "length ids < k * L + fuel"
  shows "\<exists>ps. feed_walk page fuel k cursor = Some ps \<and> length ids \<le> (k + length ps) * L \<and>
    (\<forall>j < length ps. fp_Items (ps ! j) = page_cards (rs (k + j)) (take L (drop ((k + j) * L) ids)))"
  using assms(4-6)
proof (induction fuel arbitrary: k cursor)
  case (Suc fuel)
  note p = step [OF refl Suc.prems(1,2)]
  show ?case
  proof (cases "k * L + L < length ids")
    case False
    then show ?thesis using p by (intro exI) (auto simp: algebra_simps)
  next
    case True
    have "\<exists>ps. feed_walk page fuel (Suc k) (enc k (k * L + L)) = Some ps \<and> length ids \<le> (Suc k + length ps) * L \<and>
        (\<forall>j < length ps. fp_Items (ps ! j) = page_cards (rs (Suc k + j)) (take L (drop ((Suc k + j) * L) ids)))"
      using True Suc.prems(3) L by (intro Suc.IH) (auto simp: add.commute)
    then obtain ps where ps: "feed_walk page fuel (Suc k) (enc k (k * L + L)) = Some ps"
      "length ids \<le> (Suc k + length ps) * L"
      "\<And>j. j < length ps \<Longrightarrow> fp_Items (ps ! j) = page_cards (rs (Suc k + j)) (take L (drop ((Suc k + j) * L) ids))"
      by blast
    let ?p = "\<lparr>fp_Items = page_cards (rs k) (take L (drop (k * L) ids)), fp_NextCursor = enc k (k * L + L),
      fp_Tab = tb, fp_Total = length ids\<rparr>"
    have "fp_Items ((?p # ps) ! j) = page_cards (rs (k + j)) (take L (drop ((k + j) * L) ids))" if "j < Suc (length ps)" for j
      using that ps(3) by (cases j) auto
    then show ?thesis
      using p True enc ps(1,2) by (intro exI [of _ "?p # ps"]) simp
  qed
qed simp

text \<open>C24: paging through the feed. While rooms come, go and change, a client that follows the cursors no
  slower than one page in five minutes is shown the ranking of its first page, cut into pages: page
  \<open>k\<close> has the rooms of the \<open>k\<close>-th stretch that are still live, as they are then. No room is skipped
  and, if the ranking has none twice, none is shown twice.\<close>

theorem feed_pages_stable:
  assumes tab: "tb = TabForYou \<or> tb = TabHot \<or> tb = TabExplore"
    and ids: "ids = map rm_RoomID (fs_Rank sv (ListLive (ords 0) (rs 0)) (if tb = TabHot then zero_context else user))"
    and json: "\<And>off k. fs_unmarshal sv (fs_marshal sv \<lparr>cp_RankedIDs = ids, cp_Offset = int off, cp_Tab = tb, cp_CreatedAt = ts k\<rparr>) =
      Some \<lparr>cp_RankedIDs = ids, cp_Offset = int off, cp_Tab = tb, cp_CreatedAt = ts k\<rparr>"
    and text': "\<And>p. fs_marshal sv p \<noteq> []"
    and pace: "\<And>k. ts (Suc k) \<le> ts k + cursorTTL"
    and keys: "\<And>k i m. map_of (mr_rooms (rs k)) i = Some m \<Longrightarrow> rm_RoomID m = i"
  shows "\<exists>ps. feed_walk (\<lambda>k cursor. GetFeed sv (ords k) (rs k) (ts k) tb user cursor limit) (Suc (length ids)) 0 [] = Some ps \<and>
    length ids \<le> length ps * feed_limit limit \<and>
    (\<forall>k < length ps. fp_Items (ps ! k) = page_cards (rs k) (take (feed_limit limit) (drop (k * feed_limit limit) ids))) \<and>
    subseq (map rc_RoomID (concat (map fp_Items ps))) ids"
proof -
  let ?L = "feed_limit limit" and ?page = "\<lambda>k cursor. GetFeed sv (ords k) (rs k) (ts k) tb user cursor limit"
  let ?enc = "\<lambda>k off. EncodeCursor (fs_marshal sv) \<lparr>cp_RankedIDs = ids, cp_Offset = int off, cp_Tab = tb, cp_CreatedAt = ts k\<rparr>"
  have step: "?page k cursor = Inr \<lparr>fp_Items = page_cards (rs k) (take ?L (drop off ids)),
      fp_NextCursor = (if off + ?L < length ids then ?enc k (off + ?L) else []), fp_Tab = tb, fp_Total = length ids\<rparr>"
    if k: "off = k * ?L" "off < length ids \<or> ids = [] \<and> k = 0" "k = 0 \<and> cursor = [] \<or> 0 < k \<and> cursor = ?enc (k - 1) off" for k off cursor
  proof -
    have "DecodeCursor (fs_unmarshal sv) (ts k) cursor = None \<and> off = 0 \<and>
        ids = map rm_RoomID (fs_Rank sv (ListLive (ords k) (rs k)) (if tb = TabHot then zero_context else user)) \<or>
      DecodeCursor (fs_unmarshal sv) (ts k) cursor =
        Some \<lparr>cp_RankedIDs = ids, cp_Offset = int off, cp_Tab = tb, cp_CreatedAt = ts (k - 1)\<rparr>"
    proof (cases "k = 0")
      case True
      then show ?thesis using k(1,3) ids by (simp add: DecodeCursor_def)
    next
      case False
      then have "ts k - ts (k - 1) \<le> cursorTTL" using pace [of "k - 1"] by simp
      then show ?thesis using False k(3) json [of off "k - 1"] text' by (intro disjI2) (simp add: decode_encode)
    qed
    from ranked_page [OF this _ feed_limit_pos(1)] k(2) tab show ?thesis by (auto simp: GetFeed_def)
  qed
  obtain ps where ps: "feed_walk ?page (Suc (length ids)) 0 [] = Some ps" "length ids \<le> length ps * ?L"
    "\<And>j. j < length ps \<Longrightarrow> fp_Items (ps ! j) = page_cards (rs j) (take ?L (drop (j * ?L) ids))"
    using feed_walk_from [where page = ?page and L = ?L and ids = ids and enc = ?enc and rs = rs and tb = tb and k = 0
        and cursor = "[]" and fuel = "Suc (length ids)", OF step] encode_not_empty text' feed_limit_pos(1) by auto
  have "map fp_Items ps = map (\<lambda>j. page_cards (rs j) (take ?L (drop (j * ?L) ids))) [0..<length ps]"
    using ps(3) by (intro nth_equalityI) simp_all
  moreover have "subseq (map rc_RoomID (concat (map (\<lambda>j. page_cards (rs j) (xs j)) js))) (concat (map xs js))" for xs js
    by (induction js) (auto intro: list_emb_append_mono subseq_page keys)
  ultimately have "subseq (map rc_RoomID (concat (map fp_Items ps))) (take (length ps * ?L) ids)"
    using pages_append [of ?L ids "length ps"] by metis
  then show ?thesis using ps by (intro exI [of _ ps]) simp
qed


text \<open>\<open>MLEngine\<close>, the second engine of the code, leaves the rooms as they come.\<close>

definition MLRank :: "room list \<Rightarrow> user_feed_context \<Rightarrow> room list" where
  "MLRank rooms user = rooms"

definition demo_room :: "string \<Rightarrow> room_status \<Rightarrow> room" where
  "demo_room i st = \<lparr>rm_RoomID = i, rm_HostID = ''host'', rm_HostName = ''H'', rm_HostAvatar = None, rm_HostLevel = 1,
     rm_Title = i, rm_CoverURL = None, rm_Tags = [], rm_Language = ''en'', rm_RegionCode = ''PK'', rm_ViewerCount = 0,
     rm_PeakViewers = 0, rm_Status = st, rm_StartedAt = Some 1, rm_EndedAt = None, rm_GiftVelocity = 0,
     rm_FollowerGrowthRate = 0, rm_IsFollowedHost = False, rm_IsPremium = True, rm_UnlockPriceCoins = 100\<rparr>"

definition demo_rooms :: "room_status \<Rightarrow> mem_rooms" where
  "demo_rooms st = \<lparr>mr_rooms = [(''a'', demo_room ''a'' RoomLive), (''b'', demo_room ''b'' st), (''c'', demo_room ''c'' RoomLive)],
     mr_seq = 3\<rparr>"

text \<open>A stand-in for JSON that keeps the offset, on the cursors of one ranking.\<close>

definition demo_feed :: feed_service where
  "demo_feed = \<lparr>fs_Rank = MLRank, fs_marshal = (\<lambda>p. replicate (nat (cp_Offset p)) CHR ''o'' @ ''!''),
     fs_unmarshal = (\<lambda>s. Some \<lparr>cp_RankedIDs = [''a'', ''b'', ''c''], cp_Offset = int (length s - 1), cp_Tab = TabHot, cp_CreatedAt = 5\<rparr>)\<rparr>"

lemma feed_pages_stable_witness:
  "\<exists>ps. feed_walk (\<lambda>k cursor. GetFeed demo_feed (\<lambda>xs. xs) (demo_rooms (if k = 0 then RoomLive else RoomEnded)) 5 TabHot zero_context cursor 1)
      4 0 [] = Some ps \<and> map rc_RoomID (fp_Items (ps ! 0)) = [''a''] \<and> subseq (map rc_RoomID (concat (map fp_Items ps))) [''a'', ''b'', ''c'']"
proof -
  let ?rs = "\<lambda>k::nat. demo_rooms (if k = 0 then RoomLive else RoomEnded)"
  have ids: "[''a'', ''b'', ''c''] = map rm_RoomID (fs_Rank demo_feed (ListLive (\<lambda>xs. xs) (?rs 0)) (if TabHot = TabHot then zero_context else zero_context))"
    by (simp add: demo_feed_def MLRank_def ListLive_def demo_rooms_def demo_room_def)
  have keys: "rm_RoomID m = i" if "map_of (mr_rooms (?rs k)) i = Some m" for k i m
    using that by (auto simp: demo_rooms_def demo_room_def split: if_splits)
  have lim: "feed_limit 1 = 1" by (simp add: feed_limit_def)
  have json: "fs_unmarshal demo_feed (fs_marshal demo_feed \<lparr>cp_RankedIDs = [''a'', ''b'', ''c''], cp_Offset = int off, cp_Tab = TabHot, cp_CreatedAt = 5\<rparr>) =
      Some \<lparr>cp_RankedIDs = [''a'', ''b'', ''c''], cp_Offset = int off, cp_Tab = TabHot, cp_CreatedAt = 5\<rparr>" for off
    by (simp add: demo_feed_def)
  have ne: "fs_marshal demo_feed p \<noteq> []" for p by (simp add: demo_feed_def)
  have pace: "(5::int) \<le> 5 + cursorTTL" by (simp add: cursorTTL_def)
  have "\<exists>ps. feed_walk (\<lambda>k cursor. GetFeed demo_feed (\<lambda>xs. xs) (?rs k) 5 TabHot zero_context cursor 1) (Suc (length [''a'', ''b'', ''c''])) 0 [] = Some ps \<and>
      length [''a'', ''b'', ''c''] \<le> length ps * feed_limit 1 \<and>
      (\<forall>k < length ps. fp_Items (ps ! k) = page_cards (?rs k) (take (feed_limit 1) (drop (k * feed_limit 1) [''a'', ''b'', ''c'']))) \<and>
      subseq (map rc_RoomID (concat (map fp_Items ps))) [''a'', ''b'', ''c'']"
    by (rule feed_pages_stable [where ts = "\<lambda>k. 5" and ords = "\<lambda>k xs. xs" and rs = ?rs, OF _ ids json ne pace keys]) simp
  then obtain ps where ps: "feed_walk (\<lambda>k cursor. GetFeed demo_feed (\<lambda>xs. xs) (?rs k) 5 TabHot zero_context cursor 1) (Suc (length [''a'', ''b'', ''c''])) 0 [] = Some ps"
    "length [''a'', ''b'', ''c''] \<le> length ps * feed_limit 1"
    "\<forall>k < length ps. fp_Items (ps ! k) = page_cards (?rs k) (take (feed_limit 1) (drop (k * feed_limit 1) [''a'', ''b'', ''c'']))"
    "subseq (map rc_RoomID (concat (map fp_Items ps))) [''a'', ''b'', ''c'']" by blast
  from ps(2) have "0 < length ps" by (cases ps) simp_all
  then have "fp_Items (ps ! 0) = page_cards (?rs 0) [''a'']" using ps(3) by (simp add: lim)
  then have "map rc_RoomID (fp_Items (ps ! 0)) = [''a'']"
    by (simp add: page_cards_def demo_rooms_def demo_room_def RoomGet_def List.map_filter_simps ToCard_def)
  moreover have "Suc (length [''a'', ''b'', ''c'']) = 4" by simp
  ultimately show ?thesis using ps(1,4) by metis
qed

section \<open>Premium rooms\<close>

text \<open>The closure of \<open>main.go\<close> computes the same entries as the gift service.\<close>

lemma unlock_entries_gift: "unlock_entries v h n = gift_entries v h n"
  by (simp add: unlock_entries_def gift_entries_def platform_share_def creator_coins_def creator_diamonds_def economy_defs
      premiumPlatformTakeBPS_def premiumDiamondsPerThousandCoins_def Let_def)

lemma HasUnlocked_Record: "HasUnlocked (RecordUnlock u i a) i a"
  by (simp add: HasUnlocked_def RecordUnlock_def)

lemma unlock_known:
  assumes "fw_premium w" and "RoomGet (fw_rooms w) i = Some m" and "HasUnlocked (fw_unlocks w) i v"
  shows "UnlockRoom w now v i key = (Inr m, w)"
  using assms by (simp add: UnlockRoom_def)

text \<open>Buying access to a premium room under a fresh key. The viewer who can pay is charged the room's
  price exactly once, the host is credited what a gift of that price would bring, nobody else's
  balance moves, and every later unlock of the room, with whatever key, is free; the viewer who
  cannot pay is refused and nothing changes.\<close>

theorem unlock_charges_once:
  assumes "ledger_inv (fw_ledger w)" and "fw_premium w" and "RoomGet (fw_rooms w) i = Some m"
    and "rm_IsPremium m" and "v \<noteq> rm_HostID m" and "\<not> HasUnlocked (fw_unlocks w) i v"
    and "tx_by_key (fw_ledger w) key = None"
    and "0 < rm_UnlockPriceCoins m" and "rm_UnlockPriceCoins m \<le> 20000000"
    and "bal (fw_ledger w) (UserDiamondsAccount (rm_HostID m), Diamond) + creator_diamonds (rm_UnlockPriceCoins m) < 2 ^ 63"
  shows "if rm_UnlockPriceCoins m \<le> bal (fw_ledger w) (UserCoinsAccount v, Coin)
    then \<exists>w'. UnlockRoom w now v i key = (Inr m, w') \<and> ledger_inv (fw_ledger w') \<and>
      gift_moved (bal (fw_ledger w)) (bal (fw_ledger w')) v (rm_HostID m) (rm_UnlockPriceCoins m) \<and>
      IsRoomUnlockedForViewer w' m v = (v \<noteq> [] \<and> HasUnlocked (fw_unlocks w') (rm_RoomID m) v) \<and>
      (\<forall>later key'. UnlockRoom w' later v i key' = (Inr m, w'))
    else \<exists>err. UnlockRoom w now v i key = (Inl err, w)"
proof -
  let ?n = "rm_UnlockPriceCoins m" and ?l = "fw_ledger w"
  let ?md = "[(''room_host_id'', AnyString (rm_HostID m)), (''viewer_id'', AnyString v), (''price_coins'', AnyInt64 ?n)]"
  note out = mem.post_gift_outcome [OF assms(1,7-10), of v now "''premium_unlock''" ?md, simplified mem_ledger_repo_def, simplified]
  have u: "UnlockRoom w now v i key = (case unlockRoomCoins ?l now v (rm_HostID m) ?n key of
      (Inl err, l) \<Rightarrow> (Inl (FeedLedgerError err), w\<lparr>fw_ledger := l\<rparr>)
    | (Inr txID, l) \<Rightarrow> (Inr m, w\<lparr>fw_ledger := l, fw_unlocks := RecordUnlock (fw_unlocks w) i v\<rparr>))"
    using assms by (simp add: UnlockRoom_def)
  show ?thesis
  proof (cases "?n \<le> bal ?l (UserCoinsAccount v, Coin)")
    case True
    then obtain t l' where p: "PostTransaction ?l now ''premium_unlock'' key ?md (gift_entries v (rm_HostID m) ?n) = (Inr (t, True), l')"
      "ledger_inv l'" "gift_moved (bal ?l) (bal l') v (rm_HostID m) ?n"
      using out by auto
    let ?w = "w\<lparr>fw_ledger := l', fw_unlocks := RecordUnlock (fw_unlocks w) i v\<rparr>"
    have "UnlockRoom w now v i key = (Inr m, ?w)" using p(1) by (simp add: u unlockRoomCoins_def unlock_entries_gift)
    moreover have "UnlockRoom ?w later v i key' = (Inr m, ?w)" for later key'
      using assms(2,3) by (intro unlock_known) (simp_all add: HasUnlocked_Record)
    moreover have "IsRoomUnlockedForViewer ?w m v = (v \<noteq> [] \<and> HasUnlocked (fw_unlocks ?w) (rm_RoomID m) v)"
      using assms(2,4,5) by (simp add: IsRoomUnlockedForViewer_def)
    ultimately show ?thesis using True p by (auto intro!: exI [of _ ?w])
  next
    case False
    then show ?thesis using out by (simp add: u unlockRoomCoins_def unlock_entries_gift)
  qed
qed

text \<open>A key the ledger has seen opens any premium room for nothing: the posted transaction of an
  earlier gift, purchase or unlock is taken for the payment.\<close>

theorem used_key_unlocks_free:
  assumes "tx_by_key (fw_ledger w) key = Some t" and "fw_premium w" and "RoomGet (fw_rooms w) i = Some m"
  shows "\<exists>w'. UnlockRoom w now v i key = (Inr m, w') \<and> fw_ledger w' = fw_ledger w \<and>
    (rm_IsPremium m \<longrightarrow> v \<noteq> rm_HostID m \<longrightarrow> HasUnlocked (fw_unlocks w') i v)"
proof (cases "\<not> rm_IsPremium m \<or> v = rm_HostID m \<or> HasUnlocked (fw_unlocks w) i v")
  case True
  then show ?thesis using assms(2,3) by (auto simp: UnlockRoom_def)
next
  case False
  have "PostTransaction (fw_ledger w) now kind key md es = (Inr (t, False), fw_ledger w)" for kind md es
    using assms(1) by (simp add: PostTransaction_def postLocked_def tx_by_key_def)
  then show ?thesis
    using False assms(2,3) by (simp add: UnlockRoom_def unlockRoomCoins_def HasUnlocked_Record)
qed

definition demo_fans :: feed_world where
  "demo_fans = \<lparr>fw_rooms = demo_rooms RoomLive, fw_unlocks = [], fw_premium = True,
     fw_ledger = snd (PostTransaction NewMemLedger 0 ''order_credit'' ''o1'' []
       [\<lparr>e_account = UserCoinsAccount ''fan'', e_amount = 150, e_currency = Coin\<rparr>,
        \<lparr>e_account = PlatformLiabilityAccount, e_amount = - 150, e_currency = Coin\<rparr>])\<rparr>"

lemma demo_fans_facts:
  "ledger_inv (fw_ledger demo_fans)" "fw_premium demo_fans" "RoomGet (fw_rooms demo_fans) ''a'' = Some (demo_room ''a'' RoomLive)"
  "RoomGet (fw_rooms demo_fans) ''b'' = Some (demo_room ''b'' RoomLive)" "fw_unlocks demo_fans = []"
  by (simp_all add: demo_fans_def PostTransaction_def ledger_inv_postLocked ledger_inv_new RoomGet_def demo_rooms_def)

lemma unlock_charges_once_witness:
  "\<exists>w'. UnlockRoom demo_fans 9 ''fan'' ''a'' ''k'' = (Inr (demo_room ''a'' RoomLive), w') \<and>
     bal (fw_ledger w') (UserCoinsAccount ''fan'', Coin) = 50 \<and>
     UnlockRoom w' 10 ''fan'' ''a'' ''k2'' = (Inr (demo_room ''a'' RoomLive), w')"
proof -
  have m: "rm_IsPremium (demo_room ''a'' RoomLive)" "rm_HostID (demo_room ''a'' RoomLive) = ''host''"
    "rm_UnlockPriceCoins (demo_room ''a'' RoomLive) = 100" by (simp_all add: demo_room_def)
  have e: "tx_by_key (fw_ledger demo_fans) ''k'' = None \<and> bal (fw_ledger demo_fans) (UserCoinsAccount ''fan'', Coin) = 150 \<and>
      bal (fw_ledger demo_fans) (UserDiamondsAccount ''host'', Diamond) = 0 \<and> creator_diamonds 100 = 49"
    by code_simp
  have "\<not> HasUnlocked (fw_unlocks demo_fans) ''a'' ''fan''" by (simp add: demo_fans_facts HasUnlocked_def)
  from unlock_charges_once [OF demo_fans_facts(1-3) m(1) _ this, of "''k''" 9] e m
  show ?thesis by (auto simp: gift_moved_def)
qed

lemma used_key_unlocks_free_witness:
  "\<exists>w'. UnlockRoom demo_fans 9 ''fan'' ''b'' ''o1'' = (Inr (demo_room ''b'' RoomLive), w') \<and>
     fw_ledger w' = fw_ledger demo_fans \<and> HasUnlocked (fw_unlocks w') ''b'' ''fan''"
proof -
  have "tx_by_key (fw_ledger demo_fans) ''o1'' \<noteq> None" by code_simp
  then obtain t where "tx_by_key (fw_ledger demo_fans) ''o1'' = Some t" by auto
  from used_key_unlocks_free [OF this demo_fans_facts(2,4), of 9 "''fan''"] show ?thesis by (auto simp: demo_room_def)
qed


section \<open>Odd pages\<close>

text \<open>The \<open>Following\<close> tab is sorted by the exchange sort of \<open>Social\<close>, newest first.\<close>

interpretation by_start: exchange started_later
  by unfold_locales (auto simp: started_later_def Before_def)

lemma sortByStarted_newest:
  "mset (sortByStarted rooms) = mset rooms" "sorted_wrt (\<lambda>x y. \<not> started_later x y) (sortByStarted rooms)"
  unfolding sortByStarted_def by (rule by_start.mset_sort) (rule by_start.sorted_sort)

text \<open>Cursors are not signed: one with a negative offset makes the slice expression panic.\<close>

lemma forged_cursor_panics:
  assumes "DecodeCursor (fs_unmarshal sv) now raw = Some p" and "cp_Tab p = tb" and "cp_Offset p < 0"
    and "tb = TabForYou \<or> tb = TabHot \<or> tb = TabExplore"
  shows "GetFeed sv ord r now tb user raw limit = Inl FeedPanic"
  using assms by (auto simp: GetFeed_def getRankedFeed_def)

text \<open>The next cursor of a list of notifications is the first item not on the page, and the next call
  starts after it.\<close>

lemma notification_skipped:
  assumes "distinct (map nt_ID ns)" and "notifs_of r a = ns" and "nt_ID (ns ! 50) \<noteq> []" and "50 < length ns"
  shows "NotificationList r a [] 0 = (take 50 ns, nt_ID (ns ! 50)) \<and>
    fst (NotificationList r a (nt_ID (ns ! 50)) 0) = take 50 (drop 51 ns)"
proof -
  have "after_notification (nt_ID x) (pre @ x # post) = Some post"
    if "distinct (map nt_ID (pre @ x # post))" for x pre post
    using that by (induction pre) auto
  moreover have "ns = take 50 ns @ ns ! 50 # drop 51 ns" using id_take_nth_drop [OF assms(4)] by simp
  ultimately have "after_notification (nt_ID (ns ! 50)) ns = Some (drop 51 ns)" using assms(1) by metis
  then show ?thesis using assms(2-4) by (auto simp: NotificationList_def Let_def)
qed

end
