(* ===== verification/Chat.thy ===== *)
theory Chat
  imports GoText Social Auth
begin

text \<open>
  Private chat: conversations and messages with their in-memory store (\<open>chat/chat.go\<close>,
  \<open>chat/mem_repo.go\<close>), the attachments (\<open>chat/attachsvc\<close>) and the service
  (\<open>chat/chatsvc/service.go\<close>) with the closures by which \<open>feed/cmd/api/main.go\<close> joins it to the social
  graph. The store keeps each message once and refers to it by pointers from three maps; here a
  pointer is the message's ID. One clock reading per call.
\<close>

section \<open>Data\<close>

datatype conv_state = StateActive | StateRequest | StateDeclined

datatype chat_error =
    ErrSelfMessage
  | ErrBlocked
  | ErrConversationNotFound
  | ErrNotParticipant
  | ErrEmptyBody
  | ErrMessageNotFound
  | ErrCannotAcceptOwnRequest
  | ErrAttachmentNotDeliverable
  | ChatNilDereference      \<comment> \<open>the run-time panic\<close>

record conversation =
  cv_ID :: string
  cv_ParticipantA :: string
  cv_ParticipantB :: string
  cv_InitiatedBy :: string
  cv_State :: conv_state
  cv_LastMessageAt :: time
  cv_orderSeq :: nat

definition Other :: "conversation \<Rightarrow> string \<Rightarrow> string" where
  "Other c accountID = (if cv_ParticipantA c = accountID then cv_ParticipantB c else cv_ParticipantA c)"

definition ConvHasParticipant :: "conversation \<Rightarrow> string \<Rightarrow> bool" where
  "ConvHasParticipant c accountID \<longleftrightarrow> cv_ParticipantA c = accountID \<or> cv_ParticipantB c = accountID"

record message =
  ms_ID :: string
  ms_ConversationID :: string
  ms_SenderID :: string
  ms_ClientMsgID :: string
  ms_Body :: string
  ms_AttachmentID :: string
  ms_Seq :: nat
  ms_DeliveredAt :: time
  ms_ReadAt :: "time option"
  ms_DeletedForMe :: "(string \<times> bool) list"
  ms_DeletedForAll :: bool
  ms_CreatedAt :: time

definition deleted_for :: "message \<Rightarrow> string \<Rightarrow> bool" where
  "deleted_for m viewerID \<longleftrightarrow> map_of (ms_DeletedForMe m) viewerID = Some True"

record conversation_summary =
  sm_Conversation :: conversation
  sm_LastMessage :: "message option"
  sm_UnreadCount :: nat

section \<open>The store\<close>

record mem_chat =
  cm_byID :: "(string \<times> conversation) list"
  cm_byPair :: "((string \<times> string) \<times> string) list"
  cm_messages :: "(string \<times> string list) list"                  \<comment> \<open>conversation, message IDs in order\<close>
  cm_msgByClientID :: "((string \<times> string) \<times> string) list"
  cm_msgByID :: "(string \<times> message) list"
  cm_globalOrder :: nat
  cm_msgSeq :: nat

definition NewMemChatRepo :: mem_chat where
  "NewMemChatRepo = \<lparr>cm_byID = [], cm_byPair = [], cm_messages = [], cm_msgByClientID = [], cm_msgByID = [],
     cm_globalOrder = 0, cm_msgSeq = 0\<rparr>"

definition orderedPair :: "string \<Rightarrow> string \<Rightarrow> string \<times> string" where
  "orderedPair a b = (if a < b then (a, b) else (b, a))"

definition message_ids :: "mem_chat \<Rightarrow> string \<Rightarrow> string list" where
  "message_ids r conversationID = (case map_of (cm_messages r) conversationID of None \<Rightarrow> [] | Some ids \<Rightarrow> ids)"

text \<open>\<open>r.messages[conversationID]\<close>\<close>

definition messages_of :: "mem_chat \<Rightarrow> string \<Rightarrow> message list" where
  "messages_of r conversationID = List.map_filter (map_of (cm_msgByID r)) (message_ids r conversationID)"

definition GetOrCreateConversation :: "mem_chat \<Rightarrow> string \<Rightarrow> string \<Rightarrow> string \<Rightarrow> conv_state \<Rightarrow>
    (chat_error + conversation) \<times> mem_chat" where
  "GetOrCreateConversation r accountA accountB initiatedBy initialState =
     (let (a, b) = orderedPair accountA accountB in
      case map_of (cm_byPair r) (a, b) of
        Some i \<Rightarrow> (case map_of (cm_byID r) i of None \<Rightarrow> (Inl ChatNilDereference, r) | Some c \<Rightarrow> (Inr c, r))
      | None \<Rightarrow>
          let n = Suc (cm_globalOrder r);
              c = \<lparr>cv_ID = ''conv-'' @ a @ ''-'' @ b, cv_ParticipantA = a, cv_ParticipantB = b, cv_InitiatedBy = initiatedBy,
                cv_State = initialState, cv_LastMessageAt = 0, cv_orderSeq = n\<rparr>
          in (Inr c, r\<lparr>cm_globalOrder := n, cm_byID := AList.update (cv_ID c) c (cm_byID r),
                cm_byPair := AList.update (a, b) (cv_ID c) (cm_byPair r)\<rparr>))"

definition GetConversation :: "mem_chat \<Rightarrow> string \<Rightarrow> chat_error + conversation" where
  "GetConversation r i = (case map_of (cm_byID r) i of None \<Rightarrow> Inl ErrConversationNotFound | Some c \<Rightarrow> Inr c)"

definition SetConversationState :: "mem_chat \<Rightarrow> string \<Rightarrow> conv_state \<Rightarrow> chat_error option \<times> mem_chat" where
  "SetConversationState r i state =
     (case map_of (cm_byID r) i of
        None \<Rightarrow> (Some ErrConversationNotFound, r)
      | Some c \<Rightarrow> (None, r\<lparr>cm_byID := AList.update i (c\<lparr>cv_State := state\<rparr>) (cm_byID r)\<rparr>))"

definition lastMessageLocked :: "mem_chat \<Rightarrow> string \<Rightarrow> message option" where
  "lastMessageLocked r conversationID =
     (let msgs = messages_of r conversationID in if msgs = [] then None else Some (last msgs))"

definition unreadCountLocked :: "mem_chat \<Rightarrow> string \<Rightarrow> string \<Rightarrow> nat" where
  "unreadCountLocked r conversationID viewerID =
     length (filter (\<lambda>m. ms_SenderID m \<noteq> viewerID \<and> ms_ReadAt m = None \<and> \<not> deleted_for m viewerID \<and> \<not> ms_DeletedForAll m)
       (messages_of r conversationID))"

text \<open>\<open>ord\<close> is the order in which the conversations are met.\<close>

type_synonym conv_order = "(string \<times> conversation) list \<Rightarrow> (string \<times> conversation) list"

definition in_folder :: "string \<Rightarrow> string \<Rightarrow> conversation \<Rightarrow> bool" where
  "in_folder folder accountID c \<longleftrightarrow> ConvHasParticipant c accountID \<and>
     (if folder = ''requests'' then cv_State c = StateRequest \<and> cv_InitiatedBy c \<noteq> accountID
      else cv_State c = StateActive \<or> cv_State c = StateRequest \<and> cv_InitiatedBy c = accountID)"

fun after_conversation :: "string \<Rightarrow> conversation list \<Rightarrow> conversation list option" where
  "after_conversation cursor [] = None"
| "after_conversation cursor (c # cs) = (if cv_ID c = cursor then Some cs else after_conversation cursor cs)"

definition summary_of :: "mem_chat \<Rightarrow> string \<Rightarrow> conversation \<Rightarrow> conversation_summary" where
  "summary_of r accountID c = \<lparr>sm_Conversation = c, sm_LastMessage = lastMessageLocked r (cv_ID c),
     sm_UnreadCount = unreadCountLocked r (cv_ID c) accountID\<rparr>"

definition MemListConversations :: "conv_order \<Rightarrow> mem_chat \<Rightarrow> string \<Rightarrow> string \<Rightarrow> string \<Rightarrow> int \<Rightarrow>
    conversation_summary list \<times> string" where
  "MemListConversations ord r accountID folder cursor limit =
     (let lim = (if limit \<le> 0 \<or> 100 < limit then 50 else nat limit);
          ranked = sort_key (\<lambda>c. - int (cv_orderSeq c)) (filter (in_folder folder accountID) (map snd (ord (cm_byID r))));
          matches = (if cursor = [] then ranked else case after_conversation cursor ranked of None \<Rightarrow> ranked | Some cs \<Rightarrow> cs);
          out = map (summary_of r accountID) (take (lim + 1) matches)
      in if lim < length out then (take lim out, cv_ID (sm_Conversation (out ! (lim - 1)))) else (out, []))"

definition InsertMessage :: "mem_chat \<Rightarrow> time \<Rightarrow> string \<Rightarrow> string \<Rightarrow> string \<Rightarrow> string \<Rightarrow> string \<Rightarrow>
    (chat_error + message \<times> bool) \<times> mem_chat" where
  "InsertMessage r now conversationID senderID clientMsgID body attachmentID =
     (case map_of (cm_msgByClientID r) (conversationID, clientMsgID) of
        Some i \<Rightarrow> (case map_of (cm_msgByID r) i of None \<Rightarrow> (Inl ChatNilDereference, r) | Some m \<Rightarrow> (Inr (m, False), r))
      | None \<Rightarrow>
          (case map_of (cm_byID r) conversationID of
             None \<Rightarrow> (Inl ErrConversationNotFound, r)
           | Some c \<Rightarrow>
               let n = Suc (cm_msgSeq r); ord = Suc (cm_globalOrder r);
                   m = \<lparr>ms_ID = ''msg-'' @ itoa_loop n [], ms_ConversationID = conversationID, ms_SenderID = senderID,
                     ms_ClientMsgID = clientMsgID, ms_Body = body, ms_AttachmentID = attachmentID,
                     ms_Seq = length (message_ids r conversationID) + 1, ms_DeliveredAt = now, ms_ReadAt = None,
                     ms_DeletedForMe = [], ms_DeletedForAll = False, ms_CreatedAt = now\<rparr>
               in (Inr (m, True), r\<lparr>cm_msgSeq := n, cm_globalOrder := ord,
                     cm_messages := AList.update conversationID (message_ids r conversationID @ [ms_ID m]) (cm_messages r),
                     cm_msgByClientID := AList.update (conversationID, clientMsgID) (ms_ID m) (cm_msgByClientID r),
                     cm_msgByID := AList.update (ms_ID m) m (cm_msgByID r),
                     cm_byID := AList.update conversationID (c\<lparr>cv_LastMessageAt := now, cv_orderSeq := ord\<rparr>) (cm_byID r)\<rparr>)))"

text \<open>\<open>parseUint\<close> wraps modulo \<open>2 ^ 64\<close>, as \<open>parse_digits\<close> does.\<close>

definition parseUint :: "string \<Rightarrow> nat option" where
  "parseUint s = (if s = [] then None else parse_digits 0 s)"

definition chat_itoa :: "nat \<Rightarrow> string" where
  "chat_itoa n = (if n = 0 then ''0'' else itoa_loop n [])"

definition MemListMessages :: "mem_chat \<Rightarrow> string \<Rightarrow> string \<Rightarrow> int \<Rightarrow> message list \<times> string" where
  "MemListMessages r conversationID cursor limit =
     (let lim = (if limit \<le> 0 \<or> 200 < limit then 50 else nat limit);
          everything = messages_of r conversationID;
          rest = (case parseUint cursor of
                    None \<Rightarrow> everything
                  | Some n \<Rightarrow> dropWhile (\<lambda>m. \<not> n < ms_Seq m) everything);
          out = take (lim + 1) rest
      in if lim < length out then (take lim out, chat_itoa (ms_Seq (out ! (lim - 1)))) else (out, []))"

definition GetMessage :: "mem_chat \<Rightarrow> string \<Rightarrow> chat_error + message" where
  "GetMessage r i = (case map_of (cm_msgByID r) i of None \<Rightarrow> Inl ErrMessageNotFound | Some m \<Rightarrow> Inr m)"

text \<open>The loop over the messages of a conversation writes through the pointers.\<close>

primrec mark_all :: "time \<Rightarrow> string \<Rightarrow> nat \<Rightarrow> (string \<times> message) list \<Rightarrow> string list \<Rightarrow> (string \<times> message) list" where
  "mark_all now viewerID upToSeq ms [] = ms"
| "mark_all now viewerID upToSeq ms (i # ids) =
     mark_all now viewerID upToSeq
       (case map_of ms i of
          None \<Rightarrow> ms
        | Some m \<Rightarrow>
            if ms_SenderID m \<noteq> viewerID \<and> ms_Seq m \<le> upToSeq \<and> ms_ReadAt m = None
            then AList.update i (m\<lparr>ms_ReadAt := Some now\<rparr>) ms else ms) ids"

definition MemMarkRead :: "mem_chat \<Rightarrow> time \<Rightarrow> string \<Rightarrow> string \<Rightarrow> nat \<Rightarrow> chat_error option \<times> mem_chat" where
  "MemMarkRead r now conversationID viewerID upToSeq =
     (case map_of (cm_byID r) conversationID of
        None \<Rightarrow> (Some ErrConversationNotFound, r)
      | Some c \<Rightarrow> (None, r\<lparr>cm_msgByID := mark_all now viewerID upToSeq (cm_msgByID r) (message_ids r conversationID)\<rparr>))"

definition MemDeleteMessage :: "mem_chat \<Rightarrow> string \<Rightarrow> string \<Rightarrow> bool \<Rightarrow> chat_error option \<times> mem_chat" where
  "MemDeleteMessage r messageID viewerID everyone =
     (case map_of (cm_msgByID r) messageID of
        None \<Rightarrow> (Some ErrMessageNotFound, r)
      | Some m \<Rightarrow>
          (case map_of (cm_byID r) (ms_ConversationID m) of
             None \<Rightarrow> (Some ErrNotParticipant, r)
           | Some c \<Rightarrow>
               if \<not> ConvHasParticipant c viewerID then (Some ErrNotParticipant, r)
               else if everyone then
                 if ms_SenderID m \<noteq> viewerID then (Some ErrNotParticipant, r)
                 else (None, r\<lparr>cm_msgByID := AList.update messageID (m\<lparr>ms_DeletedForAll := True, ms_Body := []\<rparr>) (cm_msgByID r)\<rparr>)
               else (None, r\<lparr>cm_msgByID := AList.update messageID
                 (m\<lparr>ms_DeletedForMe := AList.update viewerID True (ms_DeletedForMe m)\<rparr>) (cm_msgByID r)\<rparr>)))"


section \<open>Attachments\<close>

datatype attach_status = StatusPendingUpload | StatusClean | StatusBlocked

datatype attach_error =
    AttachNotFound
  | AttachNotOwner
  | AttachTooLarge
  | AttachEmpty
  | AlreadyUploaded
  | NotDeliverable

record attachment =
  at_ID :: string
  at_OwnerID :: string
  at_ContentType :: string
  at_Filename :: string
  at_Size :: nat
  at_Status :: attach_status
  at_BlockReason :: string
  at_Data :: string
  at_CreatedAt :: time

record attach_service =
  av_byID :: "(string \<times> attachment) list"
  av_seq :: nat

definition NewAttachService :: attach_service where
  "NewAttachService = \<lparr>av_byID = [], av_seq = 0\<rparr>"

definition MaxAttachmentBytes :: nat where
  "MaxAttachmentBytes = 10 * 2 ^ 20"

text \<open>The backslash of the signature is byte \<open>0x5C\<close>.\<close>

definition eicarSignature :: string where
  "eicarSignature = ''X5O!P%@AP[4'' @ [CHR 0x5C] @ ''PZX54(P^)7CC)7}$EICAR-STANDARD-ANTIVIRUS-TEST-FILE!$H+H*''"

definition CreateUploadSlot :: "attach_service \<Rightarrow> time \<Rightarrow> string \<Rightarrow> string \<Rightarrow> string \<Rightarrow> attachment \<times> attach_service" where
  "CreateUploadSlot s now ownerID contentType filename =
     (let n = Suc (av_seq s);
          a = \<lparr>at_ID = ''att-'' @ itoa_loop n [], at_OwnerID = ownerID, at_ContentType = contentType, at_Filename = filename,
            at_Size = 0, at_Status = StatusPendingUpload, at_BlockReason = [], at_Data = [], at_CreatedAt = now\<rparr>
      in (a, s\<lparr>av_seq := n, av_byID := AList.update (at_ID a) a (av_byID s)\<rparr>))"

definition scan :: "string \<Rightarrow> bool \<times> string" where
  "scan data = (if Contains data eicarSignature then (False, ''malicious content detected (EICAR test signature)'') else (True, []))"

definition Upload :: "attach_service \<Rightarrow> string \<Rightarrow> string \<Rightarrow> string \<Rightarrow> (attach_error + attachment) \<times> attach_service" where
  "Upload s ownerID attachmentID data =
     (if length data = 0 then (Inl AttachEmpty, s)
      else if MaxAttachmentBytes < length data then (Inl AttachTooLarge, s)
      else (case map_of (av_byID s) attachmentID of
              None \<Rightarrow> (Inl AttachNotFound, s)
            | Some a \<Rightarrow>
                if at_OwnerID a \<noteq> ownerID then (Inl AttachNotOwner, s)
                else if at_Status a \<noteq> StatusPendingUpload then (Inl AlreadyUploaded, s)
                else
                  (let (clean, reason) = scan data;
                       a = (if \<not> clean then a\<lparr>at_Status := StatusBlocked, at_BlockReason := reason\<rparr>
                            else a\<lparr>at_Status := StatusClean, at_Data := data, at_Size := length data\<rparr>)
                   in (Inr a, s\<lparr>av_byID := AList.update attachmentID a (av_byID s)\<rparr>))))"

definition AttachGet :: "attach_service \<Rightarrow> string \<Rightarrow> attach_error + attachment" where
  "AttachGet s i = (case map_of (av_byID s) i of None \<Rightarrow> Inl AttachNotFound | Some a \<Rightarrow> Inr a)"

definition Download :: "attach_service \<Rightarrow> string \<Rightarrow> attach_error + attachment" where
  "Download s i =
     (case map_of (av_byID s) i of
        None \<Rightarrow> Inl AttachNotFound
      | Some a \<Rightarrow> if at_Status a \<noteq> StatusClean then Inl NotDeliverable else Inr a)"

definition IsDeliverable :: "attach_service \<Rightarrow> string \<Rightarrow> string \<Rightarrow> attach_error + bool" where
  "IsDeliverable s attachmentID ownerAccountID =
     (case AttachGet s attachmentID of
        Inl AttachNotFound \<Rightarrow> Inr False
      | Inl err \<Rightarrow> Inl err
      | Inr a \<Rightarrow> Inr (at_Status a = StatusClean \<and> at_OwnerID a = ownerAccountID))"

section \<open>The service\<close>

text \<open>What the service of \<open>main.go\<close> is built from: the repository, the social graph behind the two closures,
  and the attachments. The message hook is called with a list of notes, at most one.\<close>

record chat_world =
  cw_repo :: mem_chat
  cw_social :: mem_social
  cw_attachments :: attach_service

definition chat_isBlocked :: "chat_world \<Rightarrow> string \<Rightarrow> string \<Rightarrow> bool" where
  "chat_isBlocked w a b = (let rel = GetRelationship (cw_social w) a b in rl_Blocked rel \<or> rl_BlockedBy rel)"

definition chat_isMutual :: "chat_world \<Rightarrow> string \<Rightarrow> string \<Rightarrow> bool" where
  "chat_isMutual w a b = (let rel = GetRelationship (cw_social w) a b in rl_Following rel \<and> rl_FollowedBy rel)"

definition StartConversation :: "chat_world \<Rightarrow> string \<Rightarrow> string \<Rightarrow> (chat_error + conversation) \<times> chat_world" where
  "StartConversation w accountID otherID =
     (if accountID = otherID then (Inl ErrSelfMessage, w)
      else if chat_isBlocked w accountID otherID then (Inl ErrBlocked, w)
      else
        (let initialState = (if chat_isMutual w accountID otherID then StateActive else StateRequest);
             (res, r) = GetOrCreateConversation (cw_repo w) accountID otherID accountID initialState
         in (res, w\<lparr>cw_repo := r\<rparr>)))"

definition SendMessage :: "chat_world \<Rightarrow> time \<Rightarrow> string \<Rightarrow> string \<Rightarrow> string \<Rightarrow> string \<Rightarrow> string \<Rightarrow>
    (chat_error + message \<times> bool) \<times> chat_world \<times> (string \<times> string \<times> string) list" where
  "SendMessage w now senderID conversationID clientMsgID body attachmentID =
     (if body = [] \<and> attachmentID = [] then (Inl ErrEmptyBody, w, [])
      else
        (case GetConversation (cw_repo w) conversationID of
           Inl err \<Rightarrow> (Inl err, w, [])
         | Inr conv \<Rightarrow>
             if \<not> ConvHasParticipant conv senderID then (Inl ErrNotParticipant, w, [])
             else if chat_isBlocked w senderID (Other conv senderID) then (Inl ErrBlocked, w, [])
             else if attachmentID \<noteq> [] \<and> IsDeliverable (cw_attachments w) attachmentID senderID \<noteq> Inr True
               then (Inl ErrAttachmentNotDeliverable, w, [])
             else
               (let (res, r) = InsertMessage (cw_repo w) now conversationID senderID clientMsgID body attachmentID
                in (res, w\<lparr>cw_repo := r\<rparr>,
                    case res of Inr (m, True) \<Rightarrow> [(senderID, Other conv senderID, body)] | _ \<Rightarrow> []))))"

definition IsParticipant :: "chat_world \<Rightarrow> string \<Rightarrow> string \<Rightarrow> chat_error + bool" where
  "IsParticipant w conversationID accountID =
     (case GetConversation (cw_repo w) conversationID of Inl err \<Rightarrow> Inl err | Inr conv \<Rightarrow> Inr (ConvHasParticipant conv accountID))"

definition ListConversations :: "conv_order \<Rightarrow> chat_world \<Rightarrow> string \<Rightarrow> string \<Rightarrow> string \<Rightarrow> int \<Rightarrow>
    conversation_summary list \<times> string" where
  "ListConversations ord w accountID folder cursor limit = MemListConversations ord (cw_repo w) accountID folder cursor limit"

definition ListMessages :: "chat_world \<Rightarrow> string \<Rightarrow> string \<Rightarrow> string \<Rightarrow> int \<Rightarrow> chat_error + message list \<times> string" where
  "ListMessages w viewerID conversationID cursor limit =
     (case GetConversation (cw_repo w) conversationID of
        Inl err \<Rightarrow> Inl err
      | Inr conv \<Rightarrow>
          if \<not> ConvHasParticipant conv viewerID then Inl ErrNotParticipant
          else (let (everything, next) = MemListMessages (cw_repo w) conversationID cursor limit
                in Inr (filter (\<lambda>m. \<not> deleted_for m viewerID) everything, next)))"

definition MarkRead :: "chat_world \<Rightarrow> time \<Rightarrow> string \<Rightarrow> string \<Rightarrow> nat \<Rightarrow> chat_error option \<times> chat_world" where
  "MarkRead w now viewerID conversationID upToSeq =
     (case GetConversation (cw_repo w) conversationID of
        Inl err \<Rightarrow> (Some err, w)
      | Inr conv \<Rightarrow>
          if \<not> ConvHasParticipant conv viewerID then (Some ErrNotParticipant, w)
          else (let (err, r) = MemMarkRead (cw_repo w) now conversationID viewerID upToSeq in (err, w\<lparr>cw_repo := r\<rparr>)))"

definition DeleteMessage :: "chat_world \<Rightarrow> string \<Rightarrow> string \<Rightarrow> string \<Rightarrow> chat_error option \<times> chat_world" where
  "DeleteMessage w viewerID messageID scope =
     (let (err, r) = MemDeleteMessage (cw_repo w) messageID viewerID (scope = ''everyone'') in (err, w\<lparr>cw_repo := r\<rparr>))"

text \<open>\<open>AcceptRequest\<close> and \<open>DeclineRequest\<close> differ in the new state only.\<close>

definition answer_request :: "chat_world \<Rightarrow> string \<Rightarrow> string \<Rightarrow> conv_state \<Rightarrow> chat_error option \<times> chat_world" where
  "answer_request w viewerID conversationID state =
     (case GetConversation (cw_repo w) conversationID of
        Inl err \<Rightarrow> (Some err, w)
      | Inr conv \<Rightarrow>
          if \<not> ConvHasParticipant conv viewerID then (Some ErrNotParticipant, w)
          else if cv_InitiatedBy conv = viewerID then (Some ErrCannotAcceptOwnRequest, w)
          else (let (err, r) = SetConversationState (cw_repo w) conversationID state in (err, w\<lparr>cw_repo := r\<rparr>)))"

definition AcceptRequest :: "chat_world \<Rightarrow> string \<Rightarrow> string \<Rightarrow> chat_error option \<times> chat_world" where
  "AcceptRequest w viewerID conversationID = answer_request w viewerID conversationID StateActive"

definition DeclineRequest :: "chat_world \<Rightarrow> string \<Rightarrow> string \<Rightarrow> chat_error option \<times> chat_world" where
  "DeclineRequest w viewerID conversationID = answer_request w viewerID conversationID StateDeclined"

text \<open>The two closures of \<open>main.go\<close> for the gateway: the fields of the message that goes out, and the read receipt.\<close>

definition sendPrivateMessage :: "chat_world \<Rightarrow> time \<Rightarrow> string \<Rightarrow> string \<Rightarrow> string \<Rightarrow> string \<Rightarrow> string \<Rightarrow>
    (chat_error + string \<times> string \<times> string \<times> string \<times> nat \<times> time) \<times> chat_world \<times> (string \<times> string \<times> string) list" where
  "sendPrivateMessage w now senderID conversationID clientMsgID body attachmentID =
     (case SendMessage w now senderID conversationID clientMsgID body attachmentID of
        (Inl err, w', notes) \<Rightarrow> (Inl err, w', notes)
      | (Inr (m, _), w', notes) \<Rightarrow>
          (Inr (ms_ID m, ms_SenderID m, ms_Body m, ms_AttachmentID m, ms_Seq m, ms_DeliveredAt m), w', notes))"

definition markConvRead :: "chat_world \<Rightarrow> time \<Rightarrow> string \<Rightarrow> string \<Rightarrow> nat \<Rightarrow> chat_error option \<times> chat_world" where
  "markConvRead w now viewerID conversationID upToSeq = MarkRead w now viewerID conversationID upToSeq"

section \<open>Runs\<close>

text \<open>What one account asks for; \<open>SocialChange\<close> stands for everything that happens to the social graph meanwhile.\<close>

datatype chat_act =
    Start string
  | Send string string string string
  | Read string nat
  | DeleteMsg string string
  | Accept string
  | Decline string
  | NewSlot string string
  | UploadTo string string
  | SocialChange mem_social

fun chat_step :: "chat_world \<Rightarrow> time \<Rightarrow> string \<Rightarrow> chat_act \<Rightarrow> chat_world" where
  "chat_step w now a (Start other) = snd (StartConversation w a other)"
| "chat_step w now a (Send conv cid body att) = fst (snd (SendMessage w now a conv cid body att))"
| "chat_step w now a (Read conv n) = snd (MarkRead w now a conv n)"
| "chat_step w now a (DeleteMsg i scope) = snd (DeleteMessage w a i scope)"
| "chat_step w now a (Accept conv) = snd (AcceptRequest w a conv)"
| "chat_step w now a (Decline conv) = snd (DeclineRequest w a conv)"
| "chat_step w now a (NewSlot ct name) = w\<lparr>cw_attachments := snd (CreateUploadSlot (cw_attachments w) now a ct name)\<rparr>"
| "chat_step w now a (UploadTo i data) = w\<lparr>cw_attachments := snd (Upload (cw_attachments w) a i data)\<rparr>"
| "chat_step w now a (SocialChange s) = w\<lparr>cw_social := s\<rparr>"

inductive chat_steps :: "chat_world \<Rightarrow> chat_world \<Rightarrow> bool" where
  steps_refl: "chat_steps w w"
| steps_step: "chat_steps w w' \<Longrightarrow> chat_steps w (chat_step w' now a act)"

definition new_chat_world :: chat_world where
  "new_chat_world = \<lparr>cw_repo = NewMemChatRepo, cw_social = NewMemSocialRepo, cw_attachments = NewAttachService\<rparr>"


section \<open>The invariant\<close>

text \<open>The part of a message that no operation changes.\<close>

definition msg_key :: "message \<Rightarrow> string \<times> string \<times> string \<times> string \<times> string \<times> nat" where
  "msg_key m = (ms_ID m, ms_ConversationID m, ms_SenderID m, ms_ClientMsgID m, ms_AttachmentID m, ms_Seq m)"

definition key_at :: "(string \<times> message) list \<Rightarrow> string \<Rightarrow> (string \<times> string \<times> string \<times> string \<times> string \<times> nat) option" where
  "key_at ms i = map_option msg_key (map_of ms i)"

definition msg_name :: "nat \<Rightarrow> string" where
  "msg_name n = ''msg-'' @ itoa_loop n []"

lemma msg_name_inj [simp]: "msg_name m = msg_name n \<longleftrightarrow> m = n"
  by (simp add: msg_name_def itoa_loop_inj)

text \<open>Row \<open>k\<close> of a conversation is message number \<open>k + 1\<close>, every message is in the list of its conversation, and
  the client keys lead to messages with that key.\<close>

definition rows_ok :: "(string \<Rightarrow> string list) \<Rightarrow> (string \<times> message) list \<Rightarrow> bool" where
  "rows_ok ids ms \<longleftrightarrow>
     (\<forall>c k. k < length (ids c) \<longrightarrow> (\<exists>s cid att. key_at ms (ids c ! k) = Some (ids c ! k, c, s, cid, att, k + 1)))"

definition known_ok :: "(string \<Rightarrow> string list) \<Rightarrow> nat \<Rightarrow> (string \<times> message) list \<Rightarrow> bool" where
  "known_ok ids N ms \<longleftrightarrow>
     (\<forall>i j c s cid att q. key_at ms i = Some (j, c, s, cid, att, q) \<longrightarrow> j = i \<and> i \<in> set (ids c) \<and> (\<exists>n\<le>N. i = msg_name n))"

definition clients_ok :: "((string \<times> string) \<times> string) list \<Rightarrow> (string \<times> message) list \<Rightarrow> bool" where
  "clients_ok cl ms \<longleftrightarrow>
     (\<forall>c cid i. map_of cl (c, cid) = Some i \<longrightarrow> (\<exists>s att q. key_at ms i = Some (i, c, s, cid, att, q)))"

definition chat_inv :: "mem_chat \<Rightarrow> bool" where
  "chat_inv r \<longleftrightarrow> rows_ok (message_ids r) (cm_msgByID r) \<and> known_ok (message_ids r) (cm_msgSeq r) (cm_msgByID r) \<and>
     clients_ok (cm_msgByClientID r) (cm_msgByID r)"

lemma chat_inv_cong:
  assumes "message_ids r' = message_ids r" "cm_msgSeq r' = cm_msgSeq r" "cm_msgByClientID r' = cm_msgByClientID r"
    "key_at (cm_msgByID r') = key_at (cm_msgByID r)"
  shows "chat_inv r' = chat_inv r"
  by (simp add: chat_inv_def rows_ok_def known_ok_def clients_ok_def assms)

lemma key_at_update_same:
  "map_of ms i = Some m \<Longrightarrow> msg_key m' = msg_key m \<Longrightarrow> key_at (AList.update i m' ms) = key_at ms"
  by (auto simp: key_at_def fun_eq_iff)

lemma key_at_mark_all: "key_at (mark_all now v n ms ids) = key_at ms"
  by (induction ids arbitrary: ms) (auto split: option.splits simp: key_at_update_same msg_key_def)

lemma GetOrCreate_cases:
  assumes "GetOrCreateConversation r a b by0 st = (res, r')"
  shows "message_ids r' = message_ids r \<and> cm_msgSeq r' = cm_msgSeq r \<and> cm_msgByClientID r' = cm_msgByClientID r \<and>
    cm_msgByID r' = cm_msgByID r"
  using assms by (auto simp: GetOrCreateConversation_def Let_def message_ids_def [abs_def] split: prod.splits option.splits)

lemma InsertMessage_inv:
  assumes inv: "chat_inv r" and ins: "InsertMessage r now c s cid body att = (res, r')"
  shows "chat_inv r'"
proof (cases "map_of (cm_msgByClientID r) (c, cid) = None \<and> map_of (cm_byID r) c \<noteq> None")
  case False
  then have "r' = r"
    using ins by (auto simp: InsertMessage_def split: option.splits)
  then show ?thesis using inv by simp
next
  case True
  define i where "i = msg_name (Suc (cm_msgSeq r))"
  define ids where "ids = message_ids r"
  define ids' where "ids' = ids(c := ids c @ [i])"
  define m where "m = \<lparr>ms_ID = i, ms_ConversationID = c, ms_SenderID = s, ms_ClientMsgID = cid, ms_Body = body, ms_AttachmentID = att,
     ms_Seq = length (ids c) + 1, ms_DeliveredAt = now, ms_ReadAt = None, ms_DeletedForMe = [], ms_DeletedForAll = False, ms_CreatedAt = now\<rparr>"
  have r': "message_ids r' = ids'" "cm_msgSeq r' = Suc (cm_msgSeq r)" "cm_msgByID r' = AList.update i m (cm_msgByID r)"
    "cm_msgByClientID r' = AList.update (c, cid) i (cm_msgByClientID r)"
    using ins True by (auto simp: InsertMessage_def Let_def message_ids_def [abs_def] i_def m_def ids_def ids'_def msg_name_def fun_eq_iff split: option.splits)
  have key: "key_at (cm_msgByID r') = (key_at (cm_msgByID r))(i \<mapsto> (i, c, s, cid, att, length (ids c) + 1))"
    by (auto simp: r' key_at_def fun_eq_iff m_def msg_key_def)
  have R: "rows_ok ids (cm_msgByID r)" and K: "known_ok ids (cm_msgSeq r) (cm_msgByID r)"
    and C: "clients_ok (cm_msgByClientID r) (cm_msgByID r)"
    using inv by (auto simp: chat_inv_def ids_def)
  have fresh: "key_at (cm_msgByID r) i = None"
  proof (rule ccontr)
    assume "key_at (cm_msgByID r) i \<noteq> None"
    then obtain j c0 s0 cid0 a0 q0 where "key_at (cm_msgByID r) i = Some (j, c0, s0, cid0, a0, q0)"
      by (cases "key_at (cm_msgByID r) i") auto
    then obtain n where "n \<le> cm_msgSeq r" "i = msg_name n"
      using K unfolding known_ok_def by blast
    then show False by (simp add: i_def)
  qed
  have old: "d ! k \<noteq> i" if "d = ids e" "k < length d" for d e k
    using R fresh that unfolding rows_ok_def by (metis option.distinct(1))
  have unused: "map_of (cm_msgByClientID r) p \<noteq> Some i" for p
    using C fresh by (cases p) (force simp: clients_ok_def)
  have "rows_ok ids' (cm_msgByID r')"
    unfolding rows_ok_def
  proof (intro allI impI)
    fix e k assume k: "k < length (ids' e)"
    show "\<exists>s cid att. key_at (cm_msgByID r') (ids' e ! k) = Some (ids' e ! k, e, s, cid, att, k + 1)"
    proof (cases "e = c \<and> k = length (ids c)")
      case True
      then show ?thesis by (simp add: key ids'_def)
    next
      case False
      then have k': "k < length (ids e)" and nth: "ids' e ! k = ids e ! k"
        using k by (auto simp: ids'_def nth_append split: if_splits)
      then show ?thesis
        using R old [OF refl k'] unfolding rows_ok_def nth key by simp
    qed
  qed
  moreover have "known_ok ids' (Suc (cm_msgSeq r)) (cm_msgByID r')"
    unfolding known_ok_def
  proof (intro allI impI)
    fix i' j c' s' cid' att' q'
    assume h: "key_at (cm_msgByID r') i' = Some (j, c', s', cid', att', q')"
    show "j = i' \<and> i' \<in> set (ids' c') \<and> (\<exists>n\<le>Suc (cm_msgSeq r). i' = msg_name n)"
    proof (cases "i' = i")
      case True
      then show ?thesis using h by (auto simp: key ids'_def i_def)
    next
      case False
      then have "key_at (cm_msgByID r) i' = Some (j, c', s', cid', att', q')" using h by (simp add: key)
      then have "j = i' \<and> i' \<in> set (ids c') \<and> (\<exists>n\<le>cm_msgSeq r. i' = msg_name n)" using K unfolding known_ok_def by blast
      then show ?thesis by (auto simp: ids'_def intro: le_SucI)
    qed
  qed
  moreover have "clients_ok (cm_msgByClientID r') (cm_msgByID r')"
    using C unused unfolding clients_ok_def r'(4) key by auto
  ultimately show ?thesis by (simp add: chat_inv_def r')
qed

lemma InsertMessage_ids:
  assumes "InsertMessage r now c s cid body att = (res, r')"
  shows "\<exists>new. message_ids r' = (message_ids r)(c := message_ids r c @ new) \<and> (new \<noteq> [] \<longrightarrow> map_of (cm_byID r) c \<noteq> None)"
proof (cases "map_of (cm_msgByClientID r) (c, cid) = None \<and> map_of (cm_byID r) c \<noteq> None")
  case False
  then have "r' = r"
    using assms by (auto simp: InsertMessage_def split: option.splits)
  then show ?thesis by (intro exI [of _ "[]"]) simp
next
  case True
  then show ?thesis
    using assms by (intro exI [of _ "[msg_name (Suc (cm_msgSeq r))]"])
      (auto simp: InsertMessage_def Let_def message_ids_def [abs_def] msg_name_def fun_eq_iff split: option.splits)
qed

text \<open>What one step does to the repository: it sends, or it keeps the messages and their keys.\<close>

definition keeps :: "chat_world \<Rightarrow> chat_world \<Rightarrow> bool" where
  "keeps w w' \<longleftrightarrow> message_ids (cw_repo w') = message_ids (cw_repo w) \<and> cm_msgSeq (cw_repo w') = cm_msgSeq (cw_repo w) \<and>
     cm_msgByClientID (cw_repo w') = cm_msgByClientID (cw_repo w) \<and>
     key_at (cm_msgByID (cw_repo w')) = key_at (cm_msgByID (cw_repo w)) \<and> cw_attachments w' = cw_attachments w"

lemma StartConversation_keeps: "keeps w (snd (StartConversation w a b))"
  by (auto simp: keeps_def StartConversation_def Let_def dest!: GetOrCreate_cases split: prod.splits)

lemma MarkRead_keeps: "keeps w (snd (MarkRead w now a c n))"
  by (auto simp: keeps_def MarkRead_def MemMarkRead_def key_at_mark_all message_ids_def [abs_def] split: sum.splits option.splits)

lemma DeleteMessage_keeps: "keeps w (snd (DeleteMessage w a i sc))"
  by (auto simp: keeps_def DeleteMessage_def MemDeleteMessage_def message_ids_def [abs_def] msg_key_def
      key_at_update_same split: option.splits)

lemma answer_request_keeps: "keeps w (snd (answer_request w a c st))"
  by (auto simp: keeps_def answer_request_def SetConversationState_def message_ids_def [abs_def] split: sum.splits option.splits)

lemma keeps_inv: "keeps w w' \<Longrightarrow> chat_inv (cw_repo w') = chat_inv (cw_repo w)"
  by (rule chat_inv_cong) (simp_all add: keeps_def)

lemma keeps_ids: "keeps w w' \<Longrightarrow> message_ids (cw_repo w') = message_ids (cw_repo w)"
  by (simp add: keeps_def)

lemmas all_keep = StartConversation_keeps MarkRead_keeps DeleteMessage_keeps answer_request_keeps

lemma SendMessage_cases:
  assumes "SendMessage w now a c cid body att = (res, w', hooks)"
  shows "(w' = w \<and> (\<exists>err. res = Inl err) \<and> hooks = []) \<or>
    (\<exists>conv r'. map_of (cm_byID (cw_repo w)) c = Some conv \<and> ConvHasParticipant conv a \<and> \<not> chat_isBlocked w a (Other conv a) \<and>
       (att = [] \<or> IsDeliverable (cw_attachments w) att a = Inr True) \<and>
       InsertMessage (cw_repo w) now c a cid body att = (res, r') \<and> w' = w\<lparr>cw_repo := r'\<rparr>)"
  using assms by (auto simp: SendMessage_def GetConversation_def Let_def split: if_splits option.splits prod.splits)

lemma chat_step_inv: "chat_inv (cw_repo w) \<Longrightarrow> chat_inv (cw_repo (chat_step w now a act))"
proof (cases act)
  case (Send c cid body att)
  assume inv: "chat_inv (cw_repo w)"
  obtain res w' hooks where s: "SendMessage w now a c cid body att = (res, w', hooks)" by (cases "SendMessage w now a c cid body att")
  have "chat_inv (cw_repo w')"
    using SendMessage_cases [OF s] inv by (auto dest: InsertMessage_inv)
  then show ?thesis by (simp add: Send s)
qed (simp_all add: all_keep [THEN keeps_inv] AcceptRequest_def DeclineRequest_def)

lemma chat_steps_inv: "chat_steps w w' \<Longrightarrow> chat_inv (cw_repo w) \<Longrightarrow> chat_inv (cw_repo w')"
  by (induction rule: chat_steps.induct) (auto intro: chat_step_inv)

lemma chat_inv_new: "chat_inv (cw_repo new_chat_world)"
  by (simp add: chat_inv_def rows_ok_def known_ok_def clients_ok_def key_at_def new_chat_world_def NewMemChatRepo_def message_ids_def)

lemma reach_chat_inv: "chat_steps new_chat_world w \<Longrightarrow> chat_inv (cw_repo w)"
  by (rule chat_steps_inv [OF _ chat_inv_new])

text \<open>A conversation only grows, at its end.\<close>

lemma chat_step_grows: "\<exists>new. message_ids (cw_repo (chat_step w now a act)) c = message_ids (cw_repo w) c @ new"
proof (cases act)
  case (Send c' cid body att)
  obtain res w' hooks where s: "SendMessage w now a c' cid body att = (res, w', hooks)" by (cases "SendMessage w now a c' cid body att")
  have "\<exists>new. message_ids (cw_repo w') c = message_ids (cw_repo w) c @ new"
    using SendMessage_cases [OF s] by (auto dest!: InsertMessage_ids)
  then show ?thesis by (simp add: Send s)
qed (simp_all add: all_keep [THEN keeps_ids] AcceptRequest_def DeclineRequest_def)

lemma chat_steps_grow: "chat_steps w w' \<Longrightarrow> \<exists>new. message_ids (cw_repo w') c = message_ids (cw_repo w) c @ new"
proof (induction rule: chat_steps.induct)
  case (steps_step w w' now a act)
  then show ?case using chat_step_grows [of w' now a act c] by force
qed simp


section \<open>Reading a conversation\<close>

definition numbered :: "mem_chat \<Rightarrow> string \<Rightarrow> (string \<times> nat) list" where
  "numbered r c = zip (message_ids r c) [1..<Suc (length (message_ids r c))]"

definition id_seq :: "message \<Rightarrow> string \<times> nat" where
  "id_seq m = (ms_ID m, ms_Seq m)"

text \<open>A client that follows the cursors; call number \<open>k\<close> meets the \<open>k\<close>-th state.\<close>

fun walk_messages :: "(nat \<Rightarrow> string \<Rightarrow> chat_error + message list \<times> string) \<Rightarrow> nat \<Rightarrow> nat \<Rightarrow> string \<Rightarrow> message list option" where
  "walk_messages page 0 k cursor = None"
| "walk_messages page (Suc fuel) k cursor =
     (case page k cursor of
        Inl _ \<Rightarrow> None
      | Inr (ms, next) \<Rightarrow>
          if next = [] then Some ms else map_option (\<lambda>rest. ms @ rest) (walk_messages page fuel (Suc k) next))"

lemma length_numbered [simp]: "length (numbered r c) = length (message_ids r c)"
  by (simp add: numbered_def del: upt_Suc)

lemma nth_numbered [simp]: "k < length (message_ids r c) \<Longrightarrow> numbered r c ! k = (message_ids r c ! k, k + 1)"
proof -
  assume k: "k < length (message_ids r c)"
  then have "[1..<Suc (length (message_ids r c))] ! k = 1 + k" by (intro nth_upt) simp
  then show ?thesis using k by (simp add: numbered_def del: upt_Suc)
qed

lemma map_filter_total: "\<forall>x \<in> set xs. f x \<noteq> None \<Longrightarrow> List.map_filter f xs = map (the \<circ> f) xs"
  by (induction xs) (auto simp: List.map_filter_def)

lemma messages_numbered:
  assumes "chat_inv r"
  shows "map id_seq (messages_of r c) = numbered r c"
proof (rule nth_equalityI)
  have row: "\<exists>m. map_of (cm_msgByID r) (message_ids r c ! k) = Some m \<and> id_seq m = (message_ids r c ! k, k + 1)"
    if "k < length (message_ids r c)" for k
    using assms that by (fastforce simp: chat_inv_def rows_ok_def key_at_def msg_key_def id_seq_def)
  then have all_there: "\<forall>i \<in> set (message_ids r c). map_of (cm_msgByID r) i \<noteq> None"
    by (fastforce simp: in_set_conv_nth)
  show "length (map id_seq (messages_of r c)) = length (numbered r c)"
    using all_there by (simp add: messages_of_def map_filter_total)
  fix k assume "k < length (map id_seq (messages_of r c))"
  then have k: "k < length (message_ids r c)"
    using all_there by (simp add: messages_of_def map_filter_total)
  then show "map id_seq (messages_of r c) ! k = numbered r c ! k"
    using row [OF k] all_there by (auto simp: messages_of_def map_filter_total)
qed

lemma length_messages_of: "chat_inv r \<Longrightarrow> length (messages_of r c) = length (message_ids r c)"
  by (metis length_map length_numbered messages_numbered)

lemma dropWhile_numbered:
  "\<forall>k < length xs. f (xs ! k) = b + k + (1::nat) \<Longrightarrow> dropWhile (\<lambda>m. \<not> n < f m) xs = drop (n - b) xs"
proof (induction xs arbitrary: b)
  case (Cons x xs)
  have x: "f x = b + 1" using Cons.prems by (metis add_0_right length_Cons nth_Cons_0 zero_less_Suc)
  show ?case
  proof (cases "n \<le> b")
    case False
    have "\<forall>k < length xs. f (xs ! k) = Suc b + k + 1" using Cons.prems by (auto dest: spec [of _ "Suc _"])
    then have "dropWhile (\<lambda>m. \<not> n < f m) xs = drop (n - Suc b) xs" by (rule Cons.IH)
    then show ?thesis using False x by (simp add: drop_Cons' Suc_diff_Suc)
  qed (simp add: x)
qed simp

definition cursor_of :: "nat \<Rightarrow> string" where
  "cursor_of n = (if n = 0 then [] else chat_itoa n)"

definition page_limit :: "int \<Rightarrow> nat" where
  "page_limit limit = (if limit \<le> 0 \<or> 200 < limit then 50 else nat limit)"

lemma page_limit_pos: "0 < page_limit limit"
  by (simp add: page_limit_def)

lemma MemListMessages_page:
  assumes inv: "chat_inv r" and n: "n < 2 ^ 64"
  shows "MemListMessages r c (cursor_of n) limit =
    (take (page_limit limit) (drop n (messages_of r c)),
     if n + page_limit limit < length (messages_of r c) then cursor_of (n + page_limit limit) else [])"
proof -
  define ms where "ms = messages_of r c"
  define L where "L = page_limit limit"
  have seq: "ms_Seq (ms ! k) = k + 1" if "k < length ms" for k
  proof -
    have "id_seq (ms ! k) = numbered r c ! k"
      using messages_numbered [OF inv, of c] that by (metis ms_def nth_map)
    then show ?thesis
      using that length_messages_of [OF inv, of c] by (simp add: ms_def id_seq_def)
  qed
  have "(case parseUint (cursor_of n) of None \<Rightarrow> ms | Some n \<Rightarrow> dropWhile (\<lambda>m. \<not> n < ms_Seq m) ms) = drop n ms"
  proof (cases "n = 0")
    case False
    then have "parseUint (cursor_of n) = Some n"
      using n by (simp add: parseUint_def cursor_of_def chat_itoa_def parse_itoa_loop)
    then show ?thesis
      using dropWhile_numbered [of ms ms_Seq 0 n] seq by simp
  qed (simp add: cursor_of_def parseUint_def)
  moreover have "ms_Seq (take (L + 1) (drop n ms) ! (L - 1)) = n + L" if "n + L < length ms"
    using that seq [of "n + L - 1"] page_limit_pos [of limit] by (simp add: L_def)
  moreover have "L < length (take (L + 1) (drop n ms)) \<longleftrightarrow> n + L < length ms" by auto
  ultimately show ?thesis
    using page_limit_pos [of limit]
    by (auto simp: MemListMessages_def Let_def ms_def [symmetric] page_limit_def [symmetric] L_def [symmetric] cursor_of_def
        min_def)
qed

lemma numbered_append:
  assumes "message_ids r' c = message_ids r c @ new"
  shows "\<exists>new'. numbered r' c = numbered r c @ new'"
proof -
  have "take (length (message_ids r c)) (numbered r' c) = numbered r c"
    by (rule nth_equalityI) (auto simp: assms nth_append)
  then show ?thesis by (metis append_take_drop_id)
qed


lemma walk_from:
  assumes inv: "\<And>k. chat_inv (cw_repo (ws k))"
    and grow: "\<And>k. \<exists>new. message_ids (cw_repo (ws (Suc k))) c = message_ids (cw_repo (ws k)) c @ new"
    and part: "\<And>k. IsParticipant (ws k) c v = Inr True"
    and dels: "\<And>k m. m \<in> set (messages_of (cw_repo (ws k)) c) \<Longrightarrow> deleted_for m v \<longleftrightarrow> ms_ID m \<in> D"
    and N: "\<And>k. length (message_ids (cw_repo (ws k)) c) \<le> N" "N < 2 ^ 64"
    and n: "n \<le> length (message_ids (cw_repo (ws k)) c)" and fuel: "N < n + fuel"
  shows "\<exists>K ms. k \<le> K \<and> walk_messages (\<lambda>k cursor. ListMessages (ws k) v c cursor limit) fuel k (cursor_of n) = Some ms \<and>
    map id_seq ms = filter (\<lambda>(i, q). i \<notin> D) (drop n (numbered (cw_repo (ws K)) c))"
  using n fuel
proof (induction fuel arbitrary: k n)
  case 0
  then show ?case using N(1) [of k] by simp
next
  case (Suc fuel)
  define msgs where "msgs = messages_of (cw_repo (ws k)) c"
  define L where "L = page_limit limit"
  have len: "length msgs = length (message_ids (cw_repo (ws k)) c)"
    using inv [of k] by (simp add: msgs_def length_messages_of)
  have L: "0 < L" by (simp add: L_def page_limit_pos)
  have n64: "n < 2 ^ 64" using Suc.prems(1) N(1) [of k] N(2) by linarith
  have page: "ListMessages (ws k) v c (cursor_of n) limit =
      Inr (filter (\<lambda>m. \<not> deleted_for m v) (take L (drop n msgs)), if n + L < length msgs then cursor_of (n + L) else [])"
    using part [of k] MemListMessages_page [OF inv [of k] n64, of c limit]
    by (auto simp: ListMessages_def IsParticipant_def msgs_def L_def split: sum.splits)
  have shown: "map id_seq (filter (\<lambda>m. \<not> deleted_for m v) (take L (drop n msgs))) =
      filter (\<lambda>(i, q). i \<notin> D) (take L (drop n (numbered (cw_repo (ws k)) c)))"
  proof -
    have "filter (\<lambda>m. \<not> deleted_for m v) (take L (drop n msgs)) = filter (\<lambda>m. ms_ID m \<notin> D) (take L (drop n msgs))"
      by (rule filter_cong) (auto simp: msgs_def dest!: in_set_takeD in_set_dropD dest: dels)
    moreover have "map id_seq (filter (\<lambda>m. ms_ID m \<notin> D) (take L (drop n msgs))) =
        filter (\<lambda>(i, q). i \<notin> D) (map id_seq (take L (drop n msgs)))"
      by (simp add: filter_map comp_def id_seq_def)
    moreover have "map id_seq (take L (drop n msgs)) = take L (drop n (numbered (cw_repo (ws k)) c))"
      by (simp only: take_map [symmetric] drop_map [symmetric] msgs_def messages_numbered [OF inv])
    ultimately show ?thesis by simp
  qed
  show ?case
  proof (cases "n + L < length msgs")
    case False
    then have "take L (drop n (numbered (cw_repo (ws k)) c)) = drop n (numbered (cw_repo (ws k)) c)"
      using len by simp
    then show ?thesis
      using False shown by (intro exI [of _ k]) (simp add: page)
  next
    case True
    obtain new where "message_ids (cw_repo (ws (Suc k))) c = message_ids (cw_repo (ws k)) c @ new"
      using grow [of k] by blast
    then have "n + L \<le> length (message_ids (cw_repo (ws (Suc k))) c)" using True len by simp
    moreover have "N < n + L + fuel" using Suc.prems(2) L by linarith
    ultimately obtain K ms where K: "Suc k \<le> K"
      and walk: "walk_messages (\<lambda>k cursor. ListMessages (ws k) v c cursor limit) fuel (Suc k) (cursor_of (n + L)) = Some ms"
      and ids: "map id_seq ms = filter (\<lambda>(i, q). i \<notin> D) (drop (n + L) (numbered (cw_repo (ws K)) c))"
      using Suc.IH by blast
    have "\<exists>new. message_ids (cw_repo (ws K)) c = message_ids (cw_repo (ws k)) c @ new"
      using K
    proof (induction K rule: dec_induct)
      case base
      show ?case using grow [of k] by blast
    next
      case (step j)
      then show ?case using grow [of j] by force
    qed
    then obtain new' where new': "numbered (cw_repo (ws K)) c = numbered (cw_repo (ws k)) c @ new'"
      using numbered_append by blast
    have "take L (drop n (numbered (cw_repo (ws k)) c)) = take L (drop n (numbered (cw_repo (ws K)) c))"
      using True len by (simp add: new')
    then have "filter (\<lambda>(i, q). i \<notin> D) (take L (drop n (numbered (cw_repo (ws k)) c))) @ map id_seq ms =
        filter (\<lambda>(i, q). i \<notin> D) (drop n (numbered (cw_repo (ws K)) c))"
      unfolding ids by (simp only: filter_append [symmetric] drop_drop [symmetric, of L n, unfolded add.commute [of L n]]
        append_take_drop_id)
    moreover have "cursor_of (n + L) \<noteq> []" using L by (simp add: cursor_of_def chat_itoa_def)
    ultimately show ?thesis
      using K True walk shown by (intro exI [of _ K]) (simp add: page)
  qed
qed

definition demo_before :: chat_world where
  "demo_before = foldl (\<lambda>w (a, act). chat_step w 1 a act) new_chat_world
     [(''acc-0001'', Start ''acc-0002''), (''acc-0001'', Send ''conv-acc-0001-acc-0002'' ''x'' ''one'' []),
      (''acc-0002'', Send ''conv-acc-0001-acc-0002'' ''y'' ''two'' []), (''acc-0002'', DeleteMsg ''msg-1'' ''me'')]"

definition demo_chat :: "nat \<Rightarrow> chat_world" where
  "demo_chat k = (if k = 0 then demo_before
     else chat_step demo_before 1 ''acc-0001'' (Send ''conv-acc-0001-acc-0002'' ''z'' ''three'' []))"

lemma foldl_steps: "chat_steps w0 w \<Longrightarrow> chat_steps w0 (foldl (\<lambda>w (a, act). chat_step w t a act) w acts)"
  by (induction acts arbitrary: w) (auto intro: steps_step)

lemma demo_chat_reach: "chat_steps new_chat_world (demo_chat k)"
proof -
  have "chat_steps new_chat_world demo_before"
    unfolding demo_before_def by (rule foldl_steps) (rule steps_refl)
  then show ?thesis unfolding demo_chat_def by (auto intro: steps_step simp del: chat_step.simps)
qed

lemma demo_chat_step: "chat_steps (demo_chat k) (demo_chat (Suc k))"
  unfolding demo_chat_def by (auto intro: steps_step steps_refl simp del: chat_step.simps)

text \<open>A participant who follows the cursors of \<open>ListMessages\<close> gets every message exactly once, in the order
  of its number: for every page size, and while messages are sent, deleted and read between two pages, the walk ends
  with all the messages the conversation has at its last page, numbered \<open>1, 2, 3, \<dots>\<close>, except those the reader has
  deleted for himself. It ends within \<open>N + 1\<close> pages when the conversation never has more than \<open>N\<close> messages.
\<close>

lemma dm_pages_complete:
  assumes "chat_steps new_chat_world (ws 0)" and "\<And>k. chat_steps (ws k) (ws (Suc k))"
    and "\<And>k. IsParticipant (ws k) c v = Inr True"
    and "\<And>k m. m \<in> set (messages_of (cw_repo (ws k)) c) \<Longrightarrow> deleted_for m v \<longleftrightarrow> ms_ID m \<in> D"
    and "\<And>k. length (message_ids (cw_repo (ws k)) c) \<le> N" and "N < 2 ^ 64"
  shows "\<exists>K ms. walk_messages (\<lambda>k cursor. ListMessages (ws k) v c cursor limit) (Suc N) 0 [] = Some ms \<and>
    map (\<lambda>m. (ms_ID m, ms_Seq m)) ms = filter (\<lambda>(i, q). i \<notin> D)
      (zip (message_ids (cw_repo (ws K)) c) [1..<Suc (length (message_ids (cw_repo (ws K)) c))])"
proof -
  have inv: "chat_inv (cw_repo (ws k))" for k
    by (induction k) (use assms(1,2) in \<open>auto intro: chat_steps_inv reach_chat_inv\<close>)
  have grow: "\<exists>new. message_ids (cw_repo (ws (Suc k))) c = message_ids (cw_repo (ws k)) c @ new" for k
    using assms(2) by (rule chat_steps_grow)
  show ?thesis
    using walk_from [where ws = ws and c = c and v = v and D = D and N = N and k = 0 and n = 0 and fuel = "Suc N" and limit = limit,
      OF inv grow assms(3,4,5,6)]
    by (auto simp: cursor_of_def id_seq_def [abs_def] numbered_def simp del: upt_Suc walk_messages.simps)
qed

lemma dm_pages_complete_witness:
  "\<exists>K ms. walk_messages (\<lambda>k cursor. ListMessages (demo_chat k) ''acc-0002'' ''conv-acc-0001-acc-0002'' cursor 1) (Suc 3) 0 [] = Some ms \<and>
    map (\<lambda>m. (ms_ID m, ms_Seq m)) ms = filter (\<lambda>(i, q). i \<notin> {''msg-1''})
      (zip (message_ids (cw_repo (demo_chat K)) ''conv-acc-0001-acc-0002'')
        [1..<Suc (length (message_ids (cw_repo (demo_chat K)) ''conv-acc-0001-acc-0002''))])"
proof -
  let ?c = "''conv-acc-0001-acc-0002''"
  have part: "IsParticipant (demo_chat 0) ?c ''acc-0002'' = Inr True" "IsParticipant (demo_chat 1) ?c ''acc-0002'' = Inr True"
    by code_simp+
  have dels: "\<forall>m \<in> set (messages_of (cw_repo (demo_chat 0)) ?c). deleted_for m ''acc-0002'' \<longleftrightarrow> ms_ID m \<in> {''msg-1''}"
    "\<forall>m \<in> set (messages_of (cw_repo (demo_chat 1)) ?c). deleted_for m ''acc-0002'' \<longleftrightarrow> ms_ID m \<in> {''msg-1''}"
    by code_simp+
  have len: "length (message_ids (cw_repo (demo_chat 0)) ?c) \<le> 3" "length (message_ids (cw_repo (demo_chat 1)) ?c) \<le> 3"
    by code_simp+
  have two: "demo_chat k = demo_chat 0 \<or> demo_chat k = demo_chat 1" for k
    by (simp add: demo_chat_def)
  have "\<exists>K ms. walk_messages (\<lambda>k cursor. ListMessages (demo_chat k) ''acc-0002'' ?c cursor 1) (Suc 3) 0 [] = Some ms \<and>
    map (\<lambda>m. (ms_ID m, ms_Seq m)) ms = filter (\<lambda>(i, q). i \<notin> {''msg-1''})
      (zip (message_ids (cw_repo (demo_chat K)) ?c) [1..<Suc (length (message_ids (cw_repo (demo_chat K)) ?c))])"
  proof (rule dm_pages_complete)
    fix k m
    show "IsParticipant (demo_chat k) ?c ''acc-0002'' = Inr True" using two [of k] part by (elim disjE) (simp_all only:)
    show "length (message_ids (cw_repo (demo_chat k)) ?c) \<le> 3" using two [of k] len by (elim disjE) (simp_all only:)
    show "deleted_for m ''acc-0002'' \<longleftrightarrow> ms_ID m \<in> {''msg-1''}" if "m \<in> set (messages_of (cw_repo (demo_chat k)) ?c)"
      using that two [of k] dels by (elim disjE) (simp_all only:)
  qed (use demo_chat_reach demo_chat_step in simp_all)
  then show ?thesis .
qed


section \<open>Outsiders\<close>

text \<open>Account names tell conversations apart, whatever name the other side is given.\<close>

lemma dec04_no_dash: "CHR ''-'' \<notin> set (dec04 n)"
proof -
  have "list_all is_digit (itoa_loop n [])" by (rule itoa_loop_digits) simp
  then show ?thesis by (auto simp: dec04_def Let_def list_all_iff is_digit_def dest!: bspec)
qed

lemma upto_dash: "d \<notin> set xs \<Longrightarrow> d \<notin> set ys \<Longrightarrow> xs @ d # us = ys @ d # vs \<Longrightarrow> xs = ys"
  by (drule arg_cong [where f = "takeWhile (\<lambda>c. c \<noteq> d)"]) (auto simp: takeWhile_append split: if_splits)

lemma conv_name_account:
  assumes "x @ ''-'' @ y = account_name m @ ''-'' @ account_name n" and "x = account_name k \<or> y = account_name k"
  shows "k = m \<or> k = n"
  using assms(2)
proof
  assume "x = account_name k"
  then have "dec04 k @ CHR ''-'' # y = dec04 m @ CHR ''-'' # account_name n"
    using assms(1) by (simp add: account_name_def)
  then have "dec04 k = dec04 m" by (rule upto_dash [OF dec04_no_dash dec04_no_dash])
  then show ?thesis by simp
next
  assume y: "y = account_name k"
  have "rev (dec04 k) @ CHR ''-'' # rev (x @ ''-acc'') = rev (dec04 n) @ CHR ''-'' # rev (account_name m @ ''-acc'')"
    using arg_cong [OF assms(1), of rev] by (simp add: y account_name_def)
  then have "rev (dec04 k) = rev (dec04 n)" by (rule upto_dash [rotated 2]) (simp_all add: dec04_no_dash)
  then show ?thesis by simp
qed

definition conv_name :: "string \<times> string \<Rightarrow> string" where
  "conv_name p = ''conv-'' @ fst p @ ''-'' @ snd p"

lemma StartConversation_shape:
  "cw_repo (snd (StartConversation w a b)) = cw_repo w \<or>
   (\<exists>cv. cv_ID cv = conv_name (orderedPair a b) \<and> (cv_ParticipantA cv, cv_ParticipantB cv) = orderedPair a b \<and>
      cm_byID (cw_repo (snd (StartConversation w a b))) = AList.update (cv_ID cv) cv (cm_byID (cw_repo w)) \<and>
      message_ids (cw_repo (snd (StartConversation w a b))) = message_ids (cw_repo w) \<and>
      cm_msgByID (cw_repo (snd (StartConversation w a b))) = cm_msgByID (cw_repo w))"
proof (cases "cw_repo (snd (StartConversation w a b)) = cw_repo w")
  case False
  then show ?thesis
    by (cases "orderedPair a b", intro disjI2 exI [of _ "projr (fst (StartConversation w a b))"])
      (auto simp: StartConversation_def GetOrCreateConversation_def Let_def conv_name_def message_ids_def [abs_def]
        split: if_splits option.splits)
qed simp

definition named_ok :: "mem_chat \<Rightarrow> bool" where
  "named_ok r \<longleftrightarrow> (\<forall>i c. map_of (cm_byID r) i = Some c \<longrightarrow>
     cv_ID c = i \<and> i = conv_name (cv_ParticipantA c, cv_ParticipantB c))"

lemma InsertMessage_shape:
  assumes "InsertMessage r now c s cid body att = (res, r')"
  shows "r' = r \<or> (\<exists>cv m. map_of (cm_byID r) c = Some cv \<and> ms_ID m = msg_name (Suc (cm_msgSeq r)) \<and>
    msg_key m = (ms_ID m, c, s, cid, att, length (message_ids r c) + 1) \<and>
    message_ids r' = (message_ids r)(c := message_ids r c @ [ms_ID m]) \<and> cm_msgByID r' = AList.update (ms_ID m) m (cm_msgByID r) \<and>
    cm_byID r' = AList.update c (cv\<lparr>cv_LastMessageAt := now, cv_orderSeq := Suc (cm_globalOrder r)\<rparr>) (cm_byID r))"
proof (cases "map_of (cm_msgByClientID r) (c, cid) = None \<and> map_of (cm_byID r) c \<noteq> None")
  case False
  then show ?thesis
    using assms by (auto simp: InsertMessage_def split: option.splits)
next
  case True
  then obtain cv where "map_of (cm_msgByClientID r) (c, cid) = None" "map_of (cm_byID r) c = Some cv" by blast
  then show ?thesis
    using assms by (intro disjI2 exI [of _ cv] exI [of _ "fst (projr res)"])
      (auto simp: InsertMessage_def Let_def msg_name_def msg_key_def message_ids_def [abs_def] fun_eq_iff)
qed

lemma InsertMessage_named: "named_ok r \<Longrightarrow> InsertMessage r now c s cid body att = (res, r') \<Longrightarrow> named_ok r'"
  by (drule InsertMessage_shape) (auto simp: named_ok_def split: if_splits)

lemma chat_step_named: "named_ok (cw_repo w) \<Longrightarrow> named_ok (cw_repo (chat_step w now a act))"
proof (cases act)
  case (Send c cid body att)
  assume inv: "named_ok (cw_repo w)"
  obtain res w' hooks where s: "SendMessage w now a c cid body att = (res, w', hooks)" by (cases "SendMessage w now a c cid body att")
  have "named_ok (cw_repo w')"
    using SendMessage_cases [OF s] inv by (auto dest: InsertMessage_named)
  then show ?thesis by (simp add: Send s)
next
  case (Start other)
  assume "named_ok (cw_repo w)"
  then show ?thesis
    using StartConversation_shape [of w a other] by (auto simp: Start named_ok_def split: if_splits)
qed (auto simp: MarkRead_def MemMarkRead_def DeleteMessage_def MemDeleteMessage_def AcceptRequest_def DeclineRequest_def
  answer_request_def SetConversationState_def named_ok_def split: sum.splits option.splits)

lemma reach_named: "chat_steps new_chat_world w \<Longrightarrow> named_ok (cw_repo w)"
proof (induction new_chat_world w rule: chat_steps.induct)
  case steps_refl
  then show ?case by (simp add: named_ok_def new_chat_world_def NewMemChatRepo_def)
qed (rule chat_step_named)

definition untouched :: "string \<Rightarrow> mem_chat \<Rightarrow> mem_chat \<Rightarrow> bool" where
  "untouched c r r' \<longleftrightarrow> map_of (cm_byID r') c = map_of (cm_byID r) c \<and> message_ids r' c = message_ids r c \<and>
     (\<forall>i \<in> set (message_ids r c). map_of (cm_msgByID r') i = map_of (cm_msgByID r) i)"

lemma untouched_refl [simp]: "untouched c r r"
  by (simp add: untouched_def)

lemma untouched_messages: "untouched c r r' \<Longrightarrow> messages_of r' c = messages_of r c"
  unfolding messages_of_def List.map_filter_def untouched_def by (auto cong: filter_cong map_cong)

lemma rows_conv: "chat_inv r \<Longrightarrow> i \<in> set (message_ids r c) \<Longrightarrow> \<exists>m. map_of (cm_msgByID r) i = Some m \<and> ms_ConversationID m = c"
  by (fastforce simp: chat_inv_def rows_ok_def key_at_def msg_key_def in_set_conv_nth)

lemma rows_old: "chat_inv r \<Longrightarrow> i \<in> set (message_ids r c) \<Longrightarrow> i \<noteq> msg_name (Suc (cm_msgSeq r))"
proof
  assume inv: "chat_inv r" and i: "i \<in> set (message_ids r c)" "i = msg_name (Suc (cm_msgSeq r))"
  obtain m where "map_of (cm_msgByID r) i = Some m" using rows_conv [OF inv i(1)] by blast
  then have "key_at (cm_msgByID r) i = Some (ms_ID m, ms_ConversationID m, ms_SenderID m, ms_ClientMsgID m, ms_AttachmentID m, ms_Seq m)"
    by (simp add: key_at_def msg_key_def)
  then have "\<exists>n \<le> cm_msgSeq r. i = msg_name n"
    using inv unfolding chat_inv_def known_ok_def by blast
  then show False by (auto simp: i(2))
qed

lemma mark_all_other: "i \<notin> set ids \<Longrightarrow> map_of (mark_all now v n ms ids) i = map_of ms i"
  by (induction ids arbitrary: ms) (auto split: option.splits)

lemma MarkRead_shape: "snd (MarkRead w now a c q) = w \<or> snd (MarkRead w now a c q) =
    w\<lparr>cw_repo := (cw_repo w)\<lparr>cm_msgByID := mark_all now a q (cm_msgByID (cw_repo w)) (message_ids (cw_repo w) c)\<rparr>\<rparr>"
  by (simp add: MarkRead_def MemMarkRead_def split: sum.split option.split)

lemma message_ids_upd [simp]: "message_ids (r\<lparr>cm_msgByID := ms\<rparr>) = message_ids r" "message_ids (r\<lparr>cm_byID := cs\<rparr>) = message_ids r"
  by (simp_all add: message_ids_def fun_eq_iff)

lemma InsertMessage_untouched:
  assumes inv: "chat_inv r" and ins: "InsertMessage r now c' s cid body att = (res, r')" and "c' \<noteq> c"
  shows "untouched c r r'"
  using InsertMessage_shape [OF ins] \<open>c' \<noteq> c\<close> rows_old [OF inv, of _ c] by (auto simp: untouched_def)

lemma outsider_step:
  assumes inv: "chat_inv (cw_repo w)" and named: "named_ok (cw_repo w)"
    and cv: "map_of (cm_byID (cw_repo w)) c = Some cv" "cv_ParticipantA cv = account_name m" "cv_ParticipantB cv = account_name n"
    and a: "a = account_name k" "k \<noteq> m" "k \<noteq> n"
  shows "untouched c (cw_repo w) (cw_repo (chat_step w now a act))"
proof (cases act)
  case (Start other)
  have c: "c = conv_name (account_name m, account_name n)"
    using named [unfolded named_ok_def, rule_format, OF cv(1)] cv by simp
  have "fst (orderedPair a other) = a \<or> snd (orderedPair a other) = a" by (simp add: orderedPair_def)
  then have "conv_name (orderedPair a other) \<noteq> c"
    using conv_name_account [of "fst (orderedPair a other)" "snd (orderedPair a other)" m n k] a unfolding c conv_name_def by auto
  then show ?thesis
    using StartConversation_shape [of w a other] by (auto simp: Start untouched_def)
next
  case (Send c' cid body att)
  obtain res w' hooks where s: "SendMessage w now a c' cid body att = (res, w', hooks)" by (cases "SendMessage w now a c' cid body att")
  consider "w' = w" | conv r' where "map_of (cm_byID (cw_repo w)) c' = Some conv" "ConvHasParticipant conv a"
      "InsertMessage (cw_repo w) now c' a cid body att = (res, r')" "w' = w\<lparr>cw_repo := r'\<rparr>"
    using SendMessage_cases [OF s] by blast
  then have "untouched c (cw_repo w) (cw_repo w')"
  proof cases
    case 2
    have "c' \<noteq> c" using 2 cv a by (auto simp: ConvHasParticipant_def)
    then show ?thesis using InsertMessage_untouched [OF inv 2(3)] 2(4) by simp
  qed simp
  then show ?thesis by (simp add: Send s)
next
  case (Read c' q)
  have "untouched c (cw_repo w) (cw_repo (snd (MarkRead w now a c' q)))" if "c' \<noteq> c"
  proof -
    have "i \<notin> set (message_ids (cw_repo w) c')" if "i \<in> set (message_ids (cw_repo w) c)" for i
    proof
      assume "i \<in> set (message_ids (cw_repo w) c')"
      then obtain m' where "map_of (cm_msgByID (cw_repo w)) i = Some m'" "ms_ConversationID m' = c'" using rows_conv [OF inv] by blast
      then show False using rows_conv [OF inv that] \<open>c' \<noteq> c\<close> by simp
    qed
    then show ?thesis
      using MarkRead_shape [of w now a c' q] by (elim disjE) (simp_all add: untouched_def mark_all_other)
  qed
  moreover have "snd (MarkRead w now a c q) = w"
    using cv a by (simp add: MarkRead_def GetConversation_def ConvHasParticipant_def)
  ultimately show ?thesis by (cases "c' = c") (auto simp: Read)
next
  case (DeleteMsg i sc)
  show ?thesis
  proof (cases "i \<in> set (message_ids (cw_repo w) c)")
    case True
    then show ?thesis
      using rows_conv [OF inv True] cv a by (auto simp: DeleteMsg DeleteMessage_def MemDeleteMessage_def ConvHasParticipant_def)
  next
    case False
    then show ?thesis
      by (auto simp: DeleteMsg DeleteMessage_def MemDeleteMessage_def untouched_def message_ids_def split: option.splits)
  qed
qed (use cv a in \<open>auto simp: AcceptRequest_def DeclineRequest_def answer_request_def SetConversationState_def GetConversation_def
  ConvHasParticipant_def untouched_def message_ids_def split: option.splits\<close>)

lemma set_after_conversation: "after_conversation cursor cs = Some cs' \<Longrightarrow> set cs' \<subseteq> set cs"
  by (induction cs) (auto split: if_splits)

lemma listed_participant:
  assumes "cv \<in> sm_Conversation ` set (fst (ListConversations ord w a folder cursor limit))"
  shows "ConvHasParticipant cv a"
proof -
  define ranked where "ranked = sort_key (\<lambda>c. - int (cv_orderSeq c)) (filter (in_folder folder a) (map snd (ord (cm_byID (cw_repo w)))))"
  define shown where "shown = (if cursor = [] then ranked else case after_conversation cursor ranked of None \<Rightarrow> ranked | Some cs \<Rightarrow> cs)"
  have "set shown \<subseteq> set ranked"
    by (auto simp: shown_def dest: set_after_conversation split: option.splits)
  moreover have "\<forall>c \<in> set ranked. ConvHasParticipant c a" by (auto simp: ranked_def in_folder_def)
  moreover have "cv \<in> set shown"
    using assms unfolding ListConversations_def MemListConversations_def Let_def ranked_def [symmetric] shown_def [symmetric]
    by (auto simp: summary_of_def split: if_splits dest!: in_set_takeD)
  ultimately show ?thesis by blast
qed




section \<open>Sending\<close>

lemma conv_touched [simp]: "ConvHasParticipant (cv\<lparr>cv_LastMessageAt := t, cv_orderSeq := n\<rparr>) a = ConvHasParticipant cv a"
  "Other (cv\<lparr>cv_LastMessageAt := t, cv_orderSeq := n\<rparr>) a = Other cv a"
  by (simp_all add: ConvHasParticipant_def Other_def)

lemma chat_isBlocked_repo [simp]: "chat_isBlocked (w\<lparr>cw_repo := r\<rparr>) = chat_isBlocked w"
  by (simp add: chat_isBlocked_def fun_eq_iff)

text \<open>A message is stored once per client key, and the key belongs to the conversation, not to the sender: the
  first message under a key gets the next number and is announced once; from then on a message of either participant
  under that key, whatever its text, is answered with the first message as if it had been sent, stored nowhere and
  announced to nobody.
\<close>

lemma client_id_swallowed:
  assumes "chat_steps new_chat_world w" and "map_of (cm_byID (cw_repo w)) c = Some cv"
    and "ConvHasParticipant cv a" and "\<not> chat_isBlocked w a (Other cv a)" and "body \<noteq> []"
    and "map_of (cm_msgByClientID (cw_repo w)) (c, cid) = None"
    and "ConvHasParticipant cv b" and "\<not> chat_isBlocked w b (Other cv b)" and "body' \<noteq> []"
  shows "\<exists>m w'. SendMessage w now a c cid body [] = (Inr (m, True), w', [(a, Other cv a, body)]) \<and>
    messages_of (cw_repo w') c = messages_of (cw_repo w) c @ [m] \<and> ms_Seq m = length (messages_of (cw_repo w) c) + 1 \<and>
    ms_SenderID m = a \<and> ms_Body m = body \<and>
    SendMessage w' later b c cid body' [] = (Inr (m, False), w', [])"
proof -
  let ?r = "cw_repo w"
  have inv: "chat_inv ?r" by (rule reach_chat_inv [OF assms(1)])
  obtain m r' where ins: "InsertMessage ?r now c a cid body [] = (Inr (m, True), r')"
    and m: "ms_SenderID m = a" "ms_Body m = body" "ms_Seq m = length (message_ids ?r c) + 1" "ms_ID m = msg_name (Suc (cm_msgSeq ?r))"
    and r': "message_ids r' c = message_ids ?r c @ [ms_ID m]" "cm_msgByID r' = AList.update (ms_ID m) m (cm_msgByID ?r)"
      "map_of (cm_byID r') c = Some (cv\<lparr>cv_LastMessageAt := now, cv_orderSeq := Suc (cm_globalOrder ?r)\<rparr>)"
      "map_of (cm_msgByClientID r') (c, cid) = Some (ms_ID m)"
    using assms(2,6) by (auto simp: InsertMessage_def Let_def message_ids_def msg_name_def)
  have "SendMessage w now a c cid body [] = (Inr (m, True), w\<lparr>cw_repo := r'\<rparr>, [(a, Other cv a, body)])"
    using assms(2-5) by (simp add: SendMessage_def GetConversation_def ins)
  moreover have "messages_of r' c = messages_of ?r c @ [m]"
  proof -
    have "map_of (cm_msgByID r') i = map_of (cm_msgByID ?r) i" if "i \<in> set (message_ids ?r c)" for i
      using rows_old [OF inv that] m(4) by (simp add: r')
    then have "List.map_filter (map_of (cm_msgByID r')) (message_ids ?r c) = messages_of ?r c"
      unfolding messages_of_def List.map_filter_def by (simp cong: filter_cong map_cong)
    then show ?thesis
      unfolding messages_of_def r'(1) by (simp add: List.map_filter_def r'(2))
  qed
  moreover have "SendMessage (w\<lparr>cw_repo := r'\<rparr>) later b c cid body' [] = (Inr (m, False), w\<lparr>cw_repo := r'\<rparr>, [])"
  proof -
    have "InsertMessage r' later c b cid body' [] = (Inr (m, False), r')"
      by (simp add: InsertMessage_def r')
    then show ?thesis
      using assms(7-9) by (simp add: SendMessage_def GetConversation_def r')
  qed
  ultimately show ?thesis
    using m inv by (intro exI [of _ m] exI [of _ "w\<lparr>cw_repo := r'\<rparr>"]) (simp add: length_messages_of)
qed

lemma client_id_swallowed_witness:
  "\<exists>m w'. SendMessage demo_before 5 ''acc-0001'' ''conv-acc-0001-acc-0002'' ''1'' ''hello'' [] =
      (Inr (m, True), w', [(''acc-0001'', ''acc-0002'', ''hello'')]) \<and> ms_Body m = ''hello'' \<and>
    SendMessage w' 6 ''acc-0002'' ''conv-acc-0001-acc-0002'' ''1'' ''good bye'' [] = (Inr (m, False), w', [])"
proof -
  let ?c = "''conv-acc-0001-acc-0002''"
  have "chat_steps new_chat_world demo_before" using demo_chat_reach [of 0] by (simp add: demo_chat_def)
  moreover have "map_option (\<lambda>cv. (ConvHasParticipant cv ''acc-0001'', ConvHasParticipant cv ''acc-0002'', Other cv ''acc-0001'', Other cv ''acc-0002''))
      (map_of (cm_byID (cw_repo demo_before)) ?c) = Some (True, True, ''acc-0002'', ''acc-0001'')"
    by code_simp
  moreover have "\<not> chat_isBlocked demo_before ''acc-0001'' ''acc-0002''" "\<not> chat_isBlocked demo_before ''acc-0002'' ''acc-0001''"
    "map_of (cm_msgByClientID (cw_repo demo_before)) (?c, ''1'') = None"
    by code_simp+
  ultimately show ?thesis
    using client_id_swallowed [of demo_before ?c _ "''acc-0001''" "''hello''" "''1''" "''acc-0002''" "''good bye''" 5 6] by fastforce
qed

section \<open>Attachments in messages\<close>

definition scanned :: "attachment \<Rightarrow> bool" where
  "scanned a \<longleftrightarrow> at_Data a \<noteq> [] \<and> length (at_Data a) \<le> MaxAttachmentBytes \<and> \<not> Contains (at_Data a) eicarSignature"

definition attach_name :: "nat \<Rightarrow> string" where
  "attach_name n = ''att-'' @ itoa_loop n []"

lemma attach_name_inj [simp]: "attach_name m = attach_name n \<longleftrightarrow> m = n"
  by (simp add: attach_name_def itoa_loop_inj)

definition slots_ok :: "attach_service \<Rightarrow> bool" where
  "slots_ok s \<longleftrightarrow> (\<forall>i a. map_of (av_byID s) i = Some a \<longrightarrow>
     (\<exists>n \<le> av_seq s. i = attach_name n) \<and> (at_Status a = StatusClean \<longrightarrow> scanned a))"

text \<open>A clean attachment stays as it is.\<close>

definition clean_kept :: "attach_service \<Rightarrow> attach_service \<Rightarrow> bool" where
  "clean_kept s s' \<longleftrightarrow> (\<forall>i a. map_of (av_byID s) i = Some a \<and> at_Status a = StatusClean \<longrightarrow> map_of (av_byID s') i = Some a)"

lemma CreateUploadSlot_ok:
  assumes "slots_ok s"
  shows "slots_ok (snd (CreateUploadSlot s now own ct name)) \<and> clean_kept s (snd (CreateUploadSlot s now own ct name))"
proof -
  have fresh: "map_of (av_byID s) (attach_name (Suc (av_seq s))) = None"
  proof (rule ccontr)
    assume "map_of (av_byID s) (attach_name (Suc (av_seq s))) \<noteq> None"
    then obtain n where "n \<le> av_seq s" "attach_name (Suc (av_seq s)) = attach_name n"
      using assms unfolding slots_ok_def by blast
    then show False by simp
  qed
  show ?thesis
    using assms fresh unfolding CreateUploadSlot_def Let_def attach_name_def [symmetric]
    by (auto simp: slots_ok_def clean_kept_def) (meson le_SucI)
qed

lemma Upload_ok: "slots_ok s \<Longrightarrow> slots_ok (snd (Upload s own i data)) \<and> clean_kept s (snd (Upload s own i data))"
  by (auto simp: Upload_def slots_ok_def clean_kept_def scanned_def scan_def Let_def split: option.splits)

lemma Contains_append: "Contains (xs @ sub @ ys) sub"
proof (induction xs)
  case Nil
  have "HasPrefix (sub @ ys) sub" by simp
  then show ?case by (cases "sub @ ys") auto
qed simp

lemma clean_kept_refl [simp]: "clean_kept s s"
  by (simp add: clean_kept_def)

definition attached_ok :: "attach_service \<Rightarrow> (string \<times> message) list \<Rightarrow> bool" where
  "attached_ok s ms \<longleftrightarrow> (\<forall>i j c o' cid att q. key_at ms i = Some (j, c, o', cid, att, q) \<and> att \<noteq> [] \<longrightarrow>
     (\<exists>a. map_of (av_byID s) att = Some a \<and> at_Status a = StatusClean \<and> at_OwnerID a = o'))"

lemma attached_kept: "attached_ok s ms \<Longrightarrow> clean_kept s s' \<Longrightarrow> attached_ok s' ms"
  unfolding attached_ok_def clean_kept_def by blast

lemma keeps_attached: "keeps w w' \<Longrightarrow> slots_ok (cw_attachments w) \<Longrightarrow> attached_ok (cw_attachments w) (cm_msgByID (cw_repo w)) \<Longrightarrow>
    slots_ok (cw_attachments w') \<and> attached_ok (cw_attachments w') (cm_msgByID (cw_repo w'))"
  by (simp add: keeps_def attached_ok_def)

lemma IsDeliverable_iff: "IsDeliverable s i owner = Inr True \<longleftrightarrow>
    (\<exists>a. map_of (av_byID s) i = Some a \<and> at_Status a = StatusClean \<and> at_OwnerID a = owner)"
  by (auto simp: IsDeliverable_def AttachGet_def split: option.splits)

lemma InsertMessage_attached:
  assumes "attached_ok s (cm_msgByID r)" and "att = [] \<or> IsDeliverable s att a = Inr True"
    and "InsertMessage r now c a cid body att = (res, r')"
  shows "attached_ok s (cm_msgByID r')"
proof (cases "r' = r")
  case False
  then obtain m where m: "msg_key m = (ms_ID m, c, a, cid, att, length (message_ids r c) + 1)"
    "cm_msgByID r' = AList.update (ms_ID m) m (cm_msgByID r)"
    using InsertMessage_shape [OF assms(3)] by blast
  have "key_at (cm_msgByID r') = (key_at (cm_msgByID r))(ms_ID m \<mapsto> msg_key m)"
    by (auto simp: m(2) key_at_def fun_eq_iff)
  then show ?thesis
    using assms(1,2) unfolding attached_ok_def m(1) IsDeliverable_iff by (simp split: if_split_asm) blast
qed (use assms(1) in simp)

lemma chat_step_attached:
  assumes "slots_ok (cw_attachments w)" and "attached_ok (cw_attachments w) (cm_msgByID (cw_repo w))"
  shows "slots_ok (cw_attachments (chat_step w now a act)) \<and>
    attached_ok (cw_attachments (chat_step w now a act)) (cm_msgByID (cw_repo (chat_step w now a act)))"
proof (cases act)
  case (Send c cid body att)
  obtain res w' hooks where s: "SendMessage w now a c cid body att = (res, w', hooks)" by (cases "SendMessage w now a c cid body att")
  have "cw_attachments w' = cw_attachments w \<and> attached_ok (cw_attachments w) (cm_msgByID (cw_repo w'))"
    using SendMessage_cases [OF s] assms(2) by (auto dest: InsertMessage_attached)
  then show ?thesis using assms(1) by (simp add: Send s)
next
  case (NewSlot ct name)
  then show ?thesis using assms CreateUploadSlot_ok attached_kept by simp
next
  case (UploadTo i data)
  then show ?thesis using assms Upload_ok attached_kept by simp
qed (use assms in \<open>simp_all add: all_keep [THEN keeps_attached] AcceptRequest_def DeclineRequest_def\<close>)

text \<open>C27: Only scanned attachments travel: in every state the service can reach, the attachment of a message exists,
  belongs to the sender of the message, is marked clean, is not empty, has at most ten megabytes and does not contain
  the test signature, wherever in the file the signature might be. \<open>Download\<close> hands out such attachments only.
\<close>

lemma attachments_scanned:
  assumes "chat_steps new_chat_world w"
  shows "(\<forall>i m. map_of (cm_msgByID (cw_repo w)) i = Some m \<and> ms_AttachmentID m \<noteq> [] \<longrightarrow>
      (\<exists>a. Download (cw_attachments w) (ms_AttachmentID m) = Inr a \<and> at_OwnerID a = ms_SenderID m)) \<and>
    (\<forall>i a. Download (cw_attachments w) i = Inr a \<longrightarrow>
      0 < length (at_Data a) \<and> length (at_Data a) \<le> 10485760 \<and> (\<forall>xs ys. at_Data a \<noteq> xs @ eicarSignature @ ys))"
proof -
  have inv: "slots_ok (cw_attachments w) \<and> attached_ok (cw_attachments w) (cm_msgByID (cw_repo w))"
    using assms
  proof (induction new_chat_world w rule: chat_steps.induct)
    case steps_refl
    then show ?case
      by (simp add: slots_ok_def attached_ok_def key_at_def new_chat_world_def NewAttachService_def NewMemChatRepo_def)
  qed (simp add: chat_step_attached del: chat_step.simps)
  have "\<exists>a. Download (cw_attachments w) (ms_AttachmentID m) = Inr a \<and> at_OwnerID a = ms_SenderID m"
    if m: "map_of (cm_msgByID (cw_repo w)) i = Some m" "ms_AttachmentID m \<noteq> []" for i m
  proof -
    have "key_at (cm_msgByID (cw_repo w)) i = Some (ms_ID m, ms_ConversationID m, ms_SenderID m, ms_ClientMsgID m, ms_AttachmentID m, ms_Seq m)"
      using m(1) by (simp add: key_at_def msg_key_def)
    then obtain a where "map_of (av_byID (cw_attachments w)) (ms_AttachmentID m) = Some a" "at_Status a = StatusClean"
        "at_OwnerID a = ms_SenderID m"
      using inv m(2) unfolding attached_ok_def by blast
    then show ?thesis by (simp add: Download_def)
  qed
  moreover have "0 < length (at_Data a) \<and> length (at_Data a) \<le> 10485760 \<and> (\<forall>xs ys. at_Data a \<noteq> xs @ eicarSignature @ ys)"
    if "Download (cw_attachments w) i = Inr a" for i a
  proof -
    have "scanned a" using that inv by (auto simp: Download_def slots_ok_def split: option.splits if_splits)
    moreover have "at_Data a \<noteq> xs @ eicarSignature @ ys" if "scanned a" for xs ys
      using that Contains_append [of xs eicarSignature ys] by (auto simp: scanned_def simp del: append_assoc)
    ultimately show ?thesis by (simp add: scanned_def MaxAttachmentBytes_def)
  qed
  ultimately show ?thesis by blast
qed

lemma attachments_scanned_witness:
  "\<exists>w a. chat_steps new_chat_world w \<and> Download (cw_attachments w) ''att-1'' = Inr a \<and> at_Data a = ''holiday'' \<and>
    length (at_Data a) \<le> 10485760 \<and> (\<forall>xs ys. at_Data a \<noteq> xs @ eicarSignature @ ys)"
proof -
  define w where "w = chat_step (chat_step new_chat_world 1 ''a'' (NewSlot ''image/png'' ''x.png'')) 2 ''a'' (UploadTo ''att-1'' ''holiday'')"
  have reach: "chat_steps new_chat_world w"
    unfolding w_def by (intro steps_step steps_refl)
  have "(case Download (cw_attachments w) ''att-1'' of Inl _ \<Rightarrow> None | Inr a \<Rightarrow> Some (at_Data a)) = Some ''holiday''"
    by (simp add: w_def new_chat_world_def NewAttachService_def CreateUploadSlot_def Upload_def scan_def MaxAttachmentBytes_def
      Let_def Download_def eicarSignature_def itoa_loop_pos)
  then obtain a where a: "Download (cw_attachments w) ''att-1'' = Inr a" "at_Data a = ''holiday''"
    by (cases "Download (cw_attachments w) ''att-1''") auto
  have "0 < length (at_Data a) \<and> length (at_Data a) \<le> 10485760 \<and> (\<forall>xs ys. at_Data a \<noteq> xs @ eicarSignature @ ys)"
    by (rule attachments_scanned [OF reach, THEN conjunct2, THEN spec, THEN spec, THEN mp, OF a(1)])
  then show ?thesis using reach a by blast
qed

end
