(* ===== verification/Admin.thy ===== *)
theory Admin
  imports Creator Moderation
begin

text \<open>
  The admin console: roles and permissions, the audit log and the support tickets with their in-memory
  stores (\<open>admin/admin.go\<close>, \<open>admin/mem_repo.go\<close>), the service (\<open>admin/adminsvc/service.go\<close>) and the
  closures by which \<open>feed/cmd/api/main.go\<close> joins it to the accounts, the ledger, the payouts, the
  reports and the risk profiles. One clock reading per call; \<open>ord\<close> arguments are the order a call meets
  a map in, which is also how equal elements of a sorted list end up.
\<close>

section \<open>Roles and permissions\<close>

type_synonym role = string

definition RoleSupport :: role where "RoleSupport = ''support''"
definition RoleFinance :: role where "RoleFinance = ''finance''"
definition RoleTrustSafety :: role where "RoleTrustSafety = ''trust_safety''"
definition RoleSuperAdmin :: role where "RoleSuperAdmin = ''superadmin''"

datatype permission =
    PermAccountsManage
  | PermEconomyView
  | PermFraudReview
  | PermSupportManage
  | PermHealthView
  | PermAuditView
  | PermAnalyticsView
  | PermRolloutManage
  | PermPayoutManage
  | PermRefundManage

definition RolePermissions :: "(role \<times> permission list) list" where
  "RolePermissions =
     [(RoleSupport, [PermSupportManage]),
      (RoleFinance, [PermEconomyView, PermAuditView, PermAnalyticsView, PermPayoutManage, PermRefundManage]),
      (RoleTrustSafety, [PermAccountsManage, PermFraudReview, PermAuditView]),
      (RoleSuperAdmin, [PermAccountsManage, PermEconomyView, PermFraudReview, PermSupportManage, PermHealthView,
         PermAuditView, PermAnalyticsView, PermRolloutManage, PermPayoutManage, PermRefundManage])]"

definition ValidRole :: "role \<Rightarrow> bool" where
  "ValidRole r \<longleftrightarrow> map_of RolePermissions r \<noteq> None"

definition RoleHasPermission :: "role \<Rightarrow> permission \<Rightarrow> bool" where
  "RoleHasPermission r p = (case map_of RolePermissions r of None \<Rightarrow> False | Some ps \<Rightarrow> p \<in> set ps)"

section \<open>Data\<close>

record audit_entry =
  ae_ID :: string
  ae_ActorID :: string
  ae_ActorRole :: role
  ae_Action :: string
  ae_TargetType :: string
  ae_TargetID :: string
  ae_Detail :: string
  ae_CreatedAt :: time

record account_view =
  avw_AccountID :: string
  avw_Status :: account_status
  avw_AgeStatus :: age_status
  avw_CreatedAt :: time

record economy_anomaly =
  ea_Type :: string
  ea_AccountA :: string
  ea_AccountB :: string
  ea_Detail :: string
  ea_DetectedAt :: time

record risk_flag =
  rf_AccountID :: string
  rf_RiskScore :: int
  rf_RiskReasons :: "string list"
  rf_ReviewStatus :: review_status

type_synonym ticket_status = string

definition TicketOpen :: ticket_status where "TicketOpen = ''open''"
definition TicketPending :: ticket_status where "TicketPending = ''pending''"
definition TicketResolved :: ticket_status where "TicketResolved = ''resolved''"

definition FirstResponseSLA :: duration where "FirstResponseSLA = 24 * hour"

record support_ticket =
  st_ID :: string
  st_AccountID :: string
  st_Subject :: string
  st_Category :: string
  st_Status :: ticket_status
  st_AssignedTo :: string
  st_SLADeadline :: time
  st_CreatedAt :: time
  st_UpdatedAt :: time

record ticket_message =
  tm_ID :: string
  tm_TicketID :: string
  tm_AuthorID :: string
  tm_IsAdmin :: bool
  tm_Body :: string
  tm_CreatedAt :: time

record platform_health =
  ph_ActiveStreams :: nat
  ph_OpenReports :: nat
  ph_FlaggedRiskAccounts :: nat
  ph_PendingPayouts :: nat
  ph_OpenTickets :: nat
  ph_LedgerIntegrity :: "(currency \<times> int) list"

record payout_view =
  pw_ID :: string
  pw_AccountID :: string
  pw_AmountDiamonds :: int
  pw_Status :: string
  pw_PayoutReference :: string
  pw_AdminNote :: string
  pw_FailureReason :: string
  pw_ReviewedBy :: string
  pw_RequestedAt :: time
  pw_ReviewedAt :: "time option"
  pw_PaidAt :: "time option"

record transaction_view =
  tv_ID :: string
  tv_Kind :: string
  tv_Metadata :: metadata
  tv_Entries :: "entry list"     \<comment> \<open>\<open>LedgerEntryView\<close> has the fields of an entry\<close>
  tv_CreatedAt :: time

text \<open>The last four wrap the errors that the closures hand through.\<close>

datatype admin_error =
    ErrForbidden
  | ErrInvalidRole
  | ErrTicketNotFound
  | ErrNotTicketParty
  | AdminPayoutNotFound
  | AdminInvalidPayoutTransition
  | AdminTransactionNotFound
  | AdminAlreadyReversed
  | ErrCannotReverse
  | ErrReversalWouldOverdraw
  | AdminAuthError auth_error
  | AdminLedgerError ledger_error
  | AdminCreatorError creator_error
  | AdminNilDereference          \<comment> \<open>the run-time panic\<close>

section \<open>The in-memory stores\<close>

type_synonym mem_roles = "(string \<times> role) list"

definition MemGetRole :: "mem_roles \<Rightarrow> string \<Rightarrow> role option" where
  "MemGetRole r accountID = map_of r accountID"

definition MemSetRole :: "mem_roles \<Rightarrow> string \<Rightarrow> role \<Rightarrow> mem_roles" where
  "MemSetRole r accountID role = AList.update accountID role r"

record mem_audit =
  mau_seq :: nat
  mau_entries :: "audit_entry list"

definition NewMemAuditRepo :: mem_audit where
  "NewMemAuditRepo = \<lparr>mau_seq = 0, mau_entries = []\<rparr>"

definition AuditAppend :: "mem_audit \<Rightarrow> audit_entry \<Rightarrow> audit_entry \<times> mem_audit" where
  "AuditAppend r e =
     (let n = Suc (mau_seq r); e = e\<lparr>ae_ID := ''audit-'' @ dec04 n\<rparr>
      in (e, \<lparr>mau_seq = n, mau_entries = mau_entries r @ [e]\<rparr>))"

definition AuditList :: "(audit_entry list \<Rightarrow> audit_entry list) \<Rightarrow> mem_audit \<Rightarrow> int \<Rightarrow> audit_entry list" where
  "AuditList ord r limit =
     (let out = sort_key (\<lambda>e. - ae_CreatedAt e) (ord (mau_entries r))
      in if 0 < limit \<and> nat limit < length out then take (nat limit) out else out)"

record mem_tickets =
  mtk_seq :: nat
  mtk_byID :: "(string \<times> support_ticket) list"
  mtk_byAcct :: "(string \<times> string list) list"
  mtk_messages :: "(string \<times> ticket_message list) list"

definition NewMemTicketRepo :: mem_tickets where
  "NewMemTicketRepo = \<lparr>mtk_seq = 0, mtk_byID = [], mtk_byAcct = [], mtk_messages = []\<rparr>"

definition tickets_of :: "mem_tickets \<Rightarrow> string \<Rightarrow> string list" where
  "tickets_of r accountID = (case map_of (mtk_byAcct r) accountID of None \<Rightarrow> [] | Some ids \<Rightarrow> ids)"

definition ticket_thread :: "mem_tickets \<Rightarrow> string \<Rightarrow> ticket_message list" where
  "ticket_thread r i = (case map_of (mtk_messages r) i of None \<Rightarrow> [] | Some ms \<Rightarrow> ms)"

definition TicketCreate :: "mem_tickets \<Rightarrow> support_ticket \<Rightarrow> ticket_message \<Rightarrow> support_ticket \<times> mem_tickets" where
  "TicketCreate r t firstMessage =
     (let n = Suc (mtk_seq r);
          t = t\<lparr>st_ID := ''ticket-'' @ dec04 n\<rparr>;
          m = firstMessage\<lparr>tm_ID := ''msg-'' @ dec04 n, tm_TicketID := st_ID t\<rparr>
      in (t, \<lparr>mtk_seq = n, mtk_byID = AList.update (st_ID t) t (mtk_byID r),
              mtk_byAcct = AList.update (st_AccountID t) (tickets_of r (st_AccountID t) @ [st_ID t]) (mtk_byAcct r),
              mtk_messages = AList.update (st_ID t) [m] (mtk_messages r)\<rparr>))"

definition TicketGet :: "mem_tickets \<Rightarrow> string \<Rightarrow> admin_error + support_ticket" where
  "TicketGet r i = (case map_of (mtk_byID r) i of None \<Rightarrow> Inl ErrTicketNotFound | Some t \<Rightarrow> Inr t)"

definition TicketListByAccount :: "(support_ticket list \<Rightarrow> support_ticket list) \<Rightarrow> mem_tickets \<Rightarrow> string \<Rightarrow>
    admin_error + support_ticket list" where
  "TicketListByAccount ord r accountID =
     (case those (map (map_of (mtk_byID r)) (tickets_of r accountID)) of
        None \<Rightarrow> Inl AdminNilDereference
      | Some out \<Rightarrow> Inr (sort_key (\<lambda>t. - st_CreatedAt t) (ord out)))"

definition TicketListAll :: "(support_ticket list \<Rightarrow> support_ticket list) \<Rightarrow> mem_tickets \<Rightarrow> ticket_status \<Rightarrow> support_ticket list" where
  "TicketListAll ord r statusFilter =
     sort_key st_SLADeadline (ord (filter (\<lambda>t. statusFilter = [] \<or> st_Status t = statusFilter) (map snd (mtk_byID r))))"

definition TicketCountOpen :: "mem_tickets \<Rightarrow> nat" where
  "TicketCountOpen r = length (filter (\<lambda>t. st_Status t \<noteq> TicketResolved) (map snd (mtk_byID r)))"

definition UpdateStatusAssignee :: "mem_tickets \<Rightarrow> time \<Rightarrow> string \<Rightarrow> ticket_status \<Rightarrow> string \<Rightarrow> admin_error option \<times> mem_tickets" where
  "UpdateStatusAssignee r now i status assignedTo =
     (case map_of (mtk_byID r) i of
        None \<Rightarrow> (Some ErrTicketNotFound, r)
      | Some t \<Rightarrow>
          (let t = t\<lparr>st_Status := status\<rparr>;
               t = (if assignedTo \<noteq> [] then t\<lparr>st_AssignedTo := assignedTo\<rparr> else t)
           in (None, r\<lparr>mtk_byID := AList.update i (t\<lparr>st_UpdatedAt := now\<rparr>) (mtk_byID r)\<rparr>)))"

definition AddMessage :: "mem_tickets \<Rightarrow> time \<Rightarrow> string \<Rightarrow> ticket_message \<Rightarrow> (admin_error + ticket_message) \<times> mem_tickets" where
  "AddMessage r now ticketID m =
     (case map_of (mtk_byID r) ticketID of
        None \<Rightarrow> (Inl ErrTicketNotFound, r)
      | Some t \<Rightarrow>
          (let n = Suc (mtk_seq r);
               m = m\<lparr>tm_ID := ''msg-'' @ dec04 n, tm_TicketID := ticketID\<rparr>
           in (Inr m, r\<lparr>mtk_seq := n, mtk_messages := AList.update ticketID (ticket_thread r ticketID @ [m]) (mtk_messages r),
                 mtk_byID := AList.update ticketID (t\<lparr>st_UpdatedAt := now\<rparr>) (mtk_byID r)\<rparr>)))"

definition TicketListMessages :: "mem_tickets \<Rightarrow> string \<Rightarrow> ticket_message list" where
  "TicketListMessages r ticketID = ticket_thread r ticketID"

section \<open>The closures of main.go\<close>

text \<open>The accounts and the ledger are those of the creator dashboard; \<open>ad_streams\<close> is the number of active
  streams that the streaming module reports.\<close>

record admin_world =
  ad_roles :: mem_roles
  ad_audit :: mem_audit
  ad_tickets :: mem_tickets
  ad_creator :: creator_world
  ad_reports :: mem_reports
  ad_risk :: mem_risk
  ad_streams :: nat

definition adminGetAccount :: "auth_world \<Rightarrow> string \<Rightarrow> admin_error + account_view" where
  "adminGetAccount w accountID =
     (case GetAccountStatus w accountID of
        Inl err \<Rightarrow> Inl (AdminAuthError err)
      | Inr status \<Rightarrow>
          (case GetAccountCreatedAt w accountID of
             Inl err \<Rightarrow> Inl (AdminAuthError err)
           | Inr createdAt \<Rightarrow> Inr \<lparr>avw_AccountID = accountID, avw_Status = status, avw_AgeStatus = GetAgeStatus w accountID,
               avw_CreatedAt = createdAt\<rparr>))"

text \<open>The two names the service passes are the two constructors here.\<close>

definition adminSetAccountStatus :: "admin_world \<Rightarrow> string \<Rightarrow> account_status \<Rightarrow> admin_error option \<times> admin_world" where
  "adminSetAccountStatus w accountID status =
     (case SetAccountStatus (cw_auth (ad_creator w)) accountID status of
        (Inl err, a) \<Rightarrow> (Some (AdminAuthError err), w\<lparr>ad_creator := (ad_creator w)\<lparr>cw_auth := a\<rparr>\<rparr>)
      | (Inr _, a) \<Rightarrow> (None, w\<lparr>ad_creator := (ad_creator w)\<lparr>cw_auth := a\<rparr>\<rparr>))"

definition meta_string :: "metadata \<Rightarrow> string \<Rightarrow> string" where
  "meta_string md k = (case map_of md k of Some (AnyString s) \<Rightarrow> s | _ \<Rightarrow> [])"

definition adminListGifts :: "mem_ledger \<Rightarrow> time \<Rightarrow> (string \<times> string) list" where
  "adminListGifts l since =
     filter (\<lambda>(a, b). a \<noteq> [] \<and> b \<noteq> [])
       (map (\<lambda>tx. (meta_string (tx_Metadata tx) ''sender_id'', meta_string (tx_Metadata tx) ''recipient_id''))
         (ListByKind l ''gift'' since))"

definition adminFlaggedRisk :: "mem_risk \<Rightarrow> risk_flag list" where
  "adminFlaggedRisk r =
     map (\<lambda>p. \<lparr>rf_AccountID = rp_AccountID p, rf_RiskScore = rp_RiskScore p, rf_RiskReasons = rp_RiskReasons p,
       rf_ReviewStatus = rp_ReviewStatus p\<rparr>) (ListFlagged r)"

definition adminOpenReports :: "mem_reports \<Rightarrow> nat" where
  "adminOpenReports r = length (ListReports r ReportOpen)"

definition toTransactionView :: "transaction \<Rightarrow> transaction_view" where
  "toTransactionView tx = \<lparr>tv_ID = tx_ID tx, tv_Kind = tx_Kind tx, tv_Metadata = tx_Metadata tx, tv_Entries = tx_Entries tx,
     tv_CreatedAt = tx_CreatedAt tx\<rparr>"

definition adminGetTransaction :: "mem_ledger \<Rightarrow> string \<Rightarrow> admin_error + transaction_view" where
  "adminGetTransaction l transactionID =
     (case GetTransactionByID l transactionID of
        Inl ErrTransactionNotFound \<Rightarrow> Inl AdminTransactionNotFound
      | Inl err \<Rightarrow> Inl (AdminLedgerError err)
      | Inr tx \<Rightarrow> Inr (toTransactionView tx))"

definition reverse_error :: "ledger_error \<Rightarrow> admin_error" where
  "reverse_error err =
     (case err of
        ErrTransactionNotFound \<Rightarrow> AdminTransactionNotFound
      | ErrAlreadyReversed \<Rightarrow> AdminAlreadyReversed
      | ErrCannotReverseAReversal \<Rightarrow> ErrCannotReverse
      | InsufficientBalanceError _ _ _ _ \<Rightarrow> ErrReversalWouldOverdraw
      | _ \<Rightarrow> AdminLedgerError err)"

definition adminReverseTransaction :: "admin_world \<Rightarrow> time \<Rightarrow> string \<Rightarrow> string \<Rightarrow> string \<Rightarrow>
    (admin_error + transaction_view) \<times> admin_world" where
  "adminReverseTransaction w now transactionID idempotencyKey reason =
     (let (res, l) = ReverseTransaction (cw_ledger (ad_creator w)) now transactionID idempotencyKey reason;
          w' = w\<lparr>ad_creator := (ad_creator w)\<lparr>cw_ledger := l\<rparr>\<rparr>
      in case res of Inl err \<Rightarrow> (Inl (reverse_error err), w') | Inr (tx, isNew) \<Rightarrow> (Inr (toTransactionView tx), w'))"

definition toPayoutView :: "payout \<Rightarrow> payout_view" where
  "toPayoutView p = \<lparr>pw_ID = po_ID p, pw_AccountID = po_AccountID p, pw_AmountDiamonds = po_AmountDiamonds p,
     pw_Status = po_Status p, pw_PayoutReference = po_PayoutReference p, pw_AdminNote = po_AdminNote p,
     pw_FailureReason = po_FailureReason p, pw_ReviewedBy = po_ReviewedBy p, pw_RequestedAt = po_RequestedAt p,
     pw_ReviewedAt = po_ReviewedAt p, pw_PaidAt = po_PaidAt p\<rparr>"

definition adminListPayouts :: "payout_order \<Rightarrow> creator_world \<Rightarrow> string \<Rightarrow> payout_view list" where
  "adminListPayouts ord w statusFilter = map toPayoutView (AdminListPayouts ord w statusFilter)"

text \<open>The action names the service passes are constructors here.\<close>

datatype payout_action = PayoutApprove | PayoutReject | PayoutProcess | PayoutPay | PayoutFail

definition payout_error :: "creator_error \<Rightarrow> admin_error" where
  "payout_error err =
     (case err of
        ErrPayoutNotFound \<Rightarrow> AdminPayoutNotFound
      | ErrInvalidPayoutTransition \<Rightarrow> AdminInvalidPayoutTransition
      | _ \<Rightarrow> AdminCreatorError err)"

definition adminPayoutAction :: "admin_world \<Rightarrow> time \<Rightarrow> payout_action \<Rightarrow> string \<Rightarrow> string \<Rightarrow> string \<Rightarrow>
    (admin_error + payout_view) \<times> admin_world" where
  "adminPayoutAction w now action payoutID adminID n =
     (let (res, c) =
            (case action of
               PayoutApprove \<Rightarrow> AdminApprovePayout (ad_creator w) now adminID payoutID n
             | PayoutReject \<Rightarrow> AdminRejectPayout (ad_creator w) now adminID payoutID n
             | PayoutProcess \<Rightarrow> AdminMarkProcessing (ad_creator w) now adminID payoutID
             | PayoutPay \<Rightarrow> AdminMarkPaid (ad_creator w) now adminID payoutID n
             | PayoutFail \<Rightarrow> AdminMarkFailed (ad_creator w) now adminID payoutID n);
          w' = w\<lparr>ad_creator := c\<rparr>
      in case res of Inl err \<Rightarrow> (Inl (payout_error err), w') | Inr p \<Rightarrow> (Inr (toPayoutView p), w'))"

section \<open>The service\<close>

definition requirePermission :: "admin_world \<Rightarrow> string \<Rightarrow> permission \<Rightarrow> admin_error + role" where
  "requirePermission w adminID perm =
     (case MemGetRole (ad_roles w) adminID of
        None \<Rightarrow> Inl ErrForbidden
      | Some role \<Rightarrow> if RoleHasPermission role perm then Inr role else Inl ErrForbidden)"

definition logAction :: "admin_world \<Rightarrow> time \<Rightarrow> string \<Rightarrow> role \<Rightarrow> string \<Rightarrow> string \<Rightarrow> string \<Rightarrow> string \<Rightarrow> admin_world" where
  "logAction w now actorID role action targetType targetID detail =
     w\<lparr>ad_audit := snd (AuditAppend (ad_audit w) \<lparr>ae_ID = [], ae_ActorID = actorID, ae_ActorRole = role, ae_Action = action,
       ae_TargetType = targetType, ae_TargetID = targetID, ae_Detail = detail, ae_CreatedAt = now\<rparr>)\<rparr>"

definition HasPermission :: "admin_world \<Rightarrow> string \<Rightarrow> permission \<Rightarrow> bool" where
  "HasPermission w actorID perm =
     (case MemGetRole (ad_roles w) actorID of None \<Rightarrow> False | Some role \<Rightarrow> RoleHasPermission role perm)"

definition DevGrantRole :: "admin_world \<Rightarrow> string \<Rightarrow> role \<Rightarrow> admin_error option \<times> admin_world" where
  "DevGrantRole w accountID role =
     (if \<not> ValidRole role then (Some ErrInvalidRole, w)
      else (None, w\<lparr>ad_roles := MemSetRole (ad_roles w) accountID role\<rparr>))"

definition GetRole :: "admin_world \<Rightarrow> string \<Rightarrow> role option" where
  "GetRole w accountID = MemGetRole (ad_roles w) accountID"

definition AdminGetAccount :: "admin_world \<Rightarrow> string \<Rightarrow> string \<Rightarrow> admin_error + account_view" where
  "AdminGetAccount w adminID accountID =
     (case requirePermission w adminID PermAccountsManage of
        Inl err \<Rightarrow> Inl err
      | Inr _ \<Rightarrow> adminGetAccount (cw_auth (ad_creator w)) accountID)"

definition RestrictAccount :: "admin_world \<Rightarrow> time \<Rightarrow> string \<Rightarrow> string \<Rightarrow> string \<Rightarrow> admin_error option \<times> admin_world" where
  "RestrictAccount w now adminID accountID reason =
     (case requirePermission w adminID PermAccountsManage of
        Inl err \<Rightarrow> (Some err, w)
      | Inr role \<Rightarrow>
          (case adminSetAccountStatus w accountID StatusRestricted of
             (Some err, w') \<Rightarrow> (Some err, w')
           | (None, w') \<Rightarrow> (None, logAction w' now adminID role ''restrict_account'' ''account'' accountID reason)))"

definition UnsuspendAccount :: "admin_world \<Rightarrow> time \<Rightarrow> string \<Rightarrow> string \<Rightarrow> admin_error option \<times> admin_world" where
  "UnsuspendAccount w now adminID accountID =
     (case requirePermission w adminID PermAccountsManage of
        Inl err \<Rightarrow> (Some err, w)
      | Inr role \<Rightarrow>
          (case adminSetAccountStatus w accountID StatusActive of
             (Some err, w') \<Rightarrow> (Some err, w')
           | (None, w') \<Rightarrow> (None, logAction w' now adminID role ''unsuspend_account'' ''account'' accountID [])))"

text \<open>\<open>%s\<close> of a duration of whole seconds, one at least; the handler asks for 24 hours.\<close>

definition number_text :: "nat \<Rightarrow> string" where
  "number_text n = (if n = 0 then ''0'' else itoa_loop n [])"

definition duration_text :: "duration \<Rightarrow> string" where
  "duration_text d =
     (let s = nat (d div second); m = s div 60; h = m div 60
      in (if 0 < h then number_text h @ ''h'' else []) @ (if 0 < m then number_text (m mod 60) @ ''m'' else []) @
         number_text (s mod 60) @ ''s'')"

text \<open>The loop over the pairs; \<open>sent\<close> is the set \<open>sentAToB\<close> in the order it is met.\<close>

definition loop_key :: "string \<times> string \<Rightarrow> string \<times> string" where
  "loop_key p = (if snd p < fst p then (snd p, fst p) else p)"

fun anomaly_keys :: "(string \<times> string) list \<Rightarrow> (string \<times> string) list \<Rightarrow> (string \<times> string) list \<Rightarrow> (string \<times> string) list" where
  "anomaly_keys sent seen [] = []"
| "anomaly_keys sent seen (p # ps) =
     (if (snd p, fst p) \<notin> set sent \<or> loop_key p \<in> set seen then anomaly_keys sent seen ps
      else loop_key p # anomaly_keys sent (loop_key p # seen) ps)"

definition ListEconomyAnomalies :: "((string \<times> string) list \<Rightarrow> (string \<times> string) list) \<Rightarrow> admin_world \<Rightarrow> time \<Rightarrow> string \<Rightarrow>
    duration \<Rightarrow> admin_error + economy_anomaly list" where
  "ListEconomyAnomalies ord w now adminID window =
     (case requirePermission w adminID PermEconomyView of
        Inl err \<Rightarrow> Inl err
      | Inr _ \<Rightarrow>
          (let sent = ord (remdups (adminListGifts (cw_ledger (ad_creator w)) (now - window)))
           in Inr (map (\<lambda>(a, b). \<lparr>ea_Type = ''gift_loop'', ea_AccountA = a, ea_AccountB = b,
                ea_Detail = a @ '' and '' @ b @ '' sent gifts to each other within the last '' @ duration_text window,
                ea_DetectedAt = now\<rparr>) (anomaly_keys sent [] sent))))"

definition ListFraudQueue :: "admin_world \<Rightarrow> string \<Rightarrow> admin_error + risk_flag list" where
  "ListFraudQueue w adminID =
     (case requirePermission w adminID PermFraudReview of Inl err \<Rightarrow> Inl err | Inr _ \<Rightarrow> Inr (adminFlaggedRisk (ad_risk w)))"

subsection \<open>Support tickets\<close>

definition CreateTicket :: "admin_world \<Rightarrow> time \<Rightarrow> string \<Rightarrow> string \<Rightarrow> string \<Rightarrow> string \<Rightarrow> support_ticket \<times> admin_world" where
  "CreateTicket w now accountID subject category body =
     (let (t, r) = TicketCreate (ad_tickets w)
            \<lparr>st_ID = [], st_AccountID = accountID, st_Subject = subject, st_Category = category, st_Status = TicketOpen,
              st_AssignedTo = [], st_SLADeadline = now + FirstResponseSLA, st_CreatedAt = now, st_UpdatedAt = now\<rparr>
            \<lparr>tm_ID = [], tm_TicketID = [], tm_AuthorID = accountID, tm_IsAdmin = False, tm_Body = body, tm_CreatedAt = now\<rparr>
      in (t, w\<lparr>ad_tickets := r\<rparr>))"

definition ListMyTickets :: "(support_ticket list \<Rightarrow> support_ticket list) \<Rightarrow> admin_world \<Rightarrow> string \<Rightarrow> admin_error + support_ticket list" where
  "ListMyTickets ord w accountID = TicketListByAccount ord (ad_tickets w) accountID"

definition GetTicket :: "admin_world \<Rightarrow> string \<Rightarrow> string \<Rightarrow> admin_error + support_ticket \<times> ticket_message list" where
  "GetTicket w requesterID ticketID =
     (case TicketGet (ad_tickets w) ticketID of
        Inl err \<Rightarrow> Inl err
      | Inr t \<Rightarrow>
          if st_AccountID t \<noteq> requesterID \<and> isl (requirePermission w requesterID PermSupportManage)
          then Inl ErrNotTicketParty
          else Inr (t, TicketListMessages (ad_tickets w) ticketID))"

definition ReplyTicket :: "admin_world \<Rightarrow> time \<Rightarrow> string \<Rightarrow> string \<Rightarrow> string \<Rightarrow> (admin_error + ticket_message) \<times> admin_world" where
  "ReplyTicket w now authorID ticketID body =
     (case TicketGet (ad_tickets w) ticketID of
        Inl err \<Rightarrow> (Inl err, w)
      | Inr t \<Rightarrow>
          (let isAdmin = (st_AccountID t \<noteq> authorID)
           in if isAdmin \<and> isl (requirePermission w authorID PermSupportManage) then (Inl ErrNotTicketParty, w)
              else
                (case AddMessage (ad_tickets w) now ticketID
                        \<lparr>tm_ID = [], tm_TicketID = [], tm_AuthorID = authorID, tm_IsAdmin = isAdmin, tm_Body = body, tm_CreatedAt = now\<rparr> of
                   (Inl err, r) \<Rightarrow> (Inl err, w\<lparr>ad_tickets := r\<rparr>)
                 | (Inr m, r) \<Rightarrow>
                     (Inr m, w\<lparr>ad_tickets := snd (UpdateStatusAssignee r now ticketID
                       (if isAdmin then TicketPending else TicketOpen) [])\<rparr>))))"

definition ListTicketQueue :: "(support_ticket list \<Rightarrow> support_ticket list) \<Rightarrow> admin_world \<Rightarrow> string \<Rightarrow> ticket_status \<Rightarrow>
    admin_error + support_ticket list" where
  "ListTicketQueue ord w adminID statusFilter =
     (case requirePermission w adminID PermSupportManage of
        Inl err \<Rightarrow> Inl err
      | Inr _ \<Rightarrow> Inr (TicketListAll ord (ad_tickets w) statusFilter))"

definition ResolveTicket :: "admin_world \<Rightarrow> time \<Rightarrow> string \<Rightarrow> string \<Rightarrow> admin_error option \<times> admin_world" where
  "ResolveTicket w now adminID ticketID =
     (case requirePermission w adminID PermSupportManage of
        Inl err \<Rightarrow> (Some err, w)
      | Inr role \<Rightarrow>
          (case UpdateStatusAssignee (ad_tickets w) now ticketID TicketResolved adminID of
             (Some err, r) \<Rightarrow> (Some err, w\<lparr>ad_tickets := r\<rparr>)
           | (None, r) \<Rightarrow> (None, logAction (w\<lparr>ad_tickets := r\<rparr>) now adminID role ''resolve_ticket'' ''ticket'' ticketID [])))"

subsection \<open>Health\<close>

definition GetPlatformHealth :: "admin_world \<Rightarrow> string \<Rightarrow> admin_error + platform_health" where
  "GetPlatformHealth w adminID =
     (case requirePermission w adminID PermHealthView of
        Inl err \<Rightarrow> Inl err
      | Inr _ \<Rightarrow>
          Inr \<lparr>ph_ActiveStreams = ad_streams w, ph_OpenReports = adminOpenReports (ad_reports w),
            ph_FlaggedRiskAccounts = length (adminFlaggedRisk (ad_risk w)),
            ph_PendingPayouts = CountPending (cw_payouts (ad_creator w)), ph_OpenTickets = TicketCountOpen (ad_tickets w),
            ph_LedgerIntegrity = IntegrityCheck (cw_ledger (ad_creator w))\<rparr>)"

subsection \<open>Withdrawals and refunds\<close>

definition AdminPayouts :: "payout_order \<Rightarrow> admin_world \<Rightarrow> string \<Rightarrow> string \<Rightarrow> admin_error + payout_view list" where
  "AdminPayouts ord w adminID statusFilter =
     (case requirePermission w adminID PermPayoutManage of
        Inl err \<Rightarrow> Inl err
      | Inr _ \<Rightarrow> Inr (adminListPayouts ord (ad_creator w) statusFilter))"

text \<open>The five payout methods have one body; they differ in the action, in what is passed on and in what is logged.\<close>

definition payout_method_call :: "admin_world \<Rightarrow> time \<Rightarrow> string \<Rightarrow> payout_action \<Rightarrow> string \<Rightarrow> string \<Rightarrow> string \<Rightarrow> string \<Rightarrow>
    (admin_error + payout_view) \<times> admin_world" where
  "payout_method_call w now adminID action payoutID passed logged detail =
     (case requirePermission w adminID PermPayoutManage of
        Inl err \<Rightarrow> (Inl err, w)
      | Inr role \<Rightarrow>
          (case adminPayoutAction w now action payoutID adminID passed of
             (Inl err, w') \<Rightarrow> (Inl err, w')
           | (Inr pv, w') \<Rightarrow> (Inr pv, logAction w' now adminID role logged ''payout'' payoutID detail)))"

definition ApprovePayout :: "admin_world \<Rightarrow> time \<Rightarrow> string \<Rightarrow> string \<Rightarrow> string \<Rightarrow> (admin_error + payout_view) \<times> admin_world" where
  "ApprovePayout w now adminID payoutID n = payout_method_call w now adminID PayoutApprove payoutID n ''approve_payout'' n"

definition RejectPayout :: "admin_world \<Rightarrow> time \<Rightarrow> string \<Rightarrow> string \<Rightarrow> string \<Rightarrow> (admin_error + payout_view) \<times> admin_world" where
  "RejectPayout w now adminID payoutID reason = payout_method_call w now adminID PayoutReject payoutID reason ''reject_payout'' reason"

definition MarkPayoutProcessing :: "admin_world \<Rightarrow> time \<Rightarrow> string \<Rightarrow> string \<Rightarrow> (admin_error + payout_view) \<times> admin_world" where
  "MarkPayoutProcessing w now adminID payoutID =
     payout_method_call w now adminID PayoutProcess payoutID [] ''mark_payout_processing'' []"

definition MarkPayoutPaid :: "admin_world \<Rightarrow> time \<Rightarrow> string \<Rightarrow> string \<Rightarrow> string \<Rightarrow> (admin_error + payout_view) \<times> admin_world" where
  "MarkPayoutPaid w now adminID payoutID payoutReference =
     payout_method_call w now adminID PayoutPay payoutID payoutReference ''mark_payout_paid'' (''payout_reference='' @ payoutReference)"

definition MarkPayoutFailed :: "admin_world \<Rightarrow> time \<Rightarrow> string \<Rightarrow> string \<Rightarrow> string \<Rightarrow> (admin_error + payout_view) \<times> admin_world" where
  "MarkPayoutFailed w now adminID payoutID reason =
     payout_method_call w now adminID PayoutFail payoutID reason ''mark_payout_failed'' reason"

definition GetLedgerTransaction :: "admin_world \<Rightarrow> string \<Rightarrow> string \<Rightarrow> admin_error + transaction_view" where
  "GetLedgerTransaction w adminID transactionID =
     (case requirePermission w adminID PermRefundManage of
        Inl err \<Rightarrow> Inl err
      | Inr _ \<Rightarrow> adminGetTransaction (cw_ledger (ad_creator w)) transactionID)"

definition ReverseLedgerTransaction :: "admin_world \<Rightarrow> time \<Rightarrow> string \<Rightarrow> string \<Rightarrow> string \<Rightarrow> string \<Rightarrow>
    (admin_error + transaction_view) \<times> admin_world" where
  "ReverseLedgerTransaction w now adminID transactionID idempotencyKey reason =
     (case requirePermission w adminID PermRefundManage of
        Inl err \<Rightarrow> (Inl err, w)
      | Inr role \<Rightarrow>
          (case adminReverseTransaction w now transactionID idempotencyKey reason of
             (Inl err, w') \<Rightarrow> (Inl err, w')
           | (Inr tv, w') \<Rightarrow> (Inr tv, logAction w' now adminID role ''reverse_transaction'' ''transaction'' transactionID reason)))"

definition ListAuditLog :: "(audit_entry list \<Rightarrow> audit_entry list) \<Rightarrow> admin_world \<Rightarrow> string \<Rightarrow> int \<Rightarrow> admin_error + audit_entry list" where
  "ListAuditLog ord w adminID limit =
     (case requirePermission w adminID PermAuditView of
        Inl err \<Rightarrow> Inl err
      | Inr _ \<Rightarrow> Inr (AuditList ord (ad_audit w) limit))"


section \<open>Everything an account can ask for\<close>

datatype admin_call =
    CallGetAccount string
  | CallRestrict string string
  | CallUnsuspend string
  | CallAnomalies duration
  | CallFraudQueue
  | CallCreateTicket string string string
  | CallGetTicket string
  | CallReplyTicket string string
  | CallTicketQueue ticket_status
  | CallResolveTicket string
  | CallHealth
  | CallListPayouts string
  | CallApprovePayout string string
  | CallRejectPayout string string
  | CallProcessPayout string
  | CallPayPayout string string
  | CallFailPayout string string
  | CallGetTransaction string
  | CallReverse string string string
  | CallAuditLog int

definition error_of :: "'e + 'a \<Rightarrow> 'e option" where
  "error_of r = (case r of Inl err \<Rightarrow> Some err | Inr _ \<Rightarrow> None)"

lemma error_of_simps [simp]: "error_of (Inl err) = Some err" "error_of (Inr x) = None"
  by (simp_all add: error_of_def)

text \<open>The error of a call and the state after it.\<close>

fun admin_do :: "admin_world \<Rightarrow> time \<Rightarrow> string \<Rightarrow> admin_call \<Rightarrow> admin_error option \<times> admin_world" where
  "admin_do w now a (CallGetAccount i) = (error_of (AdminGetAccount w a i), w)"
| "admin_do w now a (CallRestrict i reason) = RestrictAccount w now a i reason"
| "admin_do w now a (CallUnsuspend i) = UnsuspendAccount w now a i"
| "admin_do w now a (CallAnomalies window) = (error_of (ListEconomyAnomalies (\<lambda>xs. xs) w now a window), w)"
| "admin_do w now a CallFraudQueue = (error_of (ListFraudQueue w a), w)"
| "admin_do w now a (CallCreateTicket subject category body) = (None, snd (CreateTicket w now a subject category body))"
| "admin_do w now a (CallGetTicket i) = (error_of (GetTicket w a i), w)"
| "admin_do w now a (CallReplyTicket i body) = (let (r, w') = ReplyTicket w now a i body in (error_of r, w'))"
| "admin_do w now a (CallTicketQueue st) = (error_of (ListTicketQueue (\<lambda>xs. xs) w a st), w)"
| "admin_do w now a (CallResolveTicket i) = ResolveTicket w now a i"
| "admin_do w now a CallHealth = (error_of (GetPlatformHealth w a), w)"
| "admin_do w now a (CallListPayouts st) = (error_of (AdminPayouts (\<lambda>xs. xs) w a st), w)"
| "admin_do w now a (CallApprovePayout i n) = (let (r, w') = ApprovePayout w now a i n in (error_of r, w'))"
| "admin_do w now a (CallRejectPayout i n) = (let (r, w') = RejectPayout w now a i n in (error_of r, w'))"
| "admin_do w now a (CallProcessPayout i) = (let (r, w') = MarkPayoutProcessing w now a i in (error_of r, w'))"
| "admin_do w now a (CallPayPayout i n) = (let (r, w') = MarkPayoutPaid w now a i n in (error_of r, w'))"
| "admin_do w now a (CallFailPayout i n) = (let (r, w') = MarkPayoutFailed w now a i n in (error_of r, w'))"
| "admin_do w now a (CallGetTransaction i) = (error_of (GetLedgerTransaction w a i), w)"
| "admin_do w now a (CallReverse i key reason) = (let (r, w') = ReverseLedgerTransaction w now a i key reason in (error_of r, w'))"
| "admin_do w now a (CallAuditLog limit) = (error_of (ListAuditLog (\<lambda>xs. xs) w a limit), w)"

primrec admin_run :: "admin_world \<Rightarrow> (time \<times> string \<times> admin_call) list \<Rightarrow> admin_world" where
  "admin_run w [] = w"
| "admin_run w (c # cs) = admin_run (snd (admin_do w (fst c) (fst (snd c)) (snd (snd c)))) cs"

text \<open>Who may do what, as the roadmap has it. The owner of a ticket needs no role for it.\<close>

fun call_role :: "admin_world \<Rightarrow> string \<Rightarrow> admin_call \<Rightarrow> string set" where
  "call_role w a (CallCreateTicket subject category body) = UNIV"
| "call_role w a (CallGetTicket i) =
     (case map_of (mtk_byID (ad_tickets w)) i of
        Some t \<Rightarrow> if st_AccountID t = a then UNIV else {''support'', ''superadmin''} | None \<Rightarrow> {''support'', ''superadmin''})"
| "call_role w a (CallReplyTicket i body) =
     (case map_of (mtk_byID (ad_tickets w)) i of
        Some t \<Rightarrow> if st_AccountID t = a then UNIV else {''support'', ''superadmin''} | None \<Rightarrow> {''support'', ''superadmin''})"
| "call_role w a (CallTicketQueue st) = {''support'', ''superadmin''}"
| "call_role w a (CallResolveTicket i) = {''support'', ''superadmin''}"
| "call_role w a (CallGetAccount i) = {''trust_safety'', ''superadmin''}"
| "call_role w a (CallRestrict i reason) = {''trust_safety'', ''superadmin''}"
| "call_role w a (CallUnsuspend i) = {''trust_safety'', ''superadmin''}"
| "call_role w a CallFraudQueue = {''trust_safety'', ''superadmin''}"
| "call_role w a CallHealth = {''superadmin''}"
| "call_role w a (CallAuditLog limit) = {''finance'', ''trust_safety'', ''superadmin''}"
| "call_role w a _ = {''finance'', ''superadmin''}"

lemma requirePermission_cases:
  obtains "requirePermission w a perm = Inl ErrForbidden" "\<not> HasPermission w a perm"
  | role where "requirePermission w a perm = Inr role" "map_of (ad_roles w) a = Some role" "RoleHasPermission role perm"
  by (cases "map_of (ad_roles w) a") (auto simp: requirePermission_def HasPermission_def MemGetRole_def split: if_splits)

lemmas role_defs = RoleSupport_def RoleFinance_def RoleTrustSafety_def RoleSuperAdmin_def

lemma who_may:
  "RoleHasPermission r PermAccountsManage \<longleftrightarrow> r \<in> {''trust_safety'', ''superadmin''}"
  "RoleHasPermission r PermFraudReview \<longleftrightarrow> r \<in> {''trust_safety'', ''superadmin''}"
  "RoleHasPermission r PermEconomyView \<longleftrightarrow> r \<in> {''finance'', ''superadmin''}"
  "RoleHasPermission r PermPayoutManage \<longleftrightarrow> r \<in> {''finance'', ''superadmin''}"
  "RoleHasPermission r PermRefundManage \<longleftrightarrow> r \<in> {''finance'', ''superadmin''}"
  "RoleHasPermission r PermSupportManage \<longleftrightarrow> r \<in> {''support'', ''superadmin''}"
  "RoleHasPermission r PermAuditView \<longleftrightarrow> r \<in> {''finance'', ''trust_safety'', ''superadmin''}"
  "RoleHasPermission r PermHealthView \<longleftrightarrow> r \<in> {''superadmin''}"
  by (auto simp: RoleHasPermission_def RolePermissions_def role_defs)

lemma requirePermission_refuses:
  "\<not> (\<exists>r. map_of (ad_roles w) a = Some r \<and> RoleHasPermission r perm) \<Longrightarrow> requirePermission w a perm = Inl ErrForbidden"
  by (auto simp: requirePermission_def MemGetRole_def split: option.split)



definition demo_admin :: admin_world where
  "demo_admin = \<lparr>ad_roles = [(''f'', RoleFinance), (''s'', RoleSupport), (''t'', RoleTrustSafety)], ad_audit = NewMemAuditRepo,
     ad_tickets = NewMemTicketRepo, ad_creator = demo_verified, ad_reports = NewMemReportRepo, ad_risk = NewMemRiskRepo, ad_streams = 0\<rparr>"


section \<open>The audit log\<close>

text \<open>An error leaves accounts, ledger and payouts alone.\<close>

lemma adminSetAccountStatus_error: "adminSetAccountStatus w i st = (Some err, w') \<Longrightarrow> ad_creator w' = ad_creator w"
  by (auto simp: adminSetAccountStatus_def SetAccountStatus_def lift_repo_def MemSetAccountStatus_def split: option.splits)

lemma transition_error: "transitionPayout c now i froms f = (Inl err, c') \<Longrightarrow> c' = c"
  by (auto simp: transitionPayout_def PayoutUpdate_def PayoutGet_def guarded_def Let_def
      split: sum.splits option.splits if_splits prod.splits)

lemma reversePayout_error: "reversePayout l now a n key = (Inl err, l') \<Longrightarrow> l' = l"
  using mem.error_law
  by (cases rule: postLocked_cases [of l key now "''payout_reversal''" "[(''account_id'', AnyString a)]" "payout_reversal_entries a n"])
    (auto simp: reversePayout_def PostTransaction_def split: sum.splits prod.splits)

lemma rejectOrFail_error: "rejectOrFail c now adm i reason final froms = (Inl err, c') \<Longrightarrow> c' = c"
  by (auto simp: rejectOrFail_def PayoutUpdate_def PayoutGet_def reverse_and_close_def
      split: sum.splits option.splits if_splits prod.splits dest: reversePayout_error)

lemma adminPayoutAction_error: "adminPayoutAction w now act i a n = (Inl err, w') \<Longrightarrow> ad_creator w' = ad_creator w"
  by (cases act) (auto simp: adminPayoutAction_def Let_def AdminApprovePayout_def AdminMarkProcessing_def AdminMarkPaid_def
      AdminRejectPayout_def AdminMarkFailed_def split: sum.splits prod.splits if_splits dest: transition_error rejectOrFail_error)

lemma adminReverseTransaction_error: "adminReverseTransaction w now i key reason = (Inl err, w') \<Longrightarrow> ad_creator w' = ad_creator w"
  by (cases rule: ReverseTransaction_cases [of "cw_ledger (ad_creator w)" key now i reason])
    (auto simp: adminReverseTransaction_def Let_def split: sum.splits prod.splits)

text \<open>The closures keep to their part of the state.\<close>

lemma closures_keep:
  "ad_audit (snd (adminSetAccountStatus w i st)) = ad_audit w \<and> ad_roles (snd (adminSetAccountStatus w i st)) = ad_roles w"
  "ad_audit (snd (adminPayoutAction w now act i a n)) = ad_audit w \<and> ad_roles (snd (adminPayoutAction w now act i a n)) = ad_roles w"
  "ad_audit (snd (adminReverseTransaction w now i key reason)) = ad_audit w \<and>
     ad_roles (snd (adminReverseTransaction w now i key reason)) = ad_roles w"
  by (auto simp: adminSetAccountStatus_def adminPayoutAction_def adminReverseTransaction_def Let_def
      split: sum.splits prod.splits)

lemma logAction_simps [simp]:
  "ad_roles (logAction w now a r act tt ti d) = ad_roles w" "ad_creator (logAction w now a r act tt ti d) = ad_creator w"
  "mau_entries (ad_audit (logAction w now a r act tt ti d)) = mau_entries (ad_audit w) @
     [\<lparr>ae_ID = ''audit-'' @ dec04 (Suc (mau_seq (ad_audit w))), ae_ActorID = a, ae_ActorRole = r, ae_Action = act,
       ae_TargetType = tt, ae_TargetID = ti, ae_Detail = d, ae_CreatedAt = now\<rparr>]"
  by (simp_all add: logAction_def AuditAppend_def Let_def)

text \<open>What one call does to the log: nothing, when it leaves accounts, ledger and payouts alone, or one entry.\<close>

definition audited :: "admin_world \<Rightarrow> time \<Rightarrow> string \<Rightarrow> admin_call \<Rightarrow> admin_world \<Rightarrow> bool" where
  "audited w now a call w' \<longleftrightarrow> ad_roles w' = ad_roles w \<and>
     (mau_entries (ad_audit w') = mau_entries (ad_audit w) \<and> ad_creator w' = ad_creator w \<or>
      (\<exists>e. mau_entries (ad_audit w') = mau_entries (ad_audit w) @ [e] \<and> ae_ActorID e = a \<and> ae_CreatedAt e = now \<and>
         map_of (ad_roles w) a = Some (ae_ActorRole e) \<and> ae_ActorRole e \<in> call_role w a call))"

lemma audited_same [simp]: "audited w now a call w"
  by (simp add: audited_def)

lemma snd_errored [simp]: "snd (case p of (r, w') \<Rightarrow> (error_of r, w')) = snd p"
  by (simp add: case_prod_beta)

lemma payout_method_audited:
  assumes "call_role w a call = {''finance'', ''superadmin''}"
  shows "audited w now a call (snd (payout_method_call w now a act i n logged d))"
proof (cases rule: requirePermission_cases [of w a PermPayoutManage])
  case (2 role)
  obtain r w' where p: "adminPayoutAction w now act i a n = (r, w')" by (cases "adminPayoutAction w now act i a n")
  then show ?thesis
    using 2 closures_keep(2) [of w now act i a n] assms
    by (cases r) (auto simp: payout_method_call_def audited_def who_may dest: adminPayoutAction_error)
qed (simp add: payout_method_call_def audited_def)

lemma set_status_audited:
  assumes "call_role w a call = {''trust_safety'', ''superadmin''}" "requirePermission w a PermAccountsManage = Inr role"
  shows "audited w now a call (snd (case adminSetAccountStatus w i st of
     (Some err, w') \<Rightarrow> (Some err, w') | (None, w') \<Rightarrow> (None, logAction w' now a role act tt ti d)))"
proof -
  obtain r w' where p: "adminSetAccountStatus w i st = (r, w')" by (cases "adminSetAccountStatus w i st")
  then show ?thesis
    using closures_keep(1) [of w i st] assms
    by (cases rule: requirePermission_cases [of w a PermAccountsManage])
      (auto simp: audited_def who_may split: option.split dest: adminSetAccountStatus_error)
qed

lemma admin_do_audited: "audited w now a call (snd (admin_do w now a call))"
proof (cases call)
  case (CallRestrict i reason)
  then show ?thesis
    using set_status_audited [of w a call]
    by (cases "requirePermission w a PermAccountsManage") (auto simp: RestrictAccount_def audited_def)
next
  case (CallUnsuspend i)
  then show ?thesis
    using set_status_audited [of w a call]
    by (cases "requirePermission w a PermAccountsManage") (auto simp: UnsuspendAccount_def audited_def)
next
  case (CallResolveTicket i)
  then show ?thesis
    by (cases rule: requirePermission_cases [of w a PermSupportManage])
      (auto simp: ResolveTicket_def audited_def who_may split: option.splits prod.splits)
next
  case (CallReverse i key reason)
  obtain r w' where p: "adminReverseTransaction w now i key reason = (r, w')" by (cases "adminReverseTransaction w now i key reason")
  then show ?thesis
    using closures_keep(3) [of w now i key reason] CallReverse
    by (cases rule: requirePermission_cases [of w a PermRefundManage]; cases r)
      (auto simp: ReverseLedgerTransaction_def audited_def who_may dest: adminReverseTransaction_error)
next
  case (CallReplyTicket i body)
  then show ?thesis
    by (auto simp: ReplyTicket_def audited_def Let_def split: sum.splits prod.splits if_splits)
next
  case (CallCreateTicket subject category body)
  then show ?thesis by (simp add: CreateTicket_def audited_def Let_def split: prod.split)
qed (simp_all add: payout_method_audited Let_def ApprovePayout_def RejectPayout_def MarkPayoutProcessing_def MarkPayoutPaid_def
  MarkPayoutFailed_def)




section \<open>Refund and rejection\<close>

text \<open>The transaction of a payout just requested can be reversed under a fresh key, which restores the balance.\<close>

lemma payout_tx_reverses:
  assumes inv: "ledger_inv l" and post: "postPayout l now a n key = (Inr txID, l1)" and n: "0 < n"
    and keys: "tx_by_key l key = None" "tx_by_key l k2 = None" "k2 \<noteq> key"
    and bound: "bal l (UserDiamondsAccount a, Diamond) + n < 2 ^ 63"
  shows "\<exists>v l2. ReverseTransaction l1 t1 txID k2 reason = (Inr (v, True), l2) \<and> ledger_inv l2 \<and>
    bal l2 (UserDiamondsAccount a, Diamond) = bal l (UserDiamondsAccount a, Diamond) \<and>
    (\<forall>x. x \<noteq> key \<longrightarrow> x \<noteq> k2 \<longrightarrow> tx_by_key l2 x = tx_by_key l x)"
proof -
  let ?k = "(UserDiamondsAccount a, Diamond)"
  have b0: "0 \<le> bal l ?k" using mem.nonneg_law [OF inv] by simp
  have n63: "n < 2 ^ 63" using b0 bound by linarith
  obtain t where posted: "repo_PostTransaction mem_ledger_repo l now ''payout'' key [(''account_id'', AnyString a)] (payout_entries a n) =
      (Inr (t, True), l1)" and t: "tx_ID t = txID" "tx_Kind t = ''payout''" "tx_Entries t = payout_entries a n"
    and l1: "ledger_inv l1" "tx_by_key l1 = (tx_by_key l)(key \<mapsto> t)"
      "\<And>k. bal l1 k = add64 (bal l k) (entries_at k (payout_entries a n))"
    using post mem.post_cases [OF inv, of now "''payout''" key "[(''account_id'', AnyString a)]" "payout_entries a n"] keys(1)
    by (auto simp: postPayout_def mem_ledger_repo_def split: sum.splits prod.splits)
  have u: "tx_by_id l1 txID = Some t" using mem.stored_by_id [OF l1(1), of key t] l1(2) t(1) by simp
  have fresh: "\<not> is_reversed l1 txID" using mem.new_unreversed [OF inv posted] t(1) by simp
  have neg: "neg64 n = - n" "neg64 (- n) = n" using n n63 by (simp_all add: neg64_id in_i64_def)
  have b1: "0 \<le> bal l1 ?k" using mem.nonneg_law [OF l1(1)] by simp
  have "bal l1 ?k = add64 (bal l ?k) (- n)" using l1(3) [of ?k] entries_at_payout(1) [OF n n63, of a a] by simp
  then have b1': "bal l1 ?k = bal l ?k - n" using b0 n bound by (simp add: add64_id in_i64_def)
  have "distinct (map entry_key (tx_Entries t))" by (simp add: t payout_entries_def entry_key_def)
  moreover have "affordable (bal l1) (reversed_entries (tx_Entries t))"
    using b1 b1' n bound by (simp add: affordable_def t payout_entries_def entry_key_def neg add64_id in_i64_def)
  moreover have k2: "tx_by_key l1 k2 = None" using l1(2) keys(2,3) by simp
  ultimately obtain v l2 where rev: "ReverseTransaction l1 t1 txID k2 reason = (Inr (v, True), l2)"
    using mem.reverse_succeeds [OF l1(1) _ u _ fresh, of k2 t1 reason] t(2) by (auto simp: mem_ledger_repo_def)
  have l2: "ledger_inv l2" "tx_by_key l2 = (tx_by_key l1)(k2 \<mapsto> v)" "bal l2 ?k = sub64 (bal l1 ?k) (entries_at ?k (tx_Entries t))"
    using mem.reverse_new [OF l1(1) k2, of t1 txID reason v True l2] rev u by (auto simp: mem_ledger_repo_def)
  have "bal l2 ?k = bal l ?k"
    using l2(3) b1' b0 n bound entries_at_payout(1) [OF n n63, of a a] by (simp add: t(3) sub64_id in_i64_def)
  then show ?thesis using rev l2(1) l2(2) l1(2) by auto
qed

text \<open>C19: Anybody can pay himself. The route that grants roles asks for nothing but a login, and refunding the ledger
  transaction of a payout does not touch the payout. So an account with an open payout takes the finance role, refunds
  the debit of its own payout under a fresh key, and then rejects the payout, which pays the amount a second time: it
  ends with the amount of the payout more than it had before it asked for the payout.\<close>

lemma payout_refunded_twice:
  assumes "ledger_inv (cw_ledger (ad_creator w))" and "RequestPayout (ad_creator w) now a n key = (Inr p, c)"
    and "tx_by_key (cw_ledger (ad_creator w)) key = None" and "tx_by_key (cw_ledger (ad_creator w)) k2 = None"
    and "tx_by_key (cw_ledger (ad_creator w)) (''payout-reversal:'' @ po_ID p) = None"
    and "k2 \<noteq> key" and "''payout-reversal:'' @ po_ID p \<noteq> key" and "''payout-reversal:'' @ po_ID p \<noteq> k2"
    and "bal (cw_ledger (ad_creator w)) (UserDiamondsAccount a, Diamond) + n < 2 ^ 63"
  shows "\<exists>w1 tv w2 pv w3. DevGrantRole (w\<lparr>ad_creator := c\<rparr>) a RoleFinance = (None, w1) \<and>
    ReverseLedgerTransaction w1 t1 a (po_TransactionID p) k2 reason = (Inr tv, w2) \<and>
    RejectPayout w2 t2 a (po_ID p) reason' = (Inr pv, w3) \<and> pw_Status pv = PayoutRejected \<and>
    bal (cw_ledger (ad_creator w3)) (UserDiamondsAccount a, Diamond) =
      bal (cw_ledger (ad_creator w)) (UserDiamondsAccount a, Diamond) + n"
proof -
  let ?l = "cw_ledger (ad_creator w)" and ?k = "(UserDiamondsAccount a, Diamond)"
  let ?i = "''payout-'' @ dec04 (Suc (mem_payouts.mp_seq (cw_payouts (ad_creator w))))"
  let ?rk = "''payout-reversal:'' @ ?i"
  obtain s inFlight txID l1 r where n: "0 < n"
    and post: "postPayout ?l now a n key = (Inr txID, l1)"
    and res: "PayoutCreate (cw_payouts (ad_creator w)) (new_payout a n txID now) = (p, r)"
      "c = (ad_creator w)\<lparr>cw_ledger := l1, cw_payouts := r\<rparr>"
    using assms(2) by (rule RequestPayout_accepted)
  have p: "p = (new_payout a n txID now)\<lparr>po_ID := ?i\<rparr>" and r: "map_of (mem_payouts.mp_byID r) ?i = Some p"
    using res(1) by (auto simp: PayoutCreate_def Let_def)
  have f: "po_ID p = ?i" "po_AccountID p = a" "po_AmountDiamonds p = n" "po_Status p = PayoutRequested" "po_TransactionID p = txID"
    by (simp_all add: p new_payout_def)
  obtain v l2 where rev: "ReverseTransaction l1 t1 txID k2 reason = (Inr (v, True), l2)" and l2: "ledger_inv l2"
    and b2: "bal l2 ?k = bal ?l ?k" and others: "\<And>x. x \<noteq> key \<Longrightarrow> x \<noteq> k2 \<Longrightarrow> tx_by_key l2 x = tx_by_key ?l x"
    using payout_tx_reverses [OF assms(1) post n assms(3,4,6,9)] by blast
  have "tx_by_key l2 ?rk = None" using others [of ?rk] assms(5,7,8) f(1) by simp
  then obtain i l3 where rev2: "reversePayout l2 t2 a n ?rk = (Inr i, l3)" and b3: "bal l3 ?k = bal ?l ?k + n"
    using reversal_posts [OF l2 _ n, of ?rk a] b2 assms(9) by metis
  have adm: "requirePermission (v'\<lparr>ad_roles := MemSetRole rs a RoleFinance\<rparr>) a PermRefundManage = Inr RoleFinance"
    "requirePermission (v'\<lparr>ad_roles := MemSetRole rs a RoleFinance\<rparr>) a PermPayoutManage = Inr RoleFinance" for v' rs
    by (simp_all add: requirePermission_def MemGetRole_def MemSetRole_def who_may role_defs)
  define w1 where "w1 = w\<lparr>ad_creator := c, ad_roles := MemSetRole (ad_roles w) a RoleFinance\<rparr>"
  have "DevGrantRole (w\<lparr>ad_creator := c\<rparr>) a RoleFinance = (None, w1)"
    by (simp add: DevGrantRole_def ValidRole_def RolePermissions_def role_defs w1_def)
  moreover define w2 where "w2 = logAction (w1\<lparr>ad_creator := c\<lparr>cw_ledger := l2\<rparr>\<rparr>) t1 a RoleFinance ''reverse_transaction'' ''transaction'' txID reason"
  have "ReverseLedgerTransaction w1 t1 a txID k2 reason = (Inr (toTransactionView v), w2)"
    using rev adm(1) by (simp add: ReverseLedgerTransaction_def adminReverseTransaction_def w1_def w2_def res(2))
  moreover have "requirePermission w2 a PermPayoutManage = Inr RoleFinance"
    by (simp add: w2_def w1_def requirePermission_def MemGetRole_def MemSetRole_def who_may role_defs)
  moreover have "ad_creator w2 = c\<lparr>cw_ledger := l2\<rparr>" by (simp add: w2_def)
  ultimately show ?thesis
    using rev2 r f b3 by (intro exI [of _ w1] exI [of _ "toTransactionView v"] exI [of _ w2])
      (simp add: RejectPayout_def payout_method_call_def adminPayoutAction_def AdminRejectPayout_def rejectOrFail_def PayoutUpdate_def
        reverse_and_close_def statusIn_def PayoutGet_def res(2) toPayoutView_def)
qed

lemma payout_refunded_twice_witness:
  "\<exists>p c w1 tv w2 pv w3. RequestPayout demo_verified (15 * 24 * hour) ''acc-0001'' 10000 ''k2'' = (Inr p, c) \<and>
    DevGrantRole (demo_admin\<lparr>ad_creator := c\<rparr>) ''acc-0001'' RoleFinance = (None, w1) \<and>
    ReverseLedgerTransaction w1 1 ''acc-0001'' (po_TransactionID p) ''r'' ''oops'' = (Inr tv, w2) \<and>
    RejectPayout w2 2 ''acc-0001'' (po_ID p) ''no'' = (Inr pv, w3) \<and>
    bal (cw_ledger demo_verified) (UserDiamondsAccount ''acc-0001'', Diamond) = 40000 \<and>
    bal (cw_ledger (ad_creator w3)) (UserDiamondsAccount ''acc-0001'', Diamond) = 50000"
proof -
  let ?r = "RequestPayout demo_verified (15 * 24 * hour) ''acc-0001'' 10000 ''k2''"
  have w: "ad_creator demo_admin = demo_verified" by (simp add: demo_admin_def)
  have "creator_inv demo_verified"
    unfolding demo_verified_def by (rule creator_inv_run [OF creator_inv_start [OF demo_creator_start]]) code_simp
  then have inv: "ledger_inv (cw_ledger (ad_creator demo_admin))" by (simp add: creator_inv_def w)
  have e: "(case fst ?r of Inl err \<Rightarrow> False | Inr p \<Rightarrow> tx_by_key (cw_ledger demo_verified) (''payout-reversal:'' @ po_ID p) = None \<and>
        ''payout-reversal:'' @ po_ID p \<noteq> ''k2'' \<and> ''payout-reversal:'' @ po_ID p \<noteq> ''r'') \<and>
      tx_by_key (cw_ledger demo_verified) ''k2'' = None \<and> tx_by_key (cw_ledger demo_verified) ''r'' = None \<and>
      bal (cw_ledger demo_verified) (UserDiamondsAccount ''acc-0001'', Diamond) = 40000"
    by code_simp
  then obtain p c where r: "?r = (Inr p, c)" "tx_by_key (cw_ledger demo_verified) (''payout-reversal:'' @ po_ID p) = None"
    "''payout-reversal:'' @ po_ID p \<noteq> ''k2''" "''payout-reversal:'' @ po_ID p \<noteq> ''r''"
    by (cases ?r) (auto split: sum.splits)
  have "(40000::int) + 10000 < 2 ^ 63" by simp
  then show ?thesis
    using payout_refunded_twice [OF inv, of "15 * 24 * hour" "''acc-0001''" 10000 "''k2''" p c "''r''" 1 "''oops''" 2 "''no''"] r e w
    by auto
qed

end
