(* ===== verification/Profile.thy ===== *)
theory Profile
  imports GoText Social
begin

text \<open>
  Profiles and privacy settings with their in-memory stores and validation (\<open>profile/profile.go\<close>,
  \<open>profile/validate.go\<close>, \<open>profile/mem_repo.go\<close>), the service (\<open>profile/profilesvc/service.go\<close>) and the
  closures and wrappers of \<open>feed/cmd/api/main.go\<close> that use it. One clock reading per call. Upper and lower
  case are those of ASCII letters; other bytes are kept by \<open>ToLower\<close>.
\<close>

section \<open>Data\<close>

datatype avatar_state = AvatarPending | AvatarApproved | AvatarRejected

record profile =
  pf_AccountID :: string
  pf_DisplayName :: string
  pf_Handle :: "string option"
  pf_Bio :: "string option"
  pf_AvatarURL :: "string option"
  pf_AvatarState :: avatar_state
  pf_Languages :: "string list"
  pf_Interests :: "string list"
  pf_RegionCode :: string
  pf_Level :: nat
  pf_IsCreator :: bool
  pf_UpdatedAt :: time

record profile_counts =
  pc_AccountID :: string
  pc_FollowerCount :: int
  pc_FollowingCount :: int

text \<open>\<open>None\<close> is a nil pointer or a nil slice.\<close>

record update_request =
  ur_DisplayName :: "string option"
  ur_Handle :: "string option"
  ur_Bio :: "string option"
  ur_AvatarURL :: "string option"
  ur_Languages :: "string list option"
  ur_Interests :: "string list option"
  ur_RegionCode :: "string option"

datatype profile_error =
    ErrProfileNotFound
  | ErrHandleTaken
  | ErrInvalidHandle
  | ErrDisplayNameLen
  | ErrProfileUnavailable
  | ErrFollowSelf
  | ProfileSocialError social_error
  | ProfileNilDereference          \<comment> \<open>the run-time panic\<close>

type_synonym contact_policy = string

definition PolicyEveryone :: contact_policy where "PolicyEveryone = ''everyone''"
definition PolicyMutuals :: contact_policy where "PolicyMutuals = ''mutuals''"
definition PolicyNobody :: contact_policy where "PolicyNobody = ''nobody''"

record privacy_settings =
  pv_AccountID :: string
  pv_WhoCanDM :: contact_policy
  pv_WhoCanCall :: contact_policy
  pv_ShowPresence :: bool
  pv_Discoverable :: bool
  pv_Matchable :: bool

definition DefaultPrivacySettings :: "string \<Rightarrow> privacy_settings" where
  "DefaultPrivacySettings accountID = \<lparr>pv_AccountID = accountID, pv_WhoCanDM = PolicyEveryone, pv_WhoCanCall = PolicyMutuals,
     pv_ShowPresence = True, pv_Discoverable = True, pv_Matchable = False\<rparr>"

section \<open>Validation\<close>

definition handle_char :: "char \<Rightarrow> bool" where
  "handle_char c = (let n = of_char c :: nat in
     97 \<le> n \<and> n \<le> 122 \<or> 65 \<le> n \<and> n \<le> 90 \<or> 48 \<le> n \<and> n \<le> 57 \<or> c = CHR ''_'')"

definition ValidateHandle :: "string \<Rightarrow> profile_error option" where
  "ValidateHandle h = (if list_all handle_char h \<and> 3 \<le> length h \<and> length h \<le> 30 then None else Some ErrInvalidHandle)"

text \<open>\<open>utf8.RuneCountInString\<close>: a valid sequence of one to four bytes is a rune, every other byte is one.\<close>

definition is_cont :: "nat \<Rightarrow> bool" where
  "is_cont b \<longleftrightarrow> 128 \<le> b \<and> b \<le> 191"

definition second_ok :: "nat \<Rightarrow> nat \<Rightarrow> bool" where
  "second_ok b0 b1 \<longleftrightarrow>
     (if b0 = 224 then 160 \<le> b1 \<and> b1 \<le> 191 else if b0 = 237 then 128 \<le> b1 \<and> b1 \<le> 159
      else if b0 = 240 then 144 \<le> b1 \<and> b1 \<le> 191 else if b0 = 244 then 128 \<le> b1 \<and> b1 \<le> 143 else is_cont b1)"

definition rune_width :: "nat list \<Rightarrow> nat" where
  "rune_width bs =
     (case bs of
        b0 # b1 # b2 # b3 # _ \<Rightarrow>
          if 194 \<le> b0 \<and> b0 \<le> 223 \<and> is_cont b1 then 2
          else if 224 \<le> b0 \<and> b0 \<le> 239 \<and> second_ok b0 b1 \<and> is_cont b2 then 3
          else if 240 \<le> b0 \<and> b0 \<le> 244 \<and> second_ok b0 b1 \<and> is_cont b2 \<and> is_cont b3 then 4 else 1
      | [b0, b1, b2] \<Rightarrow>
          if 194 \<le> b0 \<and> b0 \<le> 223 \<and> is_cont b1 then 2
          else if 224 \<le> b0 \<and> b0 \<le> 239 \<and> second_ok b0 b1 \<and> is_cont b2 then 3 else 1
      | [b0, b1] \<Rightarrow> if 194 \<le> b0 \<and> b0 \<le> 223 \<and> is_cont b1 then 2 else 1
      | _ \<Rightarrow> 1)"

lemma rune_width_pos: "0 < rune_width bs"
  by (simp add: rune_width_def split: list.split)

function rune_count :: "nat list \<Rightarrow> nat" where
  "rune_count [] = 0"
| "rune_count (b # bs) = Suc (rune_count (drop (rune_width (b # bs)) (b # bs)))"
  by pat_completeness auto
termination
  by (relation "measure length") (simp_all add: rune_width_pos)

definition RuneCountInString :: "string \<Rightarrow> nat" where
  "RuneCountInString s = rune_count (map of_char s)"

definition ValidateDisplayName :: "string \<Rightarrow> profile_error option" where
  "ValidateDisplayName name =
     (let n = RuneCountInString (TrimSpace name) in if n < 1 \<or> 50 < n then Some ErrDisplayNameLen else None)"

fun sanitize_loop :: "nat \<Rightarrow> (nat \<Rightarrow> bool) \<Rightarrow> string list \<Rightarrow> string list \<Rightarrow> string list" where
  "sanitize_loop maxLen room out [] = out"
| "sanitize_loop maxLen room out (x # xs) =
     (let l = ToLower (TrimSpace x)
      in sanitize_loop maxLen room
           (if l \<noteq> [] \<and> l \<notin> set out \<and> length l \<le> maxLen \<and> room (length out) then out @ [l] else out) xs)"

definition SanitizeLanguages :: "string list \<Rightarrow> string list" where
  "SanitizeLanguages langs = sanitize_loop 8 (\<lambda>n. True) [] langs"

definition SanitizeInterests :: "string list \<Rightarrow> string list" where
  "SanitizeInterests interests = sanitize_loop 50 (\<lambda>n. n < 20) [] interests"

section \<open>The in-memory stores\<close>

record mem_profile_repo =
  mpr_profiles :: "(string \<times> profile) list"
  mpr_handles :: "(string \<times> string) list"
  mpr_counts :: "(string \<times> profile_counts) list"

definition NewMemProfileRepo :: mem_profile_repo where
  "NewMemProfileRepo = \<lparr>mpr_profiles = [], mpr_handles = [], mpr_counts = []\<rparr>"

definition MemCreateProfile :: "mem_profile_repo \<Rightarrow> time \<Rightarrow> string \<Rightarrow> string \<Rightarrow> string \<Rightarrow> (profile_error + profile) \<times> mem_profile_repo" where
  "MemCreateProfile r now accountID displayName regionCode =
     (case ValidateDisplayName displayName of
        Some err \<Rightarrow> (Inl err, r)
      | None \<Rightarrow>
          (case map_of (mpr_profiles r) accountID of
             Some p \<Rightarrow> (Inr p, r)
           | None \<Rightarrow>
               (let p = \<lparr>pf_AccountID = accountID, pf_DisplayName = displayName, pf_Handle = None, pf_Bio = None, pf_AvatarURL = None,
                      pf_AvatarState = AvatarPending, pf_Languages = [], pf_Interests = [], pf_RegionCode = regionCode, pf_Level = 1,
                      pf_IsCreator = False, pf_UpdatedAt = now\<rparr>
                in (Inr p, r\<lparr>mpr_profiles := AList.update accountID p (mpr_profiles r),
                      mpr_counts := AList.update accountID \<lparr>pc_AccountID = accountID, pc_FollowerCount = 0, pc_FollowingCount = 0\<rparr>
                        (mpr_counts r)\<rparr>))))"

definition MemGetProfile :: "mem_profile_repo \<Rightarrow> string \<Rightarrow> profile_error + profile" where
  "MemGetProfile r accountID = (case map_of (mpr_profiles r) accountID of None \<Rightarrow> Inl ErrProfileNotFound | Some p \<Rightarrow> Inr p)"

definition GetByHandle :: "mem_profile_repo \<Rightarrow> string \<Rightarrow> profile_error + profile" where
  "GetByHandle r handle =
     (case map_of (mpr_handles r) (ToLower handle) of
        None \<Rightarrow> Inl ErrProfileNotFound
      | Some i \<Rightarrow> (case map_of (mpr_profiles r) i of None \<Rightarrow> Inl ProfileNilDereference | Some p \<Rightarrow> Inr p))"

text \<open>\<open>Update\<close> writes through the pointer it has read, so what came before an error stays. The two fields
  that can fail, and the rest.\<close>

definition set_name :: "update_request \<Rightarrow> profile \<Rightarrow> profile_error + profile" where
  "set_name req p =
     (case ur_DisplayName req of
        None \<Rightarrow> Inr p
      | Some n \<Rightarrow> (case ValidateDisplayName n of Some err \<Rightarrow> Inl err | None \<Rightarrow> Inr (p\<lparr>pf_DisplayName := n\<rparr>)))"

definition set_handle :: "string \<Rightarrow> update_request \<Rightarrow> profile \<Rightarrow> (string \<times> string) list \<Rightarrow>
    profile_error + profile \<times> (string \<times> string) list" where
  "set_handle accountID req p handles =
     (case ur_Handle req of
        None \<Rightarrow> Inr (p, handles)
      | Some handle \<Rightarrow>
          let h = ToLower handle in
          (case ValidateHandle handle of
             Some err \<Rightarrow> Inl err
           | None \<Rightarrow>
               if map_of handles h \<noteq> None \<and> map_of handles h \<noteq> Some accountID then Inl ErrHandleTaken
               else
                 let rest = (case pf_Handle p of None \<Rightarrow> handles | Some old \<Rightarrow> AList.delete (ToLower old) handles)
                 in Inr (p\<lparr>pf_Handle := Some handle\<rparr>, AList.update h accountID rest)))"

definition set_others :: "time \<Rightarrow> update_request \<Rightarrow> profile \<Rightarrow> profile" where
  "set_others now req p =
     (let p = (case ur_Bio req of None \<Rightarrow> p | Some b \<Rightarrow> p\<lparr>pf_Bio := Some b\<rparr>);
          p = (case ur_AvatarURL req of None \<Rightarrow> p | Some u \<Rightarrow> p\<lparr>pf_AvatarURL := Some u, pf_AvatarState := AvatarPending\<rparr>);
          p = (case ur_Languages req of None \<Rightarrow> p | Some ls \<Rightarrow> p\<lparr>pf_Languages := SanitizeLanguages ls\<rparr>);
          p = (case ur_Interests req of None \<Rightarrow> p | Some xs \<Rightarrow> p\<lparr>pf_Interests := SanitizeInterests xs\<rparr>);
          p = (case ur_RegionCode req of None \<Rightarrow> p | Some c \<Rightarrow> p\<lparr>pf_RegionCode := c\<rparr>)
      in p\<lparr>pf_UpdatedAt := now\<rparr>)"

definition MemUpdateProfile :: "mem_profile_repo \<Rightarrow> time \<Rightarrow> string \<Rightarrow> update_request \<Rightarrow> (profile_error + profile) \<times> mem_profile_repo" where
  "MemUpdateProfile r now accountID req =
     (case map_of (mpr_profiles r) accountID of
        None \<Rightarrow> (Inl ErrProfileNotFound, r)
      | Some p \<Rightarrow>
          (case set_name req p of
             Inl err \<Rightarrow> (Inl err, r)
           | Inr p1 \<Rightarrow>
               (case set_handle accountID req p1 (mpr_handles r) of
                  Inl err \<Rightarrow> (Inl err, r\<lparr>mpr_profiles := AList.update accountID p1 (mpr_profiles r)\<rparr>)
                | Inr (p2, handles) \<Rightarrow>
                    (let p3 = set_others now req p2
                     in (Inr p3, r\<lparr>mpr_profiles := AList.update accountID p3 (mpr_profiles r), mpr_handles := handles\<rparr>)))))"

definition GetCounts :: "mem_profile_repo \<Rightarrow> string \<Rightarrow> profile_counts" where
  "GetCounts r accountID =
     (case map_of (mpr_counts r) accountID of
        None \<Rightarrow> \<lparr>pc_AccountID = accountID, pc_FollowerCount = 0, pc_FollowingCount = 0\<rparr>
      | Some c \<Rightarrow> c)"

definition matches_query :: "string \<Rightarrow> profile \<Rightarrow> bool" where
  "matches_query q p \<longleftrightarrow> Contains (ToLower (pf_DisplayName p)) q \<or>
     Contains (case pf_Handle p of None \<Rightarrow> [] | Some h \<Rightarrow> ToLower h) q"

text \<open>\<open>ord\<close> is the order in which the call meets the map.\<close>

definition MemSearch :: "((string \<times> profile) list \<Rightarrow> (string \<times> profile) list) \<Rightarrow> mem_profile_repo \<Rightarrow> string \<Rightarrow> int \<Rightarrow> string \<Rightarrow>
    profile list \<times> string" where
  "MemSearch ord r query limit cursor =
     (let q = ToLower (TrimSpace query) in
      if q = [] then ([], [])
      else
        let lim = (if limit \<le> 0 \<or> 50 < limit then 20 else nat limit);
            seen = ord (mpr_profiles r);
            rest = (if cursor = [] then seen else drop 1 (dropWhile (\<lambda>(i, p). i \<noteq> cursor) seen));
            results = take (lim + 1) (filter (matches_query q) (map snd rest))
        in if lim < length results then (take lim results, pf_AccountID (results ! lim)) else (results, []))"

definition bump :: "(profile_counts \<Rightarrow> profile_counts) \<Rightarrow> string \<Rightarrow> (string \<times> profile_counts) list \<Rightarrow> (string \<times> profile_counts) list" where
  "bump f i cs = (case map_of cs i of None \<Rightarrow> cs | Some c \<Rightarrow> AList.update i (f c) cs)"

definition IncrFollowCounts :: "mem_profile_repo \<Rightarrow> string \<Rightarrow> string \<Rightarrow> int \<Rightarrow> mem_profile_repo" where
  "IncrFollowCounts r followerID followeeID delta =
     (let add = (\<lambda>n. let m = add64 n delta in if m < 0 then 0 else m);
          cs = bump (\<lambda>c. c\<lparr>pc_FollowingCount := add (pc_FollowingCount c)\<rparr>) followerID (mpr_counts r);
          cs = bump (\<lambda>c. c\<lparr>pc_FollowerCount := add (pc_FollowerCount c)\<rparr>) followeeID cs
      in r\<lparr>mpr_counts := cs\<rparr>)"

text \<open>\<open>Snapshot\<close> and \<open>Restore\<close> write and read the three maps, here without their JSON form; \<open>None\<close> is a map the
  text does not have.\<close>

type_synonym profile_snapshot = "(string \<times> profile) list option \<times> (string \<times> string) list option \<times> (string \<times> profile_counts) list option"

definition ProfileSnapshot :: "mem_profile_repo \<Rightarrow> profile_snapshot" where
  "ProfileSnapshot r = (Some (mpr_profiles r), Some (mpr_handles r), Some (mpr_counts r))"

definition ProfileRestore :: "mem_profile_repo \<Rightarrow> profile_snapshot \<Rightarrow> mem_profile_repo" where
  "ProfileRestore r s =
     (case s of (ps, hs, cs) \<Rightarrow>
        let r = (case ps of None \<Rightarrow> r | Some x \<Rightarrow> r\<lparr>mpr_profiles := x\<rparr>);
            r = (case hs of None \<Rightarrow> r | Some x \<Rightarrow> r\<lparr>mpr_handles := x\<rparr>)
        in (case cs of None \<Rightarrow> r | Some x \<Rightarrow> r\<lparr>mpr_counts := x\<rparr>))"

type_synonym mem_privacy = "(string \<times> privacy_settings) list"

definition PrivacyGet :: "mem_privacy \<Rightarrow> string \<Rightarrow> privacy_settings" where
  "PrivacyGet r accountID = (case map_of r accountID of None \<Rightarrow> DefaultPrivacySettings accountID | Some s \<Rightarrow> s)"

definition PrivacyUpdate :: "mem_privacy \<Rightarrow> string \<Rightarrow> privacy_settings \<Rightarrow> privacy_settings \<times> mem_privacy" where
  "PrivacyUpdate r accountID settings =
     (let s = settings\<lparr>pv_AccountID := accountID\<rparr> in (s, AList.update accountID s r))"

section \<open>The service\<close>

record profile_view =
  pvw_Profile :: profile
  pvw_Counts :: profile_counts
  pvw_Relationship :: "relationship option"
  pvw_IsOwner :: bool

record profile_world =
  prw_profiles :: mem_profile_repo
  prw_privacy :: mem_privacy
  prw_social :: mem_social

definition CreateProfile :: "profile_world \<Rightarrow> time \<Rightarrow> string \<Rightarrow> string \<Rightarrow> string \<Rightarrow> (profile_error + profile) \<times> profile_world" where
  "CreateProfile w now accountID displayName regionCode =
     (let (res, r) = MemCreateProfile (prw_profiles w) now accountID displayName regionCode in (res, w\<lparr>prw_profiles := r\<rparr>))"

definition GetProfile :: "profile_world \<Rightarrow> string \<Rightarrow> string \<Rightarrow> profile_error + profile_view" where
  "GetProfile w viewerID subjectID =
     (let rel = (if viewerID \<noteq> [] \<and> viewerID \<noteq> subjectID then Some (GetRelationship (prw_social w) viewerID subjectID) else None)
      in if (case rel of None \<Rightarrow> False | Some x \<Rightarrow> rl_Blocked x \<or> rl_BlockedBy x) then Inl ErrProfileUnavailable
         else (case MemGetProfile (prw_profiles w) subjectID of
                 Inl err \<Rightarrow> Inl ErrProfileUnavailable
               | Inr p \<Rightarrow> Inr \<lparr>pvw_Profile = p, pvw_Counts = GetCounts (prw_profiles w) subjectID, pvw_Relationship = rel,
                   pvw_IsOwner = (viewerID = subjectID)\<rparr>))"

definition UpdateProfile :: "profile_world \<Rightarrow> time \<Rightarrow> string \<Rightarrow> update_request \<Rightarrow> (profile_error + profile) \<times> profile_world" where
  "UpdateProfile w now accountID req =
     (let (res, r) = MemUpdateProfile (prw_profiles w) now accountID req in (res, w\<lparr>prw_profiles := r\<rparr>))"

definition in_social :: "(social_error + relationship) \<times> mem_social \<Rightarrow> profile_world \<Rightarrow> (profile_error + relationship) \<times> profile_world" where
  "in_social x w = (case x of
     (Inl err, s) \<Rightarrow> (Inl (ProfileSocialError err), w\<lparr>prw_social := s\<rparr>) | (Inr rel, s) \<Rightarrow> (Inr rel, w\<lparr>prw_social := s\<rparr>))"

definition ProfileFollow :: "profile_world \<Rightarrow> time \<Rightarrow> string \<Rightarrow> string \<Rightarrow> (profile_error + relationship) \<times> profile_world" where
  "ProfileFollow w now followerID followeeID =
     (if followerID = followeeID then (Inl ErrFollowSelf, w) else in_social (Follow (prw_social w) now followerID followeeID) w)"

definition ProfileUnfollow :: "profile_world \<Rightarrow> string \<Rightarrow> string \<Rightarrow> (profile_error + relationship) \<times> profile_world" where
  "ProfileUnfollow w followerID followeeID =
     (if followerID = followeeID then (Inl ErrFollowSelf, w) else in_social (Unfollow (prw_social w) followerID followeeID) w)"

definition ProfileBlock :: "profile_world \<Rightarrow> time \<Rightarrow> string \<Rightarrow> string \<Rightarrow> (profile_error + relationship) \<times> profile_world" where
  "ProfileBlock w now blockerID blockedID = in_social (BlockAccount (prw_social w) now blockerID blockedID) w"

definition ProfileUnblock :: "profile_world \<Rightarrow> string \<Rightarrow> string \<Rightarrow> relationship \<times> profile_world" where
  "ProfileUnblock w blockerID blockedID =
     (let (rel, s) = UnblockAccount (prw_social w) blockerID blockedID in (rel, w\<lparr>prw_social := s\<rparr>))"

definition GetPrivacySettings :: "profile_world \<Rightarrow> string \<Rightarrow> privacy_settings" where
  "GetPrivacySettings w accountID = PrivacyGet (prw_privacy w) accountID"

definition UpdatePrivacySettings :: "profile_world \<Rightarrow> string \<Rightarrow> privacy_settings \<Rightarrow> privacy_settings \<times> profile_world" where
  "UpdatePrivacySettings w accountID settings =
     (let (s, r) = PrivacyUpdate (prw_privacy w) accountID settings in (s, w\<lparr>prw_privacy := r\<rparr>))"

section \<open>The closures and wrappers of main.go\<close>

definition pvCalleePermits :: "profile_world \<Rightarrow> string \<Rightarrow> string \<Rightarrow> bool" where
  "pvCalleePermits w callerID calleeID =
     (let policy = pv_WhoCanCall (GetPrivacySettings w calleeID)
      in if policy = PolicyEveryone then True else if policy = PolicyNobody then False
         else let rel = GetRelationship (prw_social w) callerID calleeID in rl_Following rel \<and> rl_FollowedBy rel)"

definition isMatchable :: "profile_world \<Rightarrow> string \<Rightarrow> bool" where
  "isMatchable w accountID = pv_Matchable (GetPrivacySettings w accountID)"

text \<open>\<open>GET /me\<close> and \<open>GET /users/{id}\<close> create the profile they show, the second for any name in the path.\<close>

definition ensureProfile :: "profile_world \<Rightarrow> time \<Rightarrow> string \<Rightarrow> profile_world" where
  "ensureProfile w now accountID = (if accountID = [] then w else snd (CreateProfile w now accountID accountID ''US''))"

definition view_user :: "profile_world \<Rightarrow> time \<Rightarrow> string \<Rightarrow> string \<Rightarrow> (profile_error + profile_view) \<times> profile_world" where
  "view_user w now viewerID i = (let w = ensureProfile w now i in (GetProfile w viewerID i, w))"

section \<open>Handles\<close>

datatype profile_call = CallCreate string string string | CallUpdate string update_request

fun profile_do :: "mem_profile_repo \<Rightarrow> time \<times> profile_call \<Rightarrow> mem_profile_repo" where
  "profile_do r (now, CallCreate a n c) = snd (MemCreateProfile r now a n c)"
| "profile_do r (now, CallUpdate a req) = snd (MemUpdateProfile r now a req)"

text \<open>The index of handles holds the handles of the profiles, each in lower case, and nothing else.\<close>

definition handles_ok :: "mem_profile_repo \<Rightarrow> bool" where
  "handles_ok r \<longleftrightarrow> (\<forall>h a. map_of (mpr_handles r) h = Some a \<longleftrightarrow>
     (\<exists>p handle. map_of (mpr_profiles r) a = Some p \<and> pf_Handle p = Some handle \<and> h = ToLower handle))"

lemma handles_ok_same:
  assumes "handles_ok r" and "map_of (mpr_profiles r) a = Some p \<and> pf_Handle p' = pf_Handle p \<or>
    map_of (mpr_profiles r) a = None \<and> pf_Handle p' = None"
  shows "handles_ok (r\<lparr>mpr_profiles := AList.update a p' (mpr_profiles r)\<rparr>)"
  using assms unfolding handles_ok_def by (auto; metis option.distinct(1))

lemma set_others_handle [simp]: "pf_Handle (set_others now req p) = pf_Handle p"
  by (simp add: set_others_def Let_def split: option.split)

lemma set_name_handle: "set_name req p = Inr p' \<Longrightarrow> pf_Handle p' = pf_Handle p"
  by (auto simp: set_name_def split: option.splits)

lemma handles_ok_set:
  assumes ok: "handles_ok r" and p: "map_of (mpr_profiles r) a = Some p"
    and "pf_Handle p1 = pf_Handle p" and set: "set_handle a req p1 (mpr_handles r) = Inr (p2, handles)"
    and "pf_Handle p3 = pf_Handle p2"
  shows "handles_ok (r\<lparr>mpr_profiles := AList.update a p3 (mpr_profiles r), mpr_handles := handles\<rparr>)"
proof (cases "ur_Handle req")
  case None
  then show ?thesis
    using assms handles_ok_same [OF ok, of a p p3] by (auto simp: set_handle_def handles_ok_def)
next
  case (Some handle)
  define h where "h = ToLower handle"
  define rest where "rest = (case pf_Handle p of None \<Rightarrow> mpr_handles r | Some old \<Rightarrow> AList.delete (ToLower old) (mpr_handles r))"
  have free: "map_of (mpr_handles r) h = None \<or> map_of (mpr_handles r) h = Some a"
    and p3: "pf_Handle p3 = Some handle" and handles: "handles = AList.update h a rest"
    using set Some assms(3,5) by (auto simp: set_handle_def Let_def h_def rest_def split: option.splits if_splits)
  have rest: "map_of rest g = Some b \<longleftrightarrow> map_of (mpr_handles r) g = Some b \<and> b \<noteq> a" for g b
  proof -
    have own: "map_of (mpr_handles r) g = Some a \<longleftrightarrow> (\<exists>hd. pf_Handle p = Some hd \<and> g = ToLower hd)" for g
      using ok p by (simp add: handles_ok_def)
    show ?thesis
    proof (cases "pf_Handle p")
      case None
      then show ?thesis using own [of g] by (auto simp: rest_def)
    next
      case (Some old)
      then have "map_of (mpr_handles r) (ToLower old) = Some a" using own [of "ToLower old"] by simp
      then show ?thesis using own [of g] Some by (auto simp: rest_def)
    qed
  qed
  show ?thesis
    unfolding handles_ok_def
  proof (intro allI)
    fix g b
    show "map_of (mpr_handles (r\<lparr>mpr_profiles := AList.update a p3 (mpr_profiles r), mpr_handles := handles\<rparr>)) g = Some b \<longleftrightarrow>
      (\<exists>q hd. map_of (mpr_profiles (r\<lparr>mpr_profiles := AList.update a p3 (mpr_profiles r), mpr_handles := handles\<rparr>)) b = Some q \<and>
        pf_Handle q = Some hd \<and> g = ToLower hd)"
    proof (cases "b = a")
      case True
      then show ?thesis using p3 rest [of g a] by (auto simp: handles h_def)
    next
      case False
      have "g \<noteq> h" if "map_of (mpr_handles r) g = Some b" using that free False by auto
      then show ?thesis
        using False rest [of g b] ok unfolding handles_ok_def by (auto simp: handles)
    qed
  qed
qed

lemma handles_ok_do: "handles_ok r \<Longrightarrow> handles_ok (profile_do r c)"
proof (cases c)
  case (Pair now call)
  assume ok: "handles_ok r"
  show ?thesis
  proof (cases call)
    case (CallCreate a n rc)
    then show ?thesis
      using ok handles_ok_same [OF ok, of a] Pair
      by (auto simp: MemCreateProfile_def Let_def handles_ok_def split: option.splits)
  next
    case (CallUpdate a req)
    show ?thesis
    proof (cases "map_of (mpr_profiles r) a")
      case None
      then show ?thesis using ok Pair CallUpdate by (simp add: MemUpdateProfile_def)
    next
      case (Some p)
      then show ?thesis
        using ok handles_ok_same [OF ok, of a p] handles_ok_set [OF ok Some]
        by (auto simp: Pair CallUpdate MemUpdateProfile_def Let_def split: sum.splits prod.splits dest: set_name_handle)
    qed
  qed
qed

lemma handles_ok_run:
  "handles_ok r \<Longrightarrow> wf_map (mpr_profiles r) \<Longrightarrow> handles_ok (foldl profile_do r cs) \<and> wf_map (mpr_profiles (foldl profile_do r cs))"
proof (induction cs arbitrary: r)
  case (Cons c cs)
  have "wf_map (mpr_profiles (profile_do r c))"
    using Cons.prems(2) by (cases c; cases "snd c")
      (auto simp: MemCreateProfile_def MemUpdateProfile_def Let_def split: option.split sum.split prod.split)
  then show ?case using Cons.IH handles_ok_do [OF Cons.prems(1)] by simp
qed simp

text \<open>A handle belongs to one account. After any sequence of profile creations and updates, failed ones included,
  looking a handle up - in any spelling, upper or lower case - finds exactly the profile whose handle it is: it never
  finds another one, never an account that has given the handle up, and never runs into a missing profile; and no two
  accounts have the same handle.\<close>

lemma handles_exact:
  assumes "r = foldl profile_do NewMemProfileRepo cs"
  shows "GetByHandle r handle =
      (case filter (\<lambda>(a, p). map_option ToLower (pf_Handle p) = Some (ToLower handle)) (mpr_profiles r) of
         [] \<Rightarrow> Inl ErrProfileNotFound | x # xs \<Rightarrow> Inr (snd x)) \<and>
    length (filter (\<lambda>(a, p). map_option ToLower (pf_Handle p) = Some (ToLower handle)) (mpr_profiles r)) \<le> 1"
proof -
  have ok: "handles_ok r" and wf: "wf_map (mpr_profiles r)"
    using handles_ok_run [of NewMemProfileRepo cs] unfolding assms by (simp_all add: handles_ok_def NewMemProfileRepo_def)
  let ?P = "\<lambda>(a, p). map_option ToLower (pf_Handle p) = Some (ToLower handle)"
  define F where "F = filter ?P (mpr_profiles r)"
  have own: "(a, p) \<in> set F \<longleftrightarrow> map_of (mpr_handles r) (ToLower handle) = Some a \<and> map_of (mpr_profiles r) a = Some p" for a p
    using ok wf_map_ranI [OF wf, of a p] unfolding handles_ok_def F_def by auto
  have d: "distinct F"
    using wf unfolding wf_map_def F_def by (simp add: distinct_map)
  show ?thesis
    unfolding F_def [symmetric]
  proof (cases F)
    case Nil
    have "map_of (mpr_handles r) (ToLower handle) = None"
    proof (rule ccontr)
      assume "map_of (mpr_handles r) (ToLower handle) \<noteq> None"
      then obtain a p where "map_of (mpr_handles r) (ToLower handle) = Some a" "map_of (mpr_profiles r) a = Some p"
        using ok unfolding handles_ok_def by blast
      then have "(a, p) \<in> set F" using own by blast
      then show False unfolding Nil by simp
    qed
    then show "GetByHandle r handle = (case F of [] \<Rightarrow> Inl ErrProfileNotFound | x # xs \<Rightarrow> Inr (snd x)) \<and> length F \<le> 1"
      by (simp add: GetByHandle_def Nil)
  next
    case (Cons x xs)
    obtain a p where x: "x = (a, p)" by (cases x)
    have found: "map_of (mpr_handles r) (ToLower handle) = Some a" "map_of (mpr_profiles r) a = Some p"
      using own [of a p] by (simp_all add: x Cons)
    have "y = x" if "y \<in> set F" for y
      using own [of "fst y" "snd y"] that found by (cases y) (simp add: x)
    then have "xs = []" using d unfolding Cons by (cases xs) auto
    then show "GetByHandle r handle = (case F of [] \<Rightarrow> Inl ErrProfileNotFound | x # xs \<Rightarrow> Inr (snd x)) \<and> length F \<le> 1"
      using found by (simp add: GetByHandle_def x Cons)
  qed
qed

lemma handles_exact_witness:
  "let r = foldl profile_do NewMemProfileRepo
      [(1, CallCreate ''a'' ''Ann'' ''US''),
       (2, CallUpdate ''a'' \<lparr>ur_DisplayName = None, ur_Handle = Some ''Anny'', ur_Bio = None, ur_AvatarURL = None, ur_Languages = None,
          ur_Interests = None, ur_RegionCode = None\<rparr>)]
   in GetByHandle r ''aNNy'' = (case filter (\<lambda>(a, p). map_option ToLower (pf_Handle p) = Some (ToLower ''aNNy'')) (mpr_profiles r) of
       [] \<Rightarrow> Inl ErrProfileNotFound | x # xs \<Rightarrow> Inr (snd x)) \<and> \<not> isl (GetByHandle r ''aNNy'')"
  (is "let r = ?r in _")
proof -
  have "\<not> isl (GetByHandle ?r ''aNNy'')" by code_simp
  moreover have "GetByHandle ?r ''aNNy'' = (case filter (\<lambda>(a, p). map_option ToLower (pf_Handle p) = Some (ToLower ''aNNy'')) (mpr_profiles ?r) of
      [] \<Rightarrow> Inl ErrProfileNotFound | x # xs \<Rightarrow> Inr (snd x))"
    by (rule handles_exact [OF refl, THEN conjunct1])
  ultimately show ?thesis unfolding Let_def by (rule conjI [rotated])
qed

text \<open>An update that fails at the handle has already changed the name, and not its date.\<close>

lemma failed_update_half_applied:
  assumes "map_of (mpr_profiles r) a = Some p" and "ur_DisplayName req = Some n" and "ValidateDisplayName n = None"
    and "ur_Handle req = Some h" and "ValidateHandle h \<noteq> None \<or> map_of (mpr_handles r) (ToLower h) \<notin> {None, Some a}"
  shows "\<exists>err r'. MemUpdateProfile r now a req = (Inl err, r') \<and> map_of (mpr_profiles r') a = Some (p\<lparr>pf_DisplayName := n\<rparr>)"
  using assms by (auto simp: MemUpdateProfile_def set_name_def set_handle_def Let_def split: option.split)

text \<open>The next cursor of a search is the first profile that is not on the page, and the next page starts after it.\<close>

lemma search_skips:
  assumes "ord (mpr_profiles r) = [(''a'', pa), (''b'', pb)]" and "pf_AccountID pb = ''b''"
    and "matches_query ''x'' pa" and "matches_query ''x'' pb"
  shows "MemSearch ord r ''x'' 1 [] = ([pa], ''b'') \<and> MemSearch ord r ''x'' 1 ''b'' = ([], [])"
proof -
  have "ToLower (TrimSpace ''x'') = ''x''" by code_simp
  then show ?thesis using assms by (simp add: MemSearch_def)
qed

text \<open>A profile under a block looks like one that does not exist, from both sides.\<close>

lemma block_hides_profile:
  assumes "isBlocked (prw_social w) a b \<or> isBlocked (prw_social w) b a" and "a \<noteq> b" and "a \<noteq> []" and "b \<noteq> []"
  shows "GetProfile w a b = Inl ErrProfileUnavailable \<and> GetProfile w b a = Inl ErrProfileUnavailable"
  using assms by (auto simp: GetProfile_def GetRelationship_def relationship_of_def Let_def)

text \<open>Looking at a name makes a profile for it.\<close>

lemma looking_creates:
  assumes "map_of (mpr_profiles (prw_profiles w)) i = None" and "i \<noteq> []" and "ValidateDisplayName i = None"
  shows "\<exists>v w'. view_user w now [] i = (Inr v, w') \<and> map_of (mpr_profiles (prw_profiles w')) i \<noteq> None"
  using assms by (simp add: view_user_def ensureProfile_def CreateProfile_def MemCreateProfile_def GetProfile_def MemGetProfile_def Let_def)

end
