(* ===== verification/Rollout.thy ===== *)
theory Rollout
  imports Admin "HOL-Library.Word" "HOL-Library.Char_ord" "HOL-Library.List_Lexorder"
begin

text \<open>
  Feature flags, staged rollout and the canary metrics (\<open>rollout/rollout.go\<close>, \<open>rollout/mem_repo.go\<close>,
  \<open>rollout/rolloutsvc/service.go\<close>), with the two middlewares of \<open>feed/cmd/api/main.go\<close> that feed the
  metrics. A rollout bucket is the FNV-1a hash of flag and account on 32-bit words. The floating-point
  steps of the metrics (a ratio in percent, a duration in milliseconds, the index of a percentile) are
  the fields of \<open>floats\<close>.
\<close>

unbundle bit_operations_syntax

section \<open>Flags and their stages\<close>

type_synonym stage = string

definition StageOff :: stage where "StageOff = ''off''"
definition StageInternal :: stage where "StageInternal = ''internal''"
definition Stage1Pct :: stage where "Stage1Pct = ''1pct''"
definition Stage5Pct :: stage where "Stage5Pct = ''5pct''"
definition Stage25Pct :: stage where "Stage25Pct = ''25pct''"
definition StageFull :: stage where "StageFull = ''100pct''"

lemmas stage_defs = StageOff_def StageInternal_def Stage1Pct_def Stage5Pct_def Stage25Pct_def StageFull_def

definition Stages :: "stage list" where
  "Stages = [StageOff, StageInternal, Stage1Pct, Stage5Pct, Stage25Pct, StageFull]"

definition Percent :: "stage \<Rightarrow> int" where
  "Percent s =
     (if s = Stage1Pct then 1 else if s = Stage5Pct then 5 else if s = Stage25Pct then 25
      else if s = StageFull then 100 else 0)"

definition ValidStage :: "stage \<Rightarrow> bool" where
  "ValidStage s = list_ex (\<lambda>st. st = s) Stages"

record feature_flag =
  ff_Key :: string
  ff_Stage :: stage
  ff_CreatedAt :: time
  ff_UpdatedAt :: time

datatype rollout_error =
    ErrFlagNotFound
  | ErrInvalidStage
  | ErrRolloutForbidden
  | RolloutIndexPanic      \<comment> \<open>a percentile index outside the samples\<close>

type_synonym mem_flags = "(string \<times> feature_flag) list"

definition FlagGet :: "mem_flags \<Rightarrow> string \<Rightarrow> rollout_error + feature_flag" where
  "FlagGet r key = (case map_of r key of None \<Rightarrow> Inl ErrFlagNotFound | Some f \<Rightarrow> Inr f)"

definition FlagUpsert :: "mem_flags \<Rightarrow> time \<Rightarrow> string \<Rightarrow> stage \<Rightarrow> feature_flag \<times> mem_flags" where
  "FlagUpsert r now key st =
     (let f = (case map_of r key of
                 None \<Rightarrow> \<lparr>ff_Key = key, ff_Stage = [], ff_CreatedAt = now, ff_UpdatedAt = 0\<rparr>
               | Some f \<Rightarrow> f);
          f = f\<lparr>ff_Stage := st, ff_UpdatedAt := now\<rparr>
      in (f, AList.update key f r))"

text \<open>\<open>sort.Slice\<close> by key: the keys of a map are distinct, so the order is determined. Go compares
  strings byte by byte, as the library's orders on characters and lists do.\<close>

definition FlagList :: "mem_flags \<Rightarrow> feature_flag list" where
  "FlagList r = sort_key ff_Key (map snd r)"

text \<open>The staff list: a set of accounts.\<close>

type_synonym mem_internal = "(string \<times> bool) list"

definition IsInternal :: "mem_internal \<Rightarrow> string \<Rightarrow> bool" where
  "IsInternal r accountID \<longleftrightarrow> map_of r accountID = Some True"

definition MarkInternal :: "mem_internal \<Rightarrow> string \<Rightarrow> mem_internal" where
  "MarkInternal r accountID = AList.update accountID True r"

section \<open>Metrics\<close>

datatype cohort = CohortControl | CohortCanary

definition CanaryFlagKey :: string where "CanaryFlagKey = ''platform_canary_build''"

record 'f metrics =
  mt_Cohort :: cohort
  mt_RequestCount :: int
  mt_ErrorCount :: int
  mt_ErrorRatePct :: 'f
  mt_P50LatencyMs :: 'f
  mt_P95LatencyMs :: 'f
  mt_P99LatencyMs :: 'f
  mt_GiftAttempts :: int
  mt_GiftSuccesses :: int
  mt_GiftSuccessRatePct :: 'f
  mt_PanicCount :: int
  mt_CrashRatePct :: 'f

record mem_metrics =
  mx_requests :: "(cohort \<times> int) list"
  mx_errors :: "(cohort \<times> int) list"
  mx_giftAtt :: "(cohort \<times> int) list"
  mx_giftOK :: "(cohort \<times> int) list"
  mx_panics :: "(cohort \<times> int) list"
  mx_latencies :: "(cohort \<times> duration list) list"

definition NewMemMetricsRepo :: mem_metrics where
  "NewMemMetricsRepo = \<lparr>mx_requests = [], mx_errors = [], mx_giftAtt = [], mx_giftOK = [], mx_panics = [], mx_latencies = []\<rparr>"

definition maxLatencySamples :: nat where "maxLatencySamples = 5000"

definition incr_cohort :: "(cohort \<times> int) list \<Rightarrow> cohort \<Rightarrow> (cohort \<times> int) list" where
  "incr_cohort m c = AList.update c (add64 (getz m c) 1) m"

definition samples :: "mem_metrics \<Rightarrow> cohort \<Rightarrow> duration list" where
  "samples r c = (case map_of (mx_latencies r) c of None \<Rightarrow> [] | Some ls \<Rightarrow> ls)"

definition RecordRequest :: "mem_metrics \<Rightarrow> cohort \<Rightarrow> int \<Rightarrow> duration \<Rightarrow> mem_metrics" where
  "RecordRequest r c status latency =
     (let r = r\<lparr>mx_requests := incr_cohort (mx_requests r) c\<rparr>;
          r = (if 500 \<le> status then r\<lparr>mx_errors := incr_cohort (mx_errors r) c\<rparr> else r)
      in if length (samples r c) < maxLatencySamples
         then r\<lparr>mx_latencies := AList.update c (samples r c @ [latency]) (mx_latencies r)\<rparr> else r)"

definition RecordGiftAttempt :: "mem_metrics \<Rightarrow> cohort \<Rightarrow> bool \<Rightarrow> mem_metrics" where
  "RecordGiftAttempt r c success =
     (let r = r\<lparr>mx_giftAtt := incr_cohort (mx_giftAtt r) c\<rparr>
      in if success then r\<lparr>mx_giftOK := incr_cohort (mx_giftOK r) c\<rparr> else r)"

definition RecordPanic :: "mem_metrics \<Rightarrow> cohort \<Rightarrow> mem_metrics" where
  "RecordPanic r c = r\<lparr>mx_panics := incr_cohort (mx_panics r) c\<rparr>"

text \<open>\<open>fl_ratio a b\<close> is \<open>float64(a) / float64(b) * 100\<close>, \<open>fl_millis d\<close> is
  \<open>float64(d.Microseconds()) / 1000\<close>, \<open>fl_index p n\<close> is \<open>int(float64(n) * p)\<close> with \<open>p\<close> in
  hundredths, and \<open>fl_zero\<close> is \<open>0.0\<close>.\<close>

record 'f floats =
  fl_ratio :: "int \<Rightarrow> int \<Rightarrow> 'f"
  fl_millis :: "duration \<Rightarrow> 'f"
  fl_index :: "nat \<Rightarrow> nat \<Rightarrow> nat"
  fl_zero :: 'f

definition percentile :: "'f floats \<Rightarrow> duration list \<Rightarrow> nat \<Rightarrow> rollout_error + 'f" where
  "percentile fl lats p =
     (if lats = [] then Inr (fl_zero fl)
      else let idx = fl_index fl p (length lats - 1)
           in if idx < length lats then Inr (fl_millis fl (lats ! idx)) else Inl RolloutIndexPanic)"

definition MetricsSnapshot :: "'f floats \<Rightarrow> mem_metrics \<Rightarrow> cohort \<Rightarrow> rollout_error + 'f metrics" where
  "MetricsSnapshot fl r c =
     (let lats = sort (samples r c) in
      case percentile fl lats 50 of Inl e \<Rightarrow> Inl e | Inr p50 \<Rightarrow>
      (case percentile fl lats 95 of Inl e \<Rightarrow> Inl e | Inr p95 \<Rightarrow>
      (case percentile fl lats 99 of Inl e \<Rightarrow> Inl e | Inr p99 \<Rightarrow>
        (let n = getz (mx_requests r) c; errs = getz (mx_errors r) c; panics = getz (mx_panics r) c;
             att = getz (mx_giftAtt r) c; ok = getz (mx_giftOK r) c
         in Inr \<lparr>mt_Cohort = c, mt_RequestCount = n, mt_ErrorCount = errs,
                  mt_ErrorRatePct = (if 0 < n then fl_ratio fl errs n else fl_zero fl),
                  mt_P50LatencyMs = p50, mt_P95LatencyMs = p95, mt_P99LatencyMs = p99,
                  mt_GiftAttempts = att, mt_GiftSuccesses = ok,
                  mt_GiftSuccessRatePct = (if 0 < att then fl_ratio fl ok att else fl_zero fl),
                  mt_PanicCount = panics,
                  mt_CrashRatePct = (if 0 < n then fl_ratio fl panics n else fl_zero fl)\<rparr>))))"

section \<open>Service\<close>

text \<open>\<open>ro_log\<close> holds the lines that the audit closure of \<open>main.go\<close> writes to the log: actor, action, detail.\<close>

record rollout_world =
  ro_flags :: mem_flags
  ro_internal :: mem_internal
  ro_metrics :: mem_metrics
  ro_admin :: admin_world
  ro_log :: "(string \<times> string \<times> string) list"

definition rolloutRequirePermission :: "rollout_world \<Rightarrow> string \<Rightarrow> bool" where
  "rolloutRequirePermission w actorID = HasPermission (ro_admin w) actorID PermRolloutManage"

definition ro_requirePerm :: "rollout_world \<Rightarrow> string \<Rightarrow> rollout_error option" where
  "ro_requirePerm w actorID = (if \<not> rolloutRequirePermission w actorID then Some ErrRolloutForbidden else None)"

definition fnv32a :: "string \<Rightarrow> 32 word" where
  "fnv32a s = fold (\<lambda>c h. (h XOR of_nat (of_char c)) * 16777619) s 2166136261"

definition bucket :: "string \<Rightarrow> string \<Rightarrow> int" where
  "bucket flagKey accountID = uint (fnv32a (flagKey @ '':'' @ accountID) mod 100)"

definition Evaluate :: "rollout_world \<Rightarrow> string \<Rightarrow> string \<Rightarrow> rollout_error + bool" where
  "Evaluate w flagKey accountID =
     (case FlagGet (ro_flags w) flagKey of
        Inl err \<Rightarrow> if err = ErrFlagNotFound then Inr False else Inl err
      | Inr f \<Rightarrow>
          if ff_Stage f = StageOff then Inr False
          else if ff_Stage f = StageFull then Inr True
          else if ff_Stage f = StageInternal then
            (if accountID = [] then Inr False else Inr (IsInternal (ro_internal w) accountID))
          else if accountID = [] then Inr False
          else Inr (bucket flagKey accountID < Percent (ff_Stage f)))"

definition GetFlag :: "rollout_world \<Rightarrow> string \<Rightarrow> rollout_error + feature_flag" where
  "GetFlag w key = FlagGet (ro_flags w) key"

definition ListFlags :: "rollout_world \<Rightarrow> feature_flag list" where
  "ListFlags w = FlagList (ro_flags w)"

definition SetStage :: "rollout_world \<Rightarrow> time \<Rightarrow> string \<Rightarrow> string \<Rightarrow> stage \<Rightarrow>
    (rollout_error + feature_flag) \<times> rollout_world" where
  "SetStage w now actorID flagKey st =
     (case ro_requirePerm w actorID of
        Some err \<Rightarrow> (Inl err, w)
      | None \<Rightarrow>
          if \<not> ValidStage st then (Inl ErrInvalidStage, w)
          else let (f, flags) = FlagUpsert (ro_flags w) now flagKey st
               in (Inr f, w\<lparr>ro_flags := flags,
                    ro_log := ro_log w @ [(actorID, ''rollout_stage_change'', flagKey @ '' -> '' @ st)]\<rparr>))"

definition DevMarkInternal :: "rollout_world \<Rightarrow> string \<Rightarrow> rollout_world" where
  "DevMarkInternal w accountID = w\<lparr>ro_internal := MarkInternal (ro_internal w) accountID\<rparr>"

definition GetCanaryMetrics :: "'f floats \<Rightarrow> rollout_world \<Rightarrow> string \<Rightarrow> rollout_error + 'f metrics \<times> 'f metrics" where
  "GetCanaryMetrics fl w actorID =
     (case ro_requirePerm w actorID of
        Some err \<Rightarrow> Inl err
      | None \<Rightarrow>
          (case MetricsSnapshot fl (ro_metrics w) CohortControl of Inl e \<Rightarrow> Inl e | Inr control \<Rightarrow>
          (case MetricsSnapshot fl (ro_metrics w) CohortCanary of Inl e \<Rightarrow> Inl e | Inr canary \<Rightarrow>
            Inr (control, canary))))"

definition CohortFor :: "rollout_world \<Rightarrow> string \<Rightarrow> cohort" where
  "CohortFor w accountID =
     (case Evaluate w CanaryFlagKey accountID of
        Inl err \<Rightarrow> CohortControl
      | Inr isCanary \<Rightarrow> if \<not> isCanary then CohortControl else CohortCanary)"


section \<open>A staged rollout only grows\<close>

text \<open>The published test vectors of FNV-1a.\<close>

lemma fnv32a_vectors: "fnv32a [] = 0x811C9DC5" "fnv32a ''a'' = 0xE40C292C" "fnv32a ''foobar'' = 0xBF9CF968"
  by code_simp+

lemma bucket_range: "0 \<le> bucket k a" "bucket k a < 100"
proof -
  have "uint (fnv32a (k @ '':'' @ a) mod 100) = uint (fnv32a (k @ '':'' @ a)) mod 100"
    by (simp add: uint_mod)
  then show "0 \<le> bucket k a" "bucket k a < 100" by (simp_all add: bucket_def)
qed

lemma Percent_cases: "Percent s \<in> {0, 1, 5, 25, 100}"
  by (simp add: Percent_def)

lemma Percent_stages [simp]:
  "Percent StageOff = 0" "Percent StageInternal = 0" "Percent Stage1Pct = 1" "Percent Stage5Pct = 5"
  "Percent Stage25Pct = 25" "Percent StageFull = 100"
  by (simp_all add: Percent_def stage_defs)

lemma Percent_full: "100 \<le> Percent s \<longleftrightarrow> s = StageFull"
  by (simp add: Percent_def stage_defs)

lemma StageOff_neq [simp]: "StageOff \<noteq> StageFull" "StageOff \<noteq> StageInternal" "StageInternal \<noteq> StageFull"
  by (simp_all add: stage_defs)

text \<open>For a percentage the code compares the bucket with it, and a full rollout fits the same comparison.\<close>

lemma Evaluate_pct:
  assumes "map_of (ro_flags w) k = Some f" and "0 < Percent (ff_Stage f)"
  shows "Evaluate w k a = Inr (if a = [] then ff_Stage f = StageFull else bucket k a < Percent (ff_Stage f))"
proof -
  have "ff_Stage f \<noteq> StageOff" "ff_Stage f \<noteq> StageInternal" using assms(2) by auto
  then show ?thesis using assms(1) bucket_range(2) [of k a] by (auto simp: Evaluate_def FlagGet_def)
qed

lemma Evaluate_cong:
  "map_of (ro_flags w') k = map_of (ro_flags w) k \<Longrightarrow> ro_internal w' = ro_internal w \<Longrightarrow>
   Evaluate w' k a = Evaluate w k a"
  by (simp only: Evaluate_def FlagGet_def)

lemma SetStage_ok:
  assumes "SetStage w now actor k s = (Inr f, w')"
  shows "HasPermission (ro_admin w) actor PermRolloutManage \<and> ValidStage s \<and>
    (\<exists>f. map_of (ro_flags w') k = Some f \<and> ff_Stage f = s) \<and>
    (\<forall>k'. k' \<noteq> k \<longrightarrow> map_of (ro_flags w') k' = map_of (ro_flags w) k') \<and>
    ro_internal w' = ro_internal w \<and> ro_metrics w' = ro_metrics w \<and> ro_admin w' = ro_admin w \<and>
    ro_log w' = ro_log w @ [(actor, ''rollout_stage_change'', k @ '' -> '' @ s)]"
  using assms
  by (auto simp: SetStage_def ro_requirePerm_def rolloutRequirePermission_def FlagUpsert_def Let_def update_conv'
      split: if_splits option.splits)

lemma SetStage_err: "SetStage w now actor k s = (Inl e, w') \<Longrightarrow> w' = w"
  by (auto simp: SetStage_def split: if_splits option.splits prod.splits)

lemma SetStage_no: "\<forall>f w'. SetStage w now actor k s \<noteq> (Inr f, w') \<Longrightarrow> snd (SetStage w now actor k s) = w"
  by (cases "SetStage w now actor k s"; cases "fst (SetStage w now actor k s)") (auto dest: SetStage_err)

text \<open>A rollout that moves forward never takes a feature away. Whoever has a flag at one percentage still has it
  after an administrator sets a stage of at least that percentage, whatever its flag key and account, and at
  100 percent everybody has it, guests included; other flags are untouched by the change.\<close>

theorem rollout_only_grows:
  assumes "SetStage w now actor k s = (Inr f', w')"
    and "map_of (ro_flags w) k = Some f" and "ff_Stage f \<noteq> StageInternal"
    and "Percent (ff_Stage f) \<le> Percent s"
  shows "(Evaluate w k a = Inr True \<longrightarrow> Evaluate w' k a = Inr True) \<and>
    (s = StageFull \<longrightarrow> Evaluate w' k a = Inr True) \<and>
    (k' \<noteq> k \<longrightarrow> Evaluate w' k' a = Evaluate w k' a)"
proof -
  note S = SetStage_ok [OF assms(1)]
  obtain g where g: "map_of (ro_flags w') k = Some g" "ff_Stage g = s" using S by blast
  have grow: "Evaluate w' k a = Inr True" if e: "Evaluate w k a = Inr True"
  proof -
    have p: "0 < Percent (ff_Stage f)"
    proof (rule ccontr)
      assume "\<not> 0 < Percent (ff_Stage f)"
      then have "Percent (ff_Stage f) = 0" using Percent_cases [of "ff_Stage f"] by auto
      then have "ff_Stage f \<noteq> StageFull" by auto
      then show False using e assms(2,3) \<open>Percent (ff_Stage f) = 0\<close> bucket_range(1) [of k a]
        by (auto simp: Evaluate_def FlagGet_def split: if_splits)
    qed
    have "s = StageFull" if "ff_Stage f = StageFull"
      using that assms(4) by (simp add: Percent_full)
    then show ?thesis
      using e assms(4) p unfolding Evaluate_pct [OF assms(2) p]
      by (subst Evaluate_pct [OF g(1)]) (auto simp: g(2) split: if_splits)
  qed
  have full: "Evaluate w' k a = Inr True" if "s = StageFull"
    using that g bucket_range(2) [of k a] by (simp add: Evaluate_pct [OF g(1)])
  have "Evaluate w' k' a = Evaluate w k' a" if "k' \<noteq> k"
    using S that by (intro Evaluate_cong) simp_all
  with grow full show ?thesis by blast
qed


text \<open>The deployment of the example: a superadmin, one flag at one percent.\<close>

definition demo_console :: admin_world where
  "demo_console = \<lparr>ad_roles = [(''root'', RoleSuperAdmin), (''fin'', RoleFinance)], ad_audit = NewMemAuditRepo, ad_tickets = NewMemTicketRepo,
     ad_creator = demo_creator, ad_reports = NewMemReportRepo, ad_risk = NewMemRiskRepo, ad_streams = 0\<rparr>"

definition demo_rollout :: rollout_world where
  "demo_rollout = \<lparr>ro_flags = [(CanaryFlagKey, \<lparr>ff_Key = CanaryFlagKey, ff_Stage = Stage25Pct, ff_CreatedAt = 1, ff_UpdatedAt = 1\<rparr>)],
     ro_internal = [(''staff'', True)], ro_metrics = NewMemMetricsRepo, ro_admin = demo_console, ro_log = []\<rparr>"

lemma demo_flag: "map_of (ro_flags demo_rollout) CanaryFlagKey =
    Some \<lparr>ff_Key = CanaryFlagKey, ff_Stage = Stage25Pct, ff_CreatedAt = 1, ff_UpdatedAt = 1\<rparr>"
  by (simp add: demo_rollout_def)

lemma demo_permission: "HasPermission (ro_admin demo_rollout) ''root'' PermRolloutManage"
  by (simp add: HasPermission_def demo_rollout_def demo_console_def MemGetRole_def RoleHasPermission_def RolePermissions_def
      RoleSupport_def RoleFinance_def RoleTrustSafety_def RoleSuperAdmin_def)

lemma SetStage_by_manager:
  "HasPermission (ro_admin w) actor PermRolloutManage \<Longrightarrow> ValidStage s \<Longrightarrow> \<exists>f w'. SetStage w now actor k s = (Inr f, w')"
  by (simp add: SetStage_def ro_requirePerm_def rolloutRequirePermission_def split: prod.splits)

lemma rollout_only_grows_witness:
  "\<exists>f w'. SetStage demo_rollout 5 ''root'' CanaryFlagKey StageFull = (Inr f, w') \<and>
     Evaluate demo_rollout CanaryFlagKey ''acc-0001'' = Inr True \<and>
     Evaluate w' CanaryFlagKey ''acc-0001'' = Inr True \<and> Evaluate w' CanaryFlagKey [] = Inr True"
proof -
  have v: "ValidStage StageFull" by (simp add: ValidStage_def Stages_def)
  obtain f w' where s: "SetStage demo_rollout 5 ''root'' CanaryFlagKey StageFull = (Inr f, w')"
    using SetStage_by_manager [OF demo_permission v] by metis
  have e: "Evaluate demo_rollout CanaryFlagKey ''acc-0001'' = Inr True" by code_simp
  have i: "Stage25Pct \<noteq> StageInternal" by (simp add: stage_defs)
  note R = rollout_only_grows [OF s demo_flag]
  have "Evaluate w' CanaryFlagKey ''acc-0001'' = Inr True" using R [of "''acc-0001''"] i e by simp
  moreover have "Evaluate w' CanaryFlagKey [] = Inr True" using R [of "[]"] i by simp
  ultimately show ?thesis using s e by blast
qed

text \<open>The step from staff to one percent does not only grow: staff whose bucket is not the first lose the flag.\<close>

lemma staff_lose_the_flag:
  assumes "SetStage w now actor k Stage1Pct = (Inr f', w')" and "map_of (ro_flags w) k = Some f"
    and "ff_Stage f = StageInternal" and "IsInternal (ro_internal w) a" and "a \<noteq> []" and "1 \<le> bucket k a"
  shows "Evaluate w k a = Inr True \<and> Evaluate w' k a = Inr False"
proof -
  obtain g where g: "map_of (ro_flags w') k = Some g" "ff_Stage g = Stage1Pct"
    using SetStage_ok [OF assms(1)] by blast
  have "Evaluate w' k a = Inr (bucket k a < 1)"
    using Evaluate_pct [OF g(1), of a] g(2) assms(5) by simp
  moreover have "StageInternal \<noteq> StageOff" "StageInternal \<noteq> StageFull" by (simp_all add: stage_defs)
  ultimately show ?thesis using assms(2-6) by (simp add: Evaluate_def FlagGet_def)
qed

lemma staff_lose_the_flag_witness: "1 \<le> bucket CanaryFlagKey ''acc-0002''"
  by code_simp

section \<open>Who changes a stage\<close>

lemma RoleHasPermission_rollout: "RoleHasPermission r PermRolloutManage \<longleftrightarrow> r = RoleSuperAdmin"
  by (auto simp: RoleHasPermission_def RolePermissions_def RoleSupport_def RoleFinance_def RoleTrustSafety_def RoleSuperAdmin_def)

lemma rollout_managers: "HasPermission w a PermRolloutManage \<longleftrightarrow> MemGetRole (ad_roles w) a = Some RoleSuperAdmin"
  by (auto simp: HasPermission_def RoleHasPermission_rollout split: option.splits)


datatype rollout_call =
    CallSetStage time string string stage
  | CallDevMarkInternal string
  | CallRecordRequest cohort int duration
  | CallRecordGift cohort bool
  | CallRecordPanic cohort

fun rollout_do :: "rollout_world \<Rightarrow> rollout_call \<Rightarrow> rollout_world" where
  "rollout_do w (CallSetStage now actor k s) = snd (SetStage w now actor k s)"
| "rollout_do w (CallDevMarkInternal a) = DevMarkInternal w a"
| "rollout_do w (CallRecordRequest c status latency) = w\<lparr>ro_metrics := RecordRequest (ro_metrics w) c status latency\<rparr>"
| "rollout_do w (CallRecordGift c ok) = w\<lparr>ro_metrics := RecordGiftAttempt (ro_metrics w) c ok\<rparr>"
| "rollout_do w (CallRecordPanic c) = w\<lparr>ro_metrics := RecordPanic (ro_metrics w) c\<rparr>"

text \<open>The stage changes that the log tells of, each by its actor, flag and stage.\<close>

definition change_line :: "string \<times> string \<times> stage \<Rightarrow> string \<times> string \<times> string" where
  "change_line = (\<lambda>(actor, k, s). (actor, ''rollout_stage_change'', k @ '' -> '' @ s))"

definition replay :: "(string \<times> string \<times> stage) list \<Rightarrow> string \<Rightarrow> stage option" where
  "replay cs k = map_option (\<lambda>(actor, k, s). s) (find (\<lambda>(actor, k', s). k' = k) (rev cs))"

lemma replay_Nil [simp]: "replay [] k = None"
  by (simp add: replay_def)

lemma replay_snoc [simp]: "replay (cs @ [(actor, k', s)]) k = (if k' = k then Some s else replay cs k)"
  by (simp add: replay_def)

definition stages :: "rollout_world \<Rightarrow> string \<Rightarrow> stage option" where
  "stages w k = map_option ff_Stage (map_of (ro_flags w) k)"

lemma stages_SetStage:
  assumes "SetStage w now actor k s = (Inr f, w')"
  shows "stages w' k' = (if k' = k then Some s else stages w k')"
  using SetStage_ok [OF assms] by (auto simp: stages_def)

lemma rollout_log:
  "\<exists>cs. ro_log (foldl rollout_do w calls) = ro_log w @ map change_line cs \<and>
     ro_admin (foldl rollout_do w calls) = ro_admin w \<and>
     (\<forall>(actor, k, s) \<in> set cs. HasPermission (ro_admin w) actor PermRolloutManage \<and> ValidStage s) \<and>
     (\<forall>k. stages (foldl rollout_do w calls) k = (case replay cs k of None \<Rightarrow> stages w k | Some s \<Rightarrow> Some s))"
proof (induction calls rule: rev_induct)
  case Nil
  show ?case by (intro exI [of _ "[]"]) simp
next
  case (snoc c calls)
  let ?v = "foldl rollout_do w calls"
  obtain cs where cs: "ro_log ?v = ro_log w @ map change_line cs" "ro_admin ?v = ro_admin w"
    "\<forall>(actor, k, s) \<in> set cs. HasPermission (ro_admin w) actor PermRolloutManage \<and> ValidStage s"
    "\<forall>k. stages ?v k = (case replay cs k of None \<Rightarrow> stages w k | Some s \<Rightarrow> Some s)"
    using snoc.IH by blast
  show ?case
  proof (cases "\<exists>now actor k s f v'. c = CallSetStage now actor k s \<and> SetStage ?v now actor k s = (Inr f, v')")
    case True
    then obtain now actor k s f v' where c: "c = CallSetStage now actor k s" "SetStage ?v now actor k s = (Inr f, v')"
      by blast
    note S = SetStage_ok [OF c(2)] and G = stages_SetStage [OF c(2)]
    show ?thesis
      using S cs by (intro exI [of _ "cs @ [(actor, k, s)]"]) (auto simp: c change_line_def G)
  next
    case False
    then have "ro_log (rollout_do ?v c) = ro_log ?v \<and> ro_admin (rollout_do ?v c) = ro_admin ?v \<and>
        stages (rollout_do ?v c) = stages ?v"
      by (cases c) (auto simp: DevMarkInternal_def stages_def fun_eq_iff SetStage_no)
    then show ?thesis using cs by (intro exI [of _ cs]) simp
  qed
qed


text \<open>Only a superadmin moves a rollout, and the log tells every move. Whatever calls the module serves, in whatever
  order, the lines they add to the log are stage changes by accounts that hold the superadmin role, to one of the six
  stages, and replaying those lines over the stages at the start gives the stage of every flag: no change is missing from
  the log, none of its lines is about a change that did not happen.\<close>

theorem stage_changes_logged:
  "\<exists>cs. ro_log (foldl rollout_do w calls) = ro_log w @ map change_line cs \<and>
     (\<forall>(actor, k, s) \<in> set cs. MemGetRole (ad_roles (ro_admin w)) actor = Some RoleSuperAdmin \<and> s \<in> set Stages) \<and>
     (\<forall>k. stages (foldl rollout_do w calls) k = (case replay cs k of None \<Rightarrow> stages w k | Some s \<Rightarrow> Some s))"
proof -
  have v: "ValidStage s \<longleftrightarrow> s \<in> set Stages" for s by (auto simp: ValidStage_def list_ex_iff)
  show ?thesis using rollout_log [of w calls] unfolding rollout_managers v by blast
qed

lemma stage_changes_logged_witness:
  "\<exists>cs. ro_log (foldl rollout_do demo_rollout
        [CallSetStage 5 ''fin'' CanaryFlagKey StageFull, CallSetStage 6 ''root'' CanaryFlagKey StageOff]) = map change_line cs \<and>
     (\<forall>(actor, k, s) \<in> set cs. MemGetRole (ad_roles demo_console) actor = Some RoleSuperAdmin \<and> s \<in> set Stages)"
  using stage_changes_logged [of demo_rollout
      "[CallSetStage 5 ''fin'' CanaryFlagKey StageFull, CallSetStage 6 ''root'' CanaryFlagKey StageOff]"]
  by (simp only: demo_rollout_def rollout_world.select_convs append_Nil) blast


section \<open>The metrics are counts over the traffic\<close>

datatype metric_event = MRequest cohort int duration | MGift cohort bool | MPanic cohort

fun metric_do :: "mem_metrics \<Rightarrow> metric_event \<Rightarrow> mem_metrics" where
  "metric_do r (MRequest c status latency) = RecordRequest r c status latency"
| "metric_do r (MGift c ok) = RecordGiftAttempt r c ok"
| "metric_do r (MPanic c) = RecordPanic r c"

fun is_request :: "cohort \<Rightarrow> metric_event \<Rightarrow> bool" where
  "is_request c (MRequest c' status latency) = (c' = c)" | "is_request c e = False"

fun is_error :: "cohort \<Rightarrow> metric_event \<Rightarrow> bool" where
  "is_error c (MRequest c' status latency) = (c' = c \<and> 500 \<le> status)" | "is_error c e = False"

fun is_gift :: "cohort \<Rightarrow> metric_event \<Rightarrow> bool" where
  "is_gift c (MGift c' ok) = (c' = c)" | "is_gift c e = False"

fun is_gift_ok :: "cohort \<Rightarrow> metric_event \<Rightarrow> bool" where
  "is_gift_ok c (MGift c' ok) = (c' = c \<and> ok)" | "is_gift_ok c e = False"

fun is_panic :: "cohort \<Rightarrow> metric_event \<Rightarrow> bool" where
  "is_panic c (MPanic c') = (c' = c)" | "is_panic c e = False"

fun latency_of :: "metric_event \<Rightarrow> duration" where
  "latency_of (MRequest c status latency) = latency" | "latency_of e = 0"

definition occurs :: "(metric_event \<Rightarrow> bool) \<Rightarrow> metric_event list \<Rightarrow> int" where
  "occurs P es = int (length (filter P es))"

lemma occurs_simps [simp]: "occurs P [] = 0" "occurs P (es @ [e]) = occurs P es + (if P e then 1 else 0)"
  by (simp_all add: occurs_def)

lemma getz_incr: "getz (incr_cohort m c) c' = (if c' = c then add64 (getz m c) 1 else getz m c')"
  by (simp add: incr_cohort_def getz_def update_conv')

lemma incr_counts: "length es < 2 ^ 62 \<Longrightarrow> add64 (occurs P es) 1 = occurs P es + 1"
proof -
  assume "length es < 2 ^ 62"
  then have "length (filter P es) < 2 ^ 62" by (rule le_less_trans [OF length_filter_le])
  then show ?thesis by (simp add: occurs_def add64_id in_i64_def)
qed

definition counts :: "mem_metrics \<Rightarrow> metric_event list \<Rightarrow> bool" where
  "counts r es \<longleftrightarrow>
     (\<forall>c. getz (mx_requests r) c = occurs (is_request c) es \<and> getz (mx_errors r) c = occurs (is_error c) es \<and>
        getz (mx_giftAtt r) c = occurs (is_gift c) es \<and> getz (mx_giftOK r) c = occurs (is_gift_ok c) es \<and>
        getz (mx_panics r) c = occurs (is_panic c) es \<and>
        samples r c = take maxLatencySamples (map latency_of (filter (is_request c) es)))"

lemma counts_start: "counts NewMemMetricsRepo []"
  by (simp add: counts_def NewMemMetricsRepo_def getz_def samples_def)

lemma samples_RecordRequest:
  "samples (RecordRequest r c status d) c' =
     (if c' = c \<and> length (samples r c) < maxLatencySamples then samples r c @ [d] else samples r c')"
  by (auto simp: RecordRequest_def samples_def update_conv' Let_def)

lemma counters_RecordRequest [simp]:
  "mx_requests (RecordRequest r c status d) = incr_cohort (mx_requests r) c"
  "mx_errors (RecordRequest r c status d) = (if 500 \<le> status then incr_cohort (mx_errors r) c else mx_errors r)"
  "mx_giftAtt (RecordRequest r c status d) = mx_giftAtt r" "mx_giftOK (RecordRequest r c status d) = mx_giftOK r"
  "mx_panics (RecordRequest r c status d) = mx_panics r"
  by (simp_all add: RecordRequest_def Let_def)

lemma take_snoc: "(if length (take n xs) < n then take n xs @ [x] else take n xs) = take n (xs @ [x])"
  by (cases "n \<le> length xs") auto

lemma samples_step:
  assumes "\<And>c. samples r c = take maxLatencySamples (map latency_of (filter (is_request c) es))"
  shows "samples (RecordRequest r c status d) c' =
    take maxLatencySamples (map latency_of (filter (is_request c') (es @ [MRequest c status d])))"
proof (cases "c' = c")
  case True
  then show ?thesis
    using take_snoc [of maxLatencySamples "map latency_of (filter (is_request c) es)" d]
    by (simp add: samples_RecordRequest assms del: length_take take_append split: if_splits)
next
  case False
  then show ?thesis by (simp add: samples_RecordRequest assms)
qed

lemma counts_step:
  assumes "counts r es" and "length es < 2 ^ 62"
  shows "counts (metric_do r e) (es @ [e])"
proof (cases e)
  case (MRequest c status d)
  have "samples r c = take maxLatencySamples (map latency_of (filter (is_request c) es))" for c
    using assms(1) by (simp add: counts_def)
  from samples_step [OF this] show ?thesis
    using assms by (simp add: MRequest counts_def getz_incr incr_counts del: filter_append)
next
  case (MGift c ok)
  then show ?thesis
    using assms by (auto simp: counts_def getz_incr incr_counts RecordGiftAttempt_def Let_def samples_def)
next
  case (MPanic c)
  then show ?thesis
    using assms by (auto simp: counts_def getz_incr incr_counts RecordPanic_def samples_def)
qed

lemma counts_run: "length es < 2 ^ 62 \<Longrightarrow> counts (foldl metric_do NewMemMetricsRepo es) es"
proof (induction es rule: rev_induct)
  case (snoc e es)
  then show ?case using counts_step [of "foldl metric_do NewMemMetricsRepo es" es e] by simp
qed (simp add: counts_start)


definition ok_index :: "'f floats \<Rightarrow> bool" where
  "ok_index fl \<longleftrightarrow> (\<forall>p n. fl_index fl p n \<le> n)"

text \<open>What the code relies on: a percentile index does not exceed its bound. \<open>spec_percentile\<close> is the percentile of
  the given latencies.\<close>

definition spec_percentile :: "'f floats \<Rightarrow> duration list \<Rightarrow> nat \<Rightarrow> 'f" where
  "spec_percentile fl ls p = (if ls = [] then fl_zero fl else fl_millis fl (sort ls ! fl_index fl p (length ls - 1)))"

definition spec_metrics :: "'f floats \<Rightarrow> metric_event list \<Rightarrow> cohort \<Rightarrow> 'f metrics" where
  "spec_metrics fl es c =
     (let n = occurs (is_request c) es; att = occurs (is_gift c) es;
          rate = (\<lambda>a b. if 0 < b then fl_ratio fl a b else fl_zero fl);
          ls = take maxLatencySamples (map latency_of (filter (is_request c) es))
      in \<lparr>mt_Cohort = c, mt_RequestCount = n, mt_ErrorCount = occurs (is_error c) es,
          mt_ErrorRatePct = rate (occurs (is_error c) es) n,
          mt_P50LatencyMs = spec_percentile fl ls 50, mt_P95LatencyMs = spec_percentile fl ls 95,
          mt_P99LatencyMs = spec_percentile fl ls 99,
          mt_GiftAttempts = att, mt_GiftSuccesses = occurs (is_gift_ok c) es,
          mt_GiftSuccessRatePct = rate (occurs (is_gift_ok c) es) att,
          mt_PanicCount = occurs (is_panic c) es,
          mt_CrashRatePct = rate (occurs (is_panic c) es) n\<rparr>)"

lemma percentile_spec: "ok_index fl \<Longrightarrow> percentile fl (sort ls) p = Inr (spec_percentile fl ls p)"
proof -
  assume "ok_index fl"
  then have "fl_index fl p (length ls - 1) \<le> length ls - 1" by (simp add: ok_index_def)
  then have "fl_index fl p (length ls - 1) < length ls" if "ls \<noteq> []" using that by (cases ls) auto
  moreover have "sort ls = [] \<longleftrightarrow> ls = []" by (metis set_empty set_sort)
  ultimately show ?thesis by (auto simp: percentile_def spec_percentile_def Let_def)
qed

text \<open>The canary comparison is the traffic, up to the latencies. For whatever requests, gift attempts and panics have
  been recorded (fewer than \<open>2^62\<close>), the metrics of a cohort are the numbers of its requests, of its requests
  answered 5xx, of its gift attempts and successes and of its panics, and their ratios; but the three
  percentiles are those of the cohort's first 5,000 requests since the start, so that no later request
  changes them.\<close>

theorem metrics_match_traffic:
  assumes "ok_index fl" and "length es < 2 ^ 62"
  shows "MetricsSnapshot fl (foldl metric_do NewMemMetricsRepo es) c = Inr (spec_metrics fl es c)"
proof -
  let ?r = "foldl metric_do NewMemMetricsRepo es"
  have m: "getz (mx_requests ?r) c = occurs (is_request c) es" "getz (mx_errors ?r) c = occurs (is_error c) es"
    "getz (mx_giftAtt ?r) c = occurs (is_gift c) es" "getz (mx_giftOK ?r) c = occurs (is_gift_ok c) es"
    "getz (mx_panics ?r) c = occurs (is_panic c) es"
    "samples ?r c = take maxLatencySamples (map latency_of (filter (is_request c) es))"
    using counts_run [OF assms(2)] by (simp_all add: counts_def)
  show ?thesis
    by (simp add: MetricsSnapshot_def spec_metrics_def percentile_spec [OF assms(1)] m Let_def)
qed

definition demo_floats :: "int floats" where
  "demo_floats = \<lparr>fl_ratio = (\<lambda>a b. a * 100 div b), fl_millis = (\<lambda>d. d div 1000000),
     fl_index = (\<lambda>p n. min n (n * p div 100)), fl_zero = 0\<rparr>"

lemma metrics_match_traffic_witness:
  "MetricsSnapshot demo_floats
     (foldl metric_do NewMemMetricsRepo [MRequest CohortCanary 500 7000000, MRequest CohortCanary 200 3000000, MPanic CohortControl]) CohortCanary =
   Inr \<lparr>mt_Cohort = CohortCanary, mt_RequestCount = 2, mt_ErrorCount = 1, mt_ErrorRatePct = 50, mt_P50LatencyMs = 3,
        mt_P95LatencyMs = 3, mt_P99LatencyMs = 3, mt_GiftAttempts = 0, mt_GiftSuccesses = 0, mt_GiftSuccessRatePct = 0,
        mt_PanicCount = 0, mt_CrashRatePct = 0\<rparr>"
proof -
  let ?es = "[MRequest CohortCanary 500 7000000, MRequest CohortCanary 200 3000000, MPanic CohortControl]"
  have "ok_index demo_floats" by (simp add: ok_index_def demo_floats_def)
  from metrics_match_traffic [OF this, of ?es CohortCanary]
  have "MetricsSnapshot demo_floats (foldl metric_do NewMemMetricsRepo ?es) CohortCanary = Inr (spec_metrics demo_floats ?es CohortCanary)" by simp
  moreover have "spec_metrics demo_floats ?es CohortCanary =
    \<lparr>mt_Cohort = CohortCanary, mt_RequestCount = 2, mt_ErrorCount = 1, mt_ErrorRatePct = 50, mt_P50LatencyMs = 3,
        mt_P95LatencyMs = 3, mt_P99LatencyMs = 3, mt_GiftAttempts = 0, mt_GiftSuccesses = 0, mt_GiftSuccessRatePct = 0,
        mt_PanicCount = 0, mt_CrashRatePct = 0\<rparr>"
    by (simp add: demo_floats_def spec_metrics_def spec_percentile_def occurs_def maxLatencySamples_def)
  ultimately show ?thesis by simp
qed

end
