(* ===== verification/Edge.thy ===== *)
theory Edge
  imports Rollout Bus
begin

text \<open>
  The HTTP edge of the server: the middlewares of \<open>feed/cmd/api/main.go\<close> around the routes. A handler is a
  function of the request and the state of the server; its run lists the status codes it writes, in order
  (\<open>WriteHeader\<close>), and tells whether it panics. The client sees the first code, \<open>200\<close> when there is none;
  \<open>statusWriter\<close> remembers the last. Bodies and other headers are left out. The router and the routes behind it
  are an argument, as are the clock and the time a request takes.
\<close>

section \<open>Requests and runs\<close>

record request =
  rq_Method :: string
  rq_Path :: string
  rq_Authorization :: string
  rq_roomID :: string          \<comment> \<open>the path value \<open>id\<close>\<close>
  rq_accountID :: string       \<comment> \<open>the context value; empty for a guest\<close>

record run =
  rn_headers :: "int list"
  rn_panic :: bool

definition client_status :: "run \<Rightarrow> int" where
  "client_status r = (case rn_headers r of [] \<Rightarrow> 200 | s # _ \<Rightarrow> s)"

definition writer_status :: "run \<Rightarrow> int" where
  "writer_status r = last (200 # rn_headers r)"

definition answer :: "int \<Rightarrow> run" where
  "answer status = \<lparr>rn_headers = [status], rn_panic = False\<rparr>"

text \<open>The state of the server as the edge sees it; \<open>ed_app\<close> is everything the routes work on.\<close>

record 's edge =
  ed_rollout :: rollout_world
  ed_bus :: bus
  ed_log :: "(string \<times> string \<times> int) list"
  ed_app :: 's

type_synonym 's handler = "request \<Rightarrow> 's edge \<Rightarrow> run \<times> 's edge"

section \<open>Who is asking\<close>

definition bearer_prefix :: string where "bearer_prefix = ''Bearer ''"

definition TrimPrefix :: "string \<Rightarrow> string \<Rightarrow> string" where
  "TrimPrefix s p = (if HasPrefix s p then drop (length p) s else s)"

definition sharedAuth :: "token_crypto \<Rightarrow> token_issuer \<Rightarrow> time \<Rightarrow> 's handler \<Rightarrow> 's handler" where
  "sharedAuth cr ti now next' = (\<lambda>r e.
     if \<not> HasPrefix (rq_Authorization r) bearer_prefix then (answer 401, e)
     else
       (case VerifyAccessToken cr ti now (TrimPrefix (rq_Authorization r) bearer_prefix) of
          Inl err \<Rightarrow> (answer 401, e)
        | Inr claims \<Rightarrow> next' (r\<lparr>rq_accountID := cl_AccountID claims\<rparr>) e))"

definition sharedOptAuth :: "token_crypto \<Rightarrow> token_issuer \<Rightarrow> time \<Rightarrow> 's handler \<Rightarrow> 's handler" where
  "sharedOptAuth cr ti now next' = (\<lambda>r e.
     let r' = (if HasPrefix (rq_Authorization r) bearer_prefix
               then (case VerifyAccessToken cr ti now (TrimPrefix (rq_Authorization r) bearer_prefix) of
                       Inl err \<Rightarrow> r
                     | Inr claims \<Rightarrow> r\<lparr>rq_accountID := cl_AccountID claims\<rparr>)
               else r)
     in next' r' e)"

section \<open>Metrics, log, CORS\<close>

definition canary_account :: "token_crypto \<Rightarrow> token_issuer \<Rightarrow> time \<Rightarrow> request \<Rightarrow> string" where
  "canary_account cr ti now r =
     (if HasPrefix (rq_Authorization r) bearer_prefix
      then (case VerifyAccessToken cr ti now (TrimPrefix (rq_Authorization r) bearer_prefix) of
              Inl err \<Rightarrow> [] | Inr claims \<Rightarrow> cl_AccountID claims)
      else [])"

definition record_metric :: "'s edge \<Rightarrow> metric_event \<Rightarrow> 's edge" where
  "record_metric e m = e\<lparr>ed_rollout := (ed_rollout e)\<lparr>ro_metrics := metric_do (ro_metrics (ed_rollout e)) m\<rparr>\<rparr>"

definition canaryMetricsMiddleware :: "token_crypto \<Rightarrow> token_issuer \<Rightarrow> time \<Rightarrow> duration \<Rightarrow> 's handler \<Rightarrow> 's handler" where
  "canaryMetricsMiddleware cr ti now latency next' = (\<lambda>r e.
     let cohort = CohortFor (ed_rollout e) (canary_account cr ti now r);
         (rn, e1) = next' r e;
         (rn, e2) =
           (if rn_panic rn
            then (\<lparr>rn_headers = rn_headers rn @ (if writer_status rn = 200 then [500] else []), rn_panic = False\<rparr>,
                  record_metric e1 (MPanic cohort))
            else (rn, e1))
     in (rn, record_metric e2 (MRequest cohort (writer_status rn) latency)))"

definition requestLogger :: "'s handler \<Rightarrow> 's handler" where
  "requestLogger next' = (\<lambda>r e.
     let (rn, e1) = next' r e
     in if rn_panic rn \<or> \<not> HasPrefix (rq_Path r) ''/api/'' then (rn, e1)
        else (rn, e1\<lparr>ed_log := ed_log e1 @ [(rq_Method r, rq_Path r, writer_status rn)]\<rparr>))"

definition corsMiddleware :: "'s handler \<Rightarrow> 's handler" where
  "corsMiddleware next' = (\<lambda>r e. if rq_Method r = ''OPTIONS'' then (answer 204, e) else next' r e)"

text \<open>\<open>for i := len(middleware)-1; i >= 0; i--\<close>: the first middleware is the outermost.\<close>

definition chain :: "'s handler \<Rightarrow> ('s handler \<Rightarrow> 's handler) list \<Rightarrow> 's handler" where
  "chain h middleware = foldr (\<lambda>m h. m h) middleware h"

definition server :: "token_crypto \<Rightarrow> token_issuer \<Rightarrow> time \<Rightarrow> duration \<Rightarrow> 's handler \<Rightarrow> 's handler" where
  "server cr ti now latency mux =
     chain mux [requestLogger, canaryMetricsMiddleware cr ti now latency, corsMiddleware]"

section \<open>Wrappers of single routes\<close>

definition is_2xx :: "int \<Rightarrow> bool" where
  "is_2xx status \<longleftrightarrow> 200 \<le> status \<and> status < 300"

definition publishStreamEnded :: "'s handler \<Rightarrow> 's handler" where
  "publishStreamEnded next' = (\<lambda>r e.
     let (rn, e1) = next' r e
     in if \<not> rn_panic rn \<and> is_2xx (writer_status rn)
        then (rn, e1\<lparr>ed_bus := Publish (ed_bus e1) (''room:'' @ rq_roomID r) ''STREAM_ENDED''
               (JObj [(''room_id'', JStr (rq_roomID r)), (''reason'', JStr ''host_ended'')])\<rparr>)
        else (rn, e1))"

definition recordGiftAttempt :: "'s handler \<Rightarrow> 's handler" where
  "recordGiftAttempt next' = (\<lambda>r e.
     let cohort = CohortFor (ed_rollout e) (rq_accountID r);
         (rn, e1) = next' r e
     in if rn_panic rn then (rn, e1)
        else (rn, record_metric e1 (MGift cohort (is_2xx (writer_status rn)))))"


section \<open>The gate\<close>

lemma bearer_simps [simp]:
  "HasPrefix (bearer_prefix @ raw) bearer_prefix" "TrimPrefix (bearer_prefix @ raw) bearer_prefix = raw"
  by (simp_all add: TrimPrefix_def)

lemma sharedAuth_bearer:
  "rq_Authorization r = bearer_prefix @ raw \<Longrightarrow>
   sharedAuth cr ti now h r e =
     (case VerifyAccessToken cr ti now raw of
        Inl err \<Rightarrow> (answer 401, e) | Inr c \<Rightarrow> h (r\<lparr>rq_accountID := cl_AccountID c\<rparr>) e)"
  by (simp add: sharedAuth_def)

lemma sharedOptAuth_bearer:
  "rq_Authorization r = bearer_prefix @ raw \<Longrightarrow>
   sharedOptAuth cr ti now h r e =
     (case VerifyAccessToken cr ti now raw of
        Inl err \<Rightarrow> h r e | Inr c \<Rightarrow> h (r\<lparr>rq_accountID := cl_AccountID c\<rparr>) e)"
  by (simp add: sharedOptAuth_def Let_def split: sum.splits)

lemma canary_account_bearer:
  "rq_Authorization r = bearer_prefix @ raw \<Longrightarrow>
   canary_account cr ti now r =
     (case VerifyAccessToken cr ti now raw of Inl err \<Rightarrow> [] | Inr c \<Rightarrow> cl_AccountID c)"
  by (simp add: canary_account_def)

lemma HasPrefix_split: "HasPrefix s p \<Longrightarrow> \<exists>t. s = p @ t"
  by (metis HasPrefix_def append_take_drop_id)

text \<open>C31: The gate in front of the protected routes. A request that carries a token issued to an account runs the route as
  that account until the token expires, and as nobody afterwards: a protected route is then not run at all (401,
  nothing changes), and an optional one runs as for a guest. Whatever other request gets past the gate carries a
  token with a valid keyed digest, not expired, and runs as the account its claims name. (The JSON form of the
  issued claims reads back.)\<close>

theorem bearer_gate:
  assumes "IssueAccessToken cr ti issued a d = (raw, c)" and "cr_unmarshal cr (cr_marshal cr c) = Some c"
    and "rq_Authorization r = bearer_prefix @ raw"
  shows "(if Unix now \<le> Unix (issued + ti_accessTTL ti)
       then sharedAuth cr ti now h r e = h (r\<lparr>rq_accountID := a\<rparr>) e \<and>
            sharedOptAuth cr ti now h r e = h (r\<lparr>rq_accountID := a\<rparr>) e \<and> canary_account cr ti now r = a
       else sharedAuth cr ti now h r e = (answer 401, e) \<and>
            sharedOptAuth cr ti now h r e = h r e \<and> canary_account cr ti now r = []) \<and>
    (sharedAuth cr ti now h q e = (answer 401, e) \<or>
     (\<exists>hd p sg c'. rq_Authorization q = bearer_prefix @ hd @ ''.'' @ p @ ''.'' @ sg \<and>
        b64_decode b64_url sg = Some (cr_hmac cr (ti_secret ti) (hd @ ''.'' @ p)) \<and>
        Option.bind (b64_decode b64_url p) (cr_unmarshal cr) = Some c' \<and>
        Unix now \<le> cl_ExpiresAt c' \<and> cl_Issuer c' = ti_issuer ti \<and>
        sharedAuth cr ti now h q e = h (q\<lparr>rq_accountID := cl_AccountID c'\<rparr>) e))"
proof -
  note V = verify_issued [OF assms(1,2), of now]
  have other: "sharedAuth cr ti now h q e = (answer 401, e) \<or>
     (\<exists>hd p sg c'. rq_Authorization q = bearer_prefix @ hd @ ''.'' @ p @ ''.'' @ sg \<and>
        b64_decode b64_url sg = Some (cr_hmac cr (ti_secret ti) (hd @ ''.'' @ p)) \<and>
        Option.bind (b64_decode b64_url p) (cr_unmarshal cr) = Some c' \<and>
        Unix now \<le> cl_ExpiresAt c' \<and> cl_Issuer c' = ti_issuer ti \<and>
        sharedAuth cr ti now h q e = h (q\<lparr>rq_accountID := cl_AccountID c'\<rparr>) e)"
  proof (cases "HasPrefix (rq_Authorization q) bearer_prefix")
    case True
    then obtain t where t: "rq_Authorization q = bearer_prefix @ t" using HasPrefix_split by blast
    show ?thesis
    proof (cases "VerifyAccessToken cr ti now t")
      case (Inr c')
      show ?thesis using verify_signed [OF Inr] by (auto simp: t sharedAuth_bearer [OF t] Inr)
    qed (simp add: sharedAuth_bearer [OF t])
  qed (simp add: sharedAuth_def)
  show ?thesis
    using V other
    by (simp add: sharedAuth_bearer [OF assms(3)] sharedOptAuth_bearer [OF assms(3)] canary_account_bearer [OF assms(3)])
qed

definition demo_request :: request where
  "demo_request = \<lparr>rq_Method = ''GET'', rq_Path = ''/api/v1/me'',
     rq_Authorization = bearer_prefix @ fst (IssueAccessToken demo_crypto demo_issuer 0 ''acc-0001'' ''dev''),
     rq_roomID = [], rq_accountID = []\<rparr>"

definition demo_edge :: "nat edge" where
  "demo_edge = \<lparr>ed_rollout = demo_rollout, ed_bus = NewBus, ed_log = [], ed_app = 0\<rparr>"

definition demo_route :: "nat handler" where
  "demo_route = (\<lambda>r e. (answer (int (length (rq_accountID r))), e\<lparr>ed_app := Suc (ed_app e)\<rparr>))"

lemma demo_issued:
  "IssueAccessToken demo_crypto demo_issuer 0 ''acc-0001'' ''dev'' =
     (fst (IssueAccessToken demo_crypto demo_issuer 0 ''acc-0001'' ''dev''), demo_claims)"
  by (simp add: IssueAccessToken_def demo_claims_def demo_issuer_def Let_def)

lemma bearer_gate_witness:
  "sharedAuth demo_crypto demo_issuer (10 * minute) demo_route demo_request demo_edge =
     (answer 8, demo_edge\<lparr>ed_app := 1\<rparr>) \<and>
   sharedAuth demo_crypto demo_issuer (20 * minute) demo_route demo_request demo_edge = (answer 401, demo_edge)"
proof -
  have u: "cr_unmarshal demo_crypto (cr_marshal demo_crypto demo_claims) = Some demo_claims"
    by (simp add: demo_crypto_def)
  have q: "rq_Authorization demo_request = bearer_prefix @ fst (IssueAccessToken demo_crypto demo_issuer 0 ''acc-0001'' ''dev'')"
    by (simp add: demo_request_def)
  note G = bearer_gate [OF demo_issued u q, where h = demo_route and e = demo_edge and q = demo_request]
  have "\<not> Unix (20 * minute) \<le> Unix (0 + ti_accessTTL demo_issuer)" "Unix (10 * minute) \<le> Unix (0 + ti_accessTTL demo_issuer)"
    by (simp_all add: Unix_def demo_issuer_def)
  then show ?thesis
    using G [of "10 * minute"] G [of "20 * minute"] by (simp add: demo_route_def demo_request_def demo_edge_def)
qed


section \<open>Every request is answered and counted\<close>

lemma foldr_server:
  "server cr ti now latency mux =
     requestLogger (canaryMetricsMiddleware cr ti now latency (corsMiddleware mux))"
  by (simp add: server_def chain_def)

lemma record_metric_simps [simp]:
  "ed_app (record_metric e m) = ed_app e" "ed_bus (record_metric e m) = ed_bus e" "ed_log (record_metric e m) = ed_log e"
  "ro_metrics (ed_rollout (record_metric e m)) = metric_do (ro_metrics (ed_rollout e)) m"
  "ro_flags (ed_rollout (record_metric e m)) = ro_flags (ed_rollout e)"
  by (simp_all add: record_metric_def)

lemma requestLogger_keeps:
  "requestLogger h r e = (rn, e') \<Longrightarrow>
   \<exists>e1. h r e = (rn, e1) \<and> ed_app e' = ed_app e1 \<and> ed_rollout e' = ed_rollout e1 \<and> ed_bus e' = ed_bus e1 \<and>
     (\<not> rn_panic rn \<longrightarrow> HasPrefix (rq_Path r) ''/api/'' \<longrightarrow> ed_log e' = ed_log e1 @ [(rq_Method r, rq_Path r, writer_status rn)])"
  by (auto simp: requestLogger_def Let_def split: prod.splits if_splits)

text \<open>What the canary middleware makes of the run of the route.\<close>

definition settled :: "run \<Rightarrow> run" where
  "settled rn =
     (if rn_panic rn then \<lparr>rn_headers = rn_headers rn @ (if writer_status rn = 200 then [500] else []), rn_panic = False\<rparr> else rn)"

lemma settled_no_panic [simp]: "\<not> rn_panic (settled rn)"
  by (simp add: settled_def)

lemma settled_client:
  "client_status (settled rn) = (if rn_panic rn \<and> rn_headers rn = [] then 500 else client_status rn)"
  by (auto simp: settled_def client_status_def writer_status_def split: list.splits)

definition request_events :: "cohort \<Rightarrow> run \<Rightarrow> duration \<Rightarrow> metric_event list" where
  "request_events c rn latency = (if rn_panic rn then [MPanic c] else []) @ [MRequest c (writer_status (settled rn)) latency]"

lemma canary_effect:
  assumes "h r e = (rn0, e0)"
  shows "canaryMetricsMiddleware cr ti now latency h r e =
    (settled rn0, foldl record_metric e0 (request_events (CohortFor (ed_rollout e) (canary_account cr ti now r)) rn0 latency))"
  by (simp add: canaryMetricsMiddleware_def assms settled_def request_events_def Let_def)

lemma foldl_record_metric [simp]:
  "ed_app (foldl record_metric e ms) = ed_app e" "ed_bus (foldl record_metric e ms) = ed_bus e"
  "ed_log (foldl record_metric e ms) = ed_log e"
  "ro_metrics (ed_rollout (foldl record_metric e ms)) = foldl metric_do (ro_metrics (ed_rollout e)) ms"
  by (induction ms arbitrary: e) simp_all

text \<open>C35: Every request is answered, once, and counted, once. Whatever the routes do, a panic does not get past the
  edge: the server returns, with the answer of the route if that did not panic, and with status 500 if it
  panicked before it wrote anything. A CORS preflight is answered 204 without running any route. The state of
  the application is as the route left it, and the metrics gain exactly the request, with the status last
  written, in the cohort of the account the request carries, and the panic if there was one.\<close>

theorem every_request_counted:
  assumes "server cr ti now latency mux r e = (rn, e')"
    and "(rn0, e0) = (if rq_Method r = ''OPTIONS'' then (answer 204, e) else mux r e)"
  shows "\<not> rn_panic rn \<and>
    client_status rn = (if rn_panic rn0 \<and> rn_headers rn0 = [] then 500 else client_status rn0) \<and>
    ed_app e' = ed_app e0 \<and> ed_bus e' = ed_bus e0 \<and>
    ro_metrics (ed_rollout e') =
      foldl metric_do (ro_metrics (ed_rollout e0))
        ((if rn_panic rn0 then [MPanic (CohortFor (ed_rollout e) (canary_account cr ti now r))] else []) @
         [MRequest (CohortFor (ed_rollout e) (canary_account cr ti now r)) (writer_status rn) latency])"
proof -
  have cors: "corsMiddleware mux r e = (rn0, e0)" using assms(2) by (simp add: corsMiddleware_def)
  obtain e1 where e1: "canaryMetricsMiddleware cr ti now latency (corsMiddleware mux) r e = (rn, e1)"
    "ed_app e' = ed_app e1" "ed_rollout e' = ed_rollout e1" "ed_bus e' = ed_bus e1"
    using requestLogger_keeps assms(1) unfolding foldr_server by metis
  note C = canary_effect [where h = "corsMiddleware mux" and r = r and e = e, OF cors, of cr ti now latency]
  have rn: "rn = settled rn0" using e1(1) unfolding C by simp
  have ev: "e1 = foldl record_metric e0 (request_events (CohortFor (ed_rollout e) (canary_account cr ti now r)) rn0 latency)"
    using e1(1) unfolding C by simp
  show ?thesis
    unfolding e1(2-4) rn ev by (simp add: settled_client request_events_def)
qed

text \<open>A route that breaks after the status 404, and the same before any status.\<close>

definition broken_route :: "int list \<Rightarrow> nat handler" where
  "broken_route hs = (\<lambda>r e. (\<lparr>rn_headers = hs, rn_panic = True\<rparr>, e))"

lemma every_request_counted_witness:
  "\<exists>rn e'. server demo_crypto demo_issuer (20 * minute) 7 (broken_route []) demo_request demo_edge = (rn, e') \<and>
     client_status rn = 500 \<and> \<not> rn_panic rn \<and>
     ro_metrics (ed_rollout e') = foldl metric_do NewMemMetricsRepo
       [MPanic (CohortFor demo_rollout (canary_account demo_crypto demo_issuer (20 * minute) demo_request)),
        MRequest (CohortFor demo_rollout (canary_account demo_crypto demo_issuer (20 * minute) demo_request)) (writer_status rn) 7]"
proof -
  obtain rn e' where s: "server demo_crypto demo_issuer (20 * minute) 7 (broken_route []) demo_request demo_edge = (rn, e')"
    by (cases "server demo_crypto demo_issuer (20 * minute) 7 (broken_route []) demo_request demo_edge")
  have m: "(\<lparr>rn_headers = [], rn_panic = True\<rparr>, demo_edge) =
      (if rq_Method demo_request = ''OPTIONS'' then (answer 204, demo_edge) else broken_route [] demo_request demo_edge)"
    by (simp add: demo_request_def broken_route_def)
  have "ed_rollout demo_edge = demo_rollout" "ro_metrics demo_rollout = NewMemMetricsRepo"
    by (simp_all add: demo_edge_def demo_rollout_def)
  then show ?thesis
    using every_request_counted [OF s m] s by (intro exI [of _ rn] exI [of _ e'] conjI) simp_all
qed

text \<open>A panic after another status than 200 is counted as a crash but not among the errors, and a gift route that
  panics is not counted as a gift attempt.\<close>

lemma late_crash_is_no_error:
  assumes "canaryMetricsMiddleware cr ti now latency (broken_route [404]) r e = (rn, e')"
  shows "client_status rn = 404 \<and> mx_errors (ro_metrics (ed_rollout e')) = mx_errors (ro_metrics (ed_rollout e))"
proof -
  have "broken_route [404] r e = (\<lparr>rn_headers = [404], rn_panic = True\<rparr>, e)" by (simp add: broken_route_def)
  from canary_effect [where h = "broken_route [404]" and r = r and e = e, OF this, of cr ti now latency] show ?thesis
    using assms by (simp add: settled_def request_events_def writer_status_def client_status_def RecordPanic_def)
qed

lemma crashed_gift_uncounted:
  "recordGiftAttempt (broken_route hs) r e = (\<lparr>rn_headers = hs, rn_panic = True\<rparr>, e)"
  by (simp add: recordGiftAttempt_def broken_route_def Let_def)

end
