(* ===== verification/Streaming.thy ===== *)
theory Streaming
  imports Complex_Main Moderation "HOL-Library.Char_ord" "HOL-Library.List_Lexorder"
begin

text \<open>
  Broadcast sessions: the in-memory store, the ingest and packager mocks (\<open>streaming/streaming.go\<close>,
  \<open>streaming/mem_impl.go\<close>), the broadcast service with its health monitor and the consumer of the
  classifier's results (\<open>streaming/service.go\<close>), the HTTP handlers (\<open>streaming/handlers/handlers.go\<close>) and
  the hook of \<open>main.go\<close> that tells the moderation module of a termination. A goroutine that monitors a
  session is an entry of \<open>sw_monitors\<close>; each tick of its two tickers is an operation. The signal of the
  mock encoder (sines in floating point) is an argument; a \<open>float64\<close> is a rational number. One clock
  reading per call.
\<close>

section \<open>Data\<close>

datatype stream_state =
    StreamScheduled | StreamConnecting | StreamLive | StreamPaused | StreamReconnecting | StreamEnded | StreamTerminated

datatype stream_error =
    ErrStreamNotFound
  | ErrOnlyHostEnds
  | ErrTokenGeneration
  | StreamNilDereference     \<comment> \<open>the run-time panic\<close>

record stream_health =
  sh_BitrateKbps :: int
  sh_FPS :: rat
  sh_DroppedFrames :: int
  sh_RTTMs :: int
  sh_Quality :: string
  sh_UpdatedAt :: time

record stream_session =
  sn_ID :: string
  sn_RoomID :: string
  sn_HostID :: string
  sn_State :: stream_state
  sn_IngestNode :: string
  sn_StreamKeyID :: string
  sn_PlaybackURL :: string
  sn_StartedAt :: "time option"
  sn_EndedAt :: "time option"
  sn_EndReason :: string
  sn_PeakViewers :: int
  sn_Health :: "stream_health option"

record ingest_credentials =
  cr_SessionID :: string
  cr_IngestURL :: string
  cr_StreamKey :: string
  cr_ExpiresAt :: time

record rendition =
  re_Name :: string
  re_VideoBitrate :: int
  re_AudioBitrate :: int
  re_Codec :: string

definition DefaultLadder :: "rendition list" where
  "DefaultLadder =
     [\<lparr>re_Name = ''1080p'', re_VideoBitrate = 4500, re_AudioBitrate = 192, re_Codec = ''h264''\<rparr>,
      \<lparr>re_Name = ''720p'', re_VideoBitrate = 2500, re_AudioBitrate = 128, re_Codec = ''h264''\<rparr>,
      \<lparr>re_Name = ''480p'', re_VideoBitrate = 1200, re_AudioBitrate = 96, re_Codec = ''h264''\<rparr>,
      \<lparr>re_Name = ''360p'', re_VideoBitrate = 600, re_AudioBitrate = 96, re_Codec = ''h264''\<rparr>,
      \<lparr>re_Name = ''144p'', re_VideoBitrate = 200, re_AudioBitrate = 64, re_Codec = ''h264''\<rparr>]"

datatype classifier_action = ClassifierNone | ClassifierWarn | ClassifierTerminate

record moderation_result =
  mr_SessionID :: string
  mr_Classes :: "(string \<times> rat) list"      \<comment> \<open>label, confidence\<close>
  mr_Action :: classifier_action

section \<open>The in-memory store\<close>

record mem_sessions =
  mss_seq :: nat
  mss_sessions :: "(string \<times> stream_session) list"
  mss_byRoom :: "(string \<times> string) list"

definition NewMemSessionRepo :: mem_sessions where
  "NewMemSessionRepo = \<lparr>mss_seq = 0, mss_sessions = [], mss_byRoom = []\<rparr>"

definition MemCreateSession :: "mem_sessions \<Rightarrow> stream_session \<Rightarrow> stream_session \<times> mem_sessions" where
  "MemCreateSession r s =
     (let n = Suc (mss_seq r); s = s\<lparr>sn_ID := ''ss-'' @ dec04 n\<rparr>
      in (s, \<lparr>mss_seq = n, mss_sessions = AList.update (sn_ID s) s (mss_sessions r),
              mss_byRoom = AList.update (sn_RoomID s) (sn_ID s) (mss_byRoom r)\<rparr>))"

definition StreamGet :: "mem_sessions \<Rightarrow> string \<Rightarrow> stream_error + stream_session" where
  "StreamGet r i = (case map_of (mss_sessions r) i of None \<Rightarrow> Inl ErrStreamNotFound | Some s \<Rightarrow> Inr s)"

definition GetByRoom :: "mem_sessions \<Rightarrow> string \<Rightarrow> stream_error + stream_session" where
  "GetByRoom r roomID =
     (case map_of (mss_byRoom r) roomID of
        None \<Rightarrow> Inl ErrStreamNotFound
      | Some i \<Rightarrow> (case map_of (mss_sessions r) i of None \<Rightarrow> Inl StreamNilDereference | Some s \<Rightarrow> Inr s))"

definition GetActive :: "mem_sessions \<Rightarrow> stream_session list" where
  "GetActive r = filter (\<lambda>s. sn_State s = StreamLive \<or> sn_State s = StreamReconnecting) (map snd (mss_sessions r))"

definition ListByHost :: "mem_sessions \<Rightarrow> string \<Rightarrow> stream_session list" where
  "ListByHost r hostID = rev (sort_key sn_ID (filter (\<lambda>s. sn_HostID s = hostID) (map snd (mss_sessions r))))"

definition ListAllSessions :: "mem_sessions \<Rightarrow> stream_session list" where
  "ListAllSessions r = map snd (mss_sessions r)"

definition on_session :: "mem_sessions \<Rightarrow> string \<Rightarrow> (stream_session \<Rightarrow> stream_session) \<Rightarrow> stream_error option \<times> mem_sessions" where
  "on_session r i f =
     (case map_of (mss_sessions r) i of
        None \<Rightarrow> (Some ErrStreamNotFound, r)
      | Some s \<Rightarrow> (None, r\<lparr>mss_sessions := AList.update i (f s) (mss_sessions r)\<rparr>))"

definition set_state :: "time \<Rightarrow> stream_state \<Rightarrow> string \<Rightarrow> stream_session \<Rightarrow> stream_session" where
  "set_state now state reason s =
     (let s = s\<lparr>sn_State := state\<rparr>;
          s = (if state = StreamLive \<and> sn_StartedAt s = None then s\<lparr>sn_StartedAt := Some now\<rparr> else s)
      in if (state = StreamEnded \<or> state = StreamTerminated) \<and> sn_EndedAt s = None
         then s\<lparr>sn_EndedAt := Some now, sn_EndReason := reason\<rparr> else s)"

definition UpdateState :: "mem_sessions \<Rightarrow> time \<Rightarrow> string \<Rightarrow> stream_state \<Rightarrow> string \<Rightarrow> stream_error option \<times> mem_sessions" where
  "UpdateState r now i state reason = on_session r i (set_state now state reason)"

definition UpdateHealth :: "mem_sessions \<Rightarrow> string \<Rightarrow> stream_health \<Rightarrow> stream_error option \<times> mem_sessions" where
  "UpdateHealth r i h = on_session r i (\<lambda>s. s\<lparr>sn_Health := Some h\<rparr>)"

definition EndSessionRecord :: "mem_sessions \<Rightarrow> time \<Rightarrow> string \<Rightarrow> string \<Rightarrow> stream_error option \<times> mem_sessions" where
  "EndSessionRecord r now i reason = UpdateState r now i StreamEnded reason"

definition UpdatePlaybackURL :: "mem_sessions \<Rightarrow> string \<Rightarrow> string \<Rightarrow> stream_error option \<times> mem_sessions" where
  "UpdatePlaybackURL r i url = on_session r i (\<lambda>s. s\<lparr>sn_PlaybackURL := url\<rparr>)"

section \<open>The mocks of the media servers\<close>

text \<open>\<open>hex.EncodeToString\<close>.\<close>

definition hex_digit :: "nat \<Rightarrow> char" where
  "hex_digit n = (if n < 10 then char_of (48 + n) else char_of (87 + n))"

definition hex :: "string \<Rightarrow> string" where
  "hex bytes = concat (map (\<lambda>c. [hex_digit (of_char c div 16), hex_digit (of_char c mod 16)]) bytes)"

type_synonym ingest = "(string \<times> time) list"      \<comment> \<open>session, started at\<close>

text \<open>The 32 random bytes of the token are \<open>None\<close> when the random source fails; the 8 bytes of the key are taken
  as they come.\<close>

definition IssueCredentials :: "ingest \<Rightarrow> time \<Rightarrow> string option \<Rightarrow> string \<Rightarrow> string \<Rightarrow> string \<Rightarrow>
    (stream_error + ingest_credentials) \<times> ingest" where
  "IssueCredentials d now token key sessionID region =
     (case token of
        None \<Rightarrow> (Inl ErrTokenGeneration, d)
      | Some t \<Rightarrow>
          (Inr \<lparr>cr_SessionID = sessionID,
                cr_IngestURL = ''wss://ingest-'' @ region @ ''.lumena.live/whip/'' @ hex t,
                cr_StreamKey = hex key, cr_ExpiresAt = now + 5 * minute\<rparr>,
           AList.update sessionID now d))"

text \<open>The signal of the mock after an uptime: \<open>int(2800 + 400*sin)\<close> and so on.\<close>

record dev_signal =
  ds_bitrate :: "duration \<Rightarrow> int"
  ds_fps :: "duration \<Rightarrow> rat"
  ds_rtt :: "duration \<Rightarrow> int"

definition IngestGetHealth :: "dev_signal \<Rightarrow> ingest \<Rightarrow> time \<Rightarrow> string \<Rightarrow> stream_error + stream_health" where
  "IngestGetHealth sig d now sessionID =
     (case map_of d sessionID of
        None \<Rightarrow> Inl ErrStreamNotFound
      | Some startedAt \<Rightarrow>
          (let uptime = now - startedAt; bitrate = ds_bitrate sig uptime; rtt = ds_rtt sig uptime;
               quality = ''good'';
               quality = (if bitrate < 1500 \<or> 200 < rtt then ''degraded'' else quality);
               quality = (if bitrate < 800 \<or> 500 < rtt then ''poor'' else quality)
           in Inr \<lparr>sh_BitrateKbps = bitrate, sh_FPS = ds_fps sig uptime, sh_DroppedFrames = 0, sh_RTTMs = rtt,
                   sh_Quality = quality, sh_UpdatedAt = now\<rparr>))"

definition IngestTerminate :: "ingest \<Rightarrow> string \<Rightarrow> ingest" where
  "IngestTerminate d sessionID = AList.delete sessionID d"

definition PackagerPlaybackURL :: "string \<Rightarrow> string" where
  "PackagerPlaybackURL sessionID = ''https://edge.lumena.live/hls/'' @ sessionID @ ''/master.m3u8''"


section \<open>The broadcast service\<close>

text \<open>\<open>sw_subs\<close> are the health channels with what they buffer (capacity 10), \<open>sw_monitors\<close> the running health
  monitors, each with whether its first health tick has come, and \<open>sw_frames\<close> the sessions of the frames
  that have been submitted to the classifier.\<close>

record stream_world =
  sw_sessions :: mem_sessions
  sw_ingest :: ingest
  sw_subs :: "(string \<times> stream_health list) list"
  sw_monitors :: "(string \<times> bool) list"
  sw_frames :: "string list"
  sw_mod :: mod_world

definition new_session :: "string \<Rightarrow> string \<Rightarrow> string \<Rightarrow> stream_session" where
  "new_session roomID hostID region =
     \<lparr>sn_ID = [], sn_RoomID = roomID, sn_HostID = hostID, sn_State = StreamConnecting, sn_IngestNode = region,
      sn_StreamKeyID = [], sn_PlaybackURL = [], sn_StartedAt = None, sn_EndedAt = None, sn_EndReason = [],
      sn_PeakViewers = 0, sn_Health = None\<rparr>"

definition StartBroadcast :: "stream_world \<Rightarrow> time \<Rightarrow> string option \<Rightarrow> string \<Rightarrow> string \<Rightarrow> string \<Rightarrow> string \<Rightarrow>
    (stream_error + stream_session \<times> ingest_credentials) \<times> stream_world" where
  "StartBroadcast w now token key roomID hostID region =
     (let (sess, r) = MemCreateSession (sw_sessions w) (new_session roomID hostID region)
      in case IssueCredentials (sw_ingest w) now token key (sn_ID sess) region of
           (Inl err, d) \<Rightarrow>
             (Inl err, w\<lparr>sw_sessions := snd (EndSessionRecord r now (sn_ID sess) ''credential_issue_failed''), sw_ingest := d\<rparr>)
         | (Inr creds, d) \<Rightarrow>
             (let playbackURL = PackagerPlaybackURL (sn_ID sess)
              in (Inr (sess\<lparr>sn_PlaybackURL := playbackURL\<rparr>, creds),
                  w\<lparr>sw_sessions := snd (UpdatePlaybackURL r (sn_ID sess) playbackURL), sw_ingest := d,
                     sw_monitors := AList.update (sn_ID sess) False (sw_monitors w)\<rparr>)))"

definition SessionLive :: "stream_world \<Rightarrow> time \<Rightarrow> string \<Rightarrow> stream_error option \<times> stream_world" where
  "SessionLive w now sessionID =
     (let (err, r) = UpdateState (sw_sessions w) now sessionID StreamLive [] in (err, w\<lparr>sw_sessions := r\<rparr>))"

definition cleanupHealthSub :: "stream_world \<Rightarrow> string \<Rightarrow> stream_world" where
  "cleanupHealthSub w sessionID = w\<lparr>sw_subs := AList.delete sessionID (sw_subs w)\<rparr>"

definition EndBroadcast :: "stream_world \<Rightarrow> time \<Rightarrow> string \<Rightarrow> string \<Rightarrow> stream_error option \<times> stream_world" where
  "EndBroadcast w now sessionID hostID =
     (case StreamGet (sw_sessions w) sessionID of
        Inl err \<Rightarrow> (Some ErrStreamNotFound, w)
      | Inr sess \<Rightarrow>
          if sn_HostID sess \<noteq> hostID then (Some ErrOnlyHostEnds, w)
          else
            (let w = cleanupHealthSub (w\<lparr>sw_ingest := IngestTerminate (sw_ingest w) sessionID\<rparr>) sessionID;
                 (err, r) = EndSessionRecord (sw_sessions w) now sessionID ''host_ended''
             in (err, w\<lparr>sw_sessions := r\<rparr>)))"

definition TerminateBroadcast :: "stream_world \<Rightarrow> time \<Rightarrow> string \<Rightarrow> string \<Rightarrow> stream_error option \<times> stream_world" where
  "TerminateBroadcast w now sessionID ruleID =
     (let w = cleanupHealthSub (w\<lparr>sw_ingest := IngestTerminate (sw_ingest w) sessionID\<rparr>) sessionID;
          (err, r) = UpdateState (sw_sessions w) now sessionID StreamTerminated (''moderation:'' @ ruleID)
      in (err, w\<lparr>sw_sessions := r\<rparr>))"

definition GetStreamSession :: "stream_world \<Rightarrow> string \<Rightarrow> stream_error + stream_session" where
  "GetStreamSession w roomID = GetByRoom (sw_sessions w) roomID"

definition GetStreamHealth :: "dev_signal \<Rightarrow> stream_world \<Rightarrow> time \<Rightarrow> string \<Rightarrow> stream_error + stream_health" where
  "GetStreamHealth sig w now sessionID = IngestGetHealth sig (sw_ingest w) now sessionID"

definition SubscribeHealth :: "stream_world \<Rightarrow> string \<Rightarrow> stream_world" where
  "SubscribeHealth w sessionID = w\<lparr>sw_subs := AList.update sessionID [] (sw_subs w)\<rparr>"

text \<open>The two tickers of \<open>monitorHealth\<close>, every 5 and every 10 seconds. A tick for a monitor that has returned does
  nothing.\<close>

definition stop_monitor :: "stream_world \<Rightarrow> string \<Rightarrow> stream_world" where
  "stop_monitor w sessionID = w\<lparr>sw_monitors := AList.delete sessionID (sw_monitors w)\<rparr>"

definition health_tick :: "dev_signal \<Rightarrow> stream_world \<Rightarrow> time \<Rightarrow> string \<Rightarrow> stream_world" where
  "health_tick sig w now sessionID =
     (if map_of (sw_monitors w) sessionID = None then w
      else
        (case IngestGetHealth sig (sw_ingest w) now sessionID of
           Inl err \<Rightarrow> stop_monitor w sessionID
         | Inr health \<Rightarrow>
             (let w = w\<lparr>sw_sessions := snd (UpdateHealth (sw_sessions w) sessionID health),
                        sw_monitors := AList.update sessionID True (sw_monitors w)\<rparr>
              in case map_of (sw_subs w) sessionID of
                   None \<Rightarrow> stop_monitor w sessionID
                 | Some ch \<Rightarrow>
                     if length ch < 10 then w\<lparr>sw_subs := AList.update sessionID (ch @ [health]) (sw_subs w)\<rparr> else w)))"

definition frame_tick :: "stream_world \<Rightarrow> string \<Rightarrow> stream_world" where
  "frame_tick w sessionID =
     (if map_of (sw_monitors w) sessionID = None then w
      else
        (case StreamGet (sw_sessions w) sessionID of
           Inl err \<Rightarrow> stop_monitor w sessionID
         | Inr sess \<Rightarrow>
             if sn_State sess = StreamEnded \<or> sn_State sess = StreamTerminated then stop_monitor w sessionID
             else w\<lparr>sw_frames := sw_frames w @ [sessionID]\<rparr>))"

definition classToRuleID :: "string \<Rightarrow> string" where
  "classToRuleID label =
     (if label = ''csam'' then ''CS-01'' else if label = ''explicit'' then ''SX-01''
      else if label = ''violence'' then ''VL-01'' else ''CS-01'')"

text \<open>The \<open>float64\<close> nearest to 0.9.\<close>

definition confidence_threshold :: rat where
  "confidence_threshold = 8106479329266893 / 9007199254740992"

definition result_rule :: "moderation_result \<Rightarrow> string" where
  "result_rule result =
     fold (\<lambda>(label, confidence) ruleID.
         if label \<noteq> ''safe'' \<and> confidence_threshold < confidence then classToRuleID label else ruleID)
       (mr_Classes result) ''CS-01''"

text \<open>One turn of \<open>handleModerationResults\<close>, with the hook of \<open>main.go\<close>.\<close>

definition handle_result :: "stream_world \<Rightarrow> time \<Rightarrow> moderation_result \<Rightarrow> stream_world" where
  "handle_result w now result =
     (if mr_Action result \<noteq> ClassifierTerminate then w
      else
        (let ruleID = result_rule result;
             hostID = (case StreamGet (sw_sessions w) (mr_SessionID result) of Inl err \<Rightarrow> [] | Inr sess \<Rightarrow> sn_HostID sess);
             w = snd (TerminateBroadcast w now (mr_SessionID result) ruleID)
         in if hostID \<noteq> []
            then w\<lparr>sw_mod := RecordAutoTermination (sw_mod w) now hostID (mr_SessionID result) ruleID\<rparr>
            else w))"

section \<open>The HTTP handlers\<close>

text \<open>A body that does not decode is \<open>None\<close>. The answer is the status and what the JSON carries.\<close>

datatype stream_reply =
    ReplyError
  | ReplyStarted stream_session ingest_credentials "rendition list"
  | ReplyStream string string stream_state string "stream_health option"   \<comment> \<open>session, room, state, playback URL, health\<close>
  | ReplyHealth stream_health
  | ReplyNothing

definition HandleStartBroadcast :: "stream_world \<Rightarrow> time \<Rightarrow> string option \<Rightarrow> string \<Rightarrow> string \<Rightarrow> (string \<times> string) option \<Rightarrow>
    (int \<times> stream_reply) \<times> stream_world" where
  "HandleStartBroadcast w now token key accountID body =
     (if accountID = [] then ((401, ReplyError), w)
      else case body of
        None \<Rightarrow> ((400, ReplyError), w)
      | Some (roomID, region) \<Rightarrow>
          if roomID = [] then ((400, ReplyError), w)
          else
            (let region = (if region = [] then ''us-east'' else region)
             in case StartBroadcast w now token key roomID accountID region of
                  (Inl err, w) \<Rightarrow> ((500, ReplyError), w)
                | (Inr (sess, creds), w) \<Rightarrow> ((201, ReplyStarted sess creds DefaultLadder), w)))"

definition HandleEndBroadcast :: "stream_world \<Rightarrow> time \<Rightarrow> string \<Rightarrow> string \<Rightarrow> (int \<times> stream_reply) \<times> stream_world" where
  "HandleEndBroadcast w now accountID sessionID =
     (if accountID = [] then ((401, ReplyError), w)
      else if sessionID = [] then ((400, ReplyError), w)
      else case EndBroadcast w now sessionID accountID of
        (Some err, w) \<Rightarrow> if err = ErrStreamNotFound then ((404, ReplyError), w) else ((403, ReplyError), w)
      | (None, w) \<Rightarrow> ((204, ReplyNothing), w))"

definition HandleGetStream :: "stream_world \<Rightarrow> string \<Rightarrow> int \<times> stream_reply" where
  "HandleGetStream w roomID =
     (if roomID = [] then (400, ReplyError)
      else case GetStreamSession w roomID of
        Inl err \<Rightarrow> if err = ErrStreamNotFound then (404, ReplyError) else (500, ReplyError)
      | Inr sess \<Rightarrow> (200, ReplyStream (sn_ID sess) (sn_RoomID sess) (sn_State sess) (sn_PlaybackURL sess) (sn_Health sess)))"

definition HandleGetHealth :: "dev_signal \<Rightarrow> stream_world \<Rightarrow> time \<Rightarrow> string \<Rightarrow> string \<Rightarrow> int \<times> stream_reply" where
  "HandleGetHealth sig w now accountID sessionID =
     (if accountID = [] then (401, ReplyError)
      else case GetStreamHealth sig w now sessionID of
        Inl err \<Rightarrow> if err = ErrStreamNotFound then (404, ReplyError) else (500, ReplyError)
      | Inr health \<Rightarrow> (200, ReplyHealth health))"


section \<open>Calls in sequence\<close>

datatype stream_call =
    CallStart "string option" string string string string    \<comment> \<open>random bytes, key bytes, room, host, region\<close>
  | CallLive string
  | CallEnd string string                                      \<comment> \<open>session, host\<close>
  | CallTerminate string string                                \<comment> \<open>session, rule\<close>
  | CallSubscribe string
  | HealthTick string
  | FrameTick string
  | ClassifierResult moderation_result

fun stream_do :: "dev_signal \<Rightarrow> stream_world \<Rightarrow> time \<times> stream_call \<Rightarrow> stream_world" where
  "stream_do sig w (now, CallStart token key room host region) = snd (StartBroadcast w now token key room host region)"
| "stream_do sig w (now, CallLive i) = snd (SessionLive w now i)"
| "stream_do sig w (now, CallEnd i host) = snd (EndBroadcast w now i host)"
| "stream_do sig w (now, CallTerminate i rule) = snd (TerminateBroadcast w now i rule)"
| "stream_do sig w (now, CallSubscribe i) = SubscribeHealth w i"
| "stream_do sig w (now, HealthTick i) = health_tick sig w now i"
| "stream_do sig w (now, FrameTick i) = frame_tick w i"
| "stream_do sig w (now, ClassifierResult r) = handle_result w now r"

definition stream_run :: "dev_signal \<Rightarrow> stream_world \<Rightarrow> (time \<times> stream_call) list \<Rightarrow> stream_world" where
  "stream_run sig w cs = foldl (stream_do sig) w cs"

definition stream_start :: "mod_world \<Rightarrow> stream_world" where
  "stream_start m = \<lparr>sw_sessions = NewMemSessionRepo, sw_ingest = [], sw_subs = [], sw_monitors = [], sw_frames = [], sw_mod = m\<rparr>"

text \<open>Every operation changes the store by creating a session, or by rewriting one session.\<close>

definition kept_by :: "(stream_session \<Rightarrow> stream_session) \<Rightarrow> bool" where
  "kept_by f \<longleftrightarrow>
     (\<forall>s. sn_ID (f s) = sn_ID s \<and> sn_RoomID (f s) = sn_RoomID s \<and> sn_HostID (f s) = sn_HostID s \<and>
        sn_IngestNode (f s) = sn_IngestNode s \<and>
        (\<forall>t. sn_StartedAt s = Some t \<longrightarrow> sn_StartedAt (f s) = Some t) \<and>
        (\<forall>t. sn_EndedAt s = Some t \<longrightarrow> sn_EndedAt (f s) = Some t \<and> sn_EndReason (f s) = sn_EndReason s))"

lemma kept_by_simps [simp]: "kept_by (set_state now st reason)" "kept_by (\<lambda>s. s\<lparr>sn_Health := h\<rparr>)" "kept_by (\<lambda>s. s\<lparr>sn_PlaybackURL := url\<rparr>)"
  by (simp_all add: kept_by_def set_state_def Let_def)

inductive store_step :: "mem_sessions \<Rightarrow> mem_sessions \<Rightarrow> bool" where
  same: "store_step r r"
| create: "MemCreateSession r s = (s', r') \<Longrightarrow> store_step r r'"
| rewrite: "on_session r i f = (err, r') \<Longrightarrow> kept_by f \<Longrightarrow> store_step r r'"

inductive store_steps :: "mem_sessions \<Rightarrow> mem_sessions \<Rightarrow> bool" where
  none: "store_steps r r"
| more: "store_step r r' \<Longrightarrow> store_steps r' r'' \<Longrightarrow> store_steps r r''"

lemma store_steps_one: "store_step r r' \<Longrightarrow> store_steps r r'"
  by (blast intro: store_steps.intros)

lemma store_steps_trans: "store_steps r r' \<Longrightarrow> store_steps r' r'' \<Longrightarrow> store_steps r r''"
  by (induction rule: store_steps.induct) (auto intro: store_steps.intros)

lemma store_rewrites:
  "store_step r (snd (UpdateState r now i st reason))" "store_step r (snd (EndSessionRecord r now i reason))"
  "store_step r (snd (UpdateHealth r i h))" "store_step r (snd (UpdatePlaybackURL r i url))"
  unfolding EndSessionRecord_def UpdateState_def UpdateHealth_def UpdatePlaybackURL_def
  by (rule store_step.rewrite [OF prod.collapse [symmetric]]; simp)+

lemma StartBroadcast_store: "store_steps (sw_sessions w) (sw_sessions (snd (StartBroadcast w now token key room host region)))"
proof -
  obtain s r where c: "MemCreateSession (sw_sessions w) (new_session room host region) = (s, r)" by fastforce
  show ?thesis
    using store_steps.more [OF store_step.create [OF c] store_steps_one [OF store_rewrites(2)]]
      store_steps.more [OF store_step.create [OF c] store_steps_one [OF store_rewrites(4)]]
    by (cases token) (simp_all add: StartBroadcast_def c IssueCredentials_def Let_def)
qed

lemma TerminateBroadcast_store:
  "sw_sessions (snd (TerminateBroadcast w now i rule)) = snd (UpdateState (sw_sessions w) now i StreamTerminated (''moderation:'' @ rule))"
  by (simp add: TerminateBroadcast_def cleanupHealthSub_def Let_def split: prod.split)

lemma stream_do_store: "store_steps (sw_sessions w) (sw_sessions (stream_do sig w c))"
proof (cases "(sig, w, c)" rule: stream_do.cases)
  case (1 sig w now token key room host region)
  then show ?thesis by (simp add: StartBroadcast_store)
next
  case (3 sig w now i host)
  then show ?thesis
    using store_steps_one [OF store_rewrites(2)]
    by (simp add: EndBroadcast_def cleanupHealthSub_def store_steps.none Let_def case_prod_beta split: sum.split)
next
  case (8 sig w now r)
  then show ?thesis
    by (simp add: handle_result_def Let_def TerminateBroadcast_store store_steps.none store_steps_one [OF store_rewrites(1)])
qed (auto simp: SessionLive_def TerminateBroadcast_store SubscribeHealth_def health_tick_def frame_tick_def stop_monitor_def
    store_steps.none store_steps_one [OF store_rewrites(1)] store_steps_one [OF store_rewrites(3)] Let_def case_prod_beta split: sum.split option.split)


lemma stream_run_store: "store_steps (sw_sessions w) (sw_sessions (stream_run sig w cs))"
proof (induction cs rule: rev_induct)
  case Nil
  show ?case by (simp add: stream_run_def store_steps.none)
next
  case (snoc c cs)
  then show ?case using store_steps_trans [OF snoc.IH stream_do_store] by (simp add: stream_run_def)
qed

section \<open>The store stays consistent\<close>

definition store_inv :: "mem_sessions \<Rightarrow> bool" where
  "store_inv r \<longleftrightarrow>
     (\<forall>i s. map_of (mss_sessions r) i = Some s \<longrightarrow> sn_ID s = i \<and> (\<exists>n \<le> mss_seq r. i = ''ss-'' @ dec04 n)) \<and>
     (\<forall>room i. map_of (mss_byRoom r) room = Some i \<longrightarrow> (\<exists>s. map_of (mss_sessions r) i = Some s \<and> sn_RoomID s = room))"

lemma store_inv_start: "store_inv NewMemSessionRepo"
  by (simp add: store_inv_def NewMemSessionRepo_def)

lemma store_inv_session:
  "store_inv r \<Longrightarrow> map_of (mss_sessions r) i = Some s \<Longrightarrow> sn_ID s = i \<and> (\<exists>n \<le> mss_seq r. i = ''ss-'' @ dec04 n)"
  unfolding store_inv_def by blast

lemma store_inv_room:
  "store_inv r \<Longrightarrow> map_of (mss_byRoom r) room = Some i \<Longrightarrow> \<exists>s. map_of (mss_sessions r) i = Some s \<and> sn_RoomID s = room"
  unfolding store_inv_def by blast

lemma fresh_session: "store_inv r \<Longrightarrow> map_of (mss_sessions r) (''ss-'' @ dec04 (Suc (mss_seq r))) = None"
proof (rule ccontr)
  assume i: "store_inv r" and "map_of (mss_sessions r) (''ss-'' @ dec04 (Suc (mss_seq r))) \<noteq> None"
  then obtain n where "n \<le> mss_seq r" "dec04 (Suc (mss_seq r)) = dec04 n"
    using store_inv_session by fastforce
  then show False by simp
qed

definition facts_kept :: "stream_session \<Rightarrow> stream_session \<Rightarrow> bool" where
  "facts_kept s s' \<longleftrightarrow>
     sn_ID s' = sn_ID s \<and> sn_RoomID s' = sn_RoomID s \<and> sn_HostID s' = sn_HostID s \<and> sn_IngestNode s' = sn_IngestNode s \<and>
     (\<forall>t. sn_StartedAt s = Some t \<longrightarrow> sn_StartedAt s' = Some t) \<and>
     (\<forall>t. sn_EndedAt s = Some t \<longrightarrow> sn_EndedAt s' = Some t \<and> sn_EndReason s' = sn_EndReason s)"

lemma facts_kept_refl [simp]: "facts_kept s s"
  by (simp add: facts_kept_def)

lemma facts_kept_trans: "facts_kept s s' \<Longrightarrow> facts_kept s' s'' \<Longrightarrow> facts_kept s s''"
  by (auto simp: facts_kept_def)

lemma kept_by_facts: "kept_by f \<Longrightarrow> facts_kept s (f s)"
  by (auto simp: kept_by_def facts_kept_def)

text \<open>What one step does to the sessions.\<close>

lemma MemCreateSession_effect:
  assumes "MemCreateSession r s = (s', r')"
  shows "map_of (mss_sessions r') = (map_of (mss_sessions r))(''ss-'' @ dec04 (Suc (mss_seq r)) \<mapsto> s')" and
    "s' = s\<lparr>sn_ID := ''ss-'' @ dec04 (Suc (mss_seq r))\<rparr>" and "mss_seq r' = Suc (mss_seq r)" and
    "map_of (mss_byRoom r') = (map_of (mss_byRoom r))(sn_RoomID s \<mapsto> ''ss-'' @ dec04 (Suc (mss_seq r)))"
  using assms by (auto simp: MemCreateSession_def Let_def update_conv')

lemma on_session_effect:
  assumes "on_session r i f = (err, r')"
  shows "map_of (mss_sessions r') j = (if j = i then map_option f (map_of (mss_sessions r) i) else map_of (mss_sessions r) j)" and
    "mss_seq r' = mss_seq r" and "mss_byRoom r' = mss_byRoom r" and "err = None \<longleftrightarrow> map_of (mss_sessions r) i \<noteq> None"
  using assms by (auto simp: on_session_def update_conv' split: option.splits)

lemma store_step_inv:
  assumes "store_step r r'" and "store_inv r"
  shows "store_inv r' \<and> (\<forall>i s. map_of (mss_sessions r) i = Some s \<longrightarrow>
    (\<exists>s'. map_of (mss_sessions r') i = Some s' \<and> facts_kept s s'))"
  using assms(1)
proof (cases rule: store_step.cases)
  case same
  then show ?thesis using assms(2) by auto
next
  case (create s s')
  note E = MemCreateSession_effect [OF create]
  have f: "map_of (mss_sessions r) (''ss-'' @ dec04 (Suc (mss_seq r))) = None" by (rule fresh_session [OF assms(2)])
  have "store_inv r'"
    unfolding store_inv_def E
  proof (intro conjI allI impI)
    fix i t
    assume "((map_of (mss_sessions r))(''ss-'' @ dec04 (Suc (mss_seq r)) \<mapsto> s\<lparr>sn_ID := ''ss-'' @ dec04 (Suc (mss_seq r))\<rparr>)) i = Some t"
    then show "sn_ID t = i" and "\<exists>n \<le> Suc (mss_seq r). i = ''ss-'' @ dec04 n"
      using store_inv_session [OF assms(2), of i t] le_SucI by (auto split: if_splits)
  next
    fix room i
    assume "((map_of (mss_byRoom r))(sn_RoomID s \<mapsto> ''ss-'' @ dec04 (Suc (mss_seq r)))) room = Some i"
    then show "\<exists>t. ((map_of (mss_sessions r))(''ss-'' @ dec04 (Suc (mss_seq r)) \<mapsto> s\<lparr>sn_ID := ''ss-'' @ dec04 (Suc (mss_seq r))\<rparr>)) i = Some t \<and> sn_RoomID t = room"
      using store_inv_room [OF assms(2), of room i] f by (auto split: if_splits)
  qed
  moreover have "\<exists>t'. map_of (mss_sessions r') i = Some t' \<and> facts_kept t t'" if "map_of (mss_sessions r) i = Some t" for i t
    using that f by (auto simp: E(1))
  ultimately show ?thesis by blast
next
  case (rewrite i f err)
  note E = on_session_effect [OF rewrite(1)]
  have k: "sn_ID (f s) = sn_ID s" "sn_RoomID (f s) = sn_RoomID s" for s using rewrite(2) by (auto simp: kept_by_def)
  have "store_inv r'"
    unfolding store_inv_def E
    using store_inv_session [OF assms(2)] store_inv_room [OF assms(2)] by (fastforce simp: k split: if_splits)
  moreover have "\<exists>t'. map_of (mss_sessions r') j = Some t' \<and> facts_kept t t'" if "map_of (mss_sessions r) j = Some t" for j t
    using that kept_by_facts [OF rewrite(2)] by (auto simp: E(1))
  ultimately show ?thesis by blast
qed

lemma store_steps_inv:
  "store_steps r r' \<Longrightarrow> store_inv r \<Longrightarrow> store_inv r' \<and> (\<forall>i s. map_of (mss_sessions r) i = Some s \<longrightarrow>
    (\<exists>s'. map_of (mss_sessions r') i = Some s' \<and> facts_kept s s'))"
proof (induction rule: store_steps.induct)
  case (more r r' r'')
  then show ?case using store_step_inv [OF more.hyps(1) more.prems] facts_kept_trans by metis
qed auto

text \<open>The record of a broadcast is never rewritten. Whatever calls, ticks and classifier results come after, a session
  that exists keeps existing with its room, its host and its ingest region; once it has a start it keeps that start,
  and once it has ended it keeps that end and the reason given first, so that neither a later host action nor a
  later termination replaces it. And the session a room refers to always exists and is a session of that room.\<close>

theorem session_record_final:
  assumes "map_of (mss_sessions (sw_sessions (stream_run sig (stream_start m) cs))) i = Some s"
  shows "(\<exists>s'. map_of (mss_sessions (sw_sessions (stream_run sig (stream_start m) (cs @ cs')))) i = Some s' \<and>
      sn_ID s' = i \<and> sn_RoomID s' = sn_RoomID s \<and> sn_HostID s' = sn_HostID s \<and> sn_IngestNode s' = sn_IngestNode s \<and>
      (sn_StartedAt s \<noteq> None \<longrightarrow> sn_StartedAt s' = sn_StartedAt s) \<and>
      (sn_EndedAt s \<noteq> None \<longrightarrow> sn_EndedAt s' = sn_EndedAt s \<and> sn_EndReason s' = sn_EndReason s)) \<and>
    GetStreamSession (stream_run sig (stream_start m) cs) room \<noteq> Inl StreamNilDereference \<and>
    (\<forall>t. GetStreamSession (stream_run sig (stream_start m) cs) room = Inr t \<longrightarrow> sn_RoomID t = room)"
proof -
  let ?w = "stream_run sig (stream_start m) cs"
  have r: "stream_run sig (stream_start m) (cs @ cs') = stream_run sig ?w cs'" by (simp add: stream_run_def)
  have inv: "store_inv (sw_sessions ?w)"
    using store_steps_inv [OF stream_run_store] store_inv_start by (simp add: stream_start_def)
  obtain s' where s': "map_of (mss_sessions (sw_sessions (stream_run sig ?w cs'))) i = Some s'" "facts_kept s s'"
    using store_steps_inv [OF stream_run_store inv] assms by blast
  have "sn_ID s = i" using store_inv_session [OF inv assms] by blast
  then show ?thesis
    using s' store_inv_room [OF inv, of room]
    by (auto simp: r facts_kept_def GetStreamSession_def GetByRoom_def split: option.splits)
qed


definition demo_signal :: dev_signal where
  "demo_signal = \<lparr>ds_bitrate = (\<lambda>t. 2800), ds_fps = (\<lambda>t. 30), ds_rtt = (\<lambda>t. 45)\<rparr>"

text \<open>A session that its host ends, is then reported live, and is then terminated.\<close>

definition demo_calls :: "(time \<times> stream_call) list" where
  "demo_calls = [(1, CallStart (Some ''t'') ''k'' ''room'' ''host'' ''us-east''), (2, CallLive ''ss-0001''), (3, CallEnd ''ss-0001'' ''host'')]"

lemma demo_ended:
  "map_of (mss_sessions (sw_sessions (stream_run demo_signal (stream_start m) demo_calls))) ''ss-0001'' =
     Some \<lparr>sn_ID = ''ss-0001'', sn_RoomID = ''room'', sn_HostID = ''host'', sn_State = StreamEnded, sn_IngestNode = ''us-east'',
       sn_StreamKeyID = [], sn_PlaybackURL = PackagerPlaybackURL ''ss-0001'', sn_StartedAt = Some 2, sn_EndedAt = Some 3,
       sn_EndReason = ''host_ended'', sn_PeakViewers = 0, sn_Health = None\<rparr>"
proof -
  have d: "dec04 (Suc 0) = ''0001''" by code_simp
  show ?thesis
    by (simp add: stream_run_def demo_calls_def stream_start_def StartBroadcast_def MemCreateSession_def new_session_def
        NewMemSessionRepo_def IssueCredentials_def UpdatePlaybackURL_def on_session_def SessionLive_def UpdateState_def set_state_def
        EndBroadcast_def StreamGet_def EndSessionRecord_def cleanupHealthSub_def IngestTerminate_def d Let_def)
qed

lemma session_record_final_witness:
  "\<exists>s'. map_of (mss_sessions (sw_sessions (stream_run demo_signal (stream_start demo_mod)
        (demo_calls @ [(4, CallLive ''ss-0001''), (5, CallTerminate ''ss-0001'' ''CS-01'')])))) ''ss-0001'' = Some s' \<and>
     sn_StartedAt s' = Some 2 \<and> sn_EndedAt s' = Some 3 \<and> sn_EndReason s' = ''host_ended''"
  using session_record_final [OF demo_ended, of demo_mod "[(4, CallLive ''ss-0001''), (5, CallTerminate ''ss-0001'' ''CS-01'')]"]
  by auto

text \<open>The state itself is not guarded: an ended or terminated session that is reported live is active again, with its
  old end; and a session whose ID has five digits sorts before the older ones.\<close>

lemma ended_goes_live:
  assumes "map_of (mss_sessions (sw_sessions w)) i = Some s" and "sn_EndedAt s \<noteq> None"
  shows "\<exists>s'. map_of (mss_sessions (sw_sessions (snd (SessionLive w now i)))) i = Some s' \<and>
    sn_State s' = StreamLive \<and> s' \<in> set (GetActive (sw_sessions (snd (SessionLive w now i)))) \<and> sn_EndedAt s' = sn_EndedAt s"
proof -
  let ?r = "snd (UpdateState (sw_sessions w) now i StreamLive [])" and ?s = "set_state now StreamLive [] s"
  have m: "map_of (mss_sessions ?r) i = Some ?s"
    using assms(1) on_session_effect(1) [of "sw_sessions w" i "set_state now StreamLive []"]
    by (simp add: UpdateState_def prod_eq_iff)
  have "sw_sessions (snd (SessionLive w now i)) = ?r" by (simp add: SessionLive_def case_prod_beta)
  moreover have "sn_State ?s = StreamLive" "sn_EndedAt ?s = sn_EndedAt s" by (simp_all add: set_state_def Let_def)
  moreover have "?s \<in> set (map snd (mss_sessions ?r))" using map_of_SomeD [OF m] by force
  ultimately show ?thesis using m by (simp add: GetActive_def)
qed

lemma newest_sorts_first: "''ss-10000'' < (''ss-9999'' :: string)"
  by code_simp


section \<open>Whose stream a room shows\<close>

lemma run_store_inv: "store_inv (sw_sessions (stream_run sig (stream_start m) cs))"
  using store_steps_inv [OF stream_run_store] store_inv_start by (simp add: stream_start_def)

definition started :: "stream_world \<Rightarrow> string \<Rightarrow> string \<Rightarrow> string \<Rightarrow> stream_session" where
  "started w room host region =
     (new_session room host region)\<lparr>sn_ID := ''ss-'' @ dec04 (Suc (mss_seq (sw_sessions w))),
        sn_PlaybackURL := PackagerPlaybackURL (''ss-'' @ dec04 (Suc (mss_seq (sw_sessions w))))\<rparr>"

lemma StartBroadcast_started:
  "\<exists>creds w'. StartBroadcast w now (Some t) key room host region = (Inr (started w room host region, creds), w') \<and>
     map_of (mss_sessions (sw_sessions w')) =
       (map_of (mss_sessions (sw_sessions w)))(''ss-'' @ dec04 (Suc (mss_seq (sw_sessions w))) \<mapsto> started w room host region) \<and>
     map_of (mss_byRoom (sw_sessions w')) =
       (map_of (mss_byRoom (sw_sessions w)))(room \<mapsto> ''ss-'' @ dec04 (Suc (mss_seq (sw_sessions w)))) \<and>
     map_of (sw_ingest w') (''ss-'' @ dec04 (Suc (mss_seq (sw_sessions w)))) = Some now \<and>
     cr_StreamKey creds = hex key \<and> cr_ExpiresAt creds = now + 5 * minute"
  by (simp add: StartBroadcast_def MemCreateSession_def IssueCredentials_def UpdatePlaybackURL_def on_session_def Let_def
      started_def new_session_def update_conv' fun_eq_iff)

text \<open>C28: The stream a room shows is the last one anybody started for it. Any signed-in account that posts the ID of a
  room, its own or not, gets 201 with credentials; from then on viewers who ask for the stream of that room are
  sent to the new session and its playback URL, although it has not sent a frame and the room may belong to
  somebody whose broadcast is running, and that broadcast's record is as it was.\<close>

theorem last_starter_owns_the_room:
  assumes "w = stream_run sig (stream_start m) cs" and "a \<noteq> []" and "room \<noteq> []"
  shows "\<exists>sess creds w'. HandleStartBroadcast w now (Some t) key a (Some (room, region)) =
      ((201, ReplyStarted sess creds DefaultLadder), w') \<and>
    sn_HostID sess = a \<and> sn_State sess = StreamConnecting \<and> map_of (mss_sessions (sw_sessions w)) (sn_ID sess) = None \<and>
    HandleGetStream w' room = (200, ReplyStream (sn_ID sess) room StreamConnecting (PackagerPlaybackURL (sn_ID sess)) None) \<and>
    (\<forall>i. i \<noteq> sn_ID sess \<longrightarrow> map_of (mss_sessions (sw_sessions w')) i = map_of (mss_sessions (sw_sessions w)) i)"
proof -
  let ?reg = "if region = [] then ''us-east'' else region"
  let ?s = "started w room a ?reg" and ?i = "''ss-'' @ dec04 (Suc (mss_seq (sw_sessions w)))"
  obtain creds w' where S: "StartBroadcast w now (Some t) key room a ?reg = (Inr (?s, creds), w')"
    "map_of (mss_sessions (sw_sessions w')) = (map_of (mss_sessions (sw_sessions w)))(?i \<mapsto> ?s)"
    "map_of (mss_byRoom (sw_sessions w')) = (map_of (mss_byRoom (sw_sessions w)))(room \<mapsto> ?i)"
    using StartBroadcast_started [of w now t key room a ?reg] by blast
  have f: "sn_ID ?s = ?i" "sn_HostID ?s = a" "sn_RoomID ?s = room" "sn_State ?s = StreamConnecting" "sn_Health ?s = None"
    "sn_PlaybackURL ?s = PackagerPlaybackURL ?i"
    by (simp_all add: started_def new_session_def)
  have "map_of (mss_sessions (sw_sessions w)) ?i = None"
    using fresh_session run_store_inv unfolding assms(1) by blast
  moreover have "HandleStartBroadcast w now (Some t) key a (Some (room, region)) = ((201, ReplyStarted ?s creds DefaultLadder), w')"
    using assms(2,3) S(1) by (simp add: HandleStartBroadcast_def Let_def)
  moreover have "HandleGetStream w' room = (200, ReplyStream ?i room StreamConnecting (PackagerPlaybackURL ?i) None)"
    using assms(3) by (simp add: HandleGetStream_def GetStreamSession_def GetByRoom_def S f)
  ultimately show ?thesis using S f by (intro exI [of _ ?s] exI [of _ creds] exI [of _ w']) simp
qed

lemma last_starter_owns_the_room_witness:
  "\<exists>sess creds w'. HandleStartBroadcast (stream_run demo_signal (stream_start demo_mod) [(1, CallStart (Some ''t'') ''k'' ''room'' ''host'' [])])
      5 (Some ''t2'') ''k2'' ''eve'' (Some (''room'', [])) = ((201, ReplyStarted sess creds DefaultLadder), w') \<and>
    sn_HostID sess = ''eve'' \<and>
    HandleGetStream w' ''room'' = (200, ReplyStream (sn_ID sess) ''room'' StreamConnecting (PackagerPlaybackURL (sn_ID sess)) None)"
  using last_starter_owns_the_room [OF refl, of "''eve''" "''room''" demo_signal demo_mod
      "[(1, CallStart (Some ''t'') ''k'' ''room'' ''host'' [])]" 5 "''t2''" "''k2''" "[]"]
  by fastforce

section \<open>What the running server moderates\<close>

text \<open>The operations that the server can perform: the routes (start and end), the ticks of the monitors, and results of
  the classifier, which answer frames that were submitted. The frame ticker's first tick comes ten seconds after
  the start of a monitor, when the five-second ticker has fired. Nothing in the server reports a session live or
  subscribes to its health.\<close>

inductive server_step :: "dev_signal \<Rightarrow> stream_world \<Rightarrow> stream_world \<Rightarrow> bool" for sig :: dev_signal where
  start: "server_step sig w (snd (HandleStartBroadcast w now token key account body))"
| stop: "server_step sig w (snd (HandleEndBroadcast w now account session_id))"
| health: "server_step sig w (health_tick sig w now i)"
| frame: "map_of (sw_monitors w) i = Some True \<Longrightarrow> server_step sig w (frame_tick w i)"
| result: "mr_SessionID r \<in> set (sw_frames w) \<Longrightarrow> server_step sig w (handle_result w now r)"

inductive server_reach :: "dev_signal \<Rightarrow> stream_world \<Rightarrow> stream_world \<Rightarrow> bool" for sig :: dev_signal where
  init: "server_reach sig w w"
| step: "server_reach sig w w' \<Longrightarrow> server_step sig w' w'' \<Longrightarrow> server_reach sig w w''"

inductive_cases server_stepE: "server_step sig w w'"

definition unwatched :: "mod_world \<Rightarrow> stream_world \<Rightarrow> bool" where
  "unwatched m w \<longleftrightarrow> sw_subs w = [] \<and> sw_frames w = [] \<and> sw_mod w = m \<and> True \<notin> snd ` set (sw_monitors w) \<and>
     (\<forall>s \<in> snd ` set (mss_sessions (sw_sessions w)). (sn_State s = StreamConnecting \<or> sn_State s = StreamEnded) \<and> sn_StartedAt s = None)"

lemma unwatched_monitor: "unwatched m w \<Longrightarrow> map_of (sw_monitors w) i \<noteq> Some True"
  unfolding unwatched_def by (metis image_eqI map_of_SomeD snd_conv)

lemma set_update_snd: "v \<in> snd ` set (AList.update k x m) \<Longrightarrow> v = x \<or> v \<in> snd ` set m"
  by (induction m) (auto split: if_splits)

lemma set_delete_snd: "v \<in> snd ` set (AList.delete k m) \<Longrightarrow> v \<in> snd ` set m"
  by (auto simp: AList.delete_eq)


lemma on_session_values:
  "s' \<in> snd ` set (mss_sessions (snd (on_session r i f))) \<Longrightarrow>
   s' \<in> snd ` set (mss_sessions r) \<or> (\<exists>s. map_of (mss_sessions r) i = Some s \<and> s' = f s)"
  by (auto simp: on_session_def split: option.splits dest!: set_update_snd [OF image_eqI, rotated])

lemma on_session_all:
  assumes "\<forall>s \<in> snd ` set (mss_sessions r). P s" and "\<And>s. P s \<Longrightarrow> P (f s)"
  shows "\<forall>s \<in> snd ` set (mss_sessions (snd (on_session r i f))). P s"
proof
  fix s'
  assume "s' \<in> snd ` set (mss_sessions (snd (on_session r i f)))"
  then show "P s'"
  proof (rule disjE [OF on_session_values])
    assume "\<exists>s. map_of (mss_sessions r) i = Some s \<and> s' = f s"
    then obtain s where "map_of (mss_sessions r) i = Some s" "s' = f s" by blast
    then show ?thesis using assms map_of_SomeD by fastforce
  qed (use assms(1) in blast)
qed

lemma MemCreateSession_all:
  assumes "\<forall>s \<in> snd ` set (mss_sessions r). P s" and "P (fst (MemCreateSession r s0))"
  shows "\<forall>s \<in> snd ` set (mss_sessions (snd (MemCreateSession r s0))). P s"
  using assms set_update_snd by (fastforce simp: MemCreateSession_def Let_def)

definition unstarted :: "stream_session \<Rightarrow> bool" where
  "unstarted s \<longleftrightarrow> (sn_State s = StreamConnecting \<or> sn_State s = StreamEnded) \<and> sn_StartedAt s = None"

lemma unwatched_iff:
  "unwatched m w \<longleftrightarrow> sw_subs w = [] \<and> sw_frames w = [] \<and> sw_mod w = m \<and> True \<notin> snd ` set (sw_monitors w) \<and>
     (\<forall>s \<in> snd ` set (mss_sessions (sw_sessions w)). unstarted s)"
  by (simp add: unwatched_def unstarted_def)

lemma unwatched_start: "unwatched m w \<Longrightarrow> unwatched m (snd (StartBroadcast w now token key room host region))"
proof -
  assume u: "unwatched m w"
  let ?c = "MemCreateSession (sw_sessions w) (new_session room host region)"
  have c: "\<forall>s \<in> snd ` set (mss_sessions (snd ?c)). unstarted s"
    by (rule MemCreateSession_all) (use u in \<open>auto simp: unwatched_iff MemCreateSession_def new_session_def unstarted_def Let_def\<close>)
  have e: "\<forall>s \<in> snd ` set (mss_sessions (snd (EndSessionRecord (snd ?c) now i reason))). unstarted s" for i reason
    unfolding EndSessionRecord_def UpdateState_def
    by (rule on_session_all [OF c]) (simp add: unstarted_def set_state_def Let_def)
  have p: "\<forall>s \<in> snd ` set (mss_sessions (snd (UpdatePlaybackURL (snd ?c) i url))). unstarted s" for i url
    unfolding UpdatePlaybackURL_def by (rule on_session_all [OF c]) (simp add: unstarted_def)
  have n: "True \<notin> snd ` set (AList.update i False (sw_monitors w))" for i
    using u set_update_snd by (fastforce simp: unwatched_iff)
  obtain s r where c': "?c = (s, r)" by fastforce
  show ?thesis
    using u e p n
    by (cases token) (simp_all add: unwatched_iff StartBroadcast_def IssueCredentials_def Let_def c')
qed

lemma unwatched_end: "unwatched m w \<Longrightarrow> unwatched m (snd (EndBroadcast w now i host))"
proof -
  assume u: "unwatched m w"
  have "\<forall>s \<in> snd ` set (mss_sessions (snd (EndSessionRecord (sw_sessions w) now i reason))). unstarted s" for reason
    unfolding EndSessionRecord_def UpdateState_def
    by (rule on_session_all) (use u in \<open>auto simp: unwatched_iff unstarted_def set_state_def Let_def\<close>)
  then show ?thesis
    using u by (simp add: unwatched_iff EndBroadcast_def cleanupHealthSub_def case_prod_beta Let_def split: sum.split)
qed

lemma unwatched_health: "unwatched m w \<Longrightarrow> unwatched m (health_tick sig w now i)"
proof -
  assume u: "unwatched m w"
  have "\<forall>s \<in> snd ` set (mss_sessions (snd (UpdateHealth (sw_sessions w) i h))). unstarted s" for h
    unfolding UpdateHealth_def by (rule on_session_all) (use u in \<open>auto simp: unwatched_iff unstarted_def\<close>)
  moreover have n: "True \<notin> snd ` set (AList.delete i (sw_monitors w))"
    using u set_delete_snd [of True i "sw_monitors w"] unfolding unwatched_iff by blast
  moreover have "AList.delete i (AList.update i True (sw_monitors w)) = AList.delete i (sw_monitors w)"
    by (rule delete_update_same)
  ultimately show ?thesis
    using u by (simp add: unwatched_iff health_tick_def stop_monitor_def Let_def split: sum.split)
qed

lemma HandleStartBroadcast_world:
  "snd (HandleStartBroadcast w now token key account body) = w \<or>
   (\<exists>room region. snd (HandleStartBroadcast w now token key account body) = snd (StartBroadcast w now token key room account region))"
proof (cases body)
  case (Some rr)
  obtain room region where rr: "rr = (room, region)" by (cases rr)
  let ?x = "StartBroadcast w now token key room account (if region = [] then ''us-east'' else region)"
  have "snd (HandleStartBroadcast w now token key account body) \<in> {w, snd ?x}"
    by (cases ?x; cases "fst ?x") (auto simp: HandleStartBroadcast_def Some rr Let_def simp del: if_split)
  then show ?thesis by blast
qed (simp add: HandleStartBroadcast_def)

lemma HandleEndBroadcast_world:
  "snd (HandleEndBroadcast w now account i) = w \<or> snd (HandleEndBroadcast w now account i) = snd (EndBroadcast w now i account)"
  by (cases "EndBroadcast w now i account"; cases "fst (EndBroadcast w now i account)") (auto simp: HandleEndBroadcast_def)

lemma unwatched_step: "server_step sig w w' \<Longrightarrow> unwatched m w \<Longrightarrow> unwatched m w'"
proof (induction rule: server_step.induct)
  case (start w now token key account body)
  then show ?case
    using HandleStartBroadcast_world [of w now token key account body] unwatched_start by metis
next
  case (stop w now account i)
  then show ?case
    using HandleEndBroadcast_world [of w now account i] unwatched_end by metis
next
  case (frame w i)
  then show ?case using unwatched_monitor by blast
next
  case (result r w now)
  then show ?case by (simp add: unwatched_def)
qed (rule unwatched_health)


lemma unwatched_reach: "server_reach sig w w' \<Longrightarrow> unwatched m w \<Longrightarrow> unwatched m w'"
  by (induction rule: server_reach.induct) (auto intro: unwatched_step)

text \<open>C21: The running server moderates no broadcast. From the start, whatever its routes are asked, and however the
  tickers and the classifier go: the monitor of a session stops at its first tick (nobody subscribes to its health),
  which is before the first frame, so that no frame of any broadcast is ever submitted to the classifier, no
  broadcast is ever terminated, and the moderation module never hears of one. Nor is any session ever live, or
  counted as active, or given a start time: nothing calls \<open>SessionLive\<close>.\<close>

theorem nothing_is_moderated:
  assumes "server_reach sig (stream_start m) w"
  shows "sw_frames w = [] \<and> sw_mod w = m \<and> GetActive (sw_sessions w) = [] \<and>
    (\<forall>i s. map_of (mss_sessions (sw_sessions w)) i = Some s \<longrightarrow>
       sn_StartedAt s = None \<and> (sn_State s = StreamConnecting \<or> sn_State s = StreamEnded))"
proof -
  have "unwatched m (stream_start m)" by (simp add: unwatched_def stream_start_def NewMemSessionRepo_def)
  then have u: "unwatched m w" using unwatched_reach [OF assms] by blast
  then have "\<forall>s \<in> set (map snd (mss_sessions (sw_sessions w))). sn_State s = StreamConnecting \<or> sn_State s = StreamEnded"
    by (auto simp: unwatched_def)
  then have "GetActive (sw_sessions w) = []" by (fastforce simp: GetActive_def filter_empty_conv)
  moreover have "sn_StartedAt s = None \<and> (sn_State s = StreamConnecting \<or> sn_State s = StreamEnded)"
    if "map_of (mss_sessions (sw_sessions w)) i = Some s" for i s
    using u map_of_SomeD [OF that] by (force simp: unwatched_def)
  ultimately show ?thesis using u by (simp add: unwatched_def)
qed

lemma nothing_is_moderated_witness:
  "\<exists>w. server_reach demo_signal (stream_start demo_mod) w \<and> map_of (mss_sessions (sw_sessions w)) ''ss-0001'' \<noteq> None \<and>
     sw_frames w = [] \<and> GetActive (sw_sessions w) = []"
proof -
  let ?w1 = "snd (HandleStartBroadcast (stream_start demo_mod) 1 (Some ''t'') ''k'' ''host'' (Some (''room'', [])))"
  let ?w2 = "health_tick demo_signal ?w1 6 ''ss-0001''"
  have r1: "server_reach demo_signal (stream_start demo_mod) ?w1"
    by (rule server_reach.step [OF server_reach.init server_step.start])
  have r2: "server_reach demo_signal (stream_start demo_mod) ?w2" by (rule server_reach.step [OF r1 server_step.health])
  have d: "dec04 (Suc 0) = ''0001''" by code_simp
  have "map_of (mss_sessions (sw_sessions ?w2)) ''ss-0001'' \<noteq> None"
    by (simp add: HandleStartBroadcast_def stream_start_def StartBroadcast_def MemCreateSession_def new_session_def
        NewMemSessionRepo_def IssueCredentials_def UpdatePlaybackURL_def on_session_def health_tick_def stop_monitor_def
        IngestGetHealth_def UpdateHealth_def d Let_def)
  then show ?thesis using nothing_is_moderated [OF r2] r2 by blast
qed

text \<open>With a subscriber the monitor goes on, and its first frame is submitted.\<close>

lemma watched_is_sampled:
  assumes "map_of (sw_monitors w) i \<noteq> None" and "map_of (mss_sessions (sw_sessions w)) i = Some s"
    and "sn_State s \<noteq> StreamEnded" and "sn_State s \<noteq> StreamTerminated"
  shows "sw_frames (frame_tick w i) = sw_frames w @ [i]"
  using assms by (auto simp: frame_tick_def StreamGet_def)

section \<open>What a match of the classifier does\<close>

definition known_rule :: "string \<Rightarrow> bool" where
  "known_rule ruleID \<longleftrightarrow> RuleByID ruleID \<noteq> None"

lemma classToRuleID_known: "known_rule (classToRuleID label)"
  by (simp add: known_rule_def classToRuleID_def RuleByID_def Catalogue_def)

lemma result_rule_known: "known_rule (result_rule r)"
proof -
  have "known_rule ruleID \<Longrightarrow> known_rule (fold (\<lambda>(label, confidence) ruleID.
         if label \<noteq> ''safe'' \<and> confidence_threshold < confidence then classToRuleID label else ruleID) cs ruleID)" for cs ruleID
    by (induction cs arbitrary: ruleID) (auto simp: classToRuleID_known)
  moreover have "known_rule ''CS-01''" by (simp add: known_rule_def RuleByID_def Catalogue_def)
  ultimately show ?thesis unfolding result_rule_def by blast
qed

lemma RecordAutoTermination_stores:
  assumes "known_rule rule"
  shows "\<exists>e. map_of (me_byID (mw_enforcements (RecordAutoTermination m now host i rule)))
      (''enf-'' @ dec04 (me_seq (mw_enforcements m) + 1)) = Some e \<and>
    en_AccountID e = host \<and> en_RuleID e = rule \<and> en_Action e = ActionRestrictBroadcast \<and>
    en_DecidedBy e = ''auto:classifier'' \<and> en_EvidenceRef e = ''session:'' @ i \<and> en_Appealable e"
proof (cases rule: CreateEnforcement_cases [of m now "''auto:classifier''" host rule ActionRestrictBroadcast 0 "''session:'' @ i"])
  case refused
  have ok: "ValidAction ActionRestrictBroadcast" "ActionRestrictBroadcast \<noteq> ActionTerminate" "ActionRestrictBroadcast \<noteq> ActionWarn"
    by (simp_all add: ValidAction_def action_defs)
  obtain e r where st: "StoreEnforcement (mw_enforcements m)
      (new_enforcement now ''auto:classifier'' host rule ActionRestrictBroadcast 0 (''session:'' @ i)) = (e, r)" by fastforce
  have "mw_enforcements (snd (CreateEnforcement m now ''auto:classifier'' host rule ActionRestrictBroadcast 0 (''session:'' @ i))) = r"
    using assms ok st by (simp add: CreateEnforcement_def known_rule_def applyEnforcement_def Let_def del: not_None_eq split: sum.split prod.split)
  then have "r = mw_enforcements m" using refused by simp
  then show ?thesis using StoreEnforcement_record(2) [OF st] by simp
next
  case (stored e r)
  note rec = StoreEnforcement_record [OF stored(3)]
  have "en_EvidenceRef e = ''session:'' @ i"
    using stored(3) by (auto simp: StoreEnforcement_def new_enforcement_def Let_def)
  moreover have "mw_enforcements (snd (applyEnforcement (m\<lparr>mw_enforcements := r\<rparr>) host ActionRestrictBroadcast)) = r"
    by (simp add: applyEnforcement_def Let_def split: sum.split prod.split)
  moreover have "ActionRestrictBroadcast \<noteq> ActionWarn" by (simp add: action_defs)
  ultimately show ?thesis
    using rec unfolding RecordAutoTermination_def stored(4) by (intro exI [of _ e] conjI) (simp_all add: update_conv')
qed

text \<open>A match of the classifier ends the broadcast and leaves a record of it. When the classifier asks for the
  termination of a session that exists, the session is terminated; if it had not ended before, it ends now, for the
  rule of the last confident label (child abuse material if there is none); its ingest and its health channel are
  gone, so that its health is unknown and its monitor stops at the next tick; and an appealable enforcement against
  its host, with the session as evidence and a rule of the catalogue, is stored. But the host can start the next
  broadcast of the room in the same moment: the restriction is not consulted.\<close>

theorem auto_termination_recorded:
  assumes "map_of (mss_sessions (sw_sessions w)) (mr_SessionID r) = Some s" and "sn_HostID s \<noteq> []"
    and "mr_Action r = ClassifierTerminate" and "room \<noteq> []"
  shows "\<exists>s' e. map_of (mss_sessions (sw_sessions (handle_result w now r))) (mr_SessionID r) = Some s' \<and>
      sn_State s' = StreamTerminated \<and>
      (sn_EndedAt s = None \<longrightarrow> sn_EndedAt s' = Some now \<and> sn_EndReason s' = ''moderation:'' @ result_rule r) \<and>
      GetStreamHealth sig (handle_result w now r) later (mr_SessionID r) = Inl ErrStreamNotFound \<and>
      map_of (sw_subs (handle_result w now r)) (mr_SessionID r) = None \<and>
      map_of (sw_monitors (health_tick sig (handle_result w now r) later (mr_SessionID r))) (mr_SessionID r) = None \<and>
      map_of (me_byID (mw_enforcements (sw_mod (handle_result w now r)))) (''enf-'' @ dec04 (me_seq (mw_enforcements (sw_mod w)) + 1)) = Some e \<and>
      en_AccountID e = sn_HostID s \<and> en_RuleID e = result_rule r \<and> RuleByID (result_rule r) \<noteq> None \<and>
      en_DecidedBy e = ''auto:classifier'' \<and> en_EvidenceRef e = ''session:'' @ mr_SessionID r \<and> en_Appealable e \<and>
      fst (fst (HandleStartBroadcast (handle_result w now r) now (Some t) key (sn_HostID s) (Some (room, region)))) = 201"
proof -
  let ?i = "mr_SessionID r" and ?rule = "result_rule r" and ?w = "handle_result w now r"
  let ?s = "set_state now StreamTerminated (''moderation:'' @ ?rule) s"
  have w: "?w = (snd (TerminateBroadcast w now ?i ?rule))\<lparr>sw_mod := RecordAutoTermination (sw_mod w) now (sn_HostID s) ?i ?rule\<rparr>"
    using assms(1-3)
    by (simp add: handle_result_def StreamGet_def TerminateBroadcast_def cleanupHealthSub_def Let_def split: prod.split)
  have store: "map_of (mss_sessions (sw_sessions ?w)) ?i = Some ?s"
    using on_session_effect(1) [of "sw_sessions w" ?i "set_state now StreamTerminated (''moderation:'' @ ?rule)"] assms(1)
    by (simp add: w TerminateBroadcast_store UpdateState_def prod_eq_iff)
  have gone: "map_of (sw_ingest ?w) ?i = None" "map_of (sw_subs ?w) ?i = None"
    by (simp_all add: w TerminateBroadcast_def cleanupHealthSub_def IngestTerminate_def delete_conv' case_prod_beta Let_def)
  have h: "GetStreamHealth sig ?w later ?i = Inl ErrStreamNotFound"
    by (simp add: GetStreamHealth_def IngestGetHealth_def gone)
  have mon: "map_of (sw_monitors (health_tick sig ?w later ?i)) ?i = None"
    by (simp add: health_tick_def IngestGetHealth_def gone stop_monitor_def delete_conv')
  have known: "RuleByID ?rule \<noteq> None" using result_rule_known known_rule_def by blast
  obtain e where e: "map_of (me_byID (mw_enforcements (sw_mod ?w))) (''enf-'' @ dec04 (me_seq (mw_enforcements (sw_mod w)) + 1)) = Some e"
    "en_AccountID e = sn_HostID s" "en_RuleID e = ?rule" "en_DecidedBy e = ''auto:classifier''"
    "en_EvidenceRef e = ''session:'' @ ?i" "en_Appealable e"
    using RecordAutoTermination_stores [OF result_rule_known, of "sw_mod w" now "sn_HostID s" ?i r] by (auto simp: w)
  have again: "fst (fst (HandleStartBroadcast ?w now (Some t) key (sn_HostID s) (Some (room, region)))) = 201"
    using StartBroadcast_started [of ?w now t key room "sn_HostID s" "if region = [] then ''us-east'' else region"] assms(2,4)
    by (auto simp: HandleStartBroadcast_def Let_def simp del: if_split)
  have "sn_State ?s = StreamTerminated"
    "sn_EndedAt s = None \<longrightarrow> sn_EndedAt ?s = Some now \<and> sn_EndReason ?s = ''moderation:'' @ ?rule"
    by (simp_all add: set_state_def Let_def)
  then show ?thesis
    using store h gone(2) mon known e again by (intro exI [of _ ?s] exI [of _ e] conjI) simp_all
qed

definition demo_result :: moderation_result where
  "demo_result = \<lparr>mr_SessionID = ''ss-0001'', mr_Classes = [(''safe'', 1/10), (''violence'', 99/100)], mr_Action = ClassifierTerminate\<rparr>"

definition demo_running :: stream_world where
  "demo_running = snd (StartBroadcast (stream_start demo_mod) 1 (Some ''t'') ''k'' ''room'' ''host'' ''us-east'')"

lemma auto_termination_recorded_witness:
  "result_rule demo_result = ''VL-01'' \<and>
   (\<exists>s'. map_of (mss_sessions (sw_sessions (handle_result demo_running 9 demo_result))) ''ss-0001'' = Some s' \<and>
     sn_State s' = StreamTerminated \<and>
     fst (fst (HandleStartBroadcast (handle_result demo_running 9 demo_result) 9 (Some ''t'') ''k'' ''host'' (Some (''room'', [])))) = 201)"
proof -
  have d: "dec04 (Suc 0) = ''0001''" by code_simp
  have rule: "result_rule demo_result = ''VL-01''"
    by (simp add: result_rule_def demo_result_def classToRuleID_def confidence_threshold_def)
  obtain s where s: "map_of (mss_sessions (sw_sessions demo_running)) (mr_SessionID demo_result) = Some s" "sn_HostID s = ''host''"
    by (simp add: demo_running_def demo_result_def stream_start_def StartBroadcast_def MemCreateSession_def new_session_def
        NewMemSessionRepo_def IssueCredentials_def UpdatePlaybackURL_def on_session_def d Let_def)
  have h: "sn_HostID s \<noteq> []" and a: "mr_Action demo_result = ClassifierTerminate" and i: "mr_SessionID demo_result = ''ss-0001''"
    by (simp_all add: s demo_result_def)
  show ?thesis
    using auto_termination_recorded [OF s(1) h a, of "''room''" 9 demo_signal 9 "''t''" "''k''" "[]"] rule
    unfolding i s(2) by blast
qed

end
