(* ===== verification/Analytics.thy ===== *)
theory Analytics
  imports Rollout Streaming Gifts
begin

text \<open>
  The dashboards (\<open>analytics/analytics.go\<close>, \<open>analytics/mem_repo.go\<close>, \<open>analytics/analyticssvc/service.go\<close>)
  with the closures of \<open>main.go\<close> that read gifts and purchases from the ledger and broadcasts from the
  streaming store. A \<open>map[string]bool\<close> that collects accounts is the list of its keys. A ratio in percent
  (floating point) is the function \<open>pct\<close> of its two counts; the day of a time, as text and as its midnight,
  depends on the time zone of the server and is an argument.
\<close>

section \<open>Events\<close>

datatype event_type = EventAccountCreated | EventLogin | EventOther string

record account_event =
  av_ID :: string
  av_Type :: event_type
  av_AccountID :: string
  av_CreatedAt :: time

record mem_events =
  mv_seq :: nat
  mv_events :: "account_event list"

definition NewMemEventRepo :: mem_events where
  "NewMemEventRepo = \<lparr>mv_seq = 0, mv_events = []\<rparr>"

text \<open>\<open>fmt.Sprintf("%06d", n)\<close>.\<close>

definition dec06 :: "nat \<Rightarrow> string" where
  "dec06 n = (let d = itoa_loop n [] in replicate (6 - length d) CHR ''0'' @ d)"

definition EventAppend :: "mem_events \<Rightarrow> time \<Rightarrow> string \<Rightarrow> event_type \<Rightarrow> account_event \<times> mem_events" where
  "EventAppend r now accountID eventType =
     (let n = Suc (mv_seq r);
          e = \<lparr>av_ID = ''evt-'' @ dec06 n, av_Type = eventType, av_AccountID = accountID, av_CreatedAt = now\<rparr>
      in (e, \<lparr>mv_seq = n, mv_events = mv_events r @ [e]\<rparr>))"

definition EventListSince :: "mem_events \<Rightarrow> time \<Rightarrow> account_event list" where
  "EventListSince r since = filter (\<lambda>e. \<not> Before (av_CreatedAt e) since) (mv_events r)"

definition EventListByType :: "mem_events \<Rightarrow> event_type \<Rightarrow> account_event list" where
  "EventListByType r eventType = filter (\<lambda>e. av_Type e = eventType) (mv_events r)"

section \<open>Dashboards\<close>

record dau_mau =
  dm_DAU :: nat
  dm_MAU :: nat
  dm_AsOf :: time

record 'f retention_point =
  rp_DaysAfter :: int
  rp_CohortSize :: nat
  rp_RetainedCount :: nat
  rp_RetainedPct :: 'f

record 'f funnel_step =
  fs_Name :: string
  fs_Count :: nat
  fs_PctOfFirst :: 'f

record economy_summary =
  es_RangeDays :: int
  es_TotalGiftsSent :: int
  es_TotalCoinsSpent :: int
  es_TotalDiamondsIssued :: int
  es_TotalPurchases :: int
  es_TotalCoinsPurchased :: int

record trend_point =
  tp_Date :: string
  tp_GiftsReceived :: int
  tp_DiamondsEarned :: int
  tp_BroadcastCount :: int

datatype analytics_error = ErrAnalyticsForbidden

section \<open>The closures of main.go\<close>

record gift_txn =
  gx_SenderID :: string
  gx_RecipientID :: string
  gx_GiftID :: string
  gx_CreatorDiamonds :: int
  gx_GrossCoins :: int
  gx_CreatedAt :: time

record purchase_txn =
  px_AccountID :: string
  px_Coins :: int
  px_CreatedAt :: time

record broadcast_session =
  bs_HostID :: string
  bs_StartedAt :: "time option"

record analytics_world =
  an_events :: mem_events
  an_admin :: admin_world
  an_ledger :: mem_ledger
  an_streams :: mem_sessions

definition analyticsRequirePermission :: "analytics_world \<Rightarrow> string \<Rightarrow> bool" where
  "analyticsRequirePermission w actorID = HasPermission (an_admin w) actorID PermAnalyticsView"

definition gift_legs :: "string \<Rightarrow> string \<Rightarrow> entry list \<Rightarrow> int \<times> int" where
  "gift_legs sender recipient es =
     fold (\<lambda>e (grossCoins, creatorDiamonds).
         if e_account e = UserCoinsAccount sender then (neg64 (e_amount e), creatorDiamonds)
         else if e_account e = UserDiamondsAccount recipient then (grossCoins, e_amount e)
         else (grossCoins, creatorDiamonds))
       es (0, 0)"

definition gift_of_tx :: "transaction \<Rightarrow> gift_txn option" where
  "gift_of_tx tx =
     (let sender = meta_string (tx_Metadata tx) ''sender_id'';
          recipient = meta_string (tx_Metadata tx) ''recipient_id'';
          giftID = meta_string (tx_Metadata tx) ''gift_id''
      in if sender = [] \<or> recipient = [] then None
         else let (grossCoins, creatorDiamonds) = gift_legs sender recipient (tx_Entries tx)
              in Some \<lparr>gx_SenderID = sender, gx_RecipientID = recipient, gx_GiftID = giftID,
                       gx_CreatorDiamonds = creatorDiamonds, gx_GrossCoins = grossCoins, gx_CreatedAt = tx_CreatedAt tx\<rparr>)"

definition analyticsListGifts :: "analytics_world \<Rightarrow> time \<Rightarrow> gift_txn list" where
  "analyticsListGifts w since = List.map_filter gift_of_tx (ListByKind (an_ledger w) ''gift'' since)"

definition purchase_of_tx :: "transaction \<Rightarrow> purchase_txn option" where
  "purchase_of_tx tx =
     (let acctID = meta_string (tx_Metadata tx) ''account_id''
      in if acctID = [] then None
         else Some \<lparr>px_AccountID = acctID,
                    px_Coins = fold (\<lambda>e coins. if e_account e = UserCoinsAccount acctID then e_amount e else coins) (tx_Entries tx) 0,
                    px_CreatedAt = tx_CreatedAt tx\<rparr>)"

definition analyticsListPurchases :: "analytics_world \<Rightarrow> time \<Rightarrow> purchase_txn list" where
  "analyticsListPurchases w since = List.map_filter purchase_of_tx (ListByKind (an_ledger w) ''purchase'' since)"

definition analyticsListBroadcasts :: "analytics_world \<Rightarrow> broadcast_session list" where
  "analyticsListBroadcasts w =
     map (\<lambda>s. \<lparr>bs_HostID = sn_HostID s, bs_StartedAt = sn_StartedAt s\<rparr>) (ListAllSessions (an_streams w))"

section \<open>The service\<close>

definition an_requirePerm :: "analytics_world \<Rightarrow> string \<Rightarrow> analytics_error option" where
  "an_requirePerm w actorID = (if \<not> analyticsRequirePermission w actorID then Some ErrAnalyticsForbidden else None)"

definition RecordEvent :: "analytics_world \<Rightarrow> time \<Rightarrow> string \<Rightarrow> event_type \<Rightarrow> analytics_world" where
  "RecordEvent w now accountID eventType = w\<lparr>an_events := snd (EventAppend (an_events w) now accountID eventType)\<rparr>"

text \<open>\<open>set[k] = true\<close>.\<close>

definition mark :: "'k \<Rightarrow> 'k list \<Rightarrow> 'k list" where
  "mark k ks = (if k \<in> set ks then ks else ks @ [k])"

definition GetDAUMAU :: "analytics_world \<Rightarrow> time \<Rightarrow> string \<Rightarrow> analytics_error + dau_mau" where
  "GetDAUMAU w now actorID =
     (case an_requirePerm w actorID of
        Some err \<Rightarrow> Inl err
      | None \<Rightarrow>
          (let monthEvents = EventListSince (an_events w) (now - 30 * 24 * hour);
               dayCutoff = now - 24 * hour;
               (dau, mau) = fold (\<lambda>e (dau, mau).
                   let mau = mark (av_AccountID e) mau
                   in (if After (av_CreatedAt e) dayCutoff then mark (av_AccountID e) dau else dau, mau))
                 monthEvents ([], [])
           in Inr \<lparr>dm_DAU = length dau, dm_MAU = length mau, dm_AsOf = now\<rparr>))"

definition cohort_of :: "mem_events \<Rightarrow> time \<Rightarrow> string list" where
  "cohort_of r dayStart =
     fold (\<lambda>e c. if \<not> Before (av_CreatedAt e) dayStart \<and> Before (av_CreatedAt e) (dayStart + 24 * hour)
                 then mark (av_AccountID e) c else c) (EventListByType r EventAccountCreated) []"

definition retained_in :: "string list \<Rightarrow> account_event list \<Rightarrow> time \<Rightarrow> string list" where
  "retained_in cohort allEvents winStart =
     fold (\<lambda>e c. if av_AccountID e \<in> set cohort \<and> \<not> Before (av_CreatedAt e) winStart \<and>
                    Before (av_CreatedAt e) (winStart + 24 * hour)
                 then mark (av_AccountID e) c else c) allEvents []"

definition GetRetention :: "(nat \<Rightarrow> nat \<Rightarrow> 'f) \<Rightarrow> 'f \<Rightarrow> (time \<Rightarrow> time) \<Rightarrow> analytics_world \<Rightarrow> string \<Rightarrow> time \<Rightarrow>
    analytics_error + 'f retention_point list" where
  "GetRetention pct zero midnight w actorID cohortDate =
     (case an_requirePerm w actorID of
        Some err \<Rightarrow> Inl err
      | None \<Rightarrow>
          (let dayStart = midnight cohortDate;
               cohort = cohort_of (an_events w) dayStart;
               allEvents = EventListSince (an_events w) dayStart
           in Inr (map (\<lambda>offset.
                let retained = retained_in cohort allEvents (dayStart + offset * 24 * hour)
                in \<lparr>rp_DaysAfter = offset, rp_CohortSize = length cohort, rp_RetainedCount = length retained,
                    rp_RetainedPct = (if 0 < length cohort then pct (length retained) (length cohort) else zero)\<rparr>)
                [1, 7, 30])))"

definition distinctAccounts :: "account_event list \<Rightarrow> string list" where
  "distinctAccounts events = fold (\<lambda>e out. mark (av_AccountID e) out) events []"

definition GetFunnel :: "(nat \<Rightarrow> nat \<Rightarrow> 'f) \<Rightarrow> 'f \<Rightarrow> analytics_world \<Rightarrow> string \<Rightarrow> analytics_error + 'f funnel_step list" where
  "GetFunnel pct zero w actorID =
     (case an_requirePerm w actorID of
        Some err \<Rightarrow> Inl err
      | None \<Rightarrow>
          (let registered = EventListByType (an_events w) EventAccountCreated;
               loggedIn = EventListByType (an_events w) EventLogin;
               gifts = analyticsListGifts w 0;
               broadcasts = analyticsListBroadcasts w;
               registeredSet = distinctAccounts registered;
               loggedInSet = fold (\<lambda>e s. mark (av_AccountID e) s) loggedIn [];
               loggedInSet = fold mark registeredSet loggedInSet;
               giftSenders = fold (\<lambda>g s. mark (gx_SenderID g) s) gifts [];
               broadcastHosts = fold (\<lambda>b s. mark (bs_HostID b) s) broadcasts [];
               ratio = (\<lambda>n. if length registeredSet = 0 then zero else pct n (length registeredSet))
           in Inr [\<lparr>fs_Name = ''registered'', fs_Count = length registeredSet, fs_PctOfFirst = ratio (length registeredSet)\<rparr>,
                   \<lparr>fs_Name = ''logged_in'', fs_Count = length loggedInSet, fs_PctOfFirst = ratio (length loggedInSet)\<rparr>,
                   \<lparr>fs_Name = ''first_gift_sent'', fs_Count = length giftSenders, fs_PctOfFirst = ratio (length giftSenders)\<rparr>,
                   \<lparr>fs_Name = ''first_broadcast_started'', fs_Count = length broadcastHosts, fs_PctOfFirst = ratio (length broadcastHosts)\<rparr>]))"

text \<open>\<open>-time.Duration(days) * 24 * time.Hour\<close> in 64 bits.\<close>

definition range_start :: "time \<Rightarrow> int \<Rightarrow> time" where
  "range_start now days = now + mul64 (mul64 (neg64 days) 24) hour"

definition GetEconomySummary :: "analytics_world \<Rightarrow> time \<Rightarrow> string \<Rightarrow> int \<Rightarrow> analytics_error + economy_summary" where
  "GetEconomySummary w now actorID days =
     (case an_requirePerm w actorID of
        Some err \<Rightarrow> Inl err
      | None \<Rightarrow>
          (let since = range_start now days;
               gifts = analyticsListGifts w since;
               purchases = analyticsListPurchases w since;
               summary = \<lparr>es_RangeDays = days, es_TotalGiftsSent = int (length gifts), es_TotalCoinsSpent = 0,
                          es_TotalDiamondsIssued = 0, es_TotalPurchases = int (length purchases), es_TotalCoinsPurchased = 0\<rparr>;
               summary = fold (\<lambda>g s. s\<lparr>es_TotalCoinsSpent := add64 (es_TotalCoinsSpent s) (gx_GrossCoins g),
                                       es_TotalDiamondsIssued := add64 (es_TotalDiamondsIssued s) (gx_CreatorDiamonds g)\<rparr>) gifts summary
           in Inr (fold (\<lambda>p s. s\<lparr>es_TotalCoinsPurchased := add64 (es_TotalCoinsPurchased s) (px_Coins p)\<rparr>) purchases summary)))"

text \<open>The \<open>bucket\<close> closure of \<open>GetCreatorTrend\<close>, which finds or makes the point of a date, with the update of
  the point.\<close>

definition on_bucket :: "string \<Rightarrow> (trend_point \<Rightarrow> trend_point) \<Rightarrow> (string \<times> trend_point) list \<Rightarrow> (string \<times> trend_point) list" where
  "on_bucket date f buckets =
     (let p = (case map_of buckets date of
                 None \<Rightarrow> \<lparr>tp_Date = date, tp_GiftsReceived = 0, tp_DiamondsEarned = 0, tp_BroadcastCount = 0\<rparr>
               | Some p \<Rightarrow> p)
      in AList.update date (f p) buckets)"

text \<open>The inner loop of the insertion sort: \<open>j\<close> goes down while the point at \<open>j\<close> is before its left neighbour.\<close>

fun sift :: "trend_point list \<Rightarrow> nat \<Rightarrow> trend_point list" where
  "sift points 0 = points"
| "sift points (Suc j) =
     (if tp_Date (points ! Suc j) < tp_Date (points ! j)
      then sift (points[Suc j := points ! j, j := points ! Suc j]) j else points)"

definition sortTrendByDate :: "trend_point list \<Rightarrow> trend_point list" where
  "sortTrendByDate points = fold (\<lambda>i points. sift points i) [1..<length points] points"

definition count_gift :: "gift_txn \<Rightarrow> trend_point \<Rightarrow> trend_point" where
  "count_gift g p = p\<lparr>tp_GiftsReceived := tp_GiftsReceived p + 1,
     tp_DiamondsEarned := add64 (tp_DiamondsEarned p) (gx_CreatorDiamonds g)\<rparr>"

definition count_broadcast :: "trend_point \<Rightarrow> trend_point" where
  "count_broadcast p = p\<lparr>tp_BroadcastCount := tp_BroadcastCount p + 1\<rparr>"

definition GetCreatorTrend :: "(time \<Rightarrow> string) \<Rightarrow> analytics_world \<Rightarrow> time \<Rightarrow> string \<Rightarrow> string \<Rightarrow> int \<Rightarrow>
    analytics_error + trend_point list" where
  "GetCreatorTrend day w now actorID creatorID days =
     (case (if actorID \<noteq> creatorID then an_requirePerm w actorID else None) of
        Some err \<Rightarrow> Inl err
      | None \<Rightarrow>
          (let since = range_start now days;
               gifts = analyticsListGifts w since;
               broadcasts = analyticsListBroadcasts w;
               buckets = fold (\<lambda>g buckets. if gx_RecipientID g \<noteq> creatorID then buckets
                    else on_bucket (day (gx_CreatedAt g)) (count_gift g) buckets) gifts [];
               buckets = fold (\<lambda>b buckets.
                    case bs_StartedAt b of
                      None \<Rightarrow> buckets
                    | Some t \<Rightarrow> if bs_HostID b \<noteq> creatorID \<or> Before t since then buckets
                                else on_bucket (day t) count_broadcast buckets) broadcasts buckets
           in Inr (sortTrendByDate (map snd buckets))))"


section \<open>Sets of accounts\<close>

lemma mark_simps [simp]: "set (mark k ks) = insert k (set ks)" "distinct (mark k ks) \<longleftrightarrow> distinct ks"
  by (auto simp: mark_def)

lemma fold_mark:
  "distinct acc \<Longrightarrow> distinct (fold (\<lambda>e c. if P e then mark (f e) c else c) es acc) \<and>
     set (fold (\<lambda>e c. if P e then mark (f e) c else c) es acc) = set acc \<union> f ` {e \<in> set es. P e}"
  by (induction es arbitrary: acc) auto

lemma length_fold_mark:
  "length (fold (\<lambda>e c. if P e then mark (f e) c else c) es []) = card (f ` {e \<in> set es. P e})"
  using fold_mark [of "[]" P f es] by (simp add: distinct_card [symmetric])

lemma fold_pair:
  "fold (\<lambda>e (a, b). (if P e then mark (f e) a else a, mark (f e) b)) es (a, b) =
     (fold (\<lambda>e c. if P e then mark (f e) c else c) es a, fold (\<lambda>e c. if True then mark (f e) c else c) es b)"
  by (induction es arbitrary: a b) auto

definition born_on :: "mem_events \<Rightarrow> time \<Rightarrow> string set" where
  "born_on r dayStart = {av_AccountID e |e. e \<in> set (mv_events r) \<and> av_Type e = EventAccountCreated \<and>
     dayStart \<le> av_CreatedAt e \<and> av_CreatedAt e < dayStart + 24 * hour}"

definition back_after :: "mem_events \<Rightarrow> time \<Rightarrow> int \<Rightarrow> string set" where
  "back_after r dayStart k = {a \<in> born_on r dayStart. \<exists>e \<in> set (mv_events r). av_AccountID e = a \<and>
     dayStart + k * 24 * hour \<le> av_CreatedAt e \<and> av_CreatedAt e < dayStart + (k + 1) * 24 * hour}"

lemma cohort_born: "set (cohort_of r d) = born_on r d" "length (cohort_of r d) = card (born_on r d)"
proof -
  let ?P = "\<lambda>e. \<not> Before (av_CreatedAt e) d \<and> Before (av_CreatedAt e) (d + 24 * hour)"
  have born: "av_AccountID ` {e \<in> set (EventListByType r EventAccountCreated). ?P e} = born_on r d"
    by (auto simp: EventListByType_def born_on_def time_defs)
  show "set (cohort_of r d) = born_on r d" "length (cohort_of r d) = card (born_on r d)"
    using fold_mark [of "[]" ?P av_AccountID "EventListByType r EventAccountCreated"]
      length_fold_mark [of ?P av_AccountID "EventListByType r EventAccountCreated"]
    unfolding born cohort_of_def by simp_all
qed

lemma retained_back:
  assumes "0 \<le> k"
  shows "length (retained_in (cohort_of r d) (EventListSince r d) (d + k * 24 * hour)) = card (back_after r d k)"
proof -
  have "av_AccountID ` {e \<in> set (EventListSince r d). av_AccountID e \<in> set (cohort_of r d) \<and>
      \<not> Before (av_CreatedAt e) (d + k * 24 * hour) \<and> Before (av_CreatedAt e) (d + k * 24 * hour + 24 * hour)} = back_after r d k"
    using assms by (auto simp: cohort_born EventListSince_def back_after_def time_defs algebra_simps)
  then show ?thesis by (simp only: retained_in_def length_fold_mark)
qed

lemma back_le_born: "card (back_after r d k) \<le> card (born_on r d)"
proof -
  have "finite (born_on r d)" by (simp add: born_on_def)
  then show ?thesis by (rule card_mono) (auto simp: back_after_def)
qed

text \<open>The activity dashboards count accounts, each once. The daily and the monthly number are the numbers of distinct
  accounts with an event in the last 24 hours and the last 30 days, the first never exceeding the second; a retention
  point counts the distinct accounts that were created on the cohort's day and had an event in the 24 hours that
  begin 1, 7 or 30 times 24 hours after its midnight, and never exceeds the size of the cohort. Without the
  permission nothing is shown.\<close>

theorem activity_counts_accounts:
  fixes pct :: "nat \<Rightarrow> nat \<Rightarrow> 'f"
  shows "if HasPermission (an_admin w) actor PermAnalyticsView
     then (\<exists>d. GetDAUMAU w now actor = Inr d \<and> dm_DAU d \<le> dm_MAU d \<and>
        dm_DAU d = card (av_AccountID ` {e \<in> set (mv_events (an_events w)). now - 24 * hour < av_CreatedAt e}) \<and>
        dm_MAU d = card (av_AccountID ` {e \<in> set (mv_events (an_events w)). now - 30 * 24 * hour \<le> av_CreatedAt e})) \<and>
       (\<exists>ps. GetRetention pct zero midnight w actor c = Inr ps \<and> map rp_DaysAfter ps = [1, 7, 30] \<and>
          list_all (\<lambda>p. rp_CohortSize p = card (born_on (an_events w) (midnight c)) \<and>
            rp_RetainedCount p = card (back_after (an_events w) (midnight c) (rp_DaysAfter p)) \<and>
            rp_RetainedCount p \<le> rp_CohortSize p) ps)
     else GetDAUMAU w now actor = Inl ErrAnalyticsForbidden \<and> GetRetention pct zero midnight w actor c = Inl ErrAnalyticsForbidden"
proof (cases "HasPermission (an_admin w) actor PermAnalyticsView")
  case False
  then show ?thesis by (simp add: GetDAUMAU_def GetRetention_def an_requirePerm_def analyticsRequirePermission_def)
next
  case True
  let ?evs = "set (mv_events (an_events w))" and ?d = "midnight c"
  have perm: "an_requirePerm w actor = None" using True by (simp add: an_requirePerm_def analyticsRequirePermission_def)
  let ?day = "{e \<in> ?evs. now - 24 * hour < av_CreatedAt e}" and ?month = "{e \<in> ?evs. now - 30 * 24 * hour \<le> av_CreatedAt e}"
  have dau: "{e \<in> set (EventListSince (an_events w) (now - 30 * 24 * hour)). After (av_CreatedAt e) (now - 24 * hour)} = ?day"
    by (auto simp: EventListSince_def time_defs)
  have mau: "{e \<in> set (EventListSince (an_events w) (now - 30 * 24 * hour)). True} = ?month"
    by (auto simp: EventListSince_def time_defs)
  have "card (av_AccountID ` ?day) \<le> card (av_AccountID ` ?month)"
    by (rule card_mono) auto
  then have one: "\<exists>d. GetDAUMAU w now actor = Inr d \<and> dm_DAU d \<le> dm_MAU d \<and>
        dm_DAU d = card (av_AccountID ` ?day) \<and> dm_MAU d = card (av_AccountID ` ?month)"
    using length_fold_mark [of "\<lambda>e. True" av_AccountID "EventListSince (an_events w) (now - 30 * 24 * hour)", unfolded mau]
      length_fold_mark [of "\<lambda>e. After (av_CreatedAt e) (now - 24 * hour)" av_AccountID "EventListSince (an_events w) (now - 30 * 24 * hour)", unfolded dau]
    by (simp add: GetDAUMAU_def perm fold_pair Let_def)
  let ?f = "\<lambda>k. let retained = retained_in (cohort_of (an_events w) ?d) (EventListSince (an_events w) ?d) (?d + k * 24 * hour)
      in \<lparr>rp_DaysAfter = k, rp_CohortSize = length (cohort_of (an_events w) ?d), rp_RetainedCount = length retained,
          rp_RetainedPct = (if 0 < length (cohort_of (an_events w) ?d) then pct (length retained) (length (cohort_of (an_events w) ?d)) else zero)\<rparr>"
  let ?P = "\<lambda>p. rp_CohortSize p = card (born_on (an_events w) ?d) \<and>
      rp_RetainedCount p = card (back_after (an_events w) ?d (rp_DaysAfter p)) \<and> rp_RetainedCount p \<le> rp_CohortSize p"
  have P: "?P (?f k)" if "0 \<le> k" for k
    using retained_back [OF that, of "an_events w" ?d] back_le_born [of "an_events w" ?d k]
    by (simp only: Let_def retention_point.select_convs cohort_born)
  have "?P p" if p: "p \<in> set (map ?f [1, 7, 30])" for p
  proof -
    obtain k where k: "k \<in> set [1, 7, 30 :: int]" "p = ?f k" using p unfolding set_map by (rule imageE)
    then have "0 \<le> k" by auto
    then show ?thesis unfolding k(2) by (rule P)
  qed
  then have "list_all ?P (map ?f [1, 7, 30])" unfolding list_all_iff by blast
  moreover have "GetRetention pct zero midnight w actor c = Inr (map ?f [1, 7, 30])"
    by (simp only: GetRetention_def perm Let_def option.case)
  moreover have "map rp_DaysAfter (map ?f [1, 7, 30]) = [1, 7, 30]" by (simp add: Let_def)
  ultimately show ?thesis unfolding if_P [OF True] using one by (intro conjI exI [of _ "map ?f [1, 7, 30]"])
qed

section \<open>The economy summary follows the ledger\<close>

definition economy_of :: "int \<Rightarrow> gift_txn list \<Rightarrow> purchase_txn list \<Rightarrow> economy_summary" where
  "economy_of days gifts purchases =
     \<lparr>es_RangeDays = days, es_TotalGiftsSent = int (length gifts),
      es_TotalCoinsSpent = wrap64 (sum_list (map gx_GrossCoins gifts)),
      es_TotalDiamondsIssued = wrap64 (sum_list (map gx_CreatorDiamonds gifts)),
      es_TotalPurchases = int (length purchases),
      es_TotalCoinsPurchased = wrap64 (sum_list (map px_Coins purchases))\<rparr>"

lemma fold_gifts:
  "fold (\<lambda>g s. s\<lparr>es_TotalCoinsSpent := add64 (es_TotalCoinsSpent s) (gx_GrossCoins g),
      es_TotalDiamondsIssued := add64 (es_TotalDiamondsIssued s) (gx_CreatorDiamonds g)\<rparr>) gifts
     \<lparr>es_RangeDays = d, es_TotalGiftsSent = n, es_TotalCoinsSpent = wrap64 a, es_TotalDiamondsIssued = wrap64 b,
      es_TotalPurchases = m, es_TotalCoinsPurchased = q\<rparr> =
   \<lparr>es_RangeDays = d, es_TotalGiftsSent = n, es_TotalCoinsSpent = wrap64 (a + sum_list (map gx_GrossCoins gifts)),
    es_TotalDiamondsIssued = wrap64 (b + sum_list (map gx_CreatorDiamonds gifts)), es_TotalPurchases = m, es_TotalCoinsPurchased = q\<rparr>"
  by (induction gifts arbitrary: a b) (simp_all add: add64_def add.assoc)

lemma fold_purchases:
  "fold (\<lambda>p s. s\<lparr>es_TotalCoinsPurchased := add64 (es_TotalCoinsPurchased s) (px_Coins p)\<rparr>) ps
     \<lparr>es_RangeDays = d, es_TotalGiftsSent = n, es_TotalCoinsSpent = x, es_TotalDiamondsIssued = y,
      es_TotalPurchases = m, es_TotalCoinsPurchased = wrap64 a\<rparr> =
   \<lparr>es_RangeDays = d, es_TotalGiftsSent = n, es_TotalCoinsSpent = x, es_TotalDiamondsIssued = y,
    es_TotalPurchases = m, es_TotalCoinsPurchased = wrap64 (a + sum_list (map px_Coins ps))\<rparr>"
  by (induction ps arbitrary: a) (simp_all add: add64_def add.assoc)

lemma GetEconomySummary_eq:
  "GetEconomySummary w now actor days =
     (if HasPermission (an_admin w) actor PermAnalyticsView
      then Inr (economy_of days (analyticsListGifts w (range_start now days)) (analyticsListPurchases w (range_start now days)))
      else Inl ErrAnalyticsForbidden)"
  by (simp add: GetEconomySummary_def an_requirePerm_def analyticsRequirePermission_def economy_of_def Let_def
      fold_gifts [where a = 0 and b = 0, simplified] fold_purchases [where a = 0, simplified])

text \<open>The journal grows at its end by a new transaction.\<close>

lemma new_post_appends:
  assumes "ledger_inv l" and "PostTransaction l now kind key md es = (Inr (t, True), l')"
  shows "journal l' = journal l @ [t] \<and> tx_Kind t = kind \<and> tx_Metadata t = md \<and> tx_Entries t = es \<and> tx_CreatedAt t = now"
  using assms
proof (cases rule: postLocked_cases [of l key now kind md es])
  case (fresh p)
  then show ?thesis
    using assms journal_posted [OF fresh(1)] by (auto simp: PostTransaction_def ledger_inv_def)
qed (auto simp: PostTransaction_def)

lemma ListByKind_journal:
  "ListByKind l kind since = filter (\<lambda>tx. tx_Kind tx = kind \<and> \<not> Before (tx_CreatedAt tx) since) (journal l)"
  by (simp add: ListByKind_def journal_def)

lemma result_keeps_IsNew: "gr_IsNew (result_of_entries a r es) = gr_IsNew r"
  by (induction es arbitrary: r) (simp_all split: if_split)

lemma finalize_IsNew: "finalizeResult s l tx a isNew = Inr r \<Longrightarrow> gr_IsNew r = isNew"
  by (auto simp: finalizeResult_def Let_def result_keeps_IsNew split: sum.splits)


lemma SendGift_new:
  assumes "SendGift s l now a b room i q key = (Inr r, l', sent)" and "gr_IsNew r" and "gs_repo s = mem_ledger_repo"
  shows "\<exists>g t. giftByID i = Some g \<and> a \<noteq> b \<and> 0 < q \<and> q \<le> maxGiftQuantity \<and>
    PostTransaction l now ''gift'' key (gift_metadata i room q a b) (gift_entries a b (gross_coins g q)) = (Inr (t, True), l') \<and>
    finalizeResult s l' t a True = Inr r"
proof -
  have static: "a \<noteq> b" "0 < q" "q \<le> maxGiftQuantity" using assms(1) by (auto simp: SendGift_def split: if_splits)
  then obtain g where g: "giftByID i = Some g" using assms(1) by (auto simp: SendGift_def split: if_splits option.splits)
  let ?post = "PostTransaction l now ''gift'' key (gift_metadata i room q a b) (gift_entries a b (gross_coins g q))"
  have fresh: "\<not> (\<exists>e. GetTransaction l key = Inr (Some e))"
    using assms(1,2) static by (auto simp: SendGift_def g assms(3) mem_ledger_repo_def dest: finalize_IsNew)
  obtain x m where x: "?post = (x, m)" by fastforce
  have "SendGift s l now a b room i q key =
      (case gift_gates s l now a b room of Some err \<Rightarrow> (Inl err, l, []) | None \<Rightarrow>
        (case ?post of (Inl err, l') \<Rightarrow> (Inl (GiftLedgerError err), l', [])
         | (Inr (tx, isNew), l') \<Rightarrow> (finalizeResult s l' tx a isNew, l', if isNew \<and> gs_onSent s then [(a, b, tx_CreatedAt tx)] else [])))"
    using static fresh by (cases "GetTransaction l key") (auto simp: SendGift_def g assms(3) mem_ledger_repo_def split: option.split)
  then obtain tx isNew where res: "x = Inr (tx, isNew)" "m = l'" and fin: "finalizeResult s l' tx a isNew = Inr r"
    using assms(1) by (cases x; cases "gift_gates s l now a b room") (auto simp: x)
  have isNew using finalize_IsNew [OF fin] assms(2) by simp
  then show ?thesis using static g x res fin by auto
qed

lemma gift_legs_gift: "gift_legs a b (gift_entries a b n) = (neg64 (neg64 n), creator_diamonds n)"
  by (simp add: gift_legs_def gift_entries_def account_defs)

lemma SendGift_journal:
  assumes "ledger_inv l" and "SendGift s l now a b room i q key = (Inr r, l', sent)" and "gr_IsNew r"
    and "gs_repo s = mem_ledger_repo" and "a \<noteq> []" and "b \<noteq> []"
  shows "\<exists>t. journal l' = journal l @ [t] \<and> tx_Kind t = ''gift'' \<and> tx_CreatedAt t = now \<and>
    gift_of_tx t = Some \<lparr>gx_SenderID = a, gx_RecipientID = b, gx_GiftID = i, gx_CreatorDiamonds = gr_CreatorDiamonds r,
      gx_GrossCoins = gr_CoinsSpent r, gx_CreatedAt = now\<rparr>"
proof -
  obtain g t where g: "giftByID i = Some g" "0 < q" "q \<le> maxGiftQuantity"
    and post: "PostTransaction l now ''gift'' key (gift_metadata i room q a b) (gift_entries a b (gross_coins g q)) = (Inr (t, True), l')"
    and fin: "finalizeResult s l' t a True = Inr r"
    using SendGift_new [OF assms(2-4)] by blast
  note t = new_post_appends [OF assms(1) post]
  note n = gross_exact [OF g]
  have dia: "0 \<le> creator_diamonds (gross_coins g q)" using n by (intro creator_diamonds_nonneg) simp_all
  have r: "gr_CoinsSpent r = neg64 (neg64 (gross_coins g q))" "gr_CreatorDiamonds r = creator_diamonds (gross_coins g q)"
    using fin t by (auto simp: finalizeResult_def Let_def result_of_gift_entries [OF dia] split: sum.splits)
  have "gift_of_tx t = Some \<lparr>gx_SenderID = a, gx_RecipientID = b, gx_GiftID = i, gx_CreatorDiamonds = gr_CreatorDiamonds r,
      gx_GrossCoins = gr_CoinsSpent r, gx_CreatedAt = now\<rparr>"
    using t assms(5,6) by (simp add: gift_of_tx_def meta_string_def gift_metadata_def gift_legs_gift r)
  then show ?thesis using t by blast
qed

lemma map_filter_snoc [simp]: "List.map_filter f (xs @ [x]) = List.map_filter f xs @ (case f x of None \<Rightarrow> [] | Some y \<Rightarrow> [y])"
  by (simp add: List.map_filter_def split: option.split)

lemma purchases_after_other:
  assumes "journal l' = journal (an_ledger w) @ [t]" and "tx_Kind t \<noteq> ''purchase''"
  shows "analyticsListPurchases (w\<lparr>an_ledger := l'\<rparr>) since = analyticsListPurchases w since"
  using assms by (simp add: analyticsListPurchases_def ListByKind_journal)

lemma gifts_after:
  assumes "journal l' = journal (an_ledger w) @ [t]"
  shows "analyticsListGifts (w\<lparr>an_ledger := l'\<rparr>) since =
    analyticsListGifts w since @
      (if tx_Kind t = ''gift'' \<and> \<not> Before (tx_CreatedAt t) since then (case gift_of_tx t of None \<Rightarrow> [] | Some g \<Rightarrow> [g]) else [])"
  using assms by (simp add: analyticsListGifts_def ListByKind_journal)

lemma ReverseTransaction_journal:
  assumes "ledger_inv l" and "ReverseTransaction l now i key reason = (Inr (t, b), l')"
  shows "journal l' = journal l \<or> journal l' = journal l @ [t] \<and> tx_Kind t = ''reversal''"
proof (cases rule: ReverseTransaction_cases [of l key now i reason])
  case (fresh u p tx)
  have "journal ((posted l p tx)\<lparr>ml_reversalOf := m\<rparr>) = journal l @ [tx]" for m
    using journal_posted [OF fresh(4)] assms(1) by (simp add: journal_def ledger_inv_def)
  then show ?thesis using assms(2) fresh by (auto simp: new_tx_def)
qed (use assms(2) in auto)


text \<open>The economy summary has every gift at once, and keeps it after a refund. When a new gift goes through, the
  summary of any range that includes the moment shows one gift more, more coins spent by what the sender was charged
  and more diamonds issued by what the recipient got (in 64 bits), and the same purchases; a range that starts later
  is unchanged. But a reversal of whatever transaction changes no summary: a gift that was refunded stays among the
  coins spent and the diamonds issued.\<close>

theorem gift_counted_once:
  assumes "ledger_inv (an_ledger w)" and "gs_repo s = mem_ledger_repo" and "a \<noteq> []" and "b \<noteq> []"
    and "SendGift s (an_ledger w) now a b room i q key = (Inr r, l', sent)" and "gr_IsNew r"
    and "GetEconomySummary w t actor days = Inr es"
    and "ReverseTransaction l' now' tid key' reason = (Inr (rt, fresh), l'')"
  shows "GetEconomySummary (w\<lparr>an_ledger := l'\<rparr>) t actor days =
      Inr (if now < range_start t days then es
           else es\<lparr>es_TotalGiftsSent := es_TotalGiftsSent es + 1,
                   es_TotalCoinsSpent := add64 (es_TotalCoinsSpent es) (gr_CoinsSpent r),
                   es_TotalDiamondsIssued := add64 (es_TotalDiamondsIssued es) (gr_CreatorDiamonds r)\<rparr>) \<and>
    GetEconomySummary (w\<lparr>an_ledger := l''\<rparr>) t actor days = GetEconomySummary (w\<lparr>an_ledger := l'\<rparr>) t actor days"
proof -
  let ?since = "range_start t days" and ?w = "w\<lparr>an_ledger := l'\<rparr>"
  obtain u where u: "journal l' = journal (an_ledger w) @ [u]" "tx_Kind u = ''gift''" "tx_CreatedAt u = now"
    "gift_of_tx u = Some \<lparr>gx_SenderID = a, gx_RecipientID = b, gx_GiftID = i, gx_CreatorDiamonds = gr_CreatorDiamonds r,
      gx_GrossCoins = gr_CoinsSpent r, gx_CreatedAt = now\<rparr>"
    using SendGift_journal [OF assms(1,5,6,2,3,4)] by blast
  have perm: "HasPermission (an_admin w) actor PermAnalyticsView"
    and es: "es = economy_of days (analyticsListGifts w ?since) (analyticsListPurchases w ?since)"
    using assms(7) by (auto simp: GetEconomySummary_eq split: if_splits)
  have p: "analyticsListPurchases ?w ?since = analyticsListPurchases w ?since"
    by (rule purchases_after_other [OF u(1)]) (simp add: u(2))
  note g = gifts_after [OF u(1), of ?since, unfolded u(4), simplified option.case u(2,3)]
  have one: "GetEconomySummary ?w t actor days =
      Inr (if now < ?since then es
           else es\<lparr>es_TotalGiftsSent := es_TotalGiftsSent es + 1,
                   es_TotalCoinsSpent := add64 (es_TotalCoinsSpent es) (gr_CoinsSpent r),
                   es_TotalDiamondsIssued := add64 (es_TotalDiamondsIssued es) (gr_CreatorDiamonds r)\<rparr>)"
    using perm by (simp add: GetEconomySummary_eq p g es economy_of_def Before_def add64_def)
  obtain g' t' where post: "PostTransaction (an_ledger w) now ''gift'' key (gift_metadata i room q a b) (gift_entries a b (gross_coins g' q)) = (Inr (t', True), l')"
    using SendGift_new [OF assms(5,6,2)] by blast
  have inv: "ledger_inv l'"
    using ledger_inv_postLocked [OF assms(1)] post by (metis PostTransaction_def snd_conv)
  have two: "GetEconomySummary (w\<lparr>an_ledger := l''\<rparr>) t actor days = GetEconomySummary ?w t actor days"
    using ReverseTransaction_journal [OF inv assms(8)]
  proof
    assume "journal l'' = journal l'"
    then show ?thesis
      by (simp add: GetEconomySummary_eq analyticsListGifts_def analyticsListPurchases_def ListByKind_journal)
  next
    assume j: "journal l'' = journal l' @ [rt] \<and> tx_Kind rt = ''reversal''"
    then show ?thesis
      using gifts_after [of l'' ?w rt ?since] purchases_after_other [of l'' ?w rt ?since]
      by (simp add: GetEconomySummary_eq)
  qed
  show ?thesis using one two by blast
qed


definition demo_analytics :: analytics_world where
  "demo_analytics = \<lparr>an_events = NewMemEventRepo, an_admin = demo_console, an_ledger = demo_ledger, an_streams = NewMemSessionRepo\<rparr>"

lemma demo_gift_run:
  "case SendGift demo_gifts demo_ledger 9 ''a'' ''b'' [] ''g_rose'' 2 ''k2'' of
     (Inr r, l', sent) \<Rightarrow> gr_IsNew r \<and> gr_CoinsSpent r = 20 \<and>
       (case ReverseTransaction l' 10 (gr_TransactionID r) ''k3'' ''refund'' of (Inr (rt, fresh), l'') \<Rightarrow> fresh | _ \<Rightarrow> False)
   | _ \<Rightarrow> False"
  by code_simp

lemma gift_counted_once_witness:
  "\<exists>r l' sent es es'. SendGift demo_gifts demo_ledger 9 ''a'' ''b'' [] ''g_rose'' 2 ''k2'' = (Inr r, l', sent) \<and>
     GetEconomySummary demo_analytics 9 ''fin'' 30 = Inr es \<and>
     GetEconomySummary (demo_analytics\<lparr>an_ledger := l'\<rparr>) 9 ''fin'' 30 = Inr es' \<and>
     es_TotalGiftsSent es' = es_TotalGiftsSent es + 1 \<and> es_TotalCoinsSpent es' = add64 (es_TotalCoinsSpent es) 20"
proof -
  obtain r l' sent where s: "SendGift demo_gifts demo_ledger 9 ''a'' ''b'' [] ''g_rose'' 2 ''k2'' = (Inr r, l', sent)"
    and r: "gr_IsNew r" "gr_CoinsSpent r = 20"
    and rev: "case ReverseTransaction l' 10 (gr_TransactionID r) ''k3'' ''refund'' of (Inr (rt, fresh), l'') \<Rightarrow> fresh | _ \<Rightarrow> False"
    using demo_gift_run by (cases "SendGift demo_gifts demo_ledger 9 ''a'' ''b'' [] ''g_rose'' 2 ''k2''") (auto split: sum.splits)
  obtain rt fresh l'' where rv: "ReverseTransaction l' 10 (gr_TransactionID r) ''k3'' ''refund'' = (Inr (rt, fresh), l'')"
    using rev by (cases "ReverseTransaction l' 10 (gr_TransactionID r) ''k3'' ''refund''") (auto split: sum.splits)
  have w: "an_ledger demo_analytics = demo_ledger" "gs_repo demo_gifts = mem_ledger_repo"
    by (simp_all add: demo_analytics_def demo_gifts_def)
  have inv: "ledger_inv (an_ledger demo_analytics)" unfolding w by (rule ledger_reachable_inv [OF demo_reachable])
  have perm: "HasPermission (an_admin demo_analytics) ''fin'' PermAnalyticsView"
    by (simp add: HasPermission_def demo_analytics_def demo_console_def MemGetRole_def RoleHasPermission_def RolePermissions_def
        RoleSupport_def RoleFinance_def RoleTrustSafety_def RoleSuperAdmin_def)
  obtain es where es: "GetEconomySummary demo_analytics 9 ''fin'' 30 = Inr es" using perm by (simp add: GetEconomySummary_eq)
  have "\<not> 9 < range_start 9 30" by (simp add: range_start_def mul64_def neg64_def wrap64_def)
  then show ?thesis
    using gift_counted_once [OF inv w(2) _ _ s [folded w(1)] r(1) es rv] s es r(2) by simp
qed

section \<open>The trend of a creator\<close>

lemma sift_insert:
  "sorted (map tp_Date ys) \<Longrightarrow>
   \<exists>ws. sift (ys @ x # zs) (length ys) = ws @ zs \<and> mset ws = add_mset x (mset ys) \<and> sorted (map tp_Date ws)"
proof (induction ys arbitrary: zs rule: rev_induct)
  case Nil
  show ?case by (intro exI [of _ "[x]"]) simp
next
  case (snoc y ys)
  have s: "sorted (map tp_Date ys)" "\<forall>u \<in> set ys. tp_Date u \<le> tp_Date y"
    using snoc.prems by (auto simp: sorted_append)
  have swap: "(ys @ y # x # zs)[Suc (length ys) := y, length ys := x] = ys @ x # y # zs"
    by (simp add: list_update_append)
  have nth: "(ys @ y # x # zs) ! Suc (length ys) = x" "(ys @ y # x # zs) ! length ys = y" by (simp_all add: nth_append)
  show ?case
  proof (cases "tp_Date x < tp_Date y")
    case True
    obtain ws where ws: "sift (ys @ x # y # zs) (length ys) = ws @ y # zs" "mset ws = add_mset x (mset ys)" "sorted (map tp_Date ws)"
      using snoc.IH [OF s(1), of "y # zs"] by blast
    have "set ws = insert x (set ys)" using ws(2) by (metis set_mset_add_mset_insert set_mset_mset)
    then have "sorted (map tp_Date (ws @ [y]))" using ws(3) s(2) True by (auto simp: sorted_append)
    moreover have "sift ((ys @ [y]) @ x # zs) (length (ys @ [y])) = (ws @ [y]) @ zs"
      using True ws(1) by (simp add: nth swap)
    ultimately show ?thesis using ws(2) by (intro exI [of _ "ws @ [y]"]) simp
  next
    case False
    then have "sift ((ys @ [y]) @ x # zs) (length (ys @ [y])) = (ys @ [y, x]) @ zs" by (simp add: nth)
    moreover have "sorted (map tp_Date (ys @ [y, x]))" using s False by (auto simp: sorted_append intro: order_trans)
    ultimately show ?thesis by (intro exI [of _ "ys @ [y, x]"]) simp
  qed
qed

lemma sort_loop:
  "n \<le> length ps \<Longrightarrow> \<exists>ws. fold (\<lambda>i points. sift points i) [1..<n] ps = ws @ drop n ps \<and>
     mset ws = mset (take n ps) \<and> sorted (map tp_Date ws) \<or> n = 0"
proof (induction n)
  case (Suc n)
  show ?case
  proof (cases "n = 0")
    case True
    then show ?thesis using Suc.prems by (intro exI [of _ "take 1 ps"]) (cases ps; simp)
  next
    case False
    then obtain ws where ws: "fold (\<lambda>i points. sift points i) [1..<n] ps = ws @ drop n ps" "mset ws = mset (take n ps)" "sorted (map tp_Date ws)"
      using Suc by auto
    have len: "length ws = n" using ws(2) Suc.prems by (metis Suc_leD length_take min.absorb2 size_mset)
    have d: "drop n ps = ps ! n # drop (Suc n) ps" using Suc.prems by (simp add: Cons_nth_drop_Suc)
    obtain vs where vs: "sift (ws @ ps ! n # drop (Suc n) ps) n = vs @ drop (Suc n) ps" "mset vs = add_mset (ps ! n) (mset ws)" "sorted (map tp_Date vs)"
      using sift_insert [OF ws(3), of "ps ! n" "drop (Suc n) ps"] unfolding len by blast
    have "take (Suc n) ps = take n ps @ [ps ! n]" using Suc.prems by (simp add: take_Suc_conv_app_nth)
    then show ?thesis using False vs ws by (intro exI [of _ vs]) (simp add: d)
  qed
qed simp

lemma sortTrendByDate_sorts: "mset (sortTrendByDate ps) = mset ps \<and> sorted (map tp_Date (sortTrendByDate ps))"
  using sort_loop [of "length ps" ps] by (cases "ps = []") (auto simp: sortTrendByDate_def)

text \<open>The points of the days, as the map of buckets keeps them.\<close>

definition buckets_ok :: "(string \<times> trend_point) list \<Rightarrow> bool" where
  "buckets_ok bs \<longleftrightarrow> distinct (map fst bs) \<and> (\<forall>(d, p) \<in> set bs. tp_Date p = d)"


lemma on_bucket_map_of:
  "map_of (on_bucket d f bs) d' =
     (if d' = d then Some (f (case map_of bs d of
          None \<Rightarrow> \<lparr>tp_Date = d, tp_GiftsReceived = 0, tp_DiamondsEarned = 0, tp_BroadcastCount = 0\<rparr> | Some p \<Rightarrow> p))
      else map_of bs d')"
  by (simp add: on_bucket_def Let_def update_conv')

lemma on_bucket_wf: "wf_map bs \<Longrightarrow> wf_map (on_bucket d f bs)"
  by (simp add: on_bucket_def Let_def)

definition gifts_on :: "(time \<Rightarrow> string) \<Rightarrow> string \<Rightarrow> string \<Rightarrow> gift_txn list \<Rightarrow> gift_txn list" where
  "gifts_on day c d gs = filter (\<lambda>g. gx_RecipientID g = c \<and> day (gx_CreatedAt g) = d) gs"

definition starts_on :: "(time \<Rightarrow> string) \<Rightarrow> string \<Rightarrow> time \<Rightarrow> string \<Rightarrow> broadcast_session list \<Rightarrow> broadcast_session list" where
  "starts_on day c since d bs =
     filter (\<lambda>b. bs_HostID b = c \<and> (case bs_StartedAt b of None \<Rightarrow> False | Some t \<Rightarrow> \<not> Before t since \<and> day t = d)) bs"

definition point_of :: "string \<Rightarrow> gift_txn list \<Rightarrow> broadcast_session list \<Rightarrow> trend_point" where
  "point_of d gs bs = \<lparr>tp_Date = d, tp_GiftsReceived = int (length gs),
     tp_DiamondsEarned = wrap64 (sum_list (map gx_CreatorDiamonds gs)), tp_BroadcastCount = int (length bs)\<rparr>"

lemma gift_buckets:
  "let bk = fold (\<lambda>g bk. if gx_RecipientID g \<noteq> c then bk else on_bucket (day (gx_CreatedAt g)) (count_gift g) bk) gs []
   in wf_map bk \<and> (\<forall>d. map_of bk d = (if gifts_on day c d gs = [] then None else Some (point_of d (gifts_on day c d gs) [])))"
proof (induction gs rule: rev_induct)
  case (snoc g gs)
  then show ?case
    by (auto simp: Let_def on_bucket_wf on_bucket_map_of gifts_on_def point_of_def count_gift_def add64_def)
qed (simp add: gifts_on_def)

lemma broadcast_buckets:
  assumes "wf_map bk0" and "\<And>d. map_of bk0 d = (if G d = [] then None else Some (point_of d (G d) []))"
  shows "let bk = fold (\<lambda>b bk. case bs_StartedAt b of None \<Rightarrow> bk
        | Some t \<Rightarrow> if bs_HostID b \<noteq> c \<or> Before t since then bk else on_bucket (day t) count_broadcast bk) bs bk0
    in wf_map bk \<and> (\<forall>d. map_of bk d =
       (if G d = [] \<and> starts_on day c since d bs = [] then None else Some (point_of d (G d) (starts_on day c since d bs))))"
proof (induction bs rule: rev_induct)
  case Nil
  then show ?case using assms by (simp add: starts_on_def)
next
  case (snoc b bs)
  then show ?case
    by (cases "bs_StartedAt b") (auto simp: Let_def on_bucket_wf on_bucket_map_of starts_on_def point_of_def count_broadcast_def)
qed

lemma snd_image_iff: "p \<in> snd ` A \<longleftrightarrow> (\<exists>d. (d, p) \<in> A)"
  by force

text \<open>The trend of a creator, by day. A creator sees its own trend and nobody else's without the permission. The points
  come in order of their dates, at most one for each date; there is a point exactly for the dates with a gift to the
  creator or a broadcast of the creator that started in the range, and it carries the number of those gifts, the sum
  of their diamonds (in 64 bits) and the number of those broadcasts.\<close>

theorem creator_trend_by_day:
  shows "if actor = c \<or> HasPermission (an_admin w) actor PermAnalyticsView
    then \<exists>ps. GetCreatorTrend day w now actor c days = Inr ps \<and> sorted (map tp_Date ps) \<and> distinct (map tp_Date ps) \<and>
      (\<forall>p. p \<in> set ps \<longleftrightarrow>
         (\<exists>d. p = point_of d (gifts_on day c d (analyticsListGifts w (range_start now days)))
                 (starts_on day c (range_start now days) d (analyticsListBroadcasts w)) \<and>
            (gifts_on day c d (analyticsListGifts w (range_start now days)) \<noteq> [] \<or>
             starts_on day c (range_start now days) d (analyticsListBroadcasts w) \<noteq> [])))
    else GetCreatorTrend day w now actor c days = Inl ErrAnalyticsForbidden"
proof (cases "actor = c \<or> HasPermission (an_admin w) actor PermAnalyticsView")
  case False
  then show ?thesis by (simp add: GetCreatorTrend_def an_requirePerm_def analyticsRequirePermission_def)
next
  case True
  let ?since = "range_start now days"
  let ?gs = "analyticsListGifts w ?since" and ?bs = "analyticsListBroadcasts w"
  let ?G = "\<lambda>d. gifts_on day c d ?gs" and ?B = "\<lambda>d. starts_on day c ?since d ?bs"
  let ?first = "fold (\<lambda>g bk. if gx_RecipientID g \<noteq> c then bk else on_bucket (day (gx_CreatedAt g)) (count_gift g) bk) ?gs []"
  let ?bk = "fold (\<lambda>b bk. case bs_StartedAt b of None \<Rightarrow> bk
        | Some t \<Rightarrow> if bs_HostID b \<noteq> c \<or> Before t ?since then bk else on_bucket (day t) count_broadcast bk) ?bs ?first"
  note G0 = gift_buckets [where c = c and day = day and gs = ?gs, unfolded Let_def]
  have g1: "wf_map ?first" by (rule conjunct1 [OF G0])
  have g2: "map_of ?first d = (if ?G d = [] then None else Some (point_of d (?G d) []))" for d
    by (rule spec [OF conjunct2 [OF G0]])
  note B0 = broadcast_buckets [where G = ?G and c = c and since = ?since and day = day and bs = ?bs, OF g1 g2, unfolded Let_def]
  have b1: "wf_map ?bk" by (rule conjunct1 [OF B0])
  have b2: "map_of ?bk d = (if ?G d = [] \<and> ?B d = [] then None else Some (point_of d (?G d) (?B d)))" for d
    by (rule spec [OF conjunct2 [OF B0]])
  have mem: "(d, p) \<in> set ?bk \<longleftrightarrow> p = point_of d (?G d) (?B d) \<and> (?G d \<noteq> [] \<or> ?B d \<noteq> [])" for d p
  proof -
    have "(d, p) \<in> set ?bk \<longleftrightarrow> map_of ?bk d = Some p"
      by (rule map_of_eq_Some_iff [OF b1 [unfolded wf_map_def], symmetric])
    then show ?thesis unfolding b2 by (auto split: if_splits)
  qed
  have date: "tp_Date (snd x) = fst x" if "x \<in> set ?bk" for x
  proof -
    have "snd x = point_of (fst x) (?G (fst x)) (?B (fst x))"
      using mem [of "fst x" "snd x"] that unfolding prod.collapse by blast
    then show ?thesis by (simp only: point_of_def trend_point.select_convs)
  qed
  have dates: "map tp_Date (map snd ?bk) = map fst ?bk"
    unfolding map_map by (rule map_cong [OF HOL.refl], unfold comp_def, rule date)
  have S: "mset (sortTrendByDate (map snd ?bk)) = mset (map snd ?bk)" "sorted (map tp_Date (sortTrendByDate (map snd ?bk)))"
    using sortTrendByDate_sorts by blast+
  have m: "mset (map tp_Date (sortTrendByDate (map snd ?bk))) = mset (map fst ?bk)"
    unfolding dates [symmetric] by (simp only: mset_map S(1))
  have "distinct (map tp_Date (sortTrendByDate (map snd ?bk)))"
    by (rule mset_eq_imp_distinct_iff [OF m, THEN iffD2, OF b1 [unfolded wf_map_def]])
  moreover have "p \<in> set (sortTrendByDate (map snd ?bk)) \<longleftrightarrow> (\<exists>d. p = point_of d (?G d) (?B d) \<and> (?G d \<noteq> [] \<or> ?B d \<noteq> []))" for p
  proof -
    have "set (sortTrendByDate (map snd ?bk)) = snd ` set ?bk" using mset_eq_setD [OF S(1)] unfolding set_map .
    moreover have "p \<in> snd ` set ?bk \<longleftrightarrow> (\<exists>d. (d, p) \<in> set ?bk)" by (rule snd_image_iff)
    ultimately show ?thesis unfolding mem by blast
  qed
  moreover have "GetCreatorTrend day w now actor c days = Inr (sortTrendByDate (map snd ?bk))"
    using True by (auto simp: GetCreatorTrend_def an_requirePerm_def analyticsRequirePermission_def Let_def)
  ultimately show ?thesis unfolding if_P [OF True] using S(2) by blast
qed

lemma creator_trend_by_day_witness:
  "\<exists>ps. GetCreatorTrend (\<lambda>t. ''2026-01-01'') demo_analytics 9 ''b'' ''b'' 30 = Inr ps \<and> sorted (map tp_Date ps) \<and>
     distinct (map tp_Date ps) \<and> GetCreatorTrend (\<lambda>t. ''2026-01-01'') demo_analytics 9 ''x'' ''b'' 30 = Inl ErrAnalyticsForbidden"
proof -
  have "\<not> HasPermission (an_admin demo_analytics) ''x'' PermAnalyticsView"
    by (simp add: HasPermission_def demo_analytics_def demo_console_def MemGetRole_def)
  then have x: "\<not> (''x'' = ''b'' \<or> HasPermission (an_admin demo_analytics) ''x'' PermAnalyticsView)" by simp
  have b: "''b'' = ''b'' \<or> HasPermission (an_admin demo_analytics) ''b'' PermAnalyticsView" by simp
  show ?thesis
    using creator_trend_by_day [where actor = "''b''" and c = "''b''" and w = demo_analytics and day = "\<lambda>t. ''2026-01-01''" and now = 9 and days = 30, unfolded if_P [OF b]]
      creator_trend_by_day [where actor = "''x''" and c = "''b''" and w = demo_analytics and day = "\<lambda>t. ''2026-01-01''" and now = 9 and days = 30, unfolded if_not_P [OF x]]
    by blast
qed

text \<open>In the running server no session has a start, so that no trend ever counts a broadcast.\<close>

lemma no_broadcast_in_trends:
  assumes "server_reach sig (stream_start m) v" and "an_streams w = sw_sessions v"
  shows "starts_on day c since d (analyticsListBroadcasts w) = []"
proof -
  have "unwatched m (stream_start m)" by (simp add: unwatched_def stream_start_def NewMemSessionRepo_def)
  then have "unwatched m v" using unwatched_reach [OF assms(1)] by blast
  then have "\<forall>s \<in> set (map snd (mss_sessions (an_streams w))). sn_StartedAt s = None"
    by (auto simp: unwatched_def assms(2))
  then show ?thesis by (auto simp: starts_on_def filter_empty_conv analyticsListBroadcasts_def ListAllSessions_def)
qed

text \<open>A range of more than 106,751 days wraps, and begins in the future.\<close>

lemma long_range_wraps: "now < range_start now 106752" "range_start now 106751 = now - 106751 * 24 * hour"
  by (simp_all add: range_start_def mul64_def neg64_def wrap64_def)

end
