(* ===== verification/Player.thy ===== *)
theory Player
  imports GoPrelude
begin

text \<open>
  The contracts that the clients' players follow (\<open>streaming/internal/media/lifecycle.go\<close>): the order of
  the teardown, and the back-off of the reconnect. A Go \<open>int\<close> is a 64-bit integer.
\<close>

section \<open>Teardown\<close>

datatype lifecycle_state = LifeActive | LifeKeysReleased | LifeFocusReleased | LifeReleased

datatype player_error =
    ErrWrongTeardownOrder
  | ErrAlreadyReleased
  | WrongState lifecycle_state     \<comment> \<open>\<open>ReleaseMediaKeys called in wrong state\<close>\<close>

definition NewPlayerLifecycle :: lifecycle_state where
  "NewPlayerLifecycle = LifeActive"

definition HandleVolumeKeyEvent :: "lifecycle_state \<Rightarrow> player_error option \<times> lifecycle_state" where
  "HandleVolumeKeyEvent p = (if p = LifeReleased then (None, p) else (None, p))"

definition ReleaseMediaKeys :: "lifecycle_state \<Rightarrow> player_error option \<times> lifecycle_state" where
  "ReleaseMediaKeys p =
     (if p = LifeReleased then (Some ErrAlreadyReleased, p)
      else if p \<noteq> LifeActive then (Some (WrongState p), p)
      else (None, LifeKeysReleased))"

definition ReleaseAudioFocus :: "lifecycle_state \<Rightarrow> player_error option \<times> lifecycle_state" where
  "ReleaseAudioFocus p =
     (if p = LifeReleased then (Some ErrAlreadyReleased, p)
      else if p \<noteq> LifeKeysReleased then (Some ErrWrongTeardownOrder, p)
      else (None, LifeFocusReleased))"

definition ReleasePlayer :: "lifecycle_state \<Rightarrow> player_error option \<times> lifecycle_state" where
  "ReleasePlayer p =
     (if p = LifeReleased then (Some ErrAlreadyReleased, p)
      else if p \<noteq> LifeFocusReleased then (Some ErrWrongTeardownOrder, p)
      else (None, LifeReleased))"

definition IsReleased :: "lifecycle_state \<Rightarrow> bool" where
  "IsReleased p \<longleftrightarrow> p = LifeReleased"

datatype player_call = VolumeKey | Keys | Focus | Player

fun player_do :: "lifecycle_state \<Rightarrow> player_call \<Rightarrow> player_error option \<times> lifecycle_state" where
  "player_do p VolumeKey = HandleVolumeKeyEvent p"
| "player_do p Keys = ReleaseMediaKeys p"
| "player_do p Focus = ReleaseAudioFocus p"
| "player_do p Player = ReleasePlayer p"

text \<open>The calls of a sequence that succeed, and the state at its end.\<close>

fun player_run :: "lifecycle_state \<Rightarrow> player_call list \<Rightarrow> player_call list \<times> lifecycle_state" where
  "player_run p [] = ([], p)"
| "player_run p (c # cs) =
     (let (err, p') = player_do p c; (done_calls, q) = player_run p' cs
      in (if err = None then c # done_calls else done_calls, q))"

lemmas player_defs = HandleVolumeKeyEvent_def ReleaseMediaKeys_def ReleaseAudioFocus_def ReleasePlayer_def

primrec steps_left :: "lifecycle_state \<Rightarrow> player_call list" where
  "steps_left LifeActive = [Keys, Focus, Player]"
| "steps_left LifeKeysReleased = [Focus, Player]"
| "steps_left LifeFocusReleased = [Player]"
| "steps_left LifeReleased = []"

lemma player_run_steps:
  "steps_left p = filter (\<lambda>c. c \<noteq> VolumeKey) (fst (player_run p cs)) @ steps_left (snd (player_run p cs))"
proof (induction cs arbitrary: p)
  case (Cons c cs)
  obtain err p' where d: "player_do p c = (err, p')" by fastforce
  have "steps_left p = (if err = None \<and> c \<noteq> VolumeKey then c # steps_left p' else steps_left p')"
    using d by (cases c; cases p) (auto simp: player_defs)
  then show ?case using Cons.IH [of p'] by (auto simp: d Let_def case_prod_beta)
qed simp

text \<open>The player is torn down in one order only. Whatever the client calls, in whatever order and how often, the
  release calls that succeed are, in this order and each at most once, the media keys, the audio focus and the player;
  the player counts as released exactly when all three have succeeded; and a volume key never fails.\<close>

theorem teardown_order:
  "\<exists>k. filter (\<lambda>c. c \<noteq> VolumeKey) (fst (player_run NewPlayerLifecycle cs)) = take k [Keys, Focus, Player] \<and>
     (IsReleased (snd (player_run NewPlayerLifecycle cs)) \<longleftrightarrow>
        filter (\<lambda>c. c \<noteq> VolumeKey) (fst (player_run NewPlayerLifecycle cs)) = [Keys, Focus, Player]) \<and>
     filter (\<lambda>c. c = VolumeKey) (fst (player_run NewPlayerLifecycle cs)) = filter (\<lambda>c. c = VolumeKey) cs"
proof -
  let ?done = "filter (\<lambda>c. c \<noteq> VolumeKey) (fst (player_run LifeActive cs))" and ?q = "snd (player_run LifeActive cs)"
  have s: "[Keys, Focus, Player] = ?done @ steps_left ?q" using player_run_steps [of LifeActive cs] by simp
  then have "?done = take (length ?done) [Keys, Focus, Player]" by (metis append_eq_conv_conj)
  moreover have "?q = LifeReleased \<longleftrightarrow> ?done = [Keys, Focus, Player]" using s by (cases ?q) auto
  moreover have "filter (\<lambda>c. c = VolumeKey) (fst (player_run p cs)) = filter (\<lambda>c. c = VolumeKey) cs" for p
  proof (induction cs arbitrary: p)
    case (Cons c cs)
    show ?case using Cons.IH by (cases c) (auto simp: Let_def case_prod_beta HandleVolumeKeyEvent_def)
  qed simp
  ultimately show ?thesis unfolding NewPlayerLifecycle_def IsReleased_def by blast
qed

section \<open>Reconnect\<close>

record reconnect_state =
  rs_Attempt :: int
  rs_MaxAttempts :: int

definition NewReconnectState :: "int \<Rightarrow> reconnect_state" where
  "NewReconnectState maxAttempts = \<lparr>rs_Attempt = 0, rs_MaxAttempts = maxAttempts\<rparr>"

text \<open>The loop of \<open>NextBackoffMs\<close>, with the number of rounds left; it breaks at the cap.\<close>

fun backoff_loop :: "nat \<Rightarrow> int \<Rightarrow> int" where
  "backoff_loop 0 base = base"
| "backoff_loop (Suc n) base =
     (let base = mul64 base 2 in if 60000 < base then 60000 else backoff_loop n base)"

definition NextBackoffMs :: "reconnect_state \<Rightarrow> int" where
  "NextBackoffMs r = backoff_loop (nat (rs_Attempt r)) 500"

definition ShouldGiveUp :: "reconnect_state \<Rightarrow> bool" where
  "ShouldGiveUp r \<longleftrightarrow> rs_MaxAttempts r \<le> rs_Attempt r"

lemma backoff_loop_exact: "0 < b \<Longrightarrow> b \<le> 60000 \<Longrightarrow> backoff_loop n b = min 60000 (b * 2 ^ n)"
proof (induction n arbitrary: b)
  case (Suc n)
  have m: "mul64 b 2 = b * 2" using Suc.prems by (intro mul64_id) (simp add: in_i64_def)
  show ?case
  proof (cases "60000 < b * 2")
    case True
    have "b * 1 \<le> b * 2 ^ n" using Suc.prems by (intro mult_left_mono) simp_all
    then have "b \<le> b * 2 ^ n" by simp
    then have "60000 \<le> b * 2 ^ Suc n" using True by (simp add: order_trans [OF less_imp_le])
    then show ?thesis using True by (simp add: m min_def del: power_Suc)
  next
    case False
    then show ?thesis using Suc.IH [of "b * 2"] Suc.prems by (simp add: m)
  qed
qed simp

text \<open>The back-off is the documented formula, without overflow. For every number of attempts, however large, the wait
  is the smaller of 60,000 and 500 times two to the power of the attempts (a negative number counting as none):
  the loop breaks at the cap before anything can wrap. It never decreases as the attempts go on.\<close>

theorem backoff_formula:
  "NextBackoffMs r = min 60000 (500 * 2 ^ nat (rs_Attempt r)) \<and>
   (\<forall>k. NextBackoffMs r \<le> NextBackoffMs (r\<lparr>rs_Attempt := rs_Attempt r + int k\<rparr>))"
proof -
  have e: "NextBackoffMs r = min 60000 (500 * 2 ^ nat (rs_Attempt r))" for r
    by (simp add: NextBackoffMs_def backoff_loop_exact)
  have "nat (rs_Attempt r) \<le> nat (rs_Attempt r + int k)" for k by simp
  then have "(2 :: int) ^ nat (rs_Attempt r) \<le> 2 ^ nat (rs_Attempt r + int k)" for k
    by (rule power_increasing) simp
  then show ?thesis unfolding e by (auto simp: min_def intro: order_trans)
qed

end
