(* ===== verification/Persistence.thy ===== *)
theory Persistence
  imports Auth Profile Ledger Edge
begin

text \<open>
  The local state file: \<open>feed/cmd/api/localstate.go\<close> and the \<open>Snapshot\<close> and \<open>Restore\<close> of the five stores it
  keeps (accounts, profiles, privacy, social graph, ledger). A save takes the five snapshots one after the
  other, each under the lock of its store, writes their JSON text to a temporary file and renames it; requests
  run in between. Saves are started by a ticker and once more when the server is told to stop.

  A byte of a file is named by the text it belongs to and its place in it (\<open>None\<close> is the zero byte of a
  hole), so that \<open>json.Unmarshal\<close> reads back a complete text and refuses everything else; \<open>len\<close>, the length of
  a text less one, is an argument. Strings are valid UTF-8. A file has an inode, which an open descriptor
  keeps through a rename. The disk itself does not lose what was written to it.
\<close>

section \<open>Snapshots\<close>

text \<open>A part of the file: absent, not readable as a snapshot of its store, or a snapshot.\<close>

datatype 'a raw = NoPart | BadPart | Part 'a

text \<open>\<open>None\<close> is a map the text does not have.\<close>

record auth_snapshot =
  rs_Accounts :: "(string \<times> account) list option"
  rs_ByPhone :: "(string \<times> string) list option"
  rs_ByEmail :: "(string \<times> string) list option"
  rs_Hashes :: "(string \<times> string) list option"
  rs_Sessions :: "(string \<times> session) list option"
  rs_Ages :: "(string \<times> time) list option"
  rs_AgeStatus :: "(string \<times> age_status) list option"
  rs_NextID :: nat

definition AuthSnapshot :: "mem_auth \<Rightarrow> auth_snapshot" where
  "AuthSnapshot m = \<lparr>rs_Accounts = Some (ma_accounts m), rs_ByPhone = Some (ma_byPhone m), rs_ByEmail = Some (ma_byEmail m),
     rs_Hashes = Some (ma_hashes m), rs_Sessions = Some (ma_sessions m), rs_Ages = Some (ma_ages m),
     rs_AgeStatus = Some (ma_ageStatus m), rs_NextID = ma_nextID m\<rparr>"

definition or_keep :: "'a option \<Rightarrow> 'a \<Rightarrow> 'a" where
  "or_keep x old = (case x of None \<Rightarrow> old | Some new \<Rightarrow> new)"

definition AuthRestore :: "mem_auth \<Rightarrow> auth_snapshot \<Rightarrow> mem_auth" where
  "AuthRestore m s = m\<lparr>ma_accounts := or_keep (rs_Accounts s) (ma_accounts m), ma_byPhone := or_keep (rs_ByPhone s) (ma_byPhone m),
     ma_byEmail := or_keep (rs_ByEmail s) (ma_byEmail m), ma_hashes := or_keep (rs_Hashes s) (ma_hashes m),
     ma_sessions := or_keep (rs_Sessions s) (ma_sessions m), ma_ages := or_keep (rs_Ages s) (ma_ages m),
     ma_ageStatus := or_keep (rs_AgeStatus s) (ma_ageStatus m), ma_nextID := rs_NextID s\<rparr>"

definition PrivacySnapshot :: "mem_privacy \<Rightarrow> mem_privacy option" where
  "PrivacySnapshot r = Some r"

definition PrivacyRestore :: "mem_privacy \<Rightarrow> mem_privacy option \<Rightarrow> mem_privacy" where
  "PrivacyRestore r s = or_keep s r"

record local_repos =
  lr_Auth :: mem_auth
  lr_Profile :: mem_profile_repo
  lr_Privacy :: mem_privacy
  lr_Social :: mem_social
  lr_Ledger :: mem_ledger

record local_state =
  st_Auth :: "auth_snapshot raw"
  st_Profile :: "profile_snapshot raw"
  st_Privacy :: "mem_privacy option raw"
  st_Social :: "social_snapshot raw"
  st_Ledger :: "ledger_snapshot raw"

definition new_repos :: local_repos where
  "new_repos = \<lparr>lr_Auth = NewMemAuth, lr_Profile = NewMemProfileRepo, lr_Privacy = [], lr_Social = NewMemSocialRepo,
     lr_Ledger = NewMemLedger\<rparr>"

section \<open>Files\<close>

type_synonym byte = "(local_state \<times> nat) option"

definition doc :: "(local_state \<Rightarrow> nat) \<Rightarrow> local_state \<Rightarrow> byte list" where
  "doc len s = map (\<lambda>k. Some (s, k)) [0..<Suc (len s)]"

definition read_doc :: "(local_state \<Rightarrow> nat) \<Rightarrow> byte list \<Rightarrow> local_state option" where
  "read_doc len t =
     (case t of Some (s, k) # bs \<Rightarrow> if t = doc len s then Some s else None | _ \<Rightarrow> None)"

record disk =
  dk_state :: "nat option"      \<comment> \<open>the inode under \<open>statePath\<close>\<close>
  dk_tmp :: "nat option"        \<comment> \<open>the inode under \<open>statePath + ".tmp"\<close>\<close>
  dk_inodes :: "byte list list"

definition state_file :: "disk \<Rightarrow> byte list option" where
  "state_file d = map_option (nth (dk_inodes d)) (dk_state d)"

text \<open>The calls of \<open>os.WriteFile\<close> and \<open>os.Rename\<close>.\<close>

definition open_tmp :: "disk \<Rightarrow> nat \<times> disk" where
  "open_tmp d =
     (case dk_tmp d of
        Some i \<Rightarrow> (i, d\<lparr>dk_inodes := (dk_inodes d)[i := []]\<rparr>)
      | None \<Rightarrow> (length (dk_inodes d), d\<lparr>dk_tmp := Some (length (dk_inodes d)), dk_inodes := dk_inodes d @ [[]]\<rparr>))"

definition write_at :: "nat \<Rightarrow> nat \<Rightarrow> byte list \<Rightarrow> disk \<Rightarrow> disk" where
  "write_at i k bs d =
     (let old = dk_inodes d ! i
      in d\<lparr>dk_inodes := (dk_inodes d)[i := take k (old @ replicate k None) @ bs @ drop (k + length bs) old]\<rparr>)"

definition rename_tmp :: "disk \<Rightarrow> disk option" where
  "rename_tmp d = (case dk_tmp d of None \<Rightarrow> None | Some i \<Rightarrow> Some (d\<lparr>dk_state := Some i, dk_tmp := None\<rparr>))"

section \<open>Loading and saving\<close>

definition restore_part :: "('r \<Rightarrow> 'a \<Rightarrow> 'r) \<Rightarrow> 'r \<Rightarrow> 'a raw \<Rightarrow> 'r" where
  "restore_part f r raw = (case raw of NoPart \<Rightarrow> r | BadPart \<Rightarrow> r | Part s \<Rightarrow> f r s)"

definition loadLocalState :: "(local_state \<Rightarrow> nat) \<Rightarrow> byte list option \<Rightarrow> local_repos \<Rightarrow> local_repos" where
  "loadLocalState len file repos =
     (case file of
        None \<Rightarrow> repos
      | Some t \<Rightarrow>
          (case read_doc len t of
             None \<Rightarrow> repos
           | Some s \<Rightarrow>
               repos\<lparr>lr_Auth := restore_part AuthRestore (lr_Auth repos) (st_Auth s),
                     lr_Profile := restore_part ProfileRestore (lr_Profile repos) (st_Profile s),
                     lr_Privacy := restore_part PrivacyRestore (lr_Privacy repos) (st_Privacy s),
                     lr_Social := restore_part SocialRestore (lr_Social repos) (st_Social s),
                     lr_Ledger := restore_part Restore (lr_Ledger repos) (st_Ledger s)\<rparr>))"

definition no_parts :: local_state where
  "no_parts = \<lparr>st_Auth = NoPart, st_Profile = NoPart, st_Privacy = NoPart, st_Social = NoPart, st_Ledger = NoPart\<rparr>"

text \<open>The five calls of \<open>snap\<close>, in order; no snapshot of these stores fails.\<close>

fun snap_part :: "local_repos \<Rightarrow> nat \<Rightarrow> local_state \<Rightarrow> local_state" where
  "snap_part r 0 s = s\<lparr>st_Auth := Part (AuthSnapshot (lr_Auth r))\<rparr>"
| "snap_part r (Suc 0) s = s\<lparr>st_Profile := Part (ProfileSnapshot (lr_Profile r))\<rparr>"
| "snap_part r (Suc (Suc 0)) s = s\<lparr>st_Privacy := Part (PrivacySnapshot (lr_Privacy r))\<rparr>"
| "snap_part r (Suc (Suc (Suc 0))) s = s\<lparr>st_Social := Part (SocialSnapshot (lr_Social r))\<rparr>"
| "snap_part r n s = s\<lparr>st_Ledger := Part (Snapshot (lr_Ledger r))\<rparr>"

text \<open>A whole save while nothing else happens and no call fails.\<close>

definition saveLocalState :: "(local_state \<Rightarrow> nat) \<Rightarrow> local_repos \<Rightarrow> disk \<Rightarrow> disk" where
  "saveLocalState len repos d =
     (let s = fold (snap_part repos) [0..<5] no_parts;
          (i, d1) = open_tmp d;
          d2 = write_at i 0 (doc len s) d1
      in (case rename_tmp d2 of None \<Rightarrow> d2 | Some d3 \<Rightarrow> d3))"

text \<open>The same in steps. \<open>ok\<close> tells whether the system call of the step succeeds, \<open>n\<close> how many bytes it
  writes; a failed call ends the save.\<close>

datatype saver =
    SvIdle
  | SvSnap local_state nat
  | SvOpen local_state
  | SvWrite local_state nat nat     \<comment> \<open>text, inode, offset\<close>
  | SvRename local_state

fun save_step :: "(local_state \<Rightarrow> nat) \<Rightarrow> local_repos \<Rightarrow> bool \<Rightarrow> nat \<Rightarrow> saver \<times> disk \<Rightarrow> saver \<times> disk" where
  "save_step len r ok n (SvIdle, d) = (SvSnap no_parts 0, d)"
| "save_step len r ok n (SvSnap s p, d) =
     (if p < 5 then (SvSnap (snap_part r p s) (Suc p), d) else (SvOpen s, d))"
| "save_step len r ok n (SvOpen s, d) =
     (if \<not> ok then (SvIdle, d) else (let (i, d') = open_tmp d in (SvWrite s i 0, d')))"
| "save_step len r ok n (SvWrite s i k, d) =
     (if \<not> ok then (SvIdle, d)
      else (let bs = take n (drop k (doc len s))
            in if k = length (doc len s) then (SvRename s, d) else (SvWrite s i (k + length bs), write_at i k bs d)))"
| "save_step len r ok n (SvRename s, d) =
     (if \<not> ok then (SvIdle, d) else (SvIdle, (case rename_tmp d of None \<Rightarrow> d | Some d' \<Rightarrow> d')))"

section \<open>The process\<close>

text \<open>What a request does to one of the stores.\<close>

inductive repo_step :: "local_repos \<Rightarrow> local_repos \<Rightarrow> bool" where
  auth: "auth_ok s w c \<Longrightarrow> aw_repo w = lr_Auth r \<Longrightarrow> repo_step r (r\<lparr>lr_Auth := aw_repo (auth_do s w c)\<rparr>)"
| profile: "repo_step r (r\<lparr>lr_Profile := profile_do (lr_Profile r) c\<rparr>)"
| privacy: "repo_step r (r\<lparr>lr_Privacy := snd (PrivacyUpdate (lr_Privacy r) a v)\<rparr>)"
| follow: "repo_step r (r\<lparr>lr_Social := snd (Follow (lr_Social r) now a b)\<rparr>)"
| unfollow: "repo_step r (r\<lparr>lr_Social := snd (Unfollow (lr_Social r) a b)\<rparr>)"
| block: "repo_step r (r\<lparr>lr_Social := snd (BlockAccount (lr_Social r) now a b)\<rparr>)"
| unblock: "repo_step r (r\<lparr>lr_Social := snd (UnblockAccount (lr_Social r) a b)\<rparr>)"
| mute: "repo_step r (r\<lparr>lr_Social := snd (MuteAccount (lr_Social r) now a b)\<rparr>)"
| unmute: "repo_step r (r\<lparr>lr_Social := snd (UnmuteAccount (lr_Social r) a b)\<rparr>)"
| post: "ledger_step (lr_Ledger r) l \<Longrightarrow> repo_step r (r\<lparr>lr_Ledger := l\<rparr>)"

record machine =
  mc_repos :: local_repos
  mc_disk :: disk
  mc_periodic :: saver
  mc_final :: saver

text \<open>\<open>overlap\<close>: whether the save at shutdown may run beside one of the ticker. The server does not prevent
  it. A crash may come at any moment; the next process starts with a load.\<close>

definition boot :: "(local_state \<Rightarrow> nat) \<Rightarrow> disk \<Rightarrow> machine" where
  "boot len d = \<lparr>mc_repos = loadLocalState len (state_file d) new_repos, mc_disk = d, mc_periodic = SvIdle, mc_final = SvIdle\<rparr>"

inductive machine_step :: "(local_state \<Rightarrow> nat) \<Rightarrow> bool \<Rightarrow> machine \<Rightarrow> machine \<Rightarrow> bool" for len overlap where
  request: "repo_step (mc_repos m) r \<Longrightarrow> machine_step len overlap m (m\<lparr>mc_repos := r\<rparr>)"
| tick: "overlap \<or> mc_final m = SvIdle \<Longrightarrow> save_step len (mc_repos m) ok n (mc_periodic m, mc_disk m) = (sv, d) \<Longrightarrow>
    machine_step len overlap m (m\<lparr>mc_periodic := sv, mc_disk := d\<rparr>)"
| stop: "overlap \<or> mc_periodic m = SvIdle \<Longrightarrow> save_step len (mc_repos m) ok n (mc_final m, mc_disk m) = (sv, d) \<Longrightarrow>
    machine_step len overlap m (m\<lparr>mc_final := sv, mc_disk := d\<rparr>)"
| crash: "machine_step len overlap m (boot len (mc_disk m))"

inductive_cases machine_stepE: "machine_step len overlap m m'"

definition empty_disk :: disk where
  "empty_disk = \<lparr>dk_state = None, dk_tmp = None, dk_inodes = []\<rparr>"

abbreviation machine_run :: "(local_state \<Rightarrow> nat) \<Rightarrow> bool \<Rightarrow> machine \<Rightarrow> machine \<Rightarrow> bool" where
  "machine_run len overlap \<equiv> (machine_step len overlap)\<^sup>*\<^sup>*"

section \<open>A quiet save and the next start\<close>

lemma read_doc_doc [simp]: "read_doc len (doc len s) = Some s"
proof -
  have "doc len s = Some (s, 0) # map (\<lambda>k. Some (s, k)) [1..<Suc (len s)]"
    unfolding doc_def by (subst upt_conv_Cons) simp_all
  then show ?thesis by (simp add: read_doc_def split: list.split)
qed

lemma length_doc [simp]: "length (doc len s) = Suc (len s)"
  by (simp add: doc_def)

lemma from_flat_keys:
  assumes "wf_map m"
  shows "from_flat (flat_keys m) = m"
proof -
  have "wf_map (acc @ m) \<Longrightarrow> fold (\<lambda>(a, b, t). AList.update (a, b) t) (flat_keys m) acc = acc @ m" for acc
  proof (induction m arbitrary: acc)
    case (Cons x m)
    obtain a b t where x: "x = ((a, b), t)" by (metis prod.collapse)
    have new: "map_of acc (a, b) = None" and wf: "wf_map ((acc @ [((a, b), t)]) @ m)"
      using Cons.prems by (auto simp: wf_map_def x map_of_eq_None_iff)
    show ?case using Cons.IH [OF wf] by (simp add: flat_keys_def x update_new [OF new])
  qed (simp add: flat_keys_def)
  from this [of "[]"] show ?thesis using assms by (simp add: from_flat_def)
qed

definition social_ok :: "mem_social \<Rightarrow> bool" where
  "social_ok r \<longleftrightarrow> wf_map (ms_follows r) \<and> wf_map (ms_blocks r) \<and> wf_map (ms_mutes r) \<and> ms_displayNames r = []"

lemma restore_snapshot:
  "AuthRestore m0 (AuthSnapshot m) = m"
  "ProfileRestore r0 (ProfileSnapshot r) = r"
  "PrivacyRestore v0 (PrivacySnapshot v) = v"
  "social_ok g \<Longrightarrow> SocialRestore NewMemSocialRepo (SocialSnapshot g) = g"
  "Restore NewMemLedger (Snapshot l) = restart l"
  by (simp_all add: AuthRestore_def AuthSnapshot_def or_keep_def ProfileRestore_def ProfileSnapshot_def PrivacyRestore_def
      PrivacySnapshot_def SocialRestore_def SocialSnapshot_def social_ok_def from_flat_keys NewMemSocialRepo_def restart_def)

definition state_of :: "local_repos \<Rightarrow> local_state" where
  "state_of r = \<lparr>st_Auth = Part (AuthSnapshot (lr_Auth r)), st_Profile = Part (ProfileSnapshot (lr_Profile r)),
     st_Privacy = Part (PrivacySnapshot (lr_Privacy r)), st_Social = Part (SocialSnapshot (lr_Social r)),
     st_Ledger = Part (Snapshot (lr_Ledger r))\<rparr>"

lemma all_parts: "fold (snap_part r) [0..<5] no_parts = state_of r"
  by (simp add: upt_rec eval_nat_numeral no_parts_def state_of_def)

lemma load_state_of:
  "social_ok (lr_Social r) \<Longrightarrow>
   loadLocalState len (Some (doc len (state_of r))) new_repos = r\<lparr>lr_Ledger := restart (lr_Ledger r)\<rparr>"
  by (simp add: loadLocalState_def state_of_def restore_part_def restore_snapshot new_repos_def)

definition disk_wf :: "disk \<Rightarrow> bool" where
  "disk_wf d \<longleftrightarrow> (\<forall>i. dk_tmp d = Some i \<longrightarrow> i < length (dk_inodes d)) \<and> (\<forall>i. dk_state d = Some i \<longrightarrow> i < length (dk_inodes d)) \<and>
     (dk_tmp d \<noteq> None \<longrightarrow> dk_tmp d \<noteq> dk_state d)"

lemma open_tmp_props:
  assumes "open_tmp d = (i, d')" and "disk_wf d"
  shows "dk_tmp d' = Some i" "i < length (dk_inodes d')" "dk_inodes d' ! i = []" "dk_state d' = dk_state d"
    "state_file d' = state_file d" "disk_wf d'"
  using assms by (cases "dk_state d"; auto simp: open_tmp_def disk_wf_def state_file_def nth_append split: option.splits)+

lemma write_at_props:
  assumes "i < length (dk_inodes d)"
  shows "dk_tmp (write_at i k bs d) = dk_tmp d" "dk_state (write_at i k bs d) = dk_state d"
    "length (dk_inodes (write_at i k bs d)) = length (dk_inodes d)"
    "length (dk_inodes d ! i) = k \<Longrightarrow> dk_inodes (write_at i k bs d) ! i = dk_inodes d ! i @ bs"
    "dk_state d \<noteq> Some i \<Longrightarrow> state_file (write_at i k bs d) = state_file d"
    "disk_wf (write_at i k bs d) = disk_wf d"
  using assms by (cases "dk_state d"; auto simp: write_at_def Let_def disk_wf_def state_file_def)+

lemma saved_file:
  assumes "disk_wf d"
  shows "state_file (saveLocalState len r d) = Some (doc len (state_of r))"
proof -
  obtain i d1 where o: "open_tmp d = (i, d1)" by (cases "open_tmp d")
  note O = open_tmp_props [OF o assms]
  note W = write_at_props [OF O(2)]
  have "dk_tmp (write_at i 0 (doc len (state_of r)) d1) = Some i" using W(1) O(1) by simp
  moreover have "dk_inodes (write_at i 0 (doc len (state_of r)) d1) ! i = doc len (state_of r)" using W(4) O(3) by simp
  ultimately show ?thesis by (simp add: saveLocalState_def all_parts o rename_tmp_def state_file_def)
qed


section \<open>A save in steps\<close>

fun save_steps :: "(local_state \<Rightarrow> nat) \<Rightarrow> local_repos \<Rightarrow> (bool \<times> nat) list \<Rightarrow> saver \<times> disk \<Rightarrow> saver \<times> disk" where
  "save_steps len r [] c = c"
| "save_steps len r ((ok, n) # as) c = save_steps len r as (save_step len r ok n c)"

lemma ticks:
  assumes "save_steps len (mc_repos m) as (mc_periodic m, mc_disk m) = (sv, d)" and "overlap \<or> mc_final m = SvIdle"
  shows "machine_run len overlap m (m\<lparr>mc_periodic := sv, mc_disk := d\<rparr>)"
  using assms
proof (induction as arbitrary: m)
  case Nil
  then have "sv = mc_periodic m" "d = mc_disk m" by simp_all
  then show ?case by simp
next
  case (Cons a as)
  obtain ok n where a: "a = (ok, n)" by (cases a)
  obtain sv1 d1 where s: "save_step len (mc_repos m) ok n (mc_periodic m, mc_disk m) = (sv1, d1)" by fastforce
  let ?m = "m\<lparr>mc_periodic := sv1, mc_disk := d1\<rparr>"
  have "machine_run len overlap ?m (?m\<lparr>mc_periodic := sv, mc_disk := d\<rparr>)"
    using Cons.prems by (intro Cons.IH) (simp_all add: a s)
  then show ?case using machine_step.tick [OF Cons.prems(2) s] by (simp add: converse_rtranclp_into_rtranclp)
qed

lemma stops:
  assumes "save_steps len (mc_repos m) as (mc_final m, mc_disk m) = (sv, d)" and "overlap \<or> mc_periodic m = SvIdle"
  shows "machine_run len overlap m (m\<lparr>mc_final := sv, mc_disk := d\<rparr>)"
  using assms
proof (induction as arbitrary: m)
  case Nil
  then have "sv = mc_final m" "d = mc_disk m" by simp_all
  then show ?case by simp
next
  case (Cons a as)
  obtain ok n where a: "a = (ok, n)" by (cases a)
  obtain sv1 d1 where s: "save_step len (mc_repos m) ok n (mc_final m, mc_disk m) = (sv1, d1)" by fastforce
  let ?m = "m\<lparr>mc_final := sv1, mc_disk := d1\<rparr>"
  have "machine_run len overlap ?m (?m\<lparr>mc_final := sv, mc_disk := d\<rparr>)"
    using Cons.prems by (intro Cons.IH) (simp_all add: a s)
  then show ?case using machine_step.stop [OF Cons.prems(2) s] by (simp add: converse_rtranclp_into_rtranclp)
qed

text \<open>Seven steps to the open call, one to open, one to write everything, one to see that all is written, one to
  rename.\<close>

lemma steps_to_open: "save_steps len r (replicate 7 (True, n)) (SvIdle, d) = (SvOpen (state_of r), d)"
  by (simp add: eval_nat_numeral state_of_def no_parts_def)

lemma save_steps_append: "save_steps len r (as @ bs) c = save_steps len r bs (save_steps len r as c)"
  by (induction len r as c rule: save_steps.induct) simp_all

lemma steps_to_rename:
  assumes "open_tmp d = (i, d1)"
  shows "save_steps len r (replicate 10 (True, Suc (len (state_of r)))) (SvIdle, d) =
    (SvRename (state_of r), write_at i 0 (doc len (state_of r)) d1)"
proof -
  have r: "replicate 10 x = replicate 7 x @ [x, x, x]" for x :: "bool \<times> nat" by (simp add: eval_nat_numeral)
  show ?thesis unfolding r save_steps_append steps_to_open by (simp add: assms)
qed

lemma quiet_save_steps:
  "save_steps len r (replicate 11 (True, Suc (len (state_of r)))) (SvIdle, d) = (SvIdle, saveLocalState len r d)"
proof -
  obtain i d1 where o: "open_tmp d = (i, d1)" by (cases "open_tmp d")
  have r: "replicate 11 x = replicate 10 x @ [x]" for x :: "bool \<times> nat" by (simp add: eval_nat_numeral)
  show ?thesis unfolding r save_steps_append steps_to_rename [OF o]
    by (simp add: saveLocalState_def all_parts o Let_def)
qed

text \<open>C34: The steps of the file's code carry a state through a stop. A save that no call disturbs writes a file from which the
  next process starts with the same accounts, sessions, profiles, handles, privacy settings, follows, blocks and
  mutes, and the same ledger but for its idempotency keys; so it answers balances, histories and relationships as
  the old one did. It does not matter what an earlier save has left under the temporary name.\<close>

theorem save_load_round_trip:
  assumes "disk_wf d" and "social_ok (lr_Social r)" and "ledger_reachable (lr_Ledger r)"
  shows "\<exists>r'. mc_repos (boot len (saveLocalState len r d)) = r' \<and> r' = r\<lparr>lr_Ledger := restart (lr_Ledger r)\<rparr> \<and>
    (\<forall>a c. Balance (lr_Ledger r') a c = Balance (lr_Ledger r) a c) \<and>
    map tx_ID (journal (lr_Ledger r')) = map tx_ID (journal (lr_Ledger r)) \<and>
    ml_reversalOf (lr_Ledger r') = ml_reversalOf (lr_Ledger r) \<and>
    machine_run len False \<lparr>mc_repos = r, mc_disk = d, mc_periodic = SvIdle, mc_final = SvIdle\<rparr>
      (boot len (saveLocalState len r d))"
proof -
  let ?m = "\<lparr>mc_repos = r, mc_disk = d, mc_periodic = SvIdle, mc_final = SvIdle\<rparr>"
  let ?r = "mc_repos (boot len (saveLocalState len r d))"
  have r': "?r = r\<lparr>lr_Ledger := restart (lr_Ledger r)\<rparr>"
    by (simp add: boot_def saved_file [OF assms(1)] load_state_of [OF assms(2)])
  have m: "maps_ok (lr_Ledger r)" using ledger_reachable_inv [OF assms(3)] by (simp add: ledger_inv_def)
  have "machine_run len False ?m (?m\<lparr>mc_periodic := SvIdle, mc_disk := saveLocalState len r d\<rparr>)"
    by (rule ticks [where as = "replicate 11 (True, Suc (len (state_of r)))"]) (simp_all add: quiet_save_steps)
  from rtranclp.rtrancl_into_rtrancl [OF this machine_step.crash]
  have "machine_run len False ?m (boot len (saveLocalState len r d))" by simp
  then show ?thesis
    using bal_restart [OF m] by (auto simp: r' Balance_def bal_def fun_eq_iff journal_restart restart_simps(5))
qed

lemma save_load_round_trip_witness:
  "\<exists>r'. mc_repos (boot (\<lambda>s. 7) (saveLocalState (\<lambda>s. 7) (new_repos\<lparr>lr_Ledger := demo_ledger\<rparr>) empty_disk)) = r' \<and>
     Balance (lr_Ledger r') (UserCoinsAccount ''a'') Coin = Inr 30"
proof -
  have "Balance demo_ledger (UserCoinsAccount ''a'') Coin = Inr 30"
    by (simp add: Balance_def demo_ledger_eval getz_def account_defs)
  then show ?thesis
    using save_load_round_trip [where r = "new_repos\<lparr>lr_Ledger := demo_ledger\<rparr>" and d = empty_disk and len = "\<lambda>s. 7"]
    by (auto simp: disk_wf_def empty_disk_def social_ok_def new_repos_def NewMemSocialRepo_def demo_reachable)
qed


section \<open>Crashes\<close>

definition repos_ok :: "local_repos \<Rightarrow> bool" where
  "repos_ok r \<longleftrightarrow> repo_ok (lr_Auth r) \<and> handles_ok (lr_Profile r) \<and> social_ok (lr_Social r) \<and> ledger_reachable (lr_Ledger r)"

lemma repos_ok_new: "repos_ok new_repos"
  by (simp add: repos_ok_def new_repos_def repo_ok_new handles_ok_def NewMemProfileRepo_def social_ok_def NewMemSocialRepo_def
      ledger_reachable.new)

lemma repos_ok_step: "repo_step r r' \<Longrightarrow> repos_ok r \<Longrightarrow> repos_ok r'"
proof (induction rule: repo_step.induct)
  case (auth s w c r)
  then show ?case using repo_ok_do [of w s c] by (simp add: repos_ok_def)
next
  case (post r l)
  then show ?case using ledger_reachable.step by (auto simp: repos_ok_def)
qed (auto simp: repos_ok_def handles_ok_do social_ok_def Follow_def Unfollow_def BlockAccount_def UnblockAccount_def
    MuteAccount_def UnmuteAccount_def Let_def)

text \<open>The first \<open>p\<close> parts of a text are snapshots of good stores.\<close>

definition parts_ok :: "nat \<Rightarrow> local_state \<Rightarrow> bool" where
  "parts_ok p s \<longleftrightarrow>
     (0 < p \<longrightarrow> (\<exists>m. repo_ok m \<and> st_Auth s = Part (AuthSnapshot m))) \<and>
     (1 < p \<longrightarrow> (\<exists>r. handles_ok r \<and> st_Profile s = Part (ProfileSnapshot r))) \<and>
     (2 < p \<longrightarrow> (\<exists>v. st_Privacy s = Part (PrivacySnapshot v))) \<and>
     (3 < p \<longrightarrow> (\<exists>g. social_ok g \<and> st_Social s = Part (SocialSnapshot g))) \<and>
     (4 < p \<longrightarrow> (\<exists>l. ledger_reachable l \<and> st_Ledger s = Part (Snapshot l)))"

lemma snap_part_ok: "repos_ok r \<Longrightarrow> parts_ok p s \<Longrightarrow> p < 5 \<Longrightarrow> parts_ok (Suc p) (snap_part r p s)"
  unfolding parts_ok_def repos_ok_def
  by (cases "(r, p, s)" rule: snap_part.cases) auto

lemma load_ok: "parts_ok 5 s \<Longrightarrow> repos_ok (loadLocalState len (Some (doc len s)) new_repos)"
  unfolding parts_ok_def
  by (auto simp: loadLocalState_def restore_part_def restore_snapshot new_repos_def repos_ok_def intro: ledger_reachable.restarted)

definition file_ok :: "(local_state \<Rightarrow> nat) \<Rightarrow> disk \<Rightarrow> bool" where
  "file_ok len d \<longleftrightarrow> disk_wf d \<and> (\<forall>t. state_file d = Some t \<longrightarrow> (\<exists>s. parts_ok 5 s \<and> t = doc len s))"

fun saver_ok :: "(local_state \<Rightarrow> nat) \<Rightarrow> disk \<Rightarrow> saver \<Rightarrow> bool" where
  "saver_ok len d SvIdle \<longleftrightarrow> True"
| "saver_ok len d (SvSnap s p) \<longleftrightarrow> p \<le> 5 \<and> parts_ok p s"
| "saver_ok len d (SvOpen s) \<longleftrightarrow> parts_ok 5 s"
| "saver_ok len d (SvWrite s i k) \<longleftrightarrow> parts_ok 5 s \<and> dk_tmp d = Some i \<and> k \<le> Suc (len s) \<and> dk_inodes d ! i = take k (doc len s)"
| "saver_ok len d (SvRename s) \<longleftrightarrow> parts_ok 5 s \<and> (\<exists>i. dk_tmp d = Some i \<and> dk_inodes d ! i = doc len s)"

lemma take_plus: "take k xs @ take n (drop k xs) = take (k + min (length xs - k) n) xs"
  by (simp add: min_def take_add)

lemma save_step_ok:
  assumes "repos_ok r" and "file_ok len d" and "saver_ok len d sv" and "save_step len r ok n (sv, d) = (sv', d')"
  shows "saver_ok len d' sv' \<and> file_ok len d'"
proof (cases sv)
  case (SvSnap s p)
  then show ?thesis using assms snap_part_ok [OF assms(1)] by (auto simp: le_Suc_eq split: if_splits)
next
  case (SvOpen s)
  show ?thesis
  proof (cases ok)
    case True
    obtain i d1 where o: "open_tmp d = (i, d1)" by (cases "open_tmp d")
    show ?thesis
      using assms open_tmp_props [OF o] by (auto simp: SvOpen True o file_ok_def)
  qed (use assms SvOpen in auto)
next
  case (SvWrite s i k)
  have i: "dk_tmp d = Some i" "dk_inodes d ! i = take k (doc len s)" "k \<le> Suc (len s)" "parts_ok 5 s"
    using assms(3) by (simp_all add: SvWrite)
  have "i < length (dk_inodes d)" "dk_state d \<noteq> Some i" using assms(2) i(1) by (auto simp: file_ok_def disk_wf_def)
  note W = write_at_props [OF this(1)] this(2)
  show ?thesis
  proof (cases "ok \<and> k \<noteq> Suc (len s)")
    case True
    let ?bs = "take n (drop k (doc len s))"
    have e: "sv' = SvWrite s i (k + length ?bs)" "d' = write_at i k ?bs d"
      using assms(4) True by (simp_all add: SvWrite Let_def)
    have "dk_inodes d' ! i = take (k + length ?bs) (doc len s)"
      unfolding e using W(4) [of k ?bs] i(2,3) by (simp add: take_plus)
    moreover have "k + length ?bs \<le> Suc (len s)" using i(3) by simp
    ultimately show ?thesis
      using assms(2) W(1) W(5) [OF W(7)] W(6) i(1,4) by (simp add: e file_ok_def)
  next
    case False
    then show ?thesis using assms i by (auto simp: SvWrite split: if_splits)
  qed
next
  case (SvRename s)
  show ?thesis
  proof (cases ok)
    case True
    obtain i where i: "dk_tmp d = Some i" "dk_inodes d ! i = doc len s" "parts_ok 5 s" using assms(3) by (auto simp: SvRename)
    have "sv' = SvIdle" "d' = d\<lparr>dk_state := Some i, dk_tmp := None\<rparr>" using assms(4) True by (simp_all add: SvRename rename_tmp_def i)
    then show ?thesis using i assms(2) by (auto simp: file_ok_def disk_wf_def state_file_def)
  qed (use assms SvRename in auto)
qed (use assms in \<open>auto simp: parts_ok_def\<close>)

definition machine_ok :: "(local_state \<Rightarrow> nat) \<Rightarrow> machine \<Rightarrow> bool" where
  "machine_ok len m \<longleftrightarrow> repos_ok (mc_repos m) \<and> file_ok len (mc_disk m) \<and> saver_ok len (mc_disk m) (mc_periodic m) \<and>
     saver_ok len (mc_disk m) (mc_final m) \<and> (mc_periodic m = SvIdle \<or> mc_final m = SvIdle)"

lemma boot_ok: "file_ok len d \<Longrightarrow> machine_ok len (boot len d)"
  using load_ok repos_ok_new
  by (cases "state_file d") (auto simp: machine_ok_def boot_def file_ok_def loadLocalState_def)

lemma save_step_busy: "save_step len r ok n (sv, d) = (SvIdle, d') \<Longrightarrow> sv \<noteq> SvIdle"
  by (cases sv) simp_all

lemma machine_ok_step: "machine_step len False m m' \<Longrightarrow> machine_ok len m \<Longrightarrow> machine_ok len m'"
proof (induction rule: machine_step.induct)
  case (request m r)
  then show ?case using repos_ok_step by (auto simp: machine_ok_def)
next
  case (tick m ok n sv d)
  then show ?case using save_step_ok [of "mc_repos m" len "mc_disk m" "mc_periodic m" ok n sv d] by (simp add: machine_ok_def)
next
  case (stop m ok n sv d)
  then show ?case using save_step_ok [of "mc_repos m" len "mc_disk m" "mc_final m" ok n sv d] by (simp add: machine_ok_def)
next
  case (crash m)
  then show ?case using boot_ok by (simp add: machine_ok_def)
qed

lemma machine_ok_run: "machine_run len False m m' \<Longrightarrow> machine_ok len m \<Longrightarrow> machine_ok len m'"
  by (induction rule: rtranclp_induct) (auto simp: machine_ok_step)

text \<open>Once there is a state file there always is one.\<close>

lemma save_step_keeps_file:
  "save_step len r ok n (sv, d) = (sv', d') \<Longrightarrow> state_file d \<noteq> None \<Longrightarrow> state_file d' \<noteq> None"
  by (cases sv) (auto simp: state_file_def open_tmp_def write_at_def rename_tmp_def Let_def split: if_splits option.splits)

lemma state_file_stays: "machine_step len overlap m m' \<Longrightarrow> state_file (mc_disk m) \<noteq> None \<Longrightarrow> state_file (mc_disk m') \<noteq> None"
  by (induction rule: machine_step.induct) (simp_all add: save_step_keeps_file boot_def)

text \<open>C13: Any crash. As long as two saves do not run at the same time, then after any sequence of requests, pieces of saves,
  failed system calls, crashes and new starts, the file is absent (and only until the first save) or is a whole text
  of five snapshots, however a save was interrupted; and the running process, old or new, has an account store whose
  indexes find exactly the accounts, unambiguous handles, and a ledger that has been made by postings,
  reversals and restarts only, so that its books balance and no wallet is negative.\<close>

theorem crash_keeps_invariants:
  assumes "machine_run len False (boot len empty_disk) m"
  shows "(\<forall>t. state_file (mc_disk m) = Some t \<longrightarrow>
       (\<exists>s. read_doc len t = Some s \<and> t = doc len s \<and> st_Auth s \<noteq> NoPart \<and> st_Ledger s \<noteq> NoPart)) \<and>
    (\<forall>m'. machine_run len False m m' \<longrightarrow> state_file (mc_disk m) \<noteq> None \<longrightarrow> state_file (mc_disk m') \<noteq> None) \<and>
    (let r = mc_repos m in
       (\<forall>p i. map_of (ma_byPhone (lr_Auth r)) p = Some i \<longrightarrow> (\<exists>acc. FindByID (lr_Auth r) i = Some acc \<and> ac_PhoneE164 acc = Some p)) \<and>
       (\<forall>i acc p. FindByID (lr_Auth r) i = Some acc \<longrightarrow> ac_PhoneE164 acc = Some p \<longrightarrow> FindByPhone (lr_Auth r) p = Some acc) \<and>
       handles_ok (lr_Profile r) \<and> ledger_reachable (lr_Ledger r) \<and> (\<forall>(c, x) \<in> set (IntegrityCheck (lr_Ledger r)). x = 0))"
proof -
  have "machine_ok len (boot len empty_disk)"
    by (rule boot_ok) (simp add: file_ok_def disk_wf_def empty_disk_def state_file_def)
  then have ok: "machine_ok len m" by (rule machine_ok_run [OF assms])
  have stays: "machine_run len False m m' \<Longrightarrow> state_file (mc_disk m) \<noteq> None \<Longrightarrow> state_file (mc_disk m') \<noteq> None" for m'
    by (induction rule: rtranclp_induct) (auto dest: state_file_stays)
  have reach: "ledger_reachable (lr_Ledger (mc_repos m))" using ok by (simp add: machine_ok_def repos_ok_def)
  have books: "x = 0" if "(c, x) \<in> set (IntegrityCheck (lr_Ledger (mc_repos m)))" for c x
    using IntegrityCheck_zero [OF reach that] .
  have "\<exists>s. read_doc len t = Some s \<and> t = doc len s \<and> st_Auth s \<noteq> NoPart \<and> st_Ledger s \<noteq> NoPart"
    if "state_file (mc_disk m) = Some t" for t
    using ok that by (fastforce simp: machine_ok_def file_ok_def parts_ok_def)
  then show ?thesis
    using ok stays reach books unfolding machine_ok_def repos_ok_def Let_def repo_ok_defs
    by (auto simp: FindByID_def FindByPhone_def)
qed


lemma crash_keeps_invariants_witness:
  "\<exists>t s. state_file (mc_disk (boot (\<lambda>s. 7) (saveLocalState (\<lambda>s. 7) new_repos empty_disk))) = Some t \<and>
     read_doc (\<lambda>s. 7) t = Some s \<and> st_Ledger s \<noteq> NoPart"
proof -
  let ?len = "\<lambda>s :: local_state. 7 :: nat" and ?m = "boot (\<lambda>s. 7) empty_disk"
  let ?d = "saveLocalState ?len new_repos empty_disk"
  have m: "mc_repos ?m = new_repos" "mc_disk ?m = empty_disk" "mc_periodic ?m = SvIdle" "mc_final ?m = SvIdle"
    by (simp_all add: boot_def state_file_def empty_disk_def loadLocalState_def)
  have "machine_run ?len False ?m (?m\<lparr>mc_periodic := SvIdle, mc_disk := ?d\<rparr>)"
    by (rule ticks [where as = "replicate 11 (True, 8)"])
      (use quiet_save_steps [of ?len new_repos empty_disk] in \<open>simp_all add: m\<close>)
  from rtranclp.rtrancl_into_rtrancl [OF this machine_step.crash]
  have run: "machine_run ?len False ?m (boot ?len ?d)" by simp
  have "state_file ?d = Some (doc ?len (state_of new_repos))"
    by (rule saved_file) (simp add: disk_wf_def empty_disk_def)
  then have "state_file (mc_disk (boot ?len ?d)) = Some (doc ?len (state_of new_repos))" by (simp add: boot_def)
  with crash_keeps_invariants [OF run, THEN conjunct1] show ?thesis by blast
qed

section \<open>Two saves at once\<close>

text \<open>C39: The save at shutdown may run beside the one of the ticker, on the same temporary file. Whatever the stores hold,
  there is a run in which the first has written its text, the second truncates that file for its own, and the first
  renames it: the state file is empty, and if the process is killed then, the next one finds no readable text and
  starts with no accounts, no profiles and no balances.\<close>

theorem overlapping_saves_lose_everything:
  assumes "mc_periodic m = SvIdle" and "mc_final m = SvIdle" and "disk_wf (mc_disk m)"
  shows "\<exists>m'. machine_run len True m m' \<and> state_file (mc_disk m') = Some [] \<and> mc_repos m' = new_repos"
proof -
  let ?r = "mc_repos m"
  obtain i d1 where o: "open_tmp (mc_disk m) = (i, d1)" by (cases "open_tmp (mc_disk m)")
  note O = open_tmp_props [OF o assms(3)]
  define d2 where "d2 = write_at i 0 (doc len (state_of ?r)) d1"
  define d3 where "d3 = d2\<lparr>dk_inodes := (dk_inodes d2)[i := []]\<rparr>"
  define d4 where "d4 = d3\<lparr>dk_state := Some i, dk_tmp := None\<rparr>"
  have tmp: "dk_tmp d2 = Some i" "i < length (dk_inodes d2)"
    using O(1,2) write_at_props(1,3) [OF O(2)] by (simp_all add: d2_def)
  define m1 where "m1 = m\<lparr>mc_periodic := SvRename (state_of ?r), mc_disk := d2\<rparr>"
  define m2 where "m2 = m1\<lparr>mc_final := SvWrite (state_of ?r) i 0, mc_disk := d3\<rparr>"
  define m3 where "m3 = m2\<lparr>mc_periodic := SvIdle, mc_disk := d4\<rparr>"
  have 1: "machine_run len True m m1"
    unfolding m1_def d2_def
    by (rule ticks [where as = "replicate 10 (True, Suc (len (state_of ?r)))"]) (simp_all add: assms(1) steps_to_rename [OF o])
  have "save_steps len ?r (replicate 7 (True, 0) @ [(True, 0)]) (SvIdle, d2) = (SvWrite (state_of ?r) i 0, d3)"
    unfolding save_steps_append steps_to_open by (simp add: open_tmp_def tmp d3_def)
  then have 2: "machine_run len True m1 m2"
    unfolding m2_def by (intro stops [where as = "replicate 7 (True, 0) @ [(True, 0)]"]) (simp_all add: m1_def assms(2))
  have 3: "machine_step len True m2 m3"
    unfolding m3_def
    by (rule machine_step.tick [where ok = True and n = 0]) (simp_all add: m2_def m1_def d4_def d3_def rename_tmp_def tmp)
  have f: "state_file d4 = Some []" using tmp(2) by (simp add: d4_def d3_def state_file_def)
  have "machine_run len True m (boot len d4)"
    using 1 2 rtranclp.rtrancl_into_rtrancl [OF rtranclp.rtrancl_into_rtrancl [OF rtranclp_trans [OF 1 2] 3] machine_step.crash]
    by (simp add: m3_def)
  moreover have "mc_repos (boot len d4) = new_repos"
    by (simp add: boot_def f loadLocalState_def read_doc_def)
  ultimately show ?thesis using f by (auto simp: boot_def)
qed

lemma overlapping_saves_lose_everything_witness:
  "\<exists>m'. machine_run (\<lambda>s. 7) True (boot (\<lambda>s. 7) (saveLocalState (\<lambda>s. 7) (new_repos\<lparr>lr_Ledger := demo_ledger\<rparr>) empty_disk)) m' \<and>
     mc_repos m' = new_repos"
proof -
  let ?d = "saveLocalState (\<lambda>s. 7) (new_repos\<lparr>lr_Ledger := demo_ledger\<rparr>) empty_disk"
  have "disk_wf ?d"
    by (simp add: saveLocalState_def empty_disk_def open_tmp_def write_at_def rename_tmp_def disk_wf_def Let_def)
  then show ?thesis
    using overlapping_saves_lose_everything [where m = "boot (\<lambda>s. 7) ?d" and len = "\<lambda>s. 7"] by (auto simp: boot_def)
qed

section \<open>Accounts lost in a crash\<close>

lemma register_issues:
  assumes "RegisterEmail s w now salt rnd email pw dev region = (Inr (acc, pair), w', ns)"
  shows "ac_ID acc = account_name (Suc (ma_nextID (aw_repo w)))"
    and "tp_AccessToken pair = fst (IssueAccessToken (sv_crypto s) (sv_issuer s) now (ac_ID acc) dev)"
  using assms
  by (auto simp: RegisterEmail_def issueTokens_def CreateAccount_def Let_def case_prod_beta split: if_splits sum.splits)

text \<open>C25: An account lost in a crash comes back as somebody else's. When an account is registered after the accounts were
  last saved and the process crashes, the next process gives its ID to the next person who registers. The access token
  of the first person is still good: until it expires, every request that carries it runs as the account of the second.
  And when the ledger part of the file was taken later than the accounts, the second person finds the
  coins of the first.\<close>

theorem lost_account_is_given_again:
  assumes "RegisterEmail s \<lparr>aw_repo = m, aw_otp = o1\<rparr> t1 salt rnd email pw dev region = (Inr (acc, pair), w1, ns)"
    and "state_file d = Some (doc len st)" and "st_Auth st = Part (AuthSnapshot m)"
    and "RegisterEmail s \<lparr>aw_repo = lr_Auth (mc_repos (boot len d)), aw_otp = o2\<rparr> t2 salt2 rnd2 email2 pw2 dev2 region2 =
      (Inr (acc2, pair2), w2, ns2)"
    and "snd (IssueAccessToken (sv_crypto s) (sv_issuer s) t1 (ac_ID acc) dev) = c"
    and "cr_unmarshal (sv_crypto s) (cr_marshal (sv_crypto s) c) = Some c"
    and "Unix now \<le> Unix (t1 + ti_accessTTL (sv_issuer s))" and "rq_Authorization r = bearer_prefix @ tp_AccessToken pair"
    and "st_Ledger st = Part (Snapshot l)" and "ledger_reachable l"
  shows "ac_ID acc2 = ac_ID acc \<and>
    sharedAuth (sv_crypto s) (sv_issuer s) now h r e = h (r\<lparr>rq_accountID := ac_ID acc2\<rparr>) e \<and>
    Balance (lr_Ledger (mc_repos (boot len d))) (UserCoinsAccount (ac_ID acc2)) Coin = Balance l (UserCoinsAccount (ac_ID acc)) Coin"
proof -
  have b: "lr_Auth (mc_repos (boot len d)) = m" "lr_Ledger (mc_repos (boot len d)) = restart l"
    by (simp_all add: boot_def assms(2,3,9) loadLocalState_def restore_part_def restore_snapshot new_repos_def)
  have i: "ac_ID acc2 = ac_ID acc" using register_issues(1) [OF assms(1)] register_issues(1) [OF assms(4)] by (simp add: b)
  obtain raw where t: "IssueAccessToken (sv_crypto s) (sv_issuer s) t1 (ac_ID acc) dev = (raw, c)" using assms(5) by (metis prod.collapse)
  have raw: "tp_AccessToken pair = raw" using register_issues(2) [OF assms(1)] by (simp add: t)
  have "sharedAuth (sv_crypto s) (sv_issuer s) now h r e = h (r\<lparr>rq_accountID := ac_ID acc\<rparr>) e"
    using verify_issued [OF t assms(6), of now] assms(7) by (simp add: sharedAuth_bearer [OF assms(8) [unfolded raw]])
  moreover have "maps_ok l" using ledger_reachable_inv [OF assms(10)] by (simp add: ledger_inv_def)
  ultimately show ?thesis by (simp add: i b(2) Balance_def bal_restart [unfolded bal_def, THEN fun_cong])
qed


lemma register_succeeds:
  assumes "normalizeEmail email \<noteq> []" and "ValidatePassword pw = Inr u" and "FindByEmail (aw_repo w) (normalizeEmail email) = None"
  shows "\<exists>acc pair w' ns. RegisterEmail s w now salt rnd email pw dev region = (Inr (acc, pair), w', ns)"
  using assms by (simp add: RegisterEmail_def HashPassword_def Let_def case_prod_beta)

text \<open>The accounts are saved while there are none; the first to register is given 50 coins before the ledger is.\<close>

definition demo_gift :: mem_ledger where
  "demo_gift = snd (PostTransaction NewMemLedger 5 ''promo'' ''k'' []
     [\<lparr>e_account = UserCoinsAccount ''acc-0001'', e_amount = 50, e_currency = Coin\<rparr>,
      \<lparr>e_account = PlatformLiabilityAccount, e_amount = -50, e_currency = Coin\<rparr>])"

lemma lost_account_is_given_again_witness:
  "\<exists>(pair :: token_pair) (acc2 :: account) r. rq_Authorization r = bearer_prefix @ tp_AccessToken pair \<and>
     fst (sharedAuth demo_crypto demo_issuer (10 * minute) demo_route r demo_edge) = answer (int (length (ac_ID acc2))) \<and>
     Balance (lr_Ledger (mc_repos (boot (\<lambda>s. 7) (saveLocalState (\<lambda>s. 7) (new_repos\<lparr>lr_Ledger := demo_gift\<rparr>) empty_disk))))
       (UserCoinsAccount (ac_ID acc2)) Coin = Inr 50"
proof -
  let ?len = "\<lambda>s :: local_state. 7 :: nat" and ?r = "new_repos\<lparr>lr_Ledger := demo_gift\<rparr>"
  let ?d = "saveLocalState ?len ?r empty_disk"
  have f: "state_file ?d = Some (doc ?len (state_of ?r))" by (rule saved_file) (simp add: disk_wf_def empty_disk_def)
  have st: "st_Auth (state_of ?r) = Part (AuthSnapshot NewMemAuth)" "st_Ledger (state_of ?r) = Part (Snapshot demo_gift)"
    by (simp_all add: state_of_def new_repos_def)
  have reach: "ledger_reachable demo_gift"
    unfolding demo_gift_def by (rule ledger_reachable.step [OF ledger_reachable.new ledger_step.post])
  have boot: "lr_Auth (mc_repos (boot ?len ?d)) = NewMemAuth"
    by (simp add: boot_def f st loadLocalState_def restore_part_def restore_snapshot)
  have v: "normalizeEmail ''a@b.c'' \<noteq> []" "ValidatePassword ''correct horse 1'' = Inr ()" by code_simp+
  have n: "FindByEmail (aw_repo \<lparr>aw_repo = NewMemAuth, aw_otp = NewMemoryStore\<rparr>) (normalizeEmail ''a@b.c'') = None"
    by (simp add: FindByEmail_def NewMemAuth_def)
  obtain acc pair w1 ns where r1: "RegisterEmail demo_auth \<lparr>aw_repo = NewMemAuth, aw_otp = NewMemoryStore\<rparr> 0 ''s'' ''r'' ''a@b.c''
      ''correct horse 1'' ''dev'' ''US'' = (Inr (acc, pair), w1, ns)"
    using register_succeeds [OF v n] by blast
  obtain acc2 pair2 w2 ns2 where r2: "RegisterEmail demo_auth \<lparr>aw_repo = NewMemAuth, aw_otp = NewMemoryStore\<rparr> 9
      ''s'' ''r'' ''a@b.c'' ''correct horse 1'' ''dev'' ''US'' = (Inr (acc2, pair2), w2, ns2)"
    using register_succeeds [OF v n] by blast
  have a: "ac_ID acc = ''acc-0001''" using register_issues(1) [OF r1] by (simp add: NewMemAuth_def) code_simp
  have u: "snd (IssueAccessToken demo_crypto demo_issuer 0 (ac_ID acc) ''dev'') = demo_claims"
      "cr_unmarshal demo_crypto (cr_marshal demo_crypto demo_claims) = Some demo_claims"
    using arg_cong [OF demo_issued, of snd] by (simp_all add: a demo_crypto_def)
  have t: "Unix (10 * minute) \<le> Unix (0 + ti_accessTTL demo_issuer)" by (simp add: Unix_def demo_issuer_def)
  let ?q = "demo_request\<lparr>rq_Authorization := bearer_prefix @ tp_AccessToken pair\<rparr>"
  have q: "rq_Authorization ?q = bearer_prefix @ tp_AccessToken pair" by simp
  have d: "sv_crypto demo_auth = demo_crypto" "sv_issuer demo_auth = demo_issuer" by (simp_all add: demo_auth_def)
  note R = lost_account_is_given_again [where now = "10 * minute" and r = ?q and h = demo_route and e = demo_edge,
      OF r1 f st(1) r2 [folded boot] _ _ _ q st(2) reach, unfolded d, OF u t]
  have run: "fst (sharedAuth demo_crypto demo_issuer (10 * minute) demo_route ?q demo_edge) = answer (int (length (ac_ID acc2)))"
    unfolding R [THEN conjunct2, THEN conjunct1] by (simp add: demo_route_def)
  have coins: "Balance demo_gift (UserCoinsAccount (ac_ID acc)) Coin = Inr 50"
    unfolding a by (simp add: demo_gift_def Balance_def demo_defs)
  show ?thesis
    by (rule exI [of _ pair], rule exI [of _ acc2], rule exI [of _ ?q])
      (intro conjI q run trans [OF R [THEN conjunct2, THEN conjunct2] coins])
qed

end
