(* ===== verification/Routes.thy ===== *)
theory Routes
  imports Edge
begin

text \<open>
  The router of \<open>feed/cmd/api/main.go\<close>: every pattern it registers, with the gate and the wrapper in front of the
  handler, and the rules of \<open>http.ServeMux\<close> by which a request finds its pattern (method and path segments; a literal
  segment before a wildcard, a wildcard before the rest of a path; a path that is not clean is redirected). A handler is
  named as in \<open>main.go\<close>; what the handlers do is an argument, except for the small ones that \<open>main.go\<close> holds itself.
  Hosts and the method \<open>CONNECT\<close> are left out.
\<close>

section \<open>Patterns\<close>

text \<open>A segment of a pattern: literal, \<open>{name}\<close>, or the slash at the end that stands for all the rest.\<close>

datatype seg = Lit string | Wild | Rest

datatype guard = Open | Guest | Signed

datatype wrapper = Plain | Ensuring | EnsuringPath | PublishingEnd | RecordingGift

record route =
  rt_Pattern :: string
  rt_Guard :: guard
  rt_Wrapper :: wrapper
  rt_Handler :: string

abbreviation route :: "string \<Rightarrow> guard \<Rightarrow> wrapper \<Rightarrow> string \<Rightarrow> route" where
  "route p g w h \<equiv> \<lparr>rt_Pattern = p, rt_Guard = g, rt_Wrapper = w, rt_Handler = h\<rparr>"

definition segments :: "string \<Rightarrow> string list" where
  "segments path = Split CHR ''/'' (TrimPrefix path ''/'')"

definition pattern_method :: "string \<Rightarrow> string" where
  "pattern_method p = (if CHR '' '' \<in> set p then takeWhile (\<lambda>c. c \<noteq> CHR '' '') p else [])"

fun pattern_seg :: "string \<Rightarrow> seg" where
  "pattern_seg [] = Rest"
| "pattern_seg (c # s) = (if c = CHR ''{'' then Wild else Lit (c # s))"

definition pattern_path :: "string \<Rightarrow> seg list" where
  "pattern_path p = map pattern_seg (segments (if CHR '' '' \<in> set p then drop 1 (dropWhile (\<lambda>c. c \<noteq> CHR '' '') p) else p))"

section \<open>The table\<close>

definition auth_routes :: "route list" where
  "auth_routes =
    [route ''POST /api/v1/auth/phone/start'' Open Plain ''authH.PhoneStart'',
     route ''POST /api/v1/auth/phone/verify'' Open Plain ''authH.PhoneVerify'',
     route ''POST /api/v1/auth/email/register'' Open Plain ''authH.EmailRegister'',
     route ''POST /api/v1/auth/email/login'' Open Plain ''authH.EmailLogin'',
     route ''POST /api/v1/auth/refresh'' Open Plain ''authH.Refresh'',
     route ''POST /api/v1/auth/logout'' Open Plain ''authH.Logout'']"

definition auth_signed_routes :: "route list" where
  "auth_signed_routes =
    [route ''POST /api/v1/auth/age/declare'' Signed Plain ''authH.DeclareAge'',
     route ''POST /api/v1/auth/age/dev-assure'' Signed Plain ''authH.DevAssureAge'',
     route ''GET /api/v1/auth/age/status'' Signed Plain ''authH.AgeStatus'',
     route ''POST /api/v1/me/delete'' Signed Plain ''authH.RequestDeletion'',
     route ''POST /api/v1/me/delete/cancel'' Signed Plain ''authH.CancelDeletion'']"

definition profile_routes :: "route list" where
  "profile_routes =
    [route ''GET /api/v1/me'' Signed Ensuring ''profileH.GetMyProfile'',
     route ''PATCH /api/v1/me'' Signed Ensuring ''profileH.UpdateProfile'',
     route ''GET /api/v1/me/privacy'' Signed Plain ''profileH.GetPrivacy'',
     route ''PATCH /api/v1/me/privacy'' Signed Plain ''profileH.UpdatePrivacy'',
     route ''GET /api/v1/users/{id}'' Guest EnsuringPath ''profileH.GetProfile'',
     route ''GET /api/v1/users/{id}/relationship'' Signed Plain ''profileH.GetRelationship'',
     route ''GET /api/v1/users/{id}/following'' Guest Plain ''profileH.GetFollowing'',
     route ''GET /api/v1/users/{id}/followers'' Guest Plain ''profileH.GetFollowers'',
     route ''POST /api/v1/follows'' Signed Plain ''profileH.Follow'',
     route ''DELETE /api/v1/follows/{followee_id}'' Signed Plain ''profileH.Unfollow'',
     route ''GET /api/v1/me/blocked'' Signed Plain ''profileH.GetBlocked'',
     route ''POST /api/v1/blocks'' Signed Plain ''profileH.Block'',
     route ''DELETE /api/v1/blocks/{id}'' Signed Plain ''profileH.Unblock'']"

definition feed_routes :: "route list" where
  "feed_routes =
    [route ''GET /api/v1/feed'' Guest Plain ''feedH.GetFeed'',
     route ''GET /api/v1/rooms/{id}'' Guest Plain ''feedH.GetRoom'',
     route ''POST /api/v1/rooms/{id}/premium'' Signed Plain ''feedH.SetRoomPremium'',
     route ''POST /api/v1/rooms/{id}/unlock'' Signed Plain ''feedH.UnlockRoom'',
     route ''POST /api/v1/streams'' Signed Plain ''feedH.CreateRoom'',
     route ''POST /api/v1/streams/{id}/stop'' Signed PublishingEnd ''feedH.EndRoom'',
     route ''POST /api/v1/streams/{id}/session'' Signed Plain ''streamH.StartBroadcast'',
     route ''POST /api/v1/streams/{id}/session/stop'' Signed Plain ''streamH.EndBroadcast'',
     route ''GET /api/v1/rooms/{id}/stream'' Guest Plain ''streamH.GetStream'',
     route ''GET /api/v1/streams/{id}/health'' Signed Plain ''streamH.GetHealth'',
     route ''GET /api/v1/search'' Guest Plain ''feedH.Search'',
     route ''GET /api/v1/notifications'' Signed Plain ''feedH.GetNotifications'',
     route ''GET /api/v1/notifications/summary'' Guest Plain ''feedH.GetNotificationSummary'',
     route ''POST /api/v1/notifications/read'' Signed Plain ''feedH.MarkNotificationsRead'']"

definition gateway_routes :: "route list" where
  "gateway_routes =
    [route ''GET /api/v1/auth/ws-token'' Signed Plain ''wsToken'',
     route ''GET /ws'' Open Plain ''wsHandler'']"

definition chat_routes :: "route list" where
  "chat_routes =
    [route ''GET /api/v1/conversations'' Signed Plain ''chatH.ListConversations'',
     route ''POST /api/v1/conversations'' Signed Plain ''chatH.StartConversation'',
     route ''GET /api/v1/conversations/{id}/messages'' Signed Plain ''chatH.ListMessages'',
     route ''POST /api/v1/conversations/{id}/messages'' Signed Plain ''chatH.SendMessage'',
     route ''POST /api/v1/conversations/{id}/read'' Signed Plain ''chatH.MarkRead'',
     route ''POST /api/v1/conversations/{id}/accept'' Signed Plain ''chatH.AcceptRequest'',
     route ''POST /api/v1/conversations/{id}/decline'' Signed Plain ''chatH.DeclineRequest'',
     route ''DELETE /api/v1/messages/{id}'' Signed Plain ''chatH.DeleteMessage'']"

definition attachment_routes :: "route list" where
  "attachment_routes =
    [route ''POST /api/v1/attachments'' Signed Plain ''attachH.CreateUploadSlot'',
     route ''PUT /api/v1/attachments/{id}/upload'' Signed Plain ''attachH.Upload'',
     route ''GET /api/v1/attachments/{id}'' Signed Plain ''attachH.Get'',
     route ''GET /api/v1/attachments/{id}/download'' Signed Plain ''attachH.Download'']"

definition wallet_routes :: "route list" where
  "wallet_routes =
    [route ''GET /api/v1/gifts/catalogue'' Guest Plain ''giftH.Catalogue'',
     route ''POST /api/v1/gifts/send'' Signed RecordingGift ''giftH.SendGift'',
     route ''GET /api/v1/wallet/balance'' Signed Plain ''giftH.GetBalance'',
     route ''GET /api/v1/wallet/transactions'' Signed Plain ''giftH.TransactionHistory'',
     route ''POST /api/v1/wallet/dev-topup'' Signed Plain ''giftH.DevTopUp'']"

definition order_routes :: "route list" where
  "order_routes =
    [route ''GET /api/v1/products'' Guest Plain ''giftH.Products'',
     route ''POST /api/v1/orders'' Signed Plain ''giftH.CreateOrder'',
     route ''POST /api/v1/orders/{id}/verify'' Signed Plain ''giftH.VerifyOrder'',
     route ''GET /api/v1/orders'' Signed Plain ''giftH.ListOrders'',
     route ''GET /api/v1/orders/{id}'' Signed Plain ''giftH.GetOrder'',
     route ''POST /api/v1/orders/{id}/dispute'' Signed Plain ''giftH.DisputeOrder'',
     route ''GET /api/v1/me/spend-limits'' Signed Plain ''giftH.GetSpendLimits'',
     route ''PATCH /api/v1/me/spend-limits'' Signed Plain ''giftH.UpdateSpendLimits'']"

definition referral_routes :: "route list" where
  "referral_routes =
    [route ''POST /api/v1/me/referrals/claim'' Signed Plain ''referralH.ClaimCode'',
     route ''GET /api/v1/me/referrals'' Signed Plain ''referralH.ListMyReferrals'']"

definition pv_routes :: "route list" where
  "pv_routes =
    [route ''POST /api/v1/private-video/requests'' Signed Plain ''pvH.RequestSession'',
     route ''POST /api/v1/private-video/sessions/{id}/accept'' Signed Plain ''pvH.AcceptSession'',
     route ''POST /api/v1/private-video/sessions/{id}/decline'' Signed Plain ''pvH.DeclineSession'',
     route ''POST /api/v1/private-video/sessions/{id}/end'' Signed Plain ''pvH.EndSession'',
     route ''GET /api/v1/private-video/sessions/{id}'' Signed Plain ''pvH.GetSession'',
     route ''GET /api/v1/private-video/sessions'' Signed Plain ''pvH.ListSessions'']"

definition match_routes :: "route list" where
  "match_routes =
    [route ''POST /api/v1/match/requests'' Signed Plain ''matchH.CreateRequest'',
     route ''GET /api/v1/match/requests/{id}'' Signed Plain ''matchH.GetRequest'',
     route ''DELETE /api/v1/match/requests/{id}'' Signed Plain ''matchH.CancelRequest'',
     route ''POST /api/v1/match/decisions'' Signed Plain ''matchH.Decide'',
     route ''GET /api/v1/match/history'' Signed Plain ''matchH.ListHistory'',
     route ''GET /api/v1/me/match-preferences'' Signed Plain ''matchH.GetPreferences'',
     route ''PATCH /api/v1/me/match-preferences'' Signed Plain ''matchH.UpdatePreferences'']"

definition creator_routes :: "route list" where
  "creator_routes =
    [route ''GET /api/v1/me/creator/kyc'' Signed Plain ''creatorH.GetKYC'',
     route ''POST /api/v1/me/creator/kyc'' Signed Plain ''creatorH.SubmitKYC'',
     route ''POST /api/v1/me/creator/kyc/dev-approve'' Signed Plain ''creatorH.DevApproveKYC'',
     route ''GET /api/v1/me/creator/earnings'' Signed Plain ''creatorH.GetEarnings'',
     route ''GET /api/v1/me/creator/analytics'' Signed Plain ''creatorH.GetAnalytics'',
     route ''POST /api/v1/me/creator/payouts'' Signed Plain ''creatorH.RequestPayout'',
     route ''GET /api/v1/me/creator/payouts'' Signed Plain ''creatorH.ListPayouts'',
     route ''GET /api/v1/me/creator/payout-profile'' Signed Plain ''creatorH.GetPayoutProfile'',
     route ''PUT /api/v1/me/creator/payout-profile'' Signed Plain ''creatorH.SetPayoutProfile'',
     route ''GET /api/v1/payout-countries'' Guest Plain ''creatorH.ListPayoutCountries'']"

definition moderation_routes :: "route list" where
  "moderation_routes =
    [route ''POST /api/v1/reports'' Signed Plain ''modH.SubmitReport'',
     route ''GET /api/v1/policies/rules'' Guest Plain ''modH.ListRules'',
     route ''GET /api/v1/me/enforcements'' Signed Plain ''modH.ListMyEnforcements'',
     route ''GET /api/v1/me/enforcements/{id}'' Signed Plain ''modH.GetEnforcement'',
     route ''POST /api/v1/me/enforcements/{id}/appeal'' Signed Plain ''modH.FileAppeal'',
     route ''GET /api/v1/moderation/queue'' Signed Plain ''modH.ListQueue'',
     route ''POST /api/v1/moderation/reports/{id}/triage'' Signed Plain ''modH.TriageReport'',
     route ''POST /api/v1/moderation/enforcements'' Signed Plain ''modH.CreateEnforcement'',
     route ''GET /api/v1/moderation/appeals'' Signed Plain ''modH.ListAppealQueue'',
     route ''POST /api/v1/moderation/appeals/{id}/decide'' Signed Plain ''modH.DecideAppeal'',
     route ''GET /api/v1/moderation/risk-queue'' Signed Plain ''modH.ListRiskQueue'',
     route ''POST /api/v1/moderation/dev-grant'' Signed Plain ''modH.DevGrantModerator'']"

definition support_routes :: "route list" where
  "support_routes =
    [route ''POST /api/v1/support/tickets'' Signed Plain ''adminH.CreateTicket'',
     route ''GET /api/v1/support/tickets'' Signed Plain ''adminH.ListMyTickets'',
     route ''GET /api/v1/support/tickets/{id}'' Signed Plain ''adminH.GetTicket'',
     route ''POST /api/v1/support/tickets/{id}/messages'' Signed Plain ''adminH.ReplyTicket'']"

definition admin_routes :: "route list" where
  "admin_routes =
    [route ''GET /api/v1/admin/me/role'' Signed Plain ''adminH.GetMyRole'',
     route ''POST /api/v1/admin/dev-grant'' Signed Plain ''adminH.DevGrantRole'',
     route ''GET /api/v1/admin/accounts/{id}'' Signed Plain ''adminH.GetAccount'',
     route ''POST /api/v1/admin/accounts/{id}/restrict'' Signed Plain ''adminH.RestrictAccount'',
     route ''POST /api/v1/admin/accounts/{id}/unsuspend'' Signed Plain ''adminH.UnsuspendAccount'',
     route ''GET /api/v1/admin/economy/anomalies'' Signed Plain ''adminH.ListEconomyAnomalies'',
     route ''GET /api/v1/admin/fraud/queue'' Signed Plain ''adminH.ListFraudQueue'',
     route ''GET /api/v1/admin/support/queue'' Signed Plain ''adminH.ListTicketQueue'',
     route ''POST /api/v1/admin/support/tickets/{id}/resolve'' Signed Plain ''adminH.ResolveTicket'',
     route ''GET /api/v1/admin/health'' Signed Plain ''adminH.GetPlatformHealth'',
     route ''GET /api/v1/admin/audit-log'' Signed Plain ''adminH.ListAuditLog'',
     route ''GET /api/v1/admin/payouts'' Signed Plain ''adminH.ListPayouts'',
     route ''POST /api/v1/admin/payouts/{id}/approve'' Signed Plain ''adminH.ApprovePayout'',
     route ''POST /api/v1/admin/payouts/{id}/reject'' Signed Plain ''adminH.RejectPayout'',
     route ''POST /api/v1/admin/payouts/{id}/processing'' Signed Plain ''adminH.MarkPayoutProcessing'',
     route ''POST /api/v1/admin/payouts/{id}/paid'' Signed Plain ''adminH.MarkPayoutPaid'',
     route ''POST /api/v1/admin/payouts/{id}/failed'' Signed Plain ''adminH.MarkPayoutFailed'',
     route ''GET /api/v1/admin/transactions/{id}'' Signed Plain ''adminH.GetTransaction'',
     route ''POST /api/v1/admin/transactions/{id}/reverse'' Signed Plain ''adminH.ReverseTransaction'']"

definition analytics_routes :: "route list" where
  "analytics_routes =
    [route ''GET /api/v1/analytics/dau-mau'' Signed Plain ''analyticsH.GetDAUMAU'',
     route ''GET /api/v1/analytics/retention'' Signed Plain ''analyticsH.GetRetention'',
     route ''GET /api/v1/analytics/funnel'' Signed Plain ''analyticsH.GetFunnel'',
     route ''GET /api/v1/analytics/economy'' Signed Plain ''analyticsH.GetEconomySummary'',
     route ''GET /api/v1/creator/analytics'' Signed Plain ''analyticsH.GetCreatorAnalytics'']"

definition fraud_routes :: "route list" where
  "fraud_routes =
    [route ''GET /api/v1/fraud/device-clusters'' Signed Plain ''fraudH.GetDeviceCluster'']"

definition rollout_routes :: "route list" where
  "rollout_routes =
    [route ''GET /api/v1/config'' Guest Plain ''rolloutH.GetConfig'',
     route ''GET /api/v1/rollout/flags'' Signed Plain ''rolloutH.ListFlags'',
     route ''POST /api/v1/rollout/flags'' Signed Plain ''rolloutH.SetStage'',
     route ''GET /api/v1/rollout/canary-metrics'' Signed Plain ''rolloutH.GetCanaryMetrics'',
     route ''POST /api/v1/rollout/dev-mark-internal'' Signed Plain ''rolloutH.DevMarkInternal'']"

definition misc_routes :: "route list" where
  "misc_routes =
    [route ''GET /api/v1/health'' Open Plain ''health'',
     route ''GET /api/v1/debug/ctx'' Signed Plain ''debugCtx'',
     route ''GET /privacy-policy'' Open Plain ''servePrivacyPolicy'',
     route ''GET /terms-of-service'' Open Plain ''serveTermsOfService'',
     route ''/'' Open Plain ''serveWebUI'']"

definition routes :: "route list" where
  "routes = auth_routes @ auth_signed_routes @ profile_routes @ feed_routes @ gateway_routes @ chat_routes @ attachment_routes @
     wallet_routes @ order_routes @ referral_routes @ pv_routes @ match_routes @ creator_routes @ moderation_routes @
     support_routes @ admin_routes @ analytics_routes @ fraud_routes @ rollout_routes @ misc_routes"

section \<open>Registering\<close>

text \<open>Two patterns conflict when a request can match both and neither is more special than the other; then
  registering the second one panics.\<close>

fun overlap :: "seg list \<Rightarrow> seg list \<Rightarrow> bool" where
  "overlap [] [] \<longleftrightarrow> True"
| "overlap (Rest # p) q \<longleftrightarrow> True"
| "overlap p (Rest # q) \<longleftrightarrow> True"
| "overlap (Lit a # p) (Lit b # q) \<longleftrightarrow> (if a = b then overlap p q else False)"
| "overlap (x # p) (y # q) \<longleftrightarrow> overlap p q"
| "overlap p q \<longleftrightarrow> False"

text \<open>Every path that matches the first matches the second.\<close>

fun path_le :: "seg list \<Rightarrow> seg list \<Rightarrow> bool" where
  "path_le p (Rest # q) \<longleftrightarrow> True"
| "path_le [] [] \<longleftrightarrow> True"
| "path_le (Lit a # p) (Lit b # q) \<longleftrightarrow> a = b \<and> path_le p q"
| "path_le (Lit a # p) (Wild # q) \<longleftrightarrow> path_le p q"
| "path_le (Wild # p) (Wild # q) \<longleftrightarrow> path_le p q"
| "path_le p q \<longleftrightarrow> False"

definition method_le :: "string \<Rightarrow> string \<Rightarrow> bool" where
  "method_le m n \<longleftrightarrow> m = n \<or> n = [] \<or> (m = ''HEAD'' \<and> n = ''GET'')"

type_synonym parsed = "string \<times> seg list"

definition parse_pattern :: "string \<Rightarrow> parsed" where
  "parse_pattern p = (pattern_method p, pattern_path p)"

definition conflicts :: "parsed \<Rightarrow> parsed \<Rightarrow> bool" where
  "conflicts a b \<longleftrightarrow>
     (let (m, p) = a; (n, q) = b
      in if overlap p q
         then (method_le m n \<or> method_le n m) \<and> (method_le m n \<and> path_le p q \<longleftrightarrow> method_le n m \<and> path_le q p)
         else False)"

text \<open>\<open>None\<close> is the panic.\<close>

fun register_all :: "parsed list \<Rightarrow> parsed list \<Rightarrow> parsed list option" where
  "register_all done [] = Some done"
| "register_all done (p # ps) = (if list_ex (conflicts p) done then None else register_all (p # done) ps)"

section \<open>Finding the pattern\<close>

fun match_path :: "seg list \<Rightarrow> string list \<Rightarrow> bool" where
  "match_path [] ss \<longleftrightarrow> ss = []"
| "match_path (Rest # p) (s # ss) \<longleftrightarrow> True"
| "match_path (Lit a # p) (s # ss) \<longleftrightarrow> a = s \<and> match_path p ss"
| "match_path (Wild # p) (s # ss) \<longleftrightarrow> s \<noteq> [] \<and> match_path p ss"
| "match_path p [] \<longleftrightarrow> False"

text \<open>The order in which the tree of patterns is searched.\<close>

fun rank :: "seg \<Rightarrow> nat" where
  "rank (Lit a) = 2"
| "rank Wild = 1"
| "rank Rest = 0"

fun before :: "seg list \<Rightarrow> seg list \<Rightarrow> bool" where
  "before (x # p) (y # q) \<longleftrightarrow> rank y < rank x \<or> (rank x = rank y \<and> before p q)"
| "before p q \<longleftrightarrow> False"

definition best :: "route list \<Rightarrow> route option" where
  "best rs = (case rs of [] \<Rightarrow> None
     | r # rs \<Rightarrow> Some (fold (\<lambda>y b. if before (pattern_path (rt_Pattern y)) (pattern_path (rt_Pattern b)) then y else b) rs r))"

definition of_method :: "route list \<Rightarrow> string \<Rightarrow> string list \<Rightarrow> route list" where
  "of_method rs m ss = filter (\<lambda>r. pattern_method (rt_Pattern r) = m \<and> match_path (pattern_path (rt_Pattern r)) ss) rs"

definition find_route :: "route list \<Rightarrow> string \<Rightarrow> string list \<Rightarrow> route option" where
  "find_route rs m ss =
     (case best (of_method rs m ss) of
        Some r \<Rightarrow> Some r
      | None \<Rightarrow>
          (case (if m = ''HEAD'' then best (of_method rs ''GET'' ss) else None) of
             Some r \<Rightarrow> Some r
           | None \<Rightarrow> best (of_method rs [] ss)))"

section \<open>Serving\<close>

fun clean_segs :: "string list \<Rightarrow> string list \<Rightarrow> string list" where
  "clean_segs out [] = rev out"
| "clean_segs out (s # ss) =
     (if s = [] \<or> s = ''.'' then clean_segs out ss
      else if s = ''..'' then clean_segs (drop 1 out) ss
      else clean_segs (s # out) ss)"

definition cleanPath :: "string \<Rightarrow> string" where
  "cleanPath p =
     (let p = (if HasPrefix p ''/'' then p else CHR ''/'' # p);
          np = concat (map (\<lambda>s. CHR ''/'' # s) (clean_segs [] (segments p)));
          np = (if np = [] then ''/'' else np)
      in if last p = CHR ''/'' \<and> np \<noteq> ''/'' then np @ ''/'' else np)"

fun path_value :: "seg list \<Rightarrow> string list \<Rightarrow> string" where
  "path_value (Wild # p) (s # ss) = s"
| "path_value (x # p) (s # ss) = path_value p ss"
| "path_value p ss = []"

definition serveWebUI :: "'s handler" where
  "serveWebUI r e = (if HasPrefix (rq_Path r) ''/api/'' then (answer 404, e) else (\<lparr>rn_headers = [], rn_panic = False\<rparr>, e))"

text \<open>The handlers of \<open>main.go\<close> itself that only write a body.\<close>

definition main_handler :: "(string \<Rightarrow> 's handler) \<Rightarrow> string \<Rightarrow> 's handler" where
  "main_handler handlers name =
     (if name = ''serveWebUI'' then serveWebUI
      else if name = ''health'' \<or> name = ''debugCtx'' \<or> name = ''servePrivacyPolicy'' \<or> name = ''serveTermsOfService''
      then (\<lambda>r e. (\<lparr>rn_headers = [], rn_panic = False\<rparr>, e))
      else handlers name)"

text \<open>\<open>touch\<close> is the \<open>CreateProfile\<close> of the profile service, whose result is ignored.\<close>

definition ensuring :: "(string \<Rightarrow> 's \<Rightarrow> 's) \<Rightarrow> (request \<Rightarrow> string) \<Rightarrow> 's handler \<Rightarrow> 's handler" where
  "ensuring touch who h = (\<lambda>r e. h r (if who r \<noteq> [] then e\<lparr>ed_app := touch (who r) (ed_app e)\<rparr> else e))"

definition wrapped :: "(string \<Rightarrow> 's \<Rightarrow> 's) \<Rightarrow> wrapper \<Rightarrow> 's handler \<Rightarrow> 's handler" where
  "wrapped touch w h =
     (case w of Plain \<Rightarrow> h | Ensuring \<Rightarrow> ensuring touch rq_accountID h | EnsuringPath \<Rightarrow> ensuring touch rq_roomID h
      | PublishingEnd \<Rightarrow> publishStreamEnded h | RecordingGift \<Rightarrow> recordGiftAttempt h)"

definition gated :: "token_crypto \<Rightarrow> token_issuer \<Rightarrow> time \<Rightarrow> guard \<Rightarrow> 's handler \<Rightarrow> 's handler" where
  "gated cr ti now g h = (case g of Open \<Rightarrow> h | Guest \<Rightarrow> sharedOptAuth cr ti now h | Signed \<Rightarrow> sharedAuth cr ti now h)"

definition mux :: "token_crypto \<Rightarrow> token_issuer \<Rightarrow> time \<Rightarrow> (string \<Rightarrow> 's \<Rightarrow> 's) \<Rightarrow> (string \<Rightarrow> 's handler) \<Rightarrow> 's handler" where
  "mux cr ti now touch handlers r e =
     (if cleanPath (rq_Path r) \<noteq> rq_Path r then (answer 301, e)
      else
        (case find_route routes (rq_Method r) (segments (rq_Path r)) of
           None \<Rightarrow> (answer 404, e)
         | Some rt \<Rightarrow>
             gated cr ti now (rt_Guard rt) (wrapped touch (rt_Wrapper rt) (main_handler handlers (rt_Handler rt)))
               (r\<lparr>rq_roomID := path_value (pattern_path (rt_Pattern rt)) (segments (rq_Path r))\<rparr>) e))"

lemmas route_tables = routes_def auth_routes_def auth_signed_routes_def profile_routes_def feed_routes_def gateway_routes_def
  chat_routes_def attachment_routes_def wallet_routes_def order_routes_def referral_routes_def pv_routes_def match_routes_def
  creator_routes_def moderation_routes_def support_routes_def admin_routes_def analytics_routes_def fraud_routes_def
  rollout_routes_def misc_routes_def

abbreviation path_of :: "route \<Rightarrow> seg list" where
  "path_of r \<equiv> pattern_path (rt_Pattern r)"

abbreviation method_of :: "route \<Rightarrow> string" where
  "method_of r \<equiv> pattern_method (rt_Pattern r)"

section \<open>The most special pattern\<close>

lemma before_irrefl: "\<not> before p p"
  by (induction p) auto

lemma before_trans: "before p q \<Longrightarrow> before q r \<Longrightarrow> before p r"
proof (induction p q arbitrary: r rule: before.induct)
  case (1 x p y q)
  then show ?case by (cases r) auto
qed auto

lemma match_total:
  assumes "match_path p ss" and "match_path q ss" and "Rest \<notin> set (butlast p)" and "Rest \<notin> set (butlast q)"
    and "\<not> before p q" and "\<not> before q p"
  shows "p = q"
  using assms
proof (induction p ss arbitrary: q rule: match_path.induct)
  case (1 ss)
  then show ?case by (cases "(q, ss)" rule: match_path.cases) auto
next
  case (2 p s ss)
  have "p = []" using 2(3) by (cases p) auto
  then show ?case using 2 by (cases "(q, s # ss)" rule: match_path.cases) (auto split: if_splits)
next
  case (3 a p s ss)
  obtain x q' where q: "q = x # q'" using 3(3) by (cases q) auto
  then have x: "x = Lit s" using 3(3,6,7) by (cases x) (auto simp: 3(2))
  have "p = q'" using 3 unfolding q x by (intro "3.IH") (auto split: if_splits)
  then show ?case using 3(2) by (simp add: q x)
next
  case (4 p s ss)
  obtain x q' where q: "q = x # q'" using 4(3) by (cases q) auto
  then have x: "x = Wild" using 4(3,6,7) by (cases x) auto
  have "p = q'" using 4 unfolding q x by (intro "4.IH") (auto split: if_splits)
  then show ?case by (simp add: q x)
qed auto

lemma best_max: "best rs = Some b \<Longrightarrow> b \<in> set rs \<and> (\<forall>r \<in> set rs. \<not> before (path_of r) (path_of b))"
proof -
  have "let b = fold (\<lambda>y b. if before (path_of y) (path_of b) then y else b) ys x
      in b \<in> set (x # ys) \<and> (\<forall>r \<in> set (x # ys). \<not> before (path_of r) (path_of b))" for x ys
  proof (induction ys rule: rev_induct)
    case (snoc y ys)
    then show ?case by (auto simp: Let_def before_irrefl dest: before_trans)
  qed (simp add: before_irrefl)
  from this [of "tl rs" "hd rs"] show "best rs = Some b \<Longrightarrow> ?thesis"
    by (cases rs) (auto simp: best_def Let_def)
qed

lemma best_None [simp]: "best rs = None \<longleftrightarrow> rs = []"
  by (simp add: best_def split: list.split)

text \<open>What the table has to be: every pattern once, and a final slash only at the end.\<close>

definition table_ok :: "route list \<Rightarrow> bool" where
  "table_ok rs \<longleftrightarrow> inj_on (\<lambda>r. parse_pattern (rt_Pattern r)) (set rs) \<and> (\<forall>r \<in> set rs. Rest \<notin> set (butlast (path_of r)))"

lemma best_unique:
  assumes "table_ok rs" and "best (of_method rs m ss) = Some b" and "r \<in> set (of_method rs m ss)"
    and "\<forall>x \<in> set (of_method rs m ss). \<not> before (path_of x) (path_of r)"
  shows "b = r"
proof -
  have b: "b \<in> set (of_method rs m ss)" "\<not> before (path_of r) (path_of b)" using best_max [OF assms(2)] assms(3) by auto
  have in_table: "b \<in> set rs" "r \<in> set rs" "method_of b = m" "method_of r = m" "match_path (path_of b) ss" "match_path (path_of r) ss"
    using b(1) assms(3) by (auto simp: of_method_def)
  have "path_of b = path_of r"
    using in_table assms(1,4) b by (intro match_total [of _ ss]) (auto simp: table_ok_def)
  then show ?thesis
    using assms(1) in_table by (auto simp: table_ok_def inj_on_def parse_pattern_def)
qed

lemma best_cong:
  assumes "table_ok rs" and "set rs' = set rs"
  shows "best (of_method rs' m ss) = best (of_method rs m ss)"
proof (cases "best (of_method rs' m ss)")
  case None
  then show ?thesis using assms(2) by (auto simp: of_method_def filter_empty_conv)
next
  case (Some r)
  have same: "set (of_method rs' m ss) = set (of_method rs m ss)" using assms(2) by (auto simp: of_method_def)
  note R = best_max [OF Some, unfolded same]
  then obtain b where b: "best (of_method rs m ss) = Some b" by (cases "best (of_method rs m ss)") auto
  then have "b = r" using best_unique [OF assms(1) b] R by blast
  then show ?thesis using b Some by simp
qed

lemma find_route_cong: "table_ok rs \<Longrightarrow> set rs' = set rs \<Longrightarrow> find_route rs' m ss = find_route rs m ss"
  using best_cong [of rs rs'] unfolding find_route_def by metis

text \<open>A path made from a pattern, with \<open>v\<close> for the wildcard.\<close>

definition fill :: "string \<Rightarrow> seg list \<Rightarrow> string list" where
  "fill v p = map (\<lambda>x. case x of Lit a \<Rightarrow> a | Wild \<Rightarrow> v | Rest \<Rightarrow> []) p"

lemma match_fill: "v \<noteq> [] \<Longrightarrow> match_path p (fill v p)"
proof (induction p)
  case (Cons x p)
  then show ?case by (cases x) (simp_all add: fill_def)
qed (simp add: fill_def)

lemma fill_first: "match_path q (fill v p) \<Longrightarrow> Rest \<notin> set p \<Longrightarrow> Lit v \<notin> set q \<Longrightarrow> \<not> before q p"
proof (induction p arbitrary: q)
  case Nil
  then show ?case by (cases q) auto
next
  case (Cons x p)
  show ?case
  proof (cases q)
    case (Cons y q')
    then show ?thesis using Cons.prems Cons.IH [of q'] by (cases x; cases y) (auto simp: fill_def)
  qed simp
qed

lemma find_route_fill:
  assumes "table_ok rs" and "r \<in> set rs" and "Rest \<notin> set (path_of r)" and "v \<noteq> []" and "\<forall>x \<in> set rs. Lit v \<notin> set (path_of x)"
  shows "find_route rs (method_of r) (fill v (path_of r)) = Some r"
proof -
  let ?ss = "fill v (path_of r)"
  have r: "r \<in> set (of_method rs (method_of r) ?ss)" using assms(2) match_fill [OF assms(4)] by (simp add: of_method_def)
  then obtain b where b: "best (of_method rs (method_of r) ?ss) = Some b" by (cases "best (of_method rs (method_of r) ?ss)") auto
  have "\<forall>x \<in> set (of_method rs (method_of r) ?ss). \<not> before (path_of x) (path_of r)"
    using fill_first [OF _ assms(3)] assms(5) by (auto simp: of_method_def)
  from best_unique [OF assms(1) b r this] show ?thesis by (simp add: find_route_def b)
qed

section \<open>The table\<close>

lemma overlap_same [simp]: "overlap p p"
proof (induction p)
  case (Cons x p)
  then show ?case by (cases x) simp_all
qed simp

lemma conflicts_same [simp]: "conflicts a a"
  by (cases a) (simp add: conflicts_def method_le_def)

lemma overlap_length: "overlap p q \<Longrightarrow> Rest \<notin> set p \<Longrightarrow> Rest \<notin> set q \<Longrightarrow> length p = length q"
  by (induction p q rule: overlap.induct) (auto split: if_splits)

definition slot :: "parsed \<Rightarrow> string \<times> nat" where
  "slot a = (fst a, length (snd a))"

definition ordinary :: "parsed \<Rightarrow> bool" where
  "ordinary a \<longleftrightarrow> fst a \<noteq> [] \<and> fst a \<noteq> ''HEAD'' \<and> Rest \<notin> set (snd a)"

lemma conflicts_slot: "conflicts a b \<Longrightarrow> ordinary a \<Longrightarrow> ordinary b \<Longrightarrow> slot a = slot b"
  by (cases a; cases b) (auto simp: conflicts_def ordinary_def slot_def method_le_def dest: overlap_length split: if_splits)

lemma sorted_wrt_slots:
  assumes "\<forall>a \<in> set xs. \<forall>b \<in> set xs. key a \<noteq> key b \<longrightarrow> P a b" and "\<forall>x \<in> set xs. key x \<in> set ks"
    and "\<forall>k \<in> set ks. sorted_wrt P (filter (\<lambda>x. key x = k) xs)"
  shows "sorted_wrt P xs"
  using assms
proof (induction xs)
  case (Cons x xs)
  have "sorted_wrt P xs"
    using Cons.prems by (intro Cons.IH) (auto split: if_splits)
  moreover have "P x y" if "y \<in> set xs" for y
  proof (cases "key x = key y")
    case True
    have "sorted_wrt P (filter (\<lambda>z. key z = key x) (x # xs))" using Cons.prems(2,3) by auto
    then show ?thesis using True that by simp
  next
    case False
    then show ?thesis using Cons.prems(1) that by auto
  qed
  ultimately show ?case by simp
qed simp

lemma register_all_ok:
  "sorted_wrt (\<lambda>a b. \<not> conflicts b a) ps \<Longrightarrow> \<forall>a \<in> set done. \<forall>b \<in> set ps. \<not> conflicts b a \<Longrightarrow>
   register_all done ps = Some (rev ps @ done)"
  by (induction ps arbitrary: "done") (auto simp: list_ex_iff)

definition api_table :: "parsed list" where
  "api_table = map (\<lambda>r. parse_pattern (rt_Pattern r)) (butlast routes)"

definition slots :: "(string \<times> nat) list" where
  "slots = [(''GET'', 1), (''GET'', 3), (''GET'', 4), (''GET'', 5), (''GET'', 6), (''POST'', 3), (''POST'', 4), (''POST'', 5), (''POST'', 6),
     (''POST'', 7), (''PATCH'', 3), (''PATCH'', 4), (''PUT'', 5), (''DELETE'', 4), (''DELETE'', 5)]"

definition table_check :: "parsed list \<Rightarrow> bool" where
  "table_check ps \<longleftrightarrow> list_all ordinary ps \<and> list_all (\<lambda>x. slot x \<in> set slots) ps \<and>
     list_all (\<lambda>k. sorted_wrt (\<lambda>a b. \<not> conflicts b a) (filter (\<lambda>x. slot x = k) ps)) slots"

lemma api_table_checked: "table_check api_table"
  by code_simp

lemma last_route: "routes \<noteq> []" "last routes = route ''/'' Open Plain ''serveWebUI''"
  by (simp_all add: routes_def misc_routes_def)

lemma parse_root: "parse_pattern ''/'' = ([], [Rest])"
  by code_simp

lemma routes_parsed: "map (\<lambda>r. parse_pattern (rt_Pattern r)) routes = api_table @ [([], [Rest])]"
proof -
  have "routes = butlast routes @ [last routes]" using last_route(1) by simp
  then have "map f routes = map f (butlast routes) @ [f (last routes)]" for f :: "route \<Rightarrow> parsed"
    by (metis map_append list.map(1,2))
  then show ?thesis unfolding api_table_def last_route(2) by (simp add: parse_root)
qed

lemma root_conflicts: "ordinary a \<Longrightarrow> \<not> conflicts ([], [Rest]) a"
proof (cases a)
  case (Pair n q)
  assume "ordinary a"
  then have "n \<noteq> []" by (simp add: ordinary_def Pair)
  then show ?thesis by (simp add: conflicts_def Pair method_le_def)
qed

lemma table_sorted: "sorted_wrt (\<lambda>a b. \<not> conflicts b a) (map (\<lambda>r. parse_pattern (rt_Pattern r)) routes)"
proof -
  have ord: "\<forall>a \<in> set api_table. ordinary a" and keys: "\<forall>x \<in> set api_table. slot x \<in> set slots"
    and each: "\<forall>k \<in> set slots. sorted_wrt (\<lambda>a b. \<not> conflicts b a) (filter (\<lambda>x. slot x = k) api_table)"
    using api_table_checked by (simp_all add: table_check_def list_all_iff)
  have "sorted_wrt (\<lambda>a b. \<not> conflicts b a) api_table"
    using ord conflicts_slot by (intro sorted_wrt_slots [OF _ keys each]) metis
  then show ?thesis using ord root_conflicts by (auto simp: routes_parsed sorted_wrt_append)
qed

lemma sorted_wrt_distinct: "sorted_wrt P xs \<Longrightarrow> (\<And>x. \<not> P x x) \<Longrightarrow> distinct xs"
  by (induction xs) auto

lemma routes_ok: "table_ok routes"
proof -
  have "distinct (map (\<lambda>r. parse_pattern (rt_Pattern r)) routes)" using table_sorted by (rule sorted_wrt_distinct) simp
  moreover have "Rest \<notin> set (butlast (path_of r))" if "r \<in> set routes" for r
  proof -
    have "parse_pattern (rt_Pattern r) \<in> set (api_table @ [([], [Rest])])"
      using that unfolding routes_parsed [symmetric] by simp
    then have "ordinary (parse_pattern (rt_Pattern r)) \<or> path_of r = [Rest]"
      using api_table_checked by (auto simp: table_check_def list_all_iff parse_pattern_def)
    then show ?thesis by (auto simp: ordinary_def parse_pattern_def dest: in_set_butlastD)
  qed
  ultimately show ?thesis by (simp add: table_ok_def distinct_map)
qed

text \<open>C37: The router. Registering the patterns panics on no conflict, so the server starts; the order in which they are
  registered does not matter; and no route is hidden by another: a request with the method and the path of a pattern, with
  any identifier in the place of the wildcard that is not itself a word of the table, goes to that route.\<close>

theorem router_well_defined:
  assumes "set rs = set routes" and "r \<in> set routes" and "r \<noteq> last routes" and "v \<noteq> []"
    and "\<forall>x \<in> set routes. Lit v \<notin> set (path_of x)"
  shows "register_all [] (map (\<lambda>r. parse_pattern (rt_Pattern r)) routes) \<noteq> None \<and>
    find_route rs m ss = find_route routes m ss \<and> find_route routes (method_of r) (fill v (path_of r)) = Some r"
proof -
  have "r \<in> set (butlast routes)" using assms(2,3) last_route(1) by (metis append_butlast_last_id rotate1.simps(2) set_ConsD set_rotate1)
  then have "parse_pattern (rt_Pattern r) \<in> set api_table" by (simp add: api_table_def)
  then have "Rest \<notin> set (path_of r)"
    using api_table_checked by (auto simp: parse_pattern_def table_check_def list_all_iff ordinary_def)
  then show ?thesis
    using register_all_ok [OF table_sorted, of "[]"] find_route_cong [OF routes_ok assms(1)] find_route_fill [OF routes_ok assms(2) _ assms(4,5)]
    by simp
qed

lemma router_well_defined_witness:
  "find_route (rev routes) ''GET'' [''api'', ''v1'', ''orders'', ''order-7''] = find_route routes ''GET'' [''api'', ''v1'', ''orders'', ''order-7''] \<and>
   find_route routes ''POST'' (fill ''order-7'' (path_of (route ''POST /api/v1/orders/{id}/verify'' Signed Plain ''giftH.VerifyOrder''))) =
     Some (route ''POST /api/v1/orders/{id}/verify'' Signed Plain ''giftH.VerifyOrder'')"
proof -
  let ?r = "route ''POST /api/v1/orders/{id}/verify'' Signed Plain ''giftH.VerifyOrder''"
  have r: "?r \<in> set routes" "?r \<noteq> last routes" by (simp add: routes_def order_routes_def, simp add: last_route(2))
  have m: "pattern_method ''POST /api/v1/orders/{id}/verify'' = ''POST''" by code_simp
  have "list_all (\<lambda>x. Lit ''order-7'' \<notin> set (path_of x)) routes" by code_simp
  then have "\<forall>x \<in> set routes. Lit ''order-7'' \<notin> set (path_of x)" by (simp add: list_all_iff)
  from router_well_defined [OF _ r(1,2) _ this, of "rev routes" "''GET''" "[''api'', ''v1'', ''orders'', ''order-7'']"]
  show ?thesis by (simp add: m)
qed

section \<open>What needs a token\<close>

text \<open>The handlers that are not behind \<open>sharedAuth\<close>.\<close>

definition open_handlers :: "string list" where
  "open_handlers =
     [''authH.PhoneStart'', ''authH.PhoneVerify'', ''authH.EmailRegister'', ''authH.EmailLogin'', ''authH.Refresh'', ''authH.Logout'',
      ''profileH.GetProfile'', ''profileH.GetFollowing'', ''profileH.GetFollowers'', ''feedH.GetFeed'', ''feedH.GetRoom'',
      ''streamH.GetStream'', ''feedH.Search'', ''feedH.GetNotificationSummary'', ''wsHandler'', ''giftH.Catalogue'', ''giftH.Products'',
      ''creatorH.ListPayoutCountries'', ''modH.ListRules'', ''rolloutH.GetConfig'', ''health'', ''servePrivacyPolicy'',
      ''serveTermsOfService'', ''serveWebUI'']"

lemma open_routes: "map rt_Handler (filter (\<lambda>r. rt_Guard r \<noteq> Signed) routes) = open_handlers"
  by (simp add: route_tables open_handlers_def)

definition no_token :: "token_crypto \<Rightarrow> token_issuer \<Rightarrow> time \<Rightarrow> request \<Rightarrow> bool" where
  "no_token cr ti now r \<longleftrightarrow> (\<forall>raw c. rq_Authorization r = bearer_prefix @ raw \<longrightarrow> VerifyAccessToken cr ti now raw \<noteq> Inr c)"

lemma no_token_gates:
  assumes "no_token cr ti now r"
  shows "sharedAuth cr ti now h (r\<lparr>rq_roomID := i\<rparr>) e = (answer 401, e)"
    and "sharedOptAuth cr ti now h (r\<lparr>rq_roomID := i\<rparr>) e = h (r\<lparr>rq_roomID := i\<rparr>) e"
proof -
  have "VerifyAccessToken cr ti now (TrimPrefix (rq_Authorization r) bearer_prefix) \<noteq> Inr c"
    if "HasPrefix (rq_Authorization r) bearer_prefix" for c
    using HasPrefix_split [OF that] assms by (auto simp: no_token_def)
  then show "sharedAuth cr ti now h (r\<lparr>rq_roomID := i\<rparr>) e = (answer 401, e)"
    "sharedOptAuth cr ti now h (r\<lparr>rq_roomID := i\<rparr>) e = h (r\<lparr>rq_roomID := i\<rparr>) e"
    by (auto simp: sharedAuth_def sharedOptAuth_def Let_def split: sum.split)
qed

lemma Split_not_Nil [simp]: "Split c s \<noteq> []"
  by (cases s) (auto split: list.split)

lemma find_route_in: "find_route rs m ss = Some r \<Longrightarrow> r \<in> set rs"
  using best_max unfolding find_route_def of_method_def by (fastforce split: option.splits if_splits)

text \<open>C33: What can be reached without a token. A request without a valid access token is answered 401, or redirected, with
  nothing changed and no handler run; or its route is one of the 24 listed ones, and then it runs as nobody: with the
  account of the request as it came. So no other handler ever runs for a request that is not authenticated,
  whatever its method and path.\<close>

theorem handlers_behind_the_gate:
  assumes "no_token cr ti now r"
  shows "mux cr ti now touch handlers r e \<in> {(answer 401, e), (answer 301, e)} \<or>
    (\<exists>rt. find_route routes (rq_Method r) (segments (rq_Path r)) = Some rt \<and> rt_Handler rt \<in> set open_handlers \<and>
       mux cr ti now touch handlers r e =
         wrapped touch (rt_Wrapper rt) (main_handler handlers (rt_Handler rt))
           (r\<lparr>rq_roomID := path_value (path_of rt) (segments (rq_Path r))\<rparr>) e)"
proof (cases "find_route routes (rq_Method r) (segments (rq_Path r))")
  case None
  have "last routes \<in> set (of_method routes [] (segments (rq_Path r)))"
    using parse_root last_route last_in_set [OF last_route(1)]
    by (cases "segments (rq_Path r)") (auto simp: of_method_def parse_pattern_def segments_def)
  then show ?thesis using None by (auto simp: find_route_def split: option.splits)
next
  case (Some rt)
  show ?thesis
  proof (cases "rt_Guard rt = Signed")
    case True
    then show ?thesis by (simp add: mux_def Some gated_def no_token_gates(1) [OF assms])
  next
    case False
    then have "rt_Handler rt \<in> set (map rt_Handler (filter (\<lambda>r. rt_Guard r \<noteq> Signed) routes))"
      using find_route_in [OF Some] by simp
    then have "rt_Handler rt \<in> set open_handlers" unfolding open_routes .
    then show ?thesis using False
      by (cases "rt_Guard rt") (simp_all add: mux_def Some gated_def no_token_gates(2) [OF assms])
  qed
qed

lemma handlers_behind_the_gate_witness:
  "mux demo_crypto demo_issuer 0 (\<lambda>a s. s) (\<lambda>name. demo_route)
     (demo_request\<lparr>rq_Method := ''POST'', rq_Path := ''/api/v1/wallet/dev-topup'', rq_Authorization := ''Basic x''\<rparr>) demo_edge
   \<in> {(answer 401, demo_edge), (answer 301, demo_edge)}"
proof -
  let ?r = "demo_request\<lparr>rq_Method := ''POST'', rq_Path := ''/api/v1/wallet/dev-topup'', rq_Authorization := ''Basic x''\<rparr>"
  have n: "no_token demo_crypto demo_issuer 0 ?r" by (simp add: no_token_def bearer_prefix_def)
  have d: "map_option rt_Handler (find_route routes ''POST'' (segments ''/api/v1/wallet/dev-topup'')) = Some ''giftH.DevTopUp''" by code_simp
  have "''giftH.DevTopUp'' \<notin> set open_handlers" by (simp add: open_handlers_def)
  then show ?thesis
    using handlers_behind_the_gate [OF n, of "\<lambda>a s. s" "\<lambda>name. demo_route" demo_edge] d by auto
qed

end
