(* ===== verification/Wallet_Api.thy ===== *)
theory Wallet_Api
  imports Gifts Order_Service GoText
begin

text \<open>
  The HTTP endpoints of gifts, wallet, orders and spend limits (\<open>ledger/handlers/handlers.go\<close> and
  \<open>ledger/handlers/orders.go\<close>) over the in-memory stores. A handler is a function of what it reads from the
  request (the account of the token, path, query, \<open>Idempotency-Key\<close> header and the decoded body, \<open>None\<close> if
  it does not decode) and answers with the status, the error code or the values of the JSON body. The messages
  of the errors are left out.
\<close>

section \<open>Requests and answers\<close>

record 'v wallet_api =
  wa_gifts :: "mem_ledger gift_service"
  wa_ledger :: "mem_ledger ledger_repo"
  wa_orders :: "(mem_ledger, 'v) order_service"

type_synonym 'v wallet_world = "(mem_ledger, 'v) order_world"

record send_gift_body =
  sb_RecipientID :: string
  sb_RoomID :: string
  sb_GiftID :: string
  sb_Quantity :: int

record create_order_body =
  cb_SKU :: string
  cb_Platform :: string

record order_view =
  ov_OrderID :: string
  ov_Status :: order_status
  ov_Message :: string
  ov_Coins :: int
  ov_SKU :: string

definition orderStatusResponse :: "order \<Rightarrow> order_view" where
  "orderStatusResponse o' = \<lparr>ov_OrderID = o_ID o', ov_Status = o_Status o', ov_Message = o_StatusReason o',
     ov_Coins = o_Coins o', ov_SKU = o_SKU o'\<rparr>"

datatype wallet_answer =
    WalletError nat string
  | NotEnoughCoins int
  | GiftSent nat gift_result
  | WalletShown int int
  | HistoryShown "history_item list" string
  | GiftsShown "gift list"
  | ProductsShown "product list"
  | OrderOpened string order_status
  | OrderShown order_view
  | OrdersShown "order list"
  | CaseOpened string
  | LimitsShown spend_limits
  | HandlerPanic

fun answer_status :: "wallet_answer \<Rightarrow> nat" where
  "answer_status (WalletError n c) = n"
| "answer_status (NotEnoughCoins n) = 402"
| "answer_status (GiftSent n r) = n"
| "answer_status (OrderOpened i s) = 201"
| "answer_status HandlerPanic = 500"
| "answer_status a = 200"

definition queryInt :: "string \<Rightarrow> int \<Rightarrow> int" where
  "queryInt v def =
     (if v = [] then def
      else (case Atoi v of None \<Rightarrow> def | Some n \<Rightarrow> if n \<le> 0 then def else n))"

definition internal_error :: wallet_answer where
  "internal_error = WalletError 500 ''INTERNAL_ERROR''"

section \<open>Gifts and the wallet\<close>

fun writeGiftError :: "gift_error \<Rightarrow> wallet_answer" where
  "writeGiftError (GiftLedgerError (InsufficientBalanceError a c required available)) =
     NotEnoughCoins (Shortfall (InsufficientBalanceError a c required available))"
| "writeGiftError ErrGiftNotFound = WalletError 404 ''NOT_FOUND''"
| "writeGiftError ErrSelfGift = WalletError 400 ''SELF_GIFT''"
| "writeGiftError ErrInvalidQuantity = WalletError 400 ''VALIDATION_ERROR''"
| "writeGiftError ErrVelocityLimitExceeded = WalletError 429 ''RATE_LIMITED''"
| "writeGiftError ErrRecipientNotRoomHost = WalletError 400 ''VALIDATION_ERROR''"
| "writeGiftError _ = internal_error"

definition HandleSendGift :: "'v wallet_api \<Rightarrow> 'v wallet_world \<Rightarrow> time \<Rightarrow> string \<Rightarrow> string \<Rightarrow> send_gift_body option \<Rightarrow>
    wallet_answer \<times> 'v wallet_world \<times> sent_note list" where
  "HandleSendGift h w now accountID idempotencyKey body =
     (if idempotencyKey = [] then (WalletError 400 ''IDEMPOTENCY_KEY_REQUIRED'', w, [])
      else
        (case body of
           None \<Rightarrow> (WalletError 400 ''VALIDATION_ERROR'', w, [])
         | Some req \<Rightarrow>
             (let quantity = (if sb_Quantity req = 0 then 1 else sb_Quantity req)
              in case SendGift (wa_gifts h) (ow_ledger w) now accountID (sb_RecipientID req) (sb_RoomID req)
                        (sb_GiftID req) quantity idempotencyKey of
                   (Inl err, l, sent) \<Rightarrow> (writeGiftError err, w\<lparr>ow_ledger := l\<rparr>, sent)
                 | (Inr result, l, sent) \<Rightarrow>
                     (GiftSent (if gr_IsNew result then 201 else 200) result, w\<lparr>ow_ledger := l\<rparr>, sent))))"

definition HandleGetBalance :: "'v wallet_api \<Rightarrow> 'v wallet_world \<Rightarrow> string \<Rightarrow> wallet_answer" where
  "HandleGetBalance h w accountID =
     (case gift_balance (wa_gifts h) (ow_ledger w) accountID of
        Inl err \<Rightarrow> internal_error
      | Inr (coins, diamonds) \<Rightarrow> WalletShown coins diamonds)"

definition TransactionHistory :: "'v wallet_world \<Rightarrow> string \<Rightarrow> string \<Rightarrow> string \<Rightarrow> wallet_answer" where
  "TransactionHistory w accountID cursor limit =
     (case History (ow_ledger w) (UserCoinsAccount accountID) cursor (queryInt limit 50) of
        None \<Rightarrow> HandlerPanic
      | Some (items, next_cursor) \<Rightarrow> HistoryShown items next_cursor)"

definition topup_entries :: "string \<Rightarrow> int \<Rightarrow> entry list" where
  "topup_entries accountID coins =
     [\<lparr>e_account = UserCoinsAccount accountID, e_amount = coins, e_currency = Coin\<rparr>,
      \<lparr>e_account = PlatformLiabilityAccount, e_amount = neg64 coins, e_currency = Coin\<rparr>]"

text \<open>\<open>rnd\<close> is what \<open>randomHex\<close> returns. An error of the last \<open>Balance\<close> is dropped.\<close>

definition DevTopUp :: "'v wallet_api \<Rightarrow> 'v wallet_world \<Rightarrow> time \<Rightarrow> string \<Rightarrow> string \<Rightarrow> int option \<Rightarrow> string \<Rightarrow>
    wallet_answer \<times> 'v wallet_world" where
  "DevTopUp h w now accountID header body rnd =
     (case body of
        None \<Rightarrow> (WalletError 400 ''VALIDATION_ERROR'', w)
      | Some coins \<Rightarrow>
          if coins \<le> 0 then (WalletError 400 ''VALIDATION_ERROR'', w)
          else
            (let idempotencyKey = (if header = [] then ''devtopup-'' @ accountID @ ''-'' @ rnd else header)
             in case repo_PostTransaction (wa_ledger h) (ow_ledger w) now ''promo'' idempotencyKey
                       [(''reason'', AnyString ''dev_topup'')] (topup_entries accountID coins) of
                  (Inl err, l) \<Rightarrow> (internal_error, w\<lparr>ow_ledger := l\<rparr>)
                | (Inr _, l) \<Rightarrow>
                    ((case gift_balance (wa_gifts h) l accountID of
                        Inl err \<Rightarrow> WalletShown 0 0
                      | Inr (coins, diamonds) \<Rightarrow> WalletShown coins diamonds),
                     w\<lparr>ow_ledger := l\<rparr>)))"

section \<open>Orders and limits\<close>

fun writeOrderError :: "order_error \<Rightarrow> wallet_answer" where
  "writeOrderError ErrUnknownSKU = WalletError 400 ''UNKNOWN_SKU''"
| "writeOrderError ErrOrderNotFound = WalletError 404 ''NOT_FOUND''"
| "writeOrderError ErrOrderNotOwned = WalletError 403 ''FORBIDDEN''"
| "writeOrderError ErrOrderTerminal = WalletError 409 ''ORDER_TERMINAL''"
| "writeOrderError ErrTokenAlreadyUsed = WalletError 409 ''TOKEN_ALREADY_USED''"
| "writeOrderError OrderInvalidToken = WalletError 400 ''INVALID_TOKEN''"
| "writeOrderError ErrCoolingOff = WalletError 403 ''COOLING_OFF''"
| "writeOrderError ErrSpendLimitExceeded = WalletError 403 ''SPEND_LIMIT_EXCEEDED''"
| "writeOrderError _ = internal_error"

definition HandleCreateOrder :: "'v wallet_api \<Rightarrow> 'v wallet_world \<Rightarrow> time \<Rightarrow> string \<Rightarrow> string \<Rightarrow> create_order_body option \<Rightarrow>
    wallet_answer \<times> 'v wallet_world" where
  "HandleCreateOrder h w now accountID idempotencyKey body =
     (if idempotencyKey = [] then (WalletError 400 ''IDEMPOTENCY_KEY_REQUIRED'', w)
      else
        (case body of
           None \<Rightarrow> (WalletError 400 ''VALIDATION_ERROR'', w)
         | Some req \<Rightarrow>
             if cb_SKU req = [] then (WalletError 400 ''VALIDATION_ERROR'', w)
             else
               (case CreateOrder (wa_orders h) w now accountID (cb_SKU req) (cb_Platform req) idempotencyKey of
                  (Inl err, w) \<Rightarrow> (writeOrderError err, w)
                | (Inr o', w) \<Rightarrow> (OrderOpened (o_ID o') (o_Status o'), w))))"

definition HandleVerifyOrder :: "'v wallet_api \<Rightarrow> 'v wallet_world \<Rightarrow> time \<Rightarrow> string \<Rightarrow> string \<Rightarrow> string option \<Rightarrow>
    wallet_answer \<times> 'v wallet_world" where
  "HandleVerifyOrder h w now accountID orderID body =
     (case body of
        None \<Rightarrow> (WalletError 400 ''VALIDATION_ERROR'', w)
      | Some purchaseToken \<Rightarrow>
          if purchaseToken = [] then (WalletError 400 ''VALIDATION_ERROR'', w)
          else
            (case VerifyOrder (wa_orders h) w now accountID orderID purchaseToken of
               (Inl err, w) \<Rightarrow> (writeOrderError err, w)
             | (Inr o', w) \<Rightarrow> (OrderShown (orderStatusResponse o'), w)))"

definition HandleGetOrder :: "'v wallet_world \<Rightarrow> string \<Rightarrow> string \<Rightarrow> wallet_answer" where
  "HandleGetOrder w accountID orderID =
     (case GetOrder w accountID orderID of
        Inl err \<Rightarrow> writeOrderError err
      | Inr o' \<Rightarrow> OrderShown (orderStatusResponse o'))"

definition DisputeOrder :: "'v wallet_api \<Rightarrow> 'v wallet_world \<Rightarrow> string \<Rightarrow> string \<Rightarrow>
    wallet_answer \<times> (string \<times> string) list" where
  "DisputeOrder h w accountID orderID =
     (case Dispute (wa_orders h) w accountID orderID of
        (Inl err, calls) \<Rightarrow> (writeOrderError err, calls)
      | (Inr caseID, calls) \<Rightarrow> (CaseOpened caseID, calls))"

definition HandleUpdateSpendLimits :: "'v wallet_world \<Rightarrow> time \<Rightarrow> string \<Rightarrow> limits_request option \<Rightarrow>
    wallet_answer \<times> 'v wallet_world" where
  "HandleUpdateSpendLimits w now accountID body =
     (case body of
        None \<Rightarrow> (WalletError 400 ''VALIDATION_ERROR'', w)
      | Some req \<Rightarrow>
          (case UpdateSpendLimits (ow_limits w) now accountID req of
             (updated, r) \<Rightarrow> (LimitsShown updated, w\<lparr>ow_limits := r\<rparr>)))"

section \<open>One request\<close>

text \<open>A request to one of the thirteen endpoints, and what a call of a hook leaves behind.\<close>

datatype wallet_request =
    GetCatalogue
  | PostGift string "send_gift_body option"
  | GetWallet
  | GetTransactions string string
  | PostTopUp string "int option" string
  | GetProducts
  | PostOrder string "create_order_body option"
  | PostVerify string "string option"
  | GetOrders string
  | GetOneOrder string
  | PostDispute string
  | GetLimitsOf
  | PatchLimits "limits_request option"

datatype wallet_event =
    GiftEvent sent_note
  | DisputeEvent string string

fun serve_wallet :: "'v wallet_api \<Rightarrow> 'v wallet_world \<Rightarrow> time \<Rightarrow> string \<Rightarrow> wallet_request \<Rightarrow>
    wallet_answer \<times> 'v wallet_world \<times> wallet_event list" where
  "serve_wallet h w now accountID GetCatalogue = (GiftsShown gift_catalogue, w, [])"
| "serve_wallet h w now accountID (PostGift key body) =
     (case HandleSendGift h w now accountID key body of (a, w', sent) \<Rightarrow> (a, w', map GiftEvent sent))"
| "serve_wallet h w now accountID GetWallet = (HandleGetBalance h w accountID, w, [])"
| "serve_wallet h w now accountID (GetTransactions cursor limit) = (TransactionHistory w accountID cursor limit, w, [])"
| "serve_wallet h w now accountID (PostTopUp header body rnd) =
     (case DevTopUp h w now accountID header body rnd of (a, w') \<Rightarrow> (a, w', []))"
| "serve_wallet h w now accountID GetProducts = (ProductsShown Products, w, [])"
| "serve_wallet h w now accountID (PostOrder key body) =
     (case HandleCreateOrder h w now accountID key body of (a, w') \<Rightarrow> (a, w', []))"
| "serve_wallet h w now accountID (PostVerify i body) =
     (case HandleVerifyOrder h w now accountID i body of (a, w') \<Rightarrow> (a, w', []))"
| "serve_wallet h w now accountID (GetOrders status) = (OrdersShown (ListOrders w accountID status), w, [])"
| "serve_wallet h w now accountID (GetOneOrder i) = (HandleGetOrder w accountID i, w, [])"
| "serve_wallet h w now accountID (PostDispute i) =
     (case DisputeOrder h w accountID i of (a, calls) \<Rightarrow> (a, w, map (\<lambda>(x, y). DisputeEvent x y) calls))"
| "serve_wallet h w now accountID GetLimitsOf = (LimitsShown (GetSpendLimits (ow_limits w) now accountID), w, [])"
| "serve_wallet h w now accountID (PatchLimits body) =
     (case HandleUpdateSpendLimits w now accountID body of (a, w') \<Rightarrow> (a, w', []))"

section \<open>What a request may move\<close>

definition wired :: "'v wallet_api \<Rightarrow> bool" where
  "wired h \<longleftrightarrow> gs_repo (wa_gifts h) = mem_ledger_repo \<and> wa_ledger h = mem_ledger_repo \<and>
     os_ledger (wa_orders h) = mem_ledger_repo"

text \<open>Nobody's coins change but the caller's, and nobody's diamonds fall.\<close>

definition moves_only :: "string \<Rightarrow> mem_ledger \<Rightarrow> mem_ledger \<Rightarrow> bool" where
  "moves_only a l l' \<longleftrightarrow>
     (\<forall>b. b \<noteq> a \<longrightarrow> bal l' (UserCoinsAccount b, Coin) = bal l (UserCoinsAccount b, Coin)) \<and>
     (\<forall>b. bal l (UserDiamondsAccount b, Diamond) \<le> bal l' (UserDiamondsAccount b, Diamond))"

lemma moves_only_refl [simp]: "moves_only a l l"
  by (simp add: moves_only_def)

text \<open>A post whose entries touch no other coins and take no diamonds.\<close>

lemma post_moves_only:
  assumes ok: "ledger_inv l" and post: "repo_PostTransaction mem_ledger_repo l now kind key md es = (res, l')"
    and coins: "\<And>b. b \<noteq> a \<Longrightarrow> entries_at (UserCoinsAccount b, Coin) es = 0"
    and diamonds: "\<And>b. 0 \<le> entries_at (UserDiamondsAccount b, Diamond) es \<and>
      in_i64 (entries_at (UserDiamondsAccount b, Diamond) es)"
  shows "moves_only a l l' \<and> (isl res \<longrightarrow> l' = l)"
proof (cases "l' = l")
  case False
  then obtain t m where new: "repo_PostTransaction mem_ledger_repo l now kind key md es = (Inr (t, True), m)" "ledger_inv m"
      "\<And>k. bal m k = add64 (bal l k) (entries_at k es)"
    using post by (cases rule: mem.post_cases [OF ok, of now kind key md es]) auto
  have m: "l' = m" "res = Inr (t, True)" using new(1) post by simp_all
  have "bal l' (UserCoinsAccount b, Coin) = bal l (UserCoinsAccount b, Coin)" if "b \<noteq> a" for b
    using new(3) [of "(UserCoinsAccount b, Coin)"] coins [OF that] mem.range_law [OF ok, of "(UserCoinsAccount b, Coin)"] m
    by (simp add: add64_id)
  moreover have "bal l (UserDiamondsAccount b, Diamond) \<le> bal l' (UserDiamondsAccount b, Diamond)" for b
  proof -
    let ?k = "(UserDiamondsAccount b, Diamond)"
    have b: "0 \<le> bal l ?k" "in_i64 (bal l ?k)" "0 \<le> bal l' ?k"
      using mem.nonneg_law [OF ok] mem.range_law [OF ok] mem.nonneg_law [OF new(2)] m by simp_all
    have "bal l' ?k = add64 (bal l ?k) (entries_at ?k es)" using new(3) m by simp
    then have "bal l' ?k = bal l ?k + entries_at ?k es"
      using add64_no_wrap [OF b(1,2)] diamonds [of b] b(3) by simp
    then show ?thesis using diamonds [of b] by simp
  qed
  ultimately show ?thesis using m by (simp add: moves_only_def)
qed simp

lemma topup_moves: "b \<noteq> a \<Longrightarrow> entries_at (UserCoinsAccount b, Coin) (topup_entries a n) = 0"
  "entries_at (UserDiamondsAccount b, Diamond) (topup_entries a n) = 0"
  by (auto simp: entries_at_def topup_entries_def entry_key_def account_defs)

lemma gift_moves:
  assumes "0 < n" and "n \<le> 20000000"
  shows "b \<noteq> s \<Longrightarrow> entries_at (UserCoinsAccount b, Coin) (gift_entries s r n) = 0"
    and "0 \<le> entries_at (UserDiamondsAccount b, Diamond) (gift_entries s r n) \<and>
      in_i64 (entries_at (UserDiamondsAccount b, Diamond) (gift_entries s r n))"
proof -
  have "0 \<le> creator_diamonds n" "in_i64 (creator_diamonds n)"
    using assms creator_diamonds_nonneg [of n] by (simp_all add: creator_diamonds_def)
  then show "0 \<le> entries_at (UserDiamondsAccount b, Diamond) (gift_entries s r n) \<and>
      in_i64 (entries_at (UserDiamondsAccount b, Diamond) (gift_entries s r n))"
    by (auto simp: entries_at_gift account_defs in_i64_def)
  show "entries_at (UserCoinsAccount b, Coin) (gift_entries s r n) = 0" if "b \<noteq> s"
    using that by (auto simp: entries_at_gift account_defs)
qed

lemma finalize_mem: "ledger_inv l \<Longrightarrow> gs_repo s = mem_ledger_repo \<Longrightarrow> \<exists>r. finalizeResult s l t a b = Inr r \<and> gr_IsNew r = b"
proof -
  assume ok: "ledger_inv l" "gs_repo s = mem_ledger_repo"
  have "gr_IsNew (result_of_entries x r es) = gr_IsNew r" for x r es
    by (induction es arbitrary: r) auto
  then show ?thesis using mem.balance_law [OF ok(1)] ok(2) by (simp add: finalizeResult_def Let_def)
qed

text \<open>A gift request that is not answered 201 leaves the ledger as it was.\<close>

lemma SendGift_moves:
  assumes ok: "ledger_inv l" and R: "gs_repo s = mem_ledger_repo"
    and send: "SendGift s l now a recipient room giftID q key = (res, l', sent)"
  shows "moves_only a l l' \<and> (l' \<noteq> l \<or> sent \<noteq> [] \<longrightarrow> (\<exists>r. res = Inr r \<and> gr_IsNew r)) \<and> ledger_inv l'"
proof (cases "\<exists>g. gift_admitted s l now a recipient room giftID q g \<and> tx_by_key l key = None")
  case True
  then obtain g where adm: "gift_admitted s l now a recipient room giftID q g" and fresh: "tx_by_key l key = None" by blast
  let ?n = "g_Coins g * q" and ?md = "gift_metadata giftID room q a recipient"
  have n: "gross_coins g q = ?n" "0 < ?n" "?n \<le> 20000000"
    using gross_exact [of giftID g q] adm by (simp_all add: gift_admitted_def)
  obtain pr m where p: "repo_PostTransaction mem_ledger_repo l now ''gift'' key ?md (gift_entries a recipient ?n) = (pr, m)"
    by fastforce
  note out = post_moves_only [OF ok p gift_moves [OF n(2,3)]]
  note r = mem.send_gift_admitted [OF ok R fresh adm, unfolded n(1) p send, simplified]
  show ?thesis
  proof (cases pr)
    case (Inl err)
    then show ?thesis using r out ok by simp
  next
    case (Inr tb)
    obtain t b where tb: "tb = (t, b)" by (cases tb)
    have "b \<and> ledger_inv m" using mem.new_law [OF ok fresh] p Inr tb by blast
    then show ?thesis using r out Inr tb finalize_mem [OF _ R, of m t a True] by auto
  qed
next
  case False
  have get: "repo_GetTransaction (gs_repo s) l key = Inr (tx_by_key l key)" using mem.get_law [OF ok] R by simp
  have "l' = l \<and> sent = []"
    using send False get by (auto simp: SendGift_def gift_admitted_def split: if_splits option.splits)
  then show ?thesis using ok by simp
qed

subsection \<open>Verifying an order\<close>

text \<open>What a call of \<open>advance\<close> may do to the ledger: nothing, or the post of the owner's purchase, in which case
  the answer is a success.\<close>

definition credit_outcome :: "string \<Rightarrow> 'v wallet_world \<Rightarrow> (order_error + order) \<times> 'v wallet_world \<Rightarrow> bool" where
  "credit_outcome a w out \<longleftrightarrow> ow_ledger (snd out) = ow_ledger w \<or>
     \<not> isl (fst out) \<and> (\<exists>now p tb. o_AccountID p = a \<and>
       repo_PostTransaction mem_ledger_repo (ow_ledger w) now ''purchase'' (order_key (o_ID p)) (purchase_metadata p)
         (purchase_entries p) = (tb, ow_ledger (snd out)))"

lemma credit_outcome_cong: "ow_ledger w1 = ow_ledger w \<Longrightarrow> credit_outcome a w1 out = credit_outcome a w out"
  by (simp add: credit_outcome_def)

lemma credit_outcome_same [simp]: "ow_ledger w' = ow_ledger w \<Longrightarrow> credit_outcome a w (res, w')"
  by (simp add: credit_outcome_def)

text \<open>A save of an order the store knows succeeds and leaves the ledger alone.\<close>

lemma save_succeeds:
  assumes "orders_ok (ow_orders w)" and "knows (ow_orders w) o'" and "o_ID q = o_ID o'" and "purchase_of q = purchase_of o'"
  shows "\<exists>w'. save_order w now q = (Inr (q\<lparr>o_UpdatedAt := now\<rparr>), w') \<and> ow_ledger w' = ow_ledger w \<and>
    orders_ok (ow_orders w') \<and> knows (ow_orders w') (q\<lparr>o_UpdatedAt := now\<rparr>)"
proof -
  have k: "knows (ow_orders w) q" using assms(2-4) knows_cong by blast
  show ?thesis by (rule save_known [OF assms(1) k, of now]) (auto simp: only_order_def)
qed

lemma credit_credits:
  assumes "os_ledger s = mem_ledger_repo" and "ledger_inv (ow_ledger w)" and "orders_ok (ow_orders w)" and "knows (ow_orders w) o'"
  shows "credit_outcome (o_AccountID o') w (advance_credit s w now o')"
proof (cases "o_Status o' = OrderCrediting")
  case True
  obtain res l where p: "repo_PostTransaction mem_ledger_repo (ow_ledger w) now ''purchase'' (order_key (o_ID o'))
      (purchase_metadata o') (purchase_entries o') = (res, l)" by fastforce
  let ?w = "w\<lparr>ow_ledger := l\<rparr>"
  show ?thesis
  proof (cases res)
    case (Inl err)
    then have "l = ow_ledger w" using mem.error_law [OF assms(2)] p by blast
    then show ?thesis using True Inl p assms(1) by (simp add: advance_credit_def post_purchase_def)
  next
    case (Inr tb)
    obtain t b where tb: "tb = (t, b)" by (cases tb)
    let ?q = "o'\<lparr>o_Status := OrderCredited, o_StatusReason := ''coins credited'', o_LedgerTransactionID := tx_ID t\<rparr>"
    obtain w' where w': "save_order ?w now ?q = (Inr (?q\<lparr>o_UpdatedAt := now\<rparr>), w')" "ow_ledger w' = l"
      using save_succeeds [of ?w o' ?q now] assms(3,4) by auto
    have "advance_credit s w now o' = (Inr (?q\<lparr>o_UpdatedAt := now\<rparr>), w')"
      using True Inr tb p assms(1) w'(1) by (simp add: advance_credit_def post_purchase_def)
    then show ?thesis unfolding credit_outcome_def using p w'(2) by auto
  qed
qed (simp add: advance_credit_def)

lemma paid_credits:
  assumes "os_ledger s = mem_ledger_repo" and "ledger_inv (ow_ledger w)" and "orders_ok (ow_orders w)" and "knows (ow_orders w) o'"
  shows "credit_outcome (o_AccountID o') w (advance_paid s w now o')"
proof (cases "o_Status o' = OrderPaid")
  case True
  let ?q = "o'\<lparr>o_Status := OrderCrediting\<rparr>"
  obtain w' where w': "save_order w now ?q = (Inr (?q\<lparr>o_UpdatedAt := now\<rparr>), w')" "ow_ledger w' = ow_ledger w"
      "orders_ok (ow_orders w')" "knows (ow_orders w') (?q\<lparr>o_UpdatedAt := now\<rparr>)"
    using save_succeeds [OF assms(3,4), of ?q now] by auto
  then show ?thesis
    using True assms(2) credit_credits [OF assms(1) _ w'(3,4), of now] credit_outcome_cong [OF w'(2)]
    by (simp add: advance_paid_def)
qed (use credit_credits [OF assms, of now] in \<open>simp add: advance_paid_def\<close>)

lemma pending_credits:
  assumes "os_ledger s = mem_ledger_repo" and "ledger_inv (ow_ledger w)" and "orders_ok (ow_orders w)" and "knows (ow_orders w) o'"
  shows "credit_outcome (o_AccountID o') w (advance_pending s w now o' tok)"
proof (cases "o_Status o' = OrderPendingPayment")
  case True
  obtain r w0 where ask: "ask_store s w now o' tok = (r, w0)" by fastforce
  then have w0: "ow_orders w0 = ow_orders w" "ow_ledger w0 = ow_ledger w"
    by (auto simp: ask_store_def split: prod.splits)
  let ?q = "o'\<lparr>o_Status := OrderPaid, o_StatusReason := paid_reason\<rparr>"
  obtain w' where w': "save_order w0 now ?q = (Inr (?q\<lparr>o_UpdatedAt := now\<rparr>), w')" "ow_ledger w' = ow_ledger w"
      "orders_ok (ow_orders w')" "knows (ow_orders w') (?q\<lparr>o_UpdatedAt := now\<rparr>)"
    using save_succeeds [of w0 o' ?q now] assms(3,4) w0 by auto
  have c: "credit_outcome (o_AccountID o') w (advance_paid s w' now (?q\<lparr>o_UpdatedAt := now\<rparr>))"
    using paid_credits [OF assms(1) _ w'(3,4), of now] assms(2) credit_outcome_cong [OF w'(2)] w'(2) by simp
  have quiet: "save_quietly w0 now x = (y, w2) \<Longrightarrow> ow_ledger w2 = ow_ledger w" for x y w2
    using save_quietly_ledger [of w0 now x] w0(2) by simp
  show ?thesis
    using True ask w'(1) c quiet
    by (cases r) (auto simp: advance_pending_def Let_def w0(2) split: prod.split dest: quiet)
qed (use paid_credits [OF assms, of now] in \<open>simp add: advance_pending_def\<close>)

lemma advance_outcome:
  assumes "os_ledger s = mem_ledger_repo" and "ledger_inv (ow_ledger w)" and "orders_ok (ow_orders w)" and "knows (ow_orders w) o'"
  shows "credit_outcome (o_AccountID o') w (advance s w now o' tok)"
proof -
  have created: "credit_outcome (o_AccountID o') w (advance_created s w now o' t)" for t
  proof (cases "o_Status o' = OrderCreated")
    case True
    obtain w' where w': "save_order w now (claimed s o' t) = (Inr ((claimed s o' t)\<lparr>o_UpdatedAt := now\<rparr>), w')" "ow_ledger w' = ow_ledger w"
        "orders_ok (ow_orders w')" "knows (ow_orders w') ((claimed s o' t)\<lparr>o_UpdatedAt := now\<rparr>)"
      using save_succeeds [OF assms(3,4), of "claimed s o' t" now] by (auto simp: claimed_def)
    then show ?thesis
      using True assms(2) pending_credits [OF assms(1) _ w'(3,4), of now t] credit_outcome_cong [OF w'(2)]
      by (simp add: advance_created_def) (simp add: claimed_def)
  qed (use pending_credits [OF assms, of now] in \<open>simp add: advance_created_def\<close>)
  have quiet: "save_quietly w now x = (y, w2) \<Longrightarrow> ow_ledger w2 = ow_ledger w" for x y w2
    using save_quietly_ledger [of w now x] by simp
  show ?thesis
    using created by (auto simp: advance_def Let_def split: prod.split dest: quiet)
qed

text \<open>So a verify call that is not answered with the order leaves the ledger as it was.\<close>

lemma VerifyOrder_moves:
  assumes "os_ledger s = mem_ledger_repo" and ok: "ledger_inv (ow_ledger w)" and r: "orders_ok (ow_orders w)"
    and v: "VerifyOrder s w now a i tok = (res, w')"
  shows "moves_only a (ow_ledger w) (ow_ledger w') \<and> (isl res \<longrightarrow> ow_ledger w' = ow_ledger w)"
proof (cases "\<exists>o'. map_of (mo_byID (ow_orders w)) i = Some o' \<and> o_AccountID o' = a")
  case True
  then obtain o' where o': "map_of (mo_byID (ow_orders w)) i = Some o'" "o_AccountID o' = a" by blast
  have "advance s w now o' tok = (res, w')" using v o' by (simp add: VerifyOrder_def MemGetOrder_def)
  then have c: "credit_outcome a w (res, w')"
    using advance_outcome [OF assms(1) ok r, of o' now tok] knows_get [OF r o'(1)] o'(2) by simp
  show ?thesis
  proof (cases "ow_ledger w' = ow_ledger w")
    case False
    then obtain now p tb where p: "o_AccountID p = a" "\<not> isl res"
      "repo_PostTransaction mem_ledger_repo (ow_ledger w) now ''purchase'' (order_key (o_ID p)) (purchase_metadata p)
        (purchase_entries p) = (tb, ow_ledger w')"
      using c by (auto simp: credit_outcome_def)
    have "entries_at (UserCoinsAccount b, Coin) (purchase_entries p) = 0" if "b \<noteq> a" for b
      using that p(1) by (auto simp: entries_at_purchase account_defs)
    moreover have "entries_at (UserDiamondsAccount b, Diamond) (purchase_entries p) = 0" for b
      by (auto simp: entries_at_purchase account_defs)
    ultimately show ?thesis using post_moves_only [OF ok p(3), of a] p(2) by (simp add: in_i64_def)
  qed simp
next
  case False
  then have "ow_ledger w' = ow_ledger w"
    using v by (auto simp: VerifyOrder_def MemGetOrder_def split: option.splits if_splits)
  then show ?thesis by simp
qed

section \<open>A small server for the witnesses\<close>

text \<open>The attacker \<open>a\<close> has 30 coins and spends 10 of them on a rose; the order of \<open>u\<close> is for 100 coins.\<close>

definition demo_api :: "verifier_state wallet_api" where
  "demo_api = \<lparr>wa_gifts = demo_gifts, wa_ledger = mem_ledger_repo, wa_orders = demo_shop\<rparr>"

definition attacked_world :: "verifier_state wallet_world" where
  "attacked_world = demo_pending\<lparr>ow_ledger := demo_ledger\<rparr>"

definition rose_for_b :: send_gift_body where
  "rose_for_b = \<lparr>sb_RecipientID = ''b'', sb_RoomID = [], sb_GiftID = ''g_rose'', sb_Quantity = 0\<rparr>"

lemma demo_api_wired: "wired demo_api"
  by (simp add: wired_def demo_api_def demo_gifts_def demo_shop_def)

lemma attacked_world_ok: "orders_ok (ow_orders attacked_world)" "ow_ledger attacked_world = demo_ledger"
  using demo_pending_ok by (simp_all add: attacked_world_def)

lemma demo_refused:
  "answer_status (fst (serve_wallet demo_api attacked_world 45 ''a''
     (PostGift ''k9'' (Some (rose_for_b\<lparr>sb_GiftID := ''g_crown''\<rparr>))))) = 402"
  by code_simp

lemma demo_theft:
  "order_key ''order-1'' = ''order-order-1''"
  "(case serve_wallet demo_api attacked_world 45 ''a'' (PostGift ''order-order-1'' (Some rose_for_b)) of
      (GiftSent n r, w1, events) \<Rightarrow>
        (n, getz (ml_balances (ow_ledger w1)) (UserCoinsAccount ''a'', Coin), getz (ml_balances (ow_ledger w1)) (UserCoinsAccount ''u'', Coin))
    | _ \<Rightarrow> (0, 0, 0)) = (201, 20, 0)"
  by code_simp+

section \<open>Properties\<close>

lemma writeGiftError_status: "400 \<le> answer_status (writeGiftError e)"
  by (cases e rule: writeGiftError.cases) (simp_all add: internal_error_def)

lemma writeOrderError_status: "400 \<le> answer_status (writeOrderError e)"
  by (cases e rule: writeOrderError.cases) (simp_all add: internal_error_def)

lemma HandleSendGift_moves:
  assumes "wired h" and "ledger_inv (ow_ledger w)" and "HandleSendGift h w now a key body = (ans, w', sent)"
  shows "moves_only a (ow_ledger w) (ow_ledger w') \<and>
    (ow_ledger w' \<noteq> ow_ledger w \<or> sent \<noteq> [] \<longrightarrow> answer_status ans = 201)"
proof (cases "key = [] \<or> body = None")
  case False
  then obtain req where req: "body = Some req" by blast
  let ?q = "if sb_Quantity req = 0 then 1 else sb_Quantity req"
  obtain res l sent' where s: "SendGift (wa_gifts h) (ow_ledger w) now a (sb_RecipientID req) (sb_RoomID req)
      (sb_GiftID req) ?q key = (res, l, sent')" by (metis prod_cases3)
  have "gs_repo (wa_gifts h) = mem_ledger_repo" using assms(1) by (simp add: wired_def)
  from SendGift_moves [OF assms(2) this s] show ?thesis
    using assms(3) False s req by (cases res) (auto simp: HandleSendGift_def Let_def)
qed (use assms(3) in \<open>auto simp: HandleSendGift_def split: if_splits\<close>)

lemma DevTopUp_moves:
  assumes "wired h" and "ledger_inv (ow_ledger w)" and "DevTopUp h w now a header body rnd = (ans, w')"
  shows "moves_only a (ow_ledger w) (ow_ledger w') \<and> (400 \<le> answer_status ans \<longrightarrow> ow_ledger w' = ow_ledger w)"
proof (cases "\<exists>n. body = Some n \<and> 0 < n")
  case True
  then obtain n where n: "body = Some n" "0 < n" by blast
  let ?key = "if header = [] then ''devtopup-'' @ a @ ''-'' @ rnd else header"
  obtain res l where p: "repo_PostTransaction mem_ledger_repo (ow_ledger w) now ''promo'' ?key
      [(''reason'', AnyString ''dev_topup'')] (topup_entries a n) = (res, l)" by fastforce
  have "moves_only a (ow_ledger w) l \<and> (isl res \<longrightarrow> l = ow_ledger w)"
    by (rule post_moves_only [OF assms(2) p]) (simp_all add: topup_moves in_i64_def)
  then show ?thesis
    using assms(1,3) n p by (cases res) (auto simp: DevTopUp_def Let_def wired_def split: sum.splits)
qed (use assms(3) in \<open>auto simp: DevTopUp_def split: option.splits\<close>)

text \<open>C23: What an answer tells, and whose money a request moves. Over a ledger and orders that the server can have:
  however a request to these endpoints is answered, only the coins of the account that sent it can change, and
  nobody's diamonds fall; a request that is answered with an error has moved nothing and called no hook; and a
  gift has changed the ledger only when the answer is 201, so a repeated request (200) has not.\<close>

theorem answers_tell_what_moved:
  assumes "wired h" and "ledger_reachable (ow_ledger w)" and "orders_ok (ow_orders w)"
    and "serve_wallet h w now a req = (ans, w', events)"
  shows "moves_only a (ow_ledger w) (ow_ledger w') \<and>
    (400 \<le> answer_status ans \<longrightarrow> ow_ledger w' = ow_ledger w \<and> events = []) \<and>
    (\<forall>key body. req = PostGift key body \<longrightarrow> ow_ledger w' \<noteq> ow_ledger w \<or> events \<noteq> [] \<longrightarrow> answer_status ans = 201)"
proof -
  have inv: "ledger_inv (ow_ledger w)" using assms(2) by (rule ledger_reachable_inv)
  show ?thesis
  proof (cases req)
    case (PostGift key body)
    then show ?thesis
      using assms(4) HandleSendGift_moves [OF assms(1) inv, of now a key body] by (auto split: prod.splits)
  next
    case (PostTopUp header body rnd)
    then show ?thesis
      using assms(4) DevTopUp_moves [OF assms(1) inv, of now a header body rnd] by (auto split: prod.splits)
  next
    case (PostOrder key body)
    then have "ow_ledger w' = ow_ledger w \<and> events = []"
      using assms(4) by (auto simp: HandleCreateOrder_def CreateOrder_def split: if_splits option.splits sum.splits prod.splits)
    then show ?thesis using PostOrder by simp
  next
    case (PostVerify i body)
    have os: "os_ledger (wa_orders h) = mem_ledger_repo" using assms(1) by (simp add: wired_def)
    show ?thesis
    proof (cases "body = None \<or> body = Some []")
      case False
      then obtain tok where tok: "body = Some tok" "tok \<noteq> []" by auto
      obtain res w1 where v: "VerifyOrder (wa_orders h) w now a i tok = (res, w1)" by fastforce
      show ?thesis
        using VerifyOrder_moves [OF os inv assms(3) v] assms(4) PostVerify tok v
        by (cases res) (auto simp: HandleVerifyOrder_def)
    qed (use assms(4) PostVerify in \<open>auto simp: HandleVerifyOrder_def\<close>)
  next
    case (PostDispute i)
    then show ?thesis
      using assms(4) by (auto simp: DisputeOrder_def Dispute_def GetOrder_def split: if_splits sum.splits prod.splits)
  next
    case (PatchLimits body)
    then show ?thesis
      using assms(4) by (auto simp: HandleUpdateSpendLimits_def split: option.splits prod.splits)
  qed (use assms(4) in auto)
qed

lemma answers_tell_what_moved_witness:
  "\<exists>ans w' events. serve_wallet demo_api attacked_world 45 ''a''
       (PostGift ''k9'' (Some (rose_for_b\<lparr>sb_GiftID := ''g_crown''\<rparr>))) = (ans, w', events) \<and>
     answer_status ans = 402 \<and> ow_ledger w' = demo_ledger \<and> events = []"
proof -
  let ?req = "PostGift ''k9'' (Some (rose_for_b\<lparr>sb_GiftID := ''g_crown''\<rparr>))"
  obtain ans w' events where s: "serve_wallet demo_api attacked_world 45 ''a'' ?req = (ans, w', events)" by (metis prod_cases3)
  have a: "answer_status ans = 402" using s demo_refused by (metis fst_conv)
  have l: "ledger_reachable (ow_ledger attacked_world)" using demo_reachable attacked_world_ok(2) by simp
  note m = answers_tell_what_moved [OF demo_api_wired l attacked_world_ok(1) s, THEN conjunct2, THEN conjunct1, unfolded a attacked_world_ok(2)]
  from m have "ow_ledger w' = demo_ledger" and "events = []" by simp_all
  with a s show ?thesis by (intro exI conjI) assumption+
qed

subsection \<open>The key of somebody else's purchase\<close>

lemma HandleSendGift_sent:
  assumes "HandleSendGift h w now a key body = (GiftSent n r, w1, sent)"
  shows "\<exists>(req :: send_gift_body) q. SendGift (wa_gifts h) (ow_ledger w) now a (sb_RecipientID req) (sb_RoomID req) (sb_GiftID req) q key =
    (Inr r, ow_ledger w1, sent)"
proof -
  have ne: "writeGiftError e \<noteq> GiftSent n r" for e
    by (cases e rule: writeGiftError.cases) (simp_all add: internal_error_def)
  obtain req where req: "body = Some req" "key \<noteq> []"
    using assms by (auto simp: HandleSendGift_def split: if_splits option.splits)
  let ?q = "if sb_Quantity req = 0 then 1 else sb_Quantity req"
  obtain res l sent' where s: "SendGift (wa_gifts h) (ow_ledger w) now a (sb_RecipientID req) (sb_RoomID req)
      (sb_GiftID req) ?q key = (res, l, sent')" by (metis prod_cases3)
  then have "res = Inr r \<and> l = ow_ledger w1 \<and> sent' = sent"
    using assms req ne by (cases res) (auto simp: HandleSendGift_def Let_def)
  then show ?thesis using s by (intro exI [of _ req] exI [of _ ?q]) simp
qed

lemma nonterminal_get:
  "orders_ok r \<Longrightarrow> q \<in> set (ListNonTerminal r) \<Longrightarrow>
     map_of (mo_byID r) (o_ID q) = Some q \<and> o_Status q \<in> set NonTerminalOrderStatuses"
  using knows_get orders_okD(1) by (fastforce simp: ListNonTerminal_def wf_map_def)

text \<open>Whatever posted it, a transaction under the key of an order that waits for its payment counts as its credit.\<close>

lemma taken_key_credits_nothing:
  assumes "wired h" and "ledger_inv (ow_ledger w)" and "orders_ok (ow_orders w)"
    and "MemGetOrder (ow_orders w) i = Inr o'" and "o_Status o' = OrderPendingPayment"
    and "tx_by_key (ow_ledger w) (order_key i) = Some t"
    and "tok \<noteq> []" and "\<not> token_taken (wa_orders h) w o' tok"
    and "fst (ask_store (wa_orders h) w now o' tok) = Confirmed"
    and "bal (ow_ledger w) (UserCoinsAccount (o_AccountID o'), Coin) + o_Coins o' < 2 ^ 63"
  shows "\<exists>v w'. serve_wallet h w now (o_AccountID o') (PostVerify i (Some tok)) = (OrderShown v, w', []) \<and>
    ov_Status v = OrderCredited \<and> ov_Coins v = o_Coins o' \<and> ow_ledger w' = ow_ledger w \<and>
    (\<forall>q \<in> set (ListNonTerminal (ow_orders w')). o_ID q \<noteq> i)"
proof -
  have m: "map_of (mo_byID (ow_orders w)) i = Some o'" using assms(4) by (auto simp: MemGetOrder_def split: option.splits)
  have i: "o_ID o' = i" using knows_get [OF assms(3) m] by simp
  have o': "map_of (mo_byID (ow_orders w)) (o_ID o') = Some o'" "o_Status o' \<in> set NonTerminalOrderStatuses"
    using m i assms(5) by (simp_all add: NonTerminalOrderStatuses_def)
  have os: "os_ledger (wa_orders h) = mem_ledger_repo" using assms(1) by (simp add: wired_def)
  obtain p w' where p: "advance (wa_orders h) w now o' tok = (Inr p, w')" and c: "mem.credited w o' p w'"
    using mem.advance_credits [OF assms(2) os assms(3) o', where t = tok and tok = tok and now = now] assms(7-10)
    by fastforce
  have "VerifyOrder (wa_orders h) w now (o_AccountID o') i tok = (Inr p, w')" using p assms(4) by (simp add: VerifyOrder_def)
  moreover have "ow_ledger w' = ow_ledger w" "o_Status p = OrderCredited" "o_Coins p = o_Coins o'"
    "map_of (mo_byID (ow_orders w')) i = Some p"
    using c assms(6) i by (simp_all add: mem.credited_def purchase_of_def)
  moreover have "o_ID q \<noteq> i" if "q \<in> set (ListNonTerminal (ow_orders w'))" for q
    using nonterminal_get [OF _ that] c i by (auto simp: mem.credited_def only_order_def NonTerminalOrderStatuses_def)
  ultimately show ?thesis using assms(7) by (simp add: HandleVerifyOrder_def orderStatusResponse_def)
qed

text \<open>C15: A paid purchase can be swallowed. The keys of orders are counted (\<open>order-order-1\<close>, \<open>order-order-2\<close>, ...)
  and share one namespace with the keys that clients choose. If anybody has sent a gift of any price under the key of
  an order, and whatever else was posted since, then the buyer who pays, and whose payment the store confirms, is
  told that the coins are credited, the order is closed as credited, and the ledger does not change: no coins ever
  arrive, and the reconciler has nothing left to repair.\<close>

theorem purchase_swallowed:
  assumes "wired h" and "ledger_reachable (ow_ledger w)"
    and "serve_wallet h w t0 attacker (PostGift (order_key i) body) = (GiftSent 201 r, w1, events)"
    and "ledger_steps (ow_ledger w1) (ow_ledger w2)" and "orders_ok (ow_orders w2)"
    and "MemGetOrder (ow_orders w2) i = Inr o'" and "o_Status o' = OrderPendingPayment"
    and "tok \<noteq> []" and "\<not> token_taken (wa_orders h) w2 o' tok"
    and "fst (ask_store (wa_orders h) w2 now o' tok) = Confirmed"
    and "bal (ow_ledger w2) (UserCoinsAccount (o_AccountID o'), Coin) + o_Coins o' < 2 ^ 63"
  shows "\<exists>v w3. serve_wallet h w2 now (o_AccountID o') (PostVerify i (Some tok)) = (OrderShown v, w3, []) \<and>
    ov_Status v = OrderCredited \<and> ov_Coins v = o_Coins o' \<and> ow_ledger w3 = ow_ledger w2 \<and>
    (\<forall>q \<in> set (ListNonTerminal (ow_orders w3)). o_ID q \<noteq> i)"
proof -
  have inv: "ledger_inv (ow_ledger w)" and R: "gs_repo (wa_gifts h) = mem_ledger_repo"
    using assms(1,2) ledger_reachable_inv by (simp_all add: wired_def)
  obtain req :: send_gift_body and q sent where s: "SendGift (wa_gifts h) (ow_ledger w) t0 attacker (sb_RecipientID req) (sb_RoomID req)
      (sb_GiftID req) q (order_key i) = (Inr r, ow_ledger w1, sent)"
    using assms(3) HandleSendGift_sent [of h w t0 attacker "order_key i" body 201 r w1] by (auto split: prod.splits)
  obtain t where "tx_by_key (ow_ledger w1) (order_key i) = Some t"
    using mem.send_gift_stored [OF inv R s] by auto
  then have t: "tx_by_key (ow_ledger w2) (order_key i) = Some t"
    using ledger_steps_byKey [OF assms(4)] by (simp add: tx_by_key_def)
  have "ledger_inv (ow_ledger w1)" using SendGift_moves [OF inv R s] by simp
  then have inv2: "ledger_inv (ow_ledger w2)" using ledger_steps_permanent [OF assms(4)] by blast
  from taken_key_credits_nothing [OF assms(1) inv2 assms(5-7) t assms(8-11)] show ?thesis .
qed

lemma purchase_swallowed_witness:
  "\<exists>r w1 events v w2. serve_wallet demo_api attacked_world 45 ''a'' (PostGift ''order-order-1'' (Some rose_for_b)) =
       (GiftSent 201 r, w1, events) \<and>
     serve_wallet demo_api w1 50 ''u'' (PostVerify ''order-1'' (Some ''paid'')) = (OrderShown v, w2, []) \<and>
     ov_Status v = OrderCredited \<and> ov_Coins v = 100 \<and> bal (ow_ledger w2) (UserCoinsAccount ''u'', Coin) = 0"
proof -
  let ?req = "PostGift ''order-order-1'' (Some rose_for_b)"
  obtain r w1 events where s: "serve_wallet demo_api attacked_world 45 ''a'' ?req = (GiftSent 201 r, w1, events)"
      "bal (ow_ledger w1) (UserCoinsAccount ''u'', Coin) = 0"
    using demo_theft(2) by (auto simp: bal_def split: prod.splits wallet_answer.splits)
  have w1: "ow_orders w1 = ow_orders demo_pending" "ow_verifier w1 = ow_verifier demo_pending"
    using s(1) by (auto simp: HandleSendGift_def attacked_world_def Let_def split: if_splits option.splits prod.splits sum.splits)
  obtain o' where o': "demo_order ''order-1'' demo_pending = Some o'" "o_AccountID o' = ''u''" "o_Coins o' = 100"
      "o_Status o' = OrderPendingPayment" "fst (ask_store demo_shop demo_pending 50 o' ''paid'') = Confirmed"
    using demo_second_facts(1) by auto
  have g: "MemGetOrder (ow_orders w1) ''order-1'' = Inr o'"
    using o'(1) w1(1) by (simp add: demo_order_def MemGetOrder_def)
  have h: "wa_orders demo_api = demo_shop" "os_hash demo_shop t = ''#'' @ t" for t
    by (simp_all add: demo_api_def demo_shop_def)
  have "fst (ask_store demo_shop w1 50 o' ''paid'') = Confirmed" "\<not> token_taken demo_shop w1 o' ''paid''"
    using o'(5) demo_second_facts(2) w1 by (simp_all add: ask_store_def token_taken_def h(2) split: prod.splits)
  then show ?thesis
    using purchase_swallowed [OF demo_api_wired _ s(1) [folded demo_theft(1)] rtranclp.rtrancl_refl _ g o'(4), of "''paid''" 50]
      demo_reachable attacked_world_ok demo_pending_ok w1(1) s o'(2,3) by (auto simp: h(1))
qed

end
