(* ===== verification/Spec2Isabelle.thy ===== *)
theory Spec2Isabelle
  imports Order_Service Fraud PV Referral Match Moderation Hub Social Creator Feed Chat Admin Profile
    Rollout Edge Streaming Analytics Player Persistence Routes Wallet_Api
begin

text \<open>
  A verification of the server of the Lumena live-streaming platform (Go). The paths below are relative to
  \<open>src/\<close>. One process, started by \<open>feed/cmd/api/main.go\<close>, holds a set of modules; each has a domain
  package with its types and an in-memory store (a mutex around maps), a service package with its
  operations, and HTTP handlers. Modules do not import each other: \<open>main.go\<close> joins them by closures. The
  modules and their closures are modelled; a step is one locked operation or one service call, and where a
  service makes several calls on a store that others use too, the steps between them are made explicit.

  \<^bold>\<open>Shared vocabulary.\<close> \<open>GoPrelude\<close>: 64-bit arithmetic with its wrap-around, times, Go maps as
  association lists, decimal printing. \<open>GoText\<close>: padded counters, splitting, base64.

  \<^bold>\<open>Money.\<close> \<open>Ledger\<close> is \<open>ledger/ledger.go\<close> and \<open>ledger/mem_ledger.go\<close>: balances, the append-only
  journal, idempotency keys and reversals (\<open>mem_ledger\<close>); its lemmas say that postings balance, that
  wallets stay non-negative, that a key posts once, that a reversal undoes once, and that the balances are
  the journal's. \<open>Ledger_Repo\<close> states the interface \<open>ledger.Repo\<close> as a locale, interpreted on the
  in-memory ledger; the gift service and others are proved against it. \<open>Gifts\<close> is
  \<open>ledger/giftsvc\<close>, \<open>SpendLimits\<close> the purchase caps, \<open>Orders\<close> and \<open>Stores\<close> the orders and the payment
  verifiers, \<open>Order_Service\<close> \<open>ledger/ordersvc\<close> with its reconciler: a purchase is cut into the steps
  between which the process may crash or other requests run, and is credited exactly once. \<open>Wallet_Api\<close> is \<open>ledger/handlers\<close>: what each endpoint answers, whose money
  a request can move, and how a purchase is lost when its key was used before. \<open>Creator\<close> is
  \<open>creator\<close>: payouts, earnings, KYC. \<open>Referral\<close> is \<open>referral\<close>, with claims cut into steps in the same
  way.

  \<^bold>\<open>Accounts.\<close> \<open>OTP\<close>, \<open>Password\<close>, \<open>Token\<close> and \<open>Auth\<close> are \<open>auth\<close>: one-time codes, password
  hashes, access and refresh tokens, the account store and sign-in. \<open>Edge\<close> is the middleware of \<open>main.go\<close>
  through which every request comes: who the caller is, the metrics, the recovery from panics; \<open>Routes\<close> is its
  router, with the gate in front of each route. \<open>Profile\<close> and
  \<open>Social\<close> are \<open>profile\<close>: profiles, handles, follows, blocks and mutes.

  \<^bold>\<open>What people do.\<close> \<open>Feed\<close> is \<open>feed\<close>: rooms, the paginated feed, premium rooms. \<open>Streaming\<close> is
  \<open>streaming\<close>: broadcast sessions, their health monitor and the classifier's results; \<open>Player\<close> is the player contract in
  \<open>streaming/internal/media\<close>, the teardown order and the reconnect back-off. \<open>Chat\<close> is \<open>chat\<close>: conversations, messages, attachments. \<open>PV\<close> is \<open>pv\<close>: paid video calls, billed by the connected
  minute from a hold. \<open>Match\<close> is \<open>match\<close>. \<open>Bus\<close> and \<open>Hub\<close> are \<open>gateway\<close>: the event topics with their
  ring of 500 events, the connections and every message of a client.

  \<^bold>\<open>Oversight.\<close> \<open>Moderation\<close> and \<open>Risk\<close> are \<open>moderation\<close>, \<open>Fraud\<close> is \<open>fraud\<close>, \<open>Admin\<close> is \<open>admin\<close>
  (roles, audit log, tickets, refunds, withdrawals), \<open>Rollout\<close> is \<open>rollout\<close> (feature flags, canary
  metrics), \<open>Analytics\<close> is \<open>analytics\<close> (dashboards over the ledger, the broadcasts and the event log).

  \<^bold>\<open>Restarts.\<close> \<open>Persistence\<close> is \<open>feed/cmd/api/localstate.go\<close> with the \<open>Snapshot\<close> and \<open>Restore\<close> of the five
  stores it keeps: a save is cut into its system calls, requests run between them, and the process may crash at
  any of them; its lemmas say what the next process starts with.

  \<^bold>\<open>Across modules.\<close> This theory holds what spans them: a block of one account by another closes the
  profile, the follow, the conversation, the message and the call between them.

  \<^bold>\<open>How to read the theories.\<close> Data are records and datatypes with the source's names and a two- or
  three-letter prefix for fields; an operation has the source's name, prefixed where two packages share
  one. An operation that can fail yields \<open>Inl\<close> of an error or \<open>Inr\<close> of a result, paired with the new
  state; a run-time panic of Go (a nil dereference, an index out of range) is an error of its own. Each
  theory gives the operations first, then a datatype of calls with the function that performs one, and the
  invariants over every sequence of calls; the witnesses apply each statement to a concrete state.

  \<^bold>\<open>Parameters.\<close> Code outside the repository and values from outside are arguments: digests and JSON
  (\<open>token_crypto\<close>), random bytes, the payment stores, the order in which Go meets the entries of a map,
  floating-point steps. What a statement needs of them is a hypothesis, and its witness gives an instance.
  The clock is read once per call and is an argument of it.

  \<^bold>\<open>Bounds and loops.\<close> Integers that the code adds or multiplies as money are 64-bit and wrap; the
  statements bound them where the code does, and show the wrap where it does not. Counters that only grow
  by one (sequence numbers, IDs) are natural numbers. A client or a loop that follows cursors until the last
  page (the ledger history, the feed, a conversation, \<open>followerHistory\<close> of \<open>main.go\<close>) has a fuel that counts
  pages, running out of it is \<open>None\<close>, and each statement about it proves \<open>Some\<close> with the number of
  entries as fuel, because every page but the last advances by at least one entry. All other loops are
  structural or have a measure; goroutines (the reconciler, the health monitor, the receive loop of a
  connection) are steps in a sequence or relation of steps.

  \<^bold>\<open>Not modelled.\<close> The PostgreSQL repositories (\<open>*/pgrepo\<close>) and migrations: SQL text for a database,
  behind the same interfaces as the in-memory stores. Most HTTP handlers: JSON decoding and encoding around
  the service calls that are modelled; where a handler decides something it is modelled with its module.
  The ranking formula of the feed and the seed data (floating point, random numbers), the translation
  provider, the web pages, the load generator, the older \<open>backend\<close> module and \<open>ledger/internal\<close>, which
  the server does not import.
\<close>

section \<open>A block and the modules that ask for it\<close>

text \<open>The calls service with the block closure of \<open>main.go\<close> over the same social graph.\<close>

definition blocked_as_in :: "chat_world \<Rightarrow> 'l pv_service \<Rightarrow> bool" where
  "blocked_as_in w s \<longleftrightarrow> ps_isBlocked s = Some (\<lambda>x y. Inr (chat_isBlocked w x y))"

lemma isBlocked_after_block:
  assumes "BlockAccount g now a b = (Inr rel, g')"
  shows "isBlocked g' a b" and "a \<noteq> b"
  using assms by (auto simp: BlockAccount_def isBlocked_def Let_def split: if_splits)

lemma chat_isBlocked_iff: "chat_isBlocked w x y \<longleftrightarrow> isBlocked (cw_social w) x y \<or> isBlocked (cw_social w) y x"
  by (simp add: chat_isBlocked_def GetRelationship_def relationship_of_def Let_def)

text \<open>C17: One block closes every channel, in both directions. Once \<open>a\<close> has blocked \<open>b\<close>, neither of them can see the
  profile of the other (the answer is the one for an account that does not exist), follow the other, start a
  conversation, or send a message in the conversation they have; and neither can call the other: a request is refused, or
  answered with the session of an earlier request under the same key, and no hold is taken and nobody is notified.\<close>

theorem block_closes_channels:
  assumes "BlockAccount g now a b = (Inr rel, g')" and "a \<noteq> []" and "b \<noteq> []"
    and "prw_social pw = g'" and "cw_social cw = g'" and "blocked_as_in cw ps"
    and "map_of (cm_byID (cw_repo cw)) c = Some conv" and "{cv_ParticipantA conv, cv_ParticipantB conv} = {a, b}"
    and "(x, y) \<in> {(a, b), (b, a)}"
  shows "GetProfile pw x y = Inl ErrProfileUnavailable \<and>
    (\<exists>err. Follow g' t x y = (Inl err, g')) \<and>
    StartConversation cw x y = (Inl ErrBlocked, cw) \<and>
    (\<exists>err. SendMessage cw t x c cid body att = (Inl err, cw, [])) \<and>
    snd (RequestSession ps w t i x y rate key) = (w, []) \<and>
    ((\<exists>err. fst (RequestSession ps w t i x y rate key) = Inl err) \<or>
     (\<exists>sess. fst (RequestSession ps w t i x y rate key) = Inr (sess, False) \<and> replayed_session ps w key = Some sess))"
proof -
  have blk: "isBlocked g' a b" "a \<noteq> b" using isBlocked_after_block [OF assms(1)] by blast+
  then have xy: "isBlocked g' x y \<or> isBlocked g' y x" "x \<noteq> y" "x \<noteq> []" "y \<noteq> []"
    using assms(2,3,9) by auto
  have "GetProfile pw x y = Inl ErrProfileUnavailable"
    using block_hides_profile [of pw x y] xy assms(4) by blast
  moreover have "\<exists>err. Follow g' t x y = (Inl err, g')" using xy by (auto simp: Follow_def)
  moreover have cb: "chat_isBlocked cw x y" using xy assms(5) by (simp add: chat_isBlocked_iff)
  then have "StartConversation cw x y = (Inl ErrBlocked, cw)" using xy by (simp add: StartConversation_def)
  moreover have "\<exists>err. SendMessage cw t x c cid body att = (Inl err, cw, [])"
  proof -
    have "ConvHasParticipant conv x" "Other conv x = y"
      using assms(8,9) xy(2) by (auto simp: ConvHasParticipant_def Other_def doubleton_eq_iff)
    then show ?thesis using cb assms(7) by (simp add: SendMessage_def GetConversation_def)
  qed
  moreover have "\<exists>err. pv_gates ps x y = Some err"
    using cb assms(6) by (auto simp: pv_gates_def blocked_as_in_def split: sum.splits)
  then have "snd (RequestSession ps w t i x y rate key) = (w, []) \<and>
    ((\<exists>err. fst (RequestSession ps w t i x y rate key) = Inl err) \<or>
     (\<exists>sess. fst (RequestSession ps w t i x y rate key) = Inr (sess, False) \<and> replayed_session ps w key = Some sess))"
    using xy(2) by (auto simp: RequestSession_def Let_def split: option.splits)
  ultimately show ?thesis by blast
qed

definition demo_graph :: mem_social where
  "demo_graph = snd (BlockAccount NewMemSocialRepo 9 ''acc-0002'' ''acc-0001'')"

lemma block_closes_channels_witness:
  "(\<exists>err. SendMessage (demo_before\<lparr>cw_social := demo_graph\<rparr>) 10 ''acc-0001'' ''conv-acc-0001-acc-0002'' ''k'' ''hi'' [] =
      (Inl err, demo_before\<lparr>cw_social := demo_graph\<rparr>, [])) \<and>
   snd (RequestSession (demo_pv\<lparr>ps_isBlocked := Some (\<lambda>x y. Inr (chat_isBlocked (demo_before\<lparr>cw_social := demo_graph\<rparr>) x y))\<rparr>)
     demo_ringing 10 ''pv-9'' ''acc-0001'' ''acc-0002'' 10 ''k9'') = (demo_ringing, [])"
proof -
  let ?w = "demo_before\<lparr>cw_social := demo_graph\<rparr>"
  obtain rel where b: "BlockAccount NewMemSocialRepo 9 ''acc-0002'' ''acc-0001'' = (Inr rel, demo_graph)"
    by (simp add: demo_graph_def BlockAccount_def Let_def)
  have "map_option (\<lambda>cv. (cv_ParticipantA cv, cv_ParticipantB cv)) (map_of (cm_byID (cw_repo ?w)) ''conv-acc-0001-acc-0002'') =
      Some (''acc-0001'', ''acc-0002'')"
    by code_simp
  then obtain conv where conv: "map_of (cm_byID (cw_repo ?w)) ''conv-acc-0001-acc-0002'' = Some conv"
    "{cv_ParticipantA conv, cv_ParticipantB conv} = {''acc-0002'', ''acc-0001''}"
    by (auto simp: insert_commute)
  show ?thesis
    using block_closes_channels [OF b _ _ _ _ _ conv, of "\<lparr>prw_profiles = NewMemProfileRepo, prw_privacy = [], prw_social = demo_graph\<rparr>"
        "demo_pv\<lparr>ps_isBlocked := Some (\<lambda>x y. Inr (chat_isBlocked ?w x y))\<rparr>" "''acc-0001''" "''acc-0002''" 10 "''k''" "''hi''" "[]" demo_ringing]
    by (simp add: blocked_as_in_def)
qed

end
